(* ===== verification/Prelude.thy ===== *)
theory Prelude
  imports Main "HOL-Library.Word" "HOL-Library.Code_Target_Nat"
begin

text \<open>
  Shared vocabulary of the development: the C and C++ standard-library functions the
  gateway uses on byte strings (\<^verbatim>\<open><cctype>\<close>, \<^verbatim>\<open>std::string::find\<close>, \<^verbatim>\<open>substr\<close>,
  \<^verbatim>\<open>std::to_string\<close>), the splitting loops that recur in the sources, and the generic lemmas and
  simplification collections the component theories rest on.

  A \<^verbatim>\<open>std::string\<close> or \<^verbatim>\<open>std::string_view\<close> is a list of 8-bit characters. A
  \<^verbatim>\<open>size_t\<close> is a natural number; where the source computes with values an input can make
  arbitrarily large, the wrap-around at 64 bits is written out.
\<close>

named_theorems cxx_result \<open>what a composed result that is an error or a value means\<close>
named_theorems cxx_char \<open>unfolding rules for the character classes of the C locale\<close>
named_theorems cxx_str \<open>rules about the string operations of the standard library\<close>

type_synonym header = "string \<times> string"
type_synonym headers = "header list"

section \<open>Characters\<close>

abbreviation code :: "char \<Rightarrow> nat" where
  "code c \<equiv> of_char c"

definition NUL :: char where "NUL = CHR 0x00"
definition CR :: char where "CR = CHR 0x0D"
definition LF :: char where "LF = CHR 0x0A"
definition CRLF :: string where "CRLF = [CR, LF]"
definition DQUOTE :: char where "DQUOTE = CHR 0x22"
definition BACKSLASH :: char where "BACKSLASH = CHR 0x5C"

definition isdigit :: "char \<Rightarrow> bool" where
  "isdigit c \<longleftrightarrow> 48 \<le> code c \<and> code c \<le> 57"

definition isspace :: "char \<Rightarrow> bool" where
  "isspace c \<longleftrightarrow> code c = 32 \<or> (9 \<le> code c \<and> code c \<le> 13)"

definition isupper :: "char \<Rightarrow> bool" where
  "isupper c \<longleftrightarrow> 65 \<le> code c \<and> code c \<le> 90"

definition islower :: "char \<Rightarrow> bool" where
  "islower c \<longleftrightarrow> 97 \<le> code c \<and> code c \<le> 122"

definition isxdigit :: "char \<Rightarrow> bool" where
  "isxdigit c \<longleftrightarrow> isdigit c \<or> (65 \<le> code c \<and> code c \<le> 70) \<or> (97 \<le> code c \<and> code c \<le> 102)"

definition isprint :: "char \<Rightarrow> bool" where
  "isprint c \<longleftrightarrow> 32 \<le> code c \<and> code c \<le> 126"

definition tolower :: "char \<Rightarrow> char" where
  "tolower c = (if isupper c then char_of (code c + 32) else c)"

definition toupper :: "char \<Rightarrow> char" where
  "toupper c = (if islower c then char_of (code c - 32) else c)"

lemmas [cxx_char] = isdigit_def isspace_def isupper_def islower_def isxdigit_def isprint_def

lemma code_less [simp]: "code c < 256"
  by (cases c) (simp add: horner_sum_of_bool_2_less)

lemma code_diff_mod [simp]: "(code c - k) mod 256 = code c - k"
  by (rule mod_less) (use code_less [of c] in linarith)

lemma code_inj [simp]: "code c = code d \<longleftrightarrow> c = d"
  by simp

lemma code_tolower: "code (tolower c) = (if isupper c then code c + 32 else code c)"
  by (simp add: tolower_def isupper_def)

lemma code_toupper: "code (toupper c) = (if islower c then code c - 32 else code c)"
  by (simp add: toupper_def islower_def)

lemma tolower_idem [simp]: "tolower (tolower c) = tolower c"
  by (simp add: tolower_def isupper_def)

lemma not_isupper_tolower [simp]: "\<not> isupper (tolower c)"
  by (simp add: tolower_def isupper_def)

lemma tolower_toupper [simp]: "tolower (toupper c) = tolower c"
  by (auto simp: tolower_def toupper_def isupper_def islower_def)

text \<open>Characters that are not letters are fixed by the case mappings, and no letter maps to them.\<close>

lemma tolower_eq_nonletter:
  assumes "\<not> isupper d" and "\<not> islower d"
  shows "tolower c = d \<longleftrightarrow> c = d"
proof
  assume "tolower c = d"
  then have "code (tolower c) = code d" by simp
  with assms show "c = d"
    by (auto simp: code_tolower isupper_def islower_def split: if_splits)
qed (use assms in \<open>simp add: tolower_def\<close>)

lemma toupper_eq_nonletter:
  assumes "\<not> isupper d" and "\<not> islower d"
  shows "toupper c = d \<longleftrightarrow> c = d"
proof
  assume "toupper c = d"
  then have "code (toupper c) = code d" by simp
  with assms show "c = d"
    by (auto simp: code_toupper isupper_def islower_def split: if_splits)
qed (use assms in \<open>simp add: toupper_def\<close>)

section \<open>Searching, slicing and trimming\<close>

definition find_char :: "char \<Rightarrow> string \<Rightarrow> nat option" where
  "find_char c s = (if c \<in> set s then Some (length (takeWhile (\<lambda>x. x \<noteq> c) s)) else None)"

definition rfind_char :: "char \<Rightarrow> string \<Rightarrow> nat option" where
  "rfind_char c s =
     (if c \<in> set s then Some (length s - 1 - length (takeWhile (\<lambda>x. x \<noteq> c) (rev s))) else None)"

definition starts_with :: "string \<Rightarrow> string \<Rightarrow> bool" where
  "starts_with p s \<longleftrightarrow> take (length p) s = p"

fun find_sub :: "string \<Rightarrow> string \<Rightarrow> nat option" where
  "find_sub p s =
     (if starts_with p s then Some 0
      else case s of [] \<Rightarrow> None | _ # xs \<Rightarrow> map_option Suc (find_sub p xs))"

declare find_sub.simps [simp del]

definition trim_left :: "string \<Rightarrow> string" where
  "trim_left s = dropWhile isspace s"

definition trim_right :: "string \<Rightarrow> string" where
  "trim_right s = rev (dropWhile isspace (rev s))"

definition trim :: "string \<Rightarrow> string" where
  "trim s = trim_right (trim_left s)"

definition lower :: "string \<Rightarrow> string" where
  "lower s = map tolower s"

text \<open>
  The loop \<^verbatim>\<open>while (start <= s.size()) { pos = s.find(c, start); ...; if (pos == npos) break;
  start = pos + 1; }\<close> visits the pieces of \<open>s\<close> between separators, the last one included even
  when it is empty. The variant \<^verbatim>\<open>while (pos < s.size())\<close> leaves out an empty last piece.
\<close>

fun split_on :: "char \<Rightarrow> string \<Rightarrow> string list" where
  "split_on c [] = [[]]"
| "split_on c (x # xs) =
     (if x = c then [] # split_on c xs
      else case split_on c xs of [] \<Rightarrow> [[x]] | p # ps \<Rightarrow> (x # p) # ps)"

fun split_lt :: "char \<Rightarrow> string \<Rightarrow> string list" where
  "split_lt c s =
     (if s = [] then []
      else case find_char c s of
             None \<Rightarrow> [s]
           | Some i \<Rightarrow> take i s # split_lt c (drop (Suc i) s))"

declare split_lt.simps [simp del]

lemma find_char_None: "find_char c s = None \<longleftrightarrow> c \<notin> set s"
  by (simp add: find_char_def)

lemma find_char_Cons [simp]:
  "find_char c (x # xs) = (if x = c then Some 0 else map_option Suc (find_char c xs))"
  by (auto simp: find_char_def)

lemma find_char_Some:
  "find_char c s = Some i \<longleftrightarrow> i < length s \<and> s ! i = c \<and> c \<notin> set (take i s)"
proof (induction s arbitrary: i)
  case Nil
  show ?case by (simp add: find_char_def)
next
  case (Cons x xs)
  then show ?case by (cases i) auto
qed

lemma find_char_append_fresh:
  "c \<notin> set xs \<Longrightarrow> find_char c (xs @ c # ys) = Some (length xs)"
  by (induction xs) auto

lemma find_char_split:
  "find_char c s = Some i \<Longrightarrow> s = take i s @ c # drop (Suc i) s"
  by (metis find_char_Some id_take_nth_drop)

lemma starts_with_iff [cxx_str]: "starts_with p s \<longleftrightarrow> (\<exists>r. s = p @ r)"
  by (auto simp: starts_with_def) (metis append_take_drop_id)

lemma starts_with_refl [simp]: "starts_with p p" and starts_with_Nil [simp]: "starts_with [] s"
  by (simp_all add: starts_with_def)

lemma find_sub_0_iff: "find_sub p s = Some 0 \<longleftrightarrow> starts_with p s"
  by (subst find_sub.simps) (auto split: list.splits)

lemma find_sub_Some_split:
  "find_sub p s = Some i \<Longrightarrow> s = take i s @ p @ drop (i + length p) s"
proof (induction s arbitrary: i)
  case Nil
  then show ?case by (auto simp: find_sub.simps starts_with_def split: if_splits)
next
  case (Cons x xs)
  show ?case
  proof (cases "starts_with p (x # xs)")
    case True
    with Cons.prems have "i = 0" by (simp add: find_sub.simps)
    with True show ?thesis by (auto simp: starts_with_iff)
  next
    case False
    with Cons.prems obtain j where j: "find_sub p xs = Some j" "i = Suc j"
      by (auto simp: find_sub.simps [of p "x # xs"])
    with Cons.IH [OF j(1)] show ?thesis by simp
  qed
qed

lemma find_sub_Some_bound: "find_sub p s = Some i \<Longrightarrow> i + length p \<le> length s"
proof (induction s arbitrary: i)
  case Nil
  then show ?case by (auto simp: find_sub.simps starts_with_def split: if_splits)
next
  case (Cons x xs)
  show ?case
  proof (cases "starts_with p (x # xs)")
    case True
    then obtain r where "x # xs = p @ r" by (auto simp: starts_with_iff)
    then have "length p \<le> length (x # xs)" by simp
    with True Cons.prems show ?thesis by (simp add: find_sub.simps)
  next
    case False
    with Cons.prems obtain j where "find_sub p xs = Some j" and "i = Suc j"
      by (auto simp: find_sub.simps [of p "x # xs"])
    with Cons.IH show ?thesis by fastforce
  qed
qed

lemma find_sub_append: "find_sub p s = Some i \<Longrightarrow> find_sub p (s @ x) = Some i"
proof (induction s arbitrary: i)
  case Nil
  then have "p = []" "i = 0" by (auto simp: find_sub.simps starts_with_def split: if_splits)
  then show ?case by (simp add: find_sub_0_iff)
next
  case (Cons c s)
  show ?case
  proof (cases "starts_with p (c # s)")
    case True
    then have "starts_with p ((c # s) @ x)" by (metis append.assoc starts_with_iff)
    then show ?thesis using Cons.prems True find_sub_0_iff [of p "c # s"] find_sub_0_iff [of p "(c # s) @ x"] by simp
  next
    case False
    then obtain j where j: "find_sub p s = Some j" "i = Suc j"
      using Cons.prems by (auto simp: find_sub.simps [of p "c # s"])
    then have "length p \<le> length (c # s)" using find_sub_Some_bound [OF j(1)] by simp
    then have "\<not> starts_with p (c # s @ x)" using False by (cases p) (auto simp: starts_with_def)
    then show ?thesis using j Cons.IH by (simp add: find_sub.simps [of p "c # s @ x"])
  qed
qed

lemma find_sub_CRLF_line:
  assumes "CR \<notin> set xs"
  shows "find_sub CRLF (xs @ CRLF @ ys) = Some (length xs)"
  using assms
proof (induction xs)
  case Nil
  show ?case by (simp add: find_sub.simps starts_with_def CRLF_def)
next
  case (Cons x xs)
  from Cons have "find_sub CRLF (xs @ CRLF @ ys) = Some (length xs)" and "x \<noteq> CR" by auto
  then show ?case
    by (subst find_sub.simps) (simp add: starts_with_def CRLF_def)
qed

lemma trim_Nil [simp]: "trim [] = []"
  by (simp add: trim_def trim_left_def trim_right_def)

lemma set_trim: "set (trim s) \<subseteq> set s"
  by (auto simp: trim_def trim_left_def trim_right_def dest!: set_dropWhileD)

lemma length_trim_le: "length (trim s) \<le> length s"
proof -
  have "length (trim s) \<le> length (trim_left s)"
    by (simp add: trim_def trim_right_def) (metis length_dropWhile_le length_rev)
  also have "\<dots> \<le> length s"
    by (simp add: trim_left_def length_dropWhile_le)
  finally show ?thesis .
qed

lemma dropWhile_none: "\<forall>c \<in> set s. \<not> P c \<Longrightarrow> dropWhile P s = s"
  by (cases s) auto

lemma trim_id: "\<forall>c \<in> set s. \<not> isspace c \<Longrightarrow> trim s = s"
  using dropWhile_none [of s isspace] dropWhile_none [of "rev s" isspace]
  by (simp add: trim_def trim_left_def trim_right_def)

lemma all_dropWhile_iff: "(\<forall>c \<in> set (dropWhile P s). P c) \<longleftrightarrow> (\<forall>c \<in> set s. P c)"
  by (induction s) auto

lemma trim_eq_Nil: "trim s = [] \<longleftrightarrow> (\<forall>c \<in> set s. isspace c)"
  by (simp add: trim_def trim_left_def trim_right_def dropWhile_eq_Nil_conv all_dropWhile_iff)

lemma dropWhile_idem_hd: "dropWhile P xs \<noteq> [] \<Longrightarrow> \<not> P (hd (dropWhile P xs))"
  by (rule hd_dropWhile)

lemma trim_left_trim_right:
  assumes "trim_left s = s"
  shows "trim_left (trim_right s) = trim_right s"
proof (cases "trim_right s = []")
  case True
  then show ?thesis by (simp add: trim_left_def)
next
  case False
  then obtain r where r: "s = trim_right s @ r"
    by (simp add: trim_right_def)
       (metis append_take_drop_id dropWhile_eq_drop rev_append rev_rev_ident)
  from False r have "hd s = hd (trim_right s)" and "s \<noteq> []"
    by (metis hd_append2, auto)
  with assms have "\<not> isspace (hd (trim_right s))"
    by (metis dropWhile_idem_hd trim_left_def)
  with False show ?thesis
    by (simp add: trim_left_def dropWhile_eq_self_iff)
qed

lemma trim_idem [simp]: "trim (trim s) = trim s"
proof -
  have "trim_left (trim_left s) = trim_left s"
    by (simp add: trim_left_def)
  then have "trim_left (trim s) = trim s"
    unfolding trim_def by (rule trim_left_trim_right)
  then show ?thesis
    by (simp add: trim_def) (simp add: trim_right_def)
qed

lemma dropWhile_length_id: "length (dropWhile P xs) = length xs \<Longrightarrow> dropWhile P xs = xs"
  using length_dropWhile_le [of P "tl xs"] by (cases xs) (auto split: if_splits)

lemma trim_eq_self_iff:
  "trim s = s \<longleftrightarrow> s = [] \<or> (\<not> isspace (hd s) \<and> \<not> isspace (last s))"
proof
  assume t: "trim s = s"
  have "length (rev (dropWhile isspace (rev (trim_left s)))) \<le> length (trim_left s)"
    using length_dropWhile_le [of isspace "rev (trim_left s)"] by simp
  moreover have "rev (dropWhile isspace (rev (trim_left s))) = s"
    using t by (simp add: trim_def trim_right_def)
  ultimately have "length s \<le> length (trim_left s)" by simp
  then have a: "dropWhile isspace s = s"
    using length_dropWhile_le [of isspace s] by (intro dropWhile_length_id) (simp add: trim_left_def)
  then have "rev (dropWhile isspace (rev s)) = s"
    using t by (simp add: trim_def trim_left_def trim_right_def)
  then have "dropWhile isspace (rev s) = rev s" by (metis rev_rev_ident)
  with a show "s = [] \<or> (\<not> isspace (hd s) \<and> \<not> isspace (last s))"
    by (auto simp: dropWhile_eq_self_iff hd_rev)
next
  assume "s = [] \<or> (\<not> isspace (hd s) \<and> \<not> isspace (last s))"
  then have "dropWhile isspace s = s" and "dropWhile isspace (rev s) = rev s"
    by (auto simp: dropWhile_eq_self_iff hd_rev)
  then show "trim s = s" by (simp add: trim_def trim_left_def trim_right_def)
qed

lemma length_lower [simp]: "length (lower s) = length s"
  by (simp add: lower_def)

lemma lower_idem [simp]: "lower (lower s) = lower s"
  by (simp add: lower_def)

lemma split_on_neq_Nil [simp]: "split_on c s \<noteq> []"
  by (induction s) (auto split: list.splits)

lemma split_on_fresh: "c \<notin> set s \<Longrightarrow> split_on c s = [s]"
  by (induction s) auto

lemma split_on_append: "c \<notin> set p \<Longrightarrow> split_on c (p @ c # s) = p # split_on c s"
  by (induction p) auto

text \<open>The recursion over the suffix left after each \<open>find\<close>, as the loops run.\<close>

lemma split_on_find:
  "split_on c s = (case find_char c s of
      None \<Rightarrow> [s] | Some i \<Rightarrow> take i s # split_on c (drop (Suc i) s))"
proof (cases "find_char c s")
  case None
  then have "c \<notin> set s" by (simp add: find_char_None)
  then have "split_on c s = [s]" by (rule split_on_fresh)
  with None show ?thesis by (simp only: option.case)
next
  case (Some i)
  then have "s = take i s @ c # drop (Suc i) s" and "c \<notin> set (take i s)"
    by (auto simp: find_char_split find_char_Some)
  with Some show ?thesis
    by (metis option.simps(5) split_on_append)
qed

lemma split_on_piece: "p \<in> set (split_on c s) \<Longrightarrow> c \<notin> set p \<and> set p \<subseteq> set s"
proof (induction s arbitrary: p)
  case Nil
  then show ?case by simp
next
  case (Cons x xs)
  obtain q qs where q: "split_on c xs = q # qs"
    by (metis split_on_neq_Nil list.exhaust)
  show ?case
    using Cons.prems Cons.IH [of p] Cons.IH [of q] q
    by (auto split: if_splits)
qed

fun join_with :: "char \<Rightarrow> string list \<Rightarrow> string" where
  "join_with c [] = []"
| "join_with c [p] = p"
| "join_with c (p # ps) = p @ c # join_with c ps"

lemma join_split_on [simp]: "join_with c (split_on c s) = s"
proof (induction s)
  case Nil
  show ?case by simp
next
  case (Cons x xs)
  obtain q qs where q: "split_on c xs = q # qs"
    by (metis split_on_neq_Nil list.exhaust)
  with Cons.IH show ?case by (cases qs) auto
qed

lemma split_on_join:
  "ps \<noteq> [] \<Longrightarrow> \<forall>p \<in> set ps. c \<notin> set p \<Longrightarrow> split_on c (join_with c ps) = ps"
  by (induction c ps rule: join_with.induct) (auto simp: split_on_fresh split_on_append)

section \<open>Decimal numerals\<close>

text \<open>\<^verbatim>\<open>std::to_string\<close> of an unsigned value.\<close>

fun dec_of_nat :: "nat \<Rightarrow> string" where
  "dec_of_nat n = (if n < 10 then [char_of (48 + n)]
                   else dec_of_nat (n div 10) @ [char_of (48 + n mod 10)])"

declare dec_of_nat.simps [simp del]

definition digit_val :: "char \<Rightarrow> nat" where
  "digit_val c = code c - 48"

definition dec_val :: "string \<Rightarrow> nat" where
  "dec_val s = foldl (\<lambda>v c. v * 10 + digit_val c) 0 s"

lemma isdigit_digit [simp]: "(n::nat) < 10 \<Longrightarrow> isdigit (char_of (48 + n))"
  by (simp add: isdigit_def)

lemma digit_val_digit [simp]: "(n::nat) < 10 \<Longrightarrow> digit_val (char_of (48 + n)) = n"
  by (simp add: digit_val_def)

lemma digit_val_less: "isdigit c \<Longrightarrow> digit_val c < 10"
  by (auto simp: isdigit_def digit_val_def)

lemma isdigit_not_isspace: "isdigit c \<Longrightarrow> \<not> isspace c"
  by (auto simp: isdigit_def isspace_def)

lemma dec_of_nat_digits: "\<forall>c \<in> set (dec_of_nat n). isdigit c"
proof (induction n rule: dec_of_nat.induct)
  case (1 n)
  then show ?case
    by (cases "n < 10") (simp_all add: dec_of_nat.simps [of n])
qed

lemma dec_of_nat_neq_Nil [simp]: "dec_of_nat n \<noteq> []"
  by (subst dec_of_nat.simps) simp

lemma dec_val_dec_of_nat [simp]: "dec_val (dec_of_nat n) = n"
proof (induction n rule: dec_of_nat.induct)
  case (1 n)
  show ?case
  proof (cases "n < 10")
    case True
    then show ?thesis by (simp add: dec_of_nat.simps [of n] dec_val_def)
  next
    case False
    with 1 have "dec_val (dec_of_nat (n div 10)) = n div 10" by simp
    with False show ?thesis by (simp add: dec_of_nat.simps [of n] dec_val_def)
  qed
qed

lemma trim_dec_of_nat [simp]: "trim (dec_of_nat n) = dec_of_nat n"
  by (rule trim_id) (use dec_of_nat_digits isdigit_not_isspace in blast)

text \<open>\<^verbatim>\<open>std::to_string\<close> of a signed value.\<close>

definition dec_of_int :: "int \<Rightarrow> string" where
  "dec_of_int i = (if i < 0 then CHR ''-'' # dec_of_nat (nat (- i)) else dec_of_nat (nat i))"

text \<open>
  \<^verbatim>\<open>std::stoi\<close>: leading white space, an optional sign, a run of digits; the value with the
  number of characters read, or the exception (\<open>None\<close>) when there is no digit or the value does
  not fit an \<^verbatim>\<open>int\<close>. What follows the digits is not looked at.
\<close>

definition INT_MIN :: int where "INT_MIN = - (2 ^ 31)"
definition INT_MAX :: int where "INT_MAX = 2 ^ 31 - 1"

definition stoi :: "string \<Rightarrow> (int \<times> nat) option" where
  "stoi s =
     (let s1 = dropWhile isspace s;
          neg = (s1 \<noteq> [] \<and> hd s1 = CHR ''-'');
          s2 = (if s1 \<noteq> [] \<and> (hd s1 = CHR ''-'' \<or> hd s1 = CHR ''+'') then tl s1 else s1);
          ds = takeWhile isdigit s2;
          v = (if neg then - int (dec_val ds) else int (dec_val ds))
      in if ds = [] \<or> v < INT_MIN \<or> INT_MAX < v then None
         else Some (v, length s - length s2 + length ds))"

text \<open>
  \<^verbatim>\<open>std::from_chars\<close> for an \<^verbatim>\<open>int\<close>, asked to consume the whole string: an optional minus sign and
  digits, in range; no white space, no plus sign.
\<close>

definition from_chars_int :: "string \<Rightarrow> int option" where
  "from_chars_int s =
     (let neg = (s \<noteq> [] \<and> hd s = CHR ''-'');
          ds = (if neg then tl s else s);
          v = (if neg then - int (dec_val ds) else int (dec_val ds))
      in if ds \<noteq> [] \<and> list_all isdigit ds \<and> INT_MIN \<le> v \<and> v \<le> INT_MAX then Some v else None)"

lemma dec_of_nat_hd: "hd (dec_of_nat n) \<noteq> CHR ''-''"
proof -
  have "isdigit (hd (dec_of_nat n))" using dec_of_nat_digits [of n] by simp
  then show ?thesis by (auto simp: isdigit_def)
qed

lemma from_chars_int_dec [simp]:
  "INT_MIN \<le> i \<Longrightarrow> i \<le> INT_MAX \<Longrightarrow> from_chars_int (dec_of_int i) = Some i"
  using dec_of_nat_digits dec_of_nat_hd
  by (auto simp: from_chars_int_def dec_of_int_def Let_def list_all_iff)

section \<open>Counting over a list of workers\<close>

lemma sum_list_map_update:
  "t < length xs \<Longrightarrow> sum_list (map f (xs[t := v])) = sum_list (map f xs) - f (xs ! t) + (f v :: int)"
proof (induction xs arbitrary: t)
  case (Cons x xs)
  then show ?case by (cases t) auto
qed simp

section \<open>Machine words\<close>

definition SIZE_MAX :: nat where
  "SIZE_MAX = 2 ^ 64 - 1"

text \<open>Unsigned 64-bit results (\<^verbatim>\<open>size_t\<close>, \<^verbatim>\<open>uint64_t\<close>).\<close>

definition wrap64 :: "nat \<Rightarrow> nat" where
  "wrap64 n = n mod 2 ^ 64"

lemma wrap64_id: "n \<le> SIZE_MAX \<Longrightarrow> wrap64 n = n"
  by (simp add: wrap64_def SIZE_MAX_def)

lemma wrap64_le: "wrap64 n \<le> SIZE_MAX"
proof -
  have "n mod 2 ^ 64 < (2 ^ 64 :: nat)" by (rule mod_less_divisor) simp
  then show ?thesis by (simp add: wrap64_def SIZE_MAX_def)
qed

section \<open>Results that may be errors\<close>

definition try_then :: "'e + 'a \<Rightarrow> ('a \<Rightarrow> 'e + 'b) \<Rightarrow> 'e + 'b" where
  "try_then r f = (case r of Inl e \<Rightarrow> Inl e | Inr a \<Rightarrow> f a)"

lemma try_then_simps [simp]: "try_then (Inl e) f = Inl e" "try_then (Inr a) f = f a"
  by (simp_all add: try_then_def)

lemma try_then_Inr [cxx_result]: "try_then r f = Inr b \<longleftrightarrow> (\<exists>a. r = Inr a \<and> f a = Inr b)"
  by (cases r) simp_all

lemma try_then_Inl [cxx_result]: "try_then r f = Inl e \<longleftrightarrow> r = Inl e \<or> (\<exists>a. r = Inr a \<and> f a = Inl e)"
  by (cases r) auto

end
