(* ===== verification/Http_Protocol.thy ===== *)
theory Http_Protocol
  imports Prelude
begin

text \<open>
  The HTTP/1.x text layer of \<^verbatim>\<open>src/http/http_protocol.hpp\<close>: number parsing with its
  overflow guards, case-insensitive header names, the \<^verbatim>\<open>Connection\<close> token list, the
  framing state that \<^verbatim>\<open>update_header_state\<close> accumulates over the header fields of one
  message, and the header and body renderings used in logs.

  The \<^verbatim>\<open>std::vector\<close> of fields that \<^verbatim>\<open>parse_header_pair_into\<close> appends to is threaded as a
  list; the pointer arguments are never null at the call sites modelled here.
\<close>

section \<open>Constants and framing state\<close>

definition kHttpIoBufferSize :: nat where "kHttpIoBufferSize = 4096"
definition kClientReadBufferSize :: nat where "kClientReadBufferSize = 8192"
definition kMaxHeaderSize :: nat where "kMaxHeaderSize = 64 * 1024"
definition kMaxBodySize :: nat where "kMaxBodySize = 10 * 1024 * 1024"

record header_parse_state =
  content_length :: "nat option"
  invalid_header_name :: bool
  duplicate_content_length :: bool
  invalid_content_length :: bool
  is_chunked :: bool
  has_transfer_encoding :: bool
  invalid_transfer_encoding :: bool
  connection_close :: bool
  connection_keep_alive :: bool

definition header_parse_state0 :: header_parse_state where
  "header_parse_state0 = \<lparr>content_length = None, invalid_header_name = False,
     duplicate_content_length = False, invalid_content_length = False, is_chunked = False,
     has_transfer_encoding = False, invalid_transfer_encoding = False,
     connection_close = False, connection_keep_alive = False\<rparr>"

record header_tokens =
  tok_close :: bool
  tok_keep_alive :: bool

section \<open>Numbers\<close>

text \<open>
  The digit loops shared by \<^verbatim>\<open>parse_decimal_size\<close> and \<^verbatim>\<open>parse_hex_size_line\<close>. The
  accumulator is a \<^verbatim>\<open>size_t\<close>: its update wraps at 64 bits.
\<close>

fun digits_loop :: "nat \<Rightarrow> (char \<Rightarrow> nat option) \<Rightarrow> nat \<Rightarrow> string \<Rightarrow> nat option" where
  "digits_loop b dig value [] = Some value"
| "digits_loop b dig value (c # cs) =
     (case dig c of
        None \<Rightarrow> None
      | Some d \<Rightarrow>
          if value > (SIZE_MAX - d) div b then None
          else digits_loop b dig (wrap64 (value * b + d)) cs)"

definition dec_digit :: "char \<Rightarrow> nat option" where
  "dec_digit c = (if isdigit c then Some (code c - 48) else None)"

definition hex_digit :: "char \<Rightarrow> nat option" where
  "hex_digit c =
     (if isdigit c then Some (code c - 48)
      else if 97 \<le> code c \<and> code c \<le> 102 then Some (code c - 97 + 10)
      else if 65 \<le> code c \<and> code c \<le> 70 then Some (code c - 65 + 10)
      else None)"

definition parse_decimal_size :: "string \<Rightarrow> nat option" where
  "parse_decimal_size s =
     (let trimmed = trim s in
      if trimmed = [] then None else digits_loop 10 dec_digit 0 trimmed)"

definition parse_hex_size_line :: "string \<Rightarrow> nat option" where
  "parse_hex_size_line line =
     (let digits = trim (case find_char (CHR '';'') line of None \<Rightarrow> line | Some e \<Rightarrow> take e line) in
      if digits = [] then None else digits_loop 16 hex_digit 0 digits)"

text \<open>\<^verbatim>\<open>line.rfind(p, 0) == 0\<close> is the prefix test.\<close>

definition parse_http_status_line :: "string \<Rightarrow> (nat \<times> string) option" where
  "parse_http_status_line line =
     (let http10 = starts_with ''HTTP/1.0 '' line;
          http11 = starts_with ''HTTP/1.1 '' line in
      if \<not> http10 \<and> \<not> http11 then None
      else case find_char (CHR '' '') line of
             None \<Rightarrow> None
           | Some first_space \<Rightarrow>
               (case find_char (CHR '' '') (drop (first_space + 1) line) of
                  None \<Rightarrow> None
                | Some k \<Rightarrow>
                    (let second_space = first_space + 1 + k;
                         code_text = take k (drop (first_space + 1) line) in
                     case parse_decimal_size code_text of
                       None \<Rightarrow> None
                     | Some st \<Rightarrow>
                         if length code_text \<noteq> 3 \<or> st < 100 \<or> st > 599 then None
                         else Some (st, drop (second_space + 1) line))))"

section \<open>Header names and tokens\<close>

definition header_iequals :: "string \<Rightarrow> string \<Rightarrow> bool" where
  "header_iequals a b \<longleftrightarrow>
     length a = length b \<and> list_all (\<lambda>(x, y). tolower x = tolower y) (zip a b)"

definition to_lower :: "string \<Rightarrow> string" where
  "to_lower s = map tolower s"

text \<open>The second component is what the loop appends to the optional output vector.\<close>

definition split_connection_tokens :: "string \<Rightarrow> header_tokens \<times> string list" where
  "split_connection_tokens v =
     (let toks = filter (\<lambda>t. t \<noteq> []) (map trim (split_on (CHR '','') v)) in
      (\<lparr>tok_close = list_ex (\<lambda>t. header_iequals t ''close'') toks,
        tok_keep_alive = list_ex (\<lambda>t. header_iequals t ''keep-alive'') toks\<rparr>, toks))"

text \<open>One round of the \<^verbatim>\<open>Transfer-Encoding\<close> token loop; the flag is \<^verbatim>\<open>saw_token\<close>.\<close>

definition te_token :: "bool \<times> header_parse_state \<Rightarrow> string \<Rightarrow> bool \<times> header_parse_state" where
  "te_token = (\<lambda>(saw, st) piece.
     let token = trim piece in
     if token = [] then (saw, st\<lparr>invalid_transfer_encoding := True\<rparr>)
     else
       let st1 = (if \<not> header_iequals token ''chunked'' \<or> is_chunked st
                  then st\<lparr>invalid_transfer_encoding := True\<rparr> else st);
           st2 = (if header_iequals token ''chunked'' then st1\<lparr>is_chunked := True\<rparr> else st1)
       in (True, st2))"

definition update_header_state ::
  "string \<Rightarrow> string \<Rightarrow> header_parse_state \<Rightarrow> header_parse_state" where
  "update_header_state k0 v0 st0 =
     (let st = (if length (trim k0) \<noteq> length k0 then st0\<lparr>invalid_header_name := True\<rparr> else st0);
          k = trim k0; v = trim v0 in
      if header_iequals k ''content-length'' then
        (case parse_decimal_size v of
           None \<Rightarrow> st\<lparr>invalid_content_length := True\<rparr>
         | Some parsed \<Rightarrow>
             if content_length st \<noteq> None \<and> the (content_length st) \<noteq> parsed
             then st\<lparr>duplicate_content_length := True\<rparr>
             else st\<lparr>content_length := Some parsed\<rparr>)
      else if header_iequals k ''transfer-encoding'' then
        (let st1 = (if has_transfer_encoding st
                    then st\<lparr>invalid_transfer_encoding := True\<rparr> else st);
             st2 = st1\<lparr>has_transfer_encoding := True\<rparr>;
             (saw_token, st3) = foldl te_token (False, st2) (split_on (CHR '','') v)
         in if \<not> saw_token then st3\<lparr>invalid_transfer_encoding := True\<rparr> else st3)
      else if header_iequals k ''connection'' then
        (let tokens = fst (split_connection_tokens v);
             st1 = (if tok_close tokens then st\<lparr>connection_close := True\<rparr> else st)
         in if tok_keep_alive tokens then st1\<lparr>connection_keep_alive := True\<rparr> else st1)
      else st)"

definition parse_header_pair_into ::
  "string \<Rightarrow> string \<Rightarrow> headers \<times> header_parse_state \<Rightarrow> headers \<times> header_parse_state" where
  "parse_header_pair_into key val = (\<lambda>(out, st).
     (out @ [(trim key, trim val)], update_header_state key val st))"

definition parse_header_line_into ::
  "headers \<times> header_parse_state \<Rightarrow> string \<Rightarrow> headers \<times> header_parse_state" where
  "parse_header_line_into acc line =
     (case find_char (CHR '':'') line of
        None \<Rightarrow> acc
      | Some colon \<Rightarrow> parse_header_pair_into (take colon line) (drop (colon + 1) line) acc)"

text \<open>The pieces of a header block between CRLF pairs.\<close>

function split_crlf :: "string \<Rightarrow> string list" where
  "split_crlf s = (case find_sub CRLF s of
     None \<Rightarrow> [s] | Some i \<Rightarrow> take i s # split_crlf (drop (i + 2) s))"
  by pat_completeness auto
termination
proof (relation "measure length")
  fix s :: string and i :: nat
  assume "find_sub CRLF s = Some i"
  then have "i + 2 \<le> length s"
    using find_sub_Some_bound [of CRLF s i] by (simp add: CRLF_def)
  then show "(drop (i + 2) s, s) \<in> measure length" by simp
qed simp

declare split_crlf.simps [simp del]

definition parse_header_fields ::
  "string \<Rightarrow> headers \<times> header_parse_state \<Rightarrow> headers \<times> header_parse_state" where
  "parse_header_fields header_lines acc =
     foldl parse_header_line_into acc (filter (\<lambda>l. l \<noteq> []) (split_crlf header_lines))"

definition is_hop_by_hop_header :: "string \<Rightarrow> bool" where
  "is_hop_by_hop_header k \<longleftrightarrow>
     header_iequals k ''connection'' \<or> header_iequals k ''keep-alive'' \<or>
     header_iequals k ''proxy-authenticate'' \<or> header_iequals k ''proxy-authorization'' \<or>
     header_iequals k ''te'' \<or> header_iequals k ''trailer'' \<or>
     header_iequals k ''transfer-encoding'' \<or> header_iequals k ''upgrade''"

definition add_connection_tokens :: "headers \<Rightarrow> string list \<Rightarrow> string list" where
  "add_connection_tokens hs filtered =
     foldl (\<lambda>acc (k, v). if \<not> header_iequals k ''connection'' then acc
                          else acc @ snd (split_connection_tokens v)) filtered hs"

definition contains_header_name :: "string list \<Rightarrow> string \<Rightarrow> bool" where
  "contains_header_name names name \<longleftrightarrow> list_ex (\<lambda>candidate. header_iequals candidate name) names"

section \<open>Log renderings\<close>

definition is_sensitive_header :: "string \<Rightarrow> bool" where
  "is_sensitive_header k \<longleftrightarrow> header_iequals k ''authorization'' \<or> header_iequals k ''cookie'' \<or>
     header_iequals k ''set-cookie''"

definition describe_headers :: "headers \<Rightarrow> string" where
  "describe_headers hs =
     foldl (\<lambda>out (k, v).
        (if out \<noteq> [] then out @ '', '' else out) @ k @ ''(len='' @ dec_of_nat (length v) @
        (if is_sensitive_header k then '',redacted'' else []) @ '')'') [] hs"

definition sanitize_header_value :: "string \<Rightarrow> string \<Rightarrow> string" where
  "sanitize_header_value key val =
     (if is_sensitive_header key
      then ''<redacted len='' @ dec_of_nat (length val) @ ''>''
      else if length val \<le> 160 then val
      else take 160 val @ ''...<truncated len='' @ dec_of_nat (length val) @ ''>'')"

definition preview_char :: "char \<Rightarrow> string" where
  "preview_char c =
     (if c = CR then [BACKSLASH, CHR ''r''] else if c = LF then [BACKSLASH, CHR ''n'']
      else if isprint c then [c] else ''.'')"

definition sanitize_body_preview :: "string \<Rightarrow> string" where
  "sanitize_body_preview body =
     concat (map preview_char (take (min (length body) 512) body)) @
     (if length body > 512 then ''...<truncated len='' @ dec_of_nat (length body) @ ''>'' else [])"

text \<open>
  The loop over the fields picohttpparser returns (\<^verbatim>\<open>ClientSession::run\<close>), and the tests by
  which the session refuses a request and the proxy refuses an upstream response.
\<close>

definition parse_header_pairs :: "headers \<Rightarrow> headers \<times> header_parse_state" where
  "parse_header_pairs hs =
     foldl (\<lambda>acc (k, v). parse_header_pair_into k v acc) ([], header_parse_state0) hs"

definition response_framing_invalid :: "header_parse_state \<Rightarrow> bool" where
  "response_framing_invalid st \<longleftrightarrow>
     invalid_content_length st \<or> duplicate_content_length st \<or> invalid_transfer_encoding st \<or>
     (has_transfer_encoding st \<and> \<not> is_chunked st)"

definition request_framing_invalid :: "header_parse_state \<Rightarrow> bool" where
  "request_framing_invalid st \<longleftrightarrow>
     invalid_header_name st \<or> invalid_content_length st \<or> duplicate_content_length st \<or>
     invalid_transfer_encoding st \<or> (has_transfer_encoding st \<and> \<not> is_chunked st)"

section \<open>Numbers: the parsers compute the value and refuse exactly what does not fit\<close>

definition digits_val :: "nat \<Rightarrow> (char \<Rightarrow> nat option) \<Rightarrow> nat \<Rightarrow> string \<Rightarrow> nat" where
  "digits_val b dig v cs = foldl (\<lambda>v c. v * b + the (dig c)) v cs"

lemma digits_val_ge: "0 < b \<Longrightarrow> v \<le> digits_val b dig v cs"
proof (induction cs arbitrary: v)
  case Nil
  show ?case by (simp add: digits_val_def)
next
  case (Cons c cs)
  have "v \<le> v * b + the (dig c)" using Cons.prems by (simp add: trans_le_add1)
  also have "\<dots> \<le> digits_val b dig (v * b + the (dig c)) cs" by (rule Cons.IH [OF Cons.prems])
  finally show ?case by (simp add: digits_val_def)
qed

lemma overflow_guard:
  "0 < b \<Longrightarrow> d \<le> SIZE_MAX \<Longrightarrow> (v > (SIZE_MAX - d) div b) \<longleftrightarrow> v * b + d > SIZE_MAX"
  using less_eq_div_iff_mult_less_eq [of b v "SIZE_MAX - d"] by linarith

lemma digits_loop_iff:
  assumes "0 < b" and dig: "\<And>c d. dig c = Some d \<Longrightarrow> d \<le> SIZE_MAX" and "v \<le> SIZE_MAX"
  shows "digits_loop b dig v cs = Some n \<longleftrightarrow>
    (\<forall>c \<in> set cs. dig c \<noteq> None) \<and> digits_val b dig v cs = n \<and> n \<le> SIZE_MAX"
  using assms(3)
proof (induction cs arbitrary: v)
  case Nil
  then show ?case by (auto simp: digits_val_def)
next
  case (Cons c cs)
  show ?case
  proof (cases "dig c")
    case None
    then show ?thesis by simp
  next
    case (Some d)
    have guard: "(v > (SIZE_MAX - d) div b) \<longleftrightarrow> v * b + d > SIZE_MAX"
      by (rule overflow_guard [OF \<open>0 < b\<close> dig [OF Some]])
    show ?thesis
    proof (cases "v * b + d > SIZE_MAX")
      case True
      have "v * b + d \<le> digits_val b dig v (c # cs)"
        using digits_val_ge [OF \<open>0 < b\<close>, of "v * b + d" dig cs] Some
        by (simp add: digits_val_def)
      with True Some guard show ?thesis by auto
    next
      case False
      then have le: "v * b + d \<le> SIZE_MAX" by simp
      have "digits_loop b dig v (c # cs) = digits_loop b dig (v * b + d) cs"
        using guard Some False by (simp add: wrap64_id [OF le])
      with Cons.IH [OF le] Some show ?thesis by (auto simp: digits_val_def)
    qed
  qed
qed

lemma dec_digit_le: "dec_digit c = Some d \<Longrightarrow> d \<le> SIZE_MAX"
  by (auto simp: dec_digit_def isdigit_def SIZE_MAX_def split: if_splits)

lemma hex_digit_le: "hex_digit c = Some d \<Longrightarrow> d \<le> SIZE_MAX"
  by (auto simp: hex_digit_def isdigit_def SIZE_MAX_def split: if_splits)

lemma digits_val_dec:
  "\<forall>c \<in> set s. isdigit c \<Longrightarrow> digits_val 10 dec_digit v s = foldl (\<lambda>v c. v * 10 + digit_val c) v s"
  unfolding digits_val_def by (rule foldl_cong) (auto simp: dec_digit_def digit_val_def)

lemma parse_decimal_size_iff:
  "parse_decimal_size s = Some n \<longleftrightarrow>
     trim s \<noteq> [] \<and> (\<forall>c \<in> set (trim s). isdigit c) \<and> dec_val (trim s) = n \<and> n \<le> SIZE_MAX"
proof -
  have "digits_loop 10 dec_digit 0 (trim s) = Some n \<longleftrightarrow>
      (\<forall>c \<in> set (trim s). dec_digit c \<noteq> None) \<and> digits_val 10 dec_digit 0 (trim s) = n \<and>
      n \<le> SIZE_MAX"
    by (rule digits_loop_iff [OF _ dec_digit_le]) simp_all
  moreover have "(\<forall>c \<in> set (trim s). dec_digit c \<noteq> None) \<longleftrightarrow> (\<forall>c \<in> set (trim s). isdigit c)"
    by (simp add: dec_digit_def)
  ultimately show ?thesis
    using digits_val_dec [of "trim s" 0] by (auto simp: parse_decimal_size_def Let_def dec_val_def)
qed

lemma parse_decimal_size_dec_of_nat:
  "parse_decimal_size (dec_of_nat n) = (if n \<le> SIZE_MAX then Some n else None)"
proof (cases "n \<le> SIZE_MAX")
  case True
  then show ?thesis using dec_of_nat_digits by (simp add: parse_decimal_size_iff)
next
  case False
  then have "parse_decimal_size (dec_of_nat n) \<noteq> Some m" for m
    by (auto simp: parse_decimal_size_iff)
  with False show ?thesis by (cases "parse_decimal_size (dec_of_nat n)") auto
qed

lemma parse_decimal_size_trim [simp]: "parse_decimal_size (trim s) = parse_decimal_size s"
  by (simp add: parse_decimal_size_def)

lemma parse_hex_size_line_iff:
  "parse_hex_size_line s = Some n \<longleftrightarrow>
    (let ds = trim (hd (split_on (CHR '';'') s)) in
     ds \<noteq> [] \<and> (\<forall>c \<in> set ds. hex_digit c \<noteq> None) \<and> digits_val 16 hex_digit 0 ds = n \<and>
     n \<le> SIZE_MAX)"
proof -
  have hd: "hd (split_on (CHR '';'') s) =
      (case find_char (CHR '';'') s of None \<Rightarrow> s | Some e \<Rightarrow> take e s)"
    by (subst split_on_find) (cases "find_char (CHR '';'') s", simp_all)
  have "digits_loop 16 hex_digit 0 ds = Some n \<longleftrightarrow>
      (\<forall>c \<in> set ds. hex_digit c \<noteq> None) \<and> digits_val 16 hex_digit 0 ds = n \<and> n \<le> SIZE_MAX" for ds
    by (rule digits_loop_iff [OF _ hex_digit_le]) simp_all
  then show ?thesis
    by (simp add: parse_hex_size_line_def Let_def hd)
qed

lemma parse_hex_size_line_le: "parse_hex_size_line s = Some n \<Longrightarrow> n \<le> SIZE_MAX"
  by (simp add: parse_hex_size_line_iff Let_def)

section \<open>Header names\<close>

lemma header_iequals_iff: "header_iequals a b \<longleftrightarrow> lower a = lower b"
  by (auto simp: header_iequals_def lower_def list_eq_iff_nth_eq list_all_length)

lemma header_iequals_refl [simp]: "header_iequals a a"
  by (simp add: header_iequals_iff)

lemma header_iequals_sym: "header_iequals a b \<longleftrightarrow> header_iequals b a"
  by (auto simp: header_iequals_iff)

lemma header_iequals_trans:
  "header_iequals a b \<Longrightarrow> header_iequals b c \<longleftrightarrow> header_iequals a c"
  by (simp add: header_iequals_iff)

lemma contains_header_name_iff:
  "contains_header_name ns n \<longleftrightarrow> (\<exists>m \<in> set ns. header_iequals m n)"
  by (simp add: contains_header_name_def list_ex_iff)

lemma set_add_connection_tokens:
  "set (add_connection_tokens hs fs) =
     set fs \<union> (\<Union>(k, v) \<in> {(k, v) \<in> set hs. header_iequals k ''connection''}.
                 set (snd (split_connection_tokens v)))"
  unfolding add_connection_tokens_def by (induction hs arbitrary: fs) (auto split: if_splits)

section \<open>Framing: what an accepted header block means\<close>

text \<open>
  A request that passes the framing test has one unambiguous body length: every
  \<^verbatim>\<open>Content-Length\<close> field carries the recorded value, and there is a \<^verbatim>\<open>Transfer-Encoding\<close>
  field only as the single coding \<^verbatim>\<open>chunked\<close>.
\<close>

definition framing_sound :: "headers \<Rightarrow> header_parse_state \<Rightarrow> bool" where
  "framing_sound hs st \<longleftrightarrow>
     (\<forall>(k, v) \<in> set hs. header_iequals k ''content-length'' \<longrightarrow>
        parse_decimal_size v \<noteq> None \<and> content_length st = parse_decimal_size v) \<and>
     (content_length st \<noteq> None \<longrightarrow> (\<exists>(k, v) \<in> set hs. header_iequals k ''content-length'')) \<and>
     length (filter (\<lambda>(k, v). header_iequals k ''transfer-encoding'') hs) =
       (if has_transfer_encoding st then 1 else 0) \<and>
     (\<forall>(k, v) \<in> set hs. header_iequals k ''transfer-encoding'' \<longrightarrow>
        header_iequals (trim v) ''chunked'') \<and>
     is_chunked st = has_transfer_encoding st"

lemma trim_split: "\<exists>a b. s = a @ trim s @ b"
proof -
  obtain a where a: "s = a @ trim_left s"
    by (metis trim_left_def takeWhile_dropWhile_id)
  obtain b where b: "trim_left s = trim s @ b"
    by (metis trim_def trim_right_def takeWhile_dropWhile_id rev_append rev_rev_ident)
  have "s = a @ trim s @ b" using a b by simp
  then show ?thesis by blast
qed

lemma trim_length_id:
  assumes "length (trim s) = length s"
  shows "trim s = s"
proof -
  obtain a b where ab: "s = a @ trim s @ b" using trim_split by blast
  then have "length s = length a + length (trim s) + length b"
    by (metis add.assoc length_append)
  with assms have "a = []" and "b = []" by auto
  with ab show ?thesis by simp
qed

lemma te_token_mono:
  "invalid_transfer_encoding (snd a) \<Longrightarrow> invalid_transfer_encoding (snd (te_token a p))"
  by (cases a) (auto simp: te_token_def Let_def)

lemma te_fold_mono:
  "invalid_transfer_encoding (snd a) \<Longrightarrow> invalid_transfer_encoding (snd (foldl te_token a ps))"
  by (induction ps arbitrary: a) (auto simp: te_token_mono)

lemma te_fold_valid:
  assumes "\<not> invalid_transfer_encoding (snd (foldl te_token (saw, st) ps))" and "ps \<noteq> []"
  shows "\<exists>p. ps = [p] \<and> trim p \<noteq> [] \<and> header_iequals (trim p) ''chunked'' \<and> \<not> is_chunked st \<and>
    foldl te_token (saw, st) ps = (True, st\<lparr>is_chunked := True\<rparr>)"
proof -
  obtain p qs where ps: "ps = p # qs" using assms(2) by (cases ps) auto
  have p: "\<not> invalid_transfer_encoding (snd (te_token (saw, st) p))"
    using assms(1) te_fold_mono ps by fastforce
  then have ok: "trim p \<noteq> []" "header_iequals (trim p) ''chunked''" "\<not> is_chunked st"
    "te_token (saw, st) p = (True, st\<lparr>is_chunked := True\<rparr>)"
    by (auto simp: te_token_def Let_def split: if_splits)
  have "qs = []"
  proof (rule ccontr)
    assume "qs \<noteq> []"
    then obtain q rs where qs: "qs = q # rs" by (cases qs) auto
    have "invalid_transfer_encoding (snd (te_token (True, st\<lparr>is_chunked := True\<rparr>) q))"
      by (simp add: te_token_def Let_def)
    with te_fold_mono ok(4) assms(1) ps qs show False by simp
  qed
  with ok ps show ?thesis by simp
qed

lemma split_on_singleton: "split_on c s = [p] \<Longrightarrow> p = s"
  using join_split_on [of c s] by simp

lemma CL_not_TE [simp]: "header_iequals k ''content-length'' \<Longrightarrow> \<not> header_iequals k ''transfer-encoding''"
  by (auto simp: header_iequals_def)

lemma CL_not_Conn [simp]: "header_iequals k ''content-length'' \<Longrightarrow> \<not> header_iequals k ''connection''"
  by (auto simp: header_iequals_def)

lemma update_te_valid:
  assumes te: "header_iequals (trim k) ''transfer-encoding''"
    and ok: "\<not> request_framing_invalid (update_header_state k v st)"
  shows "trim k = k \<and> \<not> has_transfer_encoding st \<and> \<not> is_chunked st \<and>
    header_iequals (trim v) ''chunked'' \<and>
    update_header_state k v st = st\<lparr>has_transfer_encoding := True, is_chunked := True\<rparr>"
proof -
  define st0 where "st0 = (if length (trim k) \<noteq> length k then st\<lparr>invalid_header_name := True\<rparr> else st)"
  define st1 where "st1 = (if has_transfer_encoding st0
      then st0\<lparr>invalid_transfer_encoding := True\<rparr> else st0)"
  define st2 where "st2 = st1\<lparr>has_transfer_encoding := True\<rparr>"
  obtain saw st3 where f: "foldl te_token (False, st2) (split_on (CHR '','') (trim v)) = (saw, st3)"
    by fastforce
  have "\<not> header_iequals (trim k) ''content-length''" using te CL_not_TE by blast
  then have u: "update_header_state k v st =
      (if \<not> saw then st3\<lparr>invalid_transfer_encoding := True\<rparr> else st3)"
    using te f
    unfolding update_header_state_def Let_def
      st0_def [symmetric] st1_def [symmetric] st2_def [symmetric]
    by simp
  with ok have "\<not> invalid_transfer_encoding st3"
    by (auto simp: request_framing_invalid_def split: if_splits)
  then have *: "\<not> invalid_transfer_encoding
      (snd (foldl te_token (False, st2) (split_on (CHR '','') (trim v))))"
    using f by simp
  from te_fold_valid [OF * split_on_neq_Nil] f obtain p where
    p: "split_on (CHR '','') (trim v) = [p]" "header_iequals (trim p) ''chunked''"
      "\<not> is_chunked st2" and st3: "saw" "st3 = st2\<lparr>is_chunked := True\<rparr>"
    by auto
  have u': "update_header_state k v st = st2\<lparr>is_chunked := True\<rparr>" using u st3 by simp
  have "\<not> invalid_transfer_encoding st2" using * te_fold_mono by fastforce
  then have "\<not> has_transfer_encoding st0" by (auto simp: st2_def st1_def split: if_splits)
  moreover from ok u' have "\<not> invalid_header_name st2" by (simp add: request_framing_invalid_def)
  then have "length (trim k) = length k"
    by (auto simp: st2_def st1_def st0_def split: if_splits)
  ultimately have "trim k = k" "st0 = st" "st2 = st\<lparr>has_transfer_encoding := True\<rparr>"
    by (auto simp: trim_length_id st0_def st1_def st2_def)
  moreover have "trim p = trim v" using split_on_singleton [OF p(1)] by simp
  ultimately show ?thesis using p u' \<open>\<not> has_transfer_encoding st0\<close> by auto
qed

lemma update_cl_valid:
  assumes cl: "header_iequals (trim k) ''content-length''"
    and ok: "\<not> request_framing_invalid (update_header_state k v st)"
  shows "trim k = k \<and> (\<exists>n. parse_decimal_size v = Some n \<and>
    (content_length st = None \<or> content_length st = Some n) \<and>
    update_header_state k v st = st\<lparr>content_length := Some n\<rparr>)"
  using assms
  by (cases "content_length st")
     (auto simp: update_header_state_def request_framing_invalid_def Let_def trim_length_id
      split: if_splits option.splits)

lemma update_other_valid:
  assumes "\<not> header_iequals (trim k) ''content-length''"
    and "\<not> header_iequals (trim k) ''transfer-encoding''"
    and "\<not> request_framing_invalid (update_header_state k v st)"
  shows "trim k = k \<and> (\<exists>c a. update_header_state k v st =
    st\<lparr>connection_close := c, connection_keep_alive := a\<rparr>)"
proof -
  have "length (trim k) = length k"
    using assms by (auto simp: update_header_state_def request_framing_invalid_def Let_def
        split: if_splits)
  then have k: "trim k = k" by (rule trim_length_id)
  let ?conn = "header_iequals k ''connection''" and ?toks = "fst (split_connection_tokens (trim v))"
  have "update_header_state k v st =
      st\<lparr>connection_close := connection_close st \<or> (?conn \<and> tok_close ?toks),
         connection_keep_alive := connection_keep_alive st \<or> (?conn \<and> tok_keep_alive ?toks)\<rparr>"
    using assms(1,2) k by (cases st) (simp add: update_header_state_def Let_def)
  with k show ?thesis by blast
qed

lemma framing_step:
  assumes ok: "\<not> request_framing_invalid (update_header_state k v st)"
    and sound: "\<not> request_framing_invalid st \<Longrightarrow> framing_sound hs st"
  shows "framing_sound (hs @ [(k, v)]) (update_header_state k v st)"
proof -
  consider (cl) "header_iequals (trim k) ''content-length''"
    | (te) "header_iequals (trim k) ''transfer-encoding''"
    | (other) "\<not> header_iequals (trim k) ''content-length''"
        "\<not> header_iequals (trim k) ''transfer-encoding''"
    by blast
  then show ?thesis
  proof cases
    case cl
    from update_cl_valid [OF cl ok] obtain n where n: "trim k = k" "parse_decimal_size v = Some n"
      "content_length st = None \<or> content_length st = Some n"
      "update_header_state k v st = st\<lparr>content_length := Some n\<rparr>" by blast
    with ok have "\<not> request_framing_invalid st" by (simp add: request_framing_invalid_def)
    with sound n cl show ?thesis by (fastforce simp: framing_sound_def)
  next
    case te
    note u = update_te_valid [OF te ok]
    then have "\<not> request_framing_invalid st"
      using ok by (simp add: request_framing_invalid_def)
    then have "framing_sound hs st" by (rule sound)
    moreover have "\<not> header_iequals k ''content-length''" using u te CL_not_TE by auto
    ultimately show ?thesis
      using u te by (auto simp: framing_sound_def filter_empty_conv)
  next
    case other
    from update_other_valid [OF other ok] obtain c a where u: "trim k = k"
      "update_header_state k v st = st\<lparr>connection_close := c, connection_keep_alive := a\<rparr>" by blast
    with ok have "\<not> request_framing_invalid st" by (simp add: request_framing_invalid_def)
    with sound u other show ?thesis by (auto simp: framing_sound_def)
  qed
qed

lemma parse_header_pairs_snoc:
  "parse_header_pairs (hs @ [(k, v)]) = parse_header_pair_into k v (parse_header_pairs hs)"
  by (simp add: parse_header_pairs_def)

text \<open>
  A request whose header fields pass the framing test of
  the session has one body length. Every \<^verbatim>\<open>Content-Length\<close> field parses to the recorded
  length, a length is recorded only if there is such a field, at most one
  \<^verbatim>\<open>Transfer-Encoding\<close> field is present, its value is exactly the coding \<^verbatim>\<open>chunked\<close>, and
  the chunked flag is set exactly when the field is there.
\<close>

lemma accepted_framing_sound:
  "\<not> request_framing_invalid (snd (parse_header_pairs hs)) \<Longrightarrow>
     framing_sound hs (snd (parse_header_pairs hs))"
proof (induction hs rule: rev_induct)
  case Nil
  show ?case by (simp add: parse_header_pairs_def framing_sound_def header_parse_state0_def)
next
  case (snoc h hs)
  obtain k v where h: "h = (k, v)" by fastforce
  have s: "snd (parse_header_pairs (hs @ [h])) =
      update_header_state k v (snd (parse_header_pairs hs))"
    by (simp add: h parse_header_pairs_snoc parse_header_pair_into_def split: prod.split)
  from snoc show ?case unfolding s unfolding h by (intro framing_step)
qed

lemma accepted_names:
  "\<not> request_framing_invalid (snd (parse_header_pairs hs)) \<Longrightarrow> \<forall>(k, v) \<in> set hs. trim k = k"
proof (induction hs rule: rev_induct)
  case (snoc h hs)
  obtain k v where h: "h = (k, v)" by fastforce
  define st where "st = snd (parse_header_pairs hs)"
  have s: "snd (parse_header_pairs (hs @ [h])) = update_header_state k v st"
    by (simp add: st_def h parse_header_pairs_snoc parse_header_pair_into_def split: prod.split)
  have ok: "\<not> request_framing_invalid (update_header_state k v st)" using snoc.prems s by simp
  have "trim k = k \<and> \<not> request_framing_invalid st"
  proof (cases "header_iequals (trim k) ''content-length''")
    case True
    then show ?thesis using update_cl_valid [OF True ok] ok by (auto simp: request_framing_invalid_def)
  next
    case cl: False
    show ?thesis
    proof (cases "header_iequals (trim k) ''transfer-encoding''")
      case True
      then show ?thesis using update_te_valid [OF True ok] ok by (auto simp: request_framing_invalid_def)
    next
      case False
      then show ?thesis using update_other_valid [OF cl False ok] ok by (auto simp: request_framing_invalid_def)
    qed
  qed
  then show ?case using snoc.IH h by (auto simp: st_def)
qed simp

end
