(* ===== verification/Http_Io.thy ===== *)
theory Http_Io
  imports Prelude
begin

text \<open>
  The timed socket operations of \<^verbatim>\<open>src/http/http_io.hpp\<close>. An asynchronous operation completes
  with what the operating system and the timer did: the bytes delivered, the error code, and
  whether the deadline expired first. These outcomes are the inputs of the model; the code's
  classification of them, and the timer bookkeeping of \<^verbatim>\<open>OperationDeadline\<close>, are definitions.
\<close>

datatype error_code = NoError | Eof | Connection_reset | Broken_pipe | Operation_aborted
  | Other_error nat

datatype io_status = Io_Success | Io_Timeout | Io_PeerClosed | Io_SysError

record io_result =
  io_st :: io_status
  io_data :: string
  io_ec :: error_code

definition io_ok :: "io_result \<Rightarrow> bool" where
  "io_ok r \<longleftrightarrow> io_st r = Io_Success"

definition io_status_name :: "io_status \<Rightarrow> string" where
  "io_status_name s = (case s of
     Io_Success \<Rightarrow> ''success'' | Io_Timeout \<Rightarrow> ''timeout''
   | Io_PeerClosed \<Rightarrow> ''peer_closed'' | Io_SysError \<Rightarrow> ''sys_error'')"

definition classify_read_error :: "error_code \<Rightarrow> bool \<Rightarrow> nat \<Rightarrow> io_status" where
  "classify_read_error e timed_out n =
     (if timed_out then Io_Timeout
      else if e = NoError \<and> n > 0 then Io_Success
      else if e = NoError \<and> n = 0 then Io_PeerClosed
      else if e = Eof \<or> e = Connection_reset then Io_PeerClosed
      else Io_SysError)"

definition classify_write_error :: "error_code \<Rightarrow> bool \<Rightarrow> io_status" where
  "classify_write_error e timed_out =
     (if timed_out then Io_Timeout
      else if e = NoError then Io_Success
      else if e = Eof \<or> e = Connection_reset \<or> e = Broken_pipe then Io_PeerClosed
      else Io_SysError)"

section \<open>Operation deadline\<close>

text \<open>
  One timer serves the operations of a socket in sequence. Operation numbers are
  \<^verbatim>\<open>uint64_t\<close>; zero means none. Arming cancels the wait of an earlier arming, but a
  cancelled or already queued callback may still run later: it carries its own operation
  number. A callback says whether it cancels the socket.
\<close>

record deadline =
  next_operation :: nat
  active_operation :: nat
  timed_out_operation :: nat

definition deadline0 :: deadline where
  "deadline0 = \<lparr>next_operation = 0, active_operation = 0, timed_out_operation = 0\<rparr>"

definition deadline_arm :: "deadline \<Rightarrow> nat \<times> deadline" where
  "deadline_arm d =
     (let operation = wrap64 (next_operation d + 1) in
      (operation, d\<lparr>next_operation := operation, active_operation := operation\<rparr>))"

definition deadline_timer :: "nat \<Rightarrow> error_code \<Rightarrow> deadline \<Rightarrow> bool \<times> deadline" where
  "deadline_timer operation e d =
     (if e \<noteq> NoError \<or> active_operation d \<noteq> operation then (False, d)
      else (True, d\<lparr>active_operation := 0, timed_out_operation := operation\<rparr>))"

definition deadline_disarm :: "nat \<Rightarrow> deadline \<Rightarrow> bool \<times> deadline" where
  "deadline_disarm operation d =
     (timed_out_operation d = operation,
      if active_operation d = operation then d\<lparr>active_operation := 0\<rparr> else d)"

definition deadline_cancel :: "deadline \<Rightarrow> deadline" where
  "deadline_cancel d = d\<lparr>active_operation := 0\<rparr>"

section \<open>Timed reads and writes\<close>

text \<open>
  The completion of one \<^verbatim>\<open>async_read_some\<close>: the bytes delivered, its error code, and whether
  the timer won.
\<close>

record read_event =
  ev_data :: string
  ev_ec :: error_code
  ev_timer :: bool

text \<open>The timer callbacks that ran while the operation was pending, in order.\<close>

definition run_timers :: "(nat \<times> error_code) list \<Rightarrow> deadline \<Rightarrow> deadline" where
  "run_timers cbs d = foldl (\<lambda>d (op, e). snd (deadline_timer op e d)) d cbs"

definition read_with_deadline ::
  "int \<Rightarrow> (nat \<times> error_code) list \<Rightarrow> string \<Rightarrow> error_code \<Rightarrow> deadline \<Rightarrow> io_result \<times> deadline" where
  "read_with_deadline timeout cbs bytes e d =
     (if timeout \<le> 0
      then (\<lparr>io_st = classify_read_error e False (length bytes), io_data = bytes, io_ec = e\<rparr>, d)
      else
        let (operation, d1) = deadline_arm d;
            (timed_out, d2) = deadline_disarm operation (run_timers cbs d1)
        in (\<lparr>io_st = classify_read_error e timed_out (length bytes), io_data = bytes, io_ec = e\<rparr>, d2))"

definition write_with_deadline ::
  "int \<Rightarrow> (nat \<times> error_code) list \<Rightarrow> string \<Rightarrow> error_code \<Rightarrow> deadline \<Rightarrow> io_result \<times> deadline" where
  "write_with_deadline timeout cbs bytes e d =
     (if timeout \<le> 0
      then (\<lparr>io_st = classify_write_error e False, io_data = (if e \<noteq> NoError then [] else bytes),
             io_ec = e\<rparr>, d)
      else
        let (operation, d1) = deadline_arm d;
            (timed_out, d2) = deadline_disarm operation (run_timers cbs d1)
        in (\<lparr>io_st = classify_write_error e timed_out,
             io_data = (if e \<noteq> NoError then [] else bytes), io_ec = e\<rparr>, d2))"

text \<open>The variants that race the operation against a timer of their own.\<close>

definition read_with_timeout :: "int \<Rightarrow> read_event \<Rightarrow> io_result" where
  "read_with_timeout timeout ev =
     (if timeout \<le> 0
      then \<lparr>io_st = classify_read_error (ev_ec ev) False (length (ev_data ev)),
            io_data = ev_data ev, io_ec = ev_ec ev\<rparr>
      else if ev_timer ev
      then \<lparr>io_st = Io_Timeout, io_data = [], io_ec = Operation_aborted\<rparr>
      else \<lparr>io_st = classify_read_error (ev_ec ev) False (length (ev_data ev)),
            io_data = ev_data ev, io_ec = ev_ec ev\<rparr>)"

definition write_with_timeout :: "int \<Rightarrow> read_event \<Rightarrow> io_result" where
  "write_with_timeout timeout ev =
     (if timeout \<le> 0
      then \<lparr>io_st = classify_write_error (ev_ec ev) False,
            io_data = (if ev_ec ev \<noteq> NoError then [] else ev_data ev), io_ec = ev_ec ev\<rparr>
      else if ev_timer ev
      then \<lparr>io_st = Io_Timeout, io_data = [], io_ec = Operation_aborted\<rparr>
      else \<lparr>io_st = classify_write_error (ev_ec ev) False,
            io_data = (if ev_ec ev \<noteq> NoError then [] else ev_data ev), io_ec = ev_ec ev\<rparr>)"

section \<open>Facts\<close>

lemma read_success_nonempty:
  "io_ok (read_with_timeout t ev) \<Longrightarrow> io_data (read_with_timeout t ev) \<noteq> []"
  by (auto simp: read_with_timeout_def io_ok_def classify_read_error_def split: if_splits)

lemma deadline_stale_timer:
  "active_operation d \<noteq> operation \<Longrightarrow> deadline_timer operation e d = (False, d)"
  by (simp add: deadline_timer_def)

lemma run_timers_other:
  "\<forall>(op, e) \<in> set cbs. op \<noteq> active_operation d \<or> e \<noteq> NoError \<Longrightarrow> run_timers cbs d = d"
  unfolding run_timers_def
  by (induction cbs) (auto simp: deadline_timer_def)

lemma run_timers_idle:
  "active_operation d = 0 \<Longrightarrow> \<forall>(op, e) \<in> set cbs. op \<noteq> 0 \<Longrightarrow> run_timers cbs d = d"
  by (rule run_timers_other) auto

lemma run_timers_hit:
  assumes "active_operation d = op" and "op \<noteq> 0" and "\<forall>(o', e) \<in> set cbs. o' \<noteq> 0"
    and "(op, NoError) \<in> set cbs"
  shows "timed_out_operation (run_timers cbs d) = op \<and> active_operation (run_timers cbs d) = 0"
  using assms(1,3,4)
proof (induction cbs arbitrary: d)
  case Nil
  then show ?case by simp
next
  case (Cons cb cbs)
  obtain o' e where cb: "cb = (o', e)" by fastforce
  show ?case
  proof (cases "o' = op \<and> e = NoError")
    case True
    then have "run_timers (cb # cbs) d =
        run_timers cbs (d\<lparr>active_operation := 0, timed_out_operation := op\<rparr>)"
      using Cons.prems(1) by (simp add: run_timers_def deadline_timer_def cb)
    also have "\<dots> = d\<lparr>active_operation := 0, timed_out_operation := op\<rparr>"
      by (rule run_timers_idle) (use Cons.prems(2) in auto)
    finally show ?thesis by simp
  next
    case False
    then have "run_timers (cb # cbs) d = run_timers cbs d"
      using Cons.prems(1) by (auto simp: run_timers_def deadline_timer_def cb)
    with Cons False show ?thesis by (auto simp: cb)
  qed
qed

text \<open>
  with the shared timer, a read is reported as timed out
  exactly when the callback armed for this very operation ran without error before the read
  completed. Callbacks left over from earlier operations, and cancelled ones, have no effect,
  whatever their order.
\<close>

lemma deadline_isolates_operations:
  assumes "0 < timeout" and "timed_out_operation d < fst (deadline_arm d)"
    and "next_operation d < SIZE_MAX" and "\<forall>(op, e) \<in> set cbs. op \<noteq> 0"
  shows "io_st (fst (read_with_deadline timeout cbs bytes e d)) = Io_Timeout \<longleftrightarrow>
    (fst (deadline_arm d), NoError) \<in> set cbs"
proof -
  define op where "op = fst (deadline_arm d)"
  define d1 where "d1 = snd (deadline_arm d)"
  have op: "op = next_operation d + 1" "op \<noteq> 0"
    using assms(3) by (auto simp: op_def deadline_arm_def Let_def wrap64_id)
  have d1: "active_operation d1 = op" "timed_out_operation d1 = timed_out_operation d"
    by (auto simp: d1_def op_def deadline_arm_def Let_def)
  have "io_st (fst (read_with_deadline timeout cbs bytes e d)) = Io_Timeout \<longleftrightarrow>
      timed_out_operation (run_timers cbs d1) = op"
    using assms(1)
    by (auto simp: read_with_deadline_def deadline_disarm_def op_def d1_def classify_read_error_def
        split: prod.splits)
  also have "\<dots> \<longleftrightarrow> (op, NoError) \<in> set cbs"
  proof (cases "(op, NoError) \<in> set cbs")
    case True
    then show ?thesis using run_timers_hit [OF d1(1) op(2) assms(4)] by simp
  next
    case False
    then have "run_timers cbs d1 = d1" by (intro run_timers_other) (auto simp: d1)
    with False d1 assms(2) show ?thesis by (simp add: op_def)
  qed
  finally show ?thesis by (simp add: op_def)
qed

end
