(* ===== verification/Body_Reader.thy ===== *)
theory Body_Reader
  imports Http_Protocol Http_Io
begin

text \<open>
  The message body readers of \<^verbatim>\<open>src/http/http_body_reader.hpp\<close>. A coroutine that reads from a
  socket is a function of the buffer of bytes already read (\<^verbatim>\<open>preread\<close>) and of the read
  completions still to come; it returns its result together with the buffer and the
  completions it leaves. \<open>None\<close> means that the coroutine is still suspended when the given
  completions are used up. The parameter \<open>rd\<close> is the timed read in use
  (\<^verbatim>\<open>read_body_some\<close> with its timeout and optional deadline).
\<close>

datatype body_read_status = Success | Timeout | PeerClosed | TooLarge | InvalidChunk | SysError

record body_read_result =
  br_status :: body_read_status
  br_body :: string
  br_ec :: error_code

definition body_ok :: "body_read_result \<Rightarrow> bool" where
  "body_ok r \<longleftrightarrow> br_status r = Success"

definition kMaxChunkControlLineSize :: nat where
  "kMaxChunkControlLineSize = 8192"

definition body_status_from_io :: "io_result \<Rightarrow> body_read_status" where
  "body_status_from_io r = (case io_st r of
     Io_Success \<Rightarrow> Success | Io_Timeout \<Rightarrow> Timeout
   | Io_PeerClosed \<Rightarrow> PeerClosed | Io_SysError \<Rightarrow> SysError)"

type_synonym reader = "read_event \<Rightarrow> io_result"

text \<open>
  One read, through the shared deadline when there is one. The loops below take the reader as an
  argument: what they need of it is that a successful read delivers bytes.
\<close>

definition read_body_some :: "int \<Rightarrow> deadline option \<Rightarrow> reader" where
  "read_body_some timeout dl ev =
     (case dl of
        Some d \<Rightarrow> fst (read_with_deadline timeout
                   (if ev_timer ev then [(fst (deadline_arm d), NoError)] else [])
                   (ev_data ev) (ev_ec ev) d)
      | None \<Rightarrow> read_with_timeout timeout ev)"

datatype line_result = Line string | No_line body_read_status error_code

fun consume_line ::
  "reader \<Rightarrow> nat \<Rightarrow> string \<Rightarrow> read_event list \<Rightarrow> (line_result \<times> string \<times> read_event list) option"
where
  "consume_line rd max_line_size buffer evs =
     (case find_sub CRLF buffer of
        Some pos \<Rightarrow> Some (Line (take pos buffer), drop (pos + 2) buffer, evs)
      | None \<Rightarrow>
          if length buffer > max_line_size then Some (No_line InvalidChunk NoError, buffer, evs)
          else (case evs of
                  [] \<Rightarrow> None
                | ev # evs' \<Rightarrow>
                    let r = rd ev in
                    if \<not> io_ok r then Some (No_line (body_status_from_io r) (io_ec r), buffer, evs')
                    else consume_line rd max_line_size (buffer @ io_data r) evs'))"

declare consume_line.simps [simp del]

function consume_exact ::
  "reader \<Rightarrow> nat \<Rightarrow> string \<Rightarrow> string \<Rightarrow> read_event list \<Rightarrow>
   (body_read_status \<times> error_code \<times> string \<times> string \<times> read_event list) option"
where
  "consume_exact rd len buffer out evs =
     (if len = 0 then Some (Success, NoError, buffer, out, evs)
      else if buffer \<noteq> [] then
        let k = min len (length buffer) in
        consume_exact rd (len - k) (drop k buffer) (out @ take k buffer) evs
      else (case evs of
              [] \<Rightarrow> None
            | ev # evs' \<Rightarrow>
                let r = rd ev in
                if \<not> io_ok r then Some (body_status_from_io r, io_ec r, buffer, out, evs')
                else consume_exact rd len (buffer @ io_data r) out evs'))"
  by pat_completeness auto
termination
  by (relation "measures [\<lambda>(rd, len, buffer, out, evs). length evs, \<lambda>(rd, len, buffer, out, evs). len]")
     auto

declare consume_exact.simps [simp del]

definition read_content_length_body ::
  "reader \<Rightarrow> string \<Rightarrow> nat \<Rightarrow> nat \<Rightarrow> read_event list \<Rightarrow>
   (body_read_result \<times> string \<times> read_event list) option"
where
  "read_content_length_body rd preread content_len max_body_size evs =
     (if content_len > max_body_size
      then Some (\<lparr>br_status = TooLarge, br_body = [], br_ec = NoError\<rparr>, preread, evs)
      else if length preread \<ge> content_len
      then Some (\<lparr>br_status = Success, br_body = take content_len preread, br_ec = NoError\<rparr>,
                 drop content_len preread, evs)
      else (case consume_exact rd (content_len - length preread) [] preread evs of
              None \<Rightarrow> None
            | Some (st, e, buffer, body, evs') \<Rightarrow>
                if st \<noteq> Success
                then Some (\<lparr>br_status = st, br_body = [], br_ec = e\<rparr>, buffer, evs')
                else Some (\<lparr>br_status = Success, br_body = body, br_ec = NoError\<rparr>, buffer, evs')))"

text \<open>
  The bytes a reader has not consumed yet: the measure by which the chunk and trailer loops
  terminate. Every line they consume takes its CRLF out of it.
\<close>

definition pending :: "reader \<Rightarrow> string \<Rightarrow> read_event list \<Rightarrow> nat" where
  "pending rd buffer evs = length buffer + sum_list (map (\<lambda>ev. length (io_data (rd ev))) evs)"

lemma consume_line_pending:
  "consume_line rd m buffer evs = Some (Line l, buffer', evs') \<Longrightarrow>
     pending rd buffer' evs' + 2 \<le> pending rd buffer evs"
proof (induction rd m buffer evs rule: consume_line.induct)
  case (1 rd m buffer evs)
  show ?case
  proof (cases "find_sub CRLF buffer")
    case (Some pos)
    with "1.prems" have "buffer' = drop (pos + 2) buffer" "evs' = evs"
      by (auto simp: consume_line.simps [of rd m buffer evs])
    moreover have "pos + 2 \<le> length buffer"
      using find_sub_Some_bound [OF Some] by (simp add: CRLF_def)
    ultimately show ?thesis by (simp add: pending_def)
  next
    case None
    with "1.prems" obtain ev evs1 where e: "evs = ev # evs1" "\<not> length buffer > m" "io_ok (rd ev)"
      "consume_line rd m (buffer @ io_data (rd ev)) evs1 = Some (Line l, buffer', evs')"
      by (auto simp: consume_line.simps [of rd m buffer evs] Let_def split: if_splits list.splits)
    have "pending rd buffer' evs' + 2 \<le> pending rd (buffer @ io_data (rd ev)) evs1"
      by (rule "1.IH" [OF None e(2,1) refl _ e(4)]) (use e in simp)
    then show ?thesis using e(1) by (simp add: pending_def)
  qed
qed

lemma consume_exact_pending:
  "consume_exact rd len buffer out evs = Some (st, e, buffer', out', evs') \<Longrightarrow>
     pending rd buffer' evs' \<le> pending rd buffer evs"
proof (induction rd len buffer out evs rule: consume_exact.induct)
  case (1 rd len buffer out evs)
  consider (z) "len = 0" | (buf) "len \<noteq> 0" "buffer \<noteq> []" | (ev) "len \<noteq> 0" "buffer = []" by blast
  then show ?case
  proof cases
    case z
    with "1.prems" show ?thesis by (simp add: consume_exact.simps [of rd 0])
  next
    case buf
    with "1.prems" "1.IH"(1) have "pending rd buffer' evs' \<le>
        pending rd (drop (min len (length buffer)) buffer) evs"
      by (simp add: consume_exact.simps [of rd len buffer] Let_def)
    then show ?thesis by (simp add: pending_def)
  next
    case ev
    show ?thesis
    proof (cases evs)
      case Nil
      with ev "1.prems" show ?thesis by (simp add: consume_exact.simps [of rd len])
    next
      case (Cons a evs1)
      with ev "1.prems" "1.IH"(2) [OF ev(1) _ Cons refl] show ?thesis
        by (auto simp: consume_exact.simps [of rd len] Let_def pending_def split: if_splits)
    qed
  qed
qed

function read_trailers ::
  "reader \<Rightarrow> body_read_result \<Rightarrow> string \<Rightarrow> read_event list \<Rightarrow>
   (body_read_result \<times> string \<times> read_event list) option"
where
  "read_trailers rd result buffer evs =
     (case consume_line rd kMaxChunkControlLineSize buffer evs of
        None \<Rightarrow> None
      | Some (No_line st e, buffer', evs') \<Rightarrow>
          Some (result\<lparr>br_status := st, br_ec := e\<rparr>, buffer', evs')
      | Some (Line trailer, buffer', evs') \<Rightarrow>
          if trailer = [] then Some (result, buffer', evs')
          else read_trailers rd result buffer' evs')"
  by pat_completeness auto
termination
  by (relation "measure (\<lambda>(rd, result, buffer, evs). pending rd buffer evs)")
     (auto dest: consume_line_pending)

declare read_trailers.simps [simp del]

function read_chunked_loop ::
  "reader \<Rightarrow> nat \<Rightarrow> string \<Rightarrow> string \<Rightarrow> read_event list \<Rightarrow>
   (body_read_result \<times> string \<times> read_event list) option"
where
  "read_chunked_loop rd max_body_size body buffer evs =
     (case consume_line rd kMaxChunkControlLineSize buffer evs of
        None \<Rightarrow> None
      | Some (No_line st e, buffer1, evs1) \<Rightarrow>
          Some (\<lparr>br_status = st, br_body = body, br_ec = e\<rparr>, buffer1, evs1)
      | Some (Line line, buffer1, evs1) \<Rightarrow>
          (case parse_hex_size_line line of
             None \<Rightarrow> Some (\<lparr>br_status = InvalidChunk, br_body = body, br_ec = NoError\<rparr>, buffer1, evs1)
           | Some chunk_size \<Rightarrow>
               if chunk_size = 0 then
                 read_trailers rd \<lparr>br_status = Success, br_body = body, br_ec = NoError\<rparr> buffer1 evs1
               else if chunk_size > max_body_size \<or> length body > max_body_size - chunk_size then
                 Some (\<lparr>br_status = TooLarge, br_body = [], br_ec = NoError\<rparr>, buffer1, evs1)
               else
                 (case consume_exact rd (wrap64 (chunk_size + 2)) buffer1 [] evs1 of
                    None \<Rightarrow> None
                  | Some (st, e, buffer2, tmp, evs2) \<Rightarrow>
                      if st \<noteq> Success then
                        Some (\<lparr>br_status = st, br_body = [], br_ec = e\<rparr>, buffer2, evs2)
                      else if length tmp < wrap64 (chunk_size + 2) \<or> tmp ! chunk_size \<noteq> CR \<or>
                              tmp ! (chunk_size + 1) \<noteq> LF then
                        Some (\<lparr>br_status = InvalidChunk, br_body = [], br_ec = NoError\<rparr>, buffer2, evs2)
                      else
                        read_chunked_loop rd max_body_size (body @ take chunk_size tmp) buffer2 evs2)))"
  by pat_completeness auto
termination
  by (relation "measure (\<lambda>(rd, m, body, buffer, evs). pending rd buffer evs)")
     (auto dest!: consume_line_pending consume_exact_pending)

declare read_chunked_loop.simps [simp del]

definition read_chunked_body ::
  "reader \<Rightarrow> string \<Rightarrow> nat \<Rightarrow> read_event list \<Rightarrow> (body_read_result \<times> string \<times> read_event list) option"
where
  "read_chunked_body rd preread max_body_size evs = read_chunked_loop rd max_body_size [] preread evs"

section \<open>Reading is independent of how the bytes arrive\<close>

text \<open>
  The unread part of the connection as one byte string, and the condition that the
  completions to come are all successful reads.
\<close>

definition stream :: "reader \<Rightarrow> string \<Rightarrow> read_event list \<Rightarrow> string" where
  "stream rd buffer evs = buffer @ concat (map (\<lambda>ev. io_data (rd ev)) evs)"

definition all_ok :: "reader \<Rightarrow> read_event list \<Rightarrow> bool" where
  "all_ok rd evs \<longleftrightarrow> list_all (\<lambda>ev. io_ok (rd ev)) evs"

lemma stream_Cons: "stream rd buffer (ev # evs) = stream rd (buffer @ io_data (rd ev)) evs"
  by (simp add: stream_def)

lemma all_ok_Cons [simp]: "all_ok rd (ev # evs) \<longleftrightarrow> io_ok (rd ev) \<and> all_ok rd evs"
  and all_ok_Nil [simp]: "all_ok rd []"
  by (simp_all add: all_ok_def)

lemma find_sub_CRLF_short:
  "CR \<notin> set l \<Longrightarrow> n \<le> length l + 1 \<Longrightarrow> find_sub CRLF (take n (l @ CRLF)) = None"
proof (induction l arbitrary: n)
  case Nil
  then have "n = 0 \<or> n = 1" by auto
  then show ?case by (auto simp: find_sub.simps starts_with_def CRLF_def)
next
  case (Cons x xs)
  show ?case
  proof (cases n)
    case 0
    then show ?thesis by (simp add: find_sub.simps starts_with_def CRLF_def)
  next
    case (Suc m)
    with Cons have "find_sub CRLF (take m (xs @ CRLF)) = None" and "x \<noteq> CR" by auto
    with Suc show ?thesis
      by (subst find_sub.simps) (simp add: starts_with_def CRLF_def)
  qed
qed

lemma consume_line_complete:
  assumes "CR \<notin> set l" and "length l < m"
  shows "all_ok rd evs \<Longrightarrow> stream rd buffer evs = l @ CRLF @ rest \<Longrightarrow>
    \<exists>buffer' evs'. consume_line rd m buffer evs = Some (Line l, buffer', evs') \<and>
      stream rd buffer' evs' = rest \<and> all_ok rd evs'"
proof (induction evs arbitrary: buffer)
  case Nil
  then have "buffer = l @ CRLF @ rest" by (simp add: stream_def)
  with assms(1) show ?case
    by (simp add: consume_line.simps find_sub_CRLF_line stream_def) (simp add: CRLF_def)
next
  case (Cons ev evs)
  let ?X = "concat (map (\<lambda>ev. io_data (rd ev)) (ev # evs))"
  have eq: "buffer @ ?X = (l @ CRLF) @ rest" using Cons.prems(2) by (simp add: stream_def)
  show ?case
  proof (cases "length buffer < length (l @ CRLF)")
    case True
    then have b: "buffer = take (length buffer) (l @ CRLF)"
      using arg_cong [OF eq, of "take (length buffer)"] by simp
    have "find_sub CRLF buffer = None"
      by (subst b, rule find_sub_CRLF_short [OF assms(1)]) (use True in \<open>simp add: CRLF_def\<close>)
    moreover have "\<not> length buffer > m" using True assms(2) by (simp add: CRLF_def)
    moreover have "stream rd (buffer @ io_data (rd ev)) evs = l @ CRLF @ rest"
      using Cons.prems(2) by (simp add: stream_Cons)
    ultimately show ?thesis
      using Cons by (simp add: consume_line.simps [of rd m buffer])
  next
    case False
    define b' where "b' = drop (length (l @ CRLF)) buffer"
    have "take (length (l @ CRLF)) buffer = l @ CRLF"
      using arg_cong [OF eq, of "take (length (l @ CRLF))"] False by simp
    then have b1: "buffer = l @ CRLF @ b'"
      by (metis append.assoc append_take_drop_id b'_def)
    have b2: "b' @ ?X = rest"
      using arg_cong [OF eq, of "drop (length (l @ CRLF))"] False by (simp add: b'_def)
    from b1 b2 show ?thesis
      using assms(1) Cons.prems(1)
      by (simp add: consume_line.simps find_sub_CRLF_line stream_def) (simp add: CRLF_def)
  qed
qed

lemma consume_exact_complete:
  "all_ok rd evs \<Longrightarrow> stream rd buffer evs = x @ rest \<Longrightarrow> length x = len \<Longrightarrow>
    \<exists>buffer' evs'. consume_exact rd len buffer out evs = Some (Success, NoError, buffer', out @ x, evs') \<and>
      stream rd buffer' evs' = rest \<and> all_ok rd evs'"
proof (induction rd len buffer out evs arbitrary: x rule: consume_exact.induct)
  case (1 rd len buffer out evs)
  consider (z) "len = 0" | (buf) "len \<noteq> 0" "buffer \<noteq> []" | (ev) "len \<noteq> 0" "buffer = []" by blast
  then show ?case
  proof cases
    case z
    with "1.prems" show ?thesis by (simp add: consume_exact.simps [of rd 0])
  next
    case buf
    define k where "k = min len (length buffer)"
    have k: "k \<le> length buffer" "k \<le> length x" using "1.prems"(3) by (auto simp: k_def)
    have eq: "buffer @ concat (map (\<lambda>ev. io_data (rd ev)) evs) = x @ rest"
      using "1.prems"(2) by (simp add: stream_def)
    have tk: "take k buffer = take k x"
      using arg_cong [OF eq, of "take k"] k by simp
    have st: "stream rd (drop k buffer) evs = drop k x @ rest"
      using arg_cong [OF eq, of "drop k"] k by (simp add: stream_def)
    have "length (drop k x) = len - k" using "1.prems"(3) by simp
    from "1.IH"(1) [OF buf k_def "1.prems"(1) st this] obtain b' e' where
      "consume_exact rd (len - k) (drop k buffer) (out @ take k buffer) evs =
         Some (Success, NoError, b', (out @ take k buffer) @ drop k x, e')"
      "stream rd b' e' = rest" "all_ok rd e'" by blast
    then show ?thesis
      using buf tk by (simp add: consume_exact.simps [of rd len buffer] Let_def k_def)
  next
    case ev
    show ?thesis
    proof (cases evs)
      case Nil
      with ev "1.prems" show ?thesis by (auto simp: stream_def)
    next
      case (Cons a evs1)
      with "1.prems" have ok: "io_ok (rd a)" "all_ok rd evs1"
        and s: "stream rd (buffer @ io_data (rd a)) evs1 = x @ rest"
        by (simp_all add: stream_Cons)
      from "1.IH"(2) [OF ev(1) _ Cons refl _ ok(2) s "1.prems"(3)] ev ok(1) Cons
      show ?thesis by (simp add: consume_exact.simps [of rd len] Let_def)
    qed
  qed
qed

section \<open>Chunked bodies\<close>

text \<open>
  A chunked message: size lines with their data, the last size line (any spelling of zero, with
  extensions), trailer lines and the closing empty line. Control lines hold no CR and stay
  below the limit of the reader.
\<close>

definition encode_chunked :: "(string \<times> string) list \<Rightarrow> string \<Rightarrow> string list \<Rightarrow> string" where
  "encode_chunked cs last_line ts =
     concat (map (\<lambda>(l, d). l @ CRLF @ d @ CRLF) cs) @ last_line @ CRLF @
     concat (map (\<lambda>t. t @ CRLF) ts) @ CRLF"

definition control_line_ok :: "string \<Rightarrow> bool" where
  "control_line_ok l \<longleftrightarrow> CR \<notin> set l \<and> length l < kMaxChunkControlLineSize"

definition chunks_ok :: "(string \<times> string) list \<Rightarrow> bool" where
  "chunks_ok cs \<longleftrightarrow> list_all (\<lambda>(l, d). control_line_ok l \<and> d \<noteq> [] \<and>
     parse_hex_size_line l = Some (length d)) cs"

definition trailers_ok :: "string list \<Rightarrow> bool" where
  "trailers_ok ts \<longleftrightarrow> list_all (\<lambda>t. t \<noteq> [] \<and> control_line_ok t) ts"

lemma consume_control_line:
  assumes "control_line_ok l" and "all_ok rd evs" and "stream rd buffer evs = l @ CRLF @ rest"
  obtains buffer' evs' where
    "consume_line rd kMaxChunkControlLineSize buffer evs = Some (Line l, buffer', evs')"
    "stream rd buffer' evs' = rest" "all_ok rd evs'"
  using consume_line_complete [of l kMaxChunkControlLineSize, OF _ _ assms(2,3)] assms(1)
  by (auto simp: control_line_ok_def)

lemma read_trailers_complete:
  assumes "trailers_ok ts"
  shows "all_ok rd evs \<Longrightarrow> stream rd buffer evs = concat (map (\<lambda>t. t @ CRLF) ts) @ CRLF @ rest \<Longrightarrow>
    \<exists>buffer' evs'. read_trailers rd result buffer evs = Some (result, buffer', evs') \<and>
      stream rd buffer' evs' = rest \<and> all_ok rd evs'"
  using assms
proof (induction ts arbitrary: buffer evs)
  case Nil
  have "control_line_ok []" by (simp add: control_line_ok_def kMaxChunkControlLineSize_def)
  moreover have "stream rd buffer evs = [] @ CRLF @ rest" using Nil.prems(2) by simp
  ultimately obtain b1 e1 where
    "consume_line rd kMaxChunkControlLineSize buffer evs = Some (Line [], b1, e1)"
    "stream rd b1 e1 = rest" "all_ok rd e1"
    using consume_control_line [OF _ Nil.prems(1)] by blast
  then show ?case by (simp add: read_trailers.simps [of rd result buffer evs])
next
  case (Cons t ts)
  have t: "t \<noteq> []" "control_line_ok t" "trailers_ok ts"
    using Cons.prems(3) by (auto simp: trailers_ok_def)
  have "stream rd buffer evs = t @ CRLF @ concat (map (\<lambda>t. t @ CRLF) ts) @ CRLF @ rest"
    using Cons.prems(2) by simp
  with t(2) obtain b1 e1 where c:
    "consume_line rd kMaxChunkControlLineSize buffer evs = Some (Line t, b1, e1)"
    "stream rd b1 e1 = concat (map (\<lambda>t. t @ CRLF) ts) @ CRLF @ rest" "all_ok rd e1"
    using consume_control_line [OF _ Cons.prems(1)] by blast
  with Cons.IH [OF c(3,2) t(3)] t(1) show ?case
    by (simp add: read_trailers.simps [of rd result buffer evs])
qed

lemma read_chunked_loop_complete:
  assumes "chunks_ok cs" and "control_line_ok z" and "parse_hex_size_line z = Some 0"
    and "trailers_ok ts" and "max_body_size + 2 \<le> SIZE_MAX"
  shows "all_ok rd evs \<Longrightarrow> stream rd buffer evs = encode_chunked cs z ts @ rest \<Longrightarrow>
    length body + length (concat (map snd cs)) \<le> max_body_size \<Longrightarrow>
    \<exists>buffer' evs'. read_chunked_loop rd max_body_size body buffer evs =
        Some (\<lparr>br_status = Success, br_body = body @ concat (map snd cs), br_ec = NoError\<rparr>,
              buffer', evs') \<and>
      stream rd buffer' evs' = rest \<and> all_ok rd evs'"
  using assms(1)
proof (induction cs arbitrary: buffer evs body)
  case Nil
  then have "stream rd buffer evs = z @ CRLF @ concat (map (\<lambda>t. t @ CRLF) ts) @ CRLF @ rest"
    by (simp add: encode_chunked_def)
  then obtain b1 e1 where c:
    "consume_line rd kMaxChunkControlLineSize buffer evs = Some (Line z, b1, e1)"
    "stream rd b1 e1 = concat (map (\<lambda>t. t @ CRLF) ts) @ CRLF @ rest" "all_ok rd e1"
    using consume_control_line [OF assms(2) Nil.prems(1)] by blast
  from read_trailers_complete [OF assms(4) c(3,2)] show ?case
    using c(1) assms(3) by (simp add: read_chunked_loop.simps [of rd max_body_size body buffer evs])
next
  case (Cons ld cs)
  obtain l d where ld: "ld = (l, d)" by fastforce
  have ok: "control_line_ok l" "d \<noteq> []" "parse_hex_size_line l = Some (length d)" "chunks_ok cs"
    using Cons.prems(4) by (auto simp: chunks_ok_def ld)
  have "stream rd buffer evs = l @ CRLF @ (d @ CRLF) @ encode_chunked cs z ts @ rest"
    using Cons.prems(2) by (simp add: encode_chunked_def ld)
  then obtain b1 e1 where c:
    "consume_line rd kMaxChunkControlLineSize buffer evs = Some (Line l, b1, e1)"
    "stream rd b1 e1 = (d @ CRLF) @ encode_chunked cs z ts @ rest" "all_ok rd e1"
    using consume_control_line [OF ok(1) Cons.prems(1)] by blast
  have len: "length body + length d + length (concat (map snd cs)) \<le> max_body_size"
    using Cons.prems(3) by (simp add: ld)
  then have w: "wrap64 (Suc (Suc (length d))) = Suc (Suc (length d))"
    using assms(5) by (intro wrap64_id) simp
  have "length (d @ CRLF) = wrap64 (length d + 2)" by (simp add: w CRLF_def)
  from consume_exact_complete [OF c(3,2) this, of "[]"] obtain b2 e2 where x:
    "consume_exact rd (wrap64 (length d + 2)) b1 [] e1 = Some (Success, NoError, b2, d @ CRLF, e2)"
    "stream rd b2 e2 = encode_chunked cs z ts @ rest" "all_ok rd e2" by auto
  have nb: "\<not> (max_body_size < length d \<or> max_body_size - length d < length body)"
    using len by linarith
  have step: "read_chunked_loop rd max_body_size body buffer evs =
      read_chunked_loop rd max_body_size (body @ d) b2 e2"
    using c(1) ok(2,3) x(1) nb w
    by (simp add: read_chunked_loop.simps [of rd max_body_size body buffer evs] CRLF_def nth_append)
  have "length (body @ d) + length (concat (map snd cs)) \<le> max_body_size" using len by simp
  from Cons.IH [OF x(3,2) this ok(4)] show ?case by (simp add: step ld)
qed

text \<open>
  C2: the chunked reader inverts the chunked encoding. Whatever way the
  bytes of an encoded message are cut into reads, and whatever part of them was read ahead, the
  reader returns exactly the concatenated chunk data and leaves exactly the bytes that follow
  the message, so the next request on the connection starts where it should.
\<close>

theorem chunked_body_decodes:
  assumes "chunks_ok cs" and "control_line_ok z" and "parse_hex_size_line z = Some 0"
    and "trailers_ok ts" and "length (concat (map snd cs)) \<le> max_body_size"
    and "max_body_size + 2 \<le> SIZE_MAX" and "all_ok rd evs"
    and "stream rd preread evs = encode_chunked cs z ts @ rest"
  shows "\<exists>preread' evs'. read_chunked_body rd preread max_body_size evs =
      Some (\<lparr>br_status = Success, br_body = concat (map snd cs), br_ec = NoError\<rparr>, preread', evs') \<and>
    stream rd preread' evs' = rest"
  using read_chunked_loop_complete [OF assms(1-4,6-8), of "[]"] assms(5)
  by (auto simp: read_chunked_body_def)

theorem chunked_body_decodes_witness:
  "\<exists>preread' evs'. read_chunked_body (read_with_timeout 0) (''3;x'' @ CRLF @ ''ab'') 10
     [\<lparr>ev_data = ''c'' @ CRLF @ ''0'', ev_ec = NoError, ev_timer = False\<rparr>,
      \<lparr>ev_data = CRLF @ CRLF @ ''GET'', ev_ec = NoError, ev_timer = False\<rparr>] =
      Some (\<lparr>br_status = Success, br_body = concat (map snd [(''3;x'', ''abc'')]), br_ec = NoError\<rparr>,
            preread', evs') \<and>
    stream (read_with_timeout 0) preread' evs' = ''GET''"
  by (rule chunked_body_decodes [where z = "''0''" and ts = "[]"]) code_simp+

section \<open>Bounds\<close>

lemma read_trailers_body:
  "read_trailers rd result buffer evs = Some (r, b, e) \<Longrightarrow> br_body r = br_body result"
proof (induction rd result buffer evs rule: read_trailers.induct)
  case (1 rd result buffer evs)
  then show ?case
    by (auto simp: read_trailers.simps [of rd result buffer evs]
        split: option.splits line_result.splits if_splits)
qed

lemma read_chunked_loop_bound:
  "read_chunked_loop rd m body buffer evs = Some (r, b, e) \<Longrightarrow> length body \<le> m \<Longrightarrow>
     length (br_body r) \<le> m"
proof (induction rd m body buffer evs rule: read_chunked_loop.induct)
  case (1 rd m body buffer evs)
  show ?case
    using "1.prems" "1.IH"
    by (auto simp: read_chunked_loop.simps [of rd m body buffer evs] dest!: read_trailers_body
        split: option.splits line_result.splits if_splits)
qed

lemma consume_exact_length:
  "consume_exact rd len buffer out evs = Some (st, e, buffer', out', evs') \<Longrightarrow> st = Success \<Longrightarrow>
     length out' = length out + len"
proof (induction rd len buffer out evs rule: consume_exact.induct)
  case (1 rd len buffer out evs)
  consider (z) "len = 0" | (buf) "len \<noteq> 0" "buffer \<noteq> []" | (ev) "len \<noteq> 0" "buffer = []" by blast
  then show ?case
  proof cases
    case z
    with "1.prems" show ?thesis by (simp add: consume_exact.simps [of rd 0])
  next
    case buf
    with "1.prems" "1.IH"(1) [OF buf refl] show ?thesis
      by (auto simp: consume_exact.simps [of rd len buffer] Let_def)
  next
    case ev
    show ?thesis
    proof (cases evs)
      case Nil
      with ev "1.prems" show ?thesis by (simp add: consume_exact.simps [of rd len])
    next
      case (Cons a evs1)
      with "1.prems" "1.IH"(2) [OF ev(1) _ Cons refl] ev show ?thesis
        by (auto simp: consume_exact.simps [of rd len "[]"] body_status_from_io_def io_ok_def Let_def
            split: if_splits io_status.splits)
    qed
  qed
qed

text \<open>
  whatever the peer sends, the chunked reader never holds a decoded
  body longer than the configured maximum, on success and on every error path.
\<close>

lemma chunked_body_bounded:
  "read_chunked_body rd preread max_body_size evs = Some (r, preread', evs') \<Longrightarrow>
     length (br_body r) \<le> max_body_size"
  unfolding read_chunked_body_def by (erule read_chunked_loop_bound) simp

lemma content_length_too_large:
  "max_body_size < n \<Longrightarrow> read_content_length_body rd preread n max_body_size evs =
     Some (\<lparr>br_status = TooLarge, br_body = [], br_ec = NoError\<rparr>, preread, evs)"
  by (simp add: read_content_length_body_def)

lemma content_length_success:
  "read_content_length_body rd preread n max_body_size evs = Some (r, preread', evs') \<Longrightarrow>
     body_ok r \<Longrightarrow> length (br_body r) = n \<and> n \<le> max_body_size"
  by (auto simp: read_content_length_body_def body_ok_def dest!: consume_exact_length [OF _ refl]
      split: if_splits option.splits)

lemma content_length_exact:
  assumes "n \<le> max_body_size" and "all_ok rd evs" and "n \<le> length (stream rd preread evs)"
  shows "\<exists>preread' evs'. read_content_length_body rd preread n max_body_size evs =
      Some (\<lparr>br_status = Success, br_body = take n (stream rd preread evs), br_ec = NoError\<rparr>,
            preread', evs') \<and>
    stream rd preread' evs' = drop n (stream rd preread evs)"
proof (cases "n \<le> length preread")
  case True
  with assms(1) show ?thesis by (simp add: read_content_length_body_def stream_def)
next
  case False
  define x where "x = take (n - length preread) (stream rd [] evs)"
  define rest where "rest = drop (n - length preread) (stream rd [] evs)"
  have s: "stream rd preread evs = preread @ stream rd [] evs" by (simp add: stream_def)
  have "length x = n - length preread" using assms(3) s False by (simp add: x_def)
  moreover have "stream rd [] evs = x @ rest" by (simp add: x_def rest_def)
  ultimately obtain b' e' where
    "consume_exact rd (n - length preread) [] preread evs = Some (Success, NoError, b', preread @ x, e')"
    "stream rd b' e' = rest"
    using consume_exact_complete [OF assms(2)] by blast
  with False assms(1) show ?thesis
    by (simp add: read_content_length_body_def s x_def rest_def)
qed

end
