(* ===== verification/Config_Ini.thy ===== *)
theory Config_Ini
  imports Prelude "HOL-Library.List_Lexorder" "HOL-Library.Char_ord"
begin

text \<open>
  The configuration store, \<^verbatim>\<open>src/common/config.hpp\<close>: the ini parser, the directory loader and the
  typed getters. The object keeps a map from qualified keys to values and the entries in file order. An
  exception is a value on the left of a sum.
\<close>

record config =
  cfg_data :: "string \<rightharpoonup> string"
  cfg_raw :: "(string \<times> string \<times> string) list"

definition config0 :: config where
  "config0 = \<lparr>cfg_data = Map.empty, cfg_raw = []\<rparr>"

definition qualified_key :: "string \<Rightarrow> string \<Rightarrow> string" where
  "qualified_key section key = section @ ''.'' @ key"

section \<open>Parsing\<close>

text \<open>One line: the section in force and the store, or \<open>None\<close> where the parser returns false.\<close>

definition config_line :: "string \<times> config \<Rightarrow> string \<Rightarrow> (string \<times> config) option" where
  "config_line st line0 =
     (let section = fst st; cfg = snd st; line = trim line0 in
      if line = [] \<or> hd line = CHR ''#'' \<or> hd line = CHR '';'' then Some (section, cfg)
      else if hd line = CHR ''['' then
        if last line \<noteq> CHR '']'' then None
        else Some (take (length line - 2) (drop 1 line), cfg)
      else
        (case find_char (CHR ''='') line of
           None \<Rightarrow> None
         | Some eq \<Rightarrow>
             let key = trim (take eq line); val = trim (drop (eq + 1) line) in
             Some (section,
               \<lparr>cfg_data = (cfg_data cfg)(qualified_key section key \<mapsto> val),
                cfg_raw = cfg_raw cfg @ [(section, key, val)]\<rparr>)))"

text \<open>The loop over \<^verbatim>\<open>std::getline\<close>; entries stored before a malformed line stay in the object.\<close>

fun config_lines :: "string \<times> config \<Rightarrow> string list \<Rightarrow> bool \<times> config" where
  "config_lines st [] = (True, snd st)"
| "config_lines st (line # lines) =
     (case config_line st line of
        None \<Rightarrow> (False, snd st)
      | Some st' \<Rightarrow> config_lines st' lines)"

text \<open>\<open>content\<close> is \<open>None\<close> when the file cannot be opened.\<close>

definition load_file :: "config \<Rightarrow> string option \<Rightarrow> bool \<times> config" where
  "load_file cfg content =
     (case content of
        None \<Rightarrow> (False, cfg)
      | Some text \<Rightarrow> config_lines ([], cfg) (split_lt LF text))"

text \<open>
  A directory entry as the scan sees it: \<open>de_regular\<close> is \<open>None\<close> when \<^verbatim>\<open>is_regular_file\<close> reports an
  error.
\<close>

record dir_entry =
  de_name :: string
  de_regular :: "bool option"
  de_content :: "string option"

definition path_extension :: "string \<Rightarrow> string" where
  "path_extension name =
     (case rfind_char (CHR ''.'') name of
        None \<Rightarrow> []
      | Some i \<Rightarrow> if i = 0 \<or> name = ''..'' then [] else drop i name)"

fun scan_entries :: "dir_entry list \<Rightarrow> dir_entry list option" where
  "scan_entries [] = Some []"
| "scan_entries (e # es) =
     (case de_regular e of
        None \<Rightarrow> None
      | Some regular \<Rightarrow>
          map_option (\<lambda>fs. if regular \<and> path_extension (de_name e) = ''.ini'' then e # fs else fs)
            (scan_entries es))"

fun load_files :: "config \<Rightarrow> dir_entry list \<Rightarrow> bool \<times> config" where
  "load_files cfg [] = (True, cfg)"
| "load_files cfg (f # fs) =
     (case load_file cfg (de_content f) of
        (False, cfg') \<Rightarrow> (False, cfg')
      | (True, cfg') \<Rightarrow> load_files cfg' fs)"

text \<open>
  The directory: \<open>None\<close> when \<^verbatim>\<open>config.d\<close> is not a directory or cannot be opened; otherwise its
  entries in the order the iterator gives them and whether an increment reported an error.
\<close>

definition config_load :: "config \<Rightarrow> (dir_entry list \<times> bool) option \<Rightarrow> bool \<times> config" where
  "config_load cfg dir =
     (case dir of
        None \<Rightarrow> (False, cfg)
      | Some (entries, scan_error) \<Rightarrow>
          (case scan_entries entries of
             None \<Rightarrow> (False, cfg)
           | Some files \<Rightarrow>
               if scan_error then (False, cfg)
               else if files = [] then (False, cfg)
               else load_files cfg (sort_key de_name files)))"

section \<open>Getters\<close>

datatype config_error = Invalid_argument string

definition config_get :: "config \<Rightarrow> string \<Rightarrow> string \<Rightarrow> string \<Rightarrow> string" where
  "config_get cfg section key def =
     (case cfg_data cfg (qualified_key section key) of Some v \<Rightarrow> v | None \<Rightarrow> def)"

definition get_int :: "config \<Rightarrow> string \<Rightarrow> string \<Rightarrow> int \<Rightarrow> config_error + int" where
  "get_int cfg section key def =
     (case cfg_data cfg (qualified_key section key) of
        None \<Rightarrow> Inr def
      | Some value \<Rightarrow>
          (case from_chars_int value of
             Some parsed \<Rightarrow> Inr parsed
           | None \<Rightarrow> Inl (Invalid_argument
               (''invalid int config '' @ section @ ''.'' @ key @ ''='' @ value))))"

text \<open>
  \<open>strtod\<close> stands for the C function: the value, the number of characters it consumed and whether
  it reported \<^verbatim>\<open>ERANGE\<close>; \<open>isfinite\<close> for its classification.
\<close>

definition get_double ::
  "(string \<Rightarrow> 'd \<times> nat \<times> bool) \<Rightarrow> ('d \<Rightarrow> bool) \<Rightarrow> config \<Rightarrow> string \<Rightarrow> string \<Rightarrow> 'd \<Rightarrow> config_error + 'd" where
  "get_double strtod isfinite cfg section key def =
     (case cfg_data cfg (qualified_key section key) of
        None \<Rightarrow> Inr def
      | Some value \<Rightarrow>
          let (parsed, consumed, erange) = strtod value in
          if value = [] \<or> erange \<or> consumed \<noteq> length value \<or> \<not> isfinite parsed
          then Inl (Invalid_argument
            (''invalid double config '' @ section @ ''.'' @ key @ ''='' @ value))
          else Inr parsed)"

definition get_bool :: "config \<Rightarrow> string \<Rightarrow> string \<Rightarrow> bool \<Rightarrow> config_error + bool" where
  "get_bool cfg section key def =
     (case cfg_data cfg (qualified_key section key) of
        None \<Rightarrow> Inr def
      | Some raw \<Rightarrow>
          let value = lower raw in
          if value = ''true'' \<or> value = ''1'' \<or> value = ''yes'' \<or> value = ''on'' then Inr True
          else if value = ''false'' \<or> value = ''0'' \<or> value = ''no'' \<or> value = ''off'' then Inr False
          else Inl (Invalid_argument
            (''invalid bool config '' @ section @ ''.'' @ key @ ''='' @ raw)))"

definition get_section :: "config \<Rightarrow> string \<Rightarrow> (string \<times> string) list" where
  "get_section cfg section =
     map (\<lambda>(_, key, val). (key, val)) (filter (\<lambda>(sec, _, _). sec = section) (cfg_raw cfg))"

definition get_list :: "config \<Rightarrow> string \<Rightarrow> string list" where
  "get_list cfg section =
     map (\<lambda>(_, _, val). val) (filter (\<lambda>(sec, _, val). sec = section \<and> val \<noteq> []) (cfg_raw cfg))"

section \<open>The map is the last assignment in file order\<close>

definition config_wf :: "config \<Rightarrow> bool" where
  "config_wf cfg \<longleftrightarrow>
     cfg_data cfg = map_of (rev (map (\<lambda>(s, k, v). (qualified_key s k, v)) (cfg_raw cfg)))"

lemma config_wf_config0 [simp]: "config_wf config0"
  by (simp add: config_wf_def config0_def)

lemma config_line_wf: "config_line st l = Some st' \<Longrightarrow> config_wf (snd st) \<Longrightarrow> config_wf (snd st')"
  by (auto simp: config_line_def config_wf_def Let_def split: if_splits option.splits)

lemma config_lines_wf: "config_wf (snd st) \<Longrightarrow> config_wf (snd (config_lines st ls))"
  by (induction ls arbitrary: st) (auto dest: config_line_wf split: option.splits)

lemma load_file_wf: "config_wf cfg \<Longrightarrow> config_wf (snd (load_file cfg content))"
  by (cases content) (auto simp: load_file_def intro: config_lines_wf)

lemma load_files_wf: "config_wf cfg \<Longrightarrow> config_wf (snd (load_files cfg fs))"
proof (induction fs arbitrary: cfg)
  case (Cons f fs)
  then show ?case
    using load_file_wf [OF Cons.prems, of "de_content f"] by (auto split: prod.splits bool.splits)
qed simp

lemma map_of_entries:
  "map_of (map (\<lambda>(s, k, v). (qualified_key s k, v)) es) q =
     map_option (\<lambda>(_, _, v). v) (find (\<lambda>(s, k, _). qualified_key s k = q) es)"
  by (induction es) auto

text \<open>
  After a directory load, successful or not, a lookup returns the value of the last entry
  for its qualified key among all entries stored in file-name order, and the default when there is none:
  \<^verbatim>\<open>99-local.ini\<close> overrides \<^verbatim>\<open>00-base.ini\<close>.
\<close>

lemma config_get_last_assignment:
  "config_get (snd (config_load config0 dir)) section key def =
     (case find (\<lambda>(s, k, _). qualified_key s k = qualified_key section key)
             (rev (cfg_raw (snd (config_load config0 dir)))) of
        Some (_, _, v) \<Rightarrow> v | None \<Rightarrow> def)"
proof -
  have "config_wf (snd (config_load config0 dir))"
    by (auto simp: config_load_def intro: load_files_wf split: option.splits)
  then show ?thesis
    by (auto simp: config_get_def config_wf_def rev_map map_of_entries split: option.splits)
qed

section \<open>Writing and reading back\<close>

text \<open>The text of one section, and what makes its parts survive trimming and the comment characters.\<close>

definition ini_line :: "string \<times> string \<Rightarrow> string" where
  "ini_line kv = fst kv @ ''='' @ snd kv @ [LF]"

definition ini_section :: "string \<times> (string \<times> string) list \<Rightarrow> string" where
  "ini_section sec = ''['' @ fst sec @ '']'' @ [LF] @ concat (map ini_line (snd sec))"

definition ini_text :: "(string \<times> (string \<times> string) list) list \<Rightarrow> string" where
  "ini_text secs = concat (map ini_section secs)"

definition ini_pair_ok :: "string \<times> string \<Rightarrow> bool" where
  "ini_pair_ok kv \<longleftrightarrow>
     trim (fst kv) = fst kv \<and> trim (snd kv) = snd kv \<and>
     CHR ''='' \<notin> set (fst kv) \<and> LF \<notin> set (fst kv) \<and> LF \<notin> set (snd kv) \<and>
     (fst kv \<noteq> [] \<longrightarrow> hd (fst kv) \<notin> {CHR ''#'', CHR '';'', CHR ''[''})"

definition ini_ok :: "(string \<times> (string \<times> string) list) list \<Rightarrow> bool" where
  "ini_ok secs \<longleftrightarrow> (\<forall>(s, kvs) \<in> set secs. LF \<notin> set s \<and> (\<forall>kv \<in> set kvs. ini_pair_ok kv))"

lemma split_lt_line: "LF \<notin> set l \<Longrightarrow> split_lt LF (l @ LF # rest) = l # split_lt LF rest"
  by (subst split_lt.simps) (simp add: find_char_append_fresh)

lemma isspace_punct [simp]:
  "\<not> isspace (CHR ''='')" "\<not> isspace (CHR ''['')" "\<not> isspace (CHR '']'')"
  by (simp_all add: isspace_def)

lemma config_line_pair:
  assumes "ini_pair_ok (k, v)"
  shows "config_line (sec, cfg) (k @ ''='' @ v) =
    Some (sec, \<lparr>cfg_data = (cfg_data cfg)(qualified_key sec k \<mapsto> v), cfg_raw = cfg_raw cfg @ [(sec, k, v)]\<rparr>)"
proof -
  let ?l = "k @ ''='' @ v"
  have kv: "trim k = k" "trim v = v" "CHR ''='' \<notin> set k"
    using assms by (auto simp: ini_pair_ok_def)
  then have "trim ?l = ?l"
    unfolding trim_eq_self_iff by (auto simp: hd_append)
  moreover have "hd ?l \<notin> {CHR ''#'', CHR '';'', CHR ''[''}"
    using assms by (cases k) (auto simp: ini_pair_ok_def)
  moreover have "find_char (CHR ''='') ?l = Some (length k)"
    using kv(3) by (simp add: find_char_append_fresh)
  ultimately show ?thesis using kv(1,2) by (simp add: config_line_def Let_def)
qed

lemma config_line_section: "config_line (sec, cfg) (''['' @ s @ '']'') = Some (s, cfg)"
proof -
  have "trim (''['' @ s @ '']'') = ''['' @ s @ '']''"
    unfolding trim_eq_self_iff by simp
  then show ?thesis by (simp add: config_line_def Let_def)
qed

text \<open>The state after reading the pairs of one section.\<close>

definition store_pairs :: "string \<Rightarrow> config \<Rightarrow> (string \<times> string) list \<Rightarrow> config" where
  "store_pairs sec cfg kvs =
     foldl (\<lambda>cfg (k, v). \<lparr>cfg_data = (cfg_data cfg)(qualified_key sec k \<mapsto> v),
                          cfg_raw = cfg_raw cfg @ [(sec, k, v)]\<rparr>) cfg kvs"

lemma cfg_raw_store_pairs:
  "cfg_raw (store_pairs sec cfg kvs) = cfg_raw cfg @ map (\<lambda>(k, v). (sec, k, v)) kvs"
  by (induction kvs arbitrary: cfg) (auto simp: store_pairs_def)

lemma config_lines_pairs:
  assumes "\<forall>kv \<in> set kvs. ini_pair_ok kv"
  shows "config_lines (sec, cfg) (split_lt LF (concat (map ini_line kvs) @ rest)) =
    config_lines (sec, store_pairs sec cfg kvs) (split_lt LF rest)"
  using assms
proof (induction kvs arbitrary: cfg)
  case (Cons kv kvs)
  obtain k v where kv: "kv = (k, v)" by fastforce
  have ok: "ini_pair_ok (k, v)" using Cons.prems kv by simp
  then have "LF \<notin> set (k @ ''='' @ v)" by (auto simp: ini_pair_ok_def LF_def)
  then have "split_lt LF (concat (map ini_line (kv # kvs)) @ rest) =
      (k @ ''='' @ v) # split_lt LF (concat (map ini_line kvs) @ rest)"
    using split_lt_line [of "k @ ''='' @ v"] by (simp add: ini_line_def kv)
  then show ?case
    using Cons config_line_pair [OF ok] by (simp add: store_pairs_def kv)
qed (simp add: store_pairs_def)

lemma load_ini_aux:
  assumes "ini_ok secs"
  shows "\<exists>cfg'. config_lines (sec, cfg) (split_lt LF (ini_text secs)) = (True, cfg') \<and>
    cfg_raw cfg' = cfg_raw cfg @ concat (map (\<lambda>(s, kvs). map (\<lambda>(k, v). (s, k, v)) kvs) secs)"
  using assms
proof (induction secs arbitrary: sec cfg)
  case Nil
  then show ?case by (simp add: ini_text_def split_lt.simps)
next
  case (Cons sc secs)
  obtain s kvs where sc: "sc = (s, kvs)" by fastforce
  have ok: "LF \<notin> set s" "\<forall>kv \<in> set kvs. ini_pair_ok kv" "ini_ok secs"
    using Cons.prems by (auto simp: ini_ok_def sc)
  have "split_lt LF (ini_text (sc # secs)) =
      (''['' @ s @ '']'') # split_lt LF (concat (map ini_line kvs) @ ini_text secs)"
    using split_lt_line [of "''['' @ s @ '']''"] ok(1)
    by (simp add: ini_text_def ini_section_def sc LF_def)
  then have "config_lines (sec, cfg) (split_lt LF (ini_text (sc # secs))) =
      config_lines (s, store_pairs s cfg kvs) (split_lt LF (ini_text secs))"
    using config_line_section config_lines_pairs [OF ok(2)] by simp
  then show ?case
    using Cons.IH [OF ok(3), of s "store_pairs s cfg kvs"] by (simp add: cfg_raw_store_pairs sc)
qed

text \<open>
  C5. Writing sections and pairs out as ini text and loading the text succeeds and stores exactly
  these entries, in order, duplicates included.
\<close>

theorem ini_text_roundtrip:
  assumes "ini_ok secs"
  shows "\<exists>cfg. load_file config0 (Some (ini_text secs)) = (True, cfg) \<and>
    (\<forall>s. get_section cfg s = concat (map (\<lambda>(s', kvs). if s' = s then kvs else []) secs))"
proof -
  obtain cfg where c: "load_file config0 (Some (ini_text secs)) = (True, cfg)"
    "cfg_raw cfg = concat (map (\<lambda>(s, kvs). map (\<lambda>(k, v). (s, k, v)) kvs) secs)"
    using load_ini_aux [OF assms, of "[]" config0] by (auto simp: load_file_def config0_def)
  have "map (\<lambda>(_, key, val). (key, val)) (filter (\<lambda>(sec, _, _). sec = s)
      (concat (map (\<lambda>(s, kvs). map (\<lambda>(k, v). (s, k, v)) kvs) secs))) =
      concat (map (\<lambda>(s', kvs). if s' = s then kvs else []) secs)" for s
    by (induction secs) (auto simp: filter_map o_def case_prod_beta')
  then show ?thesis using c by (auto simp: get_section_def)
qed

definition sample_ini :: "(string \<times> (string \<times> string) list) list" where
  "sample_ini = [(''server'', [(''port'', ''8080''), (''host'', [])]), (''jwt'', [(''secret'', ''a=b'')])]"

theorem ini_text_roundtrip_witness:
  "\<exists>cfg. load_file config0 (Some (ini_text sample_ini)) = (True, cfg) \<and>
    (\<forall>s. get_section cfg s = concat (map (\<lambda>(s', kvs). if s' = s then kvs else []) sample_ini))"
  by (rule ini_text_roundtrip) code_simp

end
