(* ===== verification/Access_Lists.thy ===== *)
theory Access_Lists
  imports Prelude "HOL-Library.Multiset"
begin

text \<open>
  The access lists of the security layer: \<^verbatim>\<open>src/security/path_blacklist.hpp\<close>,
  \<^verbatim>\<open>src/security/auth_whitelist.hpp\<close> and \<^verbatim>\<open>src/security/principal.hpp\<close>.
  Paths are the normalised paths of \<^verbatim>\<open>path_normalize.hpp\<close>; the keys come from the configuration.
\<close>

section \<open>Path blacklist\<close>

record path_blacklist =
  bl_paths :: "string list"
  bl_role_paths :: "(string \<times> string) list"

text \<open>
  \<^verbatim>\<open>std::sort\<close> promises some permutation that is ordered by the comparator, not a stable one, so the
  outcome of a reload is a relation; \<open>path_blacklist_reload\<close> is the outcome of a stable sort.
\<close>

definition plain_items :: "(string \<times> string) list \<Rightarrow> string list" where
  "plain_items items = map fst (filter (\<lambda>(k, v). k \<noteq> [] \<and> v = []) items)"

definition role_items :: "(string \<times> string) list \<Rightarrow> (string \<times> string) list" where
  "role_items items = filter (\<lambda>(k, v). k \<noteq> [] \<and> v \<noteq> []) items"

definition longest_first :: "string list \<Rightarrow> bool" where
  "longest_first ps \<longleftrightarrow> sorted_wrt (\<lambda>a b. length a \<ge> length b) ps"

definition path_blacklist_reloads :: "(string \<times> string) list \<Rightarrow> path_blacklist \<Rightarrow> bool" where
  "path_blacklist_reloads items bl \<longleftrightarrow>
     mset (bl_paths bl) = mset (plain_items items) \<and> longest_first (bl_paths bl) \<and>
     mset (bl_role_paths bl) = mset (role_items items) \<and> longest_first (map fst (bl_role_paths bl))"

definition path_blacklist_reload :: "(string \<times> string) list \<Rightarrow> path_blacklist" where
  "path_blacklist_reload items =
     \<lparr>bl_paths = sort_key (\<lambda>p. - int (length p)) (plain_items items),
      bl_role_paths = sort_key (\<lambda>(p, _). - int (length p)) (role_items items)\<rparr>"

record block_result =
  blocked :: bool
  required_role :: string

definition path_matches :: "string \<Rightarrow> string \<Rightarrow> bool" where
  "path_matches path p \<longleftrightarrow>
     path = p \<or>
     (find_sub p path = Some 0 \<and>
      (last p = CHR ''/'' \<or> length path = length p \<or> path ! length p = CHR ''/''))"

definition extract_role_from_val :: "string \<Rightarrow> string" where
  "extract_role_from_val role =
     (case find_char (CHR '':'') role of Some colon \<Rightarrow> drop (colon + 1) role | None \<Rightarrow> role)"

definition path_blacklist_check :: "path_blacklist \<Rightarrow> string \<Rightarrow> block_result" where
  "path_blacklist_check bl path =
     (case find (path_matches path) (bl_paths bl) of
        Some _ \<Rightarrow> \<lparr>blocked = True, required_role = []\<rparr>
      | None \<Rightarrow>
          (case find (\<lambda>(p, _). path_matches path p) (bl_role_paths bl) of
             Some (_, role) \<Rightarrow> \<lparr>blocked = False, required_role = extract_role_from_val role\<rparr>
           | None \<Rightarrow> \<lparr>blocked = False, required_role = []\<rparr>))"

section \<open>Auth whitelist\<close>

record auth_whitelist =
  wl_exact :: "string set"
  wl_prefixes :: "string list"
  wl_services :: "string set"

definition auth_whitelist_add :: "auth_whitelist \<Rightarrow> string \<Rightarrow> auth_whitelist" where
  "auth_whitelist_add wl item =
     (if item = [] then wl
      else if hd item = CHR ''/'' then
        if length item > 1 \<and> last item = CHR ''/''
        then wl\<lparr>wl_prefixes := wl_prefixes wl @ [item]\<rparr>
        else wl\<lparr>wl_exact := insert item (wl_exact wl)\<rparr>
      else wl\<lparr>wl_services := insert item (wl_services wl)\<rparr>)"

definition auth_whitelist_reload :: "string list \<Rightarrow> auth_whitelist" where
  "auth_whitelist_reload items =
     foldl auth_whitelist_add \<lparr>wl_exact = {}, wl_prefixes = [], wl_services = {}\<rparr> items"

definition is_path_whitelisted :: "auth_whitelist \<Rightarrow> string \<Rightarrow> bool" where
  "is_path_whitelisted wl path \<longleftrightarrow>
     path \<in> wl_exact wl \<or> list_ex (\<lambda>p. find_sub p path = Some 0) (wl_prefixes wl)"

definition is_service_whitelisted :: "auth_whitelist \<Rightarrow> string \<Rightarrow> bool" where
  "is_service_whitelisted wl service \<longleftrightarrow> service \<in> wl_services wl"

definition is_whitelisted :: "auth_whitelist \<Rightarrow> string \<Rightarrow> string \<Rightarrow> bool" where
  "is_whitelisted wl path service \<longleftrightarrow>
     path \<in> wl_exact wl \<or> list_ex (\<lambda>p. find_sub p path = Some 0) (wl_prefixes wl) \<or>
     (service \<noteq> [] \<and> service \<in> wl_services wl)"

section \<open>Principals\<close>

record principal =
  subject :: string
  username :: string
  roles :: "string list"

fun has_role_in :: "string list \<Rightarrow> string \<Rightarrow> bool" where
  "has_role_in [] role = False"
| "has_role_in (item # items) role = (item = role \<or> has_role_in items role)"

definition has_role :: "principal \<Rightarrow> string \<Rightarrow> bool" where
  "has_role p role = has_role_in (roles p) role"

section \<open>Facts\<close>

lemma has_role_iff: "has_role p role \<longleftrightarrow> role \<in> set (roles p)"
proof -
  have "has_role_in rs role \<longleftrightarrow> role \<in> set rs" for rs
    by (induction rs) auto
  then show ?thesis by (simp add: has_role_def)
qed

text \<open>The specification of a path rule: the key covers whole path segments.\<close>

definition covers_segments :: "string \<Rightarrow> string \<Rightarrow> bool" where
  "covers_segments p path \<longleftrightarrow>
     (\<exists>r. path = p @ r \<and> (r = [] \<or> hd r = CHR ''/'' \<or> last p = CHR ''/''))"

lemma path_matches_iff: "path_matches path p \<longleftrightarrow> covers_segments p path"
proof -
  have "path_matches path p \<longleftrightarrow>
      path = p \<or> (\<exists>r. path = p @ r \<and> (last p = CHR ''/'' \<or> r = [] \<or> path ! length p = CHR ''/''))"
    by (auto simp: path_matches_def find_sub_0_iff starts_with_iff)
  also have "\<dots> \<longleftrightarrow> covers_segments p path"
    unfolding covers_segments_def by (auto simp: nth_append hd_conv_nth)
  finally show ?thesis .
qed

lemma covers_segments_same_length:
  "covers_segments p path \<Longrightarrow> covers_segments q path \<Longrightarrow> length p = length q \<Longrightarrow> p = q"
  by (auto simp: covers_segments_def)

lemma path_blacklist_reload_reloads: "path_blacklist_reloads items (path_blacklist_reload items)"
proof -
  have l: "sorted_wrt (\<lambda>a b. length a \<ge> length b) (map f (sort_key (\<lambda>x. - int (length (f x))) xs))"
    for f :: "'a \<Rightarrow> string" and xs
    using sorted_sort_key [of "\<lambda>x. - int (length (f x))" xs]
    by (simp add: sorted_wrt_map)
  show ?thesis
    using l [of "\<lambda>x. x" "plain_items items"] l [of fst "role_items items"]
    by (simp add: path_blacklist_reloads_def path_blacklist_reload_def longest_first_def
        case_prod_beta' fst_def [symmetric])
qed

lemma find_longest:
  assumes "longest_first (map f xs)" and "find P xs = Some x" and "y \<in> set xs" and "P y"
  shows "length (f y) \<le> length (f x)"
proof -
  obtain i where i: "i < length xs" "P (xs ! i)" "x = xs ! i" "\<forall>j < i. \<not> P (xs ! j)"
    using assms(2) by (auto simp: find_Some_iff)
  obtain j where j: "j < length xs" "y = xs ! j" using assms(3) by (auto simp: in_set_conv_nth)
  with i assms(4) have "i \<le> j" by (meson not_le_imp_less)
  then show ?thesis
    using assms(1) i j by (cases "i = j") (auto simp: longest_first_def sorted_wrt_iff_nth_less)
qed

lemma find_is_None_iff: "find P xs = None \<longleftrightarrow> (\<forall>x \<in> set xs. \<not> P x)"
  by (auto simp: find_None_iff)

lemma find_is_Some: "find P xs = Some x \<Longrightarrow> x \<in> set xs \<and> P x"
  by (auto simp: find_Some_iff in_set_conv_nth)

lemma set_plain_items: "p \<in> set (plain_items items) \<longleftrightarrow> p \<noteq> [] \<and> (p, []) \<in> set items"
  by (induction items) (auto simp: plain_items_def)

text \<open>
  After a reload, whatever order \<^verbatim>\<open>std::sort\<close> gave to entries of one length, a path is
  blocked exactly when some non-empty key without a value covers it on segment boundaries:
  \<^verbatim>\<open>/api/internal\<close> covers \<^verbatim>\<open>/api/internal/x\<close> and not \<^verbatim>\<open>/api/internalx\<close>.
\<close>

lemma path_blacklist_blocks_iff:
  assumes "path_blacklist_reloads items bl"
  shows "blocked (path_blacklist_check bl path) \<longleftrightarrow>
    (\<exists>p. p \<noteq> [] \<and> (p, []) \<in> set items \<and> covers_segments p path)"
proof -
  have "set (bl_paths bl) = set (plain_items items)"
    using assms by (metis path_blacklist_reloads_def set_mset_mset)
  then have s: "p \<in> set (bl_paths bl) \<longleftrightarrow> p \<noteq> [] \<and> (p, []) \<in> set items" for p
    by (simp add: set_plain_items)
  show ?thesis
  proof (cases "find (path_matches path) (bl_paths bl)")
    case None
    then have "\<forall>p. p \<noteq> [] \<and> (p, []) \<in> set items \<longrightarrow> \<not> covers_segments p path"
      unfolding find_is_None_iff path_matches_iff using s by blast
    moreover have "\<not> blocked (path_blacklist_check bl path)"
      using None by (simp add: path_blacklist_check_def split: option.splits)
    ultimately show ?thesis by blast
  next
    case (Some p)
    then have "p \<in> set (bl_paths bl) \<and> covers_segments p path"
      using find_is_Some [OF Some] by (simp add: path_matches_iff)
    then show ?thesis using Some s by (auto simp: path_blacklist_check_def)
  qed
qed

definition plain_rules :: "(string \<times> string) list" where
  "plain_rules = [(''/api/internal'', [])]"

text \<open>
  The role a path requires is the one of a longest key that covers it: a rule for
  \<^verbatim>\<open>/admin/public\<close> wins over one for \<^verbatim>\<open>/admin\<close>, in whatever order the configuration lists them.
\<close>

lemma path_blacklist_longest_role:
  assumes "path_blacklist_reloads items bl" and "\<not> blocked (path_blacklist_check bl path)"
    and "p \<noteq> []" and "v \<noteq> []" and "(p, v) \<in> set items" and "covers_segments p path"
  shows "\<exists>q w. (q, w) \<in> set items \<and> w \<noteq> [] \<and> covers_segments q path \<and>
    required_role (path_blacklist_check bl path) = extract_role_from_val w \<and>
    (\<forall>q' w'. (q', w') \<in> set items \<and> q' \<noteq> [] \<and> w' \<noteq> [] \<and> covers_segments q' path \<longrightarrow>
       length q' \<le> length q)"
proof -
  have "set (bl_role_paths bl) = set (role_items items)"
    using assms(1) by (metis path_blacklist_reloads_def set_mset_mset)
  then have s: "(q, w) \<in> set (bl_role_paths bl) \<longleftrightarrow> (q, w) \<in> set items \<and> q \<noteq> [] \<and> w \<noteq> []" for q w
    by (auto simp: role_items_def)
  have "find (\<lambda>(p, _). path_matches path p) (bl_role_paths bl) \<noteq> None"
    unfolding find_is_None_iff path_matches_iff using assms(3-6) s [of p v] by blast
  then obtain q w where f: "find (\<lambda>(p, _). path_matches path p) (bl_role_paths bl) = Some (q, w)"
    by fastforce
  from find_is_Some [OF f] have q: "(q, w) \<in> set items" "w \<noteq> []" "covers_segments q path"
    by (auto simp: s path_matches_iff)
  have "required_role (path_blacklist_check bl path) = extract_role_from_val w"
    using assms(2) f by (simp add: path_blacklist_check_def split: option.splits)
  moreover have "length q' \<le> length q"
    if "(q', w') \<in> set items" "q' \<noteq> []" "w' \<noteq> []" "covers_segments q' path" for q' w'
    using find_longest [where f = fst, OF _ f, of "(q', w')"] assms(1) that s
    by (simp add: path_blacklist_reloads_def path_matches_iff)
  ultimately show ?thesis using q by blast
qed

definition role_rules :: "(string \<times> string) list" where
  "role_rules = [(''/admin'', ''role:admin''), (''/admin/public'', ''role:user'')]"

subsection \<open>What the whitelist lets through\<close>

text \<open>The specification of one whitelist item: an exact path, a prefix of at least one segment, a service.\<close>

definition item_admits :: "string \<Rightarrow> string \<Rightarrow> string \<Rightarrow> bool" where
  "item_admits path service item \<longleftrightarrow>
     item \<noteq> [] \<and>
     (if hd item = CHR ''/''
      then path = item \<and> \<not> (length item > 1 \<and> last item = CHR ''/'')
         \<or> length item > 1 \<and> last item = CHR ''/'' \<and> (\<exists>r. path = item @ r)
      else service = item)"

lemma is_whitelisted_fold:
  "is_whitelisted (foldl auth_whitelist_add wl items) path service \<longleftrightarrow>
     is_whitelisted wl path service \<or> (\<exists>item \<in> set items. item_admits path service item)"
proof (induction items arbitrary: wl)
  case (Cons item items)
  have "is_whitelisted (auth_whitelist_add wl item) path service \<longleftrightarrow>
      is_whitelisted wl path service \<or> item_admits path service item"
    by (auto simp: is_whitelisted_def auth_whitelist_add_def item_admits_def find_sub_0_iff starts_with_iff)
  then show ?case using Cons by auto
qed simp

text \<open>
  Authentication is skipped exactly when some configured item admits the request. In
  particular the item \<^verbatim>\<open>/\<close> admits the root path only: it never turns into a catch-all prefix.
\<close>

lemma whitelist_admits_iff:
  "is_whitelisted (auth_whitelist_reload items) path service \<longleftrightarrow>
     (\<exists>item \<in> set items. item_admits path service item)"
  unfolding auth_whitelist_reload_def is_whitelisted_fold by (simp add: is_whitelisted_def)

lemma whitelist_root_only: "item_admits path service ''/'' \<longleftrightarrow> path = ''/''"
  by (auto simp: item_admits_def)

end
