(* ===== verification/Cors.thy ===== *)
theory Cors
  imports Config_Ini Http_Protocol Access_Lists
begin

text \<open>
  Cross-origin policy, \<^verbatim>\<open>src/http/cors.hpp\<close>, and the request context it works on,
  \<^verbatim>\<open>src/http/http_context.hpp\<close>.
\<close>

section \<open>Request context\<close>

record http_context =
  cx_method :: string
  cx_path :: string
  cx_body :: string
  cx_headers :: headers
  cx_status_code :: int
  cx_status_text :: string
  cx_response_body :: string
  cx_response_headers :: headers
  cx_principal :: "principal option"
  cx_admin_principal :: "principal option"
  cx_client_ip :: string
  cx_jwt_disabled :: bool

definition get_header_value :: "headers \<Rightarrow> string \<Rightarrow> string" where
  "get_header_value hs key = (case find (\<lambda>(k, _). header_iequals k key) hs of Some (_, v) \<Rightarrow> v | None \<Rightarrow> [])"

definition get_header :: "http_context \<Rightarrow> string \<Rightarrow> string" where
  "get_header ctx key = get_header_value (cx_headers ctx) key"

section \<open>Policy\<close>

record cors_policy =
  cp_enabled :: bool
  cp_allow_all_origins :: bool
  cp_allowed_origins :: "string set"
  cp_allowed_methods :: string
  cp_allowed_headers :: string
  cp_expose_headers :: string
  cp_allow_credentials :: bool
  cp_max_age :: int

definition cors_policy0 :: cors_policy where
  "cors_policy0 = \<lparr>cp_enabled = False, cp_allow_all_origins = False, cp_allowed_origins = {},
     cp_allowed_methods = ''GET, POST, PUT, DELETE, OPTIONS'', cp_allowed_headers = ''Content-Type, Authorization'',
     cp_expose_headers = [], cp_allow_credentials = False, cp_max_age = 600\<rparr>"

definition resolve_origin :: "cors_policy \<Rightarrow> string \<Rightarrow> string option" where
  "resolve_origin p origin =
     (if \<not> cp_enabled p \<or> origin = [] then None
      else if cp_allow_all_origins p then Some (if cp_allow_credentials p then origin else ''*'')
      else if origin \<in> cp_allowed_origins p then Some origin
      else None)"

definition add_origin :: "cors_policy \<Rightarrow> string \<Rightarrow> cors_policy" where
  "add_origin p piece =
     (let token = trim piece in
      if token = [] then p
      else if token = ''*'' then p\<lparr>cp_allow_all_origins := True\<rparr>
      else p\<lparr>cp_allowed_origins := insert token (cp_allowed_origins p)\<rparr>)"

definition load_cors_policy :: "config \<Rightarrow> config_error + cors_policy" where
  "load_cors_policy cfg =
     (case get_bool cfg ''cors'' ''enabled'' False of
        Inl e \<Rightarrow> Inl e
      | Inr enabled \<Rightarrow>
          let p0 = cors_policy0\<lparr>cp_enabled := enabled\<rparr> in
          if \<not> enabled then Inr p0
          else
            let p1 = foldl add_origin p0 (split_on (CHR '','') (config_get cfg ''cors'' ''allowed_origins'' []));
                p2 = p1\<lparr>cp_allowed_methods := config_get cfg ''cors'' ''allowed_methods'' (cp_allowed_methods p1),
                        cp_allowed_headers := config_get cfg ''cors'' ''allowed_headers'' (cp_allowed_headers p1),
                        cp_expose_headers := config_get cfg ''cors'' ''expose_headers'' []\<rparr>
            in (case get_bool cfg ''cors'' ''allow_credentials'' False of
                  Inl e \<Rightarrow> Inl e
                | Inr cred \<Rightarrow>
                    (case get_int cfg ''cors'' ''max_age'' 600 of
                       Inl e \<Rightarrow> Inl e
                     | Inr age \<Rightarrow>
                         let p3 = p2\<lparr>cp_allow_credentials := cred, cp_max_age := age\<rparr> in
                         Inr (if cp_allow_all_origins p3 \<and> cp_allow_credentials p3
                              then p3\<lparr>cp_allow_credentials := False\<rparr> else p3))))"

section \<open>Responses\<close>

definition is_cors_header :: "string \<Rightarrow> bool" where
  "is_cors_header n \<longleftrightarrow>
     header_iequals n ''access-control-allow-origin'' \<or>
     header_iequals n ''access-control-allow-credentials'' \<or>
     header_iequals n ''access-control-allow-methods'' \<or>
     header_iequals n ''access-control-allow-headers'' \<or>
     header_iequals n ''access-control-expose-headers'' \<or>
     header_iequals n ''access-control-max-age''"

definition strip_cors_headers :: "headers \<Rightarrow> headers" where
  "strip_cors_headers hs = filter (\<lambda>(n, _). \<not> is_cors_header n) hs"

definition apply_cors_headers :: "http_context \<Rightarrow> cors_policy \<Rightarrow> http_context" where
  "apply_cors_headers ctx p =
     (if \<not> cp_enabled p then ctx
      else
        let hs = strip_cors_headers (cx_response_headers ctx) in
        case resolve_origin p (get_header ctx ''Origin'') of
          None \<Rightarrow> ctx\<lparr>cx_response_headers := hs\<rparr>
        | Some a \<Rightarrow>
            ctx\<lparr>cx_response_headers :=
              hs @ [(''Access-Control-Allow-Origin'', a)]
                 @ (if a \<noteq> ''*'' then [(''Vary'', ''Origin'')] else [])
                 @ (if cp_allow_credentials p then [(''Access-Control-Allow-Credentials'', ''true'')] else [])
                 @ (if cp_expose_headers p \<noteq> []
                    then [(''Access-Control-Expose-Headers'', cp_expose_headers p)] else [])\<rparr>)"

definition build_preflight_response :: "http_context \<Rightarrow> cors_policy \<Rightarrow> bool \<times> http_context" where
  "build_preflight_response ctx p =
     (if \<not> cp_enabled p then (False, ctx)
      else case resolve_origin p (get_header ctx ''Origin'') of
             None \<Rightarrow> (False, ctx)
           | Some a \<Rightarrow>
               let req_h = get_header ctx ''Access-Control-Request-Headers'' in
               (True, ctx\<lparr>cx_status_code := 204, cx_status_text := ''No Content'', cx_response_body := [],
                  cx_response_headers :=
                    [(''Access-Control-Allow-Origin'', a)]
                    @ (if a \<noteq> ''*'' then [(''Vary'', ''Origin'')] else [])
                    @ [(''Access-Control-Allow-Methods'', cp_allowed_methods p),
                       (''Access-Control-Allow-Headers'', if req_h = [] then cp_allowed_headers p else req_h)]
                    @ (if cp_allow_credentials p then [(''Access-Control-Allow-Credentials'', ''true'')] else [])
                    @ [(''Access-Control-Max-Age'', dec_of_int (cp_max_age p))]\<rparr>))"

section \<open>Facts\<close>

lemma load_cors_no_wildcard_credentials:
  "load_cors_policy cfg = Inr p \<Longrightarrow> \<not> (cp_allow_all_origins p \<and> cp_allow_credentials p)"
  by (auto simp: load_cors_policy_def Let_def cors_policy0_def split: sum.splits if_splits)

lemma is_cors_header_origin [simp]: "is_cors_header ''Access-Control-Allow-Origin''"
  by code_simp

lemma is_cors_header_credentials [simp]: "is_cors_header ''Access-Control-Allow-Credentials''"
  by code_simp

lemma strip_no_cors: "(n, v) \<in> set (strip_cors_headers hs) \<Longrightarrow> \<not> is_cors_header n"
  by (auto simp: strip_cors_headers_def)

text \<open>
  With any policy the loader produces, a response the gateway has processed grants credentials only together
  with a single, concrete origin that the configuration lists and the request named; an upstream's own
  access-control headers never survive. No site that is not listed can make credentialed calls.
\<close>

lemma cors_owned_by_gateway:
  assumes "load_cors_policy cfg = Inr p" and "cp_enabled p"
    and "ctx' = apply_cors_headers ctx p"
    and "(''Access-Control-Allow-Credentials'', v) \<in> set (cx_response_headers ctx')"
  shows "filter (\<lambda>(n, _). header_iequals n ''access-control-allow-origin'') (cx_response_headers ctx') =
      [(''Access-Control-Allow-Origin'', get_header ctx ''Origin'')] \<and>
    get_header ctx ''Origin'' \<in> cp_allowed_origins p \<and> get_header ctx ''Origin'' \<noteq> []"
proof -
  let ?hs = "strip_cors_headers (cx_response_headers ctx)"
  have notin: "(''Access-Control-Allow-Credentials'', v) \<notin> set ?hs"
    using strip_no_cors is_cors_header_credentials by blast
  obtain a where a: "resolve_origin p (get_header ctx ''Origin'') = Some a"
    using assms(2-4) notin by (cases "resolve_origin p (get_header ctx ''Origin'')") (auto simp: apply_cors_headers_def)
  have cred: "cp_allow_credentials p"
    using assms(2-4) notin a by (auto simp: apply_cors_headers_def split: if_splits)
  then have "\<not> cp_allow_all_origins p" using load_cors_no_wildcard_credentials [OF assms(1)] by blast
  then have o: "a = get_header ctx ''Origin''" "a \<in> cp_allowed_origins p" "a \<noteq> []"
    using a by (auto simp: resolve_origin_def split: if_splits)
  have "filter (\<lambda>(n, _). header_iequals n ''access-control-allow-origin'') ?hs = []"
    using strip_no_cors by (fastforce simp: filter_empty_conv is_cors_header_def)
  moreover have "header_iequals ''Access-Control-Allow-Origin'' ''access-control-allow-origin''"
    "\<not> header_iequals ''Vary'' ''access-control-allow-origin''"
    "\<not> header_iequals ''Access-Control-Allow-Credentials'' ''access-control-allow-origin''"
    "\<not> header_iequals ''Access-Control-Expose-Headers'' ''access-control-allow-origin''"
    by code_simp+
  ultimately show ?thesis using assms(2,3) a o by (simp add: apply_cors_headers_def Let_def)
qed

definition demo_cors_cfg :: config where
  "demo_cors_cfg = snd (load_file config0 (Some (ini_text
     [(''cors'', [(''enabled'', ''true''), (''allowed_origins'', ''https://a.example''),
                  (''allow_credentials'', ''true'')])])))"

definition demo_cors :: cors_policy where
  "demo_cors = cors_policy0\<lparr>cp_enabled := True, cp_allowed_origins := {''https://a.example''},
     cp_allow_credentials := True\<rparr>"

definition demo_ctx :: http_context where
  "demo_ctx = \<lparr>cx_method = ''GET'', cx_path = ''/x'', cx_body = [], cx_headers = [(''origin'', ''https://a.example'')],
     cx_status_code = 200, cx_status_text = ''OK'', cx_response_body = [],
     cx_response_headers = [(''Access-Control-Allow-Origin'', ''*'')], cx_principal = None,
     cx_admin_principal = None, cx_client_ip = [], cx_jwt_disabled = False\<rparr>"

end
