(* ===== verification/Response.thy ===== *)
theory Response
  imports Cors
begin

text \<open>
  What the gateway writes to clients: the JSON envelope of \<^verbatim>\<open>src/http/response.hpp\<close>, the status lines and
  headers of \<^verbatim>\<open>src/http/response_builder.hpp\<close>. A response is built as its list of lines before the blank line;
  the source appends the same lines one by one.
\<close>

section \<open>JSON envelope\<close>

definition hex_low :: "nat \<Rightarrow> char" where
  "hex_low n = (if n < 10 then char_of (48 + n) else char_of (87 + n))"

text \<open>The cases of \<open>json_escape\<close>; \<^verbatim>\<open>\u%04x\<close> of a byte below 32 starts with two zeros.\<close>

definition json_escape_char :: "char \<Rightarrow> string" where
  "json_escape_char c =
     (if c = DQUOTE then [BACKSLASH, DQUOTE]
      else if c = BACKSLASH then [BACKSLASH, BACKSLASH]
      else if c = CHR 0x08 then [BACKSLASH, CHR ''b'']
      else if c = CHR 0x0C then [BACKSLASH, CHR ''f'']
      else if c = CHR 0x0A then [BACKSLASH, CHR ''n'']
      else if c = CHR 0x0D then [BACKSLASH, CHR ''r'']
      else if c = CHR 0x09 then [BACKSLASH, CHR ''t'']
      else if code c < 32 then
        [BACKSLASH, CHR ''u'', CHR ''0'', CHR ''0'', hex_low (code c div 16), hex_low (code c mod 16)]
      else [c])"

definition json_escape :: "string \<Rightarrow> string" where
  "json_escape s = concat (map json_escape_char s)"

definition json_resp :: "int \<Rightarrow> string \<Rightarrow> string \<Rightarrow> string" where
  "json_resp status msg data =
     ''{'' @ [DQUOTE] @ ''code'' @ [DQUOTE] @ '':'' @ dec_of_int status @
     '','' @ [DQUOTE] @ ''msg'' @ [DQUOTE] @ '':'' @ [DQUOTE] @ json_escape msg @ [DQUOTE] @
     '','' @ [DQUOTE] @ ''data'' @ [DQUOTE] @ '':'' @ data @ ''}''"

definition resp_ok :: "string \<Rightarrow> string" where
  "resp_ok data = json_resp 0 ''ok'' data"

definition resp_ok_str :: "string \<Rightarrow> string" where
  "resp_ok_str data = json_resp 0 ''ok'' ([DQUOTE] @ json_escape data @ [DQUOTE])"

definition resp_err :: "int \<Rightarrow> string \<Rightarrow> string" where
  "resp_err status msg = json_resp status msg ''null''"

text \<open>The reader of a JSON string body (RFC 8259) that the escapes are meant for.\<close>

definition hex_low_val :: "char \<Rightarrow> nat" where
  "hex_low_val c = (if isdigit c then code c - 48 else code c - 87)"

fun json_unescape :: "string \<Rightarrow> string option" where
  "json_unescape [] = Some []"
| "json_unescape (c # cs) =
     (if c = DQUOTE \<or> code c < 32 then None
      else if c \<noteq> BACKSLASH then map_option ((#) c) (json_unescape cs)
      else (case cs of
              [] \<Rightarrow> None
            | e # cs' \<Rightarrow>
                if e = CHR ''u'' then
                  (case cs' of
                     a # b # h # l # r \<Rightarrow>
                       if a = CHR ''0'' \<and> b = CHR ''0''
                       then map_option ((#) (char_of (hex_low_val h * 16 + hex_low_val l))) (json_unescape r)
                       else None
                   | _ \<Rightarrow> None)
                else if e = CHR ''b'' then map_option ((#) (CHR 0x08)) (json_unescape cs')
                else if e = CHR ''f'' then map_option ((#) (CHR 0x0C)) (json_unescape cs')
                else if e = CHR ''n'' then map_option ((#) (CHR 0x0A)) (json_unescape cs')
                else if e = CHR ''r'' then map_option ((#) (CHR 0x0D)) (json_unescape cs')
                else if e = CHR ''t'' then map_option ((#) (CHR 0x09)) (json_unescape cs')
                else if e = DQUOTE \<or> e = BACKSLASH then map_option ((#) e) (json_unescape cs')
                else None))"

lemma hex_low_val_hex_low: "n < 16 \<Longrightarrow> hex_low_val (hex_low n) = n"
  by (auto simp: hex_low_val_def hex_low_def isdigit_def)

lemma json_unescape_char:
  "json_unescape (json_escape_char c @ cs) = map_option ((#) c) (json_unescape cs)"
proof -
  have u: "char_of (hex_low_val (hex_low (code c div 16)) * 16 + hex_low_val (hex_low (code c mod 16))) = c"
    if "code c < 32"
  proof -
    have "code c div 16 < 16" "code c mod 16 < 16" using that by auto
    then show ?thesis by (simp add: hex_low_val_hex_low)
  qed
  show ?thesis
    using u by (simp add: json_escape_char_def DQUOTE_def BACKSLASH_def)
qed

text \<open>
  Escaping any byte string, such as the text of a database exception, gives the inside of a JSON string literal:
  a JSON reader accepts it, sees no raw quote or control character, and reads back the original string.
\<close>

lemma json_escape_roundtrip: "json_unescape (json_escape s) = Some s"
  by (induction s) (simp_all add: json_escape_def json_unescape_char)

section \<open>Status lines and headers\<close>

definition reason_phrase :: "int \<Rightarrow> string" where
  "reason_phrase status =
     (if status = 200 then ''OK'' else if status = 400 then ''Bad Request''
      else if status = 404 then ''Not Found'' else if status = 408 then ''Request Timeout''
      else if status = 413 then ''Payload Too Large'' else if status = 431 then ''Request Header Fields Too Large''
      else if status = 500 then ''Internal Server Error'' else if status = 502 then ''Bad Gateway''
      else if status = 503 then ''Service Unavailable'' else if status = 504 then ''Gateway Timeout'' else [])"

definition http_response_has_no_body :: "string \<Rightarrow> int \<Rightarrow> bool" where
  "http_response_has_no_body method status \<longleftrightarrow>
     method = ''HEAD'' \<or> status = 204 \<or> status = 304 \<or> (status \<ge> 100 \<and> status < 200)"

definition is_safe_header :: "string \<Rightarrow> string \<Rightarrow> bool" where
  "is_safe_header name value \<longleftrightarrow>
     list_all (\<lambda>c. \<not> (c = CR \<or> c = LF \<or> c = NUL \<or> c = CHR '':'')) name \<and>
     list_all (\<lambda>c. \<not> (c = CR \<or> c = LF \<or> c = NUL)) value"

definition is_safe_reason_phrase :: "string \<Rightarrow> bool" where
  "is_safe_reason_phrase phrase \<longleftrightarrow> list_all (\<lambda>c. \<not> (c = CR \<or> c = LF \<or> c = NUL)) phrase"

definition build_error_response :: "int \<Rightarrow> string \<Rightarrow> string \<Rightarrow> string" where
  "build_error_response status reason body =
     ''HTTP/1.1 '' @ dec_of_int status @ '' '' @ reason @ CRLF @
     ''Connection: close'' @ CRLF @ ''Content-Type: application/json'' @ CRLF @
     ''Content-Length: '' @ dec_of_nat (length body) @ CRLF @ CRLF @ body"

definition fallback_phrase :: "int \<Rightarrow> string" where
  "fallback_phrase status =
     (let rp = reason_phrase status in
      if rp \<noteq> [] then rp
      else if status \<ge> 100 \<and> status < 200 then ''Informational''
      else if status \<ge> 200 \<and> status < 300 then ''OK''
      else if status \<ge> 300 \<and> status < 400 then ''Redirection''
      else if status \<ge> 400 \<and> status < 500 then ''Client Error''
      else if status \<ge> 500 \<and> status < 600 then ''Server Error''
      else ''Unknown'')"

definition status_line :: "http_context \<Rightarrow> string" where
  "status_line ctx =
     ''HTTP/1.1 '' @ dec_of_int (cx_status_code ctx) @ '' '' @
     (if cx_status_text ctx \<noteq> [] \<and> is_safe_reason_phrase (cx_status_text ctx)
      then cx_status_text ctx else fallback_phrase (cx_status_code ctx))"

definition proxy_filtered :: "http_context \<Rightarrow> string \<Rightarrow> string list" where
  "proxy_filtered ctx method =
     add_connection_tokens (cx_response_headers ctx)
       [''connection'', ''keep-alive'', ''proxy-authenticate'', ''proxy-authorization'', ''te'', ''trailer'',
        ''transfer-encoding'', ''upgrade''] @
     (if \<not> http_response_has_no_body method (cx_status_code ctx) then [''content-length''] else [])"

text \<open>The headers that are copied to the client.\<close>

definition copied_headers :: "http_context \<Rightarrow> string \<Rightarrow> bool \<Rightarrow> headers" where
  "copied_headers ctx method proxy_response =
     filter (\<lambda>(k, v).
       (if proxy_response then \<not> contains_header_name (proxy_filtered ctx method) k
        else \<not> (header_iequals k ''content-length'' \<or> is_hop_by_hop_header k)) \<and>
       is_safe_header k v) (cx_response_headers ctx)"

definition header_line :: "string \<times> string \<Rightarrow> string" where
  "header_line kv = fst kv @ '': '' @ snd kv"

definition response_lines :: "http_context \<Rightarrow> string \<Rightarrow> bool \<Rightarrow> string list" where
  "response_lines ctx method proxy_response =
     (let copied = copied_headers ctx method proxy_response;
          has_content_type = list_ex (\<lambda>(k, _). header_iequals k ''content-type'') copied;
          no_body = http_response_has_no_body method (cx_status_code ctx);
          has_upstream_cl = (proxy_response \<and> no_body \<and>
            list_ex (\<lambda>(k, _). header_iequals k ''content-length'') (cx_response_headers ctx))
      in status_line ctx # map header_line copied
         @ (if \<not> has_content_type \<and> \<not> no_body then [''Content-Type: application/json''] else [])
         @ (if cx_status_code ctx \<ge> 400
            then [''Connection: close'',
                  ''X-Asio-Owen-Status-Source: '' @ (if proxy_response then ''proxy'' else ''local'')] else [])
         @ (if \<not> has_upstream_cl
            then [''Content-Length: '' @ (if no_body then ''0'' else dec_of_nat (length (cx_response_body ctx)))]
            else []))"

definition build_downstream_response :: "http_context \<Rightarrow> string \<Rightarrow> bool \<Rightarrow> string" where
  "build_downstream_response ctx method proxy_response =
     concat (map (\<lambda>l. l @ CRLF) (response_lines ctx method proxy_response)) @ CRLF @
     (if http_response_has_no_body method (cx_status_code ctx) then [] else cx_response_body ctx)"

section \<open>No response splitting, one length\<close>

definition clean_line :: "string \<Rightarrow> bool" where
  "clean_line l \<longleftrightarrow> l \<noteq> [] \<and> CR \<notin> set l \<and> LF \<notin> set l \<and> NUL \<notin> set l"

text \<open>The field name of a line, lower-cased.\<close>

definition line_name :: "string \<Rightarrow> string" where
  "line_name l = lower (takeWhile (\<lambda>c. c \<noteq> CHR '':'') l)"

lemma dec_of_nat_clean: "CR \<notin> set (dec_of_nat n) \<and> LF \<notin> set (dec_of_nat n) \<and> NUL \<notin> set (dec_of_nat n) \<and>
    CHR '':'' \<notin> set (dec_of_nat n)"
  using dec_of_nat_digits [of n] by (auto simp: isdigit_def CR_def LF_def NUL_def)

lemma dec_of_int_clean: "CR \<notin> set (dec_of_int i) \<and> LF \<notin> set (dec_of_int i) \<and> NUL \<notin> set (dec_of_int i) \<and>
    CHR '':'' \<notin> set (dec_of_int i)"
  using dec_of_nat_clean by (auto simp: dec_of_int_def CR_def LF_def NUL_def)

lemma fallback_phrase_clean: "is_safe_reason_phrase (fallback_phrase status)"
  by (simp add: fallback_phrase_def reason_phrase_def Let_def is_safe_reason_phrase_def CR_def LF_def NUL_def)

lemma status_line_clean: "clean_line (status_line ctx)"
  using dec_of_int_clean [of "cx_status_code ctx"] fallback_phrase_clean [of "cx_status_code ctx"]
  by (auto simp: clean_line_def status_line_def is_safe_reason_phrase_def list_all_iff CR_def LF_def NUL_def)

lemma header_line_clean: "is_safe_header k v \<Longrightarrow> clean_line (header_line (k, v))"
  by (auto simp: clean_line_def header_line_def is_safe_header_def list_all_iff CR_def LF_def NUL_def)

lemma header_line_name: "is_safe_header k v \<Longrightarrow> line_name (header_line (k, v)) = lower k"
proof -
  assume "is_safe_header k v"
  then have "\<forall>c \<in> set k. c \<noteq> CHR '':''" by (simp add: is_safe_header_def list_all_iff)
  then show ?thesis by (simp add: line_name_def header_line_def takeWhile_append2)
qed

lemma status_line_name: "line_name (status_line ctx) \<noteq> ''content-length''"
proof -
  have "takeWhile (\<lambda>c. c \<noteq> CHR '':'') (status_line ctx) =
      CHR ''H'' # takeWhile (\<lambda>c. c \<noteq> CHR '':'') (tl (status_line ctx))"
    by (simp add: status_line_def)
  then have "hd (line_name (status_line ctx)) = CHR ''h''"
    by (simp add: line_name_def lower_def) code_simp
  then show ?thesis by auto
qed

lemma copied_safe: "(k, v) \<in> set (copied_headers ctx method proxy) \<Longrightarrow> is_safe_header k v"
  by (simp add: copied_headers_def)

lemma copied_no_length:
  assumes "(k, v) \<in> set (copied_headers ctx method proxy)"
    and "\<not> http_response_has_no_body method (cx_status_code ctx)"
  shows "lower k \<noteq> ''content-length''"
proof -
  have l: "lower ''content-length'' = ''content-length''" by code_simp
  show ?thesis
    using assms l
    by (auto simp: copied_headers_def proxy_filtered_def contains_header_name_iff header_iequals_iff
        split: if_splits)
qed

text \<open>
  C10. Whatever headers, reason phrase and body an upstream or a handler supplies, a response with a body consists of
  lines free of CR, LF and NUL, a blank line, and the body; and exactly one of the lines is a Content-Length, the size of the body
  that follows. Neither a second response nor a second length can be injected.
\<close>

theorem response_not_splittable:
  assumes "\<not> http_response_has_no_body method (cx_status_code ctx)"
  shows "\<exists>lines. build_downstream_response ctx method proxy =
      concat (map (\<lambda>l. l @ CRLF) lines) @ CRLF @ cx_response_body ctx \<and>
    (\<forall>l \<in> set lines. clean_line l) \<and>
    filter (\<lambda>l. line_name l = ''content-length'') lines =
      [''Content-Length: '' @ dec_of_nat (length (cx_response_body ctx))]"
proof (intro exI conjI)
  let ?lines = "response_lines ctx method proxy"
  let ?cl = "''Content-Length: '' @ dec_of_nat (length (cx_response_body ctx))"
  show "build_downstream_response ctx method proxy =
      concat (map (\<lambda>l. l @ CRLF) ?lines) @ CRLF @ cx_response_body ctx"
    using assms by (simp add: build_downstream_response_def)
  have "clean_line ?cl"
    using dec_of_nat_clean by (simp add: clean_line_def CR_def LF_def NUL_def)
  moreover have "clean_line ''Content-Type: application/json''" "clean_line ''Connection: close''"
    "clean_line ''X-Asio-Owen-Status-Source: proxy''" "clean_line ''X-Asio-Owen-Status-Source: local''"
    by (simp_all add: clean_line_def CR_def LF_def NUL_def)
  ultimately show "\<forall>l \<in> set ?lines. clean_line l"
    using assms status_line_clean copied_safe header_line_clean
    by (fastforce simp: response_lines_def Let_def)
  have copied: "filter (\<lambda>l. line_name l = ''content-length'') (map header_line (copied_headers ctx method proxy)) = []"
    using copied_no_length [OF _ assms] copied_safe header_line_name by (fastforce simp: filter_empty_conv)
  have names: "line_name ''Content-Type: application/json'' \<noteq> ''content-length''"
    "line_name ''Connection: close'' \<noteq> ''content-length''"
    "line_name ''X-Asio-Owen-Status-Source: proxy'' \<noteq> ''content-length''"
    "line_name ''X-Asio-Owen-Status-Source: local'' \<noteq> ''content-length''"
    by code_simp+
  have "line_name ?cl = lower ''Content-Length''" by (simp add: line_name_def)
  also have "\<dots> = ''content-length''" by code_simp
  finally show "filter (\<lambda>l. line_name l = ''content-length'') ?lines = [?cl]"
    using assms copied names status_line_name by (auto simp: response_lines_def Let_def)
qed

theorem response_not_splittable_witness:
  "\<exists>lines. build_downstream_response
      (demo_ctx\<lparr>cx_status_text := ''OK'' @ CRLF @ ''Set-Cookie: x'', cx_response_body := ''hello'',
         cx_response_headers := [(''Content-Length'', ''999''), (''X-A'', ''b'' @ CRLF @ ''c: d'')]\<rparr>)
      ''GET'' True =
      concat (map (\<lambda>l. l @ CRLF) lines) @ CRLF @ ''hello'' \<and>
    (\<forall>l \<in> set lines. clean_line l) \<and>
    filter (\<lambda>l. line_name l = ''content-length'') lines = [''Content-Length: '' @ dec_of_nat (length ''hello'')]"
  using response_not_splittable [of "''GET''"
      "demo_ctx\<lparr>cx_status_text := ''OK'' @ CRLF @ ''Set-Cookie: x'', cx_response_body := ''hello'',
         cx_response_headers := [(''Content-Length'', ''999''), (''X-A'', ''b'' @ CRLF @ ''c: d'')]\<rparr>" True]
  by (simp add: http_response_has_no_body_def demo_ctx_def)

end
