(* ===== verification/Counters.thy ===== *)
theory Counters
  imports Prelude
begin

text \<open>
  The bounded counters of the gateway. Five classes keep a number of permits in one atomic and hand permits out
  through a compare-and-swap loop: \<^verbatim>\<open>HttpConnectionBudget\<close> and the two pool counters of
  \<^verbatim>\<open>src/http/http_pool.hpp\<close>, \<^verbatim>\<open>ComboQueryLimiter\<close> of \<^verbatim>\<open>src/app/combo_query_limiter.hpp\<close> and
  \<^verbatim>\<open>AdminAuthWorkLimiter\<close> of \<^verbatim>\<open>src/app/admin/admin_auth_runtime.hpp\<close>. A loop takes effect at its successful
  exchange, so each operation is one step on the value. The locale \<open>bounded_counter\<close> is their common contract;
  the clients' facts are proved in it once. The theory also holds \<^verbatim>\<open>ComboQueryState\<close>, the login throttle of the
  admin interface and the file-descriptor budget of the process.
\<close>

section \<open>The contract\<close>

datatype permit_op = Take_permit | Give_back

text \<open>
  A sequence of operations on a counter by clients that give back only permits they hold: the state and
  the number of permits held.
\<close>

fun permit_run :: "('s \<Rightarrow> 's option) \<Rightarrow> ('s \<Rightarrow> 's) \<Rightarrow> permit_op list \<Rightarrow> 's \<times> nat \<Rightarrow> 's \<times> nat" where
  "permit_run tk give [] sh = sh"
| "permit_run tk give (Take_permit # ops) (s, held) =
     (case tk s of
        Some s' \<Rightarrow> permit_run tk give ops (s', Suc held)
      | None \<Rightarrow> permit_run tk give ops (s, held))"
| "permit_run tk give (Give_back # ops) (s, held) =
     (if held = 0 then permit_run tk give ops (s, held)
      else permit_run tk give ops (give s, held - 1))"

locale bounded_counter =
  fixes cnt :: "'s \<Rightarrow> nat" and room :: "'s \<Rightarrow> nat \<Rightarrow> bool"
    and take_permit :: "'s \<Rightarrow> 's option" and give_permit :: "'s \<Rightarrow> 's"
  assumes take_room: "take_permit s = Some s' \<Longrightarrow> room s (cnt s) \<and> cnt s' = Suc (cnt s) \<and> room s' = room s"
    and take_full: "take_permit s = None \<Longrightarrow> \<not> room s (cnt s)"
    and give_back: "0 < cnt s \<Longrightarrow> cnt s \<le> SIZE_MAX \<Longrightarrow> cnt (give_permit s) = cnt s - 1 \<and> room (give_permit s) = room s"
    and room_down: "room s n \<Longrightarrow> m \<le> n \<Longrightarrow> room s m"
begin

lemma run_exact:
  assumes "cnt s = base + held" and "base + held + length ops \<le> SIZE_MAX"
  shows "cnt (fst (permit_run take_permit give_permit ops (s, held))) =
    base + snd (permit_run take_permit give_permit ops (s, held))"
  using assms
proof (induction ops arbitrary: s held)
  case (Cons op ops)
  show ?case
  proof (cases op)
    case Take_permit
    show ?thesis
    proof (cases "take_permit s")
      case None
      then show ?thesis using Cons Take_permit by simp
    next
      case (Some s')
      then have "cnt s' = base + Suc held" using take_room Cons.prems(1) by simp
      then show ?thesis using Cons.IH [of s' "Suc held"] Cons.prems(2) Take_permit Some by simp
    qed
  next
    case Give_back
    show ?thesis
    proof (cases "held = 0")
      case True
      then show ?thesis using Cons Give_back by simp
    next
      case False
      then have "cnt (give_permit s) = base + (held - 1)"
        using give_back [of s] Cons.prems by simp
      then show ?thesis using Cons.IH [of "give_permit s" "held - 1"] Cons.prems(2) Give_back False by simp
    qed
  qed
qed simp

lemma run_bounded:
  assumes "cnt s = held" and "held + length ops \<le> SIZE_MAX" and "cnt s = 0 \<or> room s (cnt s - 1)"
  shows "cnt (fst (permit_run take_permit give_permit ops (s, held))) = 0 \<or>
    room s (cnt (fst (permit_run take_permit give_permit ops (s, held))) - 1)"
  using assms
proof (induction ops arbitrary: s held)
  case (Cons op ops)
  show ?case
  proof (cases op)
    case Take_permit
    show ?thesis
    proof (cases "take_permit s")
      case None
      then show ?thesis using Cons.IH [of s held] Cons.prems Take_permit by simp
    next
      case (Some s')
      then have "cnt s' = Suc held" and "room s' (cnt s' - 1)" and "room s' = room s"
        using take_room [OF Some] Cons.prems(1) by simp_all
      then show ?thesis using Cons.IH [of s' "Suc held"] Cons.prems(2) Take_permit Some by simp
    qed
  next
    case Give_back
    show ?thesis
    proof (cases "held = 0")
      case True
      then show ?thesis using Cons.IH [of s held] Cons.prems Give_back by simp
    next
      case False
      then have g: "cnt (give_permit s) = held - 1" "room (give_permit s) = room s"
        using give_back [of s] Cons.prems by simp_all
      have "room s (held - 1)" using Cons.prems(1,3) False by simp
      then have "cnt (give_permit s) = 0 \<or> room (give_permit s) (cnt (give_permit s) - 1)"
        using g room_down [of s "held - 1" "held - 1 - 1"] by simp
      then show ?thesis using Cons.IH [of "give_permit s" "held - 1"] Cons.prems(2) Give_back False g by simp
    qed
  qed
qed simp

end

section \<open>Connection budget\<close>

record http_connection_budget =
  hb_current :: nat
  hb_limit :: nat

definition budget_new :: "nat \<Rightarrow> http_connection_budget" where
  "budget_new limit = \<lparr>hb_current = 0, hb_limit = limit\<rparr>"

definition budget_try_acquire :: "http_connection_budget \<Rightarrow> http_connection_budget option" where
  "budget_try_acquire b =
     (if hb_limit b \<noteq> 0 \<and> hb_current b \<ge> hb_limit b then None
      else Some (b\<lparr>hb_current := hb_current b + 1\<rparr>))"

definition budget_release :: "http_connection_budget \<Rightarrow> http_connection_budget" where
  "budget_release b = (if hb_current b \<noteq> 0 then b\<lparr>hb_current := hb_current b - 1\<rparr> else b)"

definition budget_set_limit :: "http_connection_budget \<Rightarrow> nat \<Rightarrow> http_connection_budget" where
  "budget_set_limit b limit = b\<lparr>hb_limit := limit\<rparr>"

interpretation budget: bounded_counter hb_current "\<lambda>b n. hb_limit b = 0 \<or> n < hb_limit b"
  budget_try_acquire budget_release
  by unfold_locales (auto simp: budget_try_acquire_def budget_release_def split: if_splits)

section \<open>Pool counters\<close>

text \<open>\<^verbatim>\<open>try_increment_counter\<close> and \<^verbatim>\<open>decrement_counter\<close> of the pool, on a counter with its limit.\<close>

definition try_increment_counter :: "nat \<Rightarrow> nat \<Rightarrow> nat option" where
  "try_increment_counter counter limit = (if counter < limit then Some (counter + 1) else None)"

definition decrement_counter :: "nat \<Rightarrow> nat" where
  "decrement_counter counter = (if counter > 0 then counter - 1 else counter)"

interpretation pool_counter: bounded_counter fst "\<lambda>s n. n < snd s"
  "\<lambda>(counter, limit). map_option (\<lambda>c. (c, limit)) (try_increment_counter counter limit)"
  "\<lambda>(counter, limit). (decrement_counter counter, limit)"
  by unfold_locales (auto simp: try_increment_counter_def decrement_counter_def split: if_splits prod.splits)

section \<open>Combo query limiter\<close>

record combo_counter =
  cc_max :: nat
  cc_in_flight :: nat

definition combo_counter_new :: "nat \<Rightarrow> combo_counter" where
  "combo_counter_new max_in_flight =
     \<lparr>cc_max = (if max_in_flight = 0 then 1 else max_in_flight), cc_in_flight = 0\<rparr>"

definition combo_try_acquire :: "combo_counter \<Rightarrow> combo_counter option" where
  "combo_try_acquire c =
     (if cc_in_flight c < cc_max c then Some (c\<lparr>cc_in_flight := cc_in_flight c + 1\<rparr>) else None)"

text \<open>\<^verbatim>\<open>fetch_sub\<close> wraps at zero.\<close>

definition combo_permit_release :: "combo_counter \<Rightarrow> combo_counter" where
  "combo_permit_release c = c\<lparr>cc_in_flight := wrap64 (cc_in_flight c + SIZE_MAX)\<rparr>"

lemma wrap64_pred: "0 < n \<Longrightarrow> n \<le> SIZE_MAX \<Longrightarrow> wrap64 (n + SIZE_MAX) = n - 1"
proof -
  assume n: "0 < n" "n \<le> SIZE_MAX"
  have "n + SIZE_MAX = (n - 1) + 2 ^ 64" using n by (simp add: SIZE_MAX_def)
  then have "wrap64 (n + SIZE_MAX) = (n - 1) mod 2 ^ 64" by (simp add: wrap64_def)
  also have "\<dots> = n - 1" using n by (intro mod_less) (simp add: SIZE_MAX_def)
  finally show ?thesis .
qed

interpretation combo: bounded_counter cc_in_flight "\<lambda>c n. n < cc_max c" combo_try_acquire combo_permit_release
  by unfold_locales (auto simp: combo_try_acquire_def combo_permit_release_def wrap64_pred split: if_splits)

section \<open>Admin work limiter\<close>

definition kMaxInFlight :: nat where "kMaxInFlight = 16"

definition admin_try_acquire :: "nat \<Rightarrow> nat option" where
  "admin_try_acquire in_flight = (if in_flight < kMaxInFlight then Some (in_flight + 1) else None)"

definition admin_release :: "nat \<Rightarrow> nat" where
  "admin_release in_flight = wrap64 (in_flight + SIZE_MAX)"

interpretation admin_work: bounded_counter "\<lambda>n. n" "\<lambda>_ n. n < kMaxInFlight" admin_try_acquire admin_release
  by unfold_locales (auto simp: admin_try_acquire_def admin_release_def wrap64_pred split: if_splits)

text \<open>
  Whatever the sequence of acquisitions and releases by the service pools that share the
  process-wide budget, the count equals the connections held and never exceeds the limit when one is set.
\<close>

lemma connection_budget_bounded:
  assumes "length ops \<le> SIZE_MAX"
  shows "let (b, held) = permit_run budget_try_acquire budget_release ops (budget_new limit, 0)
         in hb_current b = held \<and> (limit \<noteq> 0 \<longrightarrow> held \<le> limit)"
proof -
  let ?r = "permit_run budget_try_acquire budget_release ops (budget_new limit, 0)"
  have "hb_current (fst ?r) = snd ?r"
    using budget.run_exact [of "budget_new limit" 0 0 ops] assms by (simp add: budget_new_def)
  moreover have "hb_current (fst ?r) = 0 \<or> limit = 0 \<or> hb_current (fst ?r) - 1 < limit"
    using budget.run_bounded [of "budget_new limit" 0 ops] assms by (simp add: budget_new_def Let_def)
  ultimately show ?thesis
    by (auto split: prod.splits)
qed

section \<open>Combo queries: query against deadline\<close>

text \<open>
  \<^verbatim>\<open>ComboQueryState\<close>: the query and its deadline race for the answer; the permit is given back when the query
  ends, also when the deadline has already answered the client. The permit is \<open>True\<close> while it is
  held; the counter is the one it came from.
\<close>

datatype winner = Pending | Query | Timeout

record combo_query_state =
  cq_winner :: winner
  cq_permit :: bool
  cq_counter :: combo_counter

definition permit_release :: "combo_query_state \<Rightarrow> combo_query_state" where
  "permit_release s =
     (if cq_permit s then s\<lparr>cq_permit := False, cq_counter := combo_permit_release (cq_counter s)\<rparr> else s)"

definition claim_query :: "combo_query_state \<Rightarrow> bool \<times> combo_query_state" where
  "claim_query s =
     (if cq_winner s = Pending then (True, permit_release (s\<lparr>cq_winner := Query\<rparr>))
      else if cq_winner s = Timeout then (False, permit_release s)
      else (False, s))"

definition claim_timeout :: "combo_query_state \<Rightarrow> bool \<times> combo_query_state" where
  "claim_timeout s =
     (if cq_winner s \<noteq> Pending then (False, s) else (True, s\<lparr>cq_winner := Timeout\<rparr>))"

text \<open>
  \<^verbatim>\<open>await_combo_query_with_deadline\<close>: the query coroutine and the timer coroutine each run their callback once, in
  the order given; a message is sent by whoever wins its claim. \<open>timer_ok\<close> is false when the wait was
  cancelled.
\<close>

datatype combo_event = Query_done | Timer_fired bool

fun combo_events :: "combo_event list \<Rightarrow> combo_query_state \<Rightarrow> bool list \<times> combo_query_state" where
  "combo_events [] s = ([], s)"
| "combo_events (Query_done # evs) s =
     (let (won, s1) = claim_query s; (ms, s2) = combo_events evs s1
      in ((if won then [False] else []) @ ms, s2))"
| "combo_events (Timer_fired timer_ok # evs) s =
     (if timer_ok
      then let (won, s1) = claim_timeout s; (ms, s2) = combo_events evs s1
           in ((if won then [True] else []) @ ms, s2)
      else combo_events evs s)"

text \<open>
  In whatever order the query and the deadline finish, exactly one message is sent, the
  first one decides, and once the query has ended the permit is back in the limiter exactly once.
\<close>

lemma combo_single_answer:
  assumes "evs = [Query_done, Timer_fired ok] \<or> evs = [Timer_fired ok, Query_done]"
    and "0 < cc_in_flight c" and "cc_in_flight c \<le> SIZE_MAX"
  shows "let (messages, s) = combo_events evs \<lparr>cq_winner = Pending, cq_permit = True, cq_counter = c\<rparr>
         in messages = [hd evs \<noteq> Query_done \<and> ok] \<and> \<not> cq_permit s \<and>
            cc_in_flight (cq_counter s) = cc_in_flight c - 1"
  using assms
  by (elim disjE; cases ok)
     (simp_all add: claim_query_def claim_timeout_def permit_release_def combo_permit_release_def wrap64_pred)

section \<open>Login throttle\<close>

record throttle_entry =
  failures :: nat
  locked_until :: int

definition kMaxFailures :: nat where "kMaxFailures = 5"
definition kLockDuration :: int where "kLockDuration = 15 * 60 * 1000"
definition kMaxEntries :: nat where "kMaxEntries = 4096"

type_synonym throttle = "(string \<times> throttle_entry) list"

text \<open>Entries are an association list with distinct keys, in the map's iteration order.\<close>

definition sweep_expired :: "int \<Rightarrow> throttle \<Rightarrow> throttle" where
  "sweep_expired now es =
     (if length es \<le> kMaxEntries then es
      else
        let kept = filter (\<lambda>(_, e). \<not> locked_until e \<le> now) es in
        drop (length kept - kMaxEntries) kept)"

definition throttle_locked :: "int \<Rightarrow> throttle \<Rightarrow> string \<Rightarrow> bool \<times> throttle" where
  "throttle_locked now es ip =
     (let es1 = sweep_expired now es in
      (case map_of es1 ip of Some e \<Rightarrow> locked_until e > now | None \<Rightarrow> False, es1))"

definition throttle_failure :: "int \<Rightarrow> throttle \<Rightarrow> string \<Rightarrow> throttle" where
  "throttle_failure now es ip =
     (let es1 = sweep_expired now es;
          entry = (case map_of es1 ip of Some e \<Rightarrow> e | None \<Rightarrow> \<lparr>failures = 0, locked_until = 0\<rparr>);
          entry1 = entry\<lparr>failures := failures entry + 1\<rparr>;
          entry2 = (if failures entry1 \<ge> kMaxFailures
                    then entry1\<lparr>locked_until := now + kLockDuration\<rparr> else entry1)
      in (ip, entry2) # filter (\<lambda>(k, _). k \<noteq> ip) es1)"

definition throttle_success :: "throttle \<Rightarrow> string \<Rightarrow> throttle" where
  "throttle_success es ip = filter (\<lambda>(k, _). k \<noteq> ip) es"

definition locked_entries :: "int \<Rightarrow> throttle \<Rightarrow> nat" where
  "locked_entries now es = length (filter (\<lambda>(_, e). locked_until e > now) es)"

lemma length_sweep: "length (sweep_expired now es) \<le> kMaxEntries"
  by (cases "length es \<le> kMaxEntries") (simp_all add: sweep_expired_def Let_def)

lemma throttle_failure_length: "length (throttle_failure now es ip) \<le> kMaxEntries + 1"
proof -
  have "length (filter (\<lambda>(k, _). k \<noteq> ip) (sweep_expired now es)) \<le> kMaxEntries"
    by (rule le_trans [OF length_filter_le length_sweep])
  then show ?thesis by (simp add: throttle_failure_def Let_def)
qed

text \<open>The failed attempts of one address, others in between, while the table does not overflow.\<close>

fun login_failures :: "(int \<times> string) list \<Rightarrow> throttle \<Rightarrow> throttle" where
  "login_failures [] es = es"
| "login_failures ((now, ip) # fs) es = login_failures fs (throttle_failure now es ip)"

lemma throttle_failure_small:
  assumes "length es \<le> kMaxEntries"
  shows "map_of (throttle_failure now es ip) k =
    (if k = ip then
       (let n = (case map_of es ip of Some e \<Rightarrow> failures e | None \<Rightarrow> 0) + 1;
            l = (case map_of es ip of Some e \<Rightarrow> locked_until e | None \<Rightarrow> 0)
        in Some \<lparr>failures = n, locked_until = (if n \<ge> kMaxFailures then now + kLockDuration else l)\<rparr>)
     else map_of es k)"
proof -
  have "map_of (filter (\<lambda>(k', _). k' \<noteq> ip) es) k = map_of es k" if "k \<noteq> ip"
    using that by (induction es) auto
  then show ?thesis
    using assms by (auto simp: throttle_failure_def sweep_expired_def Let_def split: option.splits)
qed

lemma length_throttle_failure: "length (throttle_failure now es ip) \<le> Suc (length es)"
proof -
  have "length (filter (\<lambda>(k, _). k \<noteq> ip) (sweep_expired now es)) \<le> length (sweep_expired now es)"
    by (rule length_filter_le)
  also have "\<dots> \<le> length es"
    using length_filter_le [of "\<lambda>(_, e). \<not> locked_until e \<le> now" es]
    by (auto simp: sweep_expired_def Let_def)
  finally show ?thesis by (simp add: throttle_failure_def Let_def)
qed

definition failures_of :: "throttle \<Rightarrow> string \<Rightarrow> nat" where
  "failures_of es ip = (case map_of es ip of Some e \<Rightarrow> failures e | None \<Rightarrow> 0)"

lemma failures_of_step:
  "length es \<le> kMaxEntries \<Longrightarrow>
   failures_of (throttle_failure now es a) ip = failures_of es ip + (if a = ip then 1 else 0)"
  by (simp add: failures_of_def throttle_failure_small Let_def split: option.splits)

lemma login_failures_count:
  "length es + length fs \<le> kMaxEntries \<Longrightarrow>
   length (login_failures fs es) \<le> length es + length fs \<and>
   failures_of (login_failures fs es) ip = failures_of es ip + count_list (map snd fs) ip"
proof (induction fs arbitrary: es)
  case (Cons f fs)
  obtain now a where f: "f = (now, a)" by fastforce
  have "length (throttle_failure now es a) \<le> Suc (length es)" by (rule length_throttle_failure)
  then show ?case
    using Cons.IH [of "throttle_failure now es a"] Cons.prems failures_of_step [of es now a ip]
    by (simp add: f)
qed simp

text \<open>
  When an address fails to log in after four earlier failures, with no success in between and the table
  not full, every attempt from that address in the following fifteen minutes is refused, whatever other addresses do
  in between.
\<close>

lemma login_lockout:
  assumes "length es + length fs < kMaxEntries" and "4 \<le> count_list (map snd fs) ip"
    and "t \<le> now" and "now < t + kLockDuration"
  shows "fst (throttle_locked now (throttle_failure t (login_failures fs es) ip) ip)"
proof -
  let ?es = "login_failures fs es"
  have c: "length ?es \<le> length es + length fs" "4 \<le> failures_of ?es ip"
    using login_failures_count [of es fs ip] assms(1,2) by auto
  then have small: "length ?es \<le> kMaxEntries" using assms(1) by simp
  have "length (throttle_failure t ?es ip) \<le> kMaxEntries"
    using length_throttle_failure [of t ?es ip] c(1) assms(1) by simp
  then have sweep: "sweep_expired now (throttle_failure t ?es ip) = throttle_failure t ?es ip"
    by (simp add: sweep_expired_def)
  have "kMaxFailures \<le> (case map_of ?es ip of Some e \<Rightarrow> failures e | None \<Rightarrow> 0) + 1"
    using c(2) by (simp add: failures_of_def kMaxFailures_def)
  then show ?thesis
    using assms(4) by (simp add: throttle_locked_def sweep throttle_failure_small [OF small] Let_def)
qed

section \<open>File-descriptor budget\<close>

record process_fd_budget =
  client_connections :: nat
  upstream_connections :: nat
  mysql_connections :: nat
  redis_connections :: nat
  reserve :: nat

datatype fd_error = Overflow_error | Invalid_budget string

fun fd_sum :: "nat \<Rightarrow> nat list \<Rightarrow> fd_error + nat" where
  "fd_sum result [] = Inr result"
| "fd_sum result (value # values) =
     (if value > SIZE_MAX - result then Inl Overflow_error else fd_sum (result + value) values)"

definition fd_total :: "process_fd_budget \<Rightarrow> fd_error + nat" where
  "fd_total b = fd_sum 0 [client_connections b, upstream_connections b, mysql_connections b,
                          redis_connections b, reserve b]"

definition fd_describe :: "process_fd_budget \<Rightarrow> string" where
  "fd_describe b =
     ''clients='' @ dec_of_nat (client_connections b) @ '', upstreams='' @ dec_of_nat (upstream_connections b) @
     '', mysql='' @ dec_of_nat (mysql_connections b) @ '', redis='' @ dec_of_nat (redis_connections b) @
     '', reserve='' @ dec_of_nat (reserve b)"

text \<open>\<open>Inr ()\<close> is a normal return.\<close>

definition validate_process_fd_budget :: "process_fd_budget \<Rightarrow> nat option \<Rightarrow> fd_error + unit" where
  "validate_process_fd_budget b soft_limit =
     (case fd_total b of
        Inl e \<Rightarrow> Inl e
      | Inr required \<Rightarrow>
          (case soft_limit of
             None \<Rightarrow> Inr ()
           | Some limit \<Rightarrow>
               if required \<le> limit then Inr ()
               else Inl (Invalid_budget
                 (''process FD budget exceeds RLIMIT_NOFILE: required='' @ dec_of_nat required @
                  '', soft_limit='' @ dec_of_nat limit @ '' ('' @ fd_describe b @ '')''))))"

lemma fd_sum_exact:
  "result \<le> SIZE_MAX \<Longrightarrow>
   fd_sum result vs = (if result + sum_list vs \<le> SIZE_MAX then Inr (result + sum_list vs) else Inl Overflow_error)"
  by (induction vs arbitrary: result) auto

text \<open>
  The start-up check accepts a budget exactly when the mathematical sum of its parts fits the soft limit (and
  64 bits): a configuration of huge pools is rejected, it cannot slip through by wrapping around.
\<close>

lemma fd_budget_no_wraparound:
  "validate_process_fd_budget b (Some limit) = Inr () \<longleftrightarrow>
     client_connections b + upstream_connections b + mysql_connections b + redis_connections b + reserve b
       \<le> min limit SIZE_MAX"
  by (auto simp: validate_process_fd_budget_def fd_total_def fd_sum_exact split: if_splits)

end
