(* ===== verification/Http_Pool.thy ===== *)
theory Http_Pool
  imports Counters
begin

text \<open>
  The upstream connection pool \<^verbatim>\<open>HttpPool\<close> of \<^verbatim>\<open>src/http/http_pool.hpp\<close>. Coroutines on several threads share
  sixteen shards, two atomic counters of the pool and the connection budget of the process. A step of \<open>pool_step\<close> is one
  critical section under a shard lock or one operation on an atomic, by one worker; every exception and early return
  of \<^verbatim>\<open>acquire\<close>, \<^verbatim>\<open>release\<close> and \<^verbatim>\<open>release_bad\<close> is a path through these steps.

  A worker carries what it has reserved and not yet given back (\<open>wk_total\<close>, \<open>wk_budget\<close>,
  \<open>wk_inflight\<close>) and the shard that counts its connection (\<open>wk_shard\<close>). The set of active connections of
  a shard, which only serves to close sockets at shutdown, is not part of the state.
\<close>

section \<open>Configuration\<close>

record pool_config =
  max_size :: nat
  max_concurrent :: nat
  max_total_connections :: nat
  pool_max_body_size :: nat
  connect_timeout_ms :: int
  read_timeout_ms :: int
  request_timeout_ms :: int
  idle_timeout_sec :: int
  send_keep_alive_header :: bool

definition pool_config0 :: pool_config where
  "pool_config0 = \<lparr>max_size = 256, max_concurrent = 0, max_total_connections = 4096,
     pool_max_body_size = 10 * 1024 * 1024, connect_timeout_ms = 1000, read_timeout_ms = 30000,
     request_timeout_ms = 60000, idle_timeout_sec = 60, send_keep_alive_header = False\<rparr>"

definition same_pool_settings :: "pool_config \<Rightarrow> pool_config \<Rightarrow> bool" where
  "same_pool_settings a b \<longleftrightarrow> a\<lparr>max_total_connections := 0\<rparr> = b\<lparr>max_total_connections := 0\<rparr>"

section \<open>State\<close>

record http_conn =
  last_used_at :: int
  connection_close :: bool
  read_buffer :: string

record pool_shard =
  idle :: "http_conn list"
  sh_total :: nat
  sh_in_flight :: nat

datatype worker_mode =
    Away            \<comment> \<open>not in the pool\<close>
  | Sweeping        \<comment> \<open>evicting idle connections: periodic sweep, or shutdown\<close>
  | Scanning        \<comment> \<open>\<^verbatim>\<open>acquire\<close> has its in-flight slot and looks for an idle connection\<close>
  | Popped          \<comment> \<open>took an idle connection, before tracking it as active\<close>
  | Need_budget     \<comment> \<open>has a pool slot, before the process budget\<close>
  | Need_shard      \<comment> \<open>has both, before the connection object is entered in its shard\<close>
  | Connecting      \<comment> \<open>resolving and connecting\<close>
  | Holding         \<comment> \<open>\<^verbatim>\<open>acquire\<close> has returned the connection\<close>
  | Undoing         \<comment> \<open>giving reservations back\<close>

record worker =
  wk_mode :: worker_mode
  wk_total :: bool
  wk_budget :: bool
  wk_inflight :: bool
  wk_shard :: "nat option"

definition away :: worker where
  "away = \<lparr>wk_mode = Away, wk_total = False, wk_budget = False, wk_inflight = False, wk_shard = None\<rparr>"

text \<open>\<open>others\<close> counts the connections other pools hold of the shared budget.\<close>

record pool_state =
  running :: bool
  pool_shards :: "pool_shard list"
  total_count :: nat
  in_flight_count :: nat
  budget :: http_connection_budget
  others :: nat
  workers :: "worker list"

definition kPoolShards :: nat where "kPoolShards = 16"

definition pool_init :: "nat \<Rightarrow> http_connection_budget \<Rightarrow> pool_state" where
  "pool_init n b =
     \<lparr>running = True, pool_shards = replicate kPoolShards \<lparr>idle = [], sh_total = 0, sh_in_flight = 0\<rparr>,
      total_count = 0, in_flight_count = 0, budget = b, others = hb_current b, workers = replicate n away\<rparr>"

section \<open>Steps\<close>

definition stale :: "pool_config \<Rightarrow> int \<Rightarrow> http_conn \<Rightarrow> bool" where
  "stale cfg now c \<longleftrightarrow> \<not> ((now - last_used_at c) div 1000 < idle_timeout_sec cfg)"

definition set_worker :: "nat \<Rightarrow> worker \<Rightarrow> pool_state \<Rightarrow> pool_state" where
  "set_worker w x s = s\<lparr>workers := (workers s)[w := x]\<rparr>"

definition set_shard :: "nat \<Rightarrow> pool_shard \<Rightarrow> pool_state \<Rightarrow> pool_state" where
  "set_shard i x s = s\<lparr>pool_shards := (pool_shards s)[i := x]\<rparr>"

definition worker_in :: "pool_state \<Rightarrow> nat \<Rightarrow> worker_mode \<Rightarrow> worker \<Rightarrow> bool" where
  "worker_in s w m x \<longleftrightarrow> w < length (workers s) \<and> workers s ! w = x \<and> wk_mode x = m"

definition shard_at :: "pool_state \<Rightarrow> nat \<Rightarrow> pool_shard \<Rightarrow> bool" where
  "shard_at s i x \<longleftrightarrow> i < length (pool_shards s) \<and> pool_shards s ! i = x"

text \<open>The connection leaves the pool: its shard stops counting it (\<^verbatim>\<open>--total; --in_flight\<close>).\<close>

definition drop_from_shard :: "pool_shard \<Rightarrow> pool_shard" where
  "drop_from_shard sh = sh\<lparr>sh_total := sh_total sh - 1, sh_in_flight := sh_in_flight sh - 1\<rparr>"

inductive pool_step :: "pool_config \<Rightarrow> pool_state \<Rightarrow> pool_state \<Rightarrow> bool" for cfg where
  sweep_begin: "worker_in s w Away x \<Longrightarrow>
    pool_step cfg s (set_worker w (x\<lparr>wk_mode := Sweeping\<rparr>) s)"
| sweep_end: "worker_in s w Sweeping x \<Longrightarrow> \<not> wk_total x \<Longrightarrow> \<not> wk_budget x \<Longrightarrow>
    pool_step cfg s (set_worker w (x\<lparr>wk_mode := Away\<rparr>) s)"
| shutdown: "pool_step cfg s (s\<lparr>running := False\<rparr>)"
| start: "worker_in s w Away x \<Longrightarrow> running s \<Longrightarrow>
    max_concurrent cfg = 0 \<or> in_flight_count s < max_concurrent cfg \<Longrightarrow>
    pool_step cfg s (set_worker w (x\<lparr>wk_mode := Scanning, wk_inflight := True\<rparr>)
      (s\<lparr>in_flight_count := in_flight_count s + 1\<rparr>))"
| evict: "worker_in s w m x \<Longrightarrow> m = Sweeping \<or> m = Scanning \<Longrightarrow> \<not> wk_total x \<Longrightarrow> \<not> wk_budget x \<Longrightarrow>
    shard_at s i sh \<Longrightarrow> idle sh = c # cs \<Longrightarrow>
    stale cfg now c \<or> (m = Scanning \<and> (connection_close c \<or> read_buffer c \<noteq> [])) \<or>
      (m = Sweeping \<and> \<not> running s) \<Longrightarrow>
    pool_step cfg s (set_worker w (x\<lparr>wk_total := True, wk_budget := True\<rparr>)
      (set_shard i (sh\<lparr>idle := cs, sh_total := sh_total sh - 1\<rparr>) s))"
| reuse: "worker_in s w Scanning x \<Longrightarrow> \<not> wk_total x \<Longrightarrow> \<not> wk_budget x \<Longrightarrow> shard_at s i sh \<Longrightarrow> idle sh = c # cs \<Longrightarrow>
    \<not> connection_close c \<Longrightarrow> read_buffer c = [] \<Longrightarrow>
    pool_step cfg s
      (set_worker w (x\<lparr>wk_mode := Popped, wk_total := True, wk_budget := True, wk_shard := Some i\<rparr>)
        (set_shard i (sh\<lparr>idle := cs, sh_in_flight := sh_in_flight sh + 1\<rparr>) s))"
| track: "worker_in s w Popped x \<Longrightarrow> pool_step cfg s (set_worker w (x\<lparr>wk_mode := Holding\<rparr>) s)"
| no_room: "worker_in s w Scanning x \<Longrightarrow> \<not> wk_total x \<Longrightarrow> \<not> wk_budget x \<Longrightarrow> \<not> total_count s < max_size cfg \<Longrightarrow>
    pool_step cfg s (set_worker w (x\<lparr>wk_mode := Undoing\<rparr>) s)"
| take_slot: "worker_in s w Scanning x \<Longrightarrow> \<not> wk_total x \<Longrightarrow> \<not> wk_budget x \<Longrightarrow> total_count s < max_size cfg \<Longrightarrow>
    pool_step cfg s (set_worker w (x\<lparr>wk_mode := Need_budget, wk_total := True\<rparr>)
      (s\<lparr>total_count := total_count s + 1\<rparr>))"
| no_budget: "worker_in s w Need_budget x \<Longrightarrow> budget_try_acquire (budget s) = None \<Longrightarrow>
    pool_step cfg s (set_worker w (x\<lparr>wk_mode := Undoing\<rparr>) s)"
| take_budget: "worker_in s w Need_budget x \<Longrightarrow> budget_try_acquire (budget s) = Some b \<Longrightarrow>
    pool_step cfg s (set_worker w (x\<lparr>wk_mode := Need_shard, wk_budget := True\<rparr>) (s\<lparr>budget := b\<rparr>))"
| no_memory: "worker_in s w Need_shard x \<Longrightarrow>
    pool_step cfg s (set_worker w (x\<lparr>wk_mode := Undoing\<rparr>) s)"
| enter_shard: "worker_in s w Need_shard x \<Longrightarrow> shard_at s i sh \<Longrightarrow>
    pool_step cfg s (set_worker w (x\<lparr>wk_mode := Connecting, wk_shard := Some i\<rparr>)
      (set_shard i (sh\<lparr>sh_total := sh_total sh + 1, sh_in_flight := sh_in_flight sh + 1\<rparr>) s))"
| connected: "worker_in s w Connecting x \<Longrightarrow>
    pool_step cfg s (set_worker w (x\<lparr>wk_mode := Holding\<rparr>) s)"
| discard: "worker_in s w m x \<Longrightarrow> m = Popped \<or> m = Connecting \<or> m = Holding \<Longrightarrow> wk_shard x = Some i \<Longrightarrow> shard_at s i sh \<Longrightarrow>
    pool_step cfg s (set_worker w (x\<lparr>wk_mode := Undoing, wk_shard := None\<rparr>)
      (set_shard i (drop_from_shard sh) s))"
| give_idle: "worker_in s w Holding x \<Longrightarrow> wk_shard x = Some i \<Longrightarrow> shard_at s i sh \<Longrightarrow>
    \<not> connection_close c \<Longrightarrow> read_buffer c = [] \<Longrightarrow>
    pool_step cfg s
      (set_worker w (x\<lparr>wk_mode := Undoing, wk_total := False, wk_budget := False, wk_shard := None\<rparr>)
        (set_shard i (sh\<lparr>idle := idle sh @ [c], sh_in_flight := sh_in_flight sh - 1\<rparr>) s))"
| undo_total: "worker_in s w m x \<Longrightarrow> m = Undoing \<or> m = Sweeping \<or> m = Scanning \<Longrightarrow> wk_total x \<Longrightarrow>
    pool_step cfg s (set_worker w (x\<lparr>wk_total := False\<rparr>)
      (s\<lparr>total_count := decrement_counter (total_count s)\<rparr>))"
| undo_budget: "worker_in s w m x \<Longrightarrow> m = Undoing \<or> m = Sweeping \<or> m = Scanning \<Longrightarrow> wk_budget x \<Longrightarrow>
    pool_step cfg s (set_worker w (x\<lparr>wk_budget := False\<rparr>) (s\<lparr>budget := budget_release (budget s)\<rparr>))"
| undo_inflight: "worker_in s w Undoing x \<Longrightarrow> wk_inflight x \<Longrightarrow>
    pool_step cfg s (set_worker w (x\<lparr>wk_inflight := False\<rparr>)
      (s\<lparr>in_flight_count := decrement_counter (in_flight_count s)\<rparr>))"
| leave: "worker_in s w Undoing x \<Longrightarrow> \<not> wk_total x \<Longrightarrow> \<not> wk_budget x \<Longrightarrow> \<not> wk_inflight x \<Longrightarrow>
    pool_step cfg s (set_worker w (x\<lparr>wk_mode := Away\<rparr>) s)"
| other_take: "budget_try_acquire (budget s) = Some b \<Longrightarrow>
    pool_step cfg s (s\<lparr>budget := b, others := others s + 1\<rparr>)"
| other_give: "0 < others s \<Longrightarrow>
    pool_step cfg s (s\<lparr>budget := budget_release (budget s), others := others s - 1\<rparr>)"
| set_limit: "pool_step cfg s (s\<lparr>budget := budget_set_limit (budget s) n\<rparr>)"

inductive_cases pool_stepE: "pool_step cfg s s'"

section \<open>Counting\<close>

definition wsum :: "(worker \<Rightarrow> bool) \<Rightarrow> pool_state \<Rightarrow> int" where
  "wsum f s = sum_list (map (\<lambda>x. of_bool (f x)) (workers s))"

definition idle_total :: "pool_state \<Rightarrow> int" where
  "idle_total s = sum_list (map (\<lambda>sh. int (length (idle sh))) (pool_shards s))"

lemma wsum_set_worker:
  "w < length (workers s) \<Longrightarrow>
   wsum f (set_worker w x s) = wsum f s - of_bool (f (workers s ! w)) + of_bool (f x)"
  by (simp add: wsum_def set_worker_def sum_list_map_update)

lemma idle_total_set_shard:
  "i < length (pool_shards s) \<Longrightarrow>
   idle_total (set_shard i sh s) = idle_total s - int (length (idle (pool_shards s ! i))) + int (length (idle sh))"
  by (simp add: idle_total_def set_shard_def sum_list_map_update)

lemma wsum_nonneg: "0 \<le> wsum f s"
  unfolding wsum_def by (rule sum_list_nonneg) auto

lemma wsum_positive:
  assumes "w < length (workers s)" and "f (workers s ! w)"
  shows "1 \<le> wsum f s"
proof -
  have "workers s ! w \<in> set (workers s)" using assms(1) by simp
  then have "of_bool (f (workers s ! w)) \<le> sum_list (map (\<lambda>x. of_bool (f x) :: int) (workers s))"
    by (intro member_le_sum_list) auto
  then show ?thesis using assms(2) by (simp add: wsum_def)
qed

lemma wsum_cong_workers: "workers s' = workers s \<Longrightarrow> wsum f s' = wsum f s"
  by (simp add: wsum_def)

lemma pool_updates [simp]:
  "workers (set_shard i sh s) = workers s" "pool_shards (set_worker w x s) = pool_shards s"
  "total_count (set_worker w x s) = total_count s" "total_count (set_shard i sh s) = total_count s"
  "in_flight_count (set_worker w x s) = in_flight_count s" "in_flight_count (set_shard i sh s) = in_flight_count s"
  "budget (set_worker w x s) = budget s" "budget (set_shard i sh s) = budget s"
  "others (set_worker w x s) = others s" "others (set_shard i sh s) = others s"
  "idle_total (set_worker w x s) = idle_total s" "wsum f (set_shard i sh s) = wsum f s"
  "length (workers (set_worker w x s)) = length (workers s)"
  "length (pool_shards (set_shard i sh s)) = length (pool_shards s)"
  by (simp_all add: set_shard_def set_worker_def idle_total_def wsum_def)

lemma pool_field_updates [simp]:
  "wsum f (s\<lparr>total_count := a\<rparr>) = wsum f s" "wsum f (s\<lparr>in_flight_count := a\<rparr>) = wsum f s"
  "wsum f (s\<lparr>budget := b\<rparr>) = wsum f s" "wsum f (s\<lparr>others := a\<rparr>) = wsum f s" "wsum f (s\<lparr>running := r\<rparr>) = wsum f s"
  "idle_total (s\<lparr>total_count := a\<rparr>) = idle_total s" "idle_total (s\<lparr>in_flight_count := a\<rparr>) = idle_total s"
  "idle_total (s\<lparr>budget := b\<rparr>) = idle_total s" "idle_total (s\<lparr>others := a\<rparr>) = idle_total s"
  "idle_total (s\<lparr>running := r\<rparr>) = idle_total s"
  by (simp_all add: idle_total_def wsum_def)

text \<open>What a worker holds in each mode.\<close>

fun mode_ok :: "worker_mode \<Rightarrow> worker \<Rightarrow> bool" where
  "mode_ok Away x = (\<not> wk_total x \<and> \<not> wk_budget x \<and> \<not> wk_inflight x \<and> wk_shard x = None)"
| "mode_ok Sweeping x = (\<not> wk_inflight x \<and> wk_shard x = None)"
| "mode_ok Scanning x = (wk_inflight x \<and> wk_shard x = None)"
| "mode_ok Need_budget x = (wk_total x \<and> \<not> wk_budget x \<and> wk_inflight x \<and> wk_shard x = None)"
| "mode_ok Need_shard x = (wk_total x \<and> wk_budget x \<and> wk_inflight x \<and> wk_shard x = None)"
| "mode_ok Undoing x = (wk_shard x = None)"
| "mode_ok _ x = (wk_total x \<and> wk_budget x \<and> wk_inflight x \<and> wk_shard x \<noteq> None)"

definition workers_ok :: "pool_state \<Rightarrow> bool" where
  "workers_ok s \<longleftrightarrow> (\<forall>x \<in> set (workers s). mode_ok (wk_mode x) x)"

definition counts_ok :: "pool_state \<Rightarrow> bool" where
  "counts_ok s \<longleftrightarrow>
     int (total_count s) = idle_total s + wsum wk_total s \<and>
     int (in_flight_count s) = wsum wk_inflight s \<and>
     int (hb_current (budget s)) = int (others s) + idle_total s + wsum wk_budget s"

definition in_shard :: "nat \<Rightarrow> worker \<Rightarrow> bool" where
  "in_shard i x \<longleftrightarrow> wk_shard x = Some i"

definition shards_ok :: "pool_state \<Rightarrow> bool" where
  "shards_ok s \<longleftrightarrow> (\<forall>i < length (pool_shards s).
     int (sh_total (pool_shards s ! i)) = int (length (idle (pool_shards s ! i))) + wsum (in_shard i) s \<and>
     int (sh_in_flight (pool_shards s ! i)) = wsum (in_shard i) s)"

lemma workers_ok_set: "workers_ok s \<Longrightarrow> mode_ok (wk_mode x) x \<Longrightarrow> workers_ok (set_worker w x s)"
  unfolding workers_ok_def set_worker_def
  by (auto dest!: set_update_subset_insert [THEN subsetD])

lemma workers_ok_cong: "workers s' = workers s \<Longrightarrow> workers_ok s' = workers_ok s"
  by (simp add: workers_ok_def)

lemma worker_in_ok: "worker_in s w m x \<Longrightarrow> workers_ok s \<Longrightarrow> mode_ok m x"
  by (auto simp: worker_in_def workers_ok_def)

lemma shards_ok_cong: "workers s' = workers s \<Longrightarrow> pool_shards s' = pool_shards s \<Longrightarrow> shards_ok s' = shards_ok s"
  by (simp add: shards_ok_def wsum_def)

lemma shards_ok_worker:
  assumes "shards_ok s" and "w < length (workers s)" and "wk_shard x = wk_shard (workers s ! w)"
  shows "shards_ok (set_worker w x s)"
  using assms by (auto simp: shards_ok_def wsum_set_worker in_shard_def)

lemma shards_ok_update:
  assumes "shards_ok s" and "w < length (workers s)" and "i < length (pool_shards s)"
    and "\<And>j. j \<noteq> i \<Longrightarrow> in_shard j x = in_shard j (workers s ! w)"
    and "int (sh_total sh) - int (length (idle sh)) =
      int (sh_total (pool_shards s ! i)) - int (length (idle (pool_shards s ! i)))
        - of_bool (in_shard i (workers s ! w)) + of_bool (in_shard i x)"
    and "int (sh_in_flight sh) =
      int (sh_in_flight (pool_shards s ! i)) - of_bool (in_shard i (workers s ! w)) + of_bool (in_shard i x)"
  shows "shards_ok (set_worker w x (set_shard i sh s))"
  unfolding shards_ok_def
proof (intro allI impI)
  fix j assume "j < length (pool_shards (set_worker w x (set_shard i sh s)))"
  then have j: "j < length (pool_shards s)" by simp
  have w: "wsum (in_shard j) (set_worker w x (set_shard i sh s)) =
      wsum (in_shard j) s - of_bool (in_shard j (workers s ! w)) + of_bool (in_shard j x)"
    using assms(2) by (simp add: wsum_set_worker)
  have sh: "pool_shards (set_worker w x (set_shard i sh s)) ! j = (if j = i then sh else pool_shards s ! j)"
    using j by (simp add: set_shard_def)
  have inv: "int (sh_total (pool_shards s ! j)) =
      int (length (idle (pool_shards s ! j))) + wsum (in_shard j) s"
    "int (sh_in_flight (pool_shards s ! j)) = wsum (in_shard j) s"
    using assms(1) j by (auto simp: shards_ok_def)
  show "int (sh_total (pool_shards (set_worker w x (set_shard i sh s)) ! j)) =
      int (length (idle (pool_shards (set_worker w x (set_shard i sh s)) ! j))) +
      wsum (in_shard j) (set_worker w x (set_shard i sh s)) \<and>
      int (sh_in_flight (pool_shards (set_worker w x (set_shard i sh s)) ! j)) =
      wsum (in_shard j) (set_worker w x (set_shard i sh s))"
    unfolding w sh using inv assms(4) [of j] assms(5,6) by (cases "j = i") auto
qed

lemma shard_counts_worker:
  assumes "shards_ok s" and "worker_in s w m x" and "wk_shard x = Some i" and "shard_at s i sh"
  shows "1 \<le> sh_total sh" and "1 \<le> sh_in_flight sh"
proof -
  have "1 \<le> wsum (in_shard i) s"
    using assms(2,3) by (intro wsum_positive [of w]) (auto simp: worker_in_def in_shard_def)
  then show "1 \<le> sh_total sh" and "1 \<le> sh_in_flight sh"
    using assms(1,4) by (auto simp: shards_ok_def shard_at_def)
qed

lemma shard_counts_idle:
  assumes "shards_ok s" and "shard_at s i sh"
  shows "length (idle sh) \<le> sh_total sh"
  using assms wsum_nonneg [of "in_shard i" s] by (auto simp: shards_ok_def shard_at_def)

section \<open>Every step keeps the books\<close>

definition pool_inv :: "pool_state \<Rightarrow> bool" where
  "pool_inv s \<longleftrightarrow> workers_ok s \<and> counts_ok s \<and> shards_ok s"

lemmas step_simps = worker_in_def shard_at_def wsum_set_worker idle_total_set_shard in_shard_def

lemma workers_ok_step1:
  assumes "worker_in s w m x" and "workers_ok s" and "workers s0 = workers s"
    and "mode_ok m x \<Longrightarrow> wk_mode x = m \<Longrightarrow> mode_ok (wk_mode x') x'"
  shows "workers_ok (set_worker w x' s0)"
proof -
  have "mode_ok m x" and "wk_mode x = m"
    using assms(1,2) by (auto simp: worker_in_def workers_ok_def)
  then have "mode_ok (wk_mode x') x'" by (rule assms(4))
  moreover have "workers_ok s0" using assms(2,3) by (simp add: workers_ok_def)
  ultimately show ?thesis by (simp add: workers_ok_set)
qed

lemma workers_ok_fields [simp]:
  "workers_ok (s\<lparr>total_count := a\<rparr>) = workers_ok s" "workers_ok (s\<lparr>in_flight_count := a\<rparr>) = workers_ok s"
  "workers_ok (s\<lparr>budget := b\<rparr>) = workers_ok s" "workers_ok (s\<lparr>others := a\<rparr>) = workers_ok s"
  "workers_ok (s\<lparr>running := r\<rparr>) = workers_ok s"
  by (simp_all add: workers_ok_def)

lemma workers_ok_step: "pool_step cfg s s' \<Longrightarrow> workers_ok s \<Longrightarrow> workers_ok s'"
  by (induction rule: pool_step.induct) (auto elim!: workers_ok_step1)

lemma idle_total_nonneg: "0 \<le> idle_total s"
  unfolding idle_total_def by (rule sum_list_nonneg) auto

lemma reserved_positive:
  assumes "worker_in s w m x" and "counts_ok s"
  shows "wk_total x \<Longrightarrow> 0 < total_count s" and "wk_inflight x \<Longrightarrow> 0 < in_flight_count s"
    and "wk_budget x \<Longrightarrow> 0 < hb_current (budget s)"
proof -
  have w: "w < length (workers s)" "workers s ! w = x" using assms(1) by (auto simp: worker_in_def)
  show "wk_total x \<Longrightarrow> 0 < total_count s"
    using wsum_positive [of w s wk_total] idle_total_nonneg [of s] w assms(2) by (simp add: counts_ok_def)
  show "wk_inflight x \<Longrightarrow> 0 < in_flight_count s"
    using wsum_positive [of w s wk_inflight] w assms(2) by (simp add: counts_ok_def)
  show "wk_budget x \<Longrightarrow> 0 < hb_current (budget s)"
    using wsum_positive [of w s wk_budget] idle_total_nonneg [of s] w assms(2) by (simp add: counts_ok_def)
qed

lemma counts_ok_step1:
  assumes "worker_in s w m x" and "workers_ok s" and "counts_ok s" and "workers s0 = workers s"
    and "mode_ok m x \<Longrightarrow> (wk_total x \<longrightarrow> 0 < total_count s) \<Longrightarrow> (wk_inflight x \<longrightarrow> 0 < in_flight_count s) \<Longrightarrow>
      (wk_budget x \<longrightarrow> 0 < hb_current (budget s)) \<Longrightarrow>
      int (total_count s0) = int (total_count s) + (idle_total s0 - idle_total s)
        + of_bool (wk_total x') - of_bool (wk_total x) \<and>
      int (in_flight_count s0) = int (in_flight_count s) + of_bool (wk_inflight x') - of_bool (wk_inflight x) \<and>
      int (hb_current (budget s0)) = int (hb_current (budget s)) + (idle_total s0 - idle_total s)
        + of_bool (wk_budget x') - of_bool (wk_budget x) \<and>
      others s0 = others s"
  shows "counts_ok (set_worker w x' s0)"
proof -
  have w: "w < length (workers s0)" "workers s0 ! w = x" using assms(1,4) by (auto simp: worker_in_def)
  have "wsum f s0 = wsum f s" for f using assms(4) by (rule wsum_cong_workers)
  then show ?thesis
    using assms(3) assms(5) [OF worker_in_ok [OF assms(1,2)]] reserved_positive [OF assms(1,3)] w
    by (simp add: counts_ok_def wsum_set_worker)
qed

lemma idle_total_shard_at:
  "shard_at s i sh \<Longrightarrow>
   idle_total (set_shard i sh' s) = idle_total s - int (length (idle sh)) + int (length (idle sh'))"
  by (simp add: shard_at_def idle_total_set_shard)

lemma budget_take_current: "budget_try_acquire b = Some b' \<Longrightarrow> hb_current b' = Suc (hb_current b)"
  by (auto simp: budget_try_acquire_def split: if_splits)

lemma budget_give_current: "0 < hb_current b \<Longrightarrow> int (hb_current (budget_release b)) = int (hb_current b) - 1"
  by (simp add: budget_release_def)

lemma decrement_pos: "0 < n \<Longrightarrow> int (decrement_counter n) = int n - 1"
  by (simp add: decrement_counter_def)

lemma counts_ok_step:
  assumes "pool_step cfg s s'" and "workers_ok s" and "counts_ok s"
  shows "counts_ok s'"
  using assms
proof (induction rule: pool_step.induct)
  case (shutdown s)
  then show ?case by (simp add: counts_ok_def)
next
  case (other_take s b)
  then show ?case by (simp add: counts_ok_def budget_take_current)
next
  case (other_give s)
  have "0 < hb_current (budget s)"
    using other_give idle_total_nonneg [of s] wsum_nonneg [of wk_budget s] by (simp add: counts_ok_def)
  then show ?case using other_give by (simp add: counts_ok_def budget_give_current)
next
  case (set_limit s n)
  then show ?case by (simp add: counts_ok_def budget_set_limit_def)
qed (rule counts_ok_step1, assumption, assumption, assumption, simp,
     simp add: idle_total_shard_at drop_from_shard_def budget_take_current budget_give_current decrement_pos)+

text \<open>Steps that move a connection between a shard and a worker.\<close>

lemma shards_ok_move:
  assumes "worker_in s w m x" and "shard_at s i sh" and "shards_ok s" and "workers_ok s"
    and "wk_shard x = None \<or> wk_shard x = Some i" and "wk_shard x' = None \<or> wk_shard x' = Some i"
    and "length (idle sh) \<le> sh_total sh \<Longrightarrow> (wk_shard x = Some i \<longrightarrow> 1 \<le> sh_total sh \<and> 1 \<le> sh_in_flight sh) \<Longrightarrow>
      int (sh_total sh') - int (length (idle sh')) =
        int (sh_total sh) - int (length (idle sh)) - of_bool (in_shard i x) + of_bool (in_shard i x') \<and>
      int (sh_in_flight sh') = int (sh_in_flight sh) - of_bool (in_shard i x) + of_bool (in_shard i x')"
  shows "shards_ok (set_worker w x' (set_shard i sh' s))"
proof -
  have "length (idle sh) \<le> sh_total sh" by (rule shard_counts_idle [OF assms(3,2)])
  moreover have "wk_shard x = Some i \<longrightarrow> 1 \<le> sh_total sh \<and> 1 \<le> sh_in_flight sh"
    using shard_counts_worker [OF assms(3,1) _ assms(2)] by blast
  ultimately have c: "int (sh_total sh') - int (length (idle sh')) =
        int (sh_total sh) - int (length (idle sh)) - of_bool (in_shard i x) + of_bool (in_shard i x') \<and>
      int (sh_in_flight sh') = int (sh_in_flight sh) - of_bool (in_shard i x) + of_bool (in_shard i x')"
    by (rule assms(7))
  have w: "w < length (workers s)" "workers s ! w = x" "i < length (pool_shards s)" "pool_shards s ! i = sh"
    using assms(1,2) by (auto simp: worker_in_def shard_at_def)
  show ?thesis
    by (rule shards_ok_update [OF assms(3) w(1,3)])
       (use c w assms(5,6) in \<open>auto simp: in_shard_def\<close>)
qed

lemma shards_ok_stay:
  assumes "worker_in s w m x" and "shards_ok s" and "workers s0 = workers s" and "pool_shards s0 = pool_shards s"
    and "wk_shard x' = wk_shard x"
  shows "shards_ok (set_worker w x' s0)"
proof (rule shards_ok_worker)
  show "shards_ok s0" using assms(2-4) shards_ok_cong by blast
qed (use assms in \<open>auto simp: worker_in_def\<close>)

lemma shards_ok_fields [simp]:
  "shards_ok (s\<lparr>budget := b\<rparr>) = shards_ok s" "shards_ok (s\<lparr>budget := b, others := a\<rparr>) = shards_ok s"
  "shards_ok (s\<lparr>running := r\<rparr>) = shards_ok s"
  by (simp_all add: shards_ok_def wsum_def)

lemma shards_ok_step:
  assumes "pool_step cfg s s'" and "workers_ok s" and "shards_ok s"
  shows "shards_ok s'"
  using assms
proof (induction rule: pool_step.induct)
  case (evict s w m x i sh c cs now)
  have "wk_shard x = None" using worker_in_ok [OF evict(1,8)] evict(2) by auto
  then show ?case
    by (intro shards_ok_move [OF evict(1,5,9,8)]) (use evict(6) in \<open>auto simp: in_shard_def\<close>)
next
  case (reuse s w x i sh c cs)
  have "wk_shard x = None" using worker_in_ok [OF reuse(1,8)] by simp
  then show ?case
    by (intro shards_ok_move [OF reuse(1,4,9,8)]) (use reuse(5) in \<open>auto simp: in_shard_def\<close>)
next
  case (enter_shard s w x i sh)
  have "wk_shard x = None" using worker_in_ok [OF enter_shard(1,3)] by simp
  then show ?case
    by (intro shards_ok_move [OF enter_shard(1,2,4,3)]) (auto simp: in_shard_def)
next
  case (discard s w m x i sh)
  then show ?case
    by (intro shards_ok_move [OF discard(1,4,6,5)]) (auto simp: in_shard_def drop_from_shard_def)
next
  case (give_idle s w x i sh c)
  then show ?case
    by (intro shards_ok_move [OF give_idle(1,3,7,6)]) (auto simp: in_shard_def)
qed (auto elim!: shards_ok_stay)

abbreviation pool_run :: "pool_config \<Rightarrow> pool_state \<Rightarrow> pool_state \<Rightarrow> bool" where
  "pool_run cfg \<equiv> (pool_step cfg)\<^sup>*\<^sup>*"

lemma sum_list_replicate_0: "f x = (0::int) \<Longrightarrow> sum_list (map f (replicate n x)) = 0"
  by (induction n) auto

lemma pool_inv_init: "pool_inv (pool_init n b)"
proof -
  have "wsum f (pool_init n b) = 0" if "\<not> f away" for f
    unfolding wsum_def pool_init_def using that by (simp add: sum_list_replicate_0 del: map_replicate)
  moreover have "idle_total (pool_init n b) = 0"
    unfolding idle_total_def pool_init_def by (simp add: sum_list_replicate_0 del: map_replicate)
  ultimately have "counts_ok (pool_init n b)" and "shards_ok (pool_init n b)"
    by (simp_all add: counts_ok_def shards_ok_def away_def in_shard_def)
       (simp_all add: pool_init_def)
  moreover have "workers_ok (pool_init n b)" by (auto simp: workers_ok_def pool_init_def away_def)
  ultimately show ?thesis by (simp add: pool_inv_def)
qed

lemma pool_run_inv: "pool_run cfg (pool_init n b) s \<Longrightarrow> pool_inv s"
proof (induction rule: rtranclp_induct)
  case base
  show ?case by (rule pool_inv_init)
next
  case (step s1 s2)
  then show ?case
    using workers_ok_step counts_ok_step shards_ok_step by (auto simp: pool_inv_def)
qed

definition holding_count :: "pool_state \<Rightarrow> int" where
  "holding_count s = wsum (\<lambda>x. wk_mode x = Holding) s"

lemma quiet_wsum:
  assumes "workers_ok s" and "\<forall>x \<in> set (workers s). wk_mode x = Away \<or> wk_mode x = Holding"
    and "\<And>x. mode_ok Away x \<Longrightarrow> \<not> f x" and "\<And>x. mode_ok Holding x \<Longrightarrow> f x"
  shows "wsum f s = holding_count s"
proof -
  have "f x \<longleftrightarrow> wk_mode x = Holding" if "x \<in> set (workers s)" for x
    using assms that by (force simp: workers_ok_def)
  then have "map (\<lambda>x. of_bool (f x)) (workers s) =
      (map (\<lambda>x. of_bool (wk_mode x = Holding)) (workers s) :: int list)"
    by simp
  then show ?thesis by (simp only: wsum_def holding_count_def)
qed


lemma decrement_le: "decrement_counter n \<le> n"
  by (simp add: decrement_counter_def)

text \<open>
  The connections counted by a pool never exceed \<^verbatim>\<open>max_size\<close>, and the requests in flight never exceed
  \<^verbatim>\<open>max_concurrent\<close> when it is set, at any moment of any interleaving.
\<close>

lemma pool_within_limits:
  assumes "pool_run cfg (pool_init n b) s"
  shows "total_count s \<le> max_size cfg \<and> (max_concurrent cfg \<noteq> 0 \<longrightarrow> in_flight_count s \<le> max_concurrent cfg)"
  using assms
proof (induction rule: rtranclp_induct)
  case base
  show ?case by (simp add: pool_init_def)
next
  case (step s1 s2)
  from step(2,3) show ?case
    by (cases rule: pool_step.cases) (auto intro: le_trans [OF decrement_le])
qed

text \<open>A run for the witnesses: one worker creates a connection and holds it.\<close>

lemma pool_step_to: "pool_step cfg s s1 \<Longrightarrow> s1 = s' \<Longrightarrow> pool_step cfg s s'"
  by simp

definition demo_shard :: pool_shard where
  "demo_shard = \<lparr>idle = [], sh_total = 0, sh_in_flight = 0\<rparr>"

definition demo_pool :: "nat \<Rightarrow> nat \<Rightarrow> nat \<Rightarrow> nat \<Rightarrow> worker \<Rightarrow> pool_state" where
  "demo_pool sh tc ifc bud x =
     \<lparr>running = True, pool_shards = \<lparr>idle = [], sh_total = sh, sh_in_flight = sh\<rparr> # replicate 15 demo_shard,
      total_count = tc, in_flight_count = ifc, budget = \<lparr>hb_current = bud, hb_limit = 10\<rparr>, others = 0,
      workers = [x]\<rparr>"

definition demo_worker :: "worker_mode \<Rightarrow> bool \<Rightarrow> bool \<Rightarrow> nat option \<Rightarrow> worker" where
  "demo_worker m t b sh = \<lparr>wk_mode = m, wk_total = t, wk_budget = b, wk_inflight = True, wk_shard = sh\<rparr>"

lemmas demo_defs = demo_pool_def demo_worker_def worker_in_def set_worker_def away_def

lemma demo_pool_run:
  "pool_run pool_config0 (pool_init 1 (budget_new 10)) (demo_pool 1 1 1 1 (demo_worker Holding True True (Some 0)))"
proof -
  have i: "pool_init 1 (budget_new 10) = demo_pool 0 0 0 0 away"
    by (simp add: pool_init_def demo_pool_def budget_new_def kPoolShards_def demo_shard_def numeral_eq_Suc)
  have 1: "pool_step pool_config0 (demo_pool 0 0 0 0 away)
      (demo_pool 0 0 1 0 (demo_worker Scanning False False None))"
    by (rule pool_step_to [OF start [where w = 0 and x = away]]) (simp_all add: demo_defs pool_config0_def)
  have 2: "pool_step pool_config0 (demo_pool 0 0 1 0 (demo_worker Scanning False False None))
      (demo_pool 0 1 1 0 (demo_worker Need_budget True False None))"
    by (rule pool_step_to [OF take_slot [where w = 0 and x = "demo_worker Scanning False False None"]]) (simp_all add: demo_defs pool_config0_def)
  have 3: "pool_step pool_config0 (demo_pool 0 1 1 0 (demo_worker Need_budget True False None))
      (demo_pool 0 1 1 1 (demo_worker Need_shard True True None))"
    by (rule pool_step_to [OF take_budget [where w = 0 and x = "demo_worker Need_budget True False None" and b = "\<lparr>hb_current = 1, hb_limit = 10\<rparr>"]])
       (simp_all add: demo_defs budget_try_acquire_def)
  have 4: "pool_step pool_config0 (demo_pool 0 1 1 1 (demo_worker Need_shard True True None))
      (demo_pool 1 1 1 1 (demo_worker Connecting True True (Some 0)))"
    by (rule pool_step_to [OF enter_shard [where w = 0 and i = 0 and x = "demo_worker Need_shard True True None" and
          sh = "\<lparr>idle = [], sh_total = 0, sh_in_flight = 0\<rparr>"]])
       (simp_all add: demo_defs shard_at_def set_shard_def)
  have 5: "pool_step pool_config0 (demo_pool 1 1 1 1 (demo_worker Connecting True True (Some 0)))
      (demo_pool 1 1 1 1 (demo_worker Holding True True (Some 0)))"
    by (rule pool_step_to [OF connected [where w = 0 and x = "demo_worker Connecting True True (Some 0)"]]) (simp_all add: demo_defs)
  show ?thesis unfolding i using 1 2 3 4 5 by (meson converse_rtranclp_into_rtranclp rtranclp.rtrancl_refl)
qed


section \<open>Eviction and statistics\<close>

text \<open>\<^verbatim>\<open>evict_stale_idle\<close> on a shard, and the number of connections it closed.\<close>

function evict_stale_idle :: "pool_config \<Rightarrow> int \<Rightarrow> pool_shard \<Rightarrow> pool_shard \<times> nat" where
  "evict_stale_idle cfg now sh =
     (case idle sh of
        [] \<Rightarrow> (sh, 0)
      | c # cs \<Rightarrow>
          if (now - last_used_at c) div 1000 < idle_timeout_sec cfg then (sh, 0)
          else
            let (sh', k) = evict_stale_idle cfg now (sh\<lparr>idle := cs, sh_total := sh_total sh - 1\<rparr>)
            in (sh', Suc k))"
  by pat_completeness auto
termination
  by (relation "measure (\<lambda>(_, _, sh). length (idle sh))") auto

declare evict_stale_idle.simps [simp del]

lemma evict_stale_idle_dropWhile:
  assumes "length (idle sh) \<le> sh_total sh"
  shows "idle (fst (evict_stale_idle cfg now sh)) = dropWhile (stale cfg now) (idle sh) \<and>
    sh_total (fst (evict_stale_idle cfg now sh)) + snd (evict_stale_idle cfg now sh) = sh_total sh \<and>
    sh_in_flight (fst (evict_stale_idle cfg now sh)) = sh_in_flight sh"
  using assms
proof (induction cfg now sh rule: evict_stale_idle.induct)
  case (1 cfg now sh)
  show ?case
  proof (cases "idle sh")
    case Nil
    then show ?thesis by (simp add: evict_stale_idle.simps)
  next
    case (Cons c cs)
    then show ?thesis
      using 1 by (auto simp: evict_stale_idle.simps [of cfg now sh] stale_def split: prod.splits)
  qed
qed

text \<open>\<^verbatim>\<open>evict_stale\<close>: all shards in turn; the number of idle connections left.\<close>

definition evict_stale :: "pool_config \<Rightarrow> int \<Rightarrow> pool_shard list \<Rightarrow> pool_shard list \<times> nat" where
  "evict_stale cfg now shs =
     (let shs' = map (\<lambda>sh. fst (evict_stale_idle cfg now sh)) shs
      in (shs', sum_list (map (\<lambda>sh. length (idle sh)) shs')))"

end
