(* ===== verification/Publisher.thy ===== *)
theory Publisher
  imports Main
begin

text \<open>
  The contract of a component whose configuration is replaced while requests read it: \<^verbatim>\<open>SecurityRules\<close> and
  \<^verbatim>\<open>UpstreamManager\<close> both keep a current view and a generation number, and change them together under a lock. Requests
  compare generations to find out whether a reload came between two of their steps.
\<close>

inductive publish_run :: "('p \<Rightarrow> 's \<Rightarrow> 's) \<Rightarrow> 's \<Rightarrow> 's \<Rightarrow> bool" for publish where
  none: "publish_run publish s s"
| more: "publish_run publish s t \<Longrightarrow> publish_run publish s (publish p t)"

locale snapshot_publisher =
  fixes ok :: "'s \<Rightarrow> bool" and view :: "'s \<Rightarrow> 'v" and gen :: "'s \<Rightarrow> nat" and publish :: "'p \<Rightarrow> 's \<Rightarrow> 's"
    and prepared_view :: "'p \<Rightarrow> 'v"
  assumes publish_ok: "ok s \<Longrightarrow> ok (publish p s)"
    and publish_view: "view (publish p s) = prepared_view p"
    and publish_gen: "ok s \<Longrightarrow> gen s < gen (publish p s)"
begin

lemma run_ok: "publish_run publish s t \<Longrightarrow> ok s \<Longrightarrow> ok t"
  by (induction rule: publish_run.induct) (auto intro: publish_ok)

lemma gen_mono: "publish_run publish s t \<Longrightarrow> ok s \<Longrightarrow> gen s \<le> gen t"
proof (induction rule: publish_run.induct)
  case (more s t p)
  then show ?case using publish_gen [OF run_ok [OF more(1,3)], of p] by simp
qed simp

lemma same_gen_same_state: "publish_run publish s t \<Longrightarrow> ok s \<Longrightarrow> gen t = gen s \<Longrightarrow> t = s"
proof (induction rule: publish_run.induct)
  case (more s t p)
  then show ?case using gen_mono [OF more(1,3)] publish_gen [OF run_ok [OF more(1,3)], of p] by simp
qed simp

lemma view_is_latest:
  "publish_run publish s t \<Longrightarrow> t = s \<or> (\<exists>p. view t = prepared_view p)"
  by (induction rule: publish_run.induct) (auto simp: publish_view)

end

lemma publish_run_trans: "publish_run publish s t \<Longrightarrow> publish_run publish r s \<Longrightarrow> publish_run publish r t"
  by (induction rule: publish_run.induct) (auto intro: publish_run.more)

end
