(* ===== verification/Upstream.thy ===== *)
theory Upstream
  imports Http_Pool Config_Ini Publisher
begin

text \<open>
  The route table, \<^verbatim>\<open>src/http/upstream_manager.hpp\<close>. A pool is named by a number, its identity, and carries its
  configuration; \<open>fresh\<close> is the next unused number. Generations are natural numbers.
\<close>

record upstream_config =
  up_host :: string
  up_port :: int

record service_pool =
  sp_id :: nat
  sp_cfg :: pool_config

record upstream_manager =
  um_upstreams :: "string \<rightharpoonup> upstream_config"
  um_pools :: "string \<rightharpoonup> service_pool"
  um_json_keys :: bool
  um_budget :: http_connection_budget
  um_generation :: nat
  um_fresh :: nat

definition upstream_manager0 :: upstream_manager where
  "upstream_manager0 = \<lparr>um_upstreams = Map.empty, um_pools = Map.empty, um_json_keys = True,
     um_budget = budget_new 0, um_generation = 0, um_fresh = 0\<rparr>"

record route_result =
  rr_config :: upstream_config
  rr_pool :: service_pool
  rr_path :: string
  rr_json_keys :: bool

datatype upstream_error = Bad_upstream string | Bad_config config_error | Out_of_range

section \<open>Routing\<close>

definition route_slash :: "string \<Rightarrow> nat \<Rightarrow> nat" where
  "route_slash path path_end =
     (case find_char (CHR ''/'') (drop 1 path) of
        None \<Rightarrow> path_end
      | Some i \<Rightarrow> if i + 1 > path_end then path_end else i + 1)"

text \<open>\<open>Inl Out_of_range\<close> is the exception of \<^verbatim>\<open>pools_.at\<close>.\<close>

definition route :: "upstream_manager \<Rightarrow> string \<Rightarrow> upstream_error + route_result option" where
  "route um path =
     (if path = [] \<or> hd path \<noteq> CHR ''/'' then Inr None
      else
        let query = find_char (CHR ''?'') path;
            path_end = (case query of None \<Rightarrow> length path | Some q \<Rightarrow> q);
            slash = route_slash path path_end;
            svc = take (slash - 1) (drop 1 path)
        in case um_upstreams um svc of
             None \<Rightarrow> Inr None
           | Some cfg \<Rightarrow>
               let upstream_path =
                     (if slash < path_end then drop slash path
                      else case query of Some q \<Rightarrow> ''/'' @ drop q path | None \<Rightarrow> ''/'')
               in case um_pools um svc of
                    None \<Rightarrow> Inl Out_of_range
                  | Some pool \<Rightarrow> Inr (Some \<lparr>rr_config = cfg, rr_pool = pool, rr_path = upstream_path,
                                           rr_json_keys = um_json_keys um\<rparr>))"

section \<open>Reload\<close>

record prepared_reload =
  pr_upstreams :: "string \<rightharpoonup> upstream_config"
  pr_pools :: "string \<rightharpoonup> service_pool"
  pr_json_keys :: bool
  pr_max_total :: nat
  pr_fresh :: nat

definition quoted :: "string \<Rightarrow> string" where
  "quoted s = [DQUOTE] @ s @ [DQUOTE]"

text \<open>The validation of one entry, in the order of the source.\<close>

definition parse_upstream :: "string \<Rightarrow> string \<Rightarrow> upstream_error + upstream_config" where
  "parse_upstream name val =
     (if name = [] then Inl (Bad_upstream ''upstream entry with an empty service name'')
      else case find_char (CHR '':'') val of
        None \<Rightarrow> Inl (Bad_upstream (''upstream '' @ quoted name @ '': missing : in value '' @ quoted val))
      | Some colon \<Rightarrow>
          let host = take colon val; port_str = drop (colon + 1) val in
          if host = [] then Inl (Bad_upstream (''upstream '' @ quoted name @ '': empty host''))
          else if CHR '':'' \<in> set host then Inl (Bad_upstream (''upstream '' @ quoted name @
            '': IPv6 literals are not supported, use an IPv4 address or a hostname''))
          else if port_str = [] then Inl (Bad_upstream (''upstream '' @ quoted name @ '': empty port''))
          else case stoi port_str of
            None \<Rightarrow> Inl (Bad_upstream (''upstream '' @ quoted name @ '': invalid port '' @ quoted port_str))
          | Some (port, parsed) \<Rightarrow>
              if parsed \<noteq> length port_str
              then Inl (Bad_upstream (''upstream '' @ quoted name @ '': invalid port '' @ quoted port_str @
                '' (trailing characters)''))
              else if port < 1 \<or> port > 65535
              then Inl (Bad_upstream (''upstream '' @ quoted name @ '': port out of range [1,65535]: '' @ port_str))
              else Inr \<lparr>up_host = host, up_port = port\<rparr>)"

text \<open>The pool of an unchanged service is kept, so its connections survive the reload.\<close>

definition pool_for ::
  "upstream_manager \<Rightarrow> pool_config \<Rightarrow> string \<Rightarrow> upstream_config \<Rightarrow> nat \<Rightarrow> upstream_error + service_pool \<times> nat" where
  "pool_for um pool_cfg name up fresh =
     (if um_upstreams um name = Some up
      then (case um_pools um name of
              None \<Rightarrow> Inl Out_of_range
            | Some p \<Rightarrow> if same_pool_settings (sp_cfg p) pool_cfg then Inr (p, fresh)
                       else Inr (\<lparr>sp_id = fresh, sp_cfg = pool_cfg\<rparr>, fresh + 1))
      else Inr (\<lparr>sp_id = fresh, sp_cfg = pool_cfg\<rparr>, fresh + 1))"

fun prepare_entries ::
  "upstream_manager \<Rightarrow> pool_config \<Rightarrow> (string \<times> string) list \<Rightarrow> prepared_reload \<Rightarrow> upstream_error + prepared_reload"
where
  "prepare_entries um pool_cfg [] pr = Inr pr"
| "prepare_entries um pool_cfg ((name, val) # es) pr =
     (case parse_upstream name val of
        Inl e \<Rightarrow> Inl e
      | Inr up \<Rightarrow>
          (case pool_for um pool_cfg name up (pr_fresh pr) of
             Inl e \<Rightarrow> Inl e
           | Inr (p, fresh) \<Rightarrow>
               prepare_entries um pool_cfg es
                 (pr\<lparr>pr_pools := (pr_pools pr)(name \<mapsto> p), pr_upstreams := (pr_upstreams pr)(name \<mapsto> up),
                     pr_fresh := fresh\<rparr>)))"

definition prepare_reload :: "upstream_manager \<Rightarrow> config \<Rightarrow> pool_config \<Rightarrow> upstream_error + prepared_reload" where
  "prepare_reload um cfg pool_cfg =
     (case get_bool cfg ''gateway'' ''json_keys_snake_to_camel'' True of
        Inl e \<Rightarrow> Inl (Bad_config e)
      | Inr flag \<Rightarrow>
          prepare_entries um pool_cfg (get_section cfg ''upstream'')
            \<lparr>pr_upstreams = Map.empty, pr_pools = Map.empty, pr_json_keys = flag,
             pr_max_total = max_total_connections pool_cfg, pr_fresh = um_fresh um\<rparr>)"

definition publish_reload :: "prepared_reload \<Rightarrow> upstream_manager \<Rightarrow> upstream_manager" where
  "publish_reload pr um =
     um\<lparr>um_upstreams := pr_upstreams pr, um_pools := pr_pools pr, um_json_keys := pr_json_keys pr,
        um_budget := budget_set_limit (um_budget um) (pr_max_total pr),
        um_generation := um_generation um + 1, um_fresh := max (um_fresh um) (pr_fresh pr)\<rparr>"

definition upstream_reload :: "upstream_manager \<Rightarrow> config \<Rightarrow> pool_config \<Rightarrow> upstream_error option \<times> upstream_manager" where
  "upstream_reload um cfg pool_cfg =
     (case prepare_reload um cfg pool_cfg of
        Inl e \<Rightarrow> (Some e, um)
      | Inr pr \<Rightarrow> (None, publish_reload pr um))"

interpretation upstream_publisher: snapshot_publisher "\<lambda>_. True"
  "\<lambda>um. (um_upstreams um, um_pools um, um_json_keys um)" um_generation publish_reload
  "\<lambda>pr. (pr_upstreams pr, pr_pools pr, pr_json_keys pr)"
  by unfold_locales (simp_all add: publish_reload_def)

section \<open>The route table is complete\<close>

definition um_ok :: "upstream_manager \<Rightarrow> bool" where
  "um_ok um \<longleftrightarrow> dom (um_pools um) = dom (um_upstreams um)"

lemma pool_for_total: "um_ok um \<Longrightarrow> \<exists>p fresh'. pool_for um pool_cfg name up fresh = Inr (p, fresh')"
  unfolding pool_for_def um_ok_def by (auto split: option.splits)

lemma prepare_entries_ok:
  "prepare_entries um pool_cfg es pr = Inr pr' \<Longrightarrow> dom (pr_pools pr) = dom (pr_upstreams pr) \<Longrightarrow>
   dom (pr_pools pr') = dom (pr_upstreams pr')"
  by (induction um pool_cfg es pr rule: prepare_entries.induct) (auto split: sum.splits prod.splits)

lemma upstream_reload_ok: "um_ok um \<Longrightarrow> um_ok (snd (upstream_reload um cfg pool_cfg))"
  by (auto simp: upstream_reload_def publish_reload_def prepare_reload_def um_ok_def dest!: prepare_entries_ok
      split: sum.splits)

inductive um_reach :: "upstream_manager \<Rightarrow> bool" where
  start: "um_reach upstream_manager0"
| reload: "um_reach um \<Longrightarrow> um_reach (snd (upstream_reload um cfg pool_cfg))"

lemma um_reach_ok: "um_reach um \<Longrightarrow> um_ok um"
proof (induction rule: um_reach.induct)
  case start
  show ?case by (simp add: um_ok_def upstream_manager0_def)
qed (rule upstream_reload_ok)

lemma find_char_skip: "c \<notin> set xs \<Longrightarrow> find_char c (xs @ ys) = map_option ((+) (length xs)) (find_char c ys)"
proof (induction xs)
  case Nil
  show ?case by (cases "find_char c ys") auto
next
  case (Cons x xs)
  then show ?case by (cases "find_char c ys") auto
qed

lemma route_slash_service:
  assumes "CHR ''/'' \<notin> set svc" and "rest = [] \<or> hd rest = CHR ''/''" and "query = [] \<or> hd query = CHR ''?''"
  shows "route_slash (''/'' @ svc @ rest @ query) (Suc (length svc + length rest)) = Suc (length svc)"
proof (cases "rest = []")
  case False
  then obtain r where "rest = CHR ''/'' # r" using assms(2) by (cases rest) auto
  then show ?thesis using assms(1) by (simp add: route_slash_def find_char_skip)
next
  case True
  show ?thesis
  proof (cases query)
    case Nil
    have "find_char (CHR ''/'') svc = None" using assms(1) by (simp add: find_char_None)
    then show ?thesis using True Nil by (simp add: route_slash_def)
  next
    case (Cons q qs)
    then have "find_char (CHR ''/'') query = map_option Suc (find_char (CHR ''/'') qs)" using assms(3) by simp
    then show ?thesis using True assms(1)
      by (cases "find_char (CHR ''/'') qs") (simp_all add: route_slash_def find_char_skip)
  qed
qed

lemma route_query:
  assumes "CHR ''?'' \<notin> set svc" and "CHR ''?'' \<notin> set rest" and "query = [] \<or> hd query = CHR ''?''"
  shows "find_char (CHR ''?'') (''/'' @ svc @ rest @ query) =
    (if query = [] then None else Some (Suc (length svc + length rest)))"
proof -
  have s: "CHR ''?'' \<notin> set (''/'' @ svc @ rest)" using assms(1,2) by simp
  have "find_char (CHR ''?'') query = (if query = [] then None else Some 0)"
    using assms(3) by (cases query) (auto simp: find_char_None)
  then show ?thesis using find_char_skip [OF s, of query] by simp
qed

text \<open>
  In every state reached by successful and failed reloads, a request for \<^verbatim>\<open>/service/rest?query\<close> never hits the
  exception of \<^verbatim>\<open>pools_.at\<close>: it is routed exactly when the service is configured, to the path after the service name with its
  query.
\<close>

lemma route_total_and_last:
  assumes "um_reach um" and "CHR ''/'' \<notin> set svc" and "CHR ''?'' \<notin> set svc" and "CHR ''?'' \<notin> set rest"
    and "rest = [] \<or> hd rest = CHR ''/''" and "query = [] \<or> hd query = CHR ''?''"
  shows "\<exists>r. route um (''/'' @ svc @ rest @ query) = Inr r \<and>
    (case r of
       None \<Rightarrow> um_upstreams um svc = None
     | Some rr \<Rightarrow> um_upstreams um svc = Some (rr_config rr) \<and> um_pools um svc = Some (rr_pool rr) \<and>
         rr_path rr = (if rest = [] then ''/'' @ query else rest @ query))"
proof -
  let ?path = "''/'' @ svc @ rest @ query"
  let ?stop = "Suc (length svc + length rest)"
  have q: "find_char (CHR ''?'') ?path = (if query = [] then None else Some ?stop)"
    using assms by (intro route_query) auto
  have e: "(case find_char (CHR ''?'') ?path of None \<Rightarrow> length ?path | Some q \<Rightarrow> q) = ?stop"
    unfolding q by (cases "query = []") simp_all
  have s: "route_slash ?path ?stop = Suc (length svc)" using assms by (intro route_slash_service) auto
  have pool: "um_upstreams um svc = Some c \<Longrightarrow> \<exists>p. um_pools um svc = Some p" for c
    using um_reach_ok [OF assms(1)] by (auto simp: um_ok_def dom_def set_eq_iff)
  have svc: "take (Suc (length svc) - 1) (drop 1 ?path) = svc" by simp
  show ?thesis
    unfolding route_def Let_def unfolding e unfolding s unfolding svc unfolding q
    using pool by (cases "um_upstreams um svc"; cases rest) auto
qed

definition demo_up_cfg :: config where
  "demo_up_cfg = \<lparr>cfg_data = Map.empty, cfg_raw = [(''upstream'', ''orders'', ''127.0.0.1:8080'')]\<rparr>"

definition demo_um :: upstream_manager where
  "demo_um = snd (upstream_reload upstream_manager0 demo_up_cfg pool_config0)"

lemma prepare_entries_total:
  assumes "um_ok um"
  shows "if \<forall>(n, v) \<in> set es. \<exists>up. parse_upstream n v = Inr up
    then \<exists>pr'. prepare_entries um pool_cfg es pr = Inr pr' \<and> dom (pr_upstreams pr') = dom (pr_upstreams pr) \<union> fst ` set es
    else \<exists>e. prepare_entries um pool_cfg es pr = Inl e"
proof (induction es arbitrary: pr)
  case (Cons e es)
  obtain n v where e: "e = (n, v)" by fastforce
  show ?case
  proof (cases "parse_upstream n v")
    case (Inl err)
    then show ?thesis by (auto simp: e)
  next
    case (Inr up)
    obtain p fresh where "pool_for um pool_cfg n up (pr_fresh pr) = Inr (p, fresh)"
      using pool_for_total [OF assms] by blast
    then show ?thesis
      using Inr Cons.IH [of "pr\<lparr>pr_pools := (pr_pools pr)(n \<mapsto> p), pr_upstreams := (pr_upstreams pr)(n \<mapsto> up),
          pr_fresh := fresh\<rparr>"]
      by (auto simp: e split: if_splits)
  qed
qed simp

lemma prepare_reload_total:
  assumes "um_ok um" and "get_bool cfg ''gateway'' ''json_keys_snake_to_camel'' True = Inr flag"
  shows "if \<forall>(n, v) \<in> set (get_section cfg ''upstream''). \<exists>up. parse_upstream n v = Inr up
    then \<exists>pr. prepare_reload um cfg pool_cfg = Inr pr \<and> dom (pr_upstreams pr) = fst ` set (get_section cfg ''upstream'')
    else \<exists>e. prepare_reload um cfg pool_cfg = Inl e"
  using prepare_entries_total [OF assms(1), of "get_section cfg ''upstream''" pool_cfg
      "\<lparr>pr_upstreams = Map.empty, pr_pools = Map.empty, pr_json_keys = flag,
        pr_max_total = max_total_connections pool_cfg, pr_fresh = um_fresh um\<rparr>"] assms(2)
  by (auto simp: prepare_reload_def split: if_splits)

text \<open>
  A reload with a single malformed entry, anywhere in the section, reports an error and leaves routes, pools, flag,
  budget and generation exactly as they were; with all entries well-formed it never fails because of the present
  state, and the new table has exactly the listed services.
\<close>

lemma reload_all_or_nothing:
  assumes "um_reach um" and "get_bool cfg ''gateway'' ''json_keys_snake_to_camel'' True = Inr flag"
  shows "if \<forall>(n, v) \<in> set (get_section cfg ''upstream''). \<exists>up. parse_upstream n v = Inr up
    then \<exists>um'. upstream_reload um cfg pool_cfg = (None, um') \<and>
      dom (um_upstreams um') = fst ` set (get_section cfg ''upstream'') \<and> um_generation um < um_generation um'
    else \<exists>e. upstream_reload um cfg pool_cfg = (Some e, um)"
  using prepare_reload_total [OF um_reach_ok [OF assms(1)] assms(2), of pool_cfg]
  by (auto simp: upstream_reload_def publish_reload_def split: if_splits)

lemma ipv6_branch_dead:
  "find_char (CHR '':'') val = Some colon \<Longrightarrow> CHR '':'' \<notin> set (take colon val)"
  by (simp add: find_char_Some)

end
