(* ===== verification/Proxy_Forwarder.thy ===== *)
theory Proxy_Forwarder
  imports Body_Reader Response Upstream
begin

text \<open>
  The exchange with an upstream server, \<^verbatim>\<open>src/http/proxy_forwarder.hpp\<close>: the request it is sent and the reading of its
  response. Reading follows the conventions of the body readers: a function of the buffered bytes and of the
  read completions to come, \<open>None\<close> while the coroutine is suspended.
\<close>

section \<open>The forwarded request\<close>

definition proxy_header_clean :: "string \<times> string \<Rightarrow> bool" where
  "proxy_header_clean kv \<longleftrightarrow>
     list_all (\<lambda>c. \<not> (c = CR \<or> c = LF \<or> c = NUL \<or> c = CHR '':'')) (fst kv) \<and>
     list_all (\<lambda>c. \<not> (c = CR \<or> c = LF \<or> c = NUL)) (snd kv)"

definition request_filtered :: "headers \<Rightarrow> string list" where
  "request_filtered hs = add_connection_tokens hs
     [''connection'', ''proxy-connection'', ''proxy-authenticate'', ''proxy-authorization'', ''te'', ''trailer'',
      ''transfer-encoding'', ''upgrade'', ''host'', ''accept-encoding'', ''expect'']"

definition forwarded :: "headers \<Rightarrow> header_parse_state \<Rightarrow> string \<times> string \<Rightarrow> bool" where
  "forwarded hs st kv =
     (let name = trim (fst kv) in
      if header_iequals name ''transfer-encoding'' \<and> is_chunked st then False
      else if header_iequals name ''transfer-encoding'' then True
      else if list_ex (\<lambda>(k, _). header_iequals (trim k) ''transfer-encoding'') hs \<and> header_iequals name ''content-length''
      then False
      else \<not> contains_header_name (request_filtered hs) name)"

definition proxy_request_lines ::
  "string \<Rightarrow> string \<Rightarrow> upstream_config \<Rightarrow> http_context \<Rightarrow> header_parse_state \<Rightarrow> bool \<Rightarrow> string list" where
  "proxy_request_lines method upstream_path cfg ctx st keep_alive_line =
     [method @ '' '' @ upstream_path @ '' HTTP/1.1'', ''Host: '' @ up_host cfg @ '':'' @ dec_of_int (up_port cfg)] @
     (if is_chunked st then [''Content-Length: '' @ dec_of_nat (length (cx_body ctx))] else []) @
     map (\<lambda>(k, v). trim k @ '': '' @ v) (filter (forwarded (cx_headers ctx) st) (cx_headers ctx)) @
     (if keep_alive_line then [''Connection: keep-alive''] else [])"

text \<open>The empty string is the refusal of a request with a control character in a header.\<close>

definition build_proxy_request ::
  "string \<Rightarrow> string \<Rightarrow> upstream_config \<Rightarrow> http_context \<Rightarrow> header_parse_state \<Rightarrow> bool \<Rightarrow> string" where
  "build_proxy_request method upstream_path cfg ctx st keep_alive_line =
     (if \<not> list_all proxy_header_clean (cx_headers ctx) then []
      else concat (map (\<lambda>l. l @ CRLF) (proxy_request_lines method upstream_path cfg ctx st keep_alive_line)) @
           CRLF @ cx_body ctx)"

section \<open>The upstream's response\<close>

record proxy_response =
  px_status_code :: nat
  px_status_text :: string
  px_headers :: headers
  px_body :: string
  px_error :: string

definition proxy_response0 :: proxy_response where
  "proxy_response0 = \<lparr>px_status_code = 502, px_status_text = [], px_headers = [], px_body = [], px_error = []\<rparr>"

text \<open>The coroutine takes the connection's read buffer at its start. On a failure it marks the connection for closing.\<close>

definition proxy_failure :: "http_conn \<Rightarrow> proxy_response \<Rightarrow> string \<Rightarrow> proxy_response \<times> http_conn" where
  "proxy_failure conn resp e = (resp\<lparr>px_error := e\<rparr>, conn\<lparr>read_buffer := [], connection_close := True\<rparr>)"

fun read_response_header :: "reader \<Rightarrow> string \<Rightarrow> read_event list \<Rightarrow> ((string + string) \<times> read_event list) option" where
  "read_response_header rd buf evs =
     (if find_sub (CRLF @ CRLF) buf \<noteq> None then Some (Inr buf, evs)
      else if length buf > kMaxHeaderSize then Some (Inl ''upstream_response_header_too_large'', evs)
      else (case evs of
              [] \<Rightarrow> None
            | ev # evs' \<Rightarrow>
                let r = rd ev in
                if \<not> io_ok r then Some (Inl ''upstream_response_header_read_failed'', evs')
                else read_response_header rd (buf @ io_data r) evs'))"

declare read_response_header.simps [simp del]

text \<open>One header block: a failure, an informational response to skip with the bytes after it, or
  the final header with its framing, whether the connection closes, and the bytes after it.\<close>

datatype header_outcome =
    Header_failed proxy_response string
  | Header_informational proxy_response string
  | Header_final proxy_response header_parse_state bool string

definition response_header :: "string \<Rightarrow> header_outcome" where
  "response_header buf =
     (let header_end = the (find_sub (CRLF @ CRLF) buf) in
      if header_end > kMaxHeaderSize then Header_failed proxy_response0 ''upstream_response_header_too_large''
      else
        let header_part = take header_end buf; body_rest = drop (header_end + 4) buf;
            first_line_end = find_sub CRLF header_part;
            stat_line = (case first_line_end of None \<Rightarrow> header_part | Some i \<Rightarrow> take i header_part)
        in case parse_http_status_line stat_line of
             None \<Rightarrow> Header_failed proxy_response0 ''upstream_response_invalid_status_line''
           | Some (status, status_txt) \<Rightarrow>
               let upstream_http10 = starts_with ''HTTP/1.0 '' stat_line;
                   hdr = (case first_line_end of None \<Rightarrow> [] | Some i \<Rightarrow> drop (i + 2) header_part);
                   (hs, st) = parse_header_fields hdr ([], header_parse_state0);
                   resp = proxy_response0\<lparr>px_status_code := status, px_status_text := status_txt, px_headers := hs\<rparr>
               in if response_framing_invalid st then Header_failed resp ''upstream_response_invalid_framing''
                  else if 100 \<le> status \<and> status < 200 then
                    if status = 101 \<or> has_transfer_encoding st \<or> content_length st \<noteq> None then
                      Header_failed resp (if status = 101 then ''upstream_protocol_upgrade_unsupported''
                                          else ''upstream_informational_response_invalid_framing'')
                    else Header_informational resp body_rest
                  else Header_final resp st
                         (header_parse_state.connection_close st \<or> upstream_http10 \<and> \<not> connection_keep_alive st) body_rest)"

definition kMaxInformational :: nat where "kMaxInformational = 8"

function read_final_header ::
  "reader \<Rightarrow> nat \<Rightarrow> string \<Rightarrow> read_event list \<Rightarrow> (header_outcome \<times> read_event list) option" where
  "read_final_header rd informational_count buf evs =
     (case read_response_header rd buf evs of
        None \<Rightarrow> None
      | Some (Inl e, evs') \<Rightarrow> Some (Header_failed proxy_response0 e, evs')
      | Some (Inr buf', evs') \<Rightarrow>
          (case response_header buf' of
             Header_informational resp rest \<Rightarrow>
               if informational_count + 1 > kMaxInformational
               then Some (Header_failed resp ''too_many_upstream_informational_responses'', evs')
               else read_final_header rd (informational_count + 1) rest evs'
           | out \<Rightarrow> Some (out, evs')))"
  by pat_completeness auto
termination
  by (relation "measure (\<lambda>(rd, n, buf, evs). kMaxInformational - n)") (auto simp: kMaxInformational_def)

declare read_final_header.simps [simp del]

text \<open>The body that ends with the connection.\<close>

fun read_eof_body ::
  "reader \<Rightarrow> nat \<Rightarrow> string \<Rightarrow> read_event list \<Rightarrow> ((string + string) \<times> read_event list) option" where
  "read_eof_body rd max_body_size body evs =
     (case evs of
        [] \<Rightarrow> None
      | ev # evs' \<Rightarrow>
          let r = rd ev in
          if \<not> io_ok r then
            Some (if io_st r \<noteq> Io_PeerClosed then Inl ''upstream_response_body_read_failed'' else Inr body, evs')
          else if length (body @ io_data r) > max_body_size
          then Some (Inl ''upstream_response_body_too_large'', evs')
          else read_eof_body rd max_body_size (body @ io_data r) evs')"

declare read_eof_body.simps [simp del]

definition framed_result ::
  "http_conn \<Rightarrow> proxy_response \<Rightarrow> bool \<Rightarrow> string \<Rightarrow> body_read_result \<Rightarrow> string \<Rightarrow> proxy_response \<times> http_conn" where
  "framed_result conn resp close e r rest =
     (if \<not> body_ok r
      then proxy_failure conn resp (if br_status r = TooLarge then ''upstream_response_body_too_large'' else e)
      else (resp\<lparr>px_body := br_body r\<rparr>, conn\<lparr>read_buffer := rest, connection_close := close\<rparr>))"

definition read_response_body ::
  "reader \<Rightarrow> nat \<Rightarrow> bool \<Rightarrow> http_conn \<Rightarrow> proxy_response \<Rightarrow> header_parse_state \<Rightarrow> bool \<Rightarrow> string \<Rightarrow> read_event list \<Rightarrow>
   ((proxy_response \<times> http_conn) \<times> read_event list) option" where
  "read_response_body rd max_body_size request_is_head conn resp st close body_rest evs =
     (if request_is_head \<or> px_status_code resp = 204 \<or> px_status_code resp = 304 then
        Some ((resp\<lparr>px_body := []\<rparr>, conn\<lparr>read_buffer := [], connection_close := close \<or> body_rest \<noteq> []\<rparr>), evs)
      else if is_chunked st then
        map_option (\<lambda>(r, rest, evs').
            (framed_result conn resp close ''upstream_response_chunked_read_failed'' r rest, evs'))
          (read_chunked_body rd body_rest max_body_size evs)
      else case content_length st of
        Some n \<Rightarrow>
          map_option (\<lambda>(r, rest, evs').
              (framed_result conn resp close ''upstream_response_body_read_failed'' r rest, evs'))
            (read_content_length_body rd body_rest n max_body_size evs)
      | None \<Rightarrow>
          if length body_rest > max_body_size
          then Some (proxy_failure conn resp ''upstream_response_body_too_large'', evs)
          else map_option (\<lambda>(res, evs'). (case res of
                   Inl e \<Rightarrow> proxy_failure conn resp e
                 | Inr body \<Rightarrow> (resp\<lparr>px_body := body\<rparr>, conn\<lparr>read_buffer := [], connection_close := True\<rparr>), evs'))
             (read_eof_body rd max_body_size body_rest evs))"

text \<open>\<open>read_final_header\<close> never returns an informational header: it skips them or fails.\<close>

definition read_proxy_response ::
  "reader \<Rightarrow> nat \<Rightarrow> bool \<Rightarrow> http_conn \<Rightarrow> read_event list \<Rightarrow> ((proxy_response \<times> http_conn) \<times> read_event list) option" where
  "read_proxy_response rd max_body_size request_is_head conn evs =
     (case read_final_header rd 0 (read_buffer conn) evs of
        None \<Rightarrow> None
      | Some (Header_failed resp e, evs') \<Rightarrow> Some (proxy_failure conn resp e, evs')
      | Some (Header_informational resp rest, evs') \<Rightarrow> None
      | Some (Header_final resp st close rest, evs') \<Rightarrow>
          read_response_body rd max_body_size request_is_head conn resp st close rest evs')"

section \<open>The response is safe to reuse or the connection is closed\<close>

lemma read_final_header_outcome:
  "read_final_header rd n buf evs = Some (out, evs') \<Longrightarrow>
     (case out of
        Header_failed resp e \<Rightarrow> e \<noteq> [] \<and> px_body resp = []
      | Header_informational _ _ \<Rightarrow> False
      | Header_final resp st close rest \<Rightarrow>
          px_error resp = [] \<and> px_body resp = [] \<and> \<not> (100 \<le> px_status_code resp \<and> px_status_code resp < 200) \<and>
          \<not> response_framing_invalid st)"
proof (induction rd n buf evs rule: read_final_header.induct)
  case (1 rd n buf evs)
  have h: "case response_header b of
      Header_failed resp e \<Rightarrow> e \<noteq> [] \<and> px_body resp = []
    | Header_informational resp _ \<Rightarrow> px_body resp = []
    | Header_final resp st close rest \<Rightarrow>
        px_error resp = [] \<and> px_body resp = [] \<and> \<not> (100 \<le> px_status_code resp \<and> px_status_code resp < 200) \<and>
        \<not> response_framing_invalid st" for b
    by (auto simp: response_header_def Let_def proxy_response0_def split: option.split prod.split)
  have e: "read_response_header rd b es = Some (Inl e, es') \<Longrightarrow> e \<noteq> []" for b es e es'
    by (induction rd b es rule: read_response_header.induct)
      (subst (asm) (2) read_response_header.simps, auto simp: Let_def split: if_splits list.splits)
  show ?case
  proof (cases "read_response_header rd buf evs")
    case None
    then show ?thesis using "1.prems" by (simp add: read_final_header.simps [of rd n])
  next
    case (Some x)
    obtain res evs1 where x: "x = (res, evs1)" by fastforce
    show ?thesis
    proof (cases res)
      case (Inl err)
      then show ?thesis using "1.prems" Some x e
        by (auto simp: read_final_header.simps [of rd n] proxy_response0_def)
    next
      case (Inr buf')
      then show ?thesis
        using "1.prems" "1.IH" [OF Some x [symmetric] Inr] Some x h [of buf']
        by (auto simp: read_final_header.simps [of rd n buf] split: header_outcome.splits if_splits)
    qed
  qed
qed

lemma read_eof_body_bound:
  "read_eof_body rd m body evs = Some (Inr out, evs') \<Longrightarrow> length body \<le> m \<Longrightarrow> length out \<le> m"
proof (induction rd m body evs rule: read_eof_body.induct)
  case (1 rd m body evs)
  then show ?case
    by (subst (asm) (2) read_eof_body.simps) (auto simp: Let_def split: list.splits if_splits)
qed

lemma framed_result_safe:
  assumes "framed_result conn resp close e r rest = (resp', conn')" and "e \<noteq> []"
    and "px_error resp = []" and "px_body resp = []" and "body_ok r \<Longrightarrow> length (br_body r) \<le> m"
  shows "length (px_body resp') \<le> m \<and> px_status_code resp' = px_status_code resp \<and>
    (px_error resp' \<noteq> [] \<longrightarrow> px_body resp' = [] \<and> connection_close conn' \<and> read_buffer conn' = [])"
  using assms by (auto simp: framed_result_def proxy_failure_def split: if_splits)

lemma read_response_body_cases:
  assumes "read_response_body rd m head conn resp st close rest evs = Some ((resp', conn'), evs')"
  obtains (none) "px_body resp' = []" "px_error resp' = px_error resp" "px_status_code resp' = px_status_code resp"
    | (framed) e r b where "framed_result conn resp close e r b = (resp', conn')" "e \<noteq> []" "body_ok r \<Longrightarrow> length (br_body r) \<le> m"
    | (failed) e where "proxy_failure conn resp e = (resp', conn')"
    | (eof) b where "read_eof_body rd m rest evs = Some (Inr b, evs')" "length rest \<le> m" "resp' = resp\<lparr>px_body := b\<rparr>"
proof -
  note body = assms [unfolded read_response_body_def]
  consider (n) "head \<or> px_status_code resp = 204 \<or> px_status_code resp = 304"
    | (c) "\<not> (head \<or> px_status_code resp = 204 \<or> px_status_code resp = 304)" "is_chunked st"
    | (l) n where "\<not> (head \<or> px_status_code resp = 204 \<or> px_status_code resp = 304)" "\<not> is_chunked st" "content_length st = Some n"
    | (e) "\<not> (head \<or> px_status_code resp = 204 \<or> px_status_code resp = 304)" "\<not> is_chunked st" "content_length st = None"
    by blast
  then show thesis
  proof cases
    case n
    then show thesis using none body by auto
  next
    case c
    then obtain r b where r: "read_chunked_body rd rest m evs = Some (r, b, evs')"
      "framed_result conn resp close ''upstream_response_chunked_read_failed'' r b = (resp', conn')"
      using body by auto
    have "length (br_body r) \<le> m"
      using r(1) unfolding read_chunked_body_def by (rule read_chunked_loop_bound) simp
    then show thesis using framed r(2) by blast
  next
    case (l n)
    then obtain r b where "read_content_length_body rd rest n m evs = Some (r, b, evs')"
      "framed_result conn resp close ''upstream_response_body_read_failed'' r b = (resp', conn')"
      using body by auto
    then show thesis using framed content_length_success by blast
  next
    case e
    show thesis
    proof (cases "length rest > m")
      case True
      then show thesis using body e failed by auto
    next
      case False
      then obtain res where "read_eof_body rd m rest evs = Some (res, evs')"
        and "(case res of Inl e \<Rightarrow> proxy_failure conn resp e
          | Inr b \<Rightarrow> (resp\<lparr>px_body := b\<rparr>, conn\<lparr>read_buffer := [], connection_close := True\<rparr>)) = (resp', conn')"
        using body e by auto
      then show thesis using False failed eof by (cases res) auto
    qed
  qed
qed

lemma read_response_body_safe:
  assumes "read_response_body rd m head conn resp st close rest evs = Some ((resp', conn'), evs')"
    and "px_error resp = []" and "px_body resp = []"
  shows "length (px_body resp') \<le> m \<and> px_status_code resp' = px_status_code resp \<and>
    (px_error resp' \<noteq> [] \<longrightarrow> px_body resp' = [] \<and> connection_close conn' \<and> read_buffer conn' = [])"
  using assms(1)
proof (cases rule: read_response_body_cases)
  case framed
  then show ?thesis using framed_result_safe assms(2,3) by blast
next
  case failed
  then show ?thesis using assms(2,3) by (auto simp: proxy_failure_def)
qed (use assms(2) read_eof_body_bound in auto)

text \<open>
  Whatever an upstream sends and however its bytes are cut into reads, the body kept never exceeds the
  limit; a final response is never an informational one; and when reading failed, nothing of the
  body is kept and the connection is marked for closing with an empty buffer, so no later request can read
  the rest of a broken response.
\<close>

lemma proxy_response_safe:
  assumes "read_proxy_response rd max_body_size head conn evs = Some ((resp, conn'), evs')"
  shows "length (px_body resp) \<le> max_body_size \<and>
    (if px_error resp = [] then \<not> (100 \<le> px_status_code resp \<and> px_status_code resp < 200)
     else px_body resp = [] \<and> connection_close conn' \<and> read_buffer conn' = [])"
  using assms unfolding read_proxy_response_def
  by (auto simp: proxy_failure_def dest!: read_final_header_outcome read_response_body_safe
      split: option.splits header_outcome.splits)

definition demo_conn :: http_conn where
  "demo_conn = \<lparr>last_used_at = 0, connection_close = False, read_buffer = []\<rparr>"

definition demo_wire :: string where
  "demo_wire = ''HTTP/1.1 200 OK'' @ CRLF @ ''Content-Length: 2'' @ CRLF @ CRLF"

definition arrival :: "string \<Rightarrow> read_event" where
  "arrival s = \<lparr>ev_data = s, ev_ec = NoError, ev_timer = False\<rparr>"

text \<open>The read completions that deliver a text in two pieces.\<close>

definition demo_arrivals :: "read_event list" where
  "demo_arrivals = [arrival (take 9 demo_wire), arrival (drop 9 demo_wire @ ''hiHT'')]"

section \<open>A response is delivered whole, however it arrives\<close>

lemma read_response_header_complete:
  assumes "find_sub (CRLF @ CRLF) (h @ CRLF @ CRLF) = Some (length h)" and "length h + 4 \<le> kMaxHeaderSize"
  shows "all_ok rd evs \<Longrightarrow> stream rd buf evs = h @ CRLF @ CRLF @ rest \<Longrightarrow>
    \<exists>x evs'. read_response_header rd buf evs = Some (Inr (h @ CRLF @ CRLF @ x), evs') \<and>
      stream rd x evs' = rest \<and> all_ok rd evs'"
proof (induction evs arbitrary: buf)
  case Nil
  then have "buf = (h @ CRLF @ CRLF) @ rest" by (simp add: stream_def)
  moreover from this have "find_sub (CRLF @ CRLF) buf = Some (length h)"
    using find_sub_append [OF assms(1)] by simp
  ultimately show ?case by (simp add: read_response_header.simps stream_def)
next
  case (Cons ev evs)
  define d where "d = h @ CRLF @ CRLF"
  have d: "length d = length h + 4" by (simp add: d_def CRLF_def)
  define w where "w = concat (map (\<lambda>ev. io_data (rd ev)) (ev # evs))"
  have s: "buf @ w = d @ rest" using Cons.prems(2) by (simp add: stream_def w_def d_def)
  show ?case
  proof (cases "length d \<le> length buf")
    case True
    define x where "x = drop (length d) buf"
    have x: "buf = d @ x" "x @ w = rest"
      using arg_cong [OF s, of "take (length d)"] arg_cong [OF s, of "drop (length d)"] True
      by (auto simp: x_def) (metis append_take_drop_id)
    have "find_sub (CRLF @ CRLF) buf = Some (length h)"
      using find_sub_append [OF assms(1), of x] by (simp add: x(1) d_def)
    then have "read_response_header rd buf (ev # evs) = Some (Inr (h @ CRLF @ CRLF @ x), ev # evs)"
      by (simp add: read_response_header.simps [of rd buf]) (simp add: x(1) d_def)
    moreover have "stream rd x (ev # evs) = rest" using x(2) by (simp add: stream_def w_def)
    ultimately show ?thesis using Cons.prems(1) by blast
  next
    case False
    have "find_sub (CRLF @ CRLF) buf = None"
    proof (cases "find_sub (CRLF @ CRLF) buf")
      case (Some i)
      have "find_sub (CRLF @ CRLF) (d @ rest) = Some i" using find_sub_append [OF Some, of w] s by simp
      moreover have "find_sub (CRLF @ CRLF) (d @ rest) = Some (length h)"
        using find_sub_append [OF assms(1), of rest] by (simp add: d_def)
      ultimately have "length h + 4 \<le> length buf" using find_sub_Some_bound [OF Some] by (simp add: CRLF_def)
      then show ?thesis using False d by simp
    qed
    moreover have "stream rd (buf @ io_data (rd ev)) evs = h @ CRLF @ CRLF @ rest"
      using Cons.prems(2) by (simp add: stream_Cons)
    ultimately show ?thesis
      using Cons False d assms(2) by (simp add: read_response_header.simps [of rd buf])
  qed
qed

lemma response_header_append:
  assumes "find_sub (CRLF @ CRLF) (h @ CRLF @ CRLF) = Some (length h)"
    and "response_header (h @ CRLF @ CRLF) = Header_final resp st close []"
  shows "response_header (h @ CRLF @ CRLF @ x) = Header_final resp st close x"
proof -
  have f: "find_sub (CRLF @ CRLF) (h @ CRLF @ CRLF @ x) = Some (length h)"
    using find_sub_append [OF assms(1), of x] by simp
  have d: "drop (length h + 4) (h @ CRLF @ CRLF @ y) = y" for y by (simp add: CRLF_def)
  have "response_header (h @ CRLF @ CRLF @ y) =
      (case response_header (h @ CRLF @ CRLF) of
         Header_failed r e \<Rightarrow> Header_failed r e
       | Header_informational r _ \<Rightarrow> Header_informational r y
       | Header_final r s c _ \<Rightarrow> Header_final r s c y)"
    if "find_sub (CRLF @ CRLF) (h @ CRLF @ CRLF @ y) = Some (length h)" for y
    unfolding response_header_def that assms(1) Let_def
    using d [of y] by (simp split: option.split prod.split if_split)
  from this [OF f] show ?thesis by (simp add: assms(2))
qed

text \<open>
  An upstream response with a well-formed header block, a declared length within the limit and that many
  body bytes is delivered with exactly those bytes, for every way the network cuts it into reads; the bytes after it stay in the
  connection's buffer and stream, and the connection is reusable unless the response asked to close it.
\<close>

lemma proxy_response_delivered:
  assumes "all_ok rd evs" and "stream rd (read_buffer conn) evs = h @ CRLF @ CRLF @ body @ rest"
    and "find_sub (CRLF @ CRLF) (h @ CRLF @ CRLF) = Some (length h)" and "length h + 4 \<le> kMaxHeaderSize"
    and "response_header (h @ CRLF @ CRLF) = Header_final resp st close []"
    and "\<not> is_chunked st" and "content_length st = Some (length body)" and "length body \<le> max_body_size"
    and "px_status_code resp \<noteq> 204" and "px_status_code resp \<noteq> 304"
  shows "\<exists>conn' evs'. read_proxy_response rd max_body_size False conn evs =
      Some ((resp\<lparr>px_body := body\<rparr>, conn'), evs') \<and>
    connection_close conn' = close \<and> stream rd (read_buffer conn') evs' = rest"
proof -
  obtain x evs1 where h: "read_response_header rd (read_buffer conn) evs = Some (Inr (h @ CRLF @ CRLF @ x), evs1)"
    "stream rd x evs1 = body @ rest" "all_ok rd evs1"
    using read_response_header_complete [OF assms(3,4,1,2)] by blast
  have f: "read_final_header rd 0 (read_buffer conn) evs = Some (Header_final resp st close x, evs1)"
    using h(1) response_header_append [OF assms(3,5)] by (simp add: read_final_header.simps)
  obtain b' e' where b: "read_content_length_body rd x (length body) max_body_size evs1 =
      Some (\<lparr>br_status = Success, br_body = body, br_ec = NoError\<rparr>, b', e')" "stream rd b' e' = rest"
    using content_length_exact [OF assms(8) h(3), of x] h(2) by auto
  show ?thesis
    using f b assms(6,7,9,10)
    by (simp add: read_proxy_response_def read_response_body_def framed_result_def body_ok_def)
qed

section \<open>Gateway and upstream agree on the end of a request\<close>

lemma uniform_length_state:
  assumes "\<forall>(k, v) \<in> set ps. trim k = k \<and> \<not> header_iequals k ''transfer-encoding'' \<and>
      (header_iequals k ''content-length'' \<longrightarrow> parse_decimal_size v = Some n)"
  shows "let st = snd (parse_header_pairs ps) in
    \<not> request_framing_invalid st \<and> \<not> has_transfer_encoding st \<and> \<not> is_chunked st \<and>
    content_length st = (if \<exists>(k, v) \<in> set ps. header_iequals k ''content-length'' then Some n else None)"
  using assms
proof (induction ps rule: rev_induct)
  case Nil
  then show ?case by (simp add: parse_header_pairs_def header_parse_state0_def request_framing_invalid_def)
next
  case (snoc p ps)
  obtain k v where p: "p = (k, v)" by fastforce
  have "snd (parse_header_pairs (ps @ [p])) = update_header_state k v (snd (parse_header_pairs ps))"
    by (simp add: p parse_header_pairs_snoc parse_header_pair_into_def split: prod.split)
  then show ?case
    using snoc p
    by (auto simp: update_header_state_def Let_def request_framing_invalid_def split: if_splits)
qed

lemma parse_header_pairs_fst: "fst (parse_header_pairs hs) = map (\<lambda>(k, v). (trim k, trim v)) hs"
proof (induction hs rule: rev_induct)
  case (snoc h hs)
  then show ?case by (cases h) (auto simp: parse_header_pairs_snoc parse_header_pair_into_def split: prod.split)
qed (simp add: parse_header_pairs_def)

text \<open>Reading the header lines back, as the gateway reads an upstream's.\<close>

definition reread :: "string list \<Rightarrow> headers \<times> header_parse_state" where
  "reread lines = foldl parse_header_line_into ([], header_parse_state0) lines"

lemma reread_pairs:
  assumes "\<forall>(k, v) \<in> set ps. CHR '':'' \<notin> set k"
  shows "reread (map (\<lambda>(k, v). k @ '':'' @ v) ps) = parse_header_pairs ps"
proof -
  have "parse_header_line_into acc (k @ '':'' @ v) = parse_header_pair_into k v acc" if "CHR '':'' \<notin> set k" for k v acc
    using find_char_append_fresh [OF that, of v] by (simp add: parse_header_line_into_def)
  then have "foldl parse_header_line_into acc (map (\<lambda>(k, v). k @ '':'' @ v) ps) =
      foldl (\<lambda>acc (k, v). parse_header_pair_into k v acc) acc ps" for acc
    using assms by (induction ps arbitrary: acc) auto
  then show ?thesis by (simp add: reread_def parse_header_pairs_def)
qed

text \<open>The header fields of the forwarded request as pairs; the value keeps the blank after the colon.\<close>

definition forwarded_pairs :: "upstream_config \<Rightarrow> http_context \<Rightarrow> header_parse_state \<Rightarrow> bool \<Rightarrow> headers" where
  "forwarded_pairs cfg ctx st keep_alive_line =
     [(''Host'', '' '' @ up_host cfg @ '':'' @ dec_of_int (up_port cfg))] @
     (if is_chunked st then [(''Content-Length'', '' '' @ dec_of_nat (length (cx_body ctx)))] else []) @
     map (\<lambda>(k, v). (trim k, '' '' @ v)) (filter (forwarded (cx_headers ctx) st) (cx_headers ctx)) @
     (if keep_alive_line then [(''Connection'', '' keep-alive'')] else [])"

lemma tl_proxy_request_lines:
  "tl (proxy_request_lines method path cfg ctx st keep) =
     map (\<lambda>(k, v). k @ '':'' @ v) (forwarded_pairs cfg ctx st keep)"
  by (simp add: proxy_request_lines_def forwarded_pairs_def case_prod_beta)

lemma decimal_after_blank [simp]: "parse_decimal_size (CHR '' '' # v) = parse_decimal_size v"
proof -
  have "trim (CHR '' '' # v) = trim v" by (simp add: trim_def trim_left_def isspace_def)
  then show ?thesis by (metis parse_decimal_size_trim)
qed

text \<open>What an accepted header block gives for its trimmed fields.\<close>

lemma accepted_fields:
  assumes "parse_header_pairs raw = (hs, st)" and "\<not> request_framing_invalid st" and "(k, v) \<in> set hs"
  shows "trim k = k \<and>
    (header_iequals k ''content-length'' \<longrightarrow> parse_decimal_size v = content_length st \<and> content_length st \<noteq> None) \<and>
    (header_iequals k ''transfer-encoding'' \<longrightarrow> is_chunked st)"
proof -
  have sound: "framing_sound raw st" using accepted_framing_sound [of raw] assms(1,2) by simp
  have names: "\<not> request_framing_invalid (snd (parse_header_pairs ps)) \<Longrightarrow> (a, b) \<in> set ps \<Longrightarrow> trim a = a" for ps a b
    using accepted_names [of ps] by auto
  have hs: "hs = map (\<lambda>(k, v). (trim k, trim v)) raw" using parse_header_pairs_fst [of raw] assms(1) by simp
  then obtain a b where ab: "(a, b) \<in> set raw" "k = trim a" "v = trim b" using assms(3) by auto
  have "trim a = a" using names [OF _ ab(1)] assms(1,2) by simp
  then have r: "(k, b) \<in> set raw" "v = trim b" "trim k = k" using ab by simp_all
  have "header_iequals k ''content-length'' \<Longrightarrow> parse_decimal_size v = content_length st \<and> content_length st \<noteq> None"
  proof -
    assume cl: "header_iequals k ''content-length''"
    have "\<forall>(k, v) \<in> set raw. header_iequals k ''content-length'' \<longrightarrow>
        parse_decimal_size v \<noteq> None \<and> content_length st = parse_decimal_size v"
      using sound unfolding framing_sound_def by (elim conjE)
    from bspec [OF this r(1)] show ?thesis using cl by (simp add: r(2))
  qed
  moreover have "is_chunked st" if "header_iequals k ''transfer-encoding''"
  proof -
    have "filter (\<lambda>(k, v). header_iequals k ''transfer-encoding'') raw \<noteq> []"
      using that r(1) by (auto simp: filter_empty_conv)
    then show ?thesis using sound unfolding framing_sound_def by (simp split: if_splits)
  qed
  ultimately show ?thesis using r(3) by blast
qed

lemma chunked_has_field:
  assumes "parse_header_pairs raw = (hs, st)" and "\<not> request_framing_invalid st" and "is_chunked st"
  shows "list_ex (\<lambda>(k, _). header_iequals (trim k) ''transfer-encoding'') hs"
proof -
  have "framing_sound raw st" using accepted_framing_sound [of raw] assms(1,2) by simp
  then have "filter (\<lambda>(k, v). header_iequals k ''transfer-encoding'') raw \<noteq> []"
    using assms(3) unfolding framing_sound_def by auto
  moreover have "\<forall>(k, v) \<in> set raw. trim k = k" using accepted_names [of raw] assms(1,2) by simp
  moreover have "hs = map (\<lambda>(k, v). (trim k, trim v)) raw" using parse_header_pairs_fst [of raw] assms(1) by simp
  ultimately show ?thesis by (auto simp: filter_empty_conv list_ex_iff) force
qed

lemma length_has_field:
  assumes "parse_header_pairs raw = (hs, st)" and "\<not> request_framing_invalid st" and "content_length st \<noteq> None"
  shows "\<exists>(k, v) \<in> set hs. header_iequals k ''content-length''"
proof -
  have "framing_sound raw st" using accepted_framing_sound [of raw] assms(1,2) by simp
  then have "\<exists>(k, v) \<in> set raw. header_iequals k ''content-length''"
    using assms(3) unfolding framing_sound_def by auto
  moreover have "\<forall>(k, v) \<in> set raw. trim k = k" using accepted_names [of raw] assms(1,2) by simp
  moreover have "hs = map (\<lambda>(k, v). (trim k, trim v)) raw" using parse_header_pairs_fst [of raw] assms(1) by simp
  ultimately show ?thesis by force
qed

lemma te_names: "\<not> header_iequals ''Host'' ''transfer-encoding''" "\<not> header_iequals ''Content-Length'' ''transfer-encoding''"
  "\<not> header_iequals ''Connection'' ''transfer-encoding''" "\<not> header_iequals ''Host'' ''content-length''"
  "header_iequals ''Content-Length'' ''content-length''" "\<not> header_iequals ''Connection'' ''content-length''"
  "trim ''Host'' = ''Host''" "trim ''Content-Length'' = ''Content-Length''" "trim ''Connection'' = ''Connection''"
  by code_simp+

lemma length_not_filtered:
  assumes "\<not> contains_header_name (add_connection_tokens hs []) ''content-length''"
    and "header_iequals k ''content-length''"
  shows "\<not> contains_header_name (request_filtered hs) k"
proof -
  have "\<forall>m \<in> {''connection'', ''proxy-connection'', ''proxy-authenticate'', ''proxy-authorization'', ''te'', ''trailer'',
      ''transfer-encoding'', ''upgrade'', ''host'', ''accept-encoding'', ''expect''}. \<not> header_iequals m ''content-length''"
    by (simp add: header_iequals_def)
  then show ?thesis
    using assms unfolding request_filtered_def contains_header_name_iff set_add_connection_tokens
    by (auto simp: header_iequals_iff)
qed


text \<open>The body a session read under an accepted header block: the decoded chunks, the declared number of bytes, or nothing.\<close>

definition body_matches :: "header_parse_state \<Rightarrow> string \<Rightarrow> bool" where
  "body_matches st body \<longleftrightarrow> length body \<le> SIZE_MAX \<and>
     (is_chunked st \<or> content_length st = Some (length body) \<or> content_length st = None \<and> body = [])"

lemma forwarded_pairs_uniform:
  assumes "parse_header_pairs raw = (cx_headers ctx, st)" and "\<not> request_framing_invalid st"
    and "body_matches st (cx_body ctx)"
  shows "\<forall>(k, v) \<in> set (forwarded_pairs cfg ctx st keep). trim k = k \<and> \<not> header_iequals k ''transfer-encoding'' \<and>
    (header_iequals k ''content-length'' \<longrightarrow> parse_decimal_size v = Some (length (cx_body ctx)))"
proof -
  have copied: "trim (trim k) = trim k \<and> \<not> header_iequals (trim k) ''transfer-encoding'' \<and>
      (header_iequals (trim k) ''content-length'' \<longrightarrow> parse_decimal_size ('' '' @ v) = Some (length (cx_body ctx)))"
    if kv: "(k, v) \<in> set (cx_headers ctx)" "forwarded (cx_headers ctx) st (k, v)" for k v
  proof -
    note f = accepted_fields [OF assms(1,2) kv(1)]
    have te: "\<not> header_iequals k ''transfer-encoding''" using kv(2) f by (auto simp: forwarded_def Let_def)
    moreover have "content_length st = Some (length (cx_body ctx))" if cl: "header_iequals k ''content-length''"
    proof -
      have "\<not> is_chunked st"
        using kv(2) f cl te chunked_has_field [OF assms(1,2)] by (auto simp: forwarded_def Let_def)
      then show ?thesis using f cl assms(3) by (auto simp: body_matches_def)
    qed
    ultimately show ?thesis using f by simp
  qed
  have "parse_decimal_size (dec_of_nat (length (cx_body ctx))) = Some (length (cx_body ctx))"
    using assms(3) by (simp add: body_matches_def parse_decimal_size_dec_of_nat)
  then show ?thesis using copied te_names by (auto simp: forwarded_pairs_def)
qed

lemma forwarded_pairs_length:
  assumes "parse_header_pairs raw = (cx_headers ctx, st)" and "\<not> request_framing_invalid st"
    and "\<not> contains_header_name (add_connection_tokens (cx_headers ctx) []) ''content-length''"
    and "is_chunked st \<or> content_length st \<noteq> None"
  shows "\<exists>(k, v) \<in> set (forwarded_pairs cfg ctx st keep). header_iequals k ''content-length''"
proof (cases "is_chunked st")
  case True
  then show ?thesis using te_names by (auto simp: forwarded_pairs_def)
next
  case False
  then obtain k v where kv: "(k, v) \<in> set (cx_headers ctx)" "header_iequals k ''content-length''"
    using length_has_field [OF assms(1,2)] assms(4) by auto
  have "\<not> list_ex (\<lambda>(k, _). header_iequals (trim k) ''transfer-encoding'') (cx_headers ctx)"
    using accepted_fields [OF assms(1,2)] False by (fastforce simp: list_ex_iff)
  then have "forwarded (cx_headers ctx) st (k, v)"
    using kv accepted_fields [OF assms(1,2) kv(1)] length_not_filtered [OF assms(3)] False
    by (simp add: forwarded_def)
  then have "(trim k, '' '' @ v) \<in> set (forwarded_pairs cfg ctx st keep)"
    using kv(1) by (force simp: forwarded_pairs_def)
  then show ?thesis using kv accepted_fields [OF assms(1,2) kv(1)] by force
qed

lemma forwarded_length_source:
  assumes "parse_header_pairs raw = (cx_headers ctx, st)" and "\<not> request_framing_invalid st"
    and "(k, v) \<in> set (forwarded_pairs cfg ctx st keep)" and "header_iequals k ''content-length''"
  shows "is_chunked st \<or> content_length st \<noteq> None"
proof (cases "is_chunked st")
  case False
  then obtain v0 k0 where "(k0, v0) \<in> set (cx_headers ctx)" "k = trim k0"
    using assms(3,4) te_names by (auto simp: forwarded_pairs_def split: if_splits)
  then show ?thesis using accepted_fields [OF assms(1,2), of k0 v0] assms(4) by simp
qed simp

definition plain_text :: "string \<Rightarrow> bool" where
  "plain_text s \<longleftrightarrow> CR \<notin> set s \<and> LF \<notin> set s \<and> NUL \<notin> set s"

lemma plain_text_simps [simp]:
  "plain_text []" "plain_text (a @ b) \<longleftrightarrow> plain_text a \<and> plain_text b"
  "plain_text (c # b) \<longleftrightarrow> c \<noteq> CR \<and> c \<noteq> LF \<and> c \<noteq> NUL \<and> plain_text b"
  "plain_text (dec_of_nat n)" "plain_text (dec_of_int i)"
  using dec_of_nat_clean dec_of_int_clean by (auto simp: plain_text_def)

lemma plain_text_trim: "plain_text s \<Longrightarrow> plain_text (trim s)"
  using set_trim [of s] by (auto simp: plain_text_def)

lemma clean_line_iff: "clean_line l \<longleftrightarrow> l \<noteq> [] \<and> plain_text l"
  by (simp add: clean_line_def plain_text_def)

lemma proxy_header_clean_iff:
  "proxy_header_clean (k, v) \<longleftrightarrow> plain_text k \<and> CHR '':'' \<notin> set k \<and> plain_text v"
  by (auto simp: proxy_header_clean_def plain_text_def list_all_iff)

lemma proxy_lines_clean:
  assumes "list_all proxy_header_clean (cx_headers ctx)"
    and "plain_text method" and "plain_text path" and "plain_text (up_host cfg)"
    and "l \<in> set (proxy_request_lines method path cfg ctx st keep)"
  shows "clean_line l"
proof -
  consider (copied) k v where "(k, v) \<in> set (cx_headers ctx)" "l = trim k @ '': '' @ v"
    | (own) "l \<in> {method @ '' '' @ path @ '' HTTP/1.1'', ''Host: '' @ up_host cfg @ '':'' @ dec_of_int (up_port cfg),
        ''Content-Length: '' @ dec_of_nat (length (cx_body ctx)), ''Connection: keep-alive''}"
    using assms(5) by (auto simp: proxy_request_lines_def split: if_splits)
  then show ?thesis
  proof cases
    case copied
    then have "proxy_header_clean (k, v)" using assms(1) by (simp add: list_all_iff)
    then have "plain_text (trim k)" "plain_text v" by (simp_all add: proxy_header_clean_iff plain_text_trim)
    then show ?thesis unfolding copied(2) clean_line_iff by (simp add: CR_def LF_def NUL_def)
  next
    case own
    then show ?thesis using assms(2-4) unfolding clean_line_iff by (auto simp: CR_def LF_def NUL_def)
  qed
qed

lemma forwarded_pairs_no_colon:
  assumes "list_all proxy_header_clean (cx_headers ctx)" and "(k, v) \<in> set (forwarded_pairs cfg ctx st keep)"
  shows "CHR '':'' \<notin> set k"
proof -
  consider (copied) k0 v0 where "(k0, v0) \<in> set (cx_headers ctx)" "k = trim k0"
    | (own) "k \<in> {''Host'', ''Content-Length'', ''Connection''}"
    using assms(2) by (auto simp: forwarded_pairs_def split: if_splits)
  then show ?thesis
  proof cases
    case copied
    then have "proxy_header_clean (k0, v0)" using assms(1) by (simp add: list_all_iff)
    then show ?thesis using set_trim [of k0] by (auto simp: proxy_header_clean_iff copied(2))
  qed auto
qed

text \<open>
  C1. Take a request whose framing the session accepted, with the body it read, whose
  \<^verbatim>\<open>Connection\<close> field does not name \<^verbatim>\<open>content-length\<close>. If it is forwarded at all, what the upstream gets is a request line and header lines free of CR, LF
  and NUL, a blank line and the body; reading the header lines back finds no transfer coding, no framing error,
  and the length of exactly that body (none when the client declared none): both sides agree where the request ends.
\<close>

theorem forwarded_request_reframes:
  assumes "parse_header_pairs raw = (cx_headers ctx, st)" and "\<not> request_framing_invalid st"
    and "body_matches st (cx_body ctx)"
    and "\<not> contains_header_name (add_connection_tokens (cx_headers ctx) []) ''content-length''"
    and "plain_text method" and "plain_text path" and "plain_text (up_host cfg)"
    and "build_proxy_request method path cfg ctx st keep \<noteq> []"
  shows "\<exists>lines. build_proxy_request method path cfg ctx st keep =
      concat (map (\<lambda>l. l @ CRLF) lines) @ CRLF @ cx_body ctx \<and>
    (\<forall>l \<in> set lines. clean_line l) \<and>
    (let st' = snd (reread (tl lines)) in
       \<not> request_framing_invalid st' \<and> \<not> has_transfer_encoding st' \<and>
       content_length st' =
         (if is_chunked st \<or> content_length st \<noteq> None then Some (length (cx_body ctx)) else None))"
proof (intro exI conjI)
  let ?lines = "proxy_request_lines method path cfg ctx st keep"
  have clean: "list_all proxy_header_clean (cx_headers ctx)"
    using assms(8) by (auto simp: build_proxy_request_def split: if_splits)
  then show "build_proxy_request method path cfg ctx st keep = concat (map (\<lambda>l. l @ CRLF) ?lines) @ CRLF @ cx_body ctx"
    by (simp add: build_proxy_request_def)
  show "\<forall>l \<in> set ?lines. clean_line l" using proxy_lines_clean [OF clean assms(5-7)] by blast
  have len: "(\<exists>(k, v) \<in> set (forwarded_pairs cfg ctx st keep). header_iequals k ''content-length'') \<longleftrightarrow>
      is_chunked st \<or> content_length st \<noteq> None" (is "?ex \<longleftrightarrow> _")
  proof
    assume ?ex
    then show "is_chunked st \<or> content_length st \<noteq> None"
      using forwarded_length_source [OF assms(1,2)] by auto
  qed (rule forwarded_pairs_length [OF assms(1,2,4)])
  have "reread (tl ?lines) = parse_header_pairs (forwarded_pairs cfg ctx st keep)"
    unfolding tl_proxy_request_lines by (rule reread_pairs) (use forwarded_pairs_no_colon [OF clean] in auto)
  then show "let st' = snd (reread (tl ?lines)) in
       \<not> request_framing_invalid st' \<and> \<not> has_transfer_encoding st' \<and>
       content_length st' = (if is_chunked st \<or> content_length st \<noteq> None then Some (length (cx_body ctx)) else None)"
    using uniform_length_state [OF forwarded_pairs_uniform [OF assms(1-3), of cfg keep]] len
    by (simp add: Let_def)
qed

definition demo_up :: upstream_config where "demo_up = \<lparr>up_host = ''10.0.0.9'', up_port = 80\<rparr>"

definition demo_fields :: headers where
  "demo_fields = [(''Content-Length'', ''5''), (''Connection'', ''close''), (''X-A'', ''b'')]"

theorem forwarded_request_reframes_witness:
  "\<exists>lines. build_proxy_request ''POST'' ''/v1'' demo_up (demo_ctx\<lparr>cx_headers := demo_fields, cx_body := ''hello''\<rparr>)
        (snd (parse_header_pairs demo_fields)) False =
      concat (map (\<lambda>l. l @ CRLF) lines) @ CRLF @ ''hello'' \<and>
    content_length (snd (reread (tl lines))) = Some 5"
proof -
  let ?ctx = "demo_ctx\<lparr>cx_headers := demo_fields, cx_body := ''hello''\<rparr>"
  have p: "parse_header_pairs demo_fields = (cx_headers ?ctx, snd (parse_header_pairs demo_fields))" by code_simp
  have "\<not> request_framing_invalid (snd (parse_header_pairs demo_fields))" by code_simp
  moreover have "body_matches (snd (parse_header_pairs demo_fields)) (cx_body ?ctx)"
  proof -
    have "content_length (snd (parse_header_pairs demo_fields)) = Some 5" by code_simp
    then show ?thesis by (simp add: body_matches_def SIZE_MAX_def)
  qed
  moreover have "\<not> contains_header_name (add_connection_tokens (cx_headers ?ctx) []) ''content-length''" by code_simp
  moreover have "plain_text ''POST''" "plain_text ''/v1''" "plain_text (up_host demo_up)" by code_simp+
  moreover have "build_proxy_request ''POST'' ''/v1'' demo_up ?ctx (snd (parse_header_pairs demo_fields)) False \<noteq> []"
    by code_simp
  moreover have "content_length (snd (parse_header_pairs demo_fields)) = Some 5" by code_simp
  ultimately show ?thesis
    using forwarded_request_reframes [OF p, of "''POST''" "''/v1''" demo_up False] by (auto simp: Let_def)
qed

text \<open>
  The hypothesis on \<^verbatim>\<open>Connection\<close> is needed. A client that lists \<^verbatim>\<open>content-length\<close> there has its length
  dropped as a hop-by-hop field while its body is still sent: the upstream reads the body as the next request.
\<close>

lemma connection_token_drops_length:
  "let hs = [(''Connection'', ''content-length''), (''Content-Length'', ''5'')];
       st = snd (parse_header_pairs hs)
   in \<not> request_framing_invalid st \<and> content_length st = Some 5 \<and>
      build_proxy_request ''POST'' ''/v1'' demo_up (demo_ctx\<lparr>cx_headers := hs, cx_body := ''GET /''\<rparr>) st False =
        ''POST /v1 HTTP/1.1'' @ CRLF @ ''Host: 10.0.0.9:80'' @ CRLF @ CRLF @ ''GET /''"
  by code_simp

end
