(* ===== verification/Path_Normalize.thy ===== *)
theory Path_Normalize
  imports Prelude
begin

text \<open>
  Path normalisation, \<^verbatim>\<open>src/security/path_normalize.hpp\<close>: percent-decoding with its refusals,
  removal of dot segments and empty segments, and optional lower-casing. The security chain
  matches every rule against the result.
\<close>

record normalized_path =
  np_path :: string
  np_valid :: bool
  np_error :: string

definition np_fail :: "string \<Rightarrow> normalized_path" where
  "np_fail e = \<lparr>np_path = [], np_valid = False, np_error = e\<rparr>"

definition np_ok :: "string \<Rightarrow> normalized_path" where
  "np_ok p = \<lparr>np_path = p, np_valid = True, np_error = []\<rparr>"

definition is_hex_char :: "char \<Rightarrow> bool" where
  "is_hex_char c \<longleftrightarrow> isxdigit c"

definition hex_value :: "char \<Rightarrow> nat" where
  "hex_value c = (if isdigit c then code c - 48 else code (tolower c) - 97 + 10)"

text \<open>The loop over the bytes; the accumulator is \<^verbatim>\<open>result\<close>.\<close>

fun percent_decode_loop :: "string \<Rightarrow> string \<Rightarrow> normalized_path" where
  "percent_decode_loop result [] =
     (if CHR ''%'' \<in> set result then np_fail ''residual percent encoding'' else np_ok result)"
| "percent_decode_loop result (c # cs) =
     (if c = CHR ''%'' \<and> 2 \<le> length cs then
        let uc1 = cs ! 0; uc2 = cs ! 1 in
        if \<not> is_hex_char uc1 \<or> \<not> is_hex_char uc2 then np_fail ''invalid percent encoding''
        else
          let decoded = (char_of (hex_value uc1 * 16 + hex_value uc2) :: char) in
          if decoded = NUL \<or> decoded = CHR ''/'' \<or> decoded = BACKSLASH
          then np_fail ''unsafe encoded path separator or nul''
          else percent_decode_loop (result @ [decoded]) (drop 2 cs)
      else if c = NUL \<or> c = BACKSLASH then np_fail ''unsafe path character''
      else percent_decode_loop (result @ [c]) cs)"

definition percent_decode :: "string \<Rightarrow> normalized_path" where
  "percent_decode s = percent_decode_loop [] s"

text \<open>What the segment loop does with one nonempty piece; \<^verbatim>\<open>pop_back\<close> on an empty vector is skipped.\<close>

definition push_segment :: "string list \<Rightarrow> string \<Rightarrow> string list" where
  "push_segment segments seg =
     (if seg = ''.'' then segments
      else if seg = ''..'' then (if segments \<noteq> [] then butlast segments else segments)
      else segments @ [seg])"

definition path_segments :: "string \<Rightarrow> string list" where
  "path_segments decoded =
     foldl push_segment [] (filter (\<lambda>seg. seg \<noteq> []) (split_on (CHR ''/'') decoded))"

definition normalize_path :: "string \<Rightarrow> bool \<Rightarrow> normalized_path" where
  "normalize_path path_only case_sensitive =
     (let p = (case find_char (CHR ''?'') path_only of None \<Rightarrow> path_only | Some q \<Rightarrow> take q path_only);
          decoded_result = percent_decode p in
      if \<not> np_valid decoded_result then decoded_result
      else
        let decoded = np_path decoded_result in
        if decoded = [] then np_ok ''/''
        else
          let cased = map (\<lambda>seg. if case_sensitive then seg else map tolower seg)
                (path_segments decoded)
          in np_ok (CHR ''/'' # join_with (CHR ''/'') cased))"

section \<open>Decoding\<close>

definition safe_char :: "char \<Rightarrow> bool" where
  "safe_char c \<longleftrightarrow> c \<noteq> NUL \<and> c \<noteq> BACKSLASH \<and> c \<noteq> CHR ''%''"

lemma percent_decode_loop_safe:
  "np_valid (percent_decode_loop acc s) \<Longrightarrow> \<forall>c \<in> set acc. c \<noteq> NUL \<and> c \<noteq> BACKSLASH \<Longrightarrow>
     \<forall>c \<in> set (np_path (percent_decode_loop acc s)). safe_char c"
proof (induction acc s rule: percent_decode_loop.induct)
  case (1 acc)
  then show ?case by (auto simp: np_fail_def np_ok_def safe_char_def split: if_splits)
next
  case (2 acc c cs)
  then show ?case
    by (auto simp: np_fail_def Let_def split: if_splits)
qed

lemma percent_decode_safe:
  "np_valid (percent_decode s) \<Longrightarrow> \<forall>c \<in> set (np_path (percent_decode s)). safe_char c"
  unfolding percent_decode_def by (rule percent_decode_loop_safe) auto

lemma percent_decode_loop_id:
  "\<forall>c \<in> set s. safe_char c \<Longrightarrow> CHR ''%'' \<notin> set acc \<Longrightarrow> percent_decode_loop acc s = np_ok (acc @ s)"
proof (induction s arbitrary: acc)
  case Nil
  then show ?case by simp
next
  case (Cons a s)
  have "percent_decode_loop (acc @ [a]) s = np_ok ((acc @ [a]) @ s)"
    using Cons.prems by (intro Cons.IH) (auto simp: safe_char_def)
  with Cons.prems show ?case by (simp add: safe_char_def)
qed

lemma percent_decode_id: "\<forall>c \<in> set s. safe_char c \<Longrightarrow> percent_decode s = np_ok s"
  by (simp add: percent_decode_def percent_decode_loop_id)

section \<open>Segments\<close>

definition canonical_segment :: "string \<Rightarrow> bool" where
  "canonical_segment seg \<longleftrightarrow> seg \<noteq> [] \<and> seg \<noteq> ''.'' \<and> seg \<noteq> ''..'' \<and> CHR ''/'' \<notin> set seg \<and>
     list_all safe_char seg"

lemma push_segment_canonical:
  assumes "list_all canonical_segment acc"
    and "p \<noteq> []" and "CHR ''/'' \<notin> set p" and "list_all safe_char p"
  shows "list_all canonical_segment (push_segment acc p)"
proof -
  have "list_all canonical_segment (butlast acc)"
    using assms(1) by (auto simp: list_all_iff dest: in_set_butlastD)
  with assms show ?thesis
    by (simp add: push_segment_def) (simp add: canonical_segment_def)
qed

lemma foldl_push_canonical:
  "list_all canonical_segment acc \<Longrightarrow>
   list_all (\<lambda>s. s \<noteq> [] \<and> CHR ''/'' \<notin> set s \<and> list_all safe_char s) ps \<Longrightarrow>
   list_all canonical_segment (foldl push_segment acc ps)"
  by (induction ps arbitrary: acc) (simp_all add: push_segment_canonical)

lemma path_segments_canonical:
  assumes "\<forall>c \<in> set decoded. safe_char c"
  shows "list_all canonical_segment (path_segments decoded)"
proof -
  have "list_all (\<lambda>s. s \<noteq> [] \<and> CHR ''/'' \<notin> set s \<and> list_all safe_char s)
      (filter (\<lambda>seg. seg \<noteq> []) (split_on (CHR ''/'') decoded))"
    using assms split_on_piece [of _ "CHR ''/''" decoded] by (fastforce simp: list_all_iff)
  then show ?thesis unfolding path_segments_def by (intro foldl_push_canonical) simp_all
qed

lemma foldl_push_id:
  "\<forall>s \<in> set ps. canonical_segment s \<Longrightarrow> foldl push_segment acc ps = acc @ ps"
  by (induction ps arbitrary: acc) (auto simp: push_segment_def canonical_segment_def)

lemma path_segments_join:
  assumes "\<forall>s \<in> set segs. canonical_segment s"
  shows "path_segments (CHR ''/'' # join_with (CHR ''/'') segs) = segs"
proof (cases "segs = []")
  case True
  then show ?thesis by (simp add: path_segments_def)
next
  case False
  have "split_on (CHR ''/'') (join_with (CHR ''/'') segs) = segs"
    using assms False by (intro split_on_join) (auto simp: canonical_segment_def)
  moreover have "filter (\<lambda>s. s \<noteq> []) segs = segs"
    using assms by (intro filter_True) (auto simp: canonical_segment_def)
  ultimately show ?thesis
    using assms by (simp add: path_segments_def foldl_push_id)
qed

lemma map_tolower_nonletter:
  assumes "list_all (\<lambda>c. \<not> isupper c \<and> \<not> islower c) t"
  shows "map tolower s = t \<longleftrightarrow> s = t"
  using assms
proof (induction t arbitrary: s)
  case Nil
  show ?case by simp
next
  case (Cons c t)
  then show ?case by (cases s) (auto simp: tolower_eq_nonletter)
qed

lemma tolower_slash: "tolower c = CHR ''/'' \<longleftrightarrow> c = CHR ''/''"
  by (rule tolower_eq_nonletter) (simp_all add: isupper_def islower_def)

lemma safe_char_tolower [simp]: "safe_char (tolower c) \<longleftrightarrow> safe_char c"
proof -
  have "tolower c = d \<longleftrightarrow> c = d" if "d \<in> {NUL, BACKSLASH, CHR ''%''}" for d
    using that by (intro tolower_eq_nonletter)
      (auto simp: isupper_def islower_def NUL_def BACKSLASH_def)
  then show ?thesis by (auto simp: safe_char_def)
qed

lemma slash_in_lower [simp]: "CHR ''/'' \<in> tolower ` set s \<longleftrightarrow> CHR ''/'' \<in> set s"
  by (metis image_iff tolower_slash)

lemma canonical_segment_lower:
  "canonical_segment s \<Longrightarrow> canonical_segment (map tolower s)"
  by (simp add: canonical_segment_def map_tolower_nonletter isupper_def islower_def list_all_iff)

lemma safe_char_join:
  "\<forall>s \<in> set segs. list_all safe_char s \<Longrightarrow> list_all safe_char (join_with (CHR ''/'') segs)"
  by (induction "CHR ''/''" segs rule: join_with.induct)
     (auto simp: safe_char_def NUL_def BACKSLASH_def)

section \<open>Properties\<close>

text \<open>The segments of a valid result, in canonical form and in the case asked for.\<close>

lemma normalize_path_form:
  assumes "np_valid (normalize_path p cs)"
  obtains segs where "normalize_path p cs = np_ok (CHR ''/'' # join_with (CHR ''/'') segs)"
    "list_all canonical_segment segs" "\<not> cs \<longrightarrow> map (map tolower) segs = segs"
proof -
  define q where "q = (case find_char (CHR ''?'') p of None \<Rightarrow> p | Some i \<Rightarrow> take i p)"
  define d where "d = percent_decode q"
  have v: "np_valid d"
    using assms by (simp add: normalize_path_def Let_def q_def [symmetric] d_def split: if_splits)
  show thesis
  proof (cases "np_path d = []")
    case True
    with v have "normalize_path p cs = np_ok (CHR ''/'' # join_with (CHR ''/'') [])"
      by (simp add: normalize_path_def Let_def q_def [symmetric] d_def [symmetric])
    then show thesis by (rule that) simp_all
  next
    case False
    define segs where "segs = map (\<lambda>seg. if cs then seg else map tolower seg) (path_segments (np_path d))"
    have "normalize_path p cs = np_ok (CHR ''/'' # join_with (CHR ''/'') segs)"
      using v False by (simp add: normalize_path_def Let_def q_def [symmetric] d_def [symmetric] segs_def)
    moreover have "list_all canonical_segment (path_segments (np_path d))"
      using v unfolding d_def by (intro path_segments_canonical percent_decode_safe)
    then have "list_all canonical_segment segs"
      by (auto simp: segs_def list_all_iff canonical_segment_lower)
    moreover have "\<not> cs \<longrightarrow> map (map tolower) segs = segs" by (simp add: segs_def)
    ultimately show thesis by (rule that)
  qed
qed

text \<open>
  C3: a path that passes normalisation is absolute, has no empty
  segment and no \<^verbatim>\<open>.\<close> or \<^verbatim>\<open>..\<close> segment (so it cannot climb), and holds no NUL, backslash or
  percent sign; without case sensitivity it has no upper-case letter.
\<close>

theorem normalized_path_canonical:
  assumes "np_valid (normalize_path p case_sensitive)"
  shows "\<exists>segs. np_path (normalize_path p case_sensitive) = CHR ''/'' # join_with (CHR ''/'') segs \<and>
    list_all canonical_segment segs \<and>
    (case_sensitive \<or> list_all (\<lambda>s. list_all (\<lambda>c. \<not> isupper c) s) segs)"
proof -
  obtain segs where s: "normalize_path p case_sensitive = np_ok (CHR ''/'' # join_with (CHR ''/'') segs)"
    "list_all canonical_segment segs" "\<not> case_sensitive \<longrightarrow> map (map tolower) segs = segs"
    using normalize_path_form [OF assms] .
  have "list_all (\<lambda>s. list_all (\<lambda>c. \<not> isupper c) s) segs" if "map (map tolower) segs = segs"
  proof -
    have "list_all (\<lambda>s. list_all (\<lambda>c. \<not> isupper c) s) (map (map tolower) segs)"
      by (simp add: list_all_iff)
    then show ?thesis by (simp only: that)
  qed
  with s show ?thesis by (auto simp: np_ok_def)
qed

theorem normalized_path_canonical_witness:
  "\<exists>segs. np_path (normalize_path ''/Api//v1/%2e%2e/./Users?x=1'' False) =
      CHR ''/'' # join_with (CHR ''/'') segs \<and> list_all canonical_segment segs \<and>
    (False \<or> list_all (\<lambda>s. list_all (\<lambda>c. \<not> isupper c) s) segs)"
  by (rule normalized_path_canonical) code_simp

text \<open>
  normalising a normalised path changes nothing, so rules
  written in normalised form are matched literally. The one exception the code has is a path
  whose decoding produced a question mark, which a second pass would take for a query.
\<close>

lemma normalize_path_idempotent:
  assumes "np_valid (normalize_path p case_sensitive)"
    and "CHR ''?'' \<notin> set (np_path (normalize_path p case_sensitive))"
  shows "normalize_path (np_path (normalize_path p case_sensitive)) case_sensitive =
    normalize_path p case_sensitive"
proof -
  obtain segs where s: "normalize_path p case_sensitive = np_ok (CHR ''/'' # join_with (CHR ''/'') segs)"
    "list_all canonical_segment segs" "\<not> case_sensitive \<longrightarrow> map (map tolower) segs = segs"
    using normalize_path_form [OF assms(1)] .
  define q where "q = CHR ''/'' # join_with (CHR ''/'') segs"
  have "list_all safe_char (join_with (CHR ''/'') segs)"
    by (rule safe_char_join) (use s(2) in \<open>auto simp: list_all_iff canonical_segment_def\<close>)
  then have "percent_decode q = np_ok q"
    by (intro percent_decode_id) (auto simp: q_def list_all_iff safe_char_def NUL_def BACKSLASH_def)
  moreover have "find_char (CHR ''?'') q = None"
    using assms(2) by (simp add: find_char_None s(1) np_ok_def q_def)
  moreover have "path_segments q = segs"
    unfolding q_def by (rule path_segments_join) (use s(2) in \<open>simp add: list_all_iff\<close>)
  moreover have "map (\<lambda>seg. if case_sensitive then seg else map tolower seg) segs = segs"
    using s(3) by (cases case_sensitive) simp_all
  ultimately have "normalize_path q case_sensitive = np_ok q"
    by (simp add: normalize_path_def np_ok_def q_def)
  then show ?thesis by (simp add: s(1) q_def np_ok_def)
qed

end
