(* ===== verification/Client_Address.thy ===== *)
theory Client_Address
  imports Prelude
begin

unbundle bit_operations_syntax

text \<open>
  Client addresses: \<^verbatim>\<open>src/security/real_ip.hpp\<close> (normalisation of IPv4-mapped addresses and the
  \<^verbatim>\<open>X-Forwarded-For\<close> scan), \<^verbatim>\<open>src/security/cidr.hpp\<close> and \<^verbatim>\<open>src/security/ip_blacklist.hpp\<close>.

  Parsing and printing of address literals is asio's \<^verbatim>\<open>make_address\<close> and \<^verbatim>\<open>to_string\<close>, which
  call the operating system's \<^verbatim>\<open>inet_pton\<close> and \<^verbatim>\<open>inet_ntop\<close>: they are the parameter
  \<open>lib\<close> of the definitions. What the code relies on is \<open>addr_lib_ok\<close>: parsed addresses have
  4 or 16 bytes, and a printed IPv4 address parses back to itself.
\<close>

type_synonym byte = "8 word"

datatype address = V4 "byte list" | V6 "byte list"

record addr_lib =
  make_address :: "string \<Rightarrow> address option"
  v4_to_string :: "byte list \<Rightarrow> string"

fun address_wf :: "address \<Rightarrow> bool" where
  "address_wf (V4 b) = (length b = 4)"
| "address_wf (V6 b) = (length b = 16)"

definition addr_lib_ok :: "addr_lib \<Rightarrow> bool" where
  "addr_lib_ok lib \<longleftrightarrow>
     (\<forall>s a. make_address lib s = Some a \<longrightarrow> address_wf a) \<and>
     (\<forall>b. length b = 4 \<longrightarrow> make_address lib (v4_to_string lib b) = Some (V4 b))"

section \<open>Normalisation\<close>

definition v4_mapped_prefix :: "byte list" where
  "v4_mapped_prefix = replicate 10 0 @ [0xFF, 0xFF]"

definition is_v4_mapped :: "byte list \<Rightarrow> bool" where
  "is_v4_mapped b \<longleftrightarrow> take 12 b = v4_mapped_prefix"

text \<open>\<open>ni_addr\<close> is \<open>None\<close> when \<^verbatim>\<open>parse_ok\<close> is false.\<close>

record normalized_ip =
  ni_str :: string
  ni_addr :: "address option"

definition normalize_ip :: "addr_lib \<Rightarrow> string \<Rightarrow> normalized_ip" where
  "normalize_ip lib ip_str =
     (case make_address lib ip_str of
        None \<Rightarrow> \<lparr>ni_str = ip_str, ni_addr = None\<rparr>
      | Some (V6 bytes) \<Rightarrow>
          if is_v4_mapped bytes
          then \<lparr>ni_str = v4_to_string lib (drop 12 bytes), ni_addr = Some (V4 (drop 12 bytes))\<rparr>
          else \<lparr>ni_str = ip_str, ni_addr = Some (V6 bytes)\<rparr>
      | Some (V4 bytes) \<Rightarrow> \<lparr>ni_str = ip_str, ni_addr = Some (V4 bytes)\<rparr>)"

definition normalize_ip_str :: "addr_lib \<Rightarrow> string \<Rightarrow> string" where
  "normalize_ip_str lib s = ni_str (normalize_ip lib s)"

definition strip_ip_port :: "string \<Rightarrow> string" where
  "strip_ip_port s =
     (case (if length s > 2 \<and> hd s = CHR ''['' then find_char (CHR '']'') s else None) of
        Some e \<Rightarrow> take (e - 1) (drop 1 s)
      | None \<Rightarrow>
          (case rfind_char (CHR '':'') s of
             None \<Rightarrow> s
           | Some colon \<Rightarrow> if find_char (CHR '':'') s \<noteq> Some colon then s else take colon s))"

section \<open>Real client address\<close>

text \<open>The entries of the \<^verbatim>\<open>X-Forwarded-For\<close> header, in order.\<close>

definition xff_entries :: "string \<Rightarrow> string list" where
  "xff_entries xff_header =
     map strip_ip_port (filter (\<lambda>p. p \<noteq> []) (map trim (split_lt (CHR '','') xff_header)))"

definition is_trusted :: "addr_lib \<Rightarrow> string list \<Rightarrow> string \<Rightarrow> bool" where
  "is_trusted lib trusted_proxies ip \<longleftrightarrow> list_ex (\<lambda>tp. normalize_ip_str lib ip = tp) trusted_proxies"

text \<open>The scan from the right: the first entry that is not a trusted proxy.\<close>

definition scan_right :: "addr_lib \<Rightarrow> string list \<Rightarrow> string list \<Rightarrow> string option" where
  "scan_right lib trusted_proxies ips = find (\<lambda>ip. \<not> is_trusted lib trusted_proxies ip) (rev ips)"

text \<open>\<open>direct\<close> is the peer address of the socket, \<open>None\<close> when \<^verbatim>\<open>remote_endpoint()\<close> throws.\<close>

definition get_client_ip :: "addr_lib \<Rightarrow> string option \<Rightarrow> string \<Rightarrow> string list \<Rightarrow> string" where
  "get_client_ip lib direct xff_header trusted_proxies =
     (case direct of
        None \<Rightarrow> []
      | Some direct_ip \<Rightarrow>
          if \<not> is_trusted lib trusted_proxies direct_ip \<or> xff_header = [] then direct_ip
          else
            let ips = xff_entries xff_header in
            if ips = [] then direct_ip
            else (case scan_right lib trusted_proxies ips of
                    Some ip \<Rightarrow> ip
                  | None \<Rightarrow> direct_ip))"

section \<open>CIDR rules\<close>

record parsed_cidr =
  network :: "byte list"
  prefix_len :: nat

definition parse_cidr_rule :: "addr_lib \<Rightarrow> string \<Rightarrow> parsed_cidr option" where
  "parse_cidr_rule lib cidr =
     (case find_char (CHR ''/'') cidr of
        None \<Rightarrow> None
      | Some slash \<Rightarrow>
          (let ip_part = take slash cidr; prefix_part = drop (slash + 1) cidr in
           case stoi prefix_part of
             None \<Rightarrow> None
           | Some (plen, _) \<Rightarrow>
               (case make_address lib ip_part of
                  None \<Rightarrow> None
                | Some (V4 b) \<Rightarrow>
                    if plen < 0 \<or> plen > 32 then None
                    else Some \<lparr>network = v4_mapped_prefix @ b, prefix_len = nat (plen + 96)\<rparr>
                | Some (V6 b) \<Rightarrow>
                    if plen < 0 \<or> plen > 128 then None
                    else Some \<lparr>network = b, prefix_len = nat plen\<rparr>)))"

definition to_v6_bytes :: "address \<Rightarrow> byte list" where
  "to_v6_bytes a = (case a of V6 b \<Rightarrow> b | V4 b \<Rightarrow> v4_mapped_prefix @ b)"

definition cidr_mask :: "nat \<Rightarrow> byte" where
  "cidr_mask remaining = push_bit (8 - remaining) 0xFF"

definition match_bytes :: "byte list \<Rightarrow> byte list \<Rightarrow> nat \<Rightarrow> bool" where
  "match_bytes addr_bytes cidr_bytes plen \<longleftrightarrow>
     list_all (\<lambda>i. addr_bytes ! i = cidr_bytes ! i) [0..<plen div 8] \<and>
     (plen mod 8 \<noteq> 0 \<longrightarrow>
        and (addr_bytes ! (plen div 8)) (cidr_mask (plen mod 8)) =
        and (cidr_bytes ! (plen div 8)) (cidr_mask (plen mod 8)))"

definition match_cidr :: "addr_lib \<Rightarrow> string \<Rightarrow> parsed_cidr \<Rightarrow> bool" where
  "match_cidr lib ip rule =
     (case ni_addr (normalize_ip lib ip) of
        None \<Rightarrow> False
      | Some a \<Rightarrow> match_bytes (to_v6_bytes a) (network rule) (prefix_len rule))"

section \<open>Blacklist\<close>

record ip_blacklist =
  ib_exact :: "string set"
  ib_cidrs :: "parsed_cidr list"

definition ip_blacklist_add :: "addr_lib \<Rightarrow> ip_blacklist \<Rightarrow> string \<Rightarrow> ip_blacklist" where
  "ip_blacklist_add lib bl item =
     (if CHR ''/'' \<in> set item then
        (case parse_cidr_rule lib item of
           Some parsed \<Rightarrow> bl\<lparr>ib_cidrs := ib_cidrs bl @ [parsed]\<rparr>
         | None \<Rightarrow> bl)
      else bl\<lparr>ib_exact := insert (normalize_ip_str lib item) (ib_exact bl)\<rparr>)"

definition ip_blacklist_reload :: "addr_lib \<Rightarrow> string list \<Rightarrow> ip_blacklist" where
  "ip_blacklist_reload lib items =
     foldl (ip_blacklist_add lib) \<lparr>ib_exact = {}, ib_cidrs = []\<rparr> items"

definition ip_is_blocked :: "addr_lib \<Rightarrow> ip_blacklist \<Rightarrow> string \<Rightarrow> bool" where
  "ip_is_blocked lib bl ip =
     (let normalized = normalize_ip_str lib ip in
      normalized \<in> ib_exact bl \<or> list_ex (\<lambda>c. match_cidr lib normalized c) (ib_cidrs bl))"

section \<open>Prefix matching is agreement on the leading bits\<close>

definition byte_bits :: "byte \<Rightarrow> bool list" where
  "byte_bits b = map (\<lambda>i. bit b (7 - i)) [0..<8]"

definition address_bits :: "byte list \<Rightarrow> bool list" where
  "address_bits bs = concat (map byte_bits bs)"

lemma length_byte_bits [simp]: "length (byte_bits b) = 8"
  by (simp add: byte_bits_def)

lemma length_address_bits [simp]: "length (address_bits bs) = 8 * length bs"
  by (induction bs) (simp_all add: address_bits_def)

lemma take_byte_bits_iff:
  "r \<le> 8 \<Longrightarrow> take r (byte_bits x) = take r (byte_bits y) \<longleftrightarrow> (\<forall>i < r. bit x (7 - i) = bit y (7 - i))"
  by (auto simp: byte_bits_def list_eq_iff_nth_eq)

lemma byte_bits_inj [simp]: "byte_bits x = byte_bits y \<longleftrightarrow> x = y"
proof
  assume "byte_bits x = byte_bits y"
  then have *: "\<forall>i < 8. bit x (7 - i) = bit y (7 - i)"
    using take_byte_bits_iff [of 8 x y] by simp
  have "bit x n = bit y n" if "n < 8" for n
    using * [rule_format, of "7 - n"] that by simp
  then show "x = y" by (intro bit_word_eqI) simp
qed simp

lemma cidr_mask_iff:
  assumes "r < 8"
  shows "and x (cidr_mask r) = and y (cidr_mask r) \<longleftrightarrow> take r (byte_bits x) = take r (byte_bits y)"
proof -
  have m: "bit (cidr_mask r) n \<longleftrightarrow> 8 - r \<le> n \<and> n < 8" for n
  proof -
    have "cidr_mask r = push_bit (8 - r) (mask 8)"
      by (simp add: cidr_mask_def mask_eq_exp_minus_1)
    then show ?thesis unfolding \<open>cidr_mask r = push_bit (8 - r) (mask 8)\<close>
      by (subst bit_push_bit_iff) (use assms in \<open>auto simp: bit_mask_iff simp del: mask_numeral\<close>)
  qed
  have "and x (cidr_mask r) = and y (cidr_mask r) \<longleftrightarrow>
      (\<forall>n. 8 - r \<le> n \<and> n < 8 \<longrightarrow> bit x n = bit y n)"
    by (auto simp: bit_eq_iff bit_and_iff m)
  also have "\<dots> \<longleftrightarrow> (\<forall>i < r. bit x (7 - i) = bit y (7 - i))"
  proof safe
    fix i assume a: "\<forall>n. 8 - r \<le> n \<and> n < 8 \<longrightarrow> bit x n = bit y n" and "i < r"
    have "8 - r \<le> 7 - i \<and> 7 - i < 8" using \<open>i < r\<close> assms by arith
    { assume "bit x (7 - i)" then show "bit y (7 - i)" using a \<open>8 - r \<le> 7 - i \<and> 7 - i < 8\<close> by simp }
    { assume "bit y (7 - i)" then show "bit x (7 - i)" using a \<open>8 - r \<le> 7 - i \<and> 7 - i < 8\<close> by simp }
  next
    fix n assume a: "\<forall>i < r. bit x (7 - i) = bit y (7 - i)" and n: "8 - r \<le> n" "n < 8"
    { assume "bit x n" then show "bit y n" using a [rule_format, of "7 - n"] n assms by auto }
    { assume "bit y n" then show "bit x n" using a [rule_format, of "7 - n"] n assms by auto }
  qed
  also have "\<dots> \<longleftrightarrow> take r (byte_bits x) = take r (byte_bits y)"
    using assms by (simp add: take_byte_bits_iff)
  finally show ?thesis .
qed

lemma take_address_bits:
  assumes "q < length bs" and "r < 8"
  shows "take (8 * q + r) (address_bits bs) = address_bits (take q bs) @ take r (byte_bits (bs ! q))"
proof -
  have "bs = take q bs @ bs ! q # drop (Suc q) bs" using assms(1) by (rule id_take_nth_drop)
  then have "address_bits bs =
      address_bits (take q bs) @ byte_bits (bs ! q) @ address_bits (drop (Suc q) bs)"
    unfolding address_bits_def by (metis concat_append concat.simps(2) list.simps(9) map_append)
  then show ?thesis using assms by simp
qed

lemma address_bits_inj:
  "length a = length b \<Longrightarrow> address_bits a = address_bits b \<longleftrightarrow> a = b"
  by (induction a b rule: list_induct2) (auto simp: address_bits_def)

lemma match_bytes_is_prefix_agreement:
  assumes "length a = 16" and "length n = 16" and "plen \<le> 128"
  shows "match_bytes a n plen \<longleftrightarrow> take plen (address_bits a) = take plen (address_bits n)"
proof -
  define q where "q = plen div 8"
  define r where "r = plen mod 8"
  have p: "plen = 8 * q + r" and r: "r < 8" by (simp_all add: q_def r_def)
  have q: "q \<le> 16" using assms(3) by (simp add: q_def)
  have bytes: "list_all (\<lambda>i. a ! i = n ! i) [0..<q] \<longleftrightarrow> take q a = take q n"
    using q assms(1,2) by (auto simp: list_all_iff list_eq_iff_nth_eq)
  show ?thesis
  proof (cases "r = 0")
    case True
    have "take (8 * q) (address_bits x) = address_bits (take q x)" if "length x = 16" for x
    proof (cases "q < 16")
      case True
      then show ?thesis using take_address_bits [of q x 0] that by simp
    next
      case False
      with q that show ?thesis by simp
    qed
    then show ?thesis
      using True p bytes assms address_bits_inj [of "take q a" "take q n"]
      by (simp add: match_bytes_def q_def [symmetric] r_def [symmetric])
  next
    case False
    then have "q < 16" using p assms(3) by simp
    then have "take plen (address_bits a) = take plen (address_bits n) \<longleftrightarrow>
        take q a = take q n \<and> take r (byte_bits (a ! q)) = take r (byte_bits (n ! q))"
      using p r assms address_bits_inj [of "take q a" "take q n"] by (simp add: take_address_bits)
    then show ?thesis
      using False bytes cidr_mask_iff [OF r]
      by (simp add: match_bytes_def q_def [symmetric] r_def [symmetric])
  qed
qed

section \<open>Blocking is a property of the address, not of its spelling\<close>

lemma v4_mapped_prefix_append [simp]: "is_v4_mapped (v4_mapped_prefix @ b)"
  by (simp add: is_v4_mapped_def v4_mapped_prefix_def)

lemma length_v4_mapped_prefix [simp]: "length v4_mapped_prefix = 12"
  by (simp add: v4_mapped_prefix_def)

lemma normalize_ip_v4:
  "make_address lib s = Some (V4 b) \<Longrightarrow> normalize_ip lib s = \<lparr>ni_str = s, ni_addr = Some (V4 b)\<rparr>"
  by (simp add: normalize_ip_def)

lemma normalize_ip_mapped:
  assumes "make_address lib s = Some (V6 (v4_mapped_prefix @ b))"
  shows "normalize_ip lib s = \<lparr>ni_str = v4_to_string lib b, ni_addr = Some (V4 b)\<rparr>"
  using assms by (simp add: normalize_ip_def)

lemma ip_blacklist_reload_exact_aux:
  "ib_exact (foldl (ip_blacklist_add lib) bl items) =
     ib_exact bl \<union> normalize_ip_str lib ` {i \<in> set items. CHR ''/'' \<notin> set i}"
  by (induction items arbitrary: bl) (auto simp: ip_blacklist_add_def split: option.splits)

lemma ip_blacklist_reload_cidrs_aux:
  "ib_cidrs (foldl (ip_blacklist_add lib) bl items) =
     ib_cidrs bl @ List.map_filter (parse_cidr_rule lib) (filter (\<lambda>i. CHR ''/'' \<in> set i) items)"
  by (induction items arbitrary: bl)
    (auto simp: ip_blacklist_add_def map_filter_simps split: option.splits)

lemma set_map_filter_eq: "set (List.map_filter f xs) = {y. \<exists>x\<in>set xs. f x = Some y}"
  by (induction xs) (auto simp: map_filter_simps split: option.splits)

lemma parse_cidr_rule_wf:
  assumes "addr_lib_ok lib" and "parse_cidr_rule lib item = Some c"
  shows "length (network c) = 16" and "prefix_len c \<le> 128"
proof -
  have wf: "make_address lib s = Some a \<Longrightarrow> address_wf a" for s a
    using assms(1) by (simp add: addr_lib_ok_def)
  show "length (network c) = 16" and "prefix_len c \<le> 128"
    using assms(2)
    by (auto simp: parse_cidr_rule_def Let_def dest!: wf
        split: option.splits if_splits address.splits prod.splits)
qed

lemma normalize_ip_wf:
  assumes "addr_lib_ok lib" and "ni_addr (normalize_ip lib s) = Some a"
  shows "length (to_v6_bytes a) = 16"
proof -
  have wf: "make_address lib s = Some a \<Longrightarrow> address_wf a" for s a
    using assms(1) by (simp add: addr_lib_ok_def)
  show ?thesis
    using assms(2)
    by (auto simp: normalize_ip_def to_v6_bytes_def dest!: wf
        split: option.splits if_splits address.splits)
qed

lemma normalize_ip_normalized:
  assumes "addr_lib_ok lib"
  shows "ni_addr (normalize_ip lib (normalize_ip_str lib s)) = ni_addr (normalize_ip lib s)"
proof -
  have wf: "make_address lib s = Some (V6 b) \<Longrightarrow> length b = 16" for b
    using assms by (metis addr_lib_ok_def address_wf.simps(2))
  have print: "length b = 4 \<Longrightarrow> make_address lib (v4_to_string lib b) = Some (V4 b)" for b
    using assms by (simp add: addr_lib_ok_def)
  show ?thesis
    by (auto simp: normalize_ip_str_def normalize_ip_def wf print split: option.splits address.splits)
qed

text \<open>A concrete address library for the witnesses: four letters spell four bytes, with a prefix
  for the mapped form.\<close>

definition demo_lib :: addr_lib where
  "demo_lib = \<lparr>make_address = (\<lambda>s.
       if length s = 4 then Some (V4 (map (\<lambda>c. of_nat (code c)) s))
       else if length s = 5 then Some (V6 (v4_mapped_prefix @ map (\<lambda>c. of_nat (code c)) (tl s)))
       else None),
     v4_to_string = map (\<lambda>w. char_of (unat w))\<rparr>"

lemma demo_lib_ok: "addr_lib_ok demo_lib"
proof -
  have lt: "unat w < 256" for w :: byte
  proof -
    have "unat w < 2 ^ LENGTH(8)" by (rule unsigned_less)
    then show ?thesis by simp
  qed
  have "map ((\<lambda>c. of_nat (of_char c)) \<circ> (\<lambda>w. char_of (unat w) :: char)) b = b" for b :: "byte list"
    by (induction b) (simp_all add: lt)
  then show ?thesis by (auto simp: addr_lib_ok_def demo_lib_def split: if_splits)
qed

text \<open>
  The specification of a rule: an exact entry names the address; a prefix rule covers the addresses
  that agree with its network on the first \<open>prefix_len\<close> of the 128 bits.
\<close>

definition rule_covers :: "addr_lib \<Rightarrow> string \<Rightarrow> string \<Rightarrow> bool" where
  "rule_covers lib ip item =
     (if CHR ''/'' \<in> set item
      then (case (parse_cidr_rule lib item, ni_addr (normalize_ip lib ip)) of
              (Some c, Some a) \<Rightarrow>
                take (prefix_len c) (address_bits (to_v6_bytes a)) =
                take (prefix_len c) (address_bits (network c))
            | _ \<Rightarrow> False)
      else normalize_ip_str lib item = normalize_ip_str lib ip)"

text \<open>
  After a reload with a list of items, an address is blocked exactly when some item covers it:
  an exact item by equality of the normalised addresses, a prefix item by agreement on the leading
  bits of the 16-byte form (so an IPv4 rule also covers the IPv4-mapped IPv6 spelling of a client), and an
  item that does not parse covers nothing.
\<close>

lemma ip_is_blocked_iff:
  assumes "addr_lib_ok lib"
  shows "ip_is_blocked lib (ip_blacklist_reload lib items) ip \<longleftrightarrow> list_ex (rule_covers lib ip) items"
proof -
  have cidr: "match_cidr lib (normalize_ip_str lib ip) c \<longleftrightarrow> rule_covers lib ip i"
    if "CHR ''/'' \<in> set i" "parse_cidr_rule lib i = Some c" for i c
    using that parse_cidr_rule_wf [OF assms that(2)] normalize_ip_wf [OF assms, of ip]
    by (auto simp: match_cidr_def rule_covers_def normalize_ip_normalized [OF assms]
        match_bytes_is_prefix_agreement split: option.splits)
  have none: "\<not> rule_covers lib ip i"
    if "CHR ''/'' \<in> set i" "parse_cidr_rule lib i = None" for i
    using that by (simp add: rule_covers_def)
  have exact: "rule_covers lib ip i \<longleftrightarrow> normalize_ip_str lib i = normalize_ip_str lib ip"
    if "CHR ''/'' \<notin> set i" for i
    using that by (simp add: rule_covers_def)
  have "ip_is_blocked lib (ip_blacklist_reload lib items) ip \<longleftrightarrow>
      (\<exists>i\<in>set items. CHR ''/'' \<notin> set i \<and> normalize_ip_str lib i = normalize_ip_str lib ip) \<or>
      (\<exists>i\<in>set items. CHR ''/'' \<in> set i \<and>
         (\<exists>c. parse_cidr_rule lib i = Some c \<and> match_cidr lib (normalize_ip_str lib ip) c))"
    by (auto simp: ip_is_blocked_def ip_blacklist_reload_def ip_blacklist_reload_exact_aux
        ip_blacklist_reload_cidrs_aux list_ex_iff set_map_filter_eq image_iff Let_def)
  also have "\<dots> \<longleftrightarrow> (\<exists>i\<in>set items. rule_covers lib ip i)"
    using cidr none exact by (metis not_Some_eq)
  finally show ?thesis by (simp add: list_ex_iff)
qed

section \<open>The forwarded-for scan\<close>

lemma scan_right_snoc:
  "scan_right lib tps (ips @ [ip]) = (if is_trusted lib tps ip then scan_right lib tps ips else Some ip)"
  by (simp add: scan_right_def)

lemma split_lt_snoc:
  assumes "CHR '','' \<notin> set a" and "a \<noteq> []"
  shows "split_lt (CHR '','') (s @ CHR '','' # a) = split_lt (CHR '','') (s @ '','') @ [a]"
proof (induction "length s" arbitrary: s rule: less_induct)
  case less
  have a: "split_lt (CHR '','') a = [a]"
    using assms find_char_None [of "CHR '',''" a] by (simp add: split_lt.simps [of _ a])
  show ?case
  proof (cases "find_char (CHR '','') s")
    case None
    then have n: "CHR '','' \<notin> set s" by (simp add: find_char_None)
    then have "find_char (CHR '','') (s @ CHR '','' # r) = Some (length s)" for r
      by (rule find_char_append_fresh)
    then show ?thesis
      by (simp add: split_lt.simps [of _ "s @ CHR '','' # a"] split_lt.simps [of _ "s @ '',''"] a
          split_lt.simps [of _ "[]"])
  next
    case (Some i)
    then have i: "i < length s" by (simp add: find_char_Some)
    have "find_char (CHR '','') (s @ r) = Some i" for r
      using Some by (simp add: find_char_Some nth_append)
    then show ?thesis using i less [of "drop (Suc i) s"]
      by (simp add: split_lt.simps [of _ "s @ CHR '','' # a"] split_lt.simps [of _ "s @ '',''"])
  qed
qed



end
