(* ===== verification/Jwt_Auth.thy ===== *)
theory Jwt_Auth
  imports Access_Lists
begin

text \<open>
  Token verification, \<^verbatim>\<open>src/security/jwt_auth.hpp\<close>. Decoding, the HS256 verifier of the vendored jwt-cpp and the
  signature check of OpenSSL are the fields of the parameter \<open>lib\<close>; an exception of theirs is
  \<open>None\<close> or \<open>False\<close>. What the gateway checks itself is modelled: the header prefix, the
  choice of the algorithm, issuer, expiry, activation time, and the claims it passes on. Times are in the
  nanoseconds of the system clock.
\<close>

datatype claim_value = Claim_string string | Claim_int int | Claim_array "claim_value list" | Claim_other

record decoded_jwt =
  dj_header_base64 :: string
  dj_payload_base64 :: string
  dj_signature :: string
  dj_algorithm :: "string option"
  dj_issuer :: "string option"
  dj_subject :: "string option"
  dj_expires_at :: "int option"
  dj_not_before :: "int option"
  dj_claims :: "string \<rightharpoonup> claim_value"

record jwt_lib =
  jwt_decode :: "string \<Rightarrow> decoded_jwt option"
  hs256_verify :: "string \<Rightarrow> string \<Rightarrow> int \<Rightarrow> decoded_jwt \<Rightarrow> bool"
  rs256_verify :: "string \<Rightarrow> string \<Rightarrow> string \<Rightarrow> bool"
  pem_parses :: "string \<Rightarrow> bool"

record jwt_claims =
  jc_subject :: string
  jc_username :: string
  jc_roles :: "string list"
  jc_exp :: int
  jc_iat :: int
  jc_raw_token :: string

section \<open>Construction\<close>

record jwt_auth =
  ja_secret :: string
  ja_issuer :: string
  ja_algorithm :: string
  ja_public_key :: string

datatype jwt_error = Jwt_runtime_error string

definition jwt_auth_new :: "jwt_lib \<Rightarrow> string \<Rightarrow> string \<Rightarrow> string \<Rightarrow> string \<Rightarrow> jwt_error + jwt_auth" where
  "jwt_auth_new lib secret issuer algorithm public_key =
     (let ja = \<lparr>ja_secret = secret, ja_issuer = issuer, ja_algorithm = algorithm, ja_public_key = public_key\<rparr> in
      if algorithm = ''HS256'' then Inr ja
      else if algorithm = ''RS256'' then
        if public_key = [] then Inl (Jwt_runtime_error ''JWT: RS256 requires jwt_public_key'')
        else if \<not> pem_parses lib public_key
        then Inl (Jwt_runtime_error ''JWT: failed to parse RSA public key PEM'')
        else Inr ja
      else Inl (Jwt_runtime_error
        (''JWT: unsupported algorithm '' @ algorithm @ '', supported: HS256, RS256'')))"

section \<open>The header\<close>

definition extract_token :: "string \<Rightarrow> string option" where
  "extract_token auth_header =
     (if length auth_header < 7 then None
      else
        let header_trimmed = dropWhile isspace auth_header in
        if length header_trimmed < 7 then None
        else if map tolower (take 7 header_trimmed) \<noteq> map tolower ''Bearer '' then None
        else
          let token = trim (drop 7 header_trimmed) in
          if token = [] then None else Some token)"

section \<open>Verification\<close>

definition leeway :: int where "leeway = 60 * 10 ^ 9"

text \<open>\<open>False\<close> is an exception.\<close>

definition verify_registered_claims :: "int \<Rightarrow> jwt_auth \<Rightarrow> decoded_jwt \<Rightarrow> bool" where
  "verify_registered_claims now ja d =
     (case dj_issuer d of
        None \<Rightarrow> False
      | Some iss \<Rightarrow>
          if iss \<noteq> ja_issuer ja then False
          else (case dj_expires_at d of
                  None \<Rightarrow> False
                | Some exp \<Rightarrow>
                    if now > exp + leeway then False
                    else (case dj_not_before d of
                            None \<Rightarrow> True
                          | Some nbf \<Rightarrow> \<not> now + leeway < nbf)))"

definition claim_as_string :: "claim_value \<Rightarrow> string option" where
  "claim_as_string c = (case c of Claim_string s \<Rightarrow> Some s | _ \<Rightarrow> None)"

definition claim_as_integer :: "claim_value \<Rightarrow> int option" where
  "claim_as_integer c = (case c of Claim_int i \<Rightarrow> Some i | _ \<Rightarrow> None)"

definition claim_username :: "decoded_jwt \<Rightarrow> string option" where
  "claim_username d =
     (case dj_claims d ''username'' of
        Some c \<Rightarrow> claim_as_string c
      | None \<Rightarrow> (case dj_claims d ''name'' of Some c \<Rightarrow> claim_as_string c | None \<Rightarrow> Some []))"

definition role_strings :: "claim_value list \<Rightarrow> string list" where
  "role_strings rs = List.map_filter (\<lambda>r. case r of Claim_string s \<Rightarrow> Some s | _ \<Rightarrow> None) rs"

definition claim_roles :: "decoded_jwt \<Rightarrow> string list option" where
  "claim_roles d =
     (case (case dj_claims d ''roles'' of
              None \<Rightarrow> Some []
            | Some (Claim_array rs) \<Rightarrow> Some (role_strings rs)
            | Some _ \<Rightarrow> None) of
        None \<Rightarrow> None
      | Some rs \<Rightarrow>
          (case dj_claims d ''role'' of
             None \<Rightarrow> Some rs
           | Some c \<Rightarrow> map_option (\<lambda>r. rs @ [r]) (claim_as_string c)))"

definition claim_integer :: "decoded_jwt \<Rightarrow> string \<Rightarrow> int option" where
  "claim_integer d name = (case dj_claims d name of None \<Rightarrow> Some 0 | Some c \<Rightarrow> claim_as_integer c)"

definition extract_claims :: "string \<Rightarrow> decoded_jwt \<Rightarrow> jwt_claims option" where
  "extract_claims token d =
     Option.bind (dj_subject d) (\<lambda>sb.
     Option.bind (claim_username d) (\<lambda>un.
     Option.bind (claim_roles d) (\<lambda>rs.
     Option.bind (claim_integer d ''exp'') (\<lambda>exp.
     Option.bind (claim_integer d ''iat'') (\<lambda>iat.
     Some \<lparr>jc_subject = sb, jc_username = un, jc_roles = rs, jc_exp = exp, jc_iat = iat,
           jc_raw_token = token\<rparr>)))))"

definition signature_accepted :: "jwt_lib \<Rightarrow> int \<Rightarrow> jwt_auth \<Rightarrow> decoded_jwt \<Rightarrow> bool" where
  "signature_accepted lib now ja d =
     (if ja_algorithm ja = ''HS256'' then
        hs256_verify lib (ja_secret ja) (ja_issuer ja) now d \<and> verify_registered_claims now ja d
      else if ja_algorithm ja = ''RS256'' then
        rs256_verify lib (dj_header_base64 d @ ''.'' @ dj_payload_base64 d) (dj_signature d) (ja_public_key ja) \<and>
        dj_algorithm d = Some ''RS256'' \<and> verify_registered_claims now ja d
      else True)"

definition do_verify :: "jwt_lib \<Rightarrow> int \<Rightarrow> jwt_auth \<Rightarrow> string \<Rightarrow> jwt_claims option" where
  "do_verify lib now ja token =
     (case jwt_decode lib token of
        None \<Rightarrow> None
      | Some d \<Rightarrow> if signature_accepted lib now ja d then extract_claims token d else None)"

definition jwt_verify :: "jwt_lib \<Rightarrow> int \<Rightarrow> jwt_auth \<Rightarrow> string \<Rightarrow> jwt_claims option" where
  "jwt_verify lib now ja auth_header =
     (case extract_token auth_header of
        None \<Rightarrow> None
      | Some token \<Rightarrow> do_verify lib now ja token)"

section \<open>Facts\<close>

lemma extract_token_bearer:
  assumes "map tolower b = ''bearer ''" and "\<forall>c \<in> set ws. isspace c" and "trim rest \<noteq> []"
  shows "extract_token (ws @ b @ rest) = Some (trim rest)"
proof -
  have len: "length b = 7" using arg_cong [OF assms(1), of length] by simp
  have "b \<noteq> []" and hd: "tolower (hd b) = CHR ''b''"
    using assms(1) by (cases b; simp)+
  then have "\<not> isspace (hd b)"
    by (auto simp: isspace_def tolower_def isupper_def split: if_splits)
  then have "dropWhile isspace (b @ rest) = b @ rest" using \<open>b \<noteq> []\<close> by (cases b) auto
  then have d: "dropWhile isspace (ws @ b @ rest) = b @ rest"
    using assms(2) by (simp add: dropWhile_append2)
  have t: "map tolower ''Bearer '' = ''bearer ''" by code_simp
  have m: "map tolower (take 7 (b @ rest)) = map tolower ''Bearer ''"
    unfolding t using assms(1) len by simp
  show ?thesis unfolding extract_token_def d Let_def m using len assms(3) by simp
qed

lemma verify_registered_claims_iff:
  "verify_registered_claims now ja d \<longleftrightarrow>
     dj_issuer d = Some (ja_issuer ja) \<and>
     (\<exists>exp. dj_expires_at d = Some exp \<and> now \<le> exp + leeway) \<and>
     (\<forall>nbf. dj_not_before d = Some nbf \<longrightarrow> nbf \<le> now + leeway)"
  by (auto simp: verify_registered_claims_def split: option.splits)

text \<open>What acceptance of a token by a constructed verifier amounts to.\<close>

definition token_valid :: "jwt_lib \<Rightarrow> int \<Rightarrow> jwt_auth \<Rightarrow> decoded_jwt \<Rightarrow> bool" where
  "token_valid lib now ja d \<longleftrightarrow>
     dj_issuer d = Some (ja_issuer ja) \<and>
     (\<exists>exp. dj_expires_at d = Some exp \<and> now \<le> exp + leeway) \<and>
     (\<forall>nbf. dj_not_before d = Some nbf \<longrightarrow> nbf \<le> now + leeway) \<and>
     (if ja_algorithm ja = ''HS256'' then hs256_verify lib (ja_secret ja) (ja_issuer ja) now d
      else ja_algorithm ja = ''RS256'' \<and> dj_algorithm d = Some ''RS256'' \<and>
        rs256_verify lib (dj_header_base64 d @ ''.'' @ dj_payload_base64 d) (dj_signature d) (ja_public_key ja))"

lemma jwt_verify_valid:
  assumes "jwt_auth_new lib secret issuer algorithm public_key = Inr ja"
    and "jwt_verify lib now ja auth_header = Some claims"
  shows "\<exists>token d. extract_token auth_header = Some token \<and> jwt_decode lib token = Some d \<and>
    token_valid lib now ja d \<and> extract_claims token d = Some claims"
  using assms
  by (auto simp: jwt_auth_new_def jwt_verify_def do_verify_def signature_accepted_def token_valid_def Let_def
      verify_registered_claims_iff split: option.splits if_splits)

text \<open>A library in which every token decodes to one fixed body.\<close>

definition demo_jwt :: decoded_jwt where
  "demo_jwt = \<lparr>dj_header_base64 = ''h'', dj_payload_base64 = ''p'', dj_signature = ''s'',
     dj_algorithm = Some ''HS256'', dj_issuer = Some ''asio_owen'', dj_subject = Some ''alice'',
     dj_expires_at = Some 100, dj_not_before = None,
     dj_claims = [''roles'' \<mapsto> Claim_array [Claim_string ''admin''], ''exp'' \<mapsto> Claim_int 100]\<rparr>"

definition demo_jwt_lib :: jwt_lib where
  "demo_jwt_lib = \<lparr>jwt_decode = (\<lambda>_. Some demo_jwt), hs256_verify = (\<lambda>s _ _ _. s = ''key''),
     rs256_verify = (\<lambda>_ _ _. False), pem_parses = (\<lambda>_. False)\<rparr>"

definition demo_claims :: jwt_claims where
  "demo_claims = \<lparr>jc_subject = ''alice'', jc_username = [], jc_roles = [''admin''], jc_exp = 100, jc_iat = 0,
     jc_raw_token = ''tok''\<rparr>"

definition demo_auth :: jwt_auth where
  "demo_auth = \<lparr>ja_secret = ''key'', ja_issuer = ''asio_owen'', ja_algorithm = ''HS256'', ja_public_key = []\<rparr>"

lemma demo_auth_new: "jwt_auth_new demo_jwt_lib ''key'' ''asio_owen'' ''HS256'' [] = Inr demo_auth"
  by (simp add: jwt_auth_new_def demo_auth_def)

lemma demo_verify: "jwt_verify demo_jwt_lib 50 demo_auth ''bearer tok'' = Some demo_claims"
proof -
  have "extract_token ''bearer tok'' = Some ''tok''" by code_simp
  then show ?thesis
    by (simp add: jwt_verify_def do_verify_def demo_jwt_lib_def signature_accepted_def demo_auth_def
        verify_registered_claims_def demo_jwt_def leeway_def extract_claims_def claim_username_def claim_roles_def
        claim_integer_def claim_as_integer_def role_strings_def map_filter_simps demo_claims_def)
qed

end
