(* ===== verification/Rate_Limiter.thy ===== *)
theory Rate_Limiter
  imports Complex_Main Prelude "HOL-Library.AList"
begin

text \<open>
  The rate limiter, \<^verbatim>\<open>src/security/rate_limiter.hpp\<close>: token buckets, the sharded LRU store of buckets, the
  configuration and the four-dimensional check. The global bucket under concurrent access is in
  theory \<open>Rate_Global\<close>, the snapshot file in theory \<open>Rate_Snapshot\<close>.

  A finite \<^verbatim>\<open>double\<close> is a rational number; \<open>rnd\<close> is the rounding of IEEE arithmetic, applied
  after every operation. Times are milliseconds of the steady clock. An \<^verbatim>\<open>unordered_map\<close> is an
  association list whose order stands for the unspecified iteration order; \<open>hash\<close> is
  \<^verbatim>\<open>std::hash\<close>.
\<close>

type_synonym rounding = "rat \<Rightarrow> rat"

text \<open>What the code relies on of rounding: it is monotone and exact on values that are doubles.\<close>

definition rounding_ok :: "rounding \<Rightarrow> rat set \<Rightarrow> bool" where
  "rounding_ok rnd doubles \<longleftrightarrow> mono rnd \<and> (\<forall>x \<in> doubles. rnd x = x)"

section \<open>Token bucket\<close>

record decision =
  allowed :: bool
  retry_after_ms :: int

abbreviation admit :: decision where
  "admit \<equiv> \<lparr>allowed = True, retry_after_ms = 0\<rparr>"

record token_bucket =
  last_refill_ms :: int
  tokens :: rat

definition token_bucket0 :: token_bucket where
  "token_bucket0 = \<lparr>last_refill_ms = 0, tokens = 0\<rparr>"

definition refilled :: "rounding \<Rightarrow> token_bucket \<Rightarrow> rat \<Rightarrow> rat \<Rightarrow> int \<Rightarrow> rat" where
  "refilled rnd b rate burst now =
     min burst (rnd (tokens b + rnd (rnd (rnd (of_int (now - last_refill_ms b)) * rate) / 1000)))"

definition allow :: "rounding \<Rightarrow> int \<Rightarrow> token_bucket \<Rightarrow> rat \<Rightarrow> rat \<Rightarrow> decision \<times> token_bucket" where
  "allow rnd now b rate burst =
     (if rate \<le> 0 then (admit, b)
      else
        let t = refilled rnd b rate burst now in
        if t \<ge> 1 then (admit, \<lparr>last_refill_ms = now, tokens = rnd (t - 1)\<rparr>)
        else (\<lparr>allowed = False, retry_after_ms = \<lceil>rnd (rnd (rnd (1 - t) / rate) * 1000)\<rceil>\<rparr>,
              \<lparr>last_refill_ms = now, tokens = t\<rparr>))"

section \<open>Global bucket, one call at a time\<close>

record global_bucket =
  tokens_milli :: int
  g_last_refill_ms :: int

text \<open>\<^verbatim>\<open>static_cast<int64_t>\<close> of a double truncates towards zero.\<close>

definition trunc :: "rat \<Rightarrow> int" where
  "trunc x = (if x \<ge> 0 then \<lfloor>x\<rfloor> else \<lceil>x\<rceil>)"

definition check_global :: "rounding \<Rightarrow> int \<Rightarrow> global_bucket \<Rightarrow> rat \<Rightarrow> rat \<Rightarrow> decision \<times> global_bucket" where
  "check_global rnd now g rate burst =
     (if rate \<le> 0 then (admit, g)
      else
        let elapsed = now - g_last_refill_ms g;
            g1 = (if elapsed > 0
                  then \<lparr>tokens_milli = min (trunc (rnd (burst * 1000)))
                                          (tokens_milli g + trunc (rnd (rnd (of_int elapsed) * rate))),
                        g_last_refill_ms = now\<rparr>
                  else g);
            before = tokens_milli g1;
            g2 = g1\<lparr>tokens_milli := before - 1000\<rparr>
        in if before \<ge> 1000 then (admit, g2)
           else (\<lparr>allowed = False, retry_after_ms = \<lceil>rnd (1000 / rate)\<rceil>\<rparr>,
                 g2\<lparr>tokens_milli := tokens_milli g2 + 1000\<rparr>))"

section \<open>Configuration\<close>

record rate_limit_rule =
  rule_rate :: rat
  rule_burst :: rat

definition kShards :: nat where "kShards = 32"

record rl_config =
  ip_rps :: rat
  ip_burst :: rat
  global_rps :: rat
  max_buckets :: nat
  snapshot_interval_sec :: int
  snapshot_path :: string
  path_limits :: "string \<rightharpoonup> rate_limit_rule"
  path_prefix_limits :: "(string \<times> rate_limit_rule) list"
  service_limits :: "string \<rightharpoonup> rate_limit_rule"

definition rl_config0 :: rl_config where
  "rl_config0 = \<lparr>ip_rps = 100, ip_burst = 200, global_rps = 50000, max_buckets = 100000,
     snapshot_interval_sec = 30, snapshot_path = ''./rate_limit.bin'', path_limits = Map.empty,
     path_prefix_limits = [], service_limits = Map.empty\<rparr>"

definition normalize_config :: "rl_config \<Rightarrow> rl_config" where
  "normalize_config cfg =
     (let cfg1 = (if max_buckets cfg < kShards then cfg\<lparr>max_buckets := kShards\<rparr> else cfg) in
      cfg1\<lparr>path_prefix_limits := sort_key (\<lambda>(p, _). - int (length p)) (path_prefix_limits cfg1)\<rparr>)"

section \<open>Shards with least-recently-used eviction\<close>

text \<open>
  The iterators of \<^verbatim>\<open>lru_index\<close> point at the node of their key; the node is named by the key, so the
  index is the set of keys that have a node.
\<close>

record shard =
  buckets :: "(string \<times> token_bucket) list"
  lru_list :: "string list"
  lru_index :: "string set"

definition shard0 :: shard where
  "shard0 = \<lparr>buckets = [], lru_list = [], lru_index = {}\<rparr>"

definition lru_touch :: "shard \<Rightarrow> string \<Rightarrow> shard" where
  "lru_touch s key =
     (let l = (if key \<in> lru_index s then remove1 key (lru_list s) else lru_list s) in
      s\<lparr>lru_list := key # l, lru_index := insert key (lru_index s)\<rparr>)"

text \<open>\<open>None\<close> is the undefined \<^verbatim>\<open>back()\<close> of an empty list.\<close>

function evict_if_needed :: "nat \<Rightarrow> shard \<Rightarrow> shard option" where
  "evict_if_needed mx s =
     (if length (buckets s) \<le> mx then Some s
      else if lru_list s = [] then None
      else
        let lru_key = last (lru_list s) in
        evict_if_needed mx
          \<lparr>buckets = AList.delete lru_key (buckets s), lru_list = butlast (lru_list s),
           lru_index = lru_index s - {lru_key}\<rparr>)"
  by pat_completeness auto
termination
  by (relation "measure (\<lambda>(_, s). length (lru_list s))") (auto simp: length_greater_0_conv [symmetric] simp del: length_greater_0_conv)

declare evict_if_needed.simps [simp del]

text \<open>
  \<^verbatim>\<open>auto& bucket = s.buckets[key]\<close> inserts a fresh bucket when there is none and keeps a reference; the
  eviction runs before the reference is used. \<open>None\<close> is also the result when the reference has
  been invalidated.
\<close>

definition get_or_insert :: "string \<Rightarrow> (string \<times> token_bucket) list \<Rightarrow> (string \<times> token_bucket) list" where
  "get_or_insert key bs =
     (case map_of bs key of Some _ \<Rightarrow> bs | None \<Rightarrow> bs @ [(key, token_bucket0)])"

definition shard_check ::
  "rounding \<Rightarrow> int \<Rightarrow> nat \<Rightarrow> shard \<Rightarrow> string \<Rightarrow> rat \<Rightarrow> rat \<Rightarrow> (decision \<times> shard) option" where
  "shard_check rnd now mx s key rate burst =
     (let s1 = lru_touch (s\<lparr>buckets := get_or_insert key (buckets s)\<rparr>) key in
      case evict_if_needed mx s1 of
        None \<Rightarrow> None
      | Some s2 \<Rightarrow>
          (case map_of (buckets s2) key of
             None \<Rightarrow> None
           | Some bucket \<Rightarrow>
               let (d, b') = allow rnd now bucket rate (if burst > 0 then burst else rate) in
               Some (d, s2\<lparr>buckets := AList.update key b' (buckets s2)\<rparr>)))"

section \<open>The limiter\<close>

record limiter =
  lim_cfg :: rl_config
  max_per_shard :: nat
  shards :: "shard list"
  lim_global :: global_bucket
  persist_on_destroy :: bool

definition limiter_new :: "rl_config \<Rightarrow> bool \<Rightarrow> limiter" where
  "limiter_new cfg persist =
     (let c = normalize_config cfg in
      \<lparr>lim_cfg = c, max_per_shard = max_buckets c div kShards, shards = replicate kShards shard0,
       lim_global = \<lparr>tokens_milli = 0, g_last_refill_ms = 0\<rparr>, persist_on_destroy = persist\<rparr>)"

definition publish_config :: "limiter \<Rightarrow> rl_config \<Rightarrow> limiter" where
  "publish_config rl normalized =
     rl\<lparr>lim_cfg := normalized, max_per_shard := max_buckets normalized div kShards\<rparr>"

definition update_config :: "limiter \<Rightarrow> rl_config \<Rightarrow> limiter" where
  "update_config rl cfg = publish_config rl (normalize_config cfg)"

type_synonym hash = "string \<Rightarrow> nat"

definition rl_check ::
  "hash \<Rightarrow> rounding \<Rightarrow> int \<Rightarrow> limiter \<Rightarrow> string \<Rightarrow> rat \<Rightarrow> rat \<Rightarrow> (decision \<times> limiter) option" where
  "rl_check hash rnd now rl key rate burst =
     (if rate \<le> 0 then Some (admit, rl)
      else
        let i = hash key mod kShards in
        map_option (\<lambda>(d, s). (d, rl\<lparr>shards := (shards rl)[i := s]\<rparr>))
          (shard_check rnd now (max_per_shard rl) (shards rl ! i) key rate burst))"

definition path_rule :: "rl_config \<Rightarrow> string \<Rightarrow> (string \<times> rate_limit_rule) option" where
  "path_rule cfg path =
     (case path_limits cfg path of
        Some r \<Rightarrow> Some (path, r)
      | None \<Rightarrow> find (\<lambda>(prefix, _). starts_with prefix path) (path_prefix_limits cfg))"

definition check_path ::
  "hash \<Rightarrow> rounding \<Rightarrow> int \<Rightarrow> limiter \<Rightarrow> string \<Rightarrow> rl_config \<Rightarrow> (decision \<times> limiter) option" where
  "check_path hash rnd now rl path cfg =
     (case path_rule cfg path of
        Some (p, r) \<Rightarrow> rl_check hash rnd now rl (''path:'' @ p) (rule_rate r) (rule_burst r)
      | None \<Rightarrow> Some (admit, rl))"

definition check_service ::
  "hash \<Rightarrow> rounding \<Rightarrow> int \<Rightarrow> limiter \<Rightarrow> string \<Rightarrow> rl_config \<Rightarrow> (decision \<times> limiter) option" where
  "check_service hash rnd now rl service cfg =
     (case service_limits cfg service of
        Some r \<Rightarrow> rl_check hash rnd now rl (''svc:'' @ service) (rule_rate r) (rule_burst r)
      | None \<Rightarrow> Some (admit, rl))"

text \<open>All four dimensions are evaluated, whatever the first ones say.\<close>

definition check_all ::
  "hash \<Rightarrow> rounding \<Rightarrow> int \<Rightarrow> limiter \<Rightarrow> string \<Rightarrow> string \<Rightarrow> string \<Rightarrow> rl_config \<Rightarrow>
   (decision \<times> limiter) option" where
  "check_all hash rnd now rl ip path service cfg =
     Option.bind (rl_check hash rnd now rl ip (ip_rps cfg) (ip_burst cfg)) (\<lambda>(ip_d, l1).
     Option.bind (check_path hash rnd now l1 path cfg) (\<lambda>(path_d, l2).
     Option.bind (check_service hash rnd now l2 service cfg) (\<lambda>(svc_d, l3).
     let (global_d, g) = check_global rnd now (lim_global l3) (global_rps cfg) (global_rps cfg);
         l4 = l3\<lparr>lim_global := g\<rparr>
     in Some (if allowed ip_d \<and> allowed path_d \<and> allowed svc_d \<and> allowed global_d then (admit, l4)
              else (\<lparr>allowed = False,
                     retry_after_ms = max (retry_after_ms ip_d) (max (retry_after_ms path_d)
                       (max (retry_after_ms svc_d) (retry_after_ms global_d)))\<rparr>, l4)))))"

section \<open>Facts about one bucket\<close>

definition bucket_ok :: "rat \<Rightarrow> token_bucket \<Rightarrow> bool" where
  "bucket_ok burst b \<longleftrightarrow> 0 \<le> tokens b \<and> tokens b \<le> burst"

text \<open>
  Under any monotone rounding that is exact on 0 and on the burst, a bucket
  with \<open>0 \<le> tokens \<le> burst\<close> keeps these bounds over a call when the clock has not gone back: no debt
  builds up and no more than one burst is ever stored.
\<close>

lemma allow_bucket_invariant:
  assumes "rounding_ok rnd {0, burst}" and "bucket_ok burst b" and "last_refill_ms b \<le> now" and "0 \<le> burst"
  shows "bucket_ok burst (snd (allow rnd now b rate burst))"
proof (cases "rate \<le> 0")
  case True
  then show ?thesis using assms(2) by (simp add: allow_def)
next
  case False
  have r0: "0 \<le> rnd x" if "0 \<le> x" for x
    using assms(1) monoD [of rnd 0 x] that by (auto simp: rounding_ok_def)
  have rb: "rnd x \<le> burst" if "x \<le> burst" for x
    using assms(1) monoD [of rnd x burst] that by (auto simp: rounding_ok_def)
  have "0 \<le> refilled rnd b rate burst now"
    using assms(2-4) False by (auto simp: refilled_def bucket_ok_def intro!: r0 add_nonneg_nonneg mult_nonneg_nonneg divide_nonneg_nonneg)
  moreover have "refilled rnd b rate burst now \<le> burst" by (simp add: refilled_def)
  ultimately show ?thesis
    using False by (auto simp: allow_def Let_def bucket_ok_def intro: r0 rb)
qed

text \<open>In exact arithmetic one call spends at most what the refill and the store provide.\<close>

lemma allow_exact_spend:
  assumes "0 < rate" and "allow (\<lambda>x. x) now b rate burst = (d, b')"
  shows "tokens b' + (if allowed d then 1 else 0) \<le>
    tokens b + of_int (now - last_refill_ms b) * rate / 1000" and "last_refill_ms b' = now"
  using assms by (auto simp: allow_def refilled_def Let_def split: if_splits)

text \<open>The decisions of a sequence of calls on one bucket, at the given times.\<close>

fun allow_seq :: "rounding \<Rightarrow> int list \<Rightarrow> token_bucket \<Rightarrow> rat \<Rightarrow> rat \<Rightarrow> bool list \<times> token_bucket" where
  "allow_seq rnd [] b rate burst = ([], b)"
| "allow_seq rnd (now # nows) b rate burst =
     (let (d, b1) = allow rnd now b rate burst; (ds, b2) = allow_seq rnd nows b1 rate burst
      in (allowed d # ds, b2))"

lemma allow_seq_spend:
  assumes "0 < rate"
  shows "tokens (snd (allow_seq (\<lambda>x. x) nows b rate burst)) +
      of_nat (count_list (fst (allow_seq (\<lambda>x. x) nows b rate burst)) True) \<le>
    tokens b + of_int (last (last_refill_ms b # nows) - last_refill_ms b) * rate / 1000"
proof (induction nows arbitrary: b)
  case (Cons now nows)
  obtain d b1 where a: "allow (\<lambda>x. x) now b rate burst = (d, b1)" by fastforce
  obtain ds b2 where s: "allow_seq (\<lambda>x. x) nows b1 rate burst = (ds, b2)" by fastforce
  note step = allow_exact_spend [OF assms a]
  define l where "l = last (now # nows)"
  have ih: "tokens b2 + of_nat (count_list ds True) \<le> tokens b1 + of_int (l - now) * rate / 1000"
    using Cons.IH [of b1] s step(2) by (simp add: l_def)
  have "of_int (now - last_refill_ms b) * rate / 1000 + of_int (l - now) * rate / 1000 =
      of_int (l - last_refill_ms b) * rate / (1000 :: rat)"
    by (simp add: field_simps)
  with ih step(1) show ?case using a s by (auto simp: l_def)
qed simp

lemma allow_seq_tokens_nonneg:
  assumes "0 < rate" and "0 \<le> burst" and "bucket_ok burst b" and "sorted (last_refill_ms b # nows)"
  shows "0 \<le> tokens (snd (allow_seq (\<lambda>x. x) nows b rate burst))"
  using assms(3,4)
proof (induction nows arbitrary: b)
  case Nil
  then show ?case by (simp add: bucket_ok_def)
next
  case (Cons now nows)
  obtain d b1 where a: "allow (\<lambda>x. x) now b rate burst = (d, b1)" by fastforce
  have t: "0 \<le> refilled (\<lambda>x. x) b rate burst now" "refilled (\<lambda>x. x) b rate burst now \<le> burst"
    using Cons.prems assms(1,2) by (auto simp: refilled_def bucket_ok_def)
  have "bucket_ok burst b1"
    using a t assms(1) by (auto simp: allow_def bucket_ok_def Let_def split: if_splits)
  moreover have "last_refill_ms b1 = now" using allow_exact_spend(2) [OF assms(1) a] .
  ultimately have "0 \<le> tokens (snd (allow_seq (\<lambda>x. x) nows b1 rate burst))"
    using Cons.prems by (intro Cons.IH) auto
  then show ?case using a by (auto split: prod.splits)
qed



text \<open>
  The wait a rejected caller is told is enough: in exact arithmetic, a call that many
  milliseconds later on an otherwise untouched bucket is admitted, when the burst holds a token.
\<close>

lemma retry_after_suffices:
  assumes "1 \<le> burst" and "allow (\<lambda>x. x) now b rate burst = (d, b')" and "\<not> allowed d"
  shows "allowed (fst (allow (\<lambda>x. x) (now + retry_after_ms d) b' rate burst))"
proof -
  have rate: "0 < rate" using assms(2,3) by (auto simp: allow_def split: if_splits)
  define t where "t = refilled (\<lambda>x. x) b rate burst now"
  have d: "retry_after_ms d = \<lceil>(1 - t) / rate * 1000\<rceil>" "b' = \<lparr>last_refill_ms = now, tokens = t\<rparr>"
    using assms(2,3) by (auto simp: allow_def t_def Let_def split: if_splits)
  have "(1 - t) / rate * 1000 \<le> of_int (retry_after_ms d)" unfolding d by simp
  then have "1 - t \<le> of_int (retry_after_ms d) * rate / 1000" using rate by (simp add: field_simps)
  then have "1 \<le> refilled (\<lambda>x. x) b' rate burst (now + retry_after_ms d)"
    using assms(1) by (simp add: refilled_def d(2))
  then show ?thesis using rate by (simp add: allow_def Let_def)
qed

section \<open>The store is a least-recently-used cache\<close>

definition shard_wf :: "shard \<Rightarrow> bool" where
  "shard_wf s \<longleftrightarrow>
     distinct (map fst (buckets s)) \<and> distinct (lru_list s) \<and>
     set (lru_list s) = fst ` set (buckets s) \<and> lru_index s = set (lru_list s)"

lemma shard_wf_shard0 [simp]: "shard_wf shard0"
  by (simp add: shard_wf_def shard0_def)

lemma shard_wf_length: "shard_wf s \<Longrightarrow> length (lru_list s) = length (buckets s)"
  unfolding shard_wf_def by (metis distinct_card length_map list.set_map)

lemma fst_delete: "fst ` set (AList.delete k al) = fst ` set al - {k}"
  by (induction al) (auto simp: AList.delete_eq)

lemma shard_wf_evict_one:
  assumes "shard_wf s" and "lru_list s \<noteq> []"
  shows "shard_wf \<lparr>buckets = AList.delete (last (lru_list s)) (buckets s),
    lru_list = butlast (lru_list s), lru_index = lru_index s - {last (lru_list s)}\<rparr>"
proof -
  obtain ys y where l: "lru_list s = ys @ [y]"
    using assms(2) by (metis append_butlast_last_id)
  show ?thesis
    using assms(1) l by (auto simp: shard_wf_def fst_delete distinct_delete)
qed

lemma evict_if_needed_lru:
  assumes "shard_wf s"
  shows "\<exists>s'. evict_if_needed mx s = Some s' \<and> shard_wf s' \<and> length (buckets s') \<le> mx \<and>
    lru_list s' = take mx (lru_list s) \<and>
    (\<forall>k \<in> set (lru_list s'). map_of (buckets s') k = map_of (buckets s) k)"
  using assms
proof (induction mx s rule: evict_if_needed.induct)
  case (1 mx s)
  show ?case
  proof (cases "length (buckets s) \<le> mx")
    case True
    then show ?thesis using 1 shard_wf_length [of s] by (simp add: evict_if_needed.simps)
  next
    case False
    have ne: "lru_list s \<noteq> []" using False shard_wf_length [OF 1(2)] by auto
    define s1 where "s1 = \<lparr>buckets = AList.delete (last (lru_list s)) (buckets s),
      lru_list = butlast (lru_list s), lru_index = lru_index s - {last (lru_list s)}\<rparr>"
    have wf1: "shard_wf s1" unfolding s1_def by (rule shard_wf_evict_one [OF 1(2) ne])
    have step: "evict_if_needed mx s = evict_if_needed mx s1"
      using False ne by (simp add: evict_if_needed.simps [of mx s] s1_def Let_def)
    obtain s' where s': "evict_if_needed mx s1 = Some s'" "shard_wf s'" "length (buckets s') \<le> mx"
      "lru_list s' = take mx (lru_list s1)"
      "\<forall>k \<in> set (lru_list s'). map_of (buckets s') k = map_of (buckets s1) k"
      using 1(1) [OF False ne refl] wf1 unfolding s1_def [symmetric] by blast
    have "take mx (lru_list s1) = take mx (lru_list s)"
      using False shard_wf_length [OF 1(2)] by (auto simp: s1_def butlast_conv_take min_def)
    moreover have "map_of (buckets s1) k = map_of (buckets s) k" if "k \<in> set (lru_list s1)" for k
    proof -
      have "k \<noteq> last (lru_list s)"
        using that 1(2) ne by (auto simp: s1_def shard_wf_def dest: in_set_butlastD)
           (metis append_butlast_last_id distinct_append disjoint_iff list.set_intros(1))
      then show ?thesis by (simp add: s1_def delete_conv')
    qed
    moreover have "set (lru_list s') \<subseteq> set (lru_list s1)" using s'(4) by (simp add: set_take_subset)
    ultimately show ?thesis using s' step by auto
  qed
qed

lemma touched_wf:
  fixes key :: string
  assumes "shard_wf s"
  defines "s1 \<equiv> lru_touch (s\<lparr>buckets := get_or_insert key (buckets s)\<rparr>) key"
  shows "shard_wf s1" and "lru_list s1 = key # remove1 key (lru_list s)"
    and "map_of (buckets s1) key = Some (case map_of (buckets s) key of Some b \<Rightarrow> b | None \<Rightarrow> token_bucket0)"
proof -
  have k: "key \<in> set (lru_list s) \<longleftrightarrow> map_of (buckets s) key \<noteq> None"
    using assms(1) by (auto simp: shard_wf_def map_of_eq_None_iff)
  have l: "lru_list s1 = key # remove1 key (lru_list s)" and b: "buckets s1 = get_or_insert key (buckets s)"
    and i: "lru_index s1 = insert key (lru_index s)"
    using assms(1) by (auto simp: s1_def lru_touch_def Let_def shard_wf_def remove1_idem)
  show "lru_list s1 = key # remove1 key (lru_list s)" by (rule l)
  show "map_of (buckets s1) key = Some (case map_of (buckets s) key of Some b \<Rightarrow> b | None \<Rightarrow> token_bucket0)"
    by (simp add: b get_or_insert_def map_add_def split: option.splits)
  have "fst ` set (get_or_insert key (buckets s)) = insert key (fst ` set (buckets s))"
    by (force simp: get_or_insert_def dest: map_of_SomeD split: option.splits)
  moreover have "distinct (map fst (get_or_insert key (buckets s)))"
    using assms(1) by (auto simp: get_or_insert_def shard_wf_def map_of_eq_None_iff split: option.splits)
  ultimately show "shard_wf s1"
    using assms(1) by (auto simp: shard_wf_def l b i)
qed

lemma shard_check_effect:
  fixes key :: string
  assumes "shard_wf s" and "1 \<le> mx"
  defines "old \<equiv> (case map_of (buckets s) key of Some b \<Rightarrow> b | None \<Rightarrow> token_bucket0)"
  shows "\<exists>d b' s'. allow rnd now old rate (if burst > 0 then burst else rate) = (d, b') \<and>
    shard_check rnd now mx s key rate burst = Some (d, s') \<and> shard_wf s' \<and>
    length (buckets s') \<le> mx \<and> lru_list s' = take mx (key # remove1 key (lru_list s)) \<and>
    (\<forall>k \<in> set (lru_list s'). map_of (buckets s') k = (if k = key then Some b' else map_of (buckets s) k))"
proof -
  define s1 where "s1 = lru_touch (s\<lparr>buckets := get_or_insert key (buckets s)\<rparr>) key"
  note t = touched_wf [OF assms(1), of key, folded s1_def]
  obtain s2 where s2: "evict_if_needed mx s1 = Some s2" "shard_wf s2" "length (buckets s2) \<le> mx"
    "lru_list s2 = take mx (lru_list s1)"
    "\<forall>k \<in> set (lru_list s2). map_of (buckets s2) k = map_of (buckets s1) k"
    using evict_if_needed_lru [OF t(1)] by blast
  have key: "key \<in> set (lru_list s2)" using s2(4) t(2) assms(2) by (cases mx) auto
  then have bk: "map_of (buckets s2) key = Some old" using s2(5) t(3) by (simp add: old_def)
  obtain d b' where a: "allow rnd now old rate (if burst > 0 then burst else rate) = (d, b')" by fastforce
  define s' where "s' = s2\<lparr>buckets := AList.update key b' (buckets s2)\<rparr>"
  have mem: "key \<in> fst ` set (buckets s2)" using key s2(2) by (simp add: shard_wf_def)
  have keys: "map fst (AList.update key b' (buckets s2)) = map fst (buckets s2)"
    using mem by (simp add: update_keys)
  then have len: "length (AList.update key b' (buckets s2)) = length (buckets s2)" by (metis length_map)
  have "fst ` set (AList.update key b' (buckets s2)) = fst ` set (buckets s2)"
    using keys by (metis list.set_map)
  then have "shard_wf s'" using s2(2) keys by (simp add: s'_def shard_wf_def)
  moreover have "shard_check rnd now mx s key rate burst = Some (d, s')"
    unfolding shard_check_def s1_def [symmetric] Let_def by (simp add: s2(1) bk a s'_def)
  moreover have "map_of (buckets s1) k = map_of (buckets s) k" if "k \<noteq> key" for k
    using that by (auto simp: s1_def lru_touch_def get_or_insert_def Let_def map_add_def split: option.splits)
  then have "\<forall>k \<in> set (lru_list s'). map_of (buckets s') k = (if k = key then Some b' else map_of (buckets s) k)"
    using s2(5) by (simp add: s'_def update_conv')
  ultimately show ?thesis using s2(3,4) t(2) len a by (auto simp: s'_def)
qed

lemma shard_check_total:
  assumes "shard_wf s" and "1 \<le> mx"
  shows "\<exists>d s'. shard_check rnd now mx s key rate burst = Some (d, s') \<and> shard_wf s'"
  using shard_check_effect [OF assms] by blast

text \<open>The specification: buckets in order of last use. An access moves its key to the front, with a fresh bucket if there was none,
  and the cache keeps the first \<open>mx\<close>.\<close>

definition lru_access ::
  "rounding \<Rightarrow> int \<Rightarrow> nat \<Rightarrow> (string \<times> token_bucket) list \<Rightarrow> string \<Rightarrow> rat \<Rightarrow> rat \<Rightarrow> decision \<times> (string \<times> token_bucket) list" where
  "lru_access rnd now mx cache key rate burst =
     (let old = (case map_of cache key of Some b \<Rightarrow> b | None \<Rightarrow> token_bucket0);
          (d, b') = allow rnd now old rate (if burst > 0 then burst else rate)
      in (d, take mx ((key, b') # AList.delete key cache)))"

definition cache_of :: "shard \<Rightarrow> (string \<times> token_bucket) list" where
  "cache_of s = map (\<lambda>k. (k, the (map_of (buckets s) k))) (lru_list s)"

lemma map_of_cache_of: "shard_wf s \<Longrightarrow> map_of (cache_of s) k = map_of (buckets s) k"
proof -
  assume wf: "shard_wf s"
  have "map_of (map (\<lambda>k. (k, f k)) ks) k = (if k \<in> set ks then Some (f k) else None)" for f :: "string \<Rightarrow> token_bucket" and ks
    by (induction ks) auto
  moreover have "k \<in> set (lru_list s) \<longleftrightarrow> map_of (buckets s) k \<noteq> None"
    using wf by (simp add: shard_wf_def map_of_eq_None_iff)
  ultimately show ?thesis by (auto simp: cache_of_def)
qed

text \<open>
  C7. The hash map, the list and the index of a shard together implement a least-recently-used cache of token
  buckets: on a well-formed shard with room for one bucket a check never reaches the undefined \<^verbatim>\<open>back()\<close> of an
  empty list nor uses the bucket reference after its eviction, gives the decision of the abstract cache, and leaves a well-formed shard whose
  contents are those of the abstract cache, at most \<^verbatim>\<open>max_buckets_per_shard\<close> of them.
\<close>

theorem shard_check_is_lru_cache:
  assumes "shard_wf s" and "1 \<le> mx"
  shows "\<exists>d s'. shard_check rnd now mx s key rate burst = Some (d, s') \<and> shard_wf s' \<and> length (buckets s') \<le> mx \<and>
    (d, cache_of s') = lru_access rnd now mx (cache_of s) key rate burst"
proof -
  define old where "old = (case map_of (buckets s) key of Some b \<Rightarrow> b | None \<Rightarrow> token_bucket0)"
  obtain d b' s' where e: "allow rnd now old rate (if burst > 0 then burst else rate) = (d, b')"
    "shard_check rnd now mx s key rate burst = Some (d, s')" "shard_wf s'" "length (buckets s') \<le> mx"
    "lru_list s' = take mx (key # remove1 key (lru_list s))"
    "\<forall>k \<in> set (lru_list s'). map_of (buckets s') k = (if k = key then Some b' else map_of (buckets s) k)"
    using shard_check_effect [OF assms, of rnd now key rate burst, folded old_def] by blast
  have "cache_of s' = map (\<lambda>k. (k, if k = key then b' else the (map_of (buckets s) k))) (lru_list s')"
    using e(6) by (simp add: cache_of_def)
  also have "\<dots> = take mx (map (\<lambda>k. (k, if k = key then b' else the (map_of (buckets s) k))) (key # remove1 key (lru_list s)))"
    by (simp only: e(5) take_map)
  also have "map (\<lambda>k. (k, if k = key then b' else the (map_of (buckets s) k))) (key # remove1 key (lru_list s)) =
      (key, b') # AList.delete key (cache_of s)"
  proof -
    have "distinct (lru_list s)" using assms(1) by (simp add: shard_wf_def)
    then have "remove1 key (lru_list s) = filter (\<lambda>k. k \<noteq> key) (lru_list s)"
      by (simp add: distinct_remove1_removeAll removeAll_filter_not_eq neq_commute)
    moreover have "filter ((\<noteq>) key) (lru_list s) = filter (\<lambda>k. k \<noteq> key) (lru_list s)" by (metis neq_commute)
    ultimately show ?thesis by (auto simp: cache_of_def AList.delete_eq filter_map o_def intro!: map_cong)
  qed
  finally have "(d, cache_of s') = lru_access rnd now mx (cache_of s) key rate burst"
    using e(1) by (simp add: lru_access_def map_of_cache_of [OF assms(1)] old_def)
  then show ?thesis using e(2-4) by blast
qed

definition sample_shard :: shard where
  "sample_shard = \<lparr>buckets = [(''a'', token_bucket0), (''b'', token_bucket0)], lru_list = [''b'', ''a''],
     lru_index = {''a'', ''b''}\<rparr>"

theorem shard_check_is_lru_cache_witness:
  "\<exists>d s'. shard_check (\<lambda>x. x) 5 2 sample_shard ''c'' 1 1 = Some (d, s') \<and> shard_wf s' \<and> length (buckets s') \<le> 2 \<and>
    (d, cache_of s') = lru_access (\<lambda>x. x) 5 2 (cache_of sample_shard) ''c'' 1 1"
proof -
  have "shard_wf sample_shard" by (simp add: sample_shard_def shard_wf_def insert_commute)
  then show ?thesis by (rule shard_check_is_lru_cache) simp
qed

section \<open>The limiter as a whole\<close>

definition limiter_ok :: "limiter \<Rightarrow> bool" where
  "limiter_ok rl \<longleftrightarrow> length (shards rl) = kShards \<and> (\<forall>s \<in> set (shards rl). shard_wf s) \<and> 1 \<le> max_per_shard rl"

lemma normalize_config_max: "1 \<le> max_buckets (normalize_config cfg) div kShards"
  by (simp add: normalize_config_def Let_def kShards_def div_greater_zero_iff Suc_le_eq)

lemma limiter_new_ok: "limiter_ok (limiter_new cfg persist)"
  using normalize_config_max [of cfg]
  by (simp add: limiter_ok_def limiter_new_def Let_def)

lemma update_config_ok: "limiter_ok rl \<Longrightarrow> limiter_ok (update_config rl cfg)"
  using normalize_config_max [of cfg]
  by (simp add: limiter_ok_def update_config_def publish_config_def)

lemma rl_check_total:
  assumes "limiter_ok rl"
  shows "\<exists>d rl'. rl_check hash rnd now rl key rate burst = Some (d, rl') \<and> limiter_ok rl'"
proof (cases "rate \<le> 0")
  case False
  define i where "i = hash key mod kShards"
  have i: "i < length (shards rl)" using assms by (simp add: i_def limiter_ok_def kShards_def)
  then have "shard_wf (shards rl ! i)" using assms by (simp add: limiter_ok_def)
  then obtain d s' where s: "shard_check rnd now (max_per_shard rl) (shards rl ! i) key rate burst = Some (d, s')"
    "shard_wf s'"
    using shard_check_total [of "shards rl ! i" "max_per_shard rl" rnd now key rate burst] assms
    by (auto simp: limiter_ok_def)
  have "limiter_ok (rl\<lparr>shards := (shards rl)[i := s']\<rparr>)"
    using assms s(2) by (auto simp: limiter_ok_def dest!: set_update_subset_insert [THEN subsetD])
  then show ?thesis using False s(1) by (simp add: rl_check_def i_def Let_def)
qed (use assms in \<open>simp add: rl_check_def\<close>)

lemma check_path_total:
  "limiter_ok rl \<Longrightarrow> \<exists>d rl'. check_path hash rnd now rl path cfg = Some (d, rl') \<and> limiter_ok rl'"
  unfolding check_path_def by (auto split: option.split intro: rl_check_total)

lemma check_service_total:
  "limiter_ok rl \<Longrightarrow> \<exists>d rl'. check_service hash rnd now rl service cfg = Some (d, rl') \<and> limiter_ok rl'"
  unfolding check_service_def by (auto split: option.split intro: rl_check_total)

lemma limiter_ok_global [simp]: "limiter_ok (rl\<lparr>lim_global := g\<rparr>) = limiter_ok rl"
  by (simp add: limiter_ok_def)

text \<open>The states a limiter goes through: construction, requests at any time under any published
  configuration, and configuration updates.\<close>

inductive limiter_reach :: "hash \<Rightarrow> rounding \<Rightarrow> limiter \<Rightarrow> bool" for hash rnd where
  new: "limiter_reach hash rnd (limiter_new cfg persist)"
| request: "limiter_reach hash rnd rl \<Longrightarrow>
    check_all hash rnd now rl ip path service cfg = Some (d, rl') \<Longrightarrow> limiter_reach hash rnd rl'"
| update: "limiter_reach hash rnd rl \<Longrightarrow> limiter_reach hash rnd (update_config rl cfg)"

lemma check_all_total:
  assumes "limiter_ok rl"
  shows "\<exists>d1 l1 d2 l2 d3 l3 d rl'.
    rl_check hash rnd now rl ip (ip_rps cfg) (ip_burst cfg) = Some (d1, l1) \<and>
    check_path hash rnd now l1 path cfg = Some (d2, l2) \<and>
    check_service hash rnd now l2 service cfg = Some (d3, l3) \<and>
    check_all hash rnd now rl ip path service cfg = Some (d, rl') \<and> limiter_ok rl' \<and>
    (allowed d \<longleftrightarrow> allowed d1 \<and> allowed d2 \<and> allowed d3 \<and>
       allowed (fst (check_global rnd now (lim_global l3) (global_rps cfg) (global_rps cfg))))"
proof -
  obtain d1 l1 where 1: "rl_check hash rnd now rl ip (ip_rps cfg) (ip_burst cfg) = Some (d1, l1)"
    "limiter_ok l1" using rl_check_total [OF assms] by blast
  obtain d2 l2 where 2: "check_path hash rnd now l1 path cfg = Some (d2, l2)" "limiter_ok l2"
    using check_path_total [OF 1(2)] by blast
  obtain d3 l3 where 3: "check_service hash rnd now l2 service cfg = Some (d3, l3)" "limiter_ok l3"
    using check_service_total [OF 2(2)] by blast
  obtain d4 g where 4: "check_global rnd now (lim_global l3) (global_rps cfg) (global_rps cfg) = (d4, g)"
    by fastforce
  show ?thesis using 1 2 3 4 by (simp add: check_all_def Let_def)
qed

lemma limiter_reach_ok: "limiter_reach hash rnd rl \<Longrightarrow> limiter_ok rl"
proof (induction rule: limiter_reach.induct)
  case (request rl now ip path service cfg d rl')
  then show ?case
    using check_all_total [OF request.IH, of hash rnd now ip cfg path service] by auto
qed (auto simp: limiter_new_ok update_config_ok)

text \<open>
  In every reachable state of the limiter a request check completes, leaves every shard
  well-formed, and admits the request exactly when all four dimensions (address, path, service, global) admit it.
\<close>

lemma check_all_decides:
  assumes "limiter_reach hash rnd rl"
  shows "\<exists>d1 l1 d2 l2 d3 l3 d rl'.
    rl_check hash rnd now rl ip (ip_rps cfg) (ip_burst cfg) = Some (d1, l1) \<and>
    check_path hash rnd now l1 path cfg = Some (d2, l2) \<and>
    check_service hash rnd now l2 service cfg = Some (d3, l3) \<and>
    check_all hash rnd now rl ip path service cfg = Some (d, rl') \<and> limiter_ok rl' \<and>
    (allowed d \<longleftrightarrow> allowed d1 \<and> allowed d2 \<and> allowed d3 \<and>
       allowed (fst (check_global rnd now (lim_global l3) (global_rps cfg) (global_rps cfg))))"
  by (rule check_all_total [OF limiter_reach_ok [OF assms]])

end
