(* ===== verification/Rate_Snapshot.thy ===== *)
theory Rate_Snapshot
  imports Rate_Limiter
begin

unbundle bit_operations_syntax

text \<open>
  The snapshot file of the rate limiter, \<^verbatim>\<open>persist_snapshot\<close>, \<^verbatim>\<open>write_snapshot\<close> and
  \<^verbatim>\<open>load_snapshot\<close> of \<^verbatim>\<open>src/security/rate_limiter.hpp\<close>. The file is a byte string. Objects are written as
  they lie in memory on the x86-64 target: integers in little-endian order, the header with its padding
  (offsets 0 magic, 12 version, 16 checksum, 24 written_at_ms, 32 total_buckets; size 40), a double in its 8-byte
  representation, given by the parameter \<open>enc\<close> with the inverse \<open>dec\<close>.
\<close>

section \<open>Byte layouts\<close>

fun le_bytes :: "nat \<Rightarrow> nat \<Rightarrow> string" where
  "le_bytes 0 v = []"
| "le_bytes (Suc w) v = char_of (v mod 256) # le_bytes w (v div 256)"

fun le_val :: "string \<Rightarrow> nat" where
  "le_val [] = 0"
| "le_val (c # cs) = code c + 256 * le_val cs"

definition i64_bytes :: "int \<Rightarrow> string" where
  "i64_bytes i = le_bytes 8 (nat (i mod 2 ^ 64))"

definition i64_val :: "string \<Rightarrow> int" where
  "i64_val s = (let v = int (le_val s) in if v < 2 ^ 63 then v else v - 2 ^ 64)"

lemma length_le_bytes [simp]: "length (le_bytes w v) = w"
  by (induction w arbitrary: v) auto

lemma le_val_le_bytes: "v < 256 ^ w \<Longrightarrow> le_val (le_bytes w v) = v"
proof (induction w arbitrary: v)
  case (Suc w)
  then have "v div 256 < 256 ^ w" by (simp add: less_mult_imp_div_less mult.commute)
  with Suc.IH [of "v div 256"] show ?case by simp
qed simp

lemma length_i64_bytes [simp]: "length (i64_bytes i) = 8"
  by (simp add: i64_bytes_def)

lemma i64_roundtrip:
  assumes "- (2 ^ 63) \<le> i" and "i < 2 ^ 63"
  shows "i64_val (i64_bytes i) = i"
proof -
  have "nat (i mod 2 ^ 64) < 256 ^ 8" by (simp add: nat_less_iff)
  then have v: "int (le_val (i64_bytes i)) = i mod 2 ^ 64"
    by (simp add: i64_bytes_def le_val_le_bytes)
  show ?thesis
  proof (cases "0 \<le> i")
    case True
    then have "i mod 2 ^ 64 = i" using assms by (intro mod_pos_pos_trivial) auto
    then show ?thesis using v assms by (simp add: i64_val_def Let_def)
  next
    case False
    have "i mod 2 ^ 64 = (i + 2 ^ 64) mod 2 ^ 64" by simp
    also have "\<dots> = i + 2 ^ 64" using False assms by (intro mod_pos_pos_trivial) auto
    finally show ?thesis using v assms False by (simp add: i64_val_def Let_def)
  qed
qed

section \<open>Checksum\<close>

definition fnv_step :: "32 word \<Rightarrow> char \<Rightarrow> 32 word" where
  "fnv_step hash c = (hash XOR of_nat (code c)) * 16777619"

definition calculate_checksum :: "string \<Rightarrow> 32 word" where
  "calculate_checksum data = foldl fnv_step 2166136261 data"

section \<open>Writing\<close>

type_synonym bucket_map = "(string \<times> token_bucket) list"

record double_repr =
  enc :: "rat \<Rightarrow> string"
  dec :: "string \<Rightarrow> rat"

definition double_repr_ok :: "double_repr \<Rightarrow> rat set \<Rightarrow> bool" where
  "double_repr_ok dr doubles \<longleftrightarrow> (\<forall>d \<in> doubles. length (enc dr d) = 8 \<and> dec dr (enc dr d) = d)"

definition write_entry :: "double_repr \<Rightarrow> string \<times> token_bucket \<Rightarrow> string" where
  "write_entry dr e =
     (let key = fst e; bucket = snd e in
      le_bytes 4 (length key mod 2 ^ 32) @ take (length key mod 2 ^ 32) key @
      i64_bytes (last_refill_ms bucket) @ enc dr (tokens bucket))"

definition write_shard :: "double_repr \<Rightarrow> bucket_map \<Rightarrow> string" where
  "write_shard dr bs = le_bytes 4 (length bs mod 2 ^ 32) @ concat (map (write_entry dr) bs)"

definition write_body :: "double_repr \<Rightarrow> bucket_map list \<Rightarrow> string" where
  "write_body dr bss = concat (map (write_shard dr) bss)"

text \<open>\<open>pad1\<close> and \<open>pad2\<close> are the indeterminate padding bytes of the header.\<close>

definition write_header :: "string \<Rightarrow> string \<Rightarrow> 32 word \<Rightarrow> int \<Rightarrow> nat \<Rightarrow> string" where
  "write_header pad1 pad2 checksum written_at_ms n =
     ''RATE_LIMIT'' @ pad1 @ le_bytes 4 1 @ le_bytes 4 (unat checksum) @ pad2 @
     i64_bytes written_at_ms @ i64_bytes (int n)"

definition write_snapshot :: "double_repr \<Rightarrow> string \<Rightarrow> string \<Rightarrow> int \<Rightarrow> bucket_map list \<Rightarrow> string" where
  "write_snapshot dr pad1 pad2 written_at_ms bss =
     (let body = write_body dr bss in
      write_header pad1 pad2 (calculate_checksum body) written_at_ms (sum_list (map length bss)) @ body)"

text \<open>
  The file is replaced by a rename of the temporary file, only after it has been written completely.
  \<open>busy\<close> is the re-entry flag, \<open>written\<close> and \<open>renamed\<close> the outcomes of the file operations;
  the result is the content under the snapshot path.
\<close>

definition persist_snapshot ::
  "double_repr \<Rightarrow> string \<Rightarrow> string \<Rightarrow> int \<Rightarrow> bool \<Rightarrow> bool \<Rightarrow> bool \<Rightarrow> limiter \<Rightarrow> string option \<Rightarrow> string option" where
  "persist_snapshot dr pad1 pad2 now busy written renamed rl file =
     (if busy then file
      else if written then
        if renamed then Some (write_snapshot dr pad1 pad2 now (map buckets (shards rl))) else file
      else file)"

section \<open>Loading\<close>

text \<open>The inner loop over the entries of a shard; \<open>emplace\<close> keeps the first entry of a key.\<close>

fun load_entries :: "double_repr \<Rightarrow> nat \<Rightarrow> string \<Rightarrow> bucket_map \<Rightarrow> bucket_map \<times> string" where
  "load_entries dr 0 s acc = (acc, s)"
| "load_entries dr (Suc count) s acc =
     (if s = [] then (acc, s)
      else if length s < 4 then (acc, s)
      else
        let key_len = le_val (take 4 s); s1 = drop 4 s in
        if length s1 < key_len then (acc, s1)
        else
          let key = take key_len s1; s2 = drop key_len s1 in
          if length s2 < 16 then (acc, s2)
          else
            let last_ms = i64_val (take 8 s2); tok = dec dr (take 8 (drop 8 s2)) in
            load_entries dr count (drop 16 s2)
              (if map_of acc key = None
               then acc @ [(key, \<lparr>last_refill_ms = last_ms, tokens = tok\<rparr>)] else acc))"

fun load_shards :: "double_repr \<Rightarrow> nat \<Rightarrow> string \<Rightarrow> bucket_map list" where
  "load_shards dr 0 s = []"
| "load_shards dr (Suc n) s =
     (if s = [] \<or> length s < 4 then replicate (Suc n) []
      else
        let (bs, s') = load_entries dr (le_val (take 4 s)) (drop 4 s) [] in
        bs # load_shards dr n s')"

definition rebuild_shard :: "int \<Rightarrow> bucket_map \<Rightarrow> shard" where
  "rebuild_shard load_now bs =
     \<lparr>buckets = map (\<lambda>(k, b). (k, b\<lparr>last_refill_ms := load_now\<rparr>)) bs,
      lru_list = rev (map fst bs), lru_index = fst ` set bs\<rparr>"

text \<open>
  \<open>file\<close> is \<open>None\<close> when it cannot be opened; \<open>now\<close> is the clock at the expiry test and
  \<open>load_now\<close> the clock at the rebuild.
\<close>

definition load_snapshot :: "double_repr \<Rightarrow> int \<Rightarrow> int \<Rightarrow> string option \<Rightarrow> limiter \<Rightarrow> limiter" where
  "load_snapshot dr now load_now file rl =
     (case file of
        None \<Rightarrow> rl
      | Some f \<Rightarrow>
          if length f < 40 then rl
          else if take 10 f \<noteq> ''RATE_LIMIT'' then rl
          else if le_val (take 4 (drop 12 f)) \<noteq> 1 then rl
          else if i64_val (take 8 (drop 24 f)) + 120 * 1000 < now then rl
          else
            let body = drop 40 f in
            if unat (calculate_checksum body) \<noteq> le_val (take 4 (drop 16 f)) then rl
            else rl\<lparr>shards := map (rebuild_shard load_now) (load_shards dr kShards body)\<rparr>)"

definition limiter_start :: "double_repr \<Rightarrow> int \<Rightarrow> int \<Rightarrow> string option \<Rightarrow> rl_config \<Rightarrow> bool \<Rightarrow> bool \<Rightarrow> limiter" where
  "limiter_start dr now load_now file cfg load_persisted persist =
     (let rl = limiter_new cfg persist in
      if load_persisted then load_snapshot dr now load_now file rl else rl)"

section \<open>Loading is safe on any file\<close>

lemma load_entries_distinct:
  "load_entries dr n s acc = (bs, s') \<Longrightarrow> distinct (map fst acc) \<Longrightarrow> distinct (map fst bs)"
proof (induction dr n s acc arbitrary: bs s' rule: load_entries.induct)
  case (2 dr count s acc)
  from 2(2,3) show ?case
    by (auto simp: Let_def map_of_eq_None_iff intro: 2(1) split: if_splits)
qed simp

lemma length_load_shards [simp]: "length (load_shards dr n s) = n"
  by (induction dr n s rule: load_shards.induct) (auto simp: Let_def split: prod.splits)

lemma load_shards_distinct: "bs \<in> set (load_shards dr n s) \<Longrightarrow> distinct (map fst bs)"
proof (induction dr n s rule: load_shards.induct)
  case (2 dr n s)
  then show ?case
    by (auto simp: Let_def split: if_splits prod.splits dest: load_entries_distinct [OF sym])
qed simp

lemma rebuild_shard_wf: "distinct (map fst bs) \<Longrightarrow> shard_wf (rebuild_shard load_now bs)"
  by (auto simp: shard_wf_def rebuild_shard_def o_def case_prod_beta' image_image)

lemma limiter_start_ok:
  "limiter_ok (limiter_start dr now load_now file cfg load_persisted persist)"
proof -
  have "\<forall>s \<in> set (map (rebuild_shard load_now) (load_shards dr kShards body)). shard_wf s" for body
    using rebuild_shard_wf load_shards_distinct by fastforce
  then have "limiter_ok rl \<Longrightarrow> limiter_ok (load_snapshot dr now load_now file rl)" for rl
    by (auto simp: load_snapshot_def limiter_ok_def Let_def split: option.splits)
  then show ?thesis using limiter_new_ok by (simp add: limiter_start_def Let_def)
qed

text \<open>
  Whatever bytes the snapshot file holds, truncated, corrupted or hostile, the limiter starts
  in a state on which every check completes, and leaves it consistent.
\<close>

lemma load_snapshot_safe:
  "\<exists>d rl. check_all hash rnd t (limiter_start dr now load_now file cfg load_persisted persist) ip path service policy =
     Some (d, rl) \<and> limiter_ok rl"
  using check_all_total [OF limiter_start_ok, of hash rnd t] by blast

section \<open>Saving and loading\<close>

definition entry_ok :: "rat set \<Rightarrow> string \<times> token_bucket \<Rightarrow> bool" where
  "entry_ok doubles e \<longleftrightarrow>
     length (fst e) < 2 ^ 32 \<and> tokens (snd e) \<in> doubles \<and>
     - (2 ^ 63) \<le> last_refill_ms (snd e) \<and> last_refill_ms (snd e) < 2 ^ 63"

lemma load_write_entry:
  assumes "double_repr_ok dr doubles" and "entry_ok doubles (k, b)" and "map_of acc k = None"
  shows "load_entries dr (Suc n) (write_entry dr (k, b) @ rest) acc = load_entries dr n rest (acc @ [(k, b)])"
proof -
  have len: "length (enc dr (tokens b)) = 8" "dec dr (enc dr (tokens b)) = tokens b"
    using assms(1,2) by (auto simp: double_repr_ok_def entry_ok_def)
  have k: "length k mod 2 ^ 32 = length k" using assms(2) by (simp add: entry_ok_def)
  have kv: "le_val (le_bytes 4 (length k)) = length k"
    using assms(2) by (simp add: entry_ok_def le_val_le_bytes)
  have w: "write_entry dr (k, b) = le_bytes 4 (length k) @ k @ i64_bytes (last_refill_ms b) @ enc dr (tokens b)"
    using k by (simp add: write_entry_def Let_def)
  have i: "i64_val (i64_bytes (last_refill_ms b)) = last_refill_ms b"
    using assms(2) by (intro i64_roundtrip) (auto simp: entry_ok_def)
  have ne: "enc dr (tokens b) \<noteq> []" using len by auto
  have b: "\<lparr>last_refill_ms = last_refill_ms b, tokens = tokens b\<rparr> = b" by simp
  show ?thesis
    using assms(3) ne len kv i by (simp add: w Let_def b)
qed

lemma load_write_entries:
  assumes "double_repr_ok dr doubles" and "\<forall>e \<in> set bs. entry_ok doubles e"
    and "distinct (map fst (acc @ bs))"
  shows "load_entries dr (length bs) (concat (map (write_entry dr) bs) @ rest) acc = (acc @ bs, rest)"
  using assms(2,3)
proof (induction bs arbitrary: acc)
  case (Cons e bs)
  obtain k b where e: "e = (k, b)" by fastforce
  have none: "map_of acc k = None" using Cons.prems(2) by (auto simp: e map_of_eq_None_iff)
  have ok: "entry_ok doubles (k, b)" using Cons.prems(1) e by simp
  have "load_entries dr (Suc (length bs)) (write_entry dr (k, b) @ concat (map (write_entry dr) bs) @ rest) acc =
      load_entries dr (length bs) (concat (map (write_entry dr) bs) @ rest) (acc @ [(k, b)])"
    by (rule load_write_entry [OF assms(1) ok none])
  also have "\<dots> = (acc @ (k, b) # bs, rest)"
    using Cons.IH [of "acc @ [(k, b)]"] Cons.prems by (simp add: e)
  finally show ?case by (simp add: e)
qed simp

definition shard_map_ok :: "rat set \<Rightarrow> bucket_map \<Rightarrow> bool" where
  "shard_map_ok doubles bs \<longleftrightarrow>
     distinct (map fst bs) \<and> length bs < 2 ^ 32 \<and> (\<forall>e \<in> set bs. entry_ok doubles e)"

lemma load_write_shards:
  assumes "double_repr_ok dr doubles" and "\<forall>bs \<in> set bss. shard_map_ok doubles bs"
  shows "load_shards dr (length bss) (write_body dr bss) = bss"
  using assms(2)
proof (induction bss)
  case (Cons bs bss)
  have ok: "distinct (map fst bs)" "length bs < 2 ^ 32" "\<forall>e \<in> set bs. entry_ok doubles e"
    using Cons.prems by (auto simp: shard_map_ok_def)
  have w: "write_body dr (bs # bss) =
      le_bytes 4 (length bs) @ concat (map (write_entry dr) bs) @ write_body dr bss"
    using ok(2) by (simp add: write_body_def write_shard_def)
  have v: "le_val (le_bytes 4 (length bs)) = length bs" using ok(2) by (simp add: le_val_le_bytes)
  have e: "load_entries dr (length bs) (concat (map (write_entry dr) bs) @ write_body dr bss) [] =
      (bs, write_body dr bss)"
    using load_write_entries [OF assms(1) ok(3), of "[]"] ok(1) by simp
  have "le_bytes 4 (length bs) \<noteq> []" using length_le_bytes [of 4 "length bs"] by fastforce
  then show ?case using Cons v e by (simp add: w)
qed (simp add: write_body_def)

lemma unat32_lt: "unat (w :: 32 word) < 256 ^ 4"
proof -
  have "unat w < 2 ^ LENGTH(32)" by (rule unsigned_less)
  then show ?thesis by simp
qed

text \<open>
  A snapshot that was written completely and is at most two minutes old restores every bucket of
  every shard with its tokens; only the refill time is reset to the time of loading. The padding bytes of
  the header do not matter.
\<close>

lemma snapshot_roundtrip:
  assumes "double_repr_ok dr doubles" and "length (shards old) = kShards"
    and "\<forall>s \<in> set (shards old). shard_map_ok doubles (buckets s)"
    and "length pad1 = 2" and "length pad2 = 4"
    and "- (2 ^ 63) \<le> t" and "t < 2 ^ 63" and "now \<le> t + 120000"
  shows "map buckets (shards (load_snapshot dr now load_now
      (persist_snapshot dr pad1 pad2 t False True True old None) rl)) =
    map (\<lambda>s. map (\<lambda>(k, b). (k, b\<lparr>last_refill_ms := load_now\<rparr>)) (buckets s)) (shards old)"
proof -
  define bss where "bss = map buckets (shards old)"
  define body where "body = write_body dr bss"
  define f where "f = write_snapshot dr pad1 pad2 t bss"
  have f: "f = ''RATE_LIMIT'' @ pad1 @ le_bytes 4 1 @ le_bytes 4 (unat (calculate_checksum body)) @ pad2 @
      i64_bytes t @ i64_bytes (int (sum_list (map length bss))) @ body"
    by (simp add: f_def write_snapshot_def write_header_def body_def Let_def)
  have parts: "take 10 f = ''RATE_LIMIT''" "take 4 (drop 12 f) = le_bytes 4 1"
    "take 4 (drop 16 f) = le_bytes 4 (unat (calculate_checksum body))" "take 8 (drop 24 f) = i64_bytes t"
    "drop 40 f = body" "40 \<le> length f"
    using assms(4,5) by (simp_all add: f)
  have vals: "le_val (le_bytes 4 1) = 1" "i64_val (i64_bytes t) = t"
    "le_val (le_bytes 4 (unat (calculate_checksum body))) = unat (calculate_checksum body)"
    using assms(6,7) by (auto simp: le_val_le_bytes i64_roundtrip intro: le_val_le_bytes unat32_lt)
  have body: "load_shards dr kShards body = bss"
    using load_write_shards [OF assms(1), of bss] assms(2,3) by (simp add: body_def bss_def)
  have "load_snapshot dr now load_now (Some f) rl = rl\<lparr>shards := map (rebuild_shard load_now) bss\<rparr>"
    using parts vals assms(8) body by (simp add: load_snapshot_def Let_def)
  then show ?thesis
    by (simp add: persist_snapshot_def f_def [symmetric] bss_def [symmetric])
       (simp add: bss_def rebuild_shard_def)
qed

definition demo_repr :: double_repr where
  "demo_repr = \<lparr>enc = (\<lambda>d. if d = 0 then replicate 8 NUL else NUL # replicate 7 (CHR ''1'')),
     dec = (\<lambda>s. if s = replicate 8 NUL then 0 else 3)\<rparr>"

definition demo_limiter :: limiter where
  "demo_limiter = (limiter_new rl_config0 True)\<lparr>shards :=
     replicate kShards \<lparr>buckets = [(''10.0.0.1'', \<lparr>last_refill_ms = 9, tokens = 3\<rparr>)],
       lru_list = [''10.0.0.1''], lru_index = {''10.0.0.1''}\<rparr>\<rparr>"

end
