(* ===== verification/Security_Rules.thy ===== *)
theory Security_Rules
  imports Path_Normalize Client_Address Access_Lists Jwt_Auth Rate_Snapshot Cors Publisher
begin

text \<open>
  The security chain of a request, \<^verbatim>\<open>src/security/security_rules.hpp\<close>: building the rules from the configuration,
  the check, and the publication of new rules to running threads.

  The environment \<open>env\<close> holds what the components below take as parameters: the address library, the
  token library, the hash function, the rounding of doubles, the clocks, the number parsers, the file system. The rate
  limiter is shared by successive snapshots, so its state is passed through the check separately.
\<close>

record sec_env =
  en_addr :: addr_lib
  en_jwt :: jwt_lib
  en_hash :: hash
  en_rnd :: rounding
  en_now_ms :: int
  en_now_ns :: int
  en_strtod :: "string \<Rightarrow> rat \<times> nat \<times> bool"
  en_stod :: "string \<Rightarrow> rat option"
  en_read_file :: "string \<Rightarrow> string option"
  en_jwks_pem :: "string \<Rightarrow> string \<Rightarrow> string"
  en_doubles :: double_repr

section \<open>Helpers\<close>

definition is_valid_service_name :: "string \<Rightarrow> bool" where
  "is_valid_service_name name \<longleftrightarrow>
     name \<noteq> [] \<and> islower (hd name) \<and>
     list_all (\<lambda>c. islower c \<or> isdigit c \<or> c = CHR ''-'') (tl name)"

definition extract_service :: "string \<Rightarrow> string" where
  "extract_service path =
     (if path = [] \<or> hd path \<noteq> CHR ''/'' then []
      else
        let svc = (case find_char (CHR ''/'') (drop 1 path) of
                     None \<Rightarrow> drop 1 path
                   | Some i \<Rightarrow> take i (drop 1 path))
        in if is_valid_service_name svc then svc else [])"

text \<open>\<^verbatim>\<open>normalize_path_key\<close> changes the key in place and says whether it is usable.\<close>

definition normalize_path_key :: "string \<Rightarrow> bool \<Rightarrow> bool \<times> string" where
  "normalize_path_key key case_sensitive =
     (if key = [] \<or> hd key \<noteq> CHR ''/'' then (True, key)
      else
        let is_prefix = (length key > 1 \<and> last key = CHR ''/'');
            norm = normalize_path key case_sensitive
        in if \<not> np_valid norm then (False, [])
           else (True, if is_prefix \<and> last (np_path norm) \<noteq> CHR ''/'' then np_path norm @ ''/'' else np_path norm))"

definition normalize_path_keys :: "(string \<times> string) list \<Rightarrow> bool \<Rightarrow> (string \<times> string) list" where
  "normalize_path_keys items case_sensitive =
     map (\<lambda>(k, v). (snd (normalize_path_key k case_sensitive), v)) items"

definition normalize_path_items :: "string list \<Rightarrow> bool \<Rightarrow> string list" where
  "normalize_path_items items case_sensitive =
     map (\<lambda>item. if item \<noteq> [] \<and> hd item = CHR ''/'' then snd (normalize_path_key item case_sensitive)
                 else if \<not> case_sensitive then map tolower item else item) items"

section \<open>Rate limit values\<close>

text \<open>The key=value parts, accumulated: burst, window and limit. A number that does not parse leaves its
  field as it was.\<close>

record rate_parts =
  rp_burst :: rat
  rp_window :: rat
  rp_limit :: "rat option"

definition window_seconds :: "sec_env \<Rightarrow> string \<Rightarrow> rat option" where
  "window_seconds env v =
     (let (val_str, multiplier) =
            (if v = [] then (v, 1)
             else if last v = CHR ''s'' then (butlast v, 1)
             else if last v = CHR ''m'' then (butlast v, 60)
             else if last v = CHR ''h'' then (butlast v, 3600)
             else (v, 1))
      in map_option (\<lambda>x. en_rnd env (x * multiplier)) (en_stod env val_str))"

definition rate_part :: "sec_env \<Rightarrow> rate_parts \<Rightarrow> string \<Rightarrow> rate_parts" where
  "rate_part env r part =
     (case find_char (CHR ''='') part of
        None \<Rightarrow> r
      | Some eq \<Rightarrow>
          let k = trim (take eq part); v = trim (drop (eq + 1) part) in
          if k = ''limit'' then
            (case en_stod env v of Some x \<Rightarrow> r\<lparr>rp_limit := Some x\<rparr> | None \<Rightarrow> r)
          else if k = ''burst'' then
            (case en_stod env v of Some x \<Rightarrow> r\<lparr>rp_burst := x\<rparr> | None \<Rightarrow> r)
          else if k = ''window'' then
            (case window_seconds env v of Some x \<Rightarrow> r\<lparr>rp_window := x\<rparr> | None \<Rightarrow> r)
          else r)"

text \<open>\<open>None\<close>: the window is zero, the rate is then an infinity or not a number, which the rational model of
  doubles does not have.\<close>

definition parse_rate_limit_value :: "sec_env \<Rightarrow> string \<Rightarrow> rate_limit_rule option" where
  "parse_rate_limit_value env val =
     (if CHR ''='' \<notin> set val then
        (case en_stod env val of
           Some x \<Rightarrow> Some \<lparr>rule_rate = x, rule_burst = x\<rparr>
         | None \<Rightarrow> Some \<lparr>rule_rate = 100, rule_burst = 100\<rparr>)
      else
        let r = foldl (rate_part env) \<lparr>rp_burst = 100, rp_window = 1, rp_limit = None\<rparr> (split_lt (CHR '';'') val)
        in case rp_limit r of
             None \<Rightarrow> Some \<lparr>rule_rate = 100, rule_burst = rp_burst r\<rparr>
           | Some limit \<Rightarrow>
               if rp_window r = 0 then None
               else
                 let rate = en_rnd env (limit / rp_window r)
                 in Some \<lparr>rule_rate = rate, rule_burst = (if rp_burst r = 100 then rate else rp_burst r)\<rparr>)"

section \<open>Building the rules\<close>

datatype sec_error =
    Se_config config_error
  | Se_jwt jwt_error
  | Se_invalid string
  | Se_not_finite

record security_snapshot =
  ss_case_sensitive :: bool
  ss_trusted_proxies :: "string list"
  ss_ip_blacklist :: ip_blacklist
  ss_auth_whitelist :: auth_whitelist
  ss_path_blacklist :: path_blacklist
  ss_jwt_auth :: "jwt_auth option"
  ss_rate_policy :: "rl_config option"
  ss_cors :: cors_policy

definition jwt_public_key :: "sec_env \<Rightarrow> config \<Rightarrow> string \<Rightarrow> string" where
  "jwt_public_key env cfg algorithm =
     (let pub_key = config_get cfg ''security'' ''jwt_public_key'' [];
          pub_key1 =
            (if pub_key \<noteq> [] \<and> find_sub ''-----BEGIN'' pub_key = None then
               (case en_read_file env pub_key of
                  Some loaded \<Rightarrow> if find_sub ''-----BEGIN'' loaded \<noteq> None then loaded else pub_key
                | None \<Rightarrow> [])
             else pub_key)
      in if pub_key1 = [] \<and> algorithm = ''RS256'' then
           let n = config_get cfg ''security'' ''jwt_rsa_n'' []; e = config_get cfg ''security'' ''jwt_rsa_e'' [] in
           if n \<noteq> [] \<and> e \<noteq> [] then en_jwks_pem env n e else pub_key1
         else pub_key1)"

definition build_jwt_auth :: "sec_env \<Rightarrow> config \<Rightarrow> sec_error + jwt_auth option" where
  "build_jwt_auth env cfg =
     (case get_bool cfg ''security'' ''jwt_disabled'' False of
        Inl e \<Rightarrow> Inl (Se_config e)
      | Inr True \<Rightarrow> Inr None
      | Inr False \<Rightarrow>
          let secret = config_get cfg ''security'' ''jwt_secret'' [];
              issuer = config_get cfg ''security'' ''jwt_issuer'' ''asio_owen'';
              configured = config_get cfg ''security'' ''jwt_algorithm'' [];
              algorithm = (if configured = [] then ''HS256'' else configured);
              pub_key = jwt_public_key env cfg algorithm
          in if algorithm = ''HS256'' \<and> secret = [] then Inl (Se_invalid
               ''JWT HS256 requires jwt_secret; set security.jwt_disabled=true to run without auth'')
             else if algorithm = ''RS256'' \<and> pub_key = [] then Inl (Se_invalid
               (''JWT RS256 requires jwt_public_key or jwks params; '' @
                ''set security.jwt_disabled=true to run without auth''))
             else (case jwt_auth_new (en_jwt env) secret issuer algorithm pub_key of
                     Inl e \<Rightarrow> Inl (Se_jwt e)
                   | Inr ja \<Rightarrow> Inr (Some ja)))"

fun path_rules :: "sec_env \<Rightarrow> bool \<Rightarrow> (string \<times> string) list \<Rightarrow> rl_config \<Rightarrow> sec_error + rl_config" where
  "path_rules env cs [] rc = Inr rc"
| "path_rules env cs ((key0, val) # items) rc =
     (let (usable, key) = normalize_path_key key0 cs in
      if \<not> usable then path_rules env cs items rc
      else case parse_rate_limit_value env val of
             None \<Rightarrow> Inl Se_not_finite
           | Some rule \<Rightarrow>
               path_rules env cs items
                 (if key \<noteq> [] \<and> last key = CHR ''/''
                  then rc\<lparr>path_prefix_limits := path_prefix_limits rc @ [(key, rule)]\<rparr>
                  else rc\<lparr>path_limits := (path_limits rc)(key \<mapsto> rule)\<rparr>))"

fun service_rules :: "sec_env \<Rightarrow> (string \<times> string) list \<Rightarrow> rl_config \<Rightarrow> sec_error + rl_config" where
  "service_rules env [] rc = Inr rc"
| "service_rules env ((key, val) # items) rc =
     (case parse_rate_limit_value env val of
        None \<Rightarrow> Inl Se_not_finite
      | Some rule \<Rightarrow> service_rules env items (rc\<lparr>service_limits := (service_limits rc)(key \<mapsto> rule)\<rparr>))"

text \<open>\<^verbatim>\<open>static_cast<size_t>\<close> of a negative \<^verbatim>\<open>int\<close> wraps.\<close>

definition load_rate_config :: "sec_env \<Rightarrow> config \<Rightarrow> bool \<Rightarrow> sec_error + rl_config" where
  "load_rate_config env cfg cs =
     (let dbl = get_double (en_strtod env) (\<lambda>_. True) cfg ''rate_limit'' in
      case dbl ''ip_rps'' 100 of Inl e \<Rightarrow> Inl (Se_config e) | Inr rps \<Rightarrow>
      case dbl ''ip_burst'' (en_rnd env (rps * 2)) of Inl e \<Rightarrow> Inl (Se_config e) | Inr burst \<Rightarrow>
      case dbl ''global_rps'' 50000 of Inl e \<Rightarrow> Inl (Se_config e) | Inr grps \<Rightarrow>
      case get_int cfg ''rate_limit'' ''max_buckets'' 100000 of Inl e \<Rightarrow> Inl (Se_config e) | Inr mb \<Rightarrow>
      case get_int cfg ''rate_limit'' ''snapshot_interval_sec'' 30 of Inl e \<Rightarrow> Inl (Se_config e) | Inr iv \<Rightarrow>
      let rc = rl_config0\<lparr>ip_rps := rps, ip_burst := burst, global_rps := grps,
                 max_buckets := nat (mb mod 2 ^ 64), snapshot_interval_sec := iv,
                 snapshot_path := config_get cfg ''rate_limit'' ''snapshot_path'' ''/var/lib/asio_owen/rate_limit.bin''\<rparr>
      in case path_rules env cs (get_section cfg ''rate_limit_paths'') rc of Inl e \<Rightarrow> Inl e | Inr rc1 \<Rightarrow>
         service_rules env (get_section cfg ''rate_limit_services'') rc1)"

text \<open>
  \<^verbatim>\<open>load_from_config\<close> up to publication: the snapshot and the limiter it comes with. A staged object neither loads nor
  persists the limiter's file.
\<close>

definition load_from_config :: "sec_env \<Rightarrow> bool \<Rightarrow> config \<Rightarrow> sec_error + security_snapshot \<times> limiter" where
  "load_from_config env staging cfg =
     (case build_jwt_auth env cfg of Inl e \<Rightarrow> Inl e | Inr jwt \<Rightarrow>
      let cs = (config_get cfg ''security'' ''case_sensitive_paths'' ''false'' = ''true'') in
      case load_rate_config env cfg cs of Inl e \<Rightarrow> Inl e | Inr rc \<Rightarrow>
      let rl = limiter_start (en_doubles env) (en_now_ms env) (en_now_ms env)
                 (en_read_file env (snapshot_path rc)) rc (\<not> staging) (\<not> staging)
      in case load_cors_policy cfg of Inl e \<Rightarrow> Inl (Se_config e) | Inr cors \<Rightarrow>
         Inr (\<lparr>ss_case_sensitive = cs,
               ss_trusted_proxies = map (normalize_ip_str (en_addr env)) (get_list cfg ''trusted_proxies''),
               ss_ip_blacklist = ip_blacklist_reload (en_addr env) (get_list cfg ''ip_blacklist''),
               ss_auth_whitelist = auth_whitelist_reload (normalize_path_items (get_list cfg ''auth_whitelist'') cs),
               ss_path_blacklist = path_blacklist_reload (normalize_path_keys (get_section cfg ''path_blacklist'') cs),
               ss_jwt_auth = jwt, ss_rate_policy = Some (lim_cfg rl), ss_cors = cors\<rparr>, rl))"

section \<open>The check\<close>

record check_result =
  cr_status_code :: int
  cr_reason :: string
  cr_retry_after_ms :: int
  cr_principal :: "principal option"
  cr_client_ip :: string
  cr_jwt_disabled :: bool

definition plain_result :: "int \<Rightarrow> string \<Rightarrow> check_result" where
  "plain_result status reason = \<lparr>cr_status_code = status, cr_reason = reason, cr_retry_after_ms = 0,
     cr_principal = None, cr_client_ip = [], cr_jwt_disabled = False\<rparr>"

record request =
  rq_direct :: "string option"
  rq_method :: string
  rq_path :: string
  rq_xff :: string
  rq_auth :: string

text \<open>The steps after the rate limit, without side effects.\<close>

definition authorize :: "sec_env \<Rightarrow> request \<Rightarrow> security_snapshot \<Rightarrow> string \<Rightarrow> check_result \<Rightarrow> check_result" where
  "authorize env rq ss path r =
     (if rq_method rq = ''OPTIONS'' then plain_result 0 []
      else
        let whitelisted = is_whitelisted (ss_auth_whitelist ss) path (extract_service path);
            verified = (if \<not> whitelisted
                        then Option.bind (ss_jwt_auth ss) (\<lambda>ja. jwt_verify (en_jwt env) (en_now_ns env) ja (rq_auth rq))
                        else None)
        in if \<not> whitelisted \<and> ss_jwt_auth ss \<noteq> None \<and> verified = None
           then r\<lparr>cr_status_code := 401, cr_reason := ''invalid jwt''\<rparr>
           else
             let r1 = (case verified of
                         None \<Rightarrow> r
                       | Some c \<Rightarrow> r\<lparr>cr_principal := Some \<lparr>subject = jc_subject c, username = jc_username c,
                                                          roles = jc_roles c\<rparr>\<rparr>);
                 path_result = path_blacklist_check (ss_path_blacklist ss) path
             in if blocked path_result then r1\<lparr>cr_status_code := 403, cr_reason := ''path blocked''\<rparr>
                else if required_role path_result = [] then r1
                else if whitelisted then r1\<lparr>cr_status_code := 403, cr_reason := ''role required''\<rparr>
                else if (case verified of
                           None \<Rightarrow> True
                         | Some c \<Rightarrow> \<not> has_role_in (jc_roles c) (required_role path_result))
                then r1\<lparr>cr_status_code := 403, cr_reason := ''insufficient role''\<rparr>
                else r1)"

text \<open>\<open>None\<close> is undefined behaviour inside the limiter, which its invariant excludes.\<close>

definition check_snapshot ::
  "sec_env \<Rightarrow> request \<Rightarrow> security_snapshot option \<Rightarrow> limiter \<Rightarrow> (check_result \<times> limiter) option" where
  "check_snapshot env rq snap rl =
     (if rq_path rq = [] \<or> rq_path rq = ''/'' then Some (plain_result 404 ''not found'', rl)
      else case snap of
        None \<Rightarrow> Some (plain_result 500 ''security rules unavailable'', rl)
      | Some ss \<Rightarrow>
          let client_ip = get_client_ip (en_addr env) (rq_direct rq) (rq_xff rq) (ss_trusted_proxies ss);
              nip = normalize_ip (en_addr env) client_ip
          in if ni_addr nip = None then Some (plain_result 400 ''invalid client ip'', rl)
             else
               let r = (plain_result 0 [])\<lparr>cr_client_ip := ni_str nip, cr_jwt_disabled := (ss_jwt_auth ss = None)\<rparr>;
                   norm = normalize_path (rq_path rq) (ss_case_sensitive ss)
               in if \<not> np_valid norm then Some (plain_result 400 ''invalid path'', rl)
                  else
                    let path = np_path norm in
                    if ip_is_blocked (en_addr env) (ss_ip_blacklist ss) (ni_str nip)
                    then Some (r\<lparr>cr_status_code := 403, cr_reason := ''ip blocked''\<rparr>, rl)
                    else case ss_rate_policy ss of
                      None \<Rightarrow> Some (authorize env rq ss path r, rl)
                    | Some policy \<Rightarrow>
                        (case check_all (en_hash env) (en_rnd env) (en_now_ms env) rl (ni_str nip) path
                                (extract_service path) policy of
                           None \<Rightarrow> None
                         | Some (d, rl') \<Rightarrow>
                             if \<not> allowed d
                             then Some (r\<lparr>cr_status_code := 429, cr_reason := ''too many requests'',
                                          cr_retry_after_ms := retry_after_ms d\<rparr>, rl')
                             else Some (authorize env rq ss path r, rl')))"

section \<open>Publication\<close>

text \<open>
  The published state of the object: its snapshot, the limiter that successive snapshots share, the generation, and the
  process-wide counter of \<^verbatim>\<open>next_generation\<close> (whose 64 bits are not exhausted by reloads).
\<close>

record security_rules =
  sr_snapshot :: "security_snapshot option"
  sr_limiter :: "limiter option"
  sr_generation :: nat
  sr_counter :: nat

definition security_rules0 :: security_rules where
  "security_rules0 = \<lparr>sr_snapshot = None, sr_limiter = None, sr_generation = 0, sr_counter = 1\<rparr>"

text \<open>A prepared reload names the limiter its snapshot points to: \<open>None\<close> is the one already published.\<close>

record prepared_rules =
  pu_snapshot :: security_snapshot
  pu_limiter :: "limiter option"
  pu_rate_limiter_config :: "rl_config option"

definition next_generation :: "security_rules \<Rightarrow> nat \<times> security_rules" where
  "next_generation s = (sr_counter s, s\<lparr>sr_counter := sr_counter s + 1\<rparr>)"

definition rules_load :: "sec_env \<Rightarrow> config \<Rightarrow> security_rules \<Rightarrow> sec_error + security_rules" where
  "rules_load env cfg s =
     (case load_from_config env False cfg of
        Inl e \<Rightarrow> Inl e
      | Inr (ss, rl) \<Rightarrow>
          let (g, s1) = next_generation s
          in Inr (s1\<lparr>sr_snapshot := Some ss, sr_limiter := Some rl, sr_generation := g\<rparr>))"

text \<open>The staged object publishes to itself, which takes a number from the process-wide counter.\<close>

definition rules_prepare_reload ::
  "sec_env \<Rightarrow> config \<Rightarrow> security_rules \<Rightarrow> sec_error + prepared_rules \<times> security_rules" where
  "rules_prepare_reload env cfg s =
     (case load_from_config env True cfg of
        Inl e \<Rightarrow> Inl e
      | Inr (ss, rl) \<Rightarrow>
          let (_, s1) = next_generation s in
          if sr_snapshot s \<noteq> None \<and> sr_limiter s \<noteq> None \<and> ss_rate_policy ss \<noteq> None
          then Inr (\<lparr>pu_snapshot = ss, pu_limiter = None, pu_rate_limiter_config = ss_rate_policy ss\<rparr>, s1)
          else Inr (\<lparr>pu_snapshot = ss, pu_limiter = Some rl, pu_rate_limiter_config = None\<rparr>, s1))"

definition rules_publish_reload :: "prepared_rules \<Rightarrow> security_rules \<Rightarrow> security_rules" where
  "rules_publish_reload p s =
     (let current = (case pu_limiter p of Some rl \<Rightarrow> Some rl | None \<Rightarrow> sr_limiter s);
          rl = (case pu_rate_limiter_config p of
                  Some c \<Rightarrow> map_option (\<lambda>l. publish_config l c) current
                | None \<Rightarrow> current);
          (g, s1) = next_generation s
      in s1\<lparr>sr_snapshot := Some (pu_snapshot p), sr_limiter := rl, sr_generation := g\<rparr>)"

definition rules_reload :: "sec_env \<Rightarrow> config \<Rightarrow> security_rules \<Rightarrow> bool \<times> security_rules" where
  "rules_reload env cfg s =
     (case rules_prepare_reload env cfg s of
        Inl _ \<Rightarrow> (False, s)
      | Inr (p, s1) \<Rightarrow> (True, rules_publish_reload p s1))"

text \<open>One publication, after \<open>k\<close> numbers of the process-wide counter went elsewhere.\<close>

definition rules_published :: "nat \<times> prepared_rules \<Rightarrow> security_rules \<Rightarrow> security_rules" where
  "rules_published kp s = rules_publish_reload (snd kp) (s\<lparr>sr_counter := sr_counter s + fst kp\<rparr>)"

text \<open>
  The thread-local cache. The lock-free load of the generation sees the state \<open>s_load\<close>, the
  locked refresh the possibly later state \<open>s_lock\<close>. \<open>tc_owner\<close> says that the cache is this object's.
\<close>

record tls_cache =
  tc_owner :: bool
  tc_generation :: nat
  tc_holder :: "security_snapshot option"

definition tls_cache0 :: tls_cache where
  "tls_cache0 = \<lparr>tc_owner = False, tc_generation = 0, tc_holder = None\<rparr>"

definition snapshot_view_fast ::
  "tls_cache \<Rightarrow> security_rules \<Rightarrow> security_rules \<Rightarrow> (security_snapshot option \<times> nat) \<times> tls_cache" where
  "snapshot_view_fast c s_load s_lock =
     (let c' = (if \<not> tc_owner c \<or> tc_generation c \<noteq> sr_generation s_load
                then \<lparr>tc_owner = True, tc_generation = sr_generation s_lock, tc_holder = sr_snapshot s_lock\<rparr>
                else c)
      in ((tc_holder c', tc_generation c'), c'))"

record request_check_result =
  rc_security :: check_result
  rc_cors_policy :: "cors_policy option"
  rc_generation :: nat

definition check_request ::
  "sec_env \<Rightarrow> request \<Rightarrow> tls_cache \<Rightarrow> security_rules \<Rightarrow> security_rules \<Rightarrow> limiter \<Rightarrow>
     (request_check_result \<times> tls_cache \<times> limiter) option" where
  "check_request env rq c s_load s_lock rl =
     (let (view, c') = snapshot_view_fast c s_load s_lock;
          cors = (case fst view of
                    Some ss \<Rightarrow> if cp_enabled (ss_cors ss) then Some (ss_cors ss) else None
                  | None \<Rightarrow> None)
      in case check_snapshot env rq (fst view) rl of
           None \<Rightarrow> None
         | Some (r, rl') \<Rightarrow> Some (\<lparr>rc_security = r, rc_cors_policy = cors, rc_generation = snd view\<rparr>, c', rl'))"

section \<open>Admission\<close>

text \<open>What the access rules say of a request on the normalised path, apart from the rate limits.\<close>

definition verified_claims :: "sec_env \<Rightarrow> request \<Rightarrow> security_snapshot \<Rightarrow> jwt_claims option" where
  "verified_claims env rq ss =
     Option.bind (ss_jwt_auth ss) (\<lambda>ja. jwt_verify (en_jwt env) (en_now_ns env) ja (rq_auth rq))"

definition access_granted :: "sec_env \<Rightarrow> request \<Rightarrow> security_snapshot \<Rightarrow> string \<Rightarrow> bool" where
  "access_granted env rq ss path \<longleftrightarrow>
     rq_method rq = ''OPTIONS'' \<or>
     (let open_path = is_whitelisted (ss_auth_whitelist ss) path (extract_service path);
          role = required_role (path_blacklist_check (ss_path_blacklist ss) path)
      in \<not> blocked (path_blacklist_check (ss_path_blacklist ss) path) \<and>
         (open_path \<or> ss_jwt_auth ss = None \<or> verified_claims env rq ss \<noteq> None) \<and>
         (role = [] \<or> \<not> open_path \<and> (\<exists>c. verified_claims env rq ss = Some c \<and> role \<in> set (jc_roles c))))"

lemma has_role_in_iff: "has_role_in rs r \<longleftrightarrow> r \<in> set rs"
  by (induction rs) auto

lemma authorize_admits_iff:
  assumes "cr_status_code r = 0"
  shows "cr_status_code (authorize env rq ss path r) = 0 \<longleftrightarrow> access_granted env rq ss path"
  using assms
  by (cases "verified_claims env rq ss"; cases "ss_jwt_auth ss")
    (auto simp: authorize_def access_granted_def verified_claims_def plain_result_def Let_def has_role_in_iff)

definition request_ip :: "sec_env \<Rightarrow> request \<Rightarrow> security_snapshot \<Rightarrow> normalized_ip" where
  "request_ip env rq ss =
     normalize_ip (en_addr env) (get_client_ip (en_addr env) (rq_direct rq) (rq_xff rq) (ss_trusted_proxies ss))"

lemmas check_snapshot_unfold = check_snapshot_def request_ip_def [symmetric] Let_def

text \<open>
  C11. On a consistent limiter the chain always completes and leaves a consistent limiter, and
  for every snapshot that has a rate policy it answers status 0 exactly when: the path is neither empty nor the root and
  normalises, the client address parses and no blacklist rule blocks it, all rate limits admit the request, and (unless it is
  an \<^verbatim>\<open>OPTIONS\<close> request) the path is not blocked, is whitelisted or carries accepted claims or tokens are
  disabled, and a required role is among the claims of a verified token, which a whitelisted path never has.
\<close>

theorem check_decides_admission:
  assumes "limiter_ok rl" and "ss_rate_policy ss = Some policy"
  shows "\<exists>r rl'. check_snapshot env rq (Some ss) rl = Some (r, rl') \<and> limiter_ok rl' \<and>
    (cr_status_code r = 0 \<longleftrightarrow>
       rq_path rq \<noteq> [] \<and> rq_path rq \<noteq> ''/'' \<and>
       (let ip = request_ip env rq ss; norm = normalize_path (rq_path rq) (ss_case_sensitive ss);
            path = np_path norm
        in ni_addr ip \<noteq> None \<and> np_valid norm \<and> \<not> ip_is_blocked (en_addr env) (ss_ip_blacklist ss) (ni_str ip) \<and>
          (\<exists>d rl1. check_all (en_hash env) (en_rnd env) (en_now_ms env) rl (ni_str ip) path (extract_service path)
             policy = Some (d, rl1) \<and> allowed d) \<and>
          access_granted env rq ss path))"
proof -
  obtain d rl1 where c: "check_all (en_hash env) (en_rnd env) (en_now_ms env) rl (ni_str (request_ip env rq ss))
      (np_path (normalize_path (rq_path rq) (ss_case_sensitive ss)))
      (extract_service (np_path (normalize_path (rq_path rq) (ss_case_sensitive ss)))) policy = Some (d, rl1)"
    "limiter_ok rl1"
    using check_all_total [OF assms(1)] by blast
  show ?thesis
    unfolding check_snapshot_unfold using assms c by (simp add: plain_result_def authorize_admits_iff)
qed

lemma check_snapshot_granted:
  assumes "check_snapshot env rq (Some ss) rl = Some (r, rl')" and "cr_status_code r = 0"
    and "rq_method rq \<noteq> ''OPTIONS''"
  shows "let path = np_path (normalize_path (rq_path rq) (ss_case_sensitive ss)) in
    access_granted env rq ss path \<and>
    (\<not> is_whitelisted (ss_auth_whitelist ss) path (extract_service path) \<longrightarrow>
       cr_principal r = map_option (\<lambda>c. \<lparr>subject = jc_subject c, username = jc_username c, roles = jc_roles c\<rparr>)
         (verified_claims env rq ss))"
proof -
  define path where "path = np_path (normalize_path (rq_path rq) (ss_case_sensitive ss))"
  obtain r0 where r: "r = authorize env rq ss path r0" and r0: "cr_status_code r0 = 0" "cr_principal r0 = None"
    using assms(1,2) unfolding check_snapshot_unfold path_def
    by (auto simp: plain_result_def split: if_splits option.splits prod.splits)
  have a: "access_granted env rq ss path" using assms(2) r authorize_admits_iff [OF r0(1)] by simp
  moreover have "cr_principal r = map_option (\<lambda>c. \<lparr>subject = jc_subject c, username = jc_username c, roles = jc_roles c\<rparr>)
      (verified_claims env rq ss)" if "\<not> is_whitelisted (ss_auth_whitelist ss) path (extract_service path)"
    using that a assms(3) r0
    by (auto simp: r authorize_def access_granted_def verified_claims_def [symmetric] Let_def
        split: option.splits)
  ultimately show ?thesis by (simp add: path_def)
qed

lemma load_from_config_parts:
  assumes "load_from_config env staging cfg = Inr (ss, rl)"
  shows "build_jwt_auth env cfg = Inr (ss_jwt_auth ss)"
    and "ss_auth_whitelist ss =
      auth_whitelist_reload (normalize_path_items (get_list cfg ''auth_whitelist'') (ss_case_sensitive ss))"
    and "ss_rate_policy ss = Some (lim_cfg rl)"
    and "limiter_ok rl"
  using assms
  by (auto simp: load_from_config_def Let_def limiter_start_ok split: sum.splits)

lemma build_jwt_auth_requires:
  assumes "build_jwt_auth env cfg = Inr j" and "get_bool cfg ''security'' ''jwt_disabled'' False = Inr False"
  shows "\<exists>ja secret public_key. j = Some ja \<and>
    jwt_auth_new (en_jwt env) secret (config_get cfg ''security'' ''jwt_issuer'' ''asio_owen'') (ja_algorithm ja)
      public_key = Inr ja \<and>
    ja_issuer ja = config_get cfg ''security'' ''jwt_issuer'' ''asio_owen'' \<and>
    (ja_algorithm ja = ''HS256'' \<longrightarrow> ja_secret ja = config_get cfg ''security'' ''jwt_secret'' [] \<and> ja_secret ja \<noteq> [])"
proof -
  have new: "jwt_auth_new lib secret issuer algorithm key = Inr ja \<Longrightarrow>
      ja_algorithm ja = algorithm \<and> ja_issuer ja = issuer \<and> ja_secret ja = secret" for lib secret issuer algorithm key ja
    by (auto simp: jwt_auth_new_def Let_def split: if_splits)
  define alg where "alg = (let c = config_get cfg ''security'' ''jwt_algorithm'' [] in if c = [] then ''HS256'' else c)"
  let ?secret = "config_get cfg ''security'' ''jwt_secret'' []"
  let ?issuer = "config_get cfg ''security'' ''jwt_issuer'' ''asio_owen''"
  obtain ja where ja: "j = Some ja" "jwt_auth_new (en_jwt env) ?secret ?issuer alg (jwt_public_key env cfg alg) = Inr ja"
    "alg = ''HS256'' \<longrightarrow> ?secret \<noteq> []"
    using assms unfolding build_jwt_auth_def Let_def alg_def
    by (auto split: if_splits sum.splits)
  then show ?thesis using new [OF ja(2)] by auto
qed

text \<open>
  C12. Take any configuration that loads and does not disable tokens. A request other than
  \<^verbatim>\<open>OPTIONS\<close> that the chain admits on a path which no whitelist item admits carried a bearer token that decodes, has the configured
  issuer, a confirmed signature under the configured algorithm, an expiry that is not past and no later
  activation; with HS256 the secret is the configured one and not empty. The principal handed on is the one of that token.
\<close>

theorem protected_path_needs_token:
  assumes "load_from_config env staging cfg = Inr (ss, rl0)"
    and "get_bool cfg ''security'' ''jwt_disabled'' False = Inr False"
    and "check_snapshot env rq (Some ss) rl = Some (r, rl')" and "cr_status_code r = 0"
    and "rq_method rq \<noteq> ''OPTIONS''"
    and "path = np_path (normalize_path (rq_path rq) (ss_case_sensitive ss))"
    and "\<forall>item \<in> set (normalize_path_items (get_list cfg ''auth_whitelist'') (ss_case_sensitive ss)).
      \<not> item_admits path (extract_service path) item"
  shows "\<exists>ja token d claims. ss_jwt_auth ss = Some ja \<and>
    extract_token (rq_auth rq) = Some token \<and> jwt_decode (en_jwt env) token = Some d \<and>
    token_valid (en_jwt env) (en_now_ns env) ja d \<and>
    ja_issuer ja = config_get cfg ''security'' ''jwt_issuer'' ''asio_owen'' \<and>
    (ja_algorithm ja = ''HS256'' \<longrightarrow> ja_secret ja = config_get cfg ''security'' ''jwt_secret'' [] \<and> ja_secret ja \<noteq> []) \<and>
    extract_claims token d = Some claims \<and>
    cr_principal r = Some \<lparr>subject = jc_subject claims, username = jc_username claims, roles = jc_roles claims\<rparr>"
proof -
  note parts = load_from_config_parts [OF assms(1)]
  obtain ja secret key where ja: "ss_jwt_auth ss = Some ja"
    "jwt_auth_new (en_jwt env) secret (config_get cfg ''security'' ''jwt_issuer'' ''asio_owen'') (ja_algorithm ja) key = Inr ja"
    "ja_issuer ja = config_get cfg ''security'' ''jwt_issuer'' ''asio_owen''"
    "ja_algorithm ja = ''HS256'' \<longrightarrow> ja_secret ja = config_get cfg ''security'' ''jwt_secret'' [] \<and> ja_secret ja \<noteq> []"
    using build_jwt_auth_requires [OF parts(1) assms(2)] by blast
  have nw: "\<not> is_whitelisted (ss_auth_whitelist ss) path (extract_service path)"
    using assms(7) by (simp add: parts(2) whitelist_admits_iff)
  then have g: "access_granted env rq ss path"
    "cr_principal r = map_option (\<lambda>c. \<lparr>subject = jc_subject c, username = jc_username c, roles = jc_roles c\<rparr>)
       (verified_claims env rq ss)"
    using check_snapshot_granted [OF assms(3-5)] by (simp_all add: assms(6) Let_def)
  then obtain claims where c: "verified_claims env rq ss = Some claims"
    using nw ja(1) assms(5) by (auto simp: access_granted_def Let_def)
  then have "jwt_verify (en_jwt env) (en_now_ns env) ja (rq_auth rq) = Some claims"
    by (simp add: verified_claims_def ja(1))
  from jwt_verify_valid [OF ja(2) this] show ?thesis using ja g(2) c by auto
qed

definition demo_env :: sec_env where
  "demo_env = \<lparr>en_addr = demo_lib, en_jwt = demo_jwt_lib, en_hash = length, en_rnd = (\<lambda>x. x), en_now_ms = 100000,
     en_now_ns = 50, en_strtod = (\<lambda>_. (0, 0, True)), en_stod = (\<lambda>_. None), en_read_file = (\<lambda>_. None),
     en_jwks_pem = (\<lambda>_ _. []), en_doubles = demo_repr\<rparr>"

definition demo_sec_cfg :: config where
  "demo_sec_cfg = \<lparr>cfg_data = [''security.jwt_secret'' \<mapsto> ''key''], cfg_raw = [(''auth_whitelist'', [], ''/public/'')]\<rparr>"

definition demo_request :: request where
  "demo_request = \<lparr>rq_direct = Some ''ABCD'', rq_method = ''GET'', rq_path = ''/orders/1'', rq_xff = [],
     rq_auth = ''bearer tok''\<rparr>"

definition demo_rules :: "security_snapshot \<times> limiter" where
  "demo_rules = (case load_from_config demo_env True demo_sec_cfg of Inr x \<Rightarrow> x | Inl _ \<Rightarrow> undefined)"

lemma demo_loads: "load_from_config demo_env True demo_sec_cfg = Inr (fst demo_rules, snd demo_rules)"
proof -
  have "\<not> isl (load_from_config demo_env True demo_sec_cfg)" by code_simp
  then show ?thesis by (cases "load_from_config demo_env True demo_sec_cfg") (auto simp: demo_rules_def)
qed

lemma demo_admitted:
  "\<exists>r rl. check_snapshot demo_env demo_request (Some (fst demo_rules)) (snd demo_rules) = Some (r, rl) \<and>
     cr_status_code r = 0"
proof -
  have "map_option (cr_status_code \<circ> fst) (check_snapshot demo_env demo_request (Some (fst demo_rules)) (snd demo_rules)) =
      Some 0" by code_simp
  then show ?thesis by auto
qed

theorem check_decides_admission_witness:
  "\<exists>r rl'. check_snapshot demo_env demo_request (Some (fst demo_rules)) (snd demo_rules) = Some (r, rl') \<and>
     limiter_ok rl' \<and> access_granted demo_env demo_request (fst demo_rules) ''/orders/1''"
proof -
  have p: "np_path (normalize_path (rq_path demo_request) (ss_case_sensitive (fst demo_rules))) = ''/orders/1''"
    by code_simp
  show ?thesis
    using check_decides_admission [OF load_from_config_parts(4,3) [OF demo_loads], of demo_env demo_request] demo_admitted
    by (auto simp: Let_def p)
qed

theorem protected_path_needs_token_witness:
  "\<exists>r rl'. check_snapshot demo_env demo_request (Some (fst demo_rules)) (snd demo_rules) = Some (r, rl') \<and>
     (\<exists>token d. extract_token ''bearer tok'' = Some token \<and> jwt_decode demo_jwt_lib token = Some d \<and>
        token_valid demo_jwt_lib 50 demo_auth d)"
proof -
  obtain r rl where r: "check_snapshot demo_env demo_request (Some (fst demo_rules)) (snd demo_rules) = Some (r, rl)"
    "cr_status_code r = 0" using demo_admitted by blast
  have 1: "get_bool demo_sec_cfg ''security'' ''jwt_disabled'' False = Inr False" by code_simp
  have 2: "rq_method demo_request \<noteq> ''OPTIONS''" by code_simp
  have 3: "\<forall>item \<in> set (normalize_path_items (get_list demo_sec_cfg ''auth_whitelist'') (ss_case_sensitive (fst demo_rules))).
      \<not> item_admits (np_path (normalize_path (rq_path demo_request) (ss_case_sensitive (fst demo_rules))))
          (extract_service (np_path (normalize_path (rq_path demo_request) (ss_case_sensitive (fst demo_rules))))) item"
  proof -
    have i: "normalize_path_items (get_list demo_sec_cfg ''auth_whitelist'') (ss_case_sensitive (fst demo_rules)) =
        [''/public/'']" by code_simp
    have p: "np_path (normalize_path (rq_path demo_request) (ss_case_sensitive (fst demo_rules))) = ''/orders/1''"
      by code_simp
    show ?thesis unfolding i p by (simp add: item_admits_def)
  qed
  have 4: "ss_jwt_auth (fst demo_rules) = Some demo_auth"
    by code_simp
  show ?thesis
    using protected_path_needs_token [OF demo_loads 1 r 2 refl 3] r(1) 4
    by (auto simp: demo_env_def demo_request_def)
qed

section \<open>Reloads\<close>

lemma rules_publish_reload_simps [simp]:
  "sr_snapshot (rules_publish_reload p s) = Some (pu_snapshot p)"
  "sr_generation (rules_publish_reload p s) = sr_counter s"
  "sr_counter (rules_publish_reload p s) = sr_counter s + 1"
  by (simp_all add: rules_publish_reload_def next_generation_def Let_def)

definition rules_ok :: "security_rules \<Rightarrow> bool" where
  "rules_ok s \<longleftrightarrow> sr_generation s < sr_counter s"

interpretation rules_publisher: snapshot_publisher rules_ok sr_snapshot sr_generation rules_published
  "\<lambda>kp. Some (pu_snapshot (snd kp))"
  by unfold_locales (auto simp: rules_ok_def rules_published_def)

text \<open>
  A reload of running rules whose configuration does not load changes nothing. One that loads keeps the
  contents of every bucket of the limiter (a reload does not refill anybody), gives the limiter the new policy,
  publishes a strictly larger generation, and the new rules verify tokens unless the configuration disables
  that explicitly: a missing secret or key never turns authentication off.
\<close>

lemma rules_reload_keeps_limits:
  assumes "rules_ok s" and "sr_snapshot s \<noteq> None" and "sr_limiter s = Some rl"
  shows "case rules_reload env cfg s of
      (False, s') \<Rightarrow> s' = s
    | (True, s') \<Rightarrow> sr_generation s < sr_generation s' \<and> rules_ok s' \<and>
        (\<exists>ss rl'. sr_snapshot s' = Some ss \<and> sr_limiter s' = Some rl' \<and>
           shards rl' = shards rl \<and> lim_global rl' = lim_global rl \<and> ss_rate_policy ss = Some (lim_cfg rl') \<and>
           (ss_jwt_auth ss = None \<longrightarrow> get_bool cfg ''security'' ''jwt_disabled'' False = Inr True))"
proof (cases "load_from_config env True cfg")
  case (Inl e)
  then show ?thesis by (simp add: rules_reload_def rules_prepare_reload_def)
next
  case (Inr x)
  then obtain ss rl0 where l: "load_from_config env True cfg = Inr (ss, rl0)" by (cases x) auto
  note parts = load_from_config_parts [OF l]
  have "ss_jwt_auth ss = None \<longrightarrow> get_bool cfg ''security'' ''jwt_disabled'' False = Inr True"
  proof (cases "get_bool cfg ''security'' ''jwt_disabled'' False")
    case (Inl e)
    then show ?thesis using parts(1) by (simp add: build_jwt_auth_def)
  next
    case (Inr b)
    then show ?thesis using build_jwt_auth_requires [OF parts(1)] by (cases b) auto
  qed
  then show ?thesis
    using assms parts(3)
    by (auto simp: rules_reload_def rules_prepare_reload_def l rules_ok_def next_generation_def
        rules_publish_reload_def publish_config_def Let_def)
qed

definition demo_running :: security_rules where
  "demo_running = \<lparr>sr_snapshot = Some (fst demo_rules), sr_limiter = Some (snd demo_rules), sr_generation = 1, sr_counter = 2\<rparr>"

text \<open>What a thread's cache and the published state go through: publications, refreshes by this thread while publications
  go on, and use of the cache for another object.\<close>

inductive tls_run :: "security_rules \<Rightarrow> tls_cache \<Rightarrow> bool" where
  start: "rules_ok s \<Longrightarrow> tls_run s tls_cache0"
| publication: "tls_run s c \<Longrightarrow> tls_run (rules_published kp s) c"
| other_object: "tls_run s c \<Longrightarrow> tls_run s \<lparr>tc_owner = False, tc_generation = g, tc_holder = h\<rparr>"
| view: "tls_run s c \<Longrightarrow> publish_run rules_published s t \<Longrightarrow> tls_run t (snd (snapshot_view_fast c s t))"

lemma tls_run_ok:
  assumes "tls_run s c"
  shows "rules_ok s \<and> (tc_owner c \<longrightarrow>
    (\<exists>s0. rules_ok s0 \<and> publish_run rules_published s0 s \<and> tc_holder c = sr_snapshot s0 \<and> tc_generation c = sr_generation s0))"
  using assms
proof (induction rule: tls_run.induct)
  case (publication s c kp)
  then show ?case using rules_publisher.publish_ok by (blast intro: publish_run.more)
next
  case (view s c t)
  have "rules_ok t" using view rules_publisher.run_ok by blast
  then show ?case
    using view by (auto simp: snapshot_view_fast_def intro: publish_run.none publish_run_trans)
qed (auto simp: tls_cache0_def)

text \<open>
  However publications interleave with a thread's reads, the view it gets is a snapshot
  and a generation that were published together, at some moment between its lock-free load of the
  generation and the end of its refresh: never a torn pair, never one older than the load.
\<close>

lemma snapshot_view_between:
  assumes "tls_run s_load c" and "publish_run rules_published s_load s_lock"
  shows "\<exists>s. publish_run rules_published s_load s \<and> publish_run rules_published s s_lock \<and>
    fst (snapshot_view_fast c s_load s_lock) = (sr_snapshot s, sr_generation s)"
proof (cases "tc_owner c \<and> tc_generation c = sr_generation s_load")
  case True
  then obtain s0 where s0: "rules_ok s0" "publish_run rules_published s0 s_load" "tc_holder c = sr_snapshot s0"
    "tc_generation c = sr_generation s0"
    using tls_run_ok [OF assms(1)] by blast
  then have "s_load = s0" using True rules_publisher.same_gen_same_state [OF s0(2,1)] by simp
  then show ?thesis using True s0 assms(2) by (auto simp: snapshot_view_fast_def intro: publish_run.none)
next
  case False
  then show ?thesis using assms(2) by (auto simp: snapshot_view_fast_def Let_def intro: publish_run.none)
qed

end
