(* ===== verification/Json_Transform.thy ===== *)
theory Json_Transform
  imports Prelude
begin

text \<open>
  The key rewriting of proxied JSON, \<^verbatim>\<open>src/http/json_transform.hpp\<close>: one pass over the text with a stack of
  scopes.
\<close>

datatype scope_kind = Object | Array

record json_scope =
  sc_kind :: scope_kind
  sc_expect_key :: bool

text \<open>The top of the stack is the head of the list.\<close>

record json_state =
  js_scopes :: "json_scope list"
  js_in_string :: bool
  js_in_key :: bool
  js_next_upper :: bool

definition json_state0 :: json_state where
  "json_state0 = \<lparr>js_scopes = [], js_in_string = False, js_in_key = False, js_next_upper = False\<rparr>"

definition current_object_expects_key :: "json_state \<Rightarrow> bool" where
  "current_object_expects_key s =
     (case js_scopes s of [] \<Rightarrow> False | sc # _ \<Rightarrow> sc_kind sc = Object \<and> sc_expect_key sc)"

definition set_top_expect :: "bool \<Rightarrow> json_scope list \<Rightarrow> json_scope list" where
  "set_top_expect b scs =
     (case scs of [] \<Rightarrow> [] | sc # r \<Rightarrow> if sc_kind sc = Object then sc\<lparr>sc_expect_key := b\<rparr> # r else scs)"

text \<open>The scope changes after a character outside strings.\<close>

definition scope_step :: "char \<Rightarrow> json_scope list \<Rightarrow> json_scope list" where
  "scope_step c scs =
     (if c = CHR ''{'' then \<lparr>sc_kind = Object, sc_expect_key = True\<rparr> # scs
      else if c = CHR ''['' then \<lparr>sc_kind = Array, sc_expect_key = False\<rparr> # scs
      else if c = CHR ''}'' \<or> c = CHR '']'' then tl scs
      else if c = CHR '','' then set_top_expect True scs
      else scs)"

text \<open>Inside a string, a backslash copies itself and the following character.\<close>

fun json_loop :: "json_state \<Rightarrow> string \<Rightarrow> string" where
  "json_loop s [] = []"
| "json_loop s (c # cs) =
     (if js_in_string s then
        if c = BACKSLASH \<and> cs \<noteq> [] then
          (case cs of d # cs' \<Rightarrow> c # d # json_loop s cs' | [] \<Rightarrow> [])
        else if c = DQUOTE then
          c # json_loop (s\<lparr>js_scopes := (if js_in_key s then set_top_expect False (js_scopes s) else js_scopes s),
                           js_in_string := False, js_in_key := False, js_next_upper := False\<rparr>) cs
        else if js_in_key s then
          if c = CHR ''_'' then json_loop (s\<lparr>js_next_upper := True\<rparr>) cs
          else if js_next_upper s then toupper c # json_loop (s\<lparr>js_next_upper := False\<rparr>) cs
          else c # json_loop s cs
        else c # json_loop s cs
      else if c = DQUOTE then
        c # json_loop (s\<lparr>js_in_string := True, js_in_key := current_object_expects_key s,
                         js_next_upper := False\<rparr>) cs
      else c # json_loop (s\<lparr>js_scopes := scope_step c (js_scopes s)\<rparr>) cs)"

declare json_loop.simps [simp del]

lemma json_loop_Nil [simp]: "json_loop s [] = []"
  by (simp add: json_loop.simps)

lemma json_loop_escape:
  "js_in_string s \<Longrightarrow> json_loop s (BACKSLASH # d # cs) = BACKSLASH # d # json_loop s cs"
  by (simp add: json_loop.simps)

lemma json_loop_other:
  "\<not> (js_in_string s \<and> c = BACKSLASH \<and> cs \<noteq> []) \<Longrightarrow>
   json_loop s (c # cs) =
     (if js_in_string s then
        if c = DQUOTE then
          c # json_loop (s\<lparr>js_scopes := (if js_in_key s then set_top_expect False (js_scopes s) else js_scopes s),
                           js_in_string := False, js_in_key := False, js_next_upper := False\<rparr>) cs
        else if js_in_key s then
          if c = CHR ''_'' then json_loop (s\<lparr>js_next_upper := True\<rparr>) cs
          else if js_next_upper s then toupper c # json_loop (s\<lparr>js_next_upper := False\<rparr>) cs
          else c # json_loop s cs
        else c # json_loop s cs
      else if c = DQUOTE then
        c # json_loop (s\<lparr>js_in_string := True, js_in_key := current_object_expects_key s,
                         js_next_upper := False\<rparr>) cs
      else c # json_loop (s\<lparr>js_scopes := scope_step c (js_scopes s)\<rparr>) cs)"
  by (cases "js_in_string s"; cases "c = BACKSLASH") (simp_all add: json_loop.simps(2))

definition json_keys_snake_to_camel :: "string \<Rightarrow> string" where
  "json_keys_snake_to_camel json = (if json = [] then json else json_loop json_state0 json)"

section \<open>Facts\<close>

text \<open>What is left of a text when underscores and letter case are ignored.\<close>

definition squash :: "string \<Rightarrow> string" where
  "squash s = map tolower (filter (\<lambda>c. c \<noteq> CHR ''_'') s)"

lemma toupper_underscore: "toupper c = CHR ''_'' \<longleftrightarrow> c = CHR ''_''"
  by (rule toupper_eq_nonletter) (simp_all add: isupper_def islower_def)

lemma squash_Cons [simp]: "squash (c # cs) = (if c = CHR ''_'' then squash cs else tolower c # squash cs)"
  by (simp add: squash_def)

lemma squash_json_loop: "squash (json_loop s cs) = squash cs"
proof (induction "length cs" arbitrary: s cs rule: less_induct)
  case less
  show ?case
  proof (cases cs)
    case (Cons c cs1)
    have ih: "squash (json_loop s' cs1) = squash cs1" for s' using less Cons by simp
    show ?thesis
    proof (cases "js_in_string s \<and> c = BACKSLASH \<and> cs1 \<noteq> []")
      case True
      then obtain d cs2 where c: "cs1 = d # cs2" "c = BACKSLASH" by (cases cs1) auto
      have "squash (json_loop s cs2) = squash cs2" using less Cons c by simp
      then show ?thesis using True Cons c by (simp add: json_loop_escape)
    next
      case False
      then show ?thesis
        unfolding Cons by (subst json_loop_other [OF False]) (auto simp: ih toupper_underscore DQUOTE_def)
    qed
  qed simp
qed

lemma json_loop_id: "CHR ''_'' \<notin> set cs \<Longrightarrow> \<not> js_next_upper s \<Longrightarrow> json_loop s cs = cs"
proof (induction "length cs" arbitrary: s cs rule: less_induct)
  case less
  show ?case
  proof (cases cs)
    case (Cons c cs1)
    have ih: "\<not> js_next_upper s' \<Longrightarrow> json_loop s' cs1 = cs1" for s' using less Cons by simp
    show ?thesis
    proof (cases "js_in_string s \<and> c = BACKSLASH \<and> cs1 \<noteq> []")
      case True
      then obtain d cs2 where c: "cs1 = d # cs2" "c = BACKSLASH" by (cases cs1) auto
      have "json_loop s cs2 = cs2" using less Cons c by simp
      then show ?thesis using True Cons c by (simp add: json_loop_escape)
    next
      case False
      have "c \<noteq> CHR ''_''" using less.prems(1) Cons by auto
      then show ?thesis
        using less.prems(2) unfolding Cons by (subst json_loop_other [OF False]) (simp add: ih)
    qed
  qed simp
qed

text \<open>
  The rewriting never loses or invents content: ignoring underscores and letter case the output is the
  input, on any text, well-formed JSON or not; and a text without underscores is returned unchanged.
\<close>

lemma json_rename_preserves_content:
  "squash (json_keys_snake_to_camel s) = squash s \<and>
   (CHR ''_'' \<notin> set s \<longrightarrow> json_keys_snake_to_camel s = s)"
  using squash_json_loop json_loop_id by (simp add: json_keys_snake_to_camel_def json_state0_def)

subsection \<open>String values are kept verbatim\<close>

text \<open>A string literal without its opening quote, read up to its closing quote.\<close>

fun string_tail :: "string \<Rightarrow> bool" where
  "string_tail [] = False"
| "string_tail (c # cs) =
     (if c = BACKSLASH then (case cs of d # cs' \<Rightarrow> string_tail cs' | [] \<Rightarrow> False)
      else if c = DQUOTE then cs = [] else string_tail cs)"

lemma json_loop_value:
  assumes "string_tail v" and "js_in_string s" and "\<not> js_in_key s"
  shows "json_loop s (v @ rest) =
    v @ json_loop (s\<lparr>js_in_string := False, js_in_key := False, js_next_upper := False\<rparr>) rest"
  using assms
proof (induction v arbitrary: s rule: string_tail.induct)
  case (2 c cs)
  show ?case
  proof (cases "c = BACKSLASH")
    case True
    then obtain d cs' where c: "cs = d # cs'" "string_tail cs'" using 2(3) by (auto split: list.splits)
    have "json_loop s (cs' @ rest) =
        cs' @ json_loop (s\<lparr>js_in_string := False, js_in_key := False, js_next_upper := False\<rparr>) rest"
      using 2 True c by simp
    then show ?thesis using 2(4) True c by (simp add: json_loop_escape)
  next
    case False
    then show ?thesis
      using 2 by (cases "c = DQUOTE") (auto simp: json_loop_other)
  qed
qed simp

end
