(* ===== verification/Client_Session.thy ===== *)
theory Client_Session
  imports Proxy_Forwarder Security_Rules Json_Transform
begin

text \<open>
  One request of a client connection, \<^verbatim>\<open>ClientSession::run\<close> of \<^verbatim>\<open>src/http/client_session.hpp\<close>, in the order of the
  source: reading the header block, the body, the security check, preflight, local routes, the consistency loop around
  the route lookup, the exchange with the upstream, the response and the decision to keep the connection. The
  request parser (the vendored picohttpparser) and the route handlers are parameters. \<open>None\<close> means suspended, or an
  operation without a result that the invariants of its component exclude.
\<close>

section \<open>Reading the request\<close>

datatype header_read = Client_stopped | Header_too_large | Header_block string

fun read_client_header :: "reader \<Rightarrow> string \<Rightarrow> read_event list \<Rightarrow> (header_read \<times> read_event list) option" where
  "read_client_header rd preread evs =
     (if find_sub (CRLF @ CRLF) preread \<noteq> None then Some (Header_block preread, evs)
      else case evs of
        [] \<Rightarrow> None
      | ev # evs' \<Rightarrow>
          let r = rd ev in
          if \<not> io_ok r then Some (Client_stopped, evs')
          else if length (preread @ io_data r) > kMaxHeaderSize then Some (Header_too_large, evs')
          else read_client_header rd (preread @ io_data r) evs')"

declare read_client_header.simps [simp del]

text \<open>The result of \<^verbatim>\<open>phr_parse_request\<close>; \<open>None\<close> is a negative return value.\<close>

record parsed_request =
  pq_method :: string
  pq_path :: string
  pq_minor_version :: int
  pq_headers :: headers
  pq_consumed :: nat

definition new_context :: "parsed_request \<Rightarrow> http_context \<times> header_parse_state" where
  "new_context pq =
     (let (hs, st) = parse_header_pairs (pq_headers pq) in
      (\<lparr>cx_method = pq_method pq, cx_path = pq_path pq, cx_body = [], cx_headers = hs, cx_status_code = 200,
        cx_status_text = [], cx_response_body = [], cx_response_headers = [], cx_principal = None,
        cx_admin_principal = None, cx_client_ip = [], cx_jwt_disabled = False\<rparr>, st))"

definition answer :: "int \<Rightarrow> string \<Rightarrow> http_context \<Rightarrow> http_context" where
  "answer status msg ctx = ctx\<lparr>cx_status_code := status, cx_response_body :=
     ''{'' @ [DQUOTE] @ ''code'' @ [DQUOTE] @ '':'' @ dec_of_int status @ '','' @ [DQUOTE] @ ''msg'' @ [DQUOTE] @ '':'' @
     [DQUOTE] @ msg @ [DQUOTE] @ ''}''\<rparr>"

definition body_failure :: "body_read_status \<Rightarrow> string \<Rightarrow> http_context \<Rightarrow> http_context" where
  "body_failure status msg ctx =
     (if status = TooLarge then answer 413 ''body too large'' ctx
      else if status = body_read_status.Timeout then answer 408 ''request timeout'' ctx
      else answer 400 msg ctx)"

text \<open>The context, whether the request is already answered, and the bytes kept for the next request.\<close>

definition read_request_body ::
  "reader \<Rightarrow> header_parse_state \<Rightarrow> http_context \<Rightarrow> string \<Rightarrow> read_event list \<Rightarrow>
   ((http_context \<times> bool \<times> string) \<times> read_event list) option" where
  "read_request_body rd st ctx preread evs =
     (if request_framing_invalid st then Some ((answer 400 ''invalid request framing'' ctx, True, []), evs)
      else if is_chunked st then
        map_option (\<lambda>(r, rest, evs').
            (if body_ok r then (ctx\<lparr>cx_body := br_body r\<rparr>, False, rest)
             else (body_failure (br_status r) ''invalid chunked body'' ctx, True, rest), evs'))
          (read_chunked_body rd preread kMaxBodySize evs)
      else case content_length st of
        Some n \<Rightarrow>
          map_option (\<lambda>(r, rest, evs').
              (if body_ok r then (ctx\<lparr>cx_body := br_body r\<rparr>, False, rest)
               else (body_failure (br_status r) ''invalid request body'' ctx, True, rest), evs'))
            (read_content_length_body rd preread n kMaxBodySize evs)
      | None \<Rightarrow> Some ((ctx\<lparr>cx_body := []\<rparr>, False, preread), evs))"

section \<open>The security check and the route lookup\<close>

text \<open>
  Both configuration objects, which reloads replace while the request runs. A request looks at them at several moments; each
  look is recorded as the state it saw.
\<close>

record gateway =
  gw_rules :: security_rules
  gw_ups :: upstream_manager

record check_view =
  cv_load :: gateway
  cv_lock :: gateway
  cv_cache :: tls_cache
  cv_env :: sec_env
  cv_limiter :: limiter

record attempt_view =
  av_generation :: gateway
  av_check :: check_view
  av_before :: gateway
  av_route :: gateway
  av_after :: gateway
  av_rules_after :: gateway

record session_request =
  se_ctx :: http_context
  se_handled :: bool
  se_generation :: nat
  se_cors :: "cors_policy option"

definition request_of :: "string option \<Rightarrow> http_context \<Rightarrow> request" where
  "request_of direct ctx = \<lparr>rq_direct = direct, rq_method = cx_method ctx, rq_path = cx_path ctx,
     rq_xff = get_header ctx ''X-Forwarded-For'', rq_auth = get_header ctx ''Authorization''\<rparr>"

definition apply_check :: "check_result \<Rightarrow> http_context \<Rightarrow> http_context \<times> bool" where
  "apply_check r ctx =
     (let ctx1 = ctx\<lparr>cx_principal := cr_principal r, cx_client_ip := cr_client_ip r, cx_jwt_disabled := cr_jwt_disabled r\<rparr>
      in if cr_status_code r = 0 then (ctx1, False)
         else
           let ctx2 = ctx1\<lparr>cx_status_code := cr_status_code r,
                           cx_response_body := json_resp (cr_status_code r) (cr_reason r) ''null''\<rparr>
           in (if cr_status_code r = 429 \<and> cr_retry_after_ms r > 0
               then ctx2\<lparr>cx_response_headers := cx_response_headers ctx2 @
                      [(''Retry-After'', dec_of_int (\<lceil>rat_of_int (cr_retry_after_ms r) / 1000\<rceil>))]\<rparr>
               else ctx2, True))"

definition run_security_check ::
  "string option \<Rightarrow> check_view \<Rightarrow> session_request \<Rightarrow> session_request option" where
  "run_security_check direct v s =
     (case check_request (cv_env v) (request_of direct (se_ctx s)) (cv_cache v) (gw_rules (cv_load v))
             (gw_rules (cv_lock v)) (cv_limiter v) of
        None \<Rightarrow> None
      | Some (res, _, _) \<Rightarrow>
          let (ctx', rejected) = apply_check (rc_security res) (se_ctx s) in
          Some \<lparr>se_ctx = ctx', se_handled = (se_handled s \<or> rejected), se_generation = rc_generation res,
                se_cors = rc_cors_policy res\<rparr>)"

definition kMaxConfigConsistencyAttempts :: nat where "kMaxConfigConsistencyAttempts = 3"

text \<open>\<open>rules\<close> says whether the server has security rules at all (the pointer may be null).\<close>

fun consistency_loop ::
  "bool \<Rightarrow> string option \<Rightarrow> nat \<Rightarrow> attempt_view list \<Rightarrow> session_request \<Rightarrow> (session_request \<times> route_result option) option"
where
  "consistency_loop rules direct 0 vs s = Some (s, None)"
| "consistency_loop rules direct (Suc n) [] s = None"
| "consistency_loop rules direct (Suc n) (v # vs) s =
     (let recheck = (rules \<and> se_generation s \<noteq> sr_generation (gw_rules (av_generation v))) in
      case (if recheck then run_security_check direct (av_check v) s else Some s) of
        None \<Rightarrow> None
      | Some s1 \<Rightarrow>
          if recheck \<and> se_handled s1 then Some (s1, None)
          else (case route (gw_ups (av_route v)) (cx_path (se_ctx s1)) of
                  Inl _ \<Rightarrow> None
                | Inr upstream \<Rightarrow>
                    if um_generation (gw_ups (av_after v)) = um_generation (gw_ups (av_before v)) \<and>
                       (\<not> rules \<or> se_generation s1 = sr_generation (gw_rules (av_rules_after v)))
                    then Some (s1, upstream)
                    else consistency_loop rules direct n vs s1))"

section \<open>Local routes\<close>

text \<open>A handler changes the context; \<open>None\<close> is an exception.\<close>

type_synonym handler = "http_context \<Rightarrow> http_context option"

definition local_route_path :: "string \<Rightarrow> string" where
  "local_route_path path = (case find_char (CHR ''?'') path of None \<Rightarrow> path | Some q \<Rightarrow> take q path)"

definition prefix_handler :: "(string \<times> handler) list \<Rightarrow> string \<Rightarrow> handler option" where
  "prefix_handler prefix_routes path =
     snd (foldl (\<lambda>(matched_length, found) (prefix, h).
        if length prefix > matched_length \<and> starts_with prefix path then (length prefix, Some h)
        else (matched_length, found)) (0, None) prefix_routes)"

definition local_handler :: "(string \<rightharpoonup> handler) \<Rightarrow> (string \<times> handler) list \<Rightarrow> string \<Rightarrow> handler option" where
  "local_handler routes prefix_routes path =
     (case routes (local_route_path path) of
        Some h \<Rightarrow> Some h
      | None \<Rightarrow> prefix_handler prefix_routes (local_route_path path))"

section \<open>The exchange with the upstream\<close>

definition is_idempotent_method :: "string \<Rightarrow> bool" where
  "is_idempotent_method m \<longleftrightarrow> m = ''GET'' \<or> m = ''HEAD'' \<or> m = ''OPTIONS'' \<or> m = ''TRACE''"

text \<open>
  What happens to one attempt: an exception (after the request was written or before), no connection, or a connection with
  whether it was idle before, how the write ends and the read completions that follow.
\<close>

datatype upstream_try =
    Try_throws bool
  | Try_no_connection
  | Try_connection http_conn bool bool "read_event list"

text \<open>The guard's destructor gives the connection back as good or bad.\<close>

datatype guard_outcome = Released_good http_conn | Released_bad http_conn

text \<open>The context of the exchange: the route, the reader of the upstream socket, the framing of the request.\<close>

record exchange =
  xc_route :: route_result
  xc_rd :: reader
  xc_state :: header_parse_state

definition forward_request :: "exchange \<Rightarrow> http_context \<Rightarrow> string" where
  "forward_request x ctx =
     build_proxy_request (cx_method ctx) (rr_path (xc_route x)) (rr_config (xc_route x)) ctx (xc_state x)
       (send_keep_alive_header (sp_cfg (rr_pool (xc_route x))))"

definition take_response :: "exchange \<Rightarrow> proxy_response \<Rightarrow> http_context \<Rightarrow> http_context" where
  "take_response x resp ctx =
     (let ct = get_header_value (px_headers resp) ''content-type'';
          body = (if rr_json_keys (xc_route x) \<and> px_body resp \<noteq> [] \<and> ct \<noteq> [] \<and> find_sub ''application/json'' ct \<noteq> None
                  then json_keys_snake_to_camel (px_body resp) else px_body resp)
      in ctx\<lparr>cx_status_code := int (px_status_code resp), cx_status_text := px_status_text resp,
             cx_response_body := body, cx_response_headers := px_headers resp\<rparr>)"

text \<open>The end of one attempt: answered (with the context and whether it is a proxied response), or try again.\<close>

datatype attempt_end = Answered http_context bool | Try_again

definition bad_gateway :: "http_context \<Rightarrow> http_context" where
  "bad_gateway ctx = (answer 502 ''Bad Gateway'' ctx)\<lparr>cx_status_text := ''Bad Gateway'', cx_response_headers := []\<rparr>"

text \<open>Besides its end, an attempt has the requests it wrote and the guards it released.\<close>

definition proxy_attempt ::
  "exchange \<Rightarrow> nat \<Rightarrow> http_context \<Rightarrow> upstream_try \<Rightarrow> (attempt_end \<times> string list \<times> guard_outcome list) option" where
  "proxy_attempt x attempt ctx t =
     (let req = forward_request x ctx in
      case t of
        Try_throws written \<Rightarrow> Some (Answered (answer 502 ''Bad Gateway'' ctx) False, if written then [req] else [], [])
      | Try_no_connection \<Rightarrow> Some (Answered (answer 503 ''no available connection'' ctx) False, [], [])
      | Try_connection conn reused write_ok evs \<Rightarrow>
          let can_retry = (reused \<and> attempt = 0 \<and> is_idempotent_method (cx_method ctx)) in
          if req = [] then Some (Answered (answer 400 ''invalid header'' ctx) False, [], [Released_good conn])
          else if \<not> write_ok then
            Some (if can_retry then Try_again else Answered (answer 504 ''upstream write failed'' ctx) False,
                  [req], [Released_bad conn])
          else
            (case read_proxy_response (xc_rd x) (pool_max_body_size (sp_cfg (rr_pool (xc_route x))))
                    (cx_method ctx = ''HEAD'') conn evs of
               None \<Rightarrow> None
             | Some ((resp, conn'), _) \<Rightarrow>
                 if px_error resp \<noteq> [] then
                   Some (if can_retry then Try_again else Answered (bad_gateway ctx) True, [req], [Released_bad conn'])
                 else Some (Answered (take_response x resp ctx) True, [req],
                            [if connection_close conn' then Released_bad conn' else Released_good conn'])))"

text \<open>The loop over at most two attempts; it returns unanswered when both ended in a retry.\<close>

fun proxy_attempts ::
  "exchange \<Rightarrow> nat \<Rightarrow> http_context \<Rightarrow> upstream_try list \<Rightarrow>
   ((http_context \<times> bool) option \<times> string list \<times> guard_outcome list) option" where
  "proxy_attempts x attempt ctx ts =
     (if attempt \<ge> 2 then Some (None, [], [])
      else case ts of
        [] \<Rightarrow> None
      | t # ts' \<Rightarrow>
          (case proxy_attempt x attempt ctx t of
             None \<Rightarrow> None
           | Some (Answered ctx' proxied, sent, guards) \<Rightarrow> Some (Some (ctx', proxied), sent, guards)
           | Some (Try_again, sent, guards) \<Rightarrow>
               map_option (\<lambda>(r, sent', guards'). (r, sent @ sent', guards @ guards'))
                 (proxy_attempts x (attempt + 1) ctx ts')))"

declare proxy_attempts.simps [simp del]

section \<open>One request, from its parsed header to the response\<close>

record server =
  sv_has_rules :: bool
  sv_routes :: "string \<rightharpoonup> handler"
  sv_prefix_routes :: "(string \<times> handler) list"

text \<open>What the world contributes to one request: the peer's address, the moments of the checks, the upstream attempts.\<close>

record world =
  wd_direct :: "string option"
  wd_first_check :: check_view
  wd_attempts :: "attempt_view list"
  wd_upstream_rd :: reader
  wd_tries :: "upstream_try list"

record served =
  sd_ctx :: http_context
  sd_proxied :: bool
  sd_preflight :: bool
  sd_cors :: "cors_policy option"
  sd_sent :: "string list"

text \<open>\<open>Some None\<close> is an exception of a handler, which ends the session with a 500.\<close>

definition dispatch ::
  "server \<Rightarrow> world \<Rightarrow> header_parse_state \<Rightarrow> session_request \<Rightarrow> served option option" where
  "dispatch sv w st s =
     (let unserved = (\<lambda>ctx. \<lparr>sd_ctx = ctx, sd_proxied = False, sd_preflight = False, sd_cors = se_cors s, sd_sent = []\<rparr>) in
      if se_handled s then Some (Some (unserved (se_ctx s)))
      else case local_handler (sv_routes sv) (sv_prefix_routes sv) (cx_path (se_ctx s)) of
        Some h \<Rightarrow> Some (map_option unserved (h (se_ctx s)))
      | None \<Rightarrow>
          (case consistency_loop (sv_has_rules sv) (wd_direct w) kMaxConfigConsistencyAttempts (wd_attempts w) s of
             None \<Rightarrow> None
           | Some (s1, up) \<Rightarrow>
               let unserved1 = (unserved (se_ctx s1))\<lparr>sd_cors := se_cors s1\<rparr>;
                   not_found = unserved1\<lparr>sd_ctx := answer 404 ''not found'' (se_ctx s1)\<rparr>
               in if se_handled s1 then Some (Some unserved1)
                  else case up of
                    None \<Rightarrow> Some (Some not_found)
                  | Some rr \<Rightarrow>
                      (case proxy_attempts \<lparr>xc_route = rr, xc_rd = wd_upstream_rd w, xc_state = st\<rparr> 0 (se_ctx s1)
                              (wd_tries w) of
                         None \<Rightarrow> None
                       | Some (None, sent, _) \<Rightarrow> Some (Some (not_found\<lparr>sd_sent := sent\<rparr>))
                       | Some (Some (ctx', proxied), sent, _) \<Rightarrow>
                           Some (Some (unserved1\<lparr>sd_ctx := ctx', sd_proxied := proxied, sd_sent := sent\<rparr>)))))"

definition serve_request ::
  "server \<Rightarrow> world \<Rightarrow> header_parse_state \<Rightarrow> http_context \<Rightarrow> bool \<Rightarrow> served option option" where
  "serve_request sv w st ctx handled =
     (let s0 = \<lparr>se_ctx = ctx, se_handled = handled, se_generation = 0, se_cors = None\<rparr> in
      case (if \<not> handled \<and> sv_has_rules sv then run_security_check (wd_direct w) (wd_first_check w) s0 else Some s0) of
        None \<Rightarrow> None
      | Some s1 \<Rightarrow>
          (case se_cors s1 of
             Some p \<Rightarrow>
               if \<not> se_handled s1 \<and> cp_enabled p \<and> cx_method (se_ctx s1) = ''OPTIONS'' \<and>
                  get_header (se_ctx s1) ''Access-Control-Request-Method'' \<noteq> [] \<and>
                  fst (build_preflight_response (se_ctx s1) p)
               then Some (Some \<lparr>sd_ctx = snd (build_preflight_response (se_ctx s1) p), sd_proxied = False,
                                sd_preflight = True, sd_cors = Some p, sd_sent = []\<rparr>)
               else dispatch sv w st s1
           | None \<Rightarrow> dispatch sv w st s1))"

definition response_bytes :: "served \<Rightarrow> string" where
  "response_bytes sd =
     (let ctx = (case sd_cors sd of
                   Some p \<Rightarrow> if cp_enabled p \<and> \<not> sd_preflight sd then apply_cors_headers (sd_ctx sd) p else sd_ctx sd
                 | None \<Rightarrow> sd_ctx sd)
      in build_downstream_response ctx (cx_method ctx) (sd_proxied sd))"

definition keeps_connection :: "int \<Rightarrow> http_context \<Rightarrow> bool \<Rightarrow> bool" where
  "keeps_connection minor_version ctx draining =
     (let tokens = fst (split_connection_tokens (get_header ctx ''Connection'')) in
      \<not> (cx_status_code ctx = 400 \<or> cx_status_code ctx = 408 \<or> cx_status_code ctx = 413) \<and>
      \<not> (minor_version = 0 \<and> \<not> tok_keep_alive tokens) \<and> \<not> tok_close tokens \<and> \<not> draining)"

text \<open>
  One turn of the session loop: what is written to the client, and the bytes kept for the next request, or \<open>None\<close> when the
  session ends. \<open>phr\<close> is the request parser.
\<close>

definition simple_error :: "int \<Rightarrow> string \<Rightarrow> string \<Rightarrow> string" where
  "simple_error status reason msg = build_error_response status reason
     (''{'' @ [DQUOTE] @ ''code'' @ [DQUOTE] @ '':'' @ dec_of_int status @ '','' @ [DQUOTE] @ ''msg'' @ [DQUOTE] @ '':'' @
      [DQUOTE] @ msg @ [DQUOTE] @ ''}'')"

definition session_turn ::
  "(string \<Rightarrow> parsed_request option) \<Rightarrow> server \<Rightarrow> reader \<Rightarrow> world \<Rightarrow> bool \<Rightarrow> bool \<Rightarrow> string \<Rightarrow> read_event list \<Rightarrow>
   (string list \<times> string option \<times> read_event list) option" where
  "session_turn phr sv rd w draining write_ok preread evs =
     (case read_client_header rd preread evs of
        None \<Rightarrow> None
      | Some (Client_stopped, evs1) \<Rightarrow> Some ([], None, evs1)
      | Some (Header_too_large, evs1) \<Rightarrow>
          Some ([simple_error 431 ''Request Header Fields Too Large'' ''request header too large''], None, evs1)
      | Some (Header_block buf, evs1) \<Rightarrow>
          (case phr buf of
             None \<Rightarrow> Some ([simple_error 400 ''Bad Request'' ''bad request''], None, evs1)
           | Some pq \<Rightarrow>
               let (ctx, st) = new_context pq in
               (case read_request_body rd st ctx (drop (pq_consumed pq) buf) evs1 of
                  None \<Rightarrow> None
                | Some ((ctx1, handled, rest), evs2) \<Rightarrow>
                    (case serve_request sv w st ctx1 handled of
                       None \<Rightarrow> None
                     | Some None \<Rightarrow>
                         Some ([simple_error 500 ''Internal Server Error'' ''internal server error''], None, evs2)
                     | Some (Some sd) \<Rightarrow>
                         Some ([response_bytes sd],
                               if write_ok \<and> keeps_connection (pq_minor_version pq) (sd_ctx sd) draining then Some rest else None,
                               evs2)))))"

fun session_run ::
  "(string \<Rightarrow> parsed_request option) \<Rightarrow> server \<Rightarrow> reader \<Rightarrow> (world \<times> bool \<times> bool) list \<Rightarrow> string \<Rightarrow> read_event list \<Rightarrow>
   string list \<times> bool" where
  "session_run phr sv rd [] preread evs = ([], True)"
| "session_run phr sv rd ((w, draining, write_ok) # ws) preread evs =
     (case session_turn phr sv rd w draining write_ok preread evs of
        None \<Rightarrow> ([], True)
      | Some (out, None, evs') \<Rightarrow> (out, False)
      | Some (out, Some rest, evs') \<Rightarrow>
          let (outs, more) = session_run phr sv rd ws rest evs' in (out @ outs, more))"

section \<open>A request is never sent twice unless that is harmless\<close>

lemma proxy_attempt_sent:
  assumes "proxy_attempt x attempt ctx t = Some (e, sent, guards)"
  shows "length sent \<le> 1 \<and> set sent \<subseteq> {forward_request x ctx} \<and> length guards \<le> 1 \<and>
    (e = Try_again \<longrightarrow> attempt = 0 \<and> is_idempotent_method (cx_method ctx) \<and>
       (\<exists>conn ok evs. t = Try_connection conn True ok evs) \<and> (\<exists>conn. guards = [Released_bad conn]))"
  using assms
  by (auto simp: proxy_attempt_def Let_def split: upstream_try.splits if_splits option.splits)


section \<open>Rules and route are those of one moment\<close>

text \<open>The two objects are published separately; a run of the gateway interleaves their publications.\<close>

definition gw_publish :: "(nat \<times> prepared_rules) + prepared_reload \<Rightarrow> gateway \<Rightarrow> gateway" where
  "gw_publish p g = (case p of
     Inl kp \<Rightarrow> g\<lparr>gw_rules := rules_published kp (gw_rules g)\<rparr>
   | Inr pr \<Rightarrow> g\<lparr>gw_ups := publish_reload pr (gw_ups g)\<rparr>)"

lemma gw_run_rules:
  "publish_run gw_publish g h \<Longrightarrow> publish_run rules_published (gw_rules g) (gw_rules h)"
  by (induction rule: publish_run.induct) (auto simp: gw_publish_def intro: publish_run.intros split: sum.split)

fun ordered_run :: "gateway list \<Rightarrow> bool" where
  "ordered_run (g # h # gs) \<longleftrightarrow> publish_run gw_publish g h \<and> ordered_run (h # gs)"
| "ordered_run _ \<longleftrightarrow> True"

definition attempt_moments :: "attempt_view \<Rightarrow> gateway list" where
  "attempt_moments v = [av_generation v, cv_load (av_check v), cv_lock (av_check v), av_before v, av_route v, av_after v,
     av_rules_after v]"

definition cache_valid :: "check_view \<Rightarrow> bool" where
  "cache_valid v \<longleftrightarrow> tls_run (gw_rules (cv_load v)) (cv_cache v)"

text \<open>The rules \<open>r\<close> admit the request.\<close>

definition admits :: "string option \<Rightarrow> http_context \<Rightarrow> security_rules \<Rightarrow> bool" where
  "admits direct ctx r \<longleftrightarrow> (\<exists>env rl res rl'.
     check_snapshot env (request_of direct ctx) (sr_snapshot r) rl = Some (res, rl') \<and> cr_status_code res = 0)"

text \<open>The rules that admitted the request were published at or before the moment \<open>g\<close>, under the recorded generation.\<close>

definition judged :: "string option \<Rightarrow> http_context \<Rightarrow> gateway \<Rightarrow> session_request \<Rightarrow> bool" where
  "judged direct ctx g s \<longleftrightarrow> request_of direct (se_ctx s) = request_of direct ctx \<and>
     (\<exists>r. publish_run rules_published r (gw_rules g) \<and> rules_ok r \<and> se_generation s = sr_generation r \<and> admits direct ctx r)"

lemma judged_later: "judged direct ctx g s \<Longrightarrow> publish_run gw_publish g h \<Longrightarrow> judged direct ctx h s"
proof -
  assume j: "judged direct ctx g s" and h: "publish_run gw_publish g h"
  obtain r where r: "publish_run rules_published r (gw_rules g)" "rules_ok r" "se_generation s = sr_generation r"
    "admits direct ctx r" "request_of direct (se_ctx s) = request_of direct ctx"
    using j by (auto simp: judged_def)
  show ?thesis unfolding judged_def using r publish_run_trans [OF gw_run_rules [OF h] r(1)] by blast
qed

lemma apply_check_request: "request_of direct (fst (apply_check r ctx)) = request_of direct ctx"
  by (simp add: apply_check_def request_of_def get_header_def Let_def)

lemma check_judged:
  assumes "run_security_check direct v s = Some s1" and "\<not> se_handled s1" and "cache_valid v"
    and "publish_run gw_publish (cv_load v) (cv_lock v)"
  shows "judged direct (se_ctx s) (cv_lock v) s1"
proof -
  obtain res c' rl' where c: "check_request (cv_env v) (request_of direct (se_ctx s)) (cv_cache v) (gw_rules (cv_load v))
      (gw_rules (cv_lock v)) (cv_limiter v) = Some (res, c', rl')"
    and s1: "se_ctx s1 = fst (apply_check (rc_security res) (se_ctx s))" "se_generation s1 = rc_generation res"
    "\<not> snd (apply_check (rc_security res) (se_ctx s))"
    using assms(1,2) by (auto simp: run_security_check_def split: option.splits prod.splits)
  obtain r where r: "publish_run rules_published (gw_rules (cv_load v)) r" "publish_run rules_published r (gw_rules (cv_lock v))"
    "fst (snapshot_view_fast (cv_cache v) (gw_rules (cv_load v)) (gw_rules (cv_lock v))) = (sr_snapshot r, sr_generation r)"
    using snapshot_view_between [OF assms(3) [unfolded cache_valid_def] gw_run_rules [OF assms(4)]] by blast
  have k: "check_snapshot (cv_env v) (request_of direct (se_ctx s)) (sr_snapshot r) (cv_limiter v) = Some (rc_security res, rl')"
    "rc_generation res = sr_generation r"
    using c r(3) by (auto simp: check_request_def Let_def split: prod.splits option.splits)
  have "cr_status_code (rc_security res) = 0"
    using s1(3) by (auto simp: apply_check_def Let_def split: if_splits)
  then have "admits direct (se_ctx s) r" using k(1) by (auto simp: admits_def)
  moreover have "rules_ok r" using tls_run_ok assms(3) rules_publisher.run_ok [OF r(1)] by (auto simp: cache_valid_def)
  ultimately show ?thesis
    unfolding judged_def using s1(1,2) k(2) r(2) apply_check_request by auto
qed

lemma consistency_loop_judged:
  assumes "consistency_loop True direct n vs s = Some (s', Some rr)"
    and "judged direct ctx g s" and "ordered_run (g # concat (map attempt_moments vs))"
    and "\<forall>v \<in> set vs. cache_valid (av_check v)"
  shows "\<exists>v \<in> set vs. route (gw_ups (av_route v)) (cx_path ctx) = Inr (Some rr) \<and> admits direct ctx (gw_rules (av_route v))"
  using assms
proof (induction vs arbitrary: n s g)
  case Nil
  then show ?case by (cases n) auto
next
  case (Cons v vs)
  obtain m where n: "n = Suc m" using Cons.prems(1) by (cases n) auto
  let ?recheck = "se_generation s \<noteq> sr_generation (gw_rules (av_generation v))"
  have o: "publish_run gw_publish g (av_generation v)" "publish_run gw_publish (av_generation v) (cv_load (av_check v))"
    "publish_run gw_publish (cv_load (av_check v)) (cv_lock (av_check v))"
    "publish_run gw_publish (cv_lock (av_check v)) (av_before v)" "publish_run gw_publish (av_before v) (av_route v)"
    "publish_run gw_publish (av_route v) (av_after v)" "publish_run gw_publish (av_after v) (av_rules_after v)"
    "ordered_run (av_rules_after v # concat (map attempt_moments vs))"
    using Cons.prems(3) by (simp_all add: attempt_moments_def [of v])
  obtain s1 where s1: "(if ?recheck then run_security_check direct (av_check v) s else Some s) = Some s1"
    "\<not> (?recheck \<and> se_handled s1)"
    using Cons.prems(1) by (auto simp: n Let_def split: option.splits if_splits)
  have j1: "judged direct ctx (cv_lock (av_check v)) s1"
  proof (cases ?recheck)
    case True
    then have "judged direct (se_ctx s) (cv_lock (av_check v)) s1"
      using s1 Cons.prems(4) o(3) by (intro check_judged) auto
    then show ?thesis using Cons.prems(2) by (auto simp: judged_def admits_def)
  next
    case False
    then have "s1 = s" using s1(1) by simp
    then show ?thesis using judged_later [OF judged_later [OF judged_later [OF Cons.prems(2) o(1)] o(2)] o(3)] by simp
  qed
  then have jr: "judged direct ctx (av_route v) s1" using o(4,5) judged_later by blast
  have ja: "judged direct ctx (av_rules_after v) s1" using jr o(6,7) judged_later by blast
  have path: "cx_path (se_ctx s1) = cx_path ctx"
    using jr by (auto simp: judged_def request_of_def)
  obtain up where up: "route (gw_ups (av_route v)) (cx_path ctx) = Inr up"
    using Cons.prems(1) s1 path by (auto simp: n Let_def split: sum.splits if_splits)
  show ?case
  proof (cases "um_generation (gw_ups (av_after v)) = um_generation (gw_ups (av_before v)) \<and>
      se_generation s1 = sr_generation (gw_rules (av_rules_after v))")
    case True
    then have "up = Some rr" using Cons.prems(1) s1 up path by (auto simp: n Let_def split: if_splits)
    moreover have "admits direct ctx (gw_rules (av_route v))"
    proof -
      obtain r where r: "publish_run rules_published r (gw_rules (av_route v))" "rules_ok r"
        "se_generation s1 = sr_generation r" "admits direct ctx r" using jr by (auto simp: judged_def)
      have m: "publish_run rules_published (gw_rules (av_route v)) (gw_rules (av_rules_after v))"
        by (rule publish_run_trans [OF gw_run_rules [OF o(7)] gw_run_rules [OF o(6)]])
      have "sr_generation r \<le> sr_generation (gw_rules (av_route v))"
        "sr_generation (gw_rules (av_route v)) \<le> sr_generation (gw_rules (av_rules_after v))"
        using rules_publisher.gen_mono [OF r(1,2)] rules_publisher.gen_mono [OF m rules_publisher.run_ok [OF r(1,2)]] by auto
      then have "sr_generation (gw_rules (av_route v)) = sr_generation r" using True r(3) by simp
      then show ?thesis using rules_publisher.same_gen_same_state [OF r(1,2)] r(4) by simp
    qed
    ultimately show ?thesis using up by auto
  next
    case False
    then have "consistency_loop True direct m vs s1 = Some (s', Some rr)"
      using Cons.prems(1) s1 up path by (auto simp: n Let_def split: if_splits)
    from Cons.IH [OF this ja o(8)] show ?thesis using Cons.prems(4) by auto
  qed
qed

text \<open>
  C14. Let the looks of a request at the two configuration objects be in the order of the code, with any
  publications of rules and routes between them, and let the threads' caches be valid. If the request passes its first check and
  the loop gives it a route, then there is one moment, the route lookup of some attempt, at which the published table gave that route
  and the rules then published admit the request. No request is judged by old rules and
  sent along a new route.
\<close>

theorem routed_under_current_rules:
  assumes "run_security_check direct v0 s0 = Some s1" and "\<not> se_handled s1"
    and "consistency_loop True direct kMaxConfigConsistencyAttempts vs s1 = Some (s2, Some rr)"
    and "ordered_run (cv_load v0 # cv_lock v0 # concat (map attempt_moments vs))"
    and "cache_valid v0" and "\<forall>v \<in> set vs. cache_valid (av_check v)"
  shows "\<exists>v \<in> set vs. route (gw_ups (av_route v)) (cx_path (se_ctx s0)) = Inr (Some rr) \<and>
    admits direct (se_ctx s0) (gw_rules (av_route v))"
  using consistency_loop_judged [OF assms(3) check_judged [OF assms(1,2,5)] _ assms(6)] assms(4) by simp

definition demo_gateway :: gateway where
  "demo_gateway = \<lparr>gw_rules = demo_running, gw_ups = demo_um\<rparr>"

definition demo_view :: check_view where
  "demo_view = \<lparr>cv_load = demo_gateway, cv_lock = demo_gateway, cv_cache = tls_cache0, cv_env = demo_env,
     cv_limiter = snd demo_rules\<rparr>"

definition demo_attempt :: attempt_view where
  "demo_attempt = \<lparr>av_generation = demo_gateway, av_check = demo_view, av_before = demo_gateway, av_route = demo_gateway,
     av_after = demo_gateway, av_rules_after = demo_gateway\<rparr>"

definition demo_session :: session_request where
  "demo_session = \<lparr>se_ctx = demo_ctx\<lparr>cx_method := ''GET'', cx_path := ''/orders/1'',
       cx_headers := [(''authorization'', ''bearer tok'')]\<rparr>, se_handled = False, se_generation = 0, se_cors = None\<rparr>"

lemma demo_first_check:
  "\<exists>s1. run_security_check (Some ''ABCD'') demo_view demo_session = Some s1 \<and> \<not> se_handled s1 \<and> se_generation s1 = 1 \<and>
     cx_path (se_ctx s1) = ''/orders/1''"
proof -
  have "map_option (\<lambda>s. (se_handled s, se_generation s, cx_path (se_ctx s)))
      (run_security_check (Some ''ABCD'') demo_view demo_session) = Some (False, 1, ''/orders/1'')" by code_simp
  then show ?thesis by auto
qed

theorem routed_under_current_rules_witness:
  "\<exists>rr. route demo_um ''/orders/1'' = Inr (Some rr) \<and> admits (Some ''ABCD'') (se_ctx demo_session) demo_running"
proof -
  obtain s1 where s1: "run_security_check (Some ''ABCD'') demo_view demo_session = Some s1" "\<not> se_handled s1"
    "se_generation s1 = 1" "cx_path (se_ctx s1) = ''/orders/1''" using demo_first_check by blast
  have "case route demo_um ''/orders/1'' of Inr (Some _) \<Rightarrow> True | _ \<Rightarrow> False" by code_simp
  then obtain rr where rr: "route demo_um ''/orders/1'' = Inr (Some rr)" by (auto split: sum.splits option.splits)
  have l: "consistency_loop True (Some ''ABCD'') kMaxConfigConsistencyAttempts [demo_attempt] s1 = Some (s1, Some rr)"
    using s1 rr by (simp add: kMaxConfigConsistencyAttempts_def numeral_3_eq_3 demo_attempt_def demo_gateway_def demo_running_def)
  have c: "cache_valid demo_view"
    unfolding cache_valid_def demo_view_def
    by (simp add: demo_gateway_def demo_running_def rules_ok_def tls_run.start)
  have "ordered_run (cv_load demo_view # cv_lock demo_view # concat (map attempt_moments [demo_attempt]))"
    by (simp add: attempt_moments_def demo_attempt_def demo_view_def publish_run.none)
  from routed_under_current_rules [OF s1(1,2) l this c] c show ?thesis
    by (auto simp: demo_attempt_def demo_gateway_def demo_session_def)
qed

section \<open>A session ends when the framing of a request is lost\<close>

lemma body_failure_status: "cx_status_code (body_failure st msg ctx) \<in> {400, 408, 413}"
  by (simp add: body_failure_def answer_def)

lemma read_request_body_failed:
  assumes "read_request_body rd st ctx preread evs = Some ((ctx', True, rest), evs')"
  shows "cx_status_code ctx' \<in> {400, 408, 413}"
  using assms body_failure_status
  by (auto simp: read_request_body_def answer_def split: if_splits option.splits)

lemma serve_handled:
  "serve_request sv w st ctx True =
     Some (Some \<lparr>sd_ctx = ctx, sd_proxied = False, sd_preflight = False, sd_cors = None, sd_sent = []\<rparr>)"
  by (simp add: serve_request_def dispatch_def Let_def)

text \<open>
  C15. When the framing of a request is invalid, or its body is too large, too slow or malformed, the
  turn writes exactly one response, with status 400, 408 or 413, asks no handler and no
  upstream, whatever the routes are, and ends the session: bytes of the unread body are never taken for a request.
\<close>

theorem lost_framing_closes:
  assumes "read_client_header rd preread evs = Some (Header_block buf, evs1)" and "phr buf = Some pq"
    and "new_context pq = (ctx, st)"
    and "read_request_body rd st ctx (drop (pq_consumed pq) buf) evs1 = Some ((ctx', True, rest), evs2)"
  shows "\<exists>status \<in> {400, 408, 413}. cx_status_code ctx' = status \<and>
    session_turn phr sv rd w draining write_ok preread evs =
      Some ([build_downstream_response ctx' (cx_method ctx') False], None, evs2)"
  using assms read_request_body_failed [OF assms(4)]
  by (auto simp: session_turn_def serve_handled response_bytes_def keeps_connection_def Let_def)

definition demo_phr :: "string \<Rightarrow> parsed_request option" where
  "demo_phr buf = Some \<lparr>pq_method = ''POST'', pq_path = ''/a'', pq_minor_version = 1,
     pq_headers = [(''Content-Length'', ''5''), (''Content-Length'', ''6'')], pq_consumed = length buf\<rparr>"

definition demo_server :: server where
  "demo_server = \<lparr>sv_has_rules = False, sv_routes = Map.empty, sv_prefix_routes = []\<rparr>"

definition demo_world :: world where
  "demo_world = \<lparr>wd_direct = None, wd_first_check = demo_view, wd_attempts = [], wd_upstream_rd = read_with_timeout 5,
     wd_tries = []\<rparr>"

theorem lost_framing_closes_witness:
  "\<exists>out. session_turn demo_phr demo_server (read_with_timeout 5) demo_world False True (CRLF @ CRLF) [] =
     Some ([out], None, [])"
proof -
  let ?pq = "\<lparr>pq_method = ''POST'', pq_path = ''/a'', pq_minor_version = 1,
     pq_headers = [(''Content-Length'', ''5''), (''Content-Length'', ''6'')], pq_consumed = length (CRLF @ CRLF)\<rparr> :: parsed_request"
  let ?ctx = "fst (new_context ?pq)" and ?st = "snd (new_context ?pq)"
  have h: "read_client_header (read_with_timeout 5) (CRLF @ CRLF) [] = Some (Header_block (CRLF @ CRLF), [])" by code_simp
  have "request_framing_invalid ?st" by code_simp
  then have b: "read_request_body (read_with_timeout 5) ?st ?ctx (drop (pq_consumed ?pq) (CRLF @ CRLF)) [] =
      Some ((answer 400 ''invalid request framing'' ?ctx, True, []), [])" by (simp add: read_request_body_def)
  have p: "demo_phr (CRLF @ CRLF) = Some ?pq" by (simp add: demo_phr_def)
  have n: "new_context ?pq = (?ctx, ?st)" by simp
  from lost_framing_closes [where phr = demo_phr, OF h p n b, of demo_server demo_world False True] show ?thesis by auto
qed


section \<open>Judged path and routed path\<close>

definition secure_um :: upstream_manager where
  "secure_um = snd (upstream_reload upstream_manager0
     \<lparr>cfg_data = Map.empty, cfg_raw = [(''upstream'', ''secure'', ''10.0.0.1:80''), (''upstream'', ''public'', ''10.0.0.2:80'')]\<rparr>
     pool_config0)"


text \<open>A 404 announces that the connection closes, and the session goes on reading from it.\<close>

lemma close_announced_but_kept:
  "let ctx = answer 404 ''not found'' demo_ctx in
     ''Connection: close'' \<in> set (response_lines ctx ''GET'' False) \<and> keeps_connection 1 ctx False"
  by code_simp

end
