(* ===== verification/App_Config.thy ===== *)
theory App_Config
  imports Config_Ini Http_Pool Counters "HOL-Library.AList"
begin

text \<open>
  The typed configuration of the process, \<^verbatim>\<open>src/app/app_config.hpp\<close>: the values each component is started with,
  their defaults, the clamps, and the values that are refused. The descriptor budget is computed from it at start-up and again
  for every reload of the pool settings.
\<close>

section \<open>Records\<close>

record admin_config =
  ac_accounts :: "(string \<times> string) list"
  ac_jwt_private_key :: string
  ac_jwt_public_key :: string
  ac_token_ttl_min :: int
  ac_insecure_no_auth :: bool

record history_config =
  hc_read_mode :: string
  hc_auto_migrate_legacy :: bool
  hc_retention_versions :: int
  hc_retention_days :: int
  hc_warn_snapshot_bytes :: nat
  hc_max_snapshot_bytes :: nat
  hc_warn_file_bytes :: nat
  hc_max_file_bytes :: nat
  hc_warn_files :: nat
  hc_max_files :: nat
  hc_max_reason_bytes :: nat
  hc_history_page_size :: nat
  hc_history_page_size_max :: nat
  hc_max_diff_response_bytes :: nat
  hc_gc_batch_size :: nat
  hc_gc_interval_sec :: int
  hc_machine_ttl_sec :: int

record mysql_config =
  mc_host :: string
  mc_port :: int
  mc_user :: string
  mc_pass :: string
  mc_db :: string
  mc_min_size :: nat
  mc_max_size :: nat
  mc_max_idle_sec :: int
  mc_connect_timeout_ms :: int
  mc_read_timeout_ms :: int
  mc_query_timeout_ms :: int
  mc_acquire_timeout_ms :: int
  mc_keepalive_sec :: int
  mc_worker_threads :: nat
  mc_max_creating :: nat

datatype redis_mode = Direct | Worker

record redis_config =
  rd_host :: string
  rd_port :: int
  rd_db :: int
  rd_connect_timeout_ms :: int
  rd_cmd_timeout_ms :: int
  rd_mode :: redis_mode
  rd_min_size :: nat
  rd_max_size :: nat
  rd_max_idle_sec :: int
  rd_worker_threads :: nat
  rd_max_creating :: nat
  rd_acquire_timeout_ms :: int

datatype log_level = Log_debug | Log_info | Log_warn | Log_error

record config_sync_config =
  sy_enabled :: bool
  sy_sync_interval_sec :: int
  sy_machine_name :: string
  sy_first_pull :: string
  sy_first_pull_timeout_ms :: int
  sy_admin :: admin_config
  sy_history :: history_config

record server_config =
  sc_port :: int
  sc_io_threads :: nat
  sc_max_client_connections :: nat
  sc_fd_reserve :: nat
  sc_downstream_write_timeout_ms :: int
  sc_client_header_read_timeout_ms :: int
  sc_client_body_read_timeout_ms :: int
  sc_combo_deadline_ms :: int
  sc_combo_max_in_flight :: nat

record app_config =
  ap_log_level :: log_level
  ap_log_file :: string
  ap_server :: server_config
  ap_mysql :: mysql_config
  ap_redis :: redis_config
  ap_http_pool :: pool_config
  ap_snapshot_interval_sec :: int
  ap_reload_interval_sec :: int
  ap_http_pool_stats_interval_sec :: int
  ap_config_sync :: config_sync_config

section \<open>Readers\<close>

text \<open>\<^verbatim>\<open>std::max(lo, get_int(...))\<close> and \<^verbatim>\<open>std::clamp(get_int(...), lo, hi)\<close>, cast to \<^verbatim>\<open>size_t\<close> by \<open>nat\<close>.\<close>

definition get_at_least :: "config \<Rightarrow> string \<Rightarrow> string \<Rightarrow> int \<Rightarrow> int \<Rightarrow> config_error + int" where
  "get_at_least cfg section key lo def = map_sum id (max lo) (get_int cfg section key def)"

definition get_clamped :: "config \<Rightarrow> string \<Rightarrow> string \<Rightarrow> int \<Rightarrow> int \<Rightarrow> int \<Rightarrow> config_error + int" where
  "get_clamped cfg section key def lo hi = map_sum id (\<lambda>x. max lo (min hi x)) (get_int cfg section key def)"

definition add_account :: "(string \<times> string) list \<Rightarrow> string \<times> string \<Rightarrow> (string \<times> string) list" where
  "add_account accounts kv =
     (let (key, value) = kv in
      if key \<in> {''jwt_private_key'', ''jwt_public_key'', ''token_ttl_min'', ''insecure_no_auth''} then accounts
      else if key = [] \<or> value = [] then accounts
      else if \<not> starts_with ''pbkdf2_sha256$'' value then accounts
      else AList.update key value accounts)"

definition admin_config_from :: "config \<Rightarrow> config_error + admin_config" where
  "admin_config_from cfg =
     try_then (get_at_least cfg ''admin'' ''token_ttl_min'' 1 120) (\<lambda>ttl.
     try_then (get_bool cfg ''admin'' ''insecure_no_auth'' False) (\<lambda>insecure.
     Inr \<lparr>ac_accounts = foldl add_account [] (get_section cfg ''admin''),
          ac_jwt_private_key = config_get cfg ''admin'' ''jwt_private_key'' [],
          ac_jwt_public_key = config_get cfg ''admin'' ''jwt_public_key'' [],
          ac_token_ttl_min = ttl, ac_insecure_no_auth = insecure\<rparr>))"

definition history_read_mode :: "config \<Rightarrow> string" where
  "history_read_mode cfg =
     (let m = map tolower (config_get cfg ''config_history'' ''read_mode'' ''required'') in
      if m \<noteq> ''compat'' \<and> m \<noteq> ''required'' then ''required'' else m)"

text \<open>The adjustments after all values are read: a limit is never below its warning threshold or below what it contains.\<close>

definition adjust_history :: "history_config \<Rightarrow> history_config" where
  "adjust_history h =
     (let max_snapshot = max (hc_max_snapshot_bytes h) (hc_max_file_bytes h) in
      h\<lparr>hc_max_snapshot_bytes := max_snapshot,
        hc_warn_snapshot_bytes := min (hc_warn_snapshot_bytes h) max_snapshot,
        hc_warn_file_bytes := min (hc_warn_file_bytes h) (hc_max_file_bytes h),
        hc_max_files := max (hc_max_files h) (hc_warn_files h),
        hc_history_page_size := min (hc_history_page_size h) (hc_history_page_size_max h)\<rparr>)"

definition config_history_from :: "config \<Rightarrow> config_error + history_config" where
  "config_history_from cfg =
     (let lo = get_at_least cfg ''config_history''; cl = get_clamped cfg ''config_history'' in
      try_then (get_bool cfg ''config_history'' ''auto_migrate_legacy'' True) (\<lambda>migrate.
      try_then (lo ''retention_versions'' 1 100) (\<lambda>versions.
      try_then (lo ''retention_days'' 1 90) (\<lambda>days.
      try_then (cl ''warn_snapshot_bytes'' (256 * 1024) 1 (512 * 1024)) (\<lambda>ws.
      try_then (cl ''max_snapshot_bytes'' (512 * 1024) 1 (512 * 1024)) (\<lambda>ms.
      try_then (cl ''warn_file_bytes'' (64 * 1024) 1 (128 * 1024)) (\<lambda>wf.
      try_then (cl ''max_file_bytes'' (128 * 1024) 1 (128 * 1024)) (\<lambda>mf.
      try_then (cl ''warn_files'' 80 1 100) (\<lambda>wn.
      try_then (cl ''max_files'' 100 1 100) (\<lambda>mn.
      try_then (cl ''max_reason_bytes'' 512 1 512) (\<lambda>reason.
      try_then (cl ''history_page_size'' 20 1 50) (\<lambda>page.
      try_then (cl ''history_page_size_max'' 50 1 50) (\<lambda>page_max.
      try_then (cl ''max_diff_response_bytes'' (2 * 1024 * 1024) 1 (2 * 1024 * 1024)) (\<lambda>diff.
      try_then (cl ''gc_batch_size'' 20 1 20) (\<lambda>batch.
      try_then (lo ''gc_interval_sec'' 10 300) (\<lambda>interval.
      try_then (lo ''machine_ttl_sec'' 60 3600) (\<lambda>ttl.
      Inr (adjust_history
        \<lparr>hc_read_mode = history_read_mode cfg, hc_auto_migrate_legacy = migrate,
         hc_retention_versions = versions, hc_retention_days = days,
         hc_warn_snapshot_bytes = nat ws, hc_max_snapshot_bytes = nat ms,
         hc_warn_file_bytes = nat wf, hc_max_file_bytes = nat mf, hc_warn_files = nat wn, hc_max_files = nat mn,
         hc_max_reason_bytes = nat reason, hc_history_page_size = nat page, hc_history_page_size_max = nat page_max,
         hc_max_diff_response_bytes = nat diff, hc_gc_batch_size = nat batch, hc_gc_interval_sec = interval,
         hc_machine_ttl_sec = ttl\<rparr>))))))))))))))))))"

definition http_pool_config_from :: "config \<Rightarrow> config_error + pool_config" where
  "http_pool_config_from cfg =
     (let lo = get_at_least cfg ''http_pool''; int = get_int cfg ''http_pool'' in
      try_then (lo ''max_size'' 1 256) (\<lambda>size.
      try_then (lo ''max_concurrent'' 0 0) (\<lambda>concurrent.
      try_then (lo ''max_total_connections'' 1 4096) (\<lambda>total_max.
      try_then (lo ''max_body_size'' 1 (10 * 1024 * 1024)) (\<lambda>body.
      try_then (int ''connect_timeout_ms'' 1000) (\<lambda>connect.
      try_then (int ''read_timeout_ms'' 30000) (\<lambda>read.
      try_then (int ''request_timeout_ms'' 60000) (\<lambda>req.
      try_then (int ''idle_timeout_sec'' 60) (\<lambda>idle_sec.
      try_then (get_bool cfg ''http_pool'' ''send_keep_alive_header'' False) (\<lambda>keep.
      Inr \<lparr>max_size = nat size, max_concurrent = nat concurrent, max_total_connections = nat total_max,
           pool_max_body_size = nat body, connect_timeout_ms = connect, read_timeout_ms = read,
           request_timeout_ms = req, idle_timeout_sec = idle_sec, send_keep_alive_header = keep\<rparr>))))))))))"

definition mysql_config_from :: "config \<Rightarrow> config_error + mysql_config" where
  "mysql_config_from cfg =
     (let lo = get_at_least cfg ''mysql''; int = get_int cfg ''mysql''; str = config_get cfg ''mysql'' in
      try_then (int ''port'' 3306) (\<lambda>port.
      try_then (lo ''min_size'' 0 8) (\<lambda>min_n.
      try_then (lo ''max_size'' 1 64) (\<lambda>max_n.
      try_then (int ''max_idle_sec'' 60) (\<lambda>idle_sec.
      try_then (int ''connect_timeout_ms'' 1000) (\<lambda>connect.
      try_then (int ''read_timeout_ms'' 500) (\<lambda>read.
      try_then (int ''query_timeout_ms'' 0) (\<lambda>query.
      try_then (int ''acquire_timeout_ms'' 3000) (\<lambda>acquire.
      try_then (int ''keepalive_sec'' 30) (\<lambda>keepalive.
      try_then (lo ''worker_threads'' 1 32) (\<lambda>workers.
      try_then (lo ''max_creating'' 0 0) (\<lambda>creating.
      Inr \<lparr>mc_host = str ''host'' ''127.0.0.1'', mc_port = port, mc_user = str ''user'' ''root'', mc_pass = str ''pass'' [],
           mc_db = str ''db'' ''test'', mc_min_size = nat min_n, mc_max_size = nat max_n, mc_max_idle_sec = idle_sec,
           mc_connect_timeout_ms = connect, mc_read_timeout_ms = read, mc_query_timeout_ms = query,
           mc_acquire_timeout_ms = acquire, mc_keepalive_sec = keepalive, mc_worker_threads = nat workers,
           mc_max_creating = nat creating\<rparr>))))))))))))"

definition redis_config_from :: "config \<Rightarrow> config_error + redis_config" where
  "redis_config_from cfg =
     (let lo = get_at_least cfg ''redis''; int = get_int cfg ''redis''; mode = config_get cfg ''redis'' ''mode'' ''direct'' in
      try_then (int ''port'' 6379) (\<lambda>port.
      try_then (int ''db'' 0) (\<lambda>db.
      try_then (int ''connect_timeout_ms'' 1000) (\<lambda>connect.
      try_then (int ''cmd_timeout_ms'' 1000) (\<lambda>cmd.
      try_then (lo ''min_size'' 0 4) (\<lambda>min_n.
      try_then (lo ''max_size'' 1 32) (\<lambda>max_n.
      try_then (int ''max_idle_sec'' 120) (\<lambda>idle_sec.
      try_then (lo ''worker_threads'' 1 16) (\<lambda>workers.
      try_then (lo ''max_creating'' 0 0) (\<lambda>creating.
      try_then (int ''acquire_timeout_ms'' 3000) (\<lambda>acquire.
      Inr \<lparr>rd_host = config_get cfg ''redis'' ''host'' ''127.0.0.1'', rd_port = port, rd_db = db,
           rd_connect_timeout_ms = connect, rd_cmd_timeout_ms = cmd,
           rd_mode = (if mode = ''worker'' \<or> mode = ''WORKER'' then Worker else Direct),
           rd_min_size = nat min_n, rd_max_size = nat max_n, rd_max_idle_sec = idle_sec,
           rd_worker_threads = nat workers, rd_max_creating = nat creating, rd_acquire_timeout_ms = acquire\<rparr>)))))))))))"

definition server_config_from :: "config \<Rightarrow> config_error + server_config" where
  "server_config_from cfg =
     (let lo = get_at_least cfg ''server''; int = get_int cfg ''server'' in
      try_then (int ''port'' 8080) (\<lambda>port.
      if port < 1 \<or> port > 65535 then Inl (Invalid_argument ''server.port out of range [1,65535]'') else
      try_then (get_clamped cfg ''server'' ''io_threads'' 0 0 256) (\<lambda>threads.
      try_then (lo ''max_client_connections'' 1 8192) (\<lambda>clients.
      try_then (int ''fd_reserve'' 256) (\<lambda>reserved.
      if reserved < 32 then Inl (Invalid_argument ''server.fd_reserve must be at least 32'') else
      try_then (int ''downstream_write_timeout_ms'' 30000) (\<lambda>write_ms.
      try_then (int ''client_header_read_timeout_ms'' 10000) (\<lambda>header_ms.
      try_then (int ''client_body_read_timeout_ms'' 30000) (\<lambda>body_ms.
      try_then (lo ''combo_deadline_ms'' 1 500) (\<lambda>combo_ms.
      try_then (lo ''combo_max_in_flight_queries'' 1 8) (\<lambda>combo_n.
      Inr \<lparr>sc_port = port, sc_io_threads = nat threads, sc_max_client_connections = nat clients,
           sc_fd_reserve = nat reserved, sc_downstream_write_timeout_ms = write_ms,
           sc_client_header_read_timeout_ms = header_ms, sc_client_body_read_timeout_ms = body_ms,
           sc_combo_deadline_ms = combo_ms, sc_combo_max_in_flight = nat combo_n\<rparr>))))))))))"

definition log_level_from :: "config \<Rightarrow> log_level" where
  "log_level_from cfg =
     (let level = config_get cfg ''server'' ''log_level'' ''INFO'' in
      if level = ''DEBUG'' then Log_debug else if level = ''WARN'' then Log_warn
      else if level = ''ERROR'' then Log_error else Log_info)"

definition app_config_from :: "config \<Rightarrow> config_error + app_config" where
  "app_config_from cfg =
     try_then (server_config_from cfg) (\<lambda>srv.
     try_then (mysql_config_from cfg) (\<lambda>mysql.
     try_then (redis_config_from cfg) (\<lambda>redis.
     try_then (http_pool_config_from cfg) (\<lambda>pool.
     try_then (get_int cfg ''rate_limit'' ''snapshot_interval_sec'' 30) (\<lambda>snapshot.
     try_then (get_int cfg ''security'' ''config_reload_interval_sec'' 30) (\<lambda>reload.
     try_then (get_int cfg ''http_pool'' ''stats_interval_sec'' 30) (\<lambda>stats.
     try_then (get_bool cfg ''config_sync'' ''enabled'' False) (\<lambda>enabled.
     try_then (get_int cfg ''config_sync'' ''sync_interval_sec'' 5) (\<lambda>sync.
     try_then (get_int cfg ''config_sync'' ''first_pull_timeout_ms'' 3000) (\<lambda>pull_ms.
     try_then (admin_config_from cfg) (\<lambda>admin.
     try_then (config_history_from cfg) (\<lambda>history.
     Inr \<lparr>ap_log_level = log_level_from cfg, ap_log_file = config_get cfg ''server'' ''log_file'' ''server.log'',
          ap_server = srv, ap_mysql = mysql, ap_redis = redis, ap_http_pool = pool,
          ap_snapshot_interval_sec = snapshot, ap_reload_interval_sec = reload,
          ap_http_pool_stats_interval_sec = stats,
          ap_config_sync = \<lparr>sy_enabled = enabled, sy_sync_interval_sec = sync,
            sy_machine_name = config_get cfg ''config_sync'' ''machine_name'' [],
            sy_first_pull = config_get cfg ''config_sync'' ''first_pull'' ''async'',
            sy_first_pull_timeout_ms = pull_ms, sy_admin = admin, sy_history = history\<rparr>\<rparr>))))))))))))"

definition process_fd_budget_from :: "app_config \<Rightarrow> nat \<Rightarrow> process_fd_budget" where
  "process_fd_budget_from app effective_io_threads =
     \<lparr>client_connections = sc_max_client_connections (ap_server app),
      upstream_connections = max_total_connections (ap_http_pool app),
      mysql_connections = mc_max_size (ap_mysql app),
      redis_connections = (if rd_mode (ap_redis app) = Worker then rd_max_size (ap_redis app) else effective_io_threads),
      reserve = sc_fd_reserve (ap_server app)\<rparr>"

text \<open>The number of worker threads (\<^verbatim>\<open>src/app/application.cpp\<close>).\<close>

definition effective_io_threads :: "nat \<Rightarrow> app_config \<Rightarrow> nat" where
  "effective_io_threads hardware app =
     (let n = (if hardware = 0 then 4 else hardware); configured = sc_io_threads (ap_server app) in
      if configured \<noteq> 0 then configured else min n 16)"

text \<open>The check a reload makes of new pool settings, with the other parts of the budget as at start-up.\<close>

definition reload_pool_validator :: "process_fd_budget \<Rightarrow> nat option \<Rightarrow> pool_config \<Rightarrow> fd_error + unit" where
  "reload_pool_validator base soft_limit pool_cfg =
     validate_process_fd_budget (base\<lparr>upstream_connections := max_total_connections pool_cfg\<rparr>) soft_limit"

section \<open>What every accepted configuration satisfies\<close>

lemma at_least_thenE:
  assumes "try_then (get_at_least cfg s k lo def) f = Inr b"
  obtains x where "lo \<le> x" "f x = Inr b"
proof -
  obtain y where "get_at_least cfg s k lo def = Inr y" "f y = Inr b" using assms by (auto simp: cxx_result)
  moreover from this have "lo \<le> y" by (auto simp: get_at_least_def map_sum_def split: sum.splits)
  ultimately show thesis using that by blast
qed

lemma clamped_thenE:
  assumes "try_then (get_clamped cfg s k def lo hi) f = Inr b"
  obtains x where "lo \<le> x" "x \<le> max lo hi" "f x = Inr b"
proof -
  obtain y where "get_clamped cfg s k def lo hi = Inr y" "f y = Inr b" using assms by (auto simp: cxx_result)
  moreover from this have "lo \<le> y" "y \<le> max lo hi" by (auto simp: get_clamped_def map_sum_def split: sum.splits)
  ultimately show thesis using that by blast
qed

lemma any_thenE:
  assumes "try_then r f = Inr b"
  obtains x where "r = Inr x" "f x = Inr b"
  using assms by (auto simp: cxx_result)

lemma if_errorE:
  assumes "(if c then Inl e else r) = Inr b"
  obtains "\<not> c" "r = Inr b"
  using assms by (auto split: if_splits)

definition history_ok :: "history_config \<Rightarrow> bool" where
  "history_ok h \<longleftrightarrow>
     hc_read_mode h \<in> {''compat'', ''required''} \<and>
     1 \<le> hc_warn_file_bytes h \<and> hc_warn_file_bytes h \<le> hc_max_file_bytes h \<and>
     hc_max_file_bytes h \<le> hc_max_snapshot_bytes h \<and> hc_max_snapshot_bytes h \<le> 512 * 1024 \<and>
     1 \<le> hc_warn_snapshot_bytes h \<and> hc_warn_snapshot_bytes h \<le> hc_max_snapshot_bytes h \<and>
     1 \<le> hc_warn_files h \<and> hc_warn_files h \<le> hc_max_files h \<and> hc_max_files h \<le> 100 \<and>
     1 \<le> hc_history_page_size h \<and> hc_history_page_size h \<le> hc_history_page_size_max h \<and>
     hc_history_page_size_max h \<le> 50 \<and> 1 \<le> hc_gc_batch_size h \<and> hc_gc_batch_size h \<le> 20 \<and>
     1 \<le> hc_retention_versions h \<and> 1 \<le> hc_retention_days h \<and> 10 \<le> hc_gc_interval_sec h \<and> 60 \<le> hc_machine_ttl_sec h"

text \<open>The bounds the clamps alone give.\<close>

definition clamped_history :: "history_config \<Rightarrow> bool" where
  "clamped_history h \<longleftrightarrow>
     hc_read_mode h \<in> {''compat'', ''required''} \<and>
     1 \<le> hc_warn_file_bytes h \<and> 1 \<le> hc_max_file_bytes h \<and> hc_max_file_bytes h \<le> 128 * 1024 \<and>
     1 \<le> hc_max_snapshot_bytes h \<and> hc_max_snapshot_bytes h \<le> 512 * 1024 \<and> 1 \<le> hc_warn_snapshot_bytes h \<and>
     1 \<le> hc_warn_files h \<and> hc_warn_files h \<le> 100 \<and> hc_max_files h \<le> 100 \<and>
     1 \<le> hc_history_page_size h \<and> 1 \<le> hc_history_page_size_max h \<and>
     hc_history_page_size_max h \<le> 50 \<and> 1 \<le> hc_gc_batch_size h \<and> hc_gc_batch_size h \<le> 20 \<and>
     1 \<le> hc_retention_versions h \<and> 1 \<le> hc_retention_days h \<and> 10 \<le> hc_gc_interval_sec h \<and> 60 \<le> hc_machine_ttl_sec h"

lemma adjust_history_ok: "clamped_history h \<Longrightarrow> history_ok (adjust_history h)"
  by (simp add: clamped_history_def history_ok_def adjust_history_def Let_def) linarith

lemma history_read_mode_in: "history_read_mode cfg \<in> {''compat'', ''required''}"
  by (simp add: history_read_mode_def Let_def)

lemma config_history_ok: "config_history_from cfg = Inr h \<Longrightarrow> history_ok h"
  unfolding config_history_from_def Let_def
  apply (erule any_thenE)
  apply (elim at_least_thenE clamped_thenE)
  apply (drule sum.inject(2) [THEN iffD1])
  apply hypsubst
  apply (rule adjust_history_ok)
  using history_read_mode_in apply (simp add: clamped_history_def nat_le_iff le_nat_iff)
  done

definition accounts_ok :: "(string \<times> string) list \<Rightarrow> bool" where
  "accounts_ok accounts \<longleftrightarrow>
     distinct (map fst accounts) \<and> (\<forall>a \<in> set accounts. fst a \<noteq> [] \<and> starts_with ''pbkdf2_sha256$'' (snd a))"

lemma add_account_ok: "accounts_ok accounts \<Longrightarrow> accounts_ok (add_account accounts kv)"
proof -
  assume ok: "accounts_ok accounts"
  obtain k v where kv: "kv = (k, v)" by fastforce
  have sub: "set (AList.update k v al) \<subseteq> insert (k, v) (set al)" for al
    by (induction al) auto
  define c where "c \<longleftrightarrow> k \<notin> {''jwt_private_key'', ''jwt_public_key'', ''token_ttl_min'', ''insecure_no_auth''} \<and>
    k \<noteq> [] \<and> v \<noteq> [] \<and> starts_with ''pbkdf2_sha256$'' v"
  have a: "add_account accounts kv = (if c then AList.update k v accounts else accounts)"
    by (simp add: add_account_def kv c_def)
  show ?thesis
  proof (cases c)
    case True
    have "\<forall>a \<in> set (AList.update k v accounts). fst a \<noteq> [] \<and> starts_with ''pbkdf2_sha256$'' (snd a)"
      using sub [of accounts] ok True by (fastforce simp: c_def accounts_ok_def)
    then show ?thesis using a True ok by (simp add: accounts_ok_def distinct_update)
  qed (use a ok in simp)
qed

lemma accounts_fold_ok: "accounts_ok accounts \<Longrightarrow> accounts_ok (foldl add_account accounts kvs)"
  by (induction kvs arbitrary: accounts) (simp_all add: add_account_ok)

lemma admin_accounts_ok:
  assumes "admin_config_from cfg = Inr ac"
  shows "accounts_ok (ac_accounts ac)" "1 \<le> ac_token_ttl_min ac"
proof -
  have "accounts_ok (foldl add_account [] (get_section cfg ''admin''))"
    by (rule accounts_fold_ok) (simp add: accounts_ok_def)
  then have "accounts_ok (ac_accounts ac) \<and> 1 \<le> ac_token_ttl_min ac"
    using assms unfolding admin_config_from_def
    apply -
    apply (erule at_least_thenE)
    apply (erule any_thenE)
    apply (drule sum.inject(2) [THEN iffD1])
    apply (hypsubst, simp)
    done
  then show "accounts_ok (ac_accounts ac)" "1 \<le> ac_token_ttl_min ac" by simp_all
qed

lemma server_config_ok:
  assumes "server_config_from cfg = Inr c"
  shows "1 \<le> sc_port c \<and> sc_port c \<le> 65535 \<and> sc_io_threads c \<le> 256 \<and> 1 \<le> sc_max_client_connections c \<and>
    32 \<le> sc_fd_reserve c \<and> 1 \<le> sc_combo_deadline_ms c \<and> 1 \<le> sc_combo_max_in_flight c"
  using assms unfolding server_config_from_def Let_def
  apply (elim at_least_thenE clamped_thenE any_thenE if_errorE)
  apply (drule sum.inject(2) [THEN iffD1])
  apply (hypsubst, simp add: nat_le_iff le_nat_iff)
  done

lemma http_pool_config_ok:
  assumes "http_pool_config_from cfg = Inr c"
  shows "1 \<le> max_size c \<and> 1 \<le> max_total_connections c \<and> 1 \<le> pool_max_body_size c"
  using assms unfolding http_pool_config_from_def Let_def
  apply (elim at_least_thenE any_thenE)
  apply (drule sum.inject(2) [THEN iffD1])
  apply (hypsubst, simp add: le_nat_iff)
  done

lemma app_config_parts:
  assumes "app_config_from cfg = Inr app"
  shows "server_config_from cfg = Inr (ap_server app)" "http_pool_config_from cfg = Inr (ap_http_pool app)"
    "admin_config_from cfg = Inr (sy_admin (ap_config_sync app))"
    "config_history_from cfg = Inr (sy_history (ap_config_sync app))"
  using assms unfolding app_config_from_def by (auto simp: cxx_result)

text \<open>
  A configuration the process accepts keeps every promise its readers rely on: the port is a port, threads,
  connection limits and body limits are positive, at least 32 descriptors stay reserved, the history limits are ordered
  (warning below limit, file below snapshot, page below its maximum), every admin account has a distinct non-empty name and a
  PBKDF2 hash. When its descriptor budget passes the check, all pools and sessions at their limits fit the
  process limit, without any 64-bit wrap-around.
\<close>

lemma app_config_sound:
  assumes "app_config_from cfg = Inr app"
    and "validate_process_fd_budget (process_fd_budget_from app (effective_io_threads hardware app)) (Some limit) = Inr ()"
  shows "1 \<le> sc_port (ap_server app) \<and> sc_port (ap_server app) \<le> 65535 \<and> 32 \<le> sc_fd_reserve (ap_server app) \<and>
    1 \<le> effective_io_threads hardware app \<and> effective_io_threads hardware app \<le> 256 \<and>
    1 \<le> max_size (ap_http_pool app) \<and> 1 \<le> pool_max_body_size (ap_http_pool app) \<and>
    history_ok (sy_history (ap_config_sync app)) \<and>
    accounts_ok (ac_accounts (sy_admin (ap_config_sync app))) \<and>
    sc_max_client_connections (ap_server app) + max_total_connections (ap_http_pool app) + mc_max_size (ap_mysql app) +
      (if rd_mode (ap_redis app) = Worker then rd_max_size (ap_redis app) else effective_io_threads hardware app) +
      sc_fd_reserve (ap_server app) \<le> min limit SIZE_MAX"
proof -
  note parts = app_config_parts [OF assms(1)]
  have "1 \<le> effective_io_threads hardware app \<and> effective_io_threads hardware app \<le> 256"
    using server_config_ok [OF parts(1)] by (auto simp: effective_io_threads_def Let_def)
  then show ?thesis
    using server_config_ok [OF parts(1)] http_pool_config_ok [OF parts(2)] admin_accounts_ok [OF parts(3)]
      config_history_ok [OF parts(4)] assms(2)
    unfolding fd_budget_no_wraparound by (simp add: process_fd_budget_from_def)
qed

end
