(* ===== verification/Reload_Service.thy ===== *)
theory Reload_Service
  imports Client_Session App_Config
begin

text \<open>
  The configuration watcher, \<^verbatim>\<open>src/app/reload_service.hpp\<close>. On every tick of its timer it takes the
  fingerprint of the configuration directory, and when a changed fingerprint is seen twice it loads the files, prepares new rules and new
  routes, and publishes the rules, then the routes.
\<close>

section \<open>The fingerprint\<close>

record file_fingerprint =
  ff_name :: string
  ff_size :: nat
  ff_mtime :: int

type_synonym fingerprint = "file_fingerprint list"

text \<open>
  An entry of the directory as the calls report it: \<open>fe_regular\<close> is false also when \<^verbatim>\<open>is_regular_file\<close> reports an error,
  which the loop clears; \<open>None\<close> for size or time is an error. The range loop ends by an exception when the
  iterator cannot advance. When the iterator cannot be opened the loop has no entries, and the error code is not looked at.
\<close>

record fp_entry =
  fe_name :: string
  fe_regular :: bool
  fe_size :: "nat option"
  fe_mtime :: "int option"

datatype fp_dir = Not_a_directory | Cannot_open | Entries "fp_entry list" bool

datatype reload_error =
    Re_filesystem
  | Re_config config_error
  | Re_security sec_error
  | Re_budget fd_error
  | Re_upstream upstream_error

text \<open>\<open>Inr None\<close> is \<^verbatim>\<open>std::nullopt\<close>.\<close>

fun fingerprint_entries :: "fp_entry list \<Rightarrow> bool \<Rightarrow> fingerprint \<Rightarrow> reload_error + fingerprint option" where
  "fingerprint_entries [] increment_error acc = (if increment_error then Inl Re_filesystem else Inr (Some acc))"
| "fingerprint_entries (e # es) increment_error acc =
     (if \<not> fe_regular e \<or> path_extension (fe_name e) \<noteq> ''.ini'' then fingerprint_entries es increment_error acc
      else case fe_size e of
        None \<Rightarrow> Inr None
      | Some bytes \<Rightarrow>
          (case fe_mtime e of
             None \<Rightarrow> Inr None
           | Some mtime \<Rightarrow>
               fingerprint_entries es increment_error (acc @ [\<lparr>ff_name = fe_name e, ff_size = bytes, ff_mtime = mtime\<rparr>])))"

definition read_config_fingerprint :: "fp_dir \<Rightarrow> reload_error + fingerprint option" where
  "read_config_fingerprint dir =
     (case dir of
        Not_a_directory \<Rightarrow> Inr None
      | Cannot_open \<Rightarrow> Inr (Some [])
      | Entries es increment_error \<Rightarrow>
          map_sum id (map_option (sort_key ff_name)) (fingerprint_entries es increment_error []))"

section \<open>The service\<close>

text \<open>\<open>rs_timer\<close> is the pending wait, with the interval its handler captured.\<close>

record reload_service =
  rs_last :: "fingerprint option"
  rs_pending :: "fingerprint option"
  rs_running :: bool
  rs_timer :: "int option"

definition reload_service0 :: reload_service where
  "reload_service0 = \<lparr>rs_last = None, rs_pending = None, rs_running = False, rs_timer = None\<rparr>"

definition reload_start :: "fp_dir \<Rightarrow> int \<Rightarrow> reload_service \<Rightarrow> reload_error + reload_service" where
  "reload_start dir interval_sec rs =
     (if interval_sec \<le> 0 then Inr rs
      else try_then (read_config_fingerprint dir) (\<lambda>f.
        Inr (rs\<lparr>rs_running := True, rs_last := f, rs_timer := Some interval_sec\<rparr>)))"

definition reload_stop :: "reload_service \<Rightarrow> reload_service" where
  "reload_stop rs = rs\<lparr>rs_running := False, rs_timer := None\<rparr>"

text \<open>
  What one tick meets: the directory when the fingerprint is taken, the files as the loader reads them, the directory after
  the load, and the libraries.
\<close>

record tick_world =
  tw_dir :: fp_dir
  tw_files :: "(dir_entry list \<times> bool) option"
  tw_after :: fp_dir
  tw_env :: sec_env

type_synonym pool_validator = "pool_config \<Rightarrow> fd_error + unit"

definition lift_error :: "('e \<Rightarrow> reload_error) \<Rightarrow> 'e + 'a \<Rightarrow> reload_error + 'a" where
  "lift_error c = map_sum c id"

text \<open>Preparing the rules takes a number from the process-wide counter, also when a later step fails.\<close>

definition prepare_both ::
  "pool_validator option \<Rightarrow> sec_env \<Rightarrow> int \<Rightarrow> config \<Rightarrow> gateway \<Rightarrow>
     (reload_error + int \<times> prepared_rules \<times> prepared_reload) \<times> gateway" where
  "prepare_both validator env interval_sec cfg g =
     (case get_int cfg ''security'' ''config_reload_interval_sec'' interval_sec of
        Inl e \<Rightarrow> (Inl (Re_config e), g)
      | Inr next_sec \<Rightarrow>
          (case rules_prepare_reload env cfg (gw_rules g) of
             Inl e \<Rightarrow> (Inl (Re_security e), g)
           | Inr (prepared_security, r) \<Rightarrow>
               (try_then (lift_error Re_config (http_pool_config_from cfg)) (\<lambda>pool_cfg.
                try_then (case validator of None \<Rightarrow> Inr () | Some v \<Rightarrow> lift_error Re_budget (v pool_cfg)) (\<lambda>_.
                try_then (lift_error Re_upstream (prepare_reload (gw_ups g) cfg pool_cfg)) (\<lambda>prepared_upstreams.
                Inr (next_sec, prepared_security, prepared_upstreams)))),
                g\<lparr>gw_rules := r\<rparr>)))"

text \<open>
  The body of the handler: the new state of the service, the next interval, the states of the gateway that other threads can
  see, in order, and the last one. An exception leaves \<open>rs_pending\<close> as it was.
\<close>

definition reload_load ::
  "pool_validator option \<Rightarrow> tick_world \<Rightarrow> int \<Rightarrow> fingerprint \<Rightarrow> reload_service \<Rightarrow> gateway \<Rightarrow>
     reload_service \<times> int \<times> gateway list \<times> gateway" where
  "reload_load validator w interval_sec current rs g =
     (case config_load config0 (tw_files w) of
        (False, _) \<Rightarrow> (rs\<lparr>rs_pending := None\<rparr>, interval_sec, [], g)
      | (True, new_cfg) \<Rightarrow>
          (case read_config_fingerprint (tw_after w) of
             Inl _ \<Rightarrow> (rs, interval_sec, [], g)
           | Inr after_load \<Rightarrow>
               if after_load \<noteq> Some current then (rs\<lparr>rs_pending := None\<rparr>, interval_sec, [], g)
               else (case prepare_both validator (tw_env w) interval_sec new_cfg g of
                       (Inl _, g1) \<Rightarrow> (rs, interval_sec, [], g1)
                     | (Inr (next_sec, prepared_security, prepared_upstreams), g1) \<Rightarrow>
                         let g2 = g1\<lparr>gw_rules := rules_publish_reload prepared_security (gw_rules g1)\<rparr>;
                             g3 = g2\<lparr>gw_ups := publish_reload prepared_upstreams (gw_ups g2)\<rparr>
                         in (rs\<lparr>rs_last := Some current, rs_pending := None\<rparr>, next_sec, [g2, g3], g3))))"

definition reload_body ::
  "pool_validator option \<Rightarrow> tick_world \<Rightarrow> int \<Rightarrow> reload_service \<Rightarrow> gateway \<Rightarrow>
     reload_service \<times> int \<times> gateway list \<times> gateway" where
  "reload_body validator w interval_sec rs g =
     (case read_config_fingerprint (tw_dir w) of
        Inl _ \<Rightarrow> (rs, interval_sec, [], g)
      | Inr current \<Rightarrow>
          if rs_pending rs \<noteq> None \<and> current \<noteq> None \<and> rs_pending rs = current then
            if rs_last rs = None \<or> current \<noteq> rs_last rs
            then reload_load validator w interval_sec (the current) rs g
            else (rs\<lparr>rs_pending := None\<rparr>, interval_sec, [], g)
          else if current \<noteq> None \<and> (rs_last rs = None \<or> current \<noteq> rs_last rs)
          then (rs\<lparr>rs_pending := current\<rparr>, interval_sec, [], g)
          else (rs\<lparr>rs_pending := None\<rparr>, interval_sec, [], g))"

definition reload_tick ::
  "pool_validator option \<Rightarrow> tick_world \<Rightarrow> reload_service \<Rightarrow> gateway \<Rightarrow> reload_service \<times> gateway list \<times> gateway" where
  "reload_tick validator w rs g =
     (case rs_timer rs of
        None \<Rightarrow> (rs, [], g)
      | Some interval_sec \<Rightarrow>
          if \<not> rs_running rs then (rs\<lparr>rs_timer := None\<rparr>, [], g)
          else
            let (rs1, next_sec, seen, g1) = reload_body validator w interval_sec rs g
            in (rs1\<lparr>rs_timer := (if rs_running rs1 \<and> next_sec > 0 then Some next_sec else None)\<rparr>, seen, g1))"

fun reload_ticks ::
  "pool_validator option \<Rightarrow> tick_world list \<Rightarrow> reload_service \<Rightarrow> gateway \<Rightarrow> reload_service \<times> gateway list \<times> gateway" where
  "reload_ticks validator [] rs g = (rs, [], g)"
| "reload_ticks validator (w # ws) rs g =
     (let (rs1, seen, g1) = reload_tick validator w rs g;
          (rs2, seen2, g2) = reload_ticks validator ws rs1 g1
      in (rs2, seen @ seen2, g2))"

section \<open>A tick publishes both parts or nothing\<close>

text \<open>What other threads can tell apart: everything but the counter.\<close>

definition same_published :: "gateway \<Rightarrow> gateway \<Rightarrow> bool" where
  "same_published g h \<longleftrightarrow> gw_ups h = gw_ups g \<and> sr_snapshot (gw_rules h) = sr_snapshot (gw_rules g) \<and>
     sr_limiter (gw_rules h) = sr_limiter (gw_rules g) \<and> sr_generation (gw_rules h) = sr_generation (gw_rules g)"

lemma same_published_refl [simp]: "same_published g g"
  by (simp add: same_published_def)

lemma prepare_both_published: "same_published g (snd (prepare_both validator env interval cfg g))"
  by (auto simp: prepare_both_def same_published_def rules_prepare_reload_def next_generation_def Let_def
      split: sum.splits prod.splits if_splits)

lemma prepare_both_counter:
  assumes "prepare_both validator env interval cfg g = (Inr p, g1)"
  shows "g1 = g\<lparr>gw_rules := (gw_rules g)\<lparr>sr_counter := sr_counter (gw_rules g) + 1\<rparr>\<rparr>"
  using assms
  by (auto simp: prepare_both_def rules_prepare_reload_def next_generation_def Let_def split: sum.splits prod.splits if_splits)

text \<open>The two publications of a tick that found \<open>cfg\<close>, as steps of the gateway.\<close>

definition published_pair :: "prepared_rules \<Rightarrow> prepared_reload \<Rightarrow> gateway \<Rightarrow> gateway list \<Rightarrow> gateway \<Rightarrow> bool" where
  "published_pair ps pu g seen g' \<longleftrightarrow>
     seen = [gw_publish (Inl (1, ps)) g, g'] \<and> g' = gw_publish (Inr pu) (gw_publish (Inl (1, ps)) g)"

lemma published_pair_moments:
  assumes "published_pair ps pu g seen g'"
  shows "\<exists>h. seen = [h, g'] \<and> gw_ups h = gw_ups g \<and> sr_snapshot (gw_rules h) = Some (pu_snapshot ps) \<and>
    gw_rules g' = gw_rules h \<and> gw_ups g' = publish_reload pu (gw_ups g) \<and>
    publish_run gw_publish g h \<and> publish_run gw_publish h g'"
proof -
  let ?h = "gw_publish (Inl (1, ps)) g"
  have "publish_run gw_publish g ?h" "publish_run gw_publish ?h g'"
    using assms by (auto simp: published_pair_def intro: publish_run.intros)
  moreover have "seen = [?h, g']" "g' = gw_publish (Inr pu) ?h" using assms by (auto simp: published_pair_def)
  ultimately show ?thesis
    by (intro exI [of _ ?h]) (simp, simp add: gw_publish_def rules_published_def)
qed

definition stable_reload ::
  "pool_validator option \<Rightarrow> tick_world \<Rightarrow> int \<Rightarrow> fingerprint \<Rightarrow> gateway \<Rightarrow> gateway list \<Rightarrow> gateway \<Rightarrow> bool" where
  "stable_reload validator w interval f g seen g' \<longleftrightarrow>
     read_config_fingerprint (tw_dir w) = Inr (Some f) \<and> read_config_fingerprint (tw_after w) = Inr (Some f) \<and>
     (\<exists>cfg next_sec ps pu. config_load config0 (tw_files w) = (True, cfg) \<and>
        fst (prepare_both validator (tw_env w) interval cfg g) = Inr (next_sec, ps, pu) \<and> published_pair ps pu g seen g')"

lemma reload_load_cases:
  assumes "reload_load validator w interval f rs g = (rs', next_sec, seen, g')"
    and "read_config_fingerprint (tw_dir w) = Inr (Some f)"
  shows "seen = [] \<and> same_published g g' \<and> rs_last rs' = rs_last rs \<or>
    stable_reload validator w interval f g seen g' \<and> rs_last rs' = Some f"
proof (cases "seen = []")
  case True
  then show ?thesis
    using assms(1) prepare_both_published [of g validator "tw_env w" interval]
    by (auto simp: reload_load_def Let_def split: prod.splits bool.splits sum.splits if_splits) (metis snd_conv)+
next
  case False
  obtain cfg where cfg: "config_load config0 (tw_files w) = (True, cfg)"
    using assms(1) False by (auto simp: reload_load_def split: prod.splits bool.splits)
  have after_f: "read_config_fingerprint (tw_after w) = Inr (Some f)"
    using assms(1) False cfg by (auto simp: reload_load_def split: sum.splits if_splits)
  obtain n ps pu g1 where p: "prepare_both validator (tw_env w) interval cfg g = (Inr (n, ps, pu), g1)"
    using assms(1) False cfg after_f
    by (cases "prepare_both validator (tw_env w) interval cfg g") (auto simp: reload_load_def split: sum.splits)
  show ?thesis
    using assms(1) cfg after_f p prepare_both_counter [OF p] assms(2)
    by (auto simp: reload_load_def stable_reload_def published_pair_def gw_publish_def rules_published_def Let_def)
qed

lemma reload_body_cases:
  assumes "reload_body validator w interval rs g = (rs', next_sec, seen, g')"
  shows "seen = [] \<and> same_published g g' \<and> rs_last rs' = rs_last rs \<or>
    (\<exists>f. rs_pending rs = Some f \<and> rs_last rs \<noteq> Some f \<and> stable_reload validator w interval f g seen g' \<and> rs_last rs' = Some f)"
  using assms reload_load_cases [of validator w interval _ rs g rs' next_sec seen g']
  by (auto simp: reload_body_def split: sum.splits if_splits)

text \<open>
  C17. A tick either publishes nothing (routes, snapshot, limiter and generation seen by requests are unchanged, and so is
  the acknowledged fingerprint), or publishes exactly twice, from one configuration: first the rules, with the old routes still in
  force, then the routes. The second happens only if the same changed fingerprint was seen on the tick before, at the start of
  this one and again after the files were read, and every step of preparation succeeded; the fingerprint is then acknowledged. A new
  route is therefore never visible under rules older than itself.
\<close>

theorem reload_tick_atomic:
  assumes "reload_tick validator w rs g = (rs', seen, g')"
  shows "seen = [] \<and> same_published g g' \<and> rs_last rs' = rs_last rs \<or>
    (\<exists>f interval cfg next_sec ps pu. rs_pending rs = Some f \<and> rs_last rs \<noteq> Some f \<and> rs_last rs' = Some f \<and>
       read_config_fingerprint (tw_dir w) = Inr (Some f) \<and> read_config_fingerprint (tw_after w) = Inr (Some f) \<and>
       config_load config0 (tw_files w) = (True, cfg) \<and>
       fst (prepare_both validator (tw_env w) interval cfg g) = Inr (next_sec, ps, pu) \<and>
       (\<exists>h. seen = [h, g'] \<and> gw_ups h = gw_ups g \<and> sr_snapshot (gw_rules h) = Some (pu_snapshot ps) \<and>
          gw_rules g' = gw_rules h \<and> gw_ups g' = publish_reload pu (gw_ups g) \<and>
          publish_run gw_publish g h \<and> publish_run gw_publish h g'))"
proof (cases "rs_timer rs")
  case None
  then show ?thesis using assms by (simp add: reload_tick_def)
next
  case (Some interval)
  show ?thesis
  proof (cases "rs_running rs")
    case False
    then show ?thesis using assms Some by (auto simp: reload_tick_def)
  next
    case True
    obtain rs1 n where b: "reload_body validator w interval rs g = (rs1, n, seen, g')" "rs_last rs' = rs_last rs1"
      using assms Some True by (auto simp: reload_tick_def split: prod.splits)
    from reload_body_cases [OF b(1)] show ?thesis
      unfolding stable_reload_def published_pair_def b(2)
    proof (elim disjE exE conjE, goal_cases)
      case (2 f cfg next_sec ps pu)
      have "\<exists>h. seen = [h, g'] \<and> gw_ups h = gw_ups g \<and> sr_snapshot (gw_rules h) = Some (pu_snapshot ps) \<and>
          gw_rules g' = gw_rules h \<and> gw_ups g' = publish_reload pu (gw_ups g) \<and>
          publish_run gw_publish g h \<and> publish_run gw_publish h g'"
        using 2(8,9) published_pair_moments [of ps pu g seen g'] by (simp add: published_pair_def)
      then show ?case using 2 by blast
    qed simp
  qed
qed

section \<open>A stable change is picked up\<close>

text \<open>What makes a configuration loadable in a gateway whose route table is consistent.\<close>

definition config_acceptable :: "pool_validator option \<Rightarrow> sec_env \<Rightarrow> config \<Rightarrow> bool" where
  "config_acceptable validator env cfg \<longleftrightarrow>
     (\<exists>x. load_from_config env True cfg = Inr x) \<and>
     (\<exists>n. get_int cfg ''security'' ''config_reload_interval_sec'' 0 = Inr n) \<and>
     (\<exists>pool. http_pool_config_from cfg = Inr pool \<and> (\<forall>v. validator = Some v \<longrightarrow> v pool = Inr ())) \<and>
     (\<exists>flag. get_bool cfg ''gateway'' ''json_keys_snake_to_camel'' True = Inr flag) \<and>
     (\<forall>(n, v) \<in> set (get_section cfg ''upstream''). \<exists>up. parse_upstream n v = Inr up)"

lemma get_int_def_irrelevant: "get_int cfg s k d = Inr n \<Longrightarrow> \<exists>m. get_int cfg s k d' = Inr m"
  by (auto simp: get_int_def split: option.splits)

lemma prepare_both_acceptable:
  assumes "config_acceptable validator env cfg" and "um_ok (gw_ups g)"
  obtains next_sec ps pu rl where "fst (prepare_both validator env interval cfg g) = Inr (next_sec, ps, pu)"
    "load_from_config env True cfg = Inr (pu_snapshot ps, rl)"
    "dom (pr_upstreams pu) = fst ` set (get_section cfg ''upstream'')"
proof -
  obtain ss rl where l: "load_from_config env True cfg = Inr (ss, rl)"
    using assms(1) by (auto simp: config_acceptable_def)
  obtain n where n: "get_int cfg ''security'' ''config_reload_interval_sec'' interval = Inr n"
    using assms(1) get_int_def_irrelevant by (fastforce simp: config_acceptable_def)
  obtain ps r where r: "rules_prepare_reload env cfg (gw_rules g) = Inr (ps, r)" "pu_snapshot ps = ss"
    by (cases "rules_prepare_reload env cfg (gw_rules g)")
      (auto simp: rules_prepare_reload_def l next_generation_def split: if_splits)
  obtain pool where pool: "http_pool_config_from cfg = Inr pool" "\<forall>v. validator = Some v \<longrightarrow> v pool = Inr ()"
    using assms(1) by (auto simp: config_acceptable_def)
  obtain pu where pu: "prepare_reload (gw_ups g) cfg pool = Inr pu"
    "dom (pr_upstreams pu) = fst ` set (get_section cfg ''upstream'')"
    using assms prepare_reload_total [OF assms(2), of cfg _ pool] by (auto simp: config_acceptable_def split: if_splits)
  have "fst (prepare_both validator env interval cfg g) = Inr (n, ps, pu)"
    using n r pool pu by (auto simp: prepare_both_def lift_error_def split: option.split)
  then show thesis using that l r(2) pu(2) by blast
qed

text \<open>The directory holds a valid configuration, with fingerprint \<open>f\<close>, throughout the tick.\<close>

definition steady :: "pool_validator option \<Rightarrow> fingerprint \<Rightarrow> config \<Rightarrow> tick_world \<Rightarrow> bool" where
  "steady validator f cfg w \<longleftrightarrow>
     read_config_fingerprint (tw_dir w) = Inr (Some f) \<and> read_config_fingerprint (tw_after w) = Inr (Some f) \<and>
     config_load config0 (tw_files w) = (True, cfg) \<and> config_acceptable validator (tw_env w) cfg"

definition in_force :: "sec_env set \<Rightarrow> fingerprint \<Rightarrow> config \<Rightarrow> reload_service \<Rightarrow> gateway \<Rightarrow> bool" where
  "in_force envs f cfg rs g \<longleftrightarrow>
     rs_last rs = Some f \<and> um_ok (gw_ups g) \<and>
     (\<exists>env \<in> envs. \<exists>ss rl. load_from_config env True cfg = Inr (ss, rl) \<and> sr_snapshot (gw_rules g) = Some ss) \<and>
     dom (um_upstreams (gw_ups g)) = fst ` set (get_section cfg ''upstream'')"

lemma prepare_reload_dom:
  "prepare_reload um cfg pool = Inr pu \<Longrightarrow> dom (pr_pools pu) = dom (pr_upstreams pu)"
  by (auto simp: prepare_reload_def dest!: prepare_entries_ok split: sum.splits)

lemma steady_tick_loads:
  assumes "steady validator f cfg w" and "um_ok (gw_ups g)" and "rs_running rs" and "rs_timer rs = Some interval"
    and "rs_pending rs = Some f" and "rs_last rs \<noteq> Some f"
  shows "\<exists>rs' seen g'. reload_tick validator w rs g = (rs', seen, g') \<and> in_force {tw_env w} f cfg rs' g'"
proof -
  obtain n ps pu rl where p: "fst (prepare_both validator (tw_env w) interval cfg g) = Inr (n, ps, pu)"
    "load_from_config (tw_env w) True cfg = Inr (pu_snapshot ps, rl)"
    "dom (pr_upstreams pu) = fst ` set (get_section cfg ''upstream'')"
    using prepare_both_acceptable [OF _ assms(2)] assms(1) unfolding steady_def by blast
  obtain g1 where g1: "prepare_both validator (tw_env w) interval cfg g = (Inr (n, ps, pu), g1)"
    using p(1) by (cases "prepare_both validator (tw_env w) interval cfg g") auto
  obtain pool where "prepare_reload (gw_ups g) cfg pool = Inr pu"
    using g1 by (auto simp: prepare_both_def lift_error_def cxx_result map_sum_def split: sum.splits prod.splits option.splits)
  then have "dom (pr_pools pu) = dom (pr_upstreams pu)" by (rule prepare_reload_dom)
  then show ?thesis
    using assms p g1 by (simp add: steady_def reload_tick_def reload_body_def reload_load_def in_force_def publish_reload_def um_ok_def Let_def)
qed

lemma steady_tick_observes:
  assumes "steady validator f cfg w" and "rs_running rs" and "rs_timer rs = Some interval" and "0 < interval"
    and "rs_pending rs \<noteq> Some f" and "rs_last rs \<noteq> Some f"
  shows "reload_tick validator w rs g = (rs\<lparr>rs_pending := Some f\<rparr>, [], g)"
  using assms by (simp add: steady_def reload_tick_def reload_body_def)

lemma acknowledged_tick_idle:
  assumes "steady validator f cfg w" and "rs_last rs = Some f"
  shows "\<exists>rs'. reload_tick validator w rs g = (rs', [], g) \<and> rs_last rs' = Some f"
  using assms by (auto simp: steady_def reload_tick_def reload_body_def split: option.splits)


definition demo_ini :: string where
  "demo_ini = ''[security]'' @ [LF] @ ''jwt_secret=key'' @ [LF] @ ''[upstream]'' @ [LF] @ ''orders=127.0.0.1:8080'' @ [LF]"

definition demo_world :: tick_world where
  "demo_world =
     (let dir = Entries [\<lparr>fe_name = ''a.ini'', fe_regular = True, fe_size = Some 60, fe_mtime = Some 7\<rparr>] False in
      \<lparr>tw_dir = dir, tw_files = Some ([\<lparr>de_name = ''a.ini'', de_regular = Some True, de_content = Some demo_ini\<rparr>], False),
       tw_after = dir, tw_env = demo_env\<rparr>)"

definition demo_fingerprint :: fingerprint where
  "demo_fingerprint = [\<lparr>ff_name = ''a.ini'', ff_size = 60, ff_mtime = 7\<rparr>]"

definition demo_cfg :: config where
  "demo_cfg = snd (config_load config0 (tw_files demo_world))"

definition demo_service :: reload_service where
  "demo_service = \<lparr>rs_last = None, rs_pending = None, rs_running = True, rs_timer = Some 30\<rparr>"

lemma not_isl_iff: "\<not> isl x \<longleftrightarrow> (\<exists>y. x = Inr y)"
  by (cases x) auto

lemma demo_steady: "steady None demo_fingerprint demo_cfg demo_world"
proof -
  have r: "read_config_fingerprint (tw_dir demo_world) = Inr (Some demo_fingerprint)"
    "read_config_fingerprint (tw_after demo_world) = Inr (Some demo_fingerprint)" by code_simp+
  have l: "fst (config_load config0 (tw_files demo_world))" by code_simp
  have e: "tw_env demo_world = demo_env" by (simp add: demo_world_def Let_def)
  have "\<not> isl (load_from_config demo_env True demo_cfg)" by code_simp
  moreover have "\<not> isl (get_int demo_cfg ''security'' ''config_reload_interval_sec'' 0)" by code_simp
  moreover have "\<not> isl (http_pool_config_from demo_cfg)" by code_simp
  moreover have "\<not> isl (get_bool demo_cfg ''gateway'' ''json_keys_snake_to_camel'' True)" by code_simp
  moreover have "list_all (\<lambda>(n, v). \<not> isl (parse_upstream n v)) (get_section demo_cfg ''upstream'')" by code_simp
  ultimately have "config_acceptable None (tw_env demo_world) demo_cfg"
    unfolding config_acceptable_def e by (auto simp: list_all_iff not_isl_iff simp del: split_paired_Ex)
  then show ?thesis using r l by (simp add: steady_def demo_cfg_def prod_eq_iff)
qed

lemma demo_um_ok: "um_ok (gw_ups demo_gateway)"
  by (simp add: demo_gateway_def demo_um_def um_reach_ok um_reach.intros)


theorem reload_tick_atomic_witness:
  "\<exists>rs' h g'. reload_tick None demo_world (demo_service\<lparr>rs_pending := Some demo_fingerprint\<rparr>) demo_gateway = (rs', [h, g'], g') \<and>
    gw_ups h = gw_ups demo_gateway \<and> gw_rules g' = gw_rules h"
proof -
  let ?rs = "demo_service\<lparr>rs_pending := Some demo_fingerprint\<rparr>"
  obtain rs' seen g' where t: "reload_tick None demo_world ?rs demo_gateway = (rs', seen, g')"
    "in_force {tw_env demo_world} demo_fingerprint demo_cfg rs' g'"
    using steady_tick_loads [OF demo_steady demo_um_ok, of ?rs 30] by (auto simp: demo_service_def)
  then have "rs_last rs' \<noteq> rs_last ?rs" by (simp add: in_force_def demo_service_def)
  with reload_tick_atomic [OF t(1)] obtain h where
    "seen = [h, g']" "gw_ups h = gw_ups demo_gateway" "gw_rules g' = gw_rules h" by blast
  then show ?thesis using t(1) by blast
qed

end
