(* ===== verification/Db_Pool.thy ===== *)
theory Db_Pool
  imports App_Config "HOL-Library.Multiset"
begin

text \<open>
  The connection pools of \<^verbatim>\<open>src/db/mysql_pool.hpp\<close> and \<^verbatim>\<open>src/db/redis_pool.hpp\<close> (worker mode). Both keep a
  deque of idle connections, the number of connections (\<open>db_total\<close>, which also counts connections in use and
  slots reserved for connections not yet made) and the number of connects under way, all under one mutex, with one condition variable.
  They differ in the end of the deque they take from, in what they reclaim, in the reset after taking, and in how
  pushing to the deque may fail; \<open>db_ops\<close> holds these differences.

  One event is one critical section, or one call outside the mutex, of one thread. The worker threads
  run \<^verbatim>\<open>acquire\<close>, the query and \<^verbatim>\<open>release\<close>; one more thread runs \<^verbatim>\<open>maintain_loop\<close>.
  \<open>ds_open\<close> and \<open>ds_next\<close> are ghosts: the connections now open, and the next identity. A section
  reads \<^verbatim>\<open>running_\<close> once, at its own moment.
\<close>

type_synonym idle_conns = "(nat \<times> int) list"

record db_pool =
  db_running :: bool
  db_idle :: idle_conns
  db_total :: nat
  db_creating :: nat

record db_cfg =
  db_min_size :: nat
  db_max_size :: nat
  db_max_idle_sec :: int
  db_max_creating_limit :: nat

record db_ops =
  op_take :: "idle_conns \<Rightarrow> ((nat \<times> int) \<times> idle_conns) option"
  op_reclaim :: "db_cfg \<Rightarrow> int \<Rightarrow> nat \<Rightarrow> idle_conns \<Rightarrow> nat list \<times> nat \<times> idle_conns"
  op_resets :: bool
  op_guarded_push :: bool

text \<open>Subtraction on \<^verbatim>\<open>size_t\<close>.\<close>

definition size_sub :: "nat \<Rightarrow> nat \<Rightarrow> nat" where
  "size_sub a b = (if b \<le> a then a - b else 2 ^ 64 - (b - a))"

lemma size_sub_exact [simp]: "b \<le> a \<Longrightarrow> size_sub a b = a - b"
  by (simp add: size_sub_def)

section \<open>Critical sections\<close>

datatype acquired = Acq_stopped | Acq_idle nat db_pool | Acq_create db_pool | Acq_wait

definition acquire_section :: "db_ops \<Rightarrow> db_cfg \<Rightarrow> db_pool \<Rightarrow> acquired" where
  "acquire_section ops cfg p =
     (if \<not> db_running p then Acq_stopped
      else case op_take ops (db_idle p) of
        Some (c, rest) \<Rightarrow> Acq_idle (fst c) (p\<lparr>db_idle := rest\<rparr>)
      | None \<Rightarrow>
          if db_total p < db_max_size cfg \<and> db_creating p < db_max_creating_limit cfg
          then Acq_create (p\<lparr>db_total := db_total p + 1, db_creating := db_creating p + 1\<rparr>)
          else Acq_wait)"

definition created_section :: "bool \<Rightarrow> db_pool \<Rightarrow> db_pool" where
  "created_section ok p =
     (let p1 = p\<lparr>db_creating := size_sub (db_creating p) 1\<rparr>
      in if ok then p1 else p1\<lparr>db_total := size_sub (db_total p1) 1\<rparr>)"

definition push_idle :: "nat \<Rightarrow> int \<Rightarrow> db_pool \<Rightarrow> db_pool" where
  "push_idle c now p = p\<lparr>db_idle := db_idle p @ [(c, now)]\<rparr>"

definition release_section :: "nat \<Rightarrow> int \<Rightarrow> bool \<Rightarrow> db_pool \<Rightarrow> db_pool" where
  "release_section c now pushed p =
     (if pushed then push_idle c now p
      else if db_total p > 0 then p\<lparr>db_total := db_total p - 1\<rparr> else p)"

definition drop_section :: "db_pool \<Rightarrow> db_pool" where
  "drop_section p = p\<lparr>db_total := size_sub (db_total p) 1\<rparr>"

definition reserve_section :: "db_cfg \<Rightarrow> db_pool \<Rightarrow> nat \<times> db_pool" where
  "reserve_section cfg p =
     (if length (db_idle p) < db_min_size cfg then
        let headroom = (if db_total p > db_max_size cfg then 0 else db_max_size cfg - db_total p);
            need = min (db_min_size cfg - length (db_idle p)) headroom
        in (need, p\<lparr>db_total := db_total p + need\<rparr>)
      else (0, p))"

text \<open>The connections that were made, each with whether the push succeeded, and the number of unused slots.\<close>

definition add_section :: "int \<Rightarrow> (nat \<times> bool) list \<Rightarrow> nat \<Rightarrow> db_pool \<Rightarrow> db_pool" where
  "add_section now made unused p =
     (let pooled = filter snd made
      in p\<lparr>db_idle := db_idle p @ map (\<lambda>(c, _). (c, now)) pooled,
          db_total := size_sub (db_total p) (length made + unused - length pooled)\<rparr>)"

definition max_check :: nat where
  "max_check = 4"

definition check_section :: "db_pool \<Rightarrow> idle_conns \<times> db_pool" where
  "check_section p =
     (let cnt = min (length (db_idle p)) max_check
      in (take cnt (db_idle p), p\<lparr>db_idle := drop cnt (db_idle p)\<rparr>))"

definition dead_section :: "nat \<Rightarrow> db_pool \<Rightarrow> db_pool" where
  "dead_section dead p = (if dead > 0 then p\<lparr>db_total := size_sub (db_total p) dead\<rparr> else p)"

definition close_section :: "db_pool \<Rightarrow> db_pool" where
  "close_section p = p\<lparr>db_idle := [], db_total := 0\<rparr>"

section \<open>Threads\<close>

text \<open>The argument \<open>retry\<close> is the loop counter of \<^verbatim>\<open>acquire\<close>; the flag of a waiting thread says that it was notified.\<close>

datatype db_worker =
    W_away
  | W_lock nat
  | W_wait nat bool
  | W_reset nat nat
  | W_create nat
  | W_created nat "nat option"
  | W_hold nat
  | W_drop "nat option"
  | W_free nat
  | W_notify

datatype db_maint =
    M_loop
  | M_sleep bool
  | M_reclaim
  | M_close "nat list"
  | M_reserve
  | M_create nat "nat list" nat
  | M_add "nat list" nat
  | M_unpooled "nat list"
  | M_take
  | M_check idle_conns nat
  | M_dead nat
  | M_exit

record db_state =
  ds_pool :: db_pool
  ds_workers :: "db_worker list"
  ds_maint :: db_maint
  ds_open :: "nat list"
  ds_next :: nat

definition set_w :: "nat \<Rightarrow> db_worker \<Rightarrow> db_state \<Rightarrow> db_state" where
  "set_w w x s = s\<lparr>ds_workers := (ds_workers s)[w := x]\<rparr>"

definition worker_at :: "db_state \<Rightarrow> nat \<Rightarrow> db_worker" where
  "worker_at s w = (if w < length (ds_workers s) then ds_workers s ! w else W_notify)"

definition close_conns :: "nat list \<Rightarrow> db_state \<Rightarrow> db_state" where
  "close_conns cs s = s\<lparr>ds_open := foldr remove1 cs (ds_open s)\<rparr>"

definition open_conn :: "db_state \<Rightarrow> nat \<times> db_state" where
  "open_conn s = (ds_next s, s\<lparr>ds_open := ds_next s # ds_open s, ds_next := ds_next s + 1\<rparr>)"

fun wake_worker :: "db_worker \<Rightarrow> db_worker" where
  "wake_worker (W_wait r b) = W_wait r True"
| "wake_worker x = x"

fun wake_maint :: "db_maint \<Rightarrow> db_maint" where
  "wake_maint (M_sleep b) = M_sleep True"
| "wake_maint x = x"

definition notify_all :: "db_state \<Rightarrow> db_state" where
  "notify_all s = s\<lparr>ds_workers := map wake_worker (ds_workers s), ds_maint := wake_maint (ds_maint s)\<rparr>"

text \<open>\<^verbatim>\<open>notify_one\<close> wakes one thread that waits and was not notified, any one, if there is one.\<close>

datatype notified = To_worker nat | To_maint | To_none

definition notify_one :: "notified \<Rightarrow> db_state \<Rightarrow> db_state option" where
  "notify_one t s =
     (case t of
        To_worker w \<Rightarrow>
          (case worker_at s w of
             W_wait r False \<Rightarrow> Some (set_w w (W_wait r True) s)
           | _ \<Rightarrow> None)
      | To_maint \<Rightarrow> if ds_maint s = M_sleep False then Some (s\<lparr>ds_maint := M_sleep True\<rparr>) else None
      | To_none \<Rightarrow>
          if ds_maint s \<noteq> M_sleep False \<and>
             list_all (\<lambda>x. case x of W_wait _ False \<Rightarrow> False | _ \<Rightarrow> True) (ds_workers s)
          then Some s else None)"

section \<open>Events\<close>

datatype worker_event =
    E_start
  | E_lock
  | E_wake
  | E_timeout
  | E_reset bool
  | E_connect bool
  | E_created
  | E_bad
  | E_drop
  | E_release bool int
  | E_free
  | E_notify notified

datatype maint_event =
    E_loop
  | E_notified
  | E_expired
  | E_reclaim int
  | E_close
  | E_reserve
  | E_made bool
  | E_add "bool list" int
  | E_unpooled
  | E_take
  | E_ping bool bool int
  | E_dead
  | E_throw

datatype db_event = By_worker nat worker_event | By_maint maint_event | E_shutdown | E_close_all

definition set_pool :: "db_pool \<Rightarrow> db_state \<Rightarrow> db_state" where
  "set_pool p s = s\<lparr>ds_pool := p\<rparr>"

definition set_m :: "db_maint \<Rightarrow> db_state \<Rightarrow> db_state" where
  "set_m m s = s\<lparr>ds_maint := m\<rparr>"

text \<open>\<^verbatim>\<open>continue\<close> in the retry loop, and the end of the call.\<close>

definition after_drop :: "nat option \<Rightarrow> db_worker" where
  "after_drop k = (case k of None \<Rightarrow> W_away | Some r \<Rightarrow> if r < 2 then W_lock r else W_away)"

text \<open>The worker threads: \<^verbatim>\<open>acquire\<close>, \<^verbatim>\<open>release\<close>, \<^verbatim>\<open>drop_bad_connection\<close> and \<^verbatim>\<open>ConnectionGuard\<close>.\<close>

definition worker_step :: "db_ops \<Rightarrow> db_cfg \<Rightarrow> nat \<Rightarrow> worker_event \<Rightarrow> db_state \<Rightarrow> db_state option" where
  "worker_step ops cfg w e s =
     (let p = ds_pool s; x = ds_workers s ! w in
      case e of
        E_start \<Rightarrow> if x = W_away \<and> db_running p then Some (set_w w (W_lock 0) s) else None
      | E_lock \<Rightarrow>
          (case x of
             W_lock r \<Rightarrow>
               Some (case acquire_section ops cfg p of
                  Acq_stopped \<Rightarrow> set_w w W_away s
                | Acq_idle c p1 \<Rightarrow> set_w w (if op_resets ops then W_reset r c else W_hold c) (set_pool p1 s)
                | Acq_create p1 \<Rightarrow> set_w w (W_create r) (set_pool p1 s)
                | Acq_wait \<Rightarrow> set_w w (W_wait r False) s)
           | _ \<Rightarrow> None)
      | E_wake \<Rightarrow> (case x of W_wait r b \<Rightarrow> Some (set_w w (W_lock r) s) | _ \<Rightarrow> None)
      | E_timeout \<Rightarrow> (case x of W_wait r b \<Rightarrow> Some (set_w w W_away s) | _ \<Rightarrow> None)
      | E_reset ok \<Rightarrow>
          (case x of
             W_reset r c \<Rightarrow>
               Some (if ok then set_w w (W_hold c) s else set_w w (W_drop (Some (r + 1))) (close_conns [c] s))
           | _ \<Rightarrow> None)
      | E_connect ok \<Rightarrow>
          (case x of
             W_create r \<Rightarrow>
               Some (if ok then let (c, s1) = open_conn s in set_w w (W_created r (Some c)) s1
                     else set_w w (W_created r None) s)
           | _ \<Rightarrow> None)
      | E_created \<Rightarrow>
          (case x of
             W_created r (Some c) \<Rightarrow> Some (set_w w (W_hold c) (set_pool (created_section True p) s))
           | W_created r None \<Rightarrow>
               Some (set_w w (after_drop (Some (r + 1))) (notify_all (set_pool (created_section False p) s)))
           | _ \<Rightarrow> None)
      | E_bad \<Rightarrow> (case x of W_hold c \<Rightarrow> Some (set_w w (W_drop None) (close_conns [c] s)) | _ \<Rightarrow> None)
      | E_drop \<Rightarrow>
          (case x of
             W_drop k \<Rightarrow> Some (set_w w (after_drop k) (notify_all (set_pool (drop_section p) s)))
           | _ \<Rightarrow> None)
      | E_release pushed now \<Rightarrow>
          (case x of
             W_hold c \<Rightarrow> Some (set_w w (if pushed then W_notify else W_free c) (set_pool (release_section c now pushed p) s))
           | _ \<Rightarrow> None)
      | E_free \<Rightarrow> (case x of W_free c \<Rightarrow> Some (set_w w W_notify (close_conns [c] s)) | _ \<Rightarrow> None)
      | E_notify t \<Rightarrow> if x = W_notify then map_option (set_w w W_away) (notify_one t s) else None)"

text \<open>The maintenance thread: \<^verbatim>\<open>maintain_loop\<close> and \<^verbatim>\<open>do_maintain\<close>.\<close>

definition maint_step :: "db_ops \<Rightarrow> db_cfg \<Rightarrow> maint_event \<Rightarrow> db_state \<Rightarrow> db_state option" where
  "maint_step ops cfg e s =
     (let p = ds_pool s; m = ds_maint s in
      case e of
        E_loop \<Rightarrow> if m = M_loop then Some (set_m (if db_running p then M_sleep False else M_exit) s) else None
      | E_notified \<Rightarrow> if m = M_sleep True then Some (set_m (if db_running p then M_sleep False else M_exit) s) else None
      | E_expired \<Rightarrow> (case m of M_sleep b \<Rightarrow> Some (set_m (if db_running p then M_reclaim else M_exit) s) | _ \<Rightarrow> None)
      | E_reclaim now \<Rightarrow>
          if m = M_reclaim then
            let (closed, total, kept) = op_reclaim ops cfg now (db_total p) (db_idle p)
            in Some (notify_all (set_m (M_close closed) (set_pool (p\<lparr>db_idle := kept, db_total := total\<rparr>) s)))
          else None
      | E_close \<Rightarrow>
          (case m of
             M_close cs \<Rightarrow> Some (set_m (if db_running p then M_reserve else M_loop) (close_conns cs s))
           | _ \<Rightarrow> None)
      | E_reserve \<Rightarrow>
          if m = M_reserve then
            let (need, p1) = reserve_section cfg p in Some (set_m (M_create need [] 0) (set_pool p1 s))
          else None
      | E_made ok \<Rightarrow>
          (case m of
             M_create left made failed \<Rightarrow>
               Some (if left = 0 \<or> \<not> db_running p then set_m (M_add made (left + failed)) s
                     else if ok then let (c, s1) = open_conn s in set_m (M_create (left - 1) (made @ [c]) failed) s1
                     else set_m (M_create (left - 1) made (failed + 1)) s)
           | _ \<Rightarrow> None)
      | E_add flags now \<Rightarrow>
          (case m of
             M_add made unused \<Rightarrow>
               if length flags = length made \<and> (op_guarded_push ops \<or> list_all id flags) then
                 let tried = zip made flags
                 in Some (notify_all (set_m (M_unpooled (map fst (filter (Not \<circ> snd) tried)))
                      (set_pool (add_section now tried unused p) s)))
               else None
           | _ \<Rightarrow> None)
      | E_unpooled \<Rightarrow>
          (case m of
             M_unpooled cs \<Rightarrow> Some (set_m (if db_running p then M_take else M_loop) (close_conns cs s))
           | _ \<Rightarrow> None)
      | E_take \<Rightarrow>
          if m = M_take then
            let (todo, p1) = check_section p in Some (set_m (M_check todo 0) (set_pool p1 s))
          else None
      | E_ping alive pushed now \<Rightarrow>
          (case m of
             M_check [] dead \<Rightarrow> Some (set_m (M_dead dead) s)
           | M_check (c # rest) dead \<Rightarrow>
               if \<not> db_running p then Some (set_m (M_dead (dead + length (c # rest))) (close_conns (map fst (c # rest)) s))
               else if alive \<and> pushed then Some (set_m (M_check rest dead) (set_pool (push_idle (fst c) now p) s))
               else if alive \<and> \<not> op_guarded_push ops then None
               else Some (set_m (M_check rest (dead + 1)) (close_conns [fst c] s))
           | _ \<Rightarrow> None)
      | E_dead \<Rightarrow>
          (case m of
             M_dead dead \<Rightarrow>
               Some (set_m M_loop (if dead > 0 then notify_all (set_pool (dead_section dead p) s) else s))
           | _ \<Rightarrow> None)
      | E_throw \<Rightarrow>
          if op_guarded_push ops \<and> m \<in> {M_reclaim, M_reserve, M_take} then Some (set_m M_loop s) else None)"

text \<open>\<^verbatim>\<open>shutdown\<close>: the flag and the wake-up; then, when the maintenance thread and the workers have ended, the idle connections.\<close>

definition db_step :: "db_ops \<Rightarrow> db_cfg \<Rightarrow> db_event \<Rightarrow> db_state \<Rightarrow> db_state option" where
  "db_step ops cfg e s =
     (case e of
        By_worker w we \<Rightarrow> if w < length (ds_workers s) then worker_step ops cfg w we s else None
      | By_maint me \<Rightarrow> maint_step ops cfg me s
      | E_shutdown \<Rightarrow> Some (notify_all (set_pool ((ds_pool s)\<lparr>db_running := False\<rparr>) s))
      | E_close_all \<Rightarrow>
          if \<not> db_running (ds_pool s) \<and> ds_maint s = M_exit \<and> list_all (\<lambda>x. x = W_away) (ds_workers s)
          then Some (set_pool (close_section (ds_pool s)) (close_conns (map fst (db_idle (ds_pool s))) s))
          else None)"

fun db_run :: "db_ops \<Rightarrow> db_cfg \<Rightarrow> db_event list \<Rightarrow> db_state \<Rightarrow> db_state option" where
  "db_run ops cfg [] s = Some s"
| "db_run ops cfg (e # es) s = (case db_step ops cfg e s of None \<Rightarrow> None | Some s1 \<Rightarrow> db_run ops cfg es s1)"

text \<open>The constructor: of the \<open>min_size\<close> attempts, those in \<open>now\<close> succeed, at these times.\<close>

definition db_init :: "nat \<Rightarrow> int list \<Rightarrow> db_state" where
  "db_init n now =
     \<lparr>ds_pool = \<lparr>db_running = True, db_idle = zip [0..<length now] now, db_total = length now, db_creating = 0\<rparr>,
      ds_workers = replicate n W_away, ds_maint = M_loop, ds_open = [0..<length now], ds_next = length now\<rparr>"

section \<open>The books\<close>

text \<open>What each thread holds: connections that \<open>db_total\<close> counts, counted slots without a connection, connects
  under way, and open connections no longer counted, about to be closed.\<close>

fun w_conns :: "db_worker \<Rightarrow> nat list" where
  "w_conns (W_reset r c) = [c]"
| "w_conns (W_created r (Some c)) = [c]"
| "w_conns (W_hold c) = [c]"
| "w_conns _ = []"

fun w_slots :: "db_worker \<Rightarrow> nat" where
  "w_slots (W_create r) = 1"
| "w_slots (W_created r None) = 1"
| "w_slots (W_drop k) = 1"
| "w_slots _ = 0"

fun w_creating :: "db_worker \<Rightarrow> nat" where
  "w_creating (W_create r) = 1"
| "w_creating (W_created r c) = 1"
| "w_creating _ = 0"

fun w_free :: "db_worker \<Rightarrow> nat list" where
  "w_free (W_free c) = [c]"
| "w_free _ = []"

fun m_conns :: "db_maint \<Rightarrow> nat list" where
  "m_conns (M_create left made failed) = made"
| "m_conns (M_add made unused) = made"
| "m_conns (M_check todo dead) = map fst todo"
| "m_conns _ = []"

fun m_slots :: "db_maint \<Rightarrow> nat" where
  "m_slots (M_create left made failed) = left + failed"
| "m_slots (M_add made unused) = unused"
| "m_slots (M_check todo dead) = dead"
| "m_slots (M_dead dead) = dead"
| "m_slots _ = 0"

fun m_free :: "db_maint \<Rightarrow> nat list" where
  "m_free (M_close cs) = cs"
| "m_free (M_unpooled cs) = cs"
| "m_free _ = []"

definition held :: "db_state \<Rightarrow> nat list" where
  "held s = map fst (db_idle (ds_pool s)) @ concat (map w_conns (ds_workers s)) @ m_conns (ds_maint s)"

definition to_close :: "db_state \<Rightarrow> nat list" where
  "to_close s = concat (map w_free (ds_workers s)) @ m_free (ds_maint s)"

definition slots :: "db_state \<Rightarrow> nat" where
  "slots s = sum_list (map w_slots (ds_workers s)) + m_slots (ds_maint s)"

definition db_inv :: "db_cfg \<Rightarrow> db_state \<Rightarrow> bool" where
  "db_inv cfg s \<longleftrightarrow>
     mset (ds_open s) = mset (held s) + mset (to_close s) \<and> distinct (ds_open s) \<and> (\<forall>c \<in> set (ds_open s). c < ds_next s) \<and>
     db_total (ds_pool s) = length (held s) + slots s \<and> db_total (ds_pool s) \<le> db_max_size cfg \<and>
     db_creating (ds_pool s) = sum_list (map w_creating (ds_workers s)) \<and>
     db_creating (ds_pool s) \<le> db_max_creating_limit cfg"

lemma wake_worker_books [simp]:
  "w_conns (wake_worker x) = w_conns x" "w_slots (wake_worker x) = w_slots x"
  "w_creating (wake_worker x) = w_creating x" "w_free (wake_worker x) = w_free x"
  by (cases x; simp)+

lemma wake_maint_books [simp]:
  "m_conns (wake_maint m) = m_conns m" "m_slots (wake_maint m) = m_slots m" "m_free (wake_maint m) = m_free m"
  by (cases m; simp)+

lemma notify_all_inv [simp]: "db_inv cfg (notify_all s) = db_inv cfg s"
  by (simp add: db_inv_def held_def to_close_def slots_def notify_all_def o_def)

lemma mset_foldr_remove1: "mset (foldr remove1 cs xs) = mset xs - mset cs"
  by (induction cs) auto

lemma close_conns_books:
  assumes "mset (ds_open s) = H + mset cs" and "distinct (ds_open s)" and "\<forall>c \<in> set (ds_open s). c < n"
  shows "mset (ds_open (close_conns cs s)) = H" "distinct (ds_open (close_conns cs s))"
    "\<forall>c \<in> set (ds_open (close_conns cs s)). c < n"
proof -
  have 1: "mset (ds_open (close_conns cs s)) = H"
    using assms(1) by (simp add: close_conns_def mset_foldr_remove1)
  then show "mset (ds_open (close_conns cs s)) = H" .
  have "set (ds_open (close_conns cs s)) \<subseteq> set (ds_open s)"
    using assms(1) 1 by (metis set_mset_mset mset_subset_eq_add_left set_mset_mono)
  then show "\<forall>c \<in> set (ds_open (close_conns cs s)). c < n" using assms(3) by blast
  have "distinct xs \<Longrightarrow> distinct (foldr remove1 cs xs)" for xs :: "nat list" by (induction cs) auto
  then show "distinct (ds_open (close_conns cs s))" using assms(2) by (simp add: close_conns_def)
qed

lemmas db_books = db_inv_def held_def to_close_def slots_def set_w_def set_pool_def set_m_def

lemma set_w_same_books:
  assumes "w < length (ds_workers s)" and "w_conns y = w_conns (ds_workers s ! w)" and "w_slots y = w_slots (ds_workers s ! w)"
    and "w_creating y = w_creating (ds_workers s ! w)" and "w_free y = w_free (ds_workers s ! w)"
  shows "db_inv cfg (set_w w y s) = db_inv cfg s"
proof -
  have "map f ((ds_workers s)[w := y]) = map f (ds_workers s)" if "f y = f (ds_workers s ! w)" for f :: "db_worker \<Rightarrow> 'a"
    by (metis that list_update_id map_update)
  note 1 = this [of w_conns] this [of w_free] 
  have 2: "map w_slots ((ds_workers s)[w := y]) = map w_slots (ds_workers s)"
    "map w_creating ((ds_workers s)[w := y]) = map w_creating (ds_workers s)"
    by (metis assms(3) list_update_id map_update, metis assms(4) list_update_id map_update)
  show ?thesis using 1 2 assms by (simp add: db_books)
qed

lemma notify_one_inv:
  assumes "notify_one t s = Some s'" and "db_inv cfg s"
  shows "db_inv cfg s' \<and> (\<forall>w < length (ds_workers s). ds_workers s ! w = W_notify \<longrightarrow>
    w < length (ds_workers s') \<and> ds_workers s' ! w = W_notify)"
proof (cases t)
  case (To_worker v)
  then obtain r where v: "v < length (ds_workers s)" "ds_workers s ! v = W_wait r False" "s' = set_w v (W_wait r True) s"
    using assms(1) by (auto simp: notify_one_def worker_at_def split: db_worker.splits bool.splits if_splits)
  then show ?thesis using assms(2) by (auto simp: set_w_same_books) (auto simp: set_w_def nth_list_update)
qed (use assms in \<open>auto simp: notify_one_def db_books split: if_splits\<close>)

lemma open_conn_inv:
  assumes "mset (ds_open s) = H" and "distinct (ds_open s)" and "\<forall>c \<in> set (ds_open s). c < ds_next s" and "open_conn s = (c, s')"
  shows "mset (ds_open s') = add_mset c H" "distinct (ds_open s')" "\<forall>c \<in> set (ds_open s'). c < ds_next s'"
    "ds_pool s' = ds_pool s" "ds_workers s' = ds_workers s" "ds_maint s' = ds_maint s"
  using assms by (auto simp: open_conn_def less_SucI)

lemma close_conns_same [simp]:
  "ds_pool (close_conns cs s) = ds_pool s" "ds_workers (close_conns cs s) = ds_workers s"
  "ds_maint (close_conns cs s) = ds_maint s" "ds_next (close_conns cs s) = ds_next s"
  by (simp_all add: close_conns_def)

lemma close_books_inv:
  assumes "db_inv cfg s" and "mset (held s) + mset (to_close s) = mset (held s') + mset (to_close s') + mset cs"
    and "ds_open s' = ds_open (close_conns cs s)" and "ds_next s' = ds_next s"
    and "db_total (ds_pool s') = length (held s') + slots s'" and "db_total (ds_pool s') \<le> db_max_size cfg"
    and "db_creating (ds_pool s') = sum_list (map w_creating (ds_workers s'))"
    and "db_creating (ds_pool s') \<le> db_max_creating_limit cfg"
  shows "db_inv cfg s'"
proof -
  have "mset (ds_open s) = mset (held s') + mset (to_close s') + mset cs"
    using assms(1) unfolding db_inv_def assms(2) by blast
  moreover have "distinct (ds_open s)" "\<forall>c \<in> set (ds_open s). c < ds_next s"
    using assms(1) by (auto simp: db_inv_def)
  ultimately have "mset (ds_open s') = mset (held s') + mset (to_close s')" "distinct (ds_open s')"
    "\<forall>c \<in> set (ds_open s'). c < ds_next s'"
    using close_conns_books [of s] unfolding assms(3,4) by blast+
  then show ?thesis unfolding db_inv_def using assms(5-8) by blast
qed

text \<open>What the proofs need of the two operations in which the pools differ.\<close>

locale idle_deque =
  fixes ops :: db_ops
  assumes take_none: "op_take ops q = None \<longleftrightarrow> q = []"
    and take_some: "op_take ops q = Some (c, rest) \<Longrightarrow> mset q = add_mset c (mset rest)"
    and reclaim_books: "length q \<le> n \<Longrightarrow> op_reclaim ops cfg now n q = (closed, n', kept) \<Longrightarrow>
      mset (map fst q) = mset closed + mset (map fst kept) \<and> n' = n - length closed"
begin

lemma acquire_inv:
  assumes "db_inv cfg s" and "ds_workers s = ws1 @ W_lock r # ws2" and "worker_step ops cfg (length ws1) E_lock s = Some s'"
  shows "db_inv cfg s'"
proof (cases "acquire_section ops cfg (ds_pool s)")
  case (Acq_idle c p)
  then obtain t rest where "op_take ops (db_idle (ds_pool s)) = Some ((c, t), rest)" "p = (ds_pool s)\<lparr>db_idle := rest\<rparr>"
    by (auto simp: acquire_section_def split: if_splits option.splits)
  moreover from this take_some have "mset (db_idle (ds_pool s)) = add_mset (c, t) (mset rest)" by blast
  moreover from this have "mset (map fst (db_idle (ds_pool s))) = add_mset c (mset (map fst rest))"
    "length (db_idle (ds_pool s)) = Suc (length rest)"
    by (simp_all, metis size_mset size_add_mset)
  ultimately show ?thesis
    using assms Acq_idle
    by (auto simp: worker_step_def db_books Let_def
        split: if_splits)
qed (use assms in \<open>auto simp: worker_step_def acquire_section_def db_books
      split: if_splits option.splits\<close>)

lemma worker_step_inv:
  assumes "db_inv cfg s" and "w < length (ds_workers s)" and "worker_step ops cfg w e s = Some s'"
  shows "db_inv cfg s'"
proof -
  obtain ws1 x ws2 where ws: "ds_workers s = ws1 @ x # ws2" "w = length ws1"
    using id_take_nth_drop [OF assms(2)] assms(2) by (metis length_take min.absorb2 nat_less_le)
  note step = assms(3) [unfolded ws(2)]
  show ?thesis
  proof (cases e)
    case E_lock
    then obtain r where "x = W_lock r" using step ws by (auto simp: worker_step_def Let_def split: db_worker.splits)
    then show ?thesis using acquire_inv [OF assms(1)] ws step E_lock by simp
  next
    case (E_reset ok)
    then obtain r c where x: "x = W_reset r c" using step ws by (auto simp: worker_step_def Let_def split: db_worker.splits)
    show ?thesis
    proof (cases ok)
      case False
      have s': "s' = set_w w (W_drop (Some (r + 1))) (close_conns [c] s)"
        using step ws E_reset x False by (simp add: worker_step_def Let_def)
      show ?thesis
        by (rule close_books_inv [OF assms(1), of _ "[c]"]) (use assms(1) ws x in \<open>simp_all add: s' db_books close_conns_def\<close>)
    qed (use assms(1) step ws E_reset x in \<open>auto simp: worker_step_def Let_def db_books\<close>)
  next
    case (E_connect ok)
    then obtain r where x: "x = W_create r" using step ws by (auto simp: worker_step_def Let_def split: db_worker.splits)
    obtain c s1 where o: "open_conn s = (c, s1)" by fastforce
    note inv = assms(1) [unfolded db_inv_def]
    show ?thesis
      using open_conn_inv [OF _ _ _ o, of "mset (held s) + mset (to_close s)"] inv step ws E_connect x o
      by (auto simp: worker_step_def Let_def db_books split: if_splits)
  next
    case (E_notify t)
    then obtain s1 where s1: "x = W_notify" "notify_one t s = Some s1" "s' = set_w w W_away s1"
      using step ws by (auto simp: worker_step_def Let_def split: if_splits)
    then have "db_inv cfg s1" "w < length (ds_workers s1)" "ds_workers s1 ! w = W_notify"
      using notify_one_inv [OF s1(2) assms(1)] ws by auto
    then show ?thesis by (simp add: s1(3) set_w_same_books)
  next
    case E_bad
    then obtain c where x: "x = W_hold c" using step ws by (auto simp: worker_step_def Let_def split: db_worker.splits)
    have s': "s' = set_w w (W_drop None) (close_conns [c] s)" using step ws E_bad x by (simp add: worker_step_def Let_def)
    show ?thesis
      by (rule close_books_inv [OF assms(1), of _ "[c]"]) (use assms(1) ws x in \<open>simp_all add: s' db_books close_conns_def\<close>)
  next
    case E_free
    then obtain c where x: "x = W_free c" using step ws by (auto simp: worker_step_def Let_def split: db_worker.splits)
    have s': "s' = set_w w W_notify (close_conns [c] s)" using step ws E_free x by (simp add: worker_step_def Let_def)
    show ?thesis
      by (rule close_books_inv [OF assms(1), of _ "[c]"]) (use assms(1) ws x in \<open>simp_all add: s' db_books close_conns_def\<close>)
  next
    case E_created
    then obtain r k where x: "x = W_created r k"
      using step ws by (auto simp: worker_step_def Let_def split: db_worker.splits)
    show ?thesis
      using assms(1) step ws E_created x
      by (cases k) (auto simp: worker_step_def Let_def db_books notify_all_def o_def created_section_def after_drop_def list_update_append Let_def)
  next
    case E_drop
    then obtain k where x: "x = W_drop k" using step ws by (auto simp: worker_step_def Let_def split: db_worker.splits)
    show ?thesis
      using assms(1) step ws E_drop x
      by (auto simp: worker_step_def Let_def db_books notify_all_def o_def drop_section_def after_drop_def list_update_append Let_def split: option.splits)
  next
    case (E_release pushed now)
    then obtain c where x: "x = W_hold c" using step ws by (auto simp: worker_step_def Let_def split: db_worker.splits)
    show ?thesis
      using assms(1) step ws E_release x
      by (cases pushed) (auto simp: worker_step_def Let_def db_books release_section_def push_idle_def)
  next
    case E_wake
    then obtain r b where x: "x = W_wait r b" using step ws by (auto simp: worker_step_def Let_def split: db_worker.splits)
    show ?thesis using assms(1) step ws E_wake x by (auto simp: worker_step_def Let_def db_books)
  next
    case E_timeout
    then obtain r b where x: "x = W_wait r b" using step ws by (auto simp: worker_step_def Let_def split: db_worker.splits)
    show ?thesis using assms(1) step ws E_timeout x by (auto simp: worker_step_def Let_def db_books)
  next
    case E_start
    then show ?thesis using assms(1) step ws by (auto simp: worker_step_def Let_def db_books split: if_splits)
  qed
qed

lemma reclaim_inv:
  assumes "db_inv cfg s" and "ds_maint s = M_reclaim" and "maint_step ops cfg (E_reclaim now) s = Some s'"
  shows "db_inv cfg s'"
proof -
  obtain closed n kept where r: "op_reclaim ops cfg now (db_total (ds_pool s)) (db_idle (ds_pool s)) = (closed, n, kept)"
    by (metis prod_cases3)
  have "length (db_idle (ds_pool s)) \<le> db_total (ds_pool s)" using assms(1) by (simp add: db_books)
  note rb = reclaim_books [OF this r]
  then have "length (db_idle (ds_pool s)) = length closed + length kept"
    by (metis length_map size_mset size_union)
  then show ?thesis
    using assms r rb by (auto simp: maint_step_def Let_def db_books notify_all_def o_def)
qed

end

lemma add_section_books:
  assumes "length flags = length made"
  shows "mset (map fst (filter snd (zip made flags))) + mset (map fst (filter (Not \<circ> snd) (zip made flags))) = mset made"
  using assms by (induction flags made rule: list_induct2) auto

lemma add_section_length:
  assumes "length flags = length made"
  shows "length (filter snd (zip made flags)) + length (filter (Not \<circ> snd) (zip made flags)) = length made"
  using assms by (induction flags made rule: list_induct2) auto

lemma maint_inv:
  assumes "db_inv cfg s" and "db_creating p = db_creating (ds_pool s)"
    and "mset (map fst (db_idle p)) + mset (m_conns m) + mset (m_free m) =
      mset (map fst (db_idle (ds_pool s))) + mset (m_conns (ds_maint s)) + mset (m_free (ds_maint s))"
    and "db_total p + (length (db_idle (ds_pool s)) + length (m_conns (ds_maint s)) + m_slots (ds_maint s)) =
      db_total (ds_pool s) + (length (db_idle p) + length (m_conns m) + m_slots m)"
    and "db_total p \<le> db_total (ds_pool s)"
  shows "db_inv cfg (set_m m (set_pool p s))"
proof -
  let ?w = "mset (concat (map w_conns (ds_workers s))) + mset (concat (map w_free (ds_workers s)))"
  have "mset (ds_open s) = mset (map fst (db_idle (ds_pool s))) + mset (m_conns (ds_maint s)) + mset (m_free (ds_maint s)) + ?w"
    using assms(1) by (simp add: db_books)
  then have "mset (ds_open s) = mset (map fst (db_idle p)) + mset (m_conns m) + mset (m_free m) + ?w"
    unfolding assms(3) [symmetric] .
  then show ?thesis using assms(1,2,4,5) by (simp add: db_books)
qed

lemma add_inv:
  assumes "db_inv cfg s" and "ds_maint s = M_add made unused" and "maint_step ops cfg (E_add flags now) s = Some s'"
  shows "db_inv cfg s'"
proof -
  have l: "length flags = length made" using assms(2,3) by (auto simp: maint_step_def split: if_splits)
  let ?rest = "map fst (filter (Not \<circ> snd) (zip made flags))"
  let ?p = "add_section now (zip made flags) unused (ds_pool s)"
  have s': "s' = notify_all (set_m (M_unpooled ?rest) (set_pool ?p s))"
    using assms(2,3) by (auto simp: maint_step_def Let_def split: if_splits)
  have i: "map fst (db_idle ?p) = map fst (db_idle (ds_pool s)) @ map fst (filter snd (zip made flags))"
    by (auto simp: add_section_def Let_def)
  have "length made + unused \<le> db_total (ds_pool s)" using assms(1,2) by (simp add: db_books)
  moreover have "length (db_idle ?p) = length (db_idle (ds_pool s)) + length (filter snd (zip made flags))"
    by (simp add: add_section_def Let_def)
  moreover have "db_total ?p = db_total (ds_pool s) - (length made + unused - length (filter snd (zip made flags)))"
    using calculation(1) l by (simp add: add_section_def Let_def)
  moreover note add_section_length [OF l]
  ultimately have "db_inv cfg (set_m (M_unpooled ?rest) (set_pool ?p s))"
    by (intro maint_inv [OF assms(1)])
      (use add_section_books [OF l] in \<open>simp_all add: assms(2) i add_section_def [THEN arg_cong, of db_creating] Let_def\<close>)
  then show ?thesis by (simp add: s')
qed

lemma reserve_inv:
  assumes "db_inv cfg s" and "ds_maint s = M_reserve" and "maint_step ops cfg E_reserve s = Some s'"
  shows "db_inv cfg s'"
  using assms by (auto simp: maint_step_def Let_def db_books reserve_section_def split: if_splits)

lemma check_inv:
  assumes "db_inv cfg s" and "ds_maint s = M_take" and "maint_step ops cfg E_take s = Some s'"
  shows "db_inv cfg s'"
proof -
  let ?q = "db_idle (ds_pool s)"
  define n where "n = min (length ?q) max_check"
  have q: "mset (map fst (drop n ?q)) + mset (map fst (take n ?q)) = mset (map fst ?q)"
    by (metis append_take_drop_id map_append mset_append add.commute)
  have s': "s' = set_m (M_check (take n ?q) 0) (set_pool ((ds_pool s)\<lparr>db_idle := drop n ?q\<rparr>) s)"
    using assms(2,3) by (auto simp: maint_step_def Let_def check_section_def n_def)
  show ?thesis
    unfolding s' by (rule maint_inv [OF assms(1)]) (use q in \<open>simp_all add: assms(2) n_def\<close>)
qed

lemma ping_inv:
  assumes "db_inv cfg s" and "ds_maint s = M_check todo dead" and "maint_step ops cfg (E_ping alive pushed now) s = Some s'"
  shows "db_inv cfg s'"
proof (cases todo)
  case Nil
  then show ?thesis using assms by (auto simp: maint_step_def Let_def db_books)
next
  case (Cons c rest)
  consider "\<not> db_running (ds_pool s)" "s' = set_m (M_dead (dead + length todo)) (close_conns (map fst todo) s)"
    | "s' = set_m (M_check rest dead) (set_pool (push_idle (fst c) now (ds_pool s)) s)"
    | "s' = set_m (M_check rest (dead + 1)) (close_conns [fst c] s)"
    using assms(2,3) Cons by (auto simp: maint_step_def Let_def split: if_splits)
  then show ?thesis
  proof cases
    case 1
    show ?thesis
      by (rule close_books_inv [OF assms(1), of _ "map fst todo"]) (use assms(1,2) in \<open>simp_all add: 1 db_books close_conns_def\<close>)
  next
    case 2
    then show ?thesis using assms(1,2) Cons by (simp add: db_books push_idle_def)
  next
    case 3
    show ?thesis
      by (rule close_books_inv [OF assms(1), of _ "[fst c]"]) (use assms(1,2) Cons in \<open>simp_all add: 3 db_books close_conns_def\<close>)
  qed
qed

lemma close_all_inv:
  assumes "db_inv cfg s" and "m_conns m = []" "m_slots m = 0" "m_free m = []" and "m_conns (ds_maint s) = []"
    "m_slots (ds_maint s) = 0" "m_free (ds_maint s) = cs"
  shows "db_inv cfg (set_m m (close_conns cs s))"
  by (rule close_books_inv [OF assms(1), of _ cs]) (use assms in \<open>simp_all add: db_books close_conns_def\<close>)

context idle_deque
begin

lemma maint_step_inv:
  assumes "db_inv cfg s" and "maint_step ops cfg e s = Some s'"
  shows "db_inv cfg s'"
proof (cases e)
  case (E_reclaim now)
  then have "ds_maint s = M_reclaim" using assms(2) by (auto simp: maint_step_def Let_def split: if_splits)
  then show ?thesis using reclaim_inv [OF assms(1)] assms(2) E_reclaim by blast
next
  case E_reserve
  then have "ds_maint s = M_reserve" using assms(2) by (auto simp: maint_step_def Let_def split: if_splits)
  then show ?thesis using reserve_inv [OF assms(1)] assms(2) E_reserve by blast
next
  case (E_add flags now)
  then obtain made unused where "ds_maint s = M_add made unused"
    using assms(2) by (auto simp: maint_step_def split: db_maint.splits)
  then show ?thesis using add_inv [OF assms(1)] assms(2) E_add by blast
next
  case E_take
  then have "ds_maint s = M_take" using assms(2) by (auto simp: maint_step_def Let_def split: if_splits)
  then show ?thesis using check_inv [OF assms(1)] assms(2) E_take by blast
next
  case (E_ping alive pushed now)
  then obtain todo dead where "ds_maint s = M_check todo dead"
    using assms(2) by (auto simp: maint_step_def Let_def split: db_maint.splits)
  then show ?thesis using ping_inv [OF assms(1)] assms(2) E_ping by blast
next
  case E_close
  then obtain cs where "ds_maint s = M_close cs" using assms(2) by (auto simp: maint_step_def split: db_maint.splits)
  then show ?thesis using close_all_inv [OF assms(1)] assms(2) E_close by (auto simp: maint_step_def)
next
  case E_unpooled
  then obtain cs where "ds_maint s = M_unpooled cs" using assms(2) by (auto simp: maint_step_def split: db_maint.splits)
  then show ?thesis using close_all_inv [OF assms(1)] assms(2) E_unpooled by (auto simp: maint_step_def)
next
  case (E_made ok)
  then obtain left made failed where m: "ds_maint s = M_create left made failed"
    using assms(2) by (auto simp: maint_step_def Let_def split: db_maint.splits)
  obtain c s1 where o: "open_conn s = (c, s1)" by fastforce
  note inv = assms(1) [unfolded db_inv_def]
  show ?thesis
    using open_conn_inv [OF _ _ _ o, of "mset (held s) + mset (to_close s)"] inv assms(2) E_made m o
    by (auto simp: maint_step_def Let_def db_books split: if_splits)
next
  case E_dead
  then obtain dead where "ds_maint s = M_dead dead" using assms(2) by (auto simp: maint_step_def split: db_maint.splits)
  then show ?thesis
    using assms E_dead by (auto simp: maint_step_def Let_def db_books notify_all_def o_def dead_section_def)
next
  case E_expired
  then show ?thesis using assms by (auto simp: maint_step_def Let_def db_books split: db_maint.splits)
next
  case E_throw
  then show ?thesis using assms by (auto simp: maint_step_def Let_def db_books split: if_splits)
qed (use assms in \<open>auto simp: maint_step_def Let_def db_books split: if_splits\<close>)

lemma db_step_inv:
  assumes "db_inv cfg s" and "db_step ops cfg e s = Some s'"
  shows "db_inv cfg s'"
proof (cases e)
  case (By_worker w we)
  then show ?thesis using worker_step_inv [OF assms(1)] assms(2) by (auto simp: db_step_def split: if_splits)
next
  case (By_maint me)
  then show ?thesis using maint_step_inv [OF assms(1)] assms(2) by (auto simp: db_step_def)
next
  case E_shutdown
  then show ?thesis using assms by (auto simp: db_step_def) (simp add: db_books)
next
  case E_close_all
  then have s: "list_all (\<lambda>x. x = W_away) (ds_workers s)" "ds_maint s = M_exit"
    and s': "s' = set_pool (close_section (ds_pool s)) (close_conns (map fst (db_idle (ds_pool s))) s)"
    using assms(2) by (auto simp: db_step_def split: if_splits)
  have "ds_workers s = replicate (length (ds_workers s)) W_away"
    using s(1) by (simp add: list_all_iff replicate_eqI)
  then have "map f (ds_workers s) = replicate (length (ds_workers s)) (f W_away)" for f :: "db_worker \<Rightarrow> 'a"
    by (metis map_replicate)
  note w = this [of w_conns] this [of w_free]
  have "map w_slots (ds_workers s) = replicate (length (ds_workers s)) 0"
    "map w_creating (ds_workers s) = replicate (length (ds_workers s)) 0"
    using \<open>ds_workers s = _\<close> by (metis map_replicate w_slots.simps(4), metis map_replicate w_creating.simps(3))
  then show ?thesis
    by (intro close_books_inv [OF assms(1), of _ "map fst (db_idle (ds_pool s))"])
      (use assms(1) s w in \<open>simp_all add: s' db_books close_section_def sum_list_replicate\<close>)
qed

lemma db_run_inv: "db_run ops cfg es s = Some s' \<Longrightarrow> db_inv cfg s \<Longrightarrow> db_inv cfg s'"
  by (induction es arbitrary: s) (auto dest: db_step_inv split: option.splits)

end

lemma db_init_inv:
  assumes "length now \<le> db_max_size cfg"
  shows "db_inv cfg (db_init n now)"
proof -
  have "concat (map f (replicate n W_away)) = []" if "f W_away = []" for f :: "db_worker \<Rightarrow> nat list"
    using that by (induction n) auto
  moreover have "sum_list (map f (replicate n W_away)) = 0" if "f W_away = 0" for f :: "db_worker \<Rightarrow> nat"
    using that by (induction n) auto
  ultimately show ?thesis using assms by (simp add: db_books db_init_def)
qed

end
