(* ===== verification/Mysql_Pool.thy ===== *)
theory Mysql_Pool
  imports Db_Pool
begin

text \<open>
  The MySQL side of the pool, \<^verbatim>\<open>src/db/mysql_pool.hpp\<close>: the settings, the deque operations, and a query
  with the guard that returns or drops its connection.
\<close>

section \<open>Settings\<close>

text \<open>\<^verbatim>\<open>if (x <= 0) x = d\<close>.\<close>

definition or_default :: "int \<Rightarrow> int \<Rightarrow> int" where
  "or_default x d = (if x \<le> 0 then d else x)"

lemma or_default_pos [simp]: "0 < d \<Longrightarrow> 0 < or_default x d"
  by (simp add: or_default_def)

definition mysql_validate_config :: "mysql_config \<Rightarrow> config_error + mysql_config" where
  "mysql_validate_config cfg =
     (if mc_host cfg = [] then Inl (Invalid_argument ''mysql.host cannot be empty'')
      else if mc_port cfg \<le> 0 \<or> mc_port cfg > 65535 then Inl (Invalid_argument ''mysql.port out of range'')
      else
        let max_conns = (if mc_max_size cfg = 0 then 1 else mc_max_size cfg)
        in Inr (cfg\<lparr>mc_max_size := max_conns, mc_min_size := min (mc_min_size cfg) max_conns,
             mc_max_idle_sec := or_default (mc_max_idle_sec cfg) 60,
             mc_connect_timeout_ms := or_default (mc_connect_timeout_ms cfg) 1000,
             mc_query_timeout_ms := or_default (mc_query_timeout_ms cfg) 30000,
             mc_acquire_timeout_ms := or_default (mc_acquire_timeout_ms cfg) 3000,
             mc_keepalive_sec := or_default (mc_keepalive_sec cfg) 30,
             mc_worker_threads := (if mc_worker_threads cfg = 0 then 1 else mc_worker_threads cfg)\<rparr>))"

definition compute_max_creating_limit :: "nat \<Rightarrow> nat \<Rightarrow> nat \<Rightarrow> nat" where
  "compute_max_creating_limit max_creating max_conns worker_threads =
     (if max_creating > 0 then max 1 (min max_creating max_conns)
      else min 4 (min (max 1 (max_conns div 8)) (max 1 (worker_threads div 2))))"

definition mysql_db_cfg :: "mysql_config \<Rightarrow> db_cfg" where
  "mysql_db_cfg cfg =
     \<lparr>db_min_size = mc_min_size cfg, db_max_size = mc_max_size cfg, db_max_idle_sec = mc_max_idle_sec cfg,
      db_max_creating_limit = compute_max_creating_limit (mc_max_creating cfg) (mc_max_size cfg) (mc_worker_threads cfg)\<rparr>"

lemma creating_limit_bounds:
  "0 < n \<Longrightarrow> 1 \<le> compute_max_creating_limit m n k \<and> compute_max_creating_limit m n k \<le> n"
proof (cases "m > 0")
  case False
  assume "0 < n"
  then have "max 1 (n div 8) \<le> n" by (simp add: div_le_dividend)
  then show ?thesis using False unfolding compute_max_creating_limit_def by (simp add: min.coboundedI1 min.coboundedI2)
qed (simp add: compute_max_creating_limit_def)

lemma mysql_validate_config_ok:
  assumes "mysql_validate_config cfg = Inr c"
  shows "mc_host c \<noteq> []" "1 \<le> mc_port c" "mc_port c \<le> 65535" "1 \<le> mc_max_size c" "mc_min_size c \<le> mc_max_size c"
    "0 < mc_max_idle_sec c" "0 < mc_connect_timeout_ms c" "0 < mc_query_timeout_ms c" "0 < mc_acquire_timeout_ms c"
    "0 < mc_keepalive_sec c" "1 \<le> mc_worker_threads c"
proof -
  have g: "mc_host cfg \<noteq> []" "\<not> (mc_port cfg \<le> 0 \<or> mc_port cfg > 65535)"
    using assms unfolding mysql_validate_config_def by (auto split: if_splits)
  have c: "Inr c = mysql_validate_config cfg" using assms by simp
  show "mc_host c \<noteq> []" "1 \<le> mc_port c" "mc_port c \<le> 65535" "1 \<le> mc_max_size c" "mc_min_size c \<le> mc_max_size c"
    "0 < mc_max_idle_sec c" "0 < mc_connect_timeout_ms c" "0 < mc_query_timeout_ms c" "0 < mc_acquire_timeout_ms c"
    "0 < mc_keepalive_sec c" "1 \<le> mc_worker_threads c"
    using c g by (simp_all add: mysql_validate_config_def Let_def)
qed

section \<open>The deque\<close>

definition mysql_take :: "idle_conns \<Rightarrow> ((nat \<times> int) \<times> idle_conns) option" where
  "mysql_take q = (if q = [] then None else Some (last q, butlast q))"

fun mysql_reclaim :: "db_cfg \<Rightarrow> int \<Rightarrow> nat \<Rightarrow> idle_conns \<Rightarrow> nat list \<times> nat \<times> idle_conns" where
  "mysql_reclaim cfg now n [] = ([], n, [])"
| "mysql_reclaim cfg now n ((c, last_used) # q) =
     (if \<not> n > db_min_size cfg \<or> (now - last_used) div 1000 < db_max_idle_sec cfg then ([], n, (c, last_used) # q)
      else let (closed, n', kept) = mysql_reclaim cfg now (size_sub n 1) q in (c # closed, n', kept))"

definition mysql_ops :: db_ops where
  "mysql_ops = \<lparr>op_take = mysql_take, op_reclaim = mysql_reclaim, op_resets = True, op_guarded_push = False\<rparr>"

lemma mysql_reclaim_books:
  "length q \<le> n \<Longrightarrow> mysql_reclaim cfg now n q = (closed, n', kept) \<Longrightarrow>
     mset (map fst q) = mset closed + mset (map fst kept) \<and> n' = n - length closed"
  by (induction cfg now n q arbitrary: closed n' kept rule: mysql_reclaim.induct)
    (auto split: if_splits prod.splits)

lemma mset_last_butlast: "q \<noteq> [] \<Longrightarrow> mset q = add_mset (last q) (mset (butlast q))"
  by (metis append_butlast_last_id mset_append mset_single_iff_right mset.simps(1) mset.simps(2) union_mset_add_mset_right
      add.right_neutral)

interpretation mysql_deque: idle_deque mysql_ops
proof
  fix q c rest
  show "(op_take mysql_ops q = None) = (q = [])" by (simp add: mysql_ops_def mysql_take_def)
  show "op_take mysql_ops q = Some (c, rest) \<Longrightarrow> mset q = add_mset c (mset rest)"
    by (auto simp: mysql_ops_def mysql_take_def mset_last_butlast split: if_splits)
next
  fix q n cfg now closed n' kept
  show "length q \<le> n \<Longrightarrow> op_reclaim mysql_ops cfg now n q = (closed, n', kept) \<Longrightarrow>
      mset (map fst q) = mset closed + mset (map fst kept) \<and> n' = n - length closed"
    using mysql_reclaim_books by (simp add: mysql_ops_def)
qed

text \<open>A refill never lets reclaiming go below the minimum.\<close>

lemma mysql_reclaim_keeps_min:
  "mysql_reclaim cfg now n q = (closed, n', kept) \<Longrightarrow> length q \<le> n \<Longrightarrow> min n (db_min_size cfg) \<le> n'"
proof (induction cfg now n q arbitrary: closed n' kept rule: mysql_reclaim.induct)
  case (2 cfg now n c t q)
  then show ?case by (fastforce split: if_splits prod.splits)
qed auto

section \<open>A query\<close>

text \<open>
  What the client library reports, as functions of the connection and the statement: the error number and text of
  \<^verbatim>\<open>mysql_query\<close> (\<open>None\<close> on success), the stored result already rendered (\<open>None\<close> for a null
  result), the field count, and the error after a failed \<^verbatim>\<open>mysql_store_result\<close>. \<open>ml_connection_errors\<close> are the
  four codes of \<^verbatim>\<open>errmsg.h\<close> that the pool takes for a lost connection.
\<close>

record mysql_lib =
  ml_query :: "nat \<Rightarrow> string \<Rightarrow> (nat \<times> string) option"
  ml_result :: "nat \<Rightarrow> string \<Rightarrow> string option"
  ml_field_count :: "nat \<Rightarrow> string \<Rightarrow> nat"
  ml_store_error :: "nat \<Rightarrow> string \<Rightarrow> nat \<times> string"
  ml_connection_errors :: "nat list"

record mysql_result =
  mr_ok :: bool
  mr_error :: string
  mr_json :: string

definition is_connection_error :: "mysql_lib \<Rightarrow> nat \<Rightarrow> bool" where
  "is_connection_error lib err \<longleftrightarrow> err \<in> set (ml_connection_errors lib)"

text \<open>The query on the acquired connection: its result and whether the guard is marked bad. No connection: \<open>conn = None\<close>.\<close>

definition do_query :: "mysql_lib \<Rightarrow> string \<Rightarrow> nat option \<Rightarrow> mysql_result \<times> bool" where
  "do_query lib sql conn =
     (case conn of
        None \<Rightarrow> (\<lparr>mr_ok = False, mr_error = ''no available connection'', mr_json = []\<rparr>, False)
      | Some c \<Rightarrow>
          (case ml_query lib c sql of
             Some (err_no, err) \<Rightarrow> (\<lparr>mr_ok = False, mr_error = err, mr_json = []\<rparr>, is_connection_error lib err_no)
           | None \<Rightarrow>
               (case ml_result lib c sql of
                  Some json \<Rightarrow> (\<lparr>mr_ok = True, mr_error = [], mr_json = json\<rparr>, False)
                | None \<Rightarrow>
                    if ml_field_count lib c sql \<noteq> 0 then
                      let (err_no, err) = ml_store_error lib c sql
                      in (\<lparr>mr_ok = False, mr_error = err, mr_json = []\<rparr>, is_connection_error lib err_no)
                    else (\<lparr>mr_ok = True, mr_error = [], mr_json = ''[]''\<rparr>, False))))"

text \<open>The guard's destructor, as the event it causes.\<close>

definition guard_event :: "bool \<Rightarrow> bool \<Rightarrow> int \<Rightarrow> worker_event" where
  "guard_event bad pushed now = (if bad then E_bad else E_release pushed now)"

text \<open>\<^verbatim>\<open>execute\<close>: the flag is looked at before and after the switch to a worker thread.\<close>

definition mysql_execute :: "mysql_lib \<Rightarrow> string \<Rightarrow> bool \<Rightarrow> bool \<Rightarrow> nat option \<Rightarrow> mysql_result" where
  "mysql_execute lib sql running_before running_after conn =
     (if \<not> running_before \<or> \<not> running_after then \<lparr>mr_ok = False, mr_error = ''mysql pool stopped'', mr_json = []\<rparr>
      else fst (do_query lib sql conn))"

lemma bad_only_after_failure: "snd (do_query lib sql conn) \<Longrightarrow> \<not> mr_ok (fst (do_query lib sql conn))"
  by (auto simp: do_query_def Let_def split: option.splits if_splits prod.splits)

end
