(* ===== verification/Redis_Pool.thy ===== *)
theory Redis_Pool
  imports Mysql_Pool
begin

text \<open>
  The Redis pool, \<^verbatim>\<open>src/db/redis_pool.hpp\<close>, \<^verbatim>\<open>redis_connection.cpp\<close>, \<^verbatim>\<open>redis_command.cpp\<close> and
  \<^verbatim>\<open>redis_reply.cpp\<close>: the settings, the deque operations of worker mode, the
  thread-local connection of direct mode, and a command with its single retry.
\<close>

section \<open>Settings\<close>

definition redis_validate_config :: "redis_config \<Rightarrow> config_error + redis_config" where
  "redis_validate_config cfg =
     (if rd_host cfg = [] then Inl (Invalid_argument ''Redis host cannot be empty'')
      else if rd_port cfg \<le> 0 \<or> rd_port cfg > 65535 then Inl (Invalid_argument ''Redis port out of range'')
      else if rd_db cfg < 0 then Inl (Invalid_argument ''Redis db cannot be negative'')
      else
        let c = cfg\<lparr>rd_connect_timeout_ms := or_default (rd_connect_timeout_ms cfg) 1000,
                    rd_cmd_timeout_ms := or_default (rd_cmd_timeout_ms cfg) 30000\<rparr>
        in if rd_mode c = Worker then
             let max_conns = (if rd_max_size c = 0 then 32 else rd_max_size c)
             in Inr (c\<lparr>rd_max_size := max_conns, rd_min_size := min (rd_min_size c) max_conns,
                  rd_worker_threads := (if rd_worker_threads c = 0 then 4 else rd_worker_threads c),
                  rd_max_idle_sec := or_default (rd_max_idle_sec c) 120,
                  rd_acquire_timeout_ms := or_default (rd_acquire_timeout_ms c) 3000\<rparr>)
           else Inr c)"

definition redis_db_cfg :: "redis_config \<Rightarrow> db_cfg" where
  "redis_db_cfg cfg =
     \<lparr>db_min_size = rd_min_size cfg, db_max_size = rd_max_size cfg, db_max_idle_sec = rd_max_idle_sec cfg,
      db_max_creating_limit = compute_max_creating_limit (rd_max_creating cfg) (rd_max_size cfg) (rd_worker_threads cfg)\<rparr>"

section \<open>The deque of worker mode\<close>

definition redis_take :: "idle_conns \<Rightarrow> ((nat \<times> int) \<times> idle_conns) option" where
  "redis_take q = (case q of [] \<Rightarrow> None | c # rest \<Rightarrow> Some (c, rest))"

fun redis_reclaim :: "db_cfg \<Rightarrow> int \<Rightarrow> nat \<Rightarrow> idle_conns \<Rightarrow> nat list \<times> nat \<times> idle_conns" where
  "redis_reclaim cfg now n [] = ([], n, [])"
| "redis_reclaim cfg now n ((c, last_used) # q) =
     (if (now - last_used) div 1000 < db_max_idle_sec cfg then ([], n, (c, last_used) # q)
      else let (closed, n', kept) = redis_reclaim cfg now (size_sub n 1) q in (c # closed, n', kept))"

definition redis_ops :: db_ops where
  "redis_ops = \<lparr>op_take = redis_take, op_reclaim = redis_reclaim, op_resets = False, op_guarded_push = True\<rparr>"

lemma redis_reclaim_books:
  "length q \<le> n \<Longrightarrow> redis_reclaim cfg now n q = (closed, n', kept) \<Longrightarrow>
     mset (map fst q) = mset closed + mset (map fst kept) \<and> n' = n - length closed"
  by (induction cfg now n q arbitrary: closed n' kept rule: redis_reclaim.induct)
    (auto split: if_splits prod.splits)

interpretation redis_deque: idle_deque redis_ops
proof
  fix q c rest
  show "(op_take redis_ops q = None) = (q = [])" by (simp add: redis_ops_def redis_take_def split: list.split)
  show "op_take redis_ops q = Some (c, rest) \<Longrightarrow> mset q = add_mset c (mset rest)"
    by (auto simp: redis_ops_def redis_take_def split: list.splits)
next
  fix q n cfg now closed n' kept
  show "length q \<le> n \<Longrightarrow> op_reclaim redis_ops cfg now n q = (closed, n', kept) \<Longrightarrow>
      mset (map fst q) = mset closed + mset (map fst kept) \<and> n' = n - length closed"
    using redis_reclaim_books by (simp add: redis_ops_def)
qed

section \<open>Connections are never shared and never lost\<close>

lemma distinct_concat_disjoint:
  assumes "distinct (concat xss)" and "i < length xss" and "j < length xss" and "c \<in> set (xss ! i)" and "c \<in> set (xss ! j)"
  shows "i = j"
  using assms
proof (induction xss arbitrary: i j)
  case (Cons xs xss)
  have "c \<in> set (concat xss)" if "k < length xss" "c \<in> set (xss ! k)" for k
    using that by auto
  then show ?case
    using Cons by (cases i; cases j) auto
qed simp

lemma db_inv_exclusive:
  assumes "db_inv cfg s"
  shows "length (ds_open s) \<le> db_max_size cfg + length (to_close s)"
    and "set (ds_open s) = set (held s) \<union> set (to_close s)"
    and "\<And>i j c. i < length (ds_workers s) \<Longrightarrow> j < length (ds_workers s) \<Longrightarrow> c \<in> set (w_conns (ds_workers s ! i)) \<Longrightarrow>
      c \<in> set (w_conns (ds_workers s ! j)) \<Longrightarrow> i = j"
    and "\<And>i c. i < length (ds_workers s) \<Longrightarrow> c \<in> set (w_conns (ds_workers s ! i)) \<Longrightarrow>
      c \<notin> fst ` set (db_idle (ds_pool s)) \<and> c \<notin> set (m_conns (ds_maint s)) \<and> c \<notin> set (to_close s)"
proof -
  have m: "mset (ds_open s) = mset (held s @ to_close s)" and d: "distinct (ds_open s)"
    and t: "db_total (ds_pool s) = length (held s) + slots s" "db_total (ds_pool s) \<le> db_max_size cfg"
    using assms by (simp_all add: db_inv_def)
  have "length (ds_open s) = length (held s) + length (to_close s)"
    using m by (metis length_append size_mset)
  then show "length (ds_open s) \<le> db_max_size cfg + length (to_close s)" using t by simp
  show "set (ds_open s) = set (held s) \<union> set (to_close s)" using m by (metis set_append mset_eq_setD)
  have d2: "distinct (held s @ to_close s)" using m d by (metis mset_eq_imp_distinct_iff)
  then have "distinct (concat (map w_conns (ds_workers s)))" by (simp add: held_def)
  then show "i = j" if "i < length (ds_workers s)" "j < length (ds_workers s)" "c \<in> set (w_conns (ds_workers s ! i))"
    "c \<in> set (w_conns (ds_workers s ! j))" for i j c
    using distinct_concat_disjoint [of "map w_conns (ds_workers s)" i j c] that by simp
  show "c \<notin> fst ` set (db_idle (ds_pool s)) \<and> c \<notin> set (m_conns (ds_maint s)) \<and> c \<notin> set (to_close s)"
    if "i < length (ds_workers s)" "c \<in> set (w_conns (ds_workers s ! i))" for i c
  proof -
    have "c \<in> set (concat (map w_conns (ds_workers s)))" using that by auto
    then show ?thesis using d2 by (auto simp: held_def)
  qed
qed

text \<open>
  C19. From start-up, with any number of the first connects failing, through any interleaving of the threads of either pool,
  failing connects, resets, queries, pings and pushes: the connections counted never exceed the maximum, the connects under way never
  exceed their limit, no counter underflows, the count is exactly the connections held plus the slots reserved, every
  open connection is idle, held by exactly one thread or on its way to being closed, and no connection is used by two
  threads at once.
\<close>

theorem db_pool_exclusive:
  assumes "ops = mysql_ops \<or> ops = redis_ops" and "length now \<le> db_max_size cfg"
    and "db_run ops cfg es (db_init n now) = Some s"
  shows "db_total (ds_pool s) \<le> db_max_size cfg \<and> db_creating (ds_pool s) \<le> db_max_creating_limit cfg \<and>
    db_total (ds_pool s) = length (held s) + slots s \<and>
    set (ds_open s) = set (held s) \<union> set (to_close s) \<and> length (ds_open s) \<le> db_max_size cfg + length (to_close s) \<and>
    (\<forall>i j c. i < length (ds_workers s) \<and> j < length (ds_workers s) \<and> c \<in> set (w_conns (ds_workers s ! i)) \<and>
       c \<in> set (w_conns (ds_workers s ! j)) \<longrightarrow> i = j) \<and>
    (\<forall>i c. i < length (ds_workers s) \<and> c \<in> set (w_conns (ds_workers s ! i)) \<longrightarrow>
       c \<notin> fst ` set (db_idle (ds_pool s)) \<and> c \<notin> set (m_conns (ds_maint s)))"
proof -
  have inv: "db_inv cfg s"
    using assms mysql_deque.db_run_inv redis_deque.db_run_inv db_init_inv by blast
  then have "db_total (ds_pool s) \<le> db_max_size cfg \<and> db_creating (ds_pool s) \<le> db_max_creating_limit cfg \<and>
      db_total (ds_pool s) = length (held s) + slots s" by (simp add: db_inv_def)
  then show ?thesis using db_inv_exclusive [OF inv] by blast
qed

definition demo_db_cfg :: db_cfg where
  "demo_db_cfg = \<lparr>db_min_size = 0, db_max_size = 1, db_max_idle_sec = 60, db_max_creating_limit = 1\<rparr>"

text \<open>One worker takes the only connection, another waits, the first one gives it back and notifies the maintenance thread.\<close>

definition lost_wakeup_run :: "db_event list" where
  "lost_wakeup_run =
     [By_maint E_loop, By_worker 0 E_start, By_worker 0 E_lock, By_worker 0 (E_connect True), By_worker 0 E_created,
      By_worker 1 E_start, By_worker 1 E_lock, By_worker 0 (E_release True 5), By_worker 0 (E_notify To_maint),
      By_maint E_notified]"

definition lost_wakeup_state :: db_state where
  "lost_wakeup_state =
     \<lparr>ds_pool = \<lparr>db_running = True, db_idle = [(0, 5)], db_total = 1, db_creating = 0\<rparr>,
      ds_workers = [W_away, W_wait 0 False], ds_maint = M_sleep False, ds_open = [0], ds_next = 1\<rparr>"

lemma lost_wakeup_runs:
  "db_run mysql_ops demo_db_cfg lost_wakeup_run (db_init 2 []) = Some lost_wakeup_state"
  "db_run redis_ops demo_db_cfg lost_wakeup_run (db_init 2 []) = Some lost_wakeup_state"
  by code_simp+

theorem db_pool_exclusive_witness:
  "\<exists>s. db_run mysql_ops demo_db_cfg lost_wakeup_run (db_init 2 []) = Some s \<and> db_total (ds_pool s) \<le> 1 \<and>
     set (ds_open s) = set (held s) \<union> set (to_close s)"
  using db_pool_exclusive [of mysql_ops "[]" demo_db_cfg lost_wakeup_run 2] lost_wakeup_runs(1)
  by (simp add: demo_db_cfg_def)

definition wakeup_lost :: "db_ops \<Rightarrow> bool" where
  "wakeup_lost ops \<longleftrightarrow> (\<exists>cfg es s s'. db_run ops cfg es (db_init 2 []) = Some s \<and>
     db_running (ds_pool s) \<and> db_idle (ds_pool s) \<noteq> [] \<and> ds_workers s = [W_away, W_wait 0 False] \<and> ds_maint s = M_sleep False \<and>
     db_step ops cfg (By_worker 1 E_timeout) s = Some s' \<and> ds_workers s' = [W_away, W_away] \<and> db_idle (ds_pool s') \<noteq> [])"


text \<open>After \<^verbatim>\<open>shutdown\<close> has joined its threads and closed the idle connections nothing is open.\<close>

lemma shutdown_closes_all:
  assumes "ops = mysql_ops \<or> ops = redis_ops" and "length now \<le> db_max_size cfg"
    and "db_run ops cfg es (db_init n now) = Some s" and "db_step ops cfg E_close_all s = Some s'"
  shows "ds_open s' = []"
proof -
  have "db_inv cfg s"
    using assms mysql_deque.db_run_inv redis_deque.db_run_inv db_init_inv by blast
  then have inv: "db_inv cfg s'" using assms mysql_deque.db_step_inv redis_deque.db_step_inv by blast
  have s: "list_all (\<lambda>x. x = W_away) (ds_workers s)" "ds_maint s = M_exit"
    and s': "s' = set_pool (close_section (ds_pool s)) (close_conns (map fst (db_idle (ds_pool s))) s)"
    using assms(4) by (auto simp: db_step_def split: if_splits)
  have "concat (map f (ds_workers s)) = []" if "f W_away = []" for f :: "db_worker \<Rightarrow> nat list"
    using s(1) that by (auto simp: list_all_iff)
  then have "set (held s') \<union> set (to_close s') = {}"
    using s(2) by (auto simp: s' held_def to_close_def set_pool_def close_section_def)
  then show ?thesis using db_inv_exclusive(2) [OF inv] by simp
qed

section \<open>A maintenance pass ends\<close>

text \<open>The steps a pass has left, in the worst case.\<close>

fun pass_left :: "db_cfg \<Rightarrow> db_maint \<Rightarrow> nat" where
  "pass_left cfg M_reclaim = db_min_size cfg + 13"
| "pass_left cfg (M_close cs) = db_min_size cfg + 12"
| "pass_left cfg M_reserve = db_min_size cfg + 11"
| "pass_left cfg (M_create left made failed) = left + 10"
| "pass_left cfg (M_add made unused) = 9"
| "pass_left cfg (M_unpooled cs) = 8"
| "pass_left cfg M_take = 7"
| "pass_left cfg (M_check todo dead) = length todo + 2"
| "pass_left cfg (M_dead dead) = 1"
| "pass_left cfg _ = 0"

definition pass_event :: "db_event \<Rightarrow> bool" where
  "pass_event e \<longleftrightarrow> (case e of By_maint me \<Rightarrow> me \<notin> {E_loop, E_notified, E_expired} | _ \<Rightarrow> False)"

lemma pass_left_wake [simp]: "pass_left cfg (wake_maint m) = pass_left cfg m"
  by (cases m) simp_all

lemma ds_maint_simps [simp]:
  "ds_maint (set_w w x s) = ds_maint s" "ds_maint (set_pool p s) = ds_maint s" "ds_maint (set_m m s) = m"
  "ds_maint (notify_all s) = wake_maint (ds_maint s)" "ds_maint (snd (open_conn s)) = ds_maint s"
  by (simp_all add: set_w_def set_pool_def set_m_def notify_all_def open_conn_def)

lemma maint_step_pass:
  assumes "maint_step ops cfg e s = Some s'"
  shows "if pass_event (By_maint e) then pass_left cfg (ds_maint s') < pass_left cfg (ds_maint s)
    else e = E_expired \<or> pass_left cfg (ds_maint s') = 0 \<and> pass_left cfg (ds_maint s) = 0"
proof (cases e)
  case E_reserve
  then show ?thesis
    using assms by (auto simp: maint_step_def pass_event_def reserve_section_def Let_def split: if_splits)
next
  case E_take
  then show ?thesis
    using assms by (auto simp: maint_step_def pass_event_def check_section_def max_check_def Let_def split: if_splits)
next
  case (E_made ok)
  then show ?thesis
    using assms by (auto simp: maint_step_def pass_event_def open_conn_def Let_def split: if_splits db_maint.splits)
next
  case (E_ping alive pushed now)
  then show ?thesis
    using assms by (auto simp: maint_step_def pass_event_def Let_def split: if_splits db_maint.splits list.splits)
next
  case (E_add flags now)
  then show ?thesis
    using assms by (auto simp: maint_step_def pass_event_def Let_def split: if_splits db_maint.splits)
qed (use assms in \<open>auto simp: maint_step_def pass_event_def Let_def split: if_splits db_maint.splits prod.splits\<close>)

lemma worker_step_maint:
  assumes "worker_step ops cfg w e s = Some s'"
  shows "pass_left cfg (ds_maint s') = pass_left cfg (ds_maint s)"
proof -
  have "notify_one t s = Some s1 \<Longrightarrow> pass_left cfg (ds_maint s1) = pass_left cfg (ds_maint s)" for t s1
    by (auto simp: notify_one_def split: notified.splits db_worker.splits bool.splits if_splits)
  then show ?thesis
    using assms
    by (cases e) (auto simp: worker_step_def open_conn_def Let_def split: if_splits db_worker.splits acquired.splits option.splits)
qed

lemma db_step_pass:
  assumes "db_step ops cfg e s = Some s'" and "e \<noteq> By_maint E_expired"
  shows "pass_left cfg (ds_maint s') + (if pass_event e then 1 else 0) \<le> pass_left cfg (ds_maint s)"
proof (cases e)
  case (By_worker w we)
  then show ?thesis
    using assms(1) worker_step_maint [of ops cfg w we s s'] by (auto simp: db_step_def pass_event_def split: if_splits)
next
  case (By_maint me)
  then show ?thesis
    using assms maint_step_pass [of ops cfg me s s'] by (auto simp: db_step_def pass_event_def split: if_splits)
qed (use assms in \<open>auto simp: db_step_def pass_event_def split: if_splits\<close>)

lemma db_run_pass:
  assumes "db_run ops cfg es s = Some s'" and "By_maint E_expired \<notin> set es"
  shows "length (filter pass_event es) + pass_left cfg (ds_maint s') \<le> pass_left cfg (ds_maint s)"
  using assms
proof (induction es arbitrary: s)
  case (Cons e es)
  then obtain s1 where s1: "db_step ops cfg e s = Some s1" "db_run ops cfg es s1 = Some s'"
    by (auto split: option.splits)
  show ?case using db_step_pass [OF s1(1)] Cons.IH [OF s1(2)] Cons.prems(2) by auto
qed simp

lemma pass_not_stuck:
  assumes "0 < pass_left cfg (ds_maint s')"
  shows "\<exists>me. pass_event (By_maint me) \<and> maint_step ops cfg me s' \<noteq> None"
proof -
  define me where "me = (case ds_maint s' of M_reclaim \<Rightarrow> E_reclaim 0 | M_close cs \<Rightarrow> E_close | M_reserve \<Rightarrow> E_reserve
    | M_create l made f \<Rightarrow> E_made True | M_add made u \<Rightarrow> E_add (map (\<lambda>_. True) made) 0 | M_unpooled cs \<Rightarrow> E_unpooled
    | M_take \<Rightarrow> E_take | M_check todo d \<Rightarrow> E_ping False True 0 | _ \<Rightarrow> E_dead)"
  have "pass_event (By_maint me)"
    by (auto simp: me_def pass_event_def split: db_maint.split)
  moreover have "maint_step ops cfg me s' \<noteq> None"
    using assms by (cases "ds_maint s'")
      (auto simp: me_def maint_step_def Let_def list_all_iff split: prod.split list.split)
  ultimately show ?thesis by blast
qed



section \<open>Replies\<close>

text \<open>A reply of the client library; \<open>R_other\<close> stands for the types that the code does not name.\<close>

datatype redis_reply =
    R_string string
  | R_status string
  | R_integer int
  | R_array "redis_reply list"
  | R_error string
  | R_nil
  | R_other

record redis_reply_data =
  rd_ok :: bool
  rd_error :: string
  rd_str :: string
  rd_integer :: int
  rd_elements :: "string list"
  rd_type :: string

definition redis_reply_data0 :: redis_reply_data where
  "redis_reply_data0 = \<lparr>rd_ok = False, rd_error = [], rd_str = [], rd_integer = 0, rd_elements = [], rd_type = []\<rparr>"

definition reply_element :: "redis_reply \<Rightarrow> string" where
  "reply_element r =
     (case r of
        R_string s \<Rightarrow> s
      | R_status s \<Rightarrow> s
      | R_integer i \<Rightarrow> dec_of_int i
      | R_nil \<Rightarrow> ''(nil)''
      | _ \<Rightarrow> ''(unknown)'')"

definition parse_redis_reply :: "redis_reply \<Rightarrow> redis_reply_data" where
  "parse_redis_reply reply =
     (case reply of
        R_string s \<Rightarrow> redis_reply_data0\<lparr>rd_type := ''string'', rd_str := s, rd_ok := True\<rparr>
      | R_integer i \<Rightarrow> redis_reply_data0\<lparr>rd_type := ''integer'', rd_integer := i, rd_ok := True\<rparr>
      | R_array es \<Rightarrow> redis_reply_data0\<lparr>rd_type := ''array'', rd_ok := True, rd_elements := map reply_element es\<rparr>
      | R_status s \<Rightarrow> redis_reply_data0\<lparr>rd_type := ''string'', rd_str := s, rd_ok := True\<rparr>
      | R_error e \<Rightarrow> redis_reply_data0\<lparr>rd_type := ''error'', rd_error := e\<rparr>
      | R_nil \<Rightarrow> redis_reply_data0\<lparr>rd_type := ''nil'', rd_ok := True\<rparr>
      | R_other \<Rightarrow> redis_reply_data0\<lparr>rd_type := ''unknown'', rd_ok := True\<rparr>)"

definition redis_make_error :: "string \<Rightarrow> redis_reply_data" where
  "redis_make_error msg = redis_reply_data0\<lparr>rd_error := msg, rd_type := ''error''\<rparr>"

section \<open>Commands\<close>

definition kReadOnly :: "string list" where
  "kReadOnly = [''GET'', ''MGET'', ''STRLEN'', ''EXISTS'', ''TTL'', ''PTTL'', ''TYPE'', ''HGET'', ''HMGET'', ''HGETALL'',
     ''HKEYS'', ''HVALS'', ''HLEN'', ''HEXISTS'', ''LLEN'', ''LRANGE'', ''LINDEX'', ''SCARD'', ''SISMEMBER'', ''SMEMBERS'',
     ''ZCARD'', ''ZSCORE'', ''ZRANGE'', ''ZRANK'']"

definition is_readonly_idempotent :: "string \<Rightarrow> bool" where
  "is_readonly_idempotent verb \<longleftrightarrow> map toupper verb \<in> set kReadOnly"

text \<open>What an attempt meets: the connection \<^verbatim>\<open>acquire_conn\<close> gives, the library's reply (\<open>None\<close> for a null
  pointer), the text of the connection's error and whether the pool still runs then.\<close>

record redis_attempt =
  at_conn :: "nat option"
  at_reply :: "redis_reply option"
  at_err :: string
  at_running :: bool

text \<open>The loop; also the commands handed to the library, with their connections.\<close>

fun redis_cmd_loop ::
  "string list \<Rightarrow> bool \<Rightarrow> nat \<Rightarrow> redis_attempt list \<Rightarrow> (redis_reply_data \<times> (nat \<times> string list) list) option" where
  "redis_cmd_loop args retryable 0 ats = Some (redis_make_error ''redis retry exhausted'', [])"
| "redis_cmd_loop args retryable (Suc n) [] = None"
| "redis_cmd_loop args retryable (Suc n) (a # ats) =
     (case at_conn a of
        None \<Rightarrow> Some (redis_make_error ''no available Redis connection'', [])
      | Some c \<Rightarrow>
          (case at_reply a of
             None \<Rightarrow>
               if retryable \<and> 0 < n \<and> at_running a
               then map_option (apsnd ((#) (c, args))) (redis_cmd_loop args retryable n ats)
               else Some (redis_make_error (at_err a), [(c, args)])
           | Some reply \<Rightarrow> Some (parse_redis_reply reply, [(c, args)])))"

definition cmd_argv_sync_impl ::
  "bool \<Rightarrow> string list \<Rightarrow> redis_attempt list \<Rightarrow> (redis_reply_data \<times> (nat \<times> string list) list) option" where
  "cmd_argv_sync_impl is_running args ats =
     (if \<not> is_running then Some (redis_make_error ''redis pool is shutdown'', [])
      else if args = [] then Some (redis_make_error ''empty Redis command'', [])
      else
        let retryable = is_readonly_idempotent (hd args)
        in redis_cmd_loop args retryable (if retryable then 2 else 1) ats)"

definition get_sync :: "bool \<Rightarrow> string \<Rightarrow> redis_attempt list \<Rightarrow> (redis_reply_data \<times> (nat \<times> string list) list) option" where
  "get_sync is_running key ats = cmd_argv_sync_impl is_running [''GET'', key] ats"

text \<open>
  C21. A command whose verb is not on the list of read-only verbs is handed to the client library at most once, whatever
  fails; a read-only one at most twice, the second time only after the first got no reply and the pool still ran. Every
  transmission carries exactly the given arguments, the call always ends, and the fall-through after the loop is never reached.
\<close>

theorem redis_write_sent_once:
  assumes "2 \<le> length ats"
  shows "\<exists>r sent. cmd_argv_sync_impl is_running args ats = Some (r, sent) \<and>
    length sent \<le> (if args \<noteq> [] \<and> is_readonly_idempotent (hd args) then 2 else 1) \<and>
    (\<forall>x \<in> set sent. snd x = args) \<and>
    (2 \<le> length sent \<longrightarrow> at_reply (hd ats) = None \<and> at_running (hd ats)) \<and>
    (r = redis_make_error ''redis retry exhausted'' \<longrightarrow>
       (\<exists>a \<in> set ats. at_err a = ''redis retry exhausted'' \<or> at_reply a = Some (R_error ''redis retry exhausted'')))"
proof -
  obtain a b rest where ats: "ats = a # b # rest" using assms by (cases ats; cases "tl ats") auto
  have e: "redis_make_error x = redis_make_error y \<longleftrightarrow> x = y" for x y
    by (simp add: redis_make_error_def redis_reply_data0_def)
  have p: "parse_redis_reply r = redis_make_error x \<longleftrightarrow> r = R_error x" for r x
    by (cases r) (auto simp: parse_redis_reply_def redis_make_error_def redis_reply_data0_def)
  show ?thesis
    unfolding cmd_argv_sync_impl_def Let_def ats
    by (auto simp: e p numeral_2_eq_2 split: option.splits)
qed

theorem redis_write_sent_once_witness:
  "\<exists>r sent. cmd_argv_sync_impl True [''INCR'', ''n'']
     (replicate 2 \<lparr>at_conn = Some 1, at_reply = None, at_err = ''eof'', at_running = True\<rparr>) = Some (r, sent) \<and> length sent \<le> 1"
proof -
  have "\<not> is_readonly_idempotent ''INCR''" by code_simp
  then show ?thesis
    using redis_write_sent_once [of "replicate 2 \<lparr>at_conn = Some 1, at_reply = None, at_err = ''eof'', at_running = True\<rparr>"
        True "[''INCR'', ''n'']"] by auto
qed

section \<open>Connecting and direct mode\<close>

text \<open>
  \<open>rl_connect host port tv\<close> is the new context and whether it carries an error (\<open>None\<close> for a null
  pointer), \<open>rl_select\<close> the reply to \<^verbatim>\<open>SELECT\<close>. A time is seconds and microseconds.
\<close>

record redis_lib =
  rl_connect :: "string \<Rightarrow> int \<Rightarrow> int \<times> int \<Rightarrow> (nat \<times> bool) option"
  rl_select :: "nat \<Rightarrow> int \<Rightarrow> redis_reply option"

definition redis_timeval :: "int \<Rightarrow> int \<times> int" where
  "redis_timeval ms = (let m = (if ms < 100 then 100 else ms) in (m div 1000, m mod 1000 * 1000))"

text \<open>The context, the command timeout that was set, and the new number of connections created.\<close>

definition create_redis_connection ::
  "redis_lib \<Rightarrow> redis_config \<Rightarrow> nat \<Rightarrow> (nat \<times> (int \<times> int) option) option \<times> nat" where
  "create_redis_connection lib cfg created_total =
     (case rl_connect lib (rd_host cfg) (rd_port cfg) (redis_timeval (rd_connect_timeout_ms cfg)) of
        None \<Rightarrow> (None, created_total)
      | Some (c, True) \<Rightarrow> (None, created_total)
      | Some (c, False) \<Rightarrow>
          let timeout = (if rd_cmd_timeout_ms cfg > 0 then Some (redis_timeval (rd_cmd_timeout_ms cfg)) else None) in
          if rd_db cfg \<noteq> 0 \<and> rl_select lib c (rd_db cfg) \<noteq> Some (R_status ''OK'') then (None, created_total)
          else (Some (c, timeout), created_total + 1))"

record tls_redis_conn =
  tr_owner :: "nat option"
  tr_generation :: nat
  tr_conn :: "nat option"

definition tls_owner_matches :: "tls_redis_conn \<Rightarrow> nat \<Rightarrow> nat \<Rightarrow> bool" where
  "tls_owner_matches tls owner generation \<longleftrightarrow> tr_owner tls = Some owner \<and> tr_generation tls = generation"

definition reset_tls_owner :: "nat \<Rightarrow> nat \<Rightarrow> tls_redis_conn \<Rightarrow> tls_redis_conn" where
  "reset_tls_owner owner generation tls = \<lparr>tr_owner = Some owner, tr_generation = generation, tr_conn = None\<rparr>"

text \<open>\<open>broken\<close> says that the context carries an error, \<open>fresh\<close> is what \<^verbatim>\<open>create_redis_connection\<close> would return.\<close>

definition ensure_tls_connection ::
  "(nat \<Rightarrow> bool) \<Rightarrow> nat option \<Rightarrow> nat \<Rightarrow> nat \<Rightarrow> tls_redis_conn \<Rightarrow> tls_redis_conn \<times> bool" where
  "ensure_tls_connection broken fresh owner generation tls0 =
     (let tls = (if \<not> tls_owner_matches tls0 owner generation then reset_tls_owner owner generation tls0 else tls0) in
      case tr_conn tls of
        None \<Rightarrow> (tls\<lparr>tr_conn := fresh\<rparr>, False)
      | Some c \<Rightarrow> if broken c then (tls\<lparr>tr_conn := fresh\<rparr>, True) else (tls, False))"

definition drop_tls_connection :: "nat \<Rightarrow> nat \<Rightarrow> nat \<Rightarrow> tls_redis_conn \<Rightarrow> tls_redis_conn" where
  "drop_tls_connection owner generation c tls =
     (if tls_owner_matches tls owner generation \<and> tr_conn tls = Some c then tls\<lparr>tr_conn := None\<rparr> else tls)"

definition shutdown_tls :: "nat \<Rightarrow> nat \<Rightarrow> tls_redis_conn \<Rightarrow> tls_redis_conn" where
  "shutdown_tls owner generation tls =
     (if tls_owner_matches tls owner generation
      then \<lparr>tr_owner = None, tr_generation = 0, tr_conn = None\<rparr> else tls)"

lemma ensure_tls_usable:
  assumes "ensure_tls_connection broken fresh owner generation tls = (tls', reconnected)"
  shows "tls_owner_matches tls' owner generation \<and>
    (\<forall>c. tr_conn tls' = Some c \<longrightarrow> fresh = Some c \<or> \<not> broken c \<and> tls' = tls \<and> tls_owner_matches tls owner generation)"
  using assms
  by (auto simp: ensure_tls_connection_def tls_owner_matches_def reset_tls_owner_def Let_def split: option.splits if_splits)

end
