(* ===== verification/Mysql_Json.thy ===== *)
theory Mysql_Json
  imports Response
begin

text \<open>
  Query results as JSON, \<^verbatim>\<open>src/db/mysql_result_json.cpp\<close>: the writer of a result set, with its treatment of bytes that are
  not UTF-8, and the scanner that takes the first string value out of such a document.
\<close>

section \<open>Writing\<close>

definition utf8_extra :: "char \<Rightarrow> nat" where
  "utf8_extra c =
     (let n = code c in
      if n div 32 = 6 then 1 else if n div 16 = 14 then 2 else if n div 8 = 30 then 3 else 0)"

definition is_continuation :: "char \<Rightarrow> bool" where
  "is_continuation c \<longleftrightarrow> code c div 64 = 2"

text \<open>A byte below 128.\<close>

definition json_ascii :: "char \<Rightarrow> string" where
  "json_ascii c =
     (if c = DQUOTE then [BACKSLASH, DQUOTE]
      else if c = BACKSLASH then [BACKSLASH, BACKSLASH]
      else if code c = 8 then [BACKSLASH, CHR ''b'']
      else if code c = 12 then [BACKSLASH, CHR ''f'']
      else if c = LF then [BACKSLASH, CHR ''n'']
      else if c = CR then [BACKSLASH, CHR ''r'']
      else if code c = 9 then [BACKSLASH, CHR ''t'']
      else if code c < 32 then
        [BACKSLASH, CHR ''u'', CHR ''0'', CHR ''0'', hex_low (code c div 16), hex_low (code c mod 16)]
      else [c])"

function json_body :: "string \<Rightarrow> string" where
  "json_body [] = []"
| "json_body (c # rest) =
     (if code c < 128 then json_ascii c @ json_body rest
      else
        let extra = utf8_extra c in
        if 0 < extra \<and> extra \<le> length rest \<and> list_all is_continuation (take extra rest)
        then c # take extra rest @ json_body (drop extra rest)
        else BACKSLASH # ''ufffd'' @ json_body rest)"
  by pat_completeness auto
termination by (relation "measure length") auto

definition append_json_string :: "string \<Rightarrow> string \<Rightarrow> string" where
  "append_json_string out data = out @ [DQUOTE] @ json_body data @ [DQUOTE]"

fun json_fields :: "string \<Rightarrow> (string \<times> string option) list \<Rightarrow> bool \<Rightarrow> string" where
  "json_fields json [] first = json"
| "json_fields json ((name, val) # fs) first =
     json_fields
       (let j1 = (if first then json else json @ '','');
            j2 = append_json_string j1 name @ '':''
        in case val of None \<Rightarrow> j2 @ ''null'' | Some v \<Rightarrow> append_json_string j2 v) fs False"

fun json_rows :: "string \<Rightarrow> string list \<Rightarrow> string option list list \<Rightarrow> bool \<Rightarrow> string" where
  "json_rows json names [] first = json"
| "json_rows json names (row # rows) first =
     json_rows (json_fields ((if first then json else json @ '','') @ ''{'') (zip names row) True @ ''}'') names rows False"

definition mysql_result_to_json :: "string list \<Rightarrow> string option list list \<Rightarrow> string" where
  "mysql_result_to_json names rows = json_rows ''['' names rows True @ '']''"

section \<open>Reading the first string value\<close>

definition json_hex :: "char \<Rightarrow> nat option" where
  "json_hex c =
     (if isdigit c then Some (code c - 48)
      else if 97 \<le> code c \<and> code c \<le> 102 then Some (code c - 87)
      else if 65 \<le> code c \<and> code c \<le> 70 then Some (code c - 55)
      else None)"

definition utf8_bytes :: "nat \<Rightarrow> string" where
  "utf8_bytes cp =
     (if cp < 128 then [char_of cp]
      else if cp < 2048 then [char_of (192 + cp div 64), char_of (128 + cp mod 64)]
      else [char_of (224 + cp div 4096), char_of (128 + cp div 64 mod 64), char_of (128 + cp mod 64)])"

definition simple_escape :: "char \<Rightarrow> char option" where
  "simple_escape e =
     (if e = DQUOTE then Some DQUOTE else if e = BACKSLASH then Some BACKSLASH else if e = CHR ''/'' then Some (CHR ''/'')
      else if e = CHR ''b'' then Some (char_of (8::nat)) else if e = CHR ''f'' then Some (char_of (12::nat))
      else if e = CHR ''n'' then Some LF else if e = CHR ''r'' then Some CR else if e = CHR ''t'' then Some (char_of (9::nat))
      else None)"

fun string_value :: "string \<Rightarrow> string option" where
  "string_value [] = None"
| "string_value (c # cs) =
     (if c = DQUOTE then Some []
      else if c = BACKSLASH then
        (case cs of
           [] \<Rightarrow> None
         | e # es \<Rightarrow>
             if e = CHR ''u'' then
               (case es of
                  a # b # d # f # r \<Rightarrow>
                    (case (json_hex a, json_hex b, json_hex d, json_hex f) of
                       (Some h1, Some h2, Some h3, Some h4) \<Rightarrow>
                         map_option ((@) (utf8_bytes (h1 * 4096 + h2 * 256 + h3 * 16 + h4))) (string_value r)
                     | _ \<Rightarrow> None)
                | _ \<Rightarrow> None)
             else (case simple_escape e of None \<Rightarrow> None | Some x \<Rightarrow> map_option ((#) x) (string_value es)))
      else map_option ((#) c) (string_value cs))"

definition json_space :: "char \<Rightarrow> bool" where
  "json_space c \<longleftrightarrow> c = CHR '' '' \<or> code c = 9 \<or> c = LF \<or> c = CR"

text \<open>The argument is the rest of the document from \<^verbatim>\<open>search_from\<close>.\<close>

function first_string_value :: "string \<Rightarrow> string option" where
  "first_string_value json =
     (case find_char (CHR '':'') json of
        None \<Rightarrow> None
      | Some colon \<Rightarrow>
          (case dropWhile json_space (drop (colon + 1) json) of
             [] \<Rightarrow> None
           | c # cs \<Rightarrow>
               if c = DQUOTE then string_value cs
               else (case find_char (CHR '','') (c # cs) of
                       None \<Rightarrow> None
                     | Some comma \<Rightarrow> first_string_value (drop (comma + 1) (c # cs)))))"
  by pat_completeness auto
termination
proof (relation "measure length")
  fix json colon c cs comma
  assume "find_char (CHR '':'') json = Some colon" "dropWhile json_space (drop (colon + 1) json) = c # cs"
  then have "length (c # cs) \<le> length json - (colon + 1)" "colon < length json"
    using length_dropWhile_le [of json_space "drop (colon + 1) json"] find_char_Some [of "CHR '':''" json colon]
    by (simp_all only: length_drop)
  then show "(drop (comma + 1) (c # cs), json) \<in> measure length" by simp
qed simp

definition extract_first_string_value :: "string \<Rightarrow> string option" where
  "extract_first_string_value json = first_string_value json"

section \<open>What comes back\<close>

text \<open>The bytes a reader gets: every byte that does not start or continue a sequence becomes the three bytes of U+FFFD.\<close>

function utf8_lossy :: "string \<Rightarrow> string" where
  "utf8_lossy [] = []"
| "utf8_lossy (c # rest) =
     (if code c < 128 then c # utf8_lossy rest
      else
        let extra = utf8_extra c in
        if 0 < extra \<and> extra \<le> length rest \<and> list_all is_continuation (take extra rest)
        then c # take extra rest @ utf8_lossy (drop extra rest)
        else map char_of [239::nat, 191, 189] @ utf8_lossy rest)"
  by pat_completeness auto
termination by (relation "measure length") auto

declare first_string_value.simps [simp del] json_body.simps(2) [simp del] utf8_lossy.simps(2) [simp del]

lemma json_hex_hex_low: "n < 16 \<Longrightarrow> json_hex (hex_low n) = Some n"
  by (auto simp: json_hex_def hex_low_def isdigit_def)

lemma high_byte: "\<not> code c < 128 \<Longrightarrow> c \<noteq> DQUOTE \<and> c \<noteq> BACKSLASH"
  by (auto simp: DQUOTE_def BACKSLASH_def)

lemma string_value_plain: "c \<noteq> DQUOTE \<Longrightarrow> c \<noteq> BACKSLASH \<Longrightarrow> string_value (c # cs) = map_option ((#) c) (string_value cs)"
  by simp

lemma string_value_plains:
  "\<forall>c \<in> set xs. c \<noteq> DQUOTE \<and> c \<noteq> BACKSLASH \<Longrightarrow> string_value (xs @ cs) = map_option ((@) xs) (string_value cs)"
proof (induction xs)
  case Nil
  show ?case by (cases "string_value cs") auto
next
  case (Cons x xs)
  then show ?case by (cases "string_value cs") (simp_all del: string_value.simps add: string_value_plain)
qed

lemma string_value_ascii:
  assumes "code c < 128"
  shows "string_value (json_ascii c @ cs) = map_option ((#) c) (string_value cs)"
proof -
  have u: "code c div 16 * 16 + code c mod 16 = code c" by simp
  have h: "json_hex (hex_low (code c div 16)) = Some (code c div 16)" "json_hex (hex_low (code c mod 16)) = Some (code c mod 16)"
    using assms by (simp_all add: json_hex_hex_low)
  have z: "json_hex (CHR ''0'') = Some 0" by (simp add: json_hex_def isdigit_def)
  have b: "utf8_bytes (code c) = [c]" using assms by (simp add: utf8_bytes_def)
  have e: "code c = n \<Longrightarrow> char_of n = c" for n by auto
  have s: "(@) [c] = (#) c" by (simp add: fun_eq_iff)
  show ?thesis
    by (auto simp: json_ascii_def simple_escape_def h z u b e s DQUOTE_def BACKSLASH_def LF_def CR_def)
qed

lemma json_lossy_bad:
  assumes "\<not> code c < 128"
    and "\<not> (0 < utf8_extra c \<and> utf8_extra c \<le> length rest \<and> list_all is_continuation (take (utf8_extra c) rest))"
  shows "json_body (c # rest) = BACKSLASH # ''ufffd'' @ json_body rest"
    "utf8_lossy (c # rest) = map char_of [239::nat, 191, 189] @ utf8_lossy rest"
  using assms by (auto simp: json_body.simps(2) utf8_lossy.simps(2) Let_def)

lemma string_value_body: "string_value (json_body s @ DQUOTE # tail) = Some (utf8_lossy s)"
proof (induction s rule: json_body.induct)
  case (2 c rest)
  show ?case
  proof (cases "code c < 128")
    case True
    then show ?thesis using 2(1) by (simp add: json_body.simps(2) utf8_lossy.simps(2) string_value_ascii)
  next
    case False
    define extra where "extra = utf8_extra c"
    show ?thesis
    proof (cases "0 < extra \<and> extra \<le> length rest \<and> list_all is_continuation (take extra rest)")
      case True
      have "is_continuation x \<Longrightarrow> x \<noteq> DQUOTE \<and> x \<noteq> BACKSLASH" for x
        by (auto simp: is_continuation_def DQUOTE_def BACKSLASH_def)
      then have p: "\<forall>x \<in> set (c # take extra rest). x \<noteq> DQUOTE \<and> x \<noteq> BACKSLASH"
        using True high_byte [OF False] by (auto simp: list_all_iff)
      have "string_value (json_body (drop extra rest) @ DQUOTE # tail) = Some (utf8_lossy (drop extra rest))"
        using 2(2) [OF False extra_def] True by blast
      then show ?thesis
        using string_value_plains [OF p, of "json_body (drop extra rest) @ DQUOTE # tail"] False True
        by (simp add: json_body.simps(2) utf8_lossy.simps(2) Let_def flip: extra_def del: string_value.simps)
    next
      case no: False
      have "string_value (json_body rest @ DQUOTE # tail) = Some (utf8_lossy rest)"
        using 2(3) [OF False extra_def no] .
      moreover have h: "json_hex (CHR ''f'') = Some 15" "json_hex (CHR ''d'') = Some 13"
        by (simp_all add: json_hex_def isdigit_def)
      moreover have "utf8_bytes 65533 = map char_of [239::nat, 191, 189]" by (simp add: utf8_bytes_def)
      ultimately show ?thesis
        using json_lossy_bad [OF False] no by (simp add: BACKSLASH_def DQUOTE_def flip: extra_def)
    qed
  qed
qed simp

lemma json_fields_prefix: "json_fields json fs first = json @ json_fields [] fs first"
proof (induction fs arbitrary: json first)
  case (Cons f fs)
  obtain name val where f: "f = (name, val)" by fastforce
  show ?case
    by (subst (1 2) f, simp only: json_fields.simps, subst (1 2) Cons.IH)
      (simp add: append_json_string_def Let_def split: option.split)
qed simp

lemma json_fields_comma: "fs \<noteq> [] \<Longrightarrow> json_fields [] fs False = '','' @ json_fields [] fs True"
proof (cases fs)
  case (Cons f fs')
  obtain name val where f: "f = (name, val)" by fastforce
  show ?thesis
    unfolding Cons f json_fields.simps
    by (subst (1 2) json_fields_prefix) (simp add: append_json_string_def Let_def split: option.split)
qed simp

lemma json_fields_Cons:
  "json_fields [] ((name, val) # fs) True =
     [DQUOTE] @ json_body name @ [DQUOTE] @ '':'' @
     (case val of None \<Rightarrow> ''null'' | Some v \<Rightarrow> [DQUOTE] @ json_body v @ [DQUOTE]) @ json_fields [] fs False"
  unfolding json_fields.simps
  by (subst json_fields_prefix) (simp add: append_json_string_def Let_def split: option.split)

lemma colon_json_body: "CHR '':'' \<notin> set s \<Longrightarrow> CHR '':'' \<notin> set (json_body s)"
proof (induction s rule: json_body.induct)
  case (2 c rest)
  have "n < 16 \<Longrightarrow> code (hex_low n) \<noteq> 58" for n
    by (simp add: hex_low_def)
  then have h: "n < 16 \<Longrightarrow> hex_low n \<noteq> CHR '':''" for n by force
  have a: "CHR '':'' \<notin> set (json_ascii c)" if "code c < 128" "c \<noteq> CHR '':''"
    using that not_sym [OF h [of "code c div 16"]] not_sym [OF h [of "code c mod 16"]]
    by (simp add: json_ascii_def DQUOTE_def BACKSLASH_def div_less_iff_less_mult)
  show ?case
    using 2 a by (auto simp: json_body.simps(2) Let_def BACKSLASH_def dest: in_set_takeD in_set_dropD)
qed simp

lemma first_string_value_colon:
  assumes "CHR '':'' \<notin> set pre" and "cs \<noteq> []" and "\<not> json_space (hd cs)"
  shows "first_string_value (pre @ CHR '':'' # cs) =
    (if hd cs = DQUOTE then string_value (tl cs)
     else case find_char (CHR '','') cs of None \<Rightarrow> None | Some comma \<Rightarrow> first_string_value (drop (comma + 1) cs))"
proof -
  have "dropWhile json_space cs = cs" using assms(2,3) by (cases cs) auto
  then show ?thesis
    using assms(2) find_char_append_fresh [OF assms(1), of cs]
    by (subst first_string_value.simps) (auto split: list.split)
qed

lemma json_space_DQUOTE [simp]: "\<not> json_space DQUOTE"
  by (simp add: json_space_def DQUOTE_def LF_def CR_def)

lemma first_string_value_fields:
  assumes "CHR '':'' \<notin> set pre" and "\<forall>n \<in> set (name # ns). CHR '':'' \<notin> set n"
  shows "first_string_value (pre @ json_fields [] (map (\<lambda>n. (n, None)) ns @ (name, Some v) # rest) True @ tail) =
    Some (utf8_lossy v)"
  using assms
proof (induction ns arbitrary: pre)
  case Nil
  let ?pre = "pre @ [DQUOTE] @ json_body name @ [DQUOTE]"
  have "CHR '':'' \<notin> set ?pre" using Nil colon_json_body [of name] by (auto simp: DQUOTE_def)
  from first_string_value_colon [OF this, of "[DQUOTE] @ json_body v @ [DQUOTE] @ json_fields [] rest False @ tail"]
  show ?case by (simp add: json_fields_Cons string_value_body del: string_value.simps json_fields.simps)
next
  case (Cons n ns)
  let ?fs = "map (\<lambda>n. (n, None)) ns @ (name, Some v) # rest"
  let ?pre = "pre @ [DQUOTE] @ json_body n @ [DQUOTE]"
  let ?cs = "''null'' @ '','' @ json_fields [] ?fs True @ tail"
  have "CHR '':'' \<notin> set ?pre" using Cons.prems colon_json_body [of n] by (auto simp: DQUOTE_def)
  from first_string_value_colon [OF this, of ?cs]
  have "first_string_value (?pre @ CHR '':'' # ?cs) = first_string_value (json_fields [] ?fs True @ tail)"
    by (simp add: json_space_def DQUOTE_def LF_def CR_def)
  also have "\<dots> = Some (utf8_lossy v)" using Cons.IH [of "[]"] Cons.prems by simp
  finally show ?case by (simp add: json_fields_Cons json_fields_comma del: json_fields.simps)
qed

lemma json_rows_prefix: "json_rows json names rows first = json @ json_rows [] names rows first"
proof (induction rows arbitrary: json first)
  case (Cons row rows)
  show ?case
    by (simp only: json_rows.simps, subst (1 2) Cons.IH, subst (1 2) json_fields_prefix) simp
qed simp

text \<open>
  The scanner that the routes use to take a value out of a query result finds, in the document the writer makes of
  any result set, the first column of the first row that is not null, and returns its bytes unchanged except that
  bytes outside a UTF-8 sequence come back as U+FFFD. It needs the names of the columns up to that one to contain no colon.
\<close>

lemma sql_value_roundtrip:
  assumes "zip names row = map (\<lambda>n. (n, None)) ns @ (name, Some v) # rest"
    and "\<forall>n \<in> set (name # ns). CHR '':'' \<notin> set n"
  shows "extract_first_string_value (mysql_result_to_json names (row # rows)) = Some (utf8_lossy v)"
proof -
  have "mysql_result_to_json names (row # rows) =
      ''[{'' @ json_fields [] (zip names row) True @ ''}'' @ json_rows [] names rows False @ '']''"
    unfolding mysql_result_to_json_def json_rows.simps
    by (subst json_rows_prefix, subst json_fields_prefix) simp
  then show ?thesis
    using first_string_value_fields [OF _ assms(2), of "''[{''" v rest "''}'' @ json_rows [] names rows False @ '']''"] assms(1)
    by (simp add: extract_first_string_value_def)
qed

text \<open>A colon in the name of a column defeats the scanner, and a sequence that encodes nothing passes as UTF-8.\<close>

lemma colon_in_name_misread:
  "extract_first_string_value (mysql_result_to_json [''a:'' @ [DQUOTE] @ ''b''] [[Some ''v'']]) \<noteq> Some ''v''"
  by code_simp

lemma overlong_passes: "utf8_lossy (map char_of [192::nat, 128]) = map char_of [192::nat, 128]"
  by code_simp

end
