(* ===== verification/Admin_Json.thy ===== *)
theory Admin_Json
  imports Mysql_Json
begin

text \<open>
  The requests of the administration, \<^verbatim>\<open>src/app/admin/config_admin_parse.cpp\<close>: the JSON reader and the five kinds of request
  it reads. The reader's position is the rest of the input; a call that fails ends the whole parse, so its position
  afterwards does not matter. \<open>None\<close> from a function with fuel means that the fuel was not enough.
\<close>

section \<open>Requests\<close>

record managed_file =
  mf_name :: string
  mf_content :: string

record save_request =
  sv_base_version :: int
  sv_reason :: string
  sv_files :: "managed_file list"

record login_request =
  lo_username :: string
  lo_password :: string

record rollback_request =
  rb_base_version :: int
  rb_target_version :: int
  rb_reason :: string

record repair_request =
  rp_version :: int
  rp_reason :: string

record orphan_request =
  or_current_version :: int
  or_target_version :: int
  or_action :: string
  or_reason :: string
  or_confirmation :: string

definition kMaxLoginFieldBytes :: nat where
  "kMaxLoginFieldBytes = 256"

section \<open>Tokens\<close>

definition skip_ws :: "string \<Rightarrow> string" where
  "skip_ws s = dropWhile isspace s"

definition consume :: "char \<Rightarrow> string \<Rightarrow> string option" where
  "consume expected s =
     (case skip_ws s of [] \<Rightarrow> None | c # cs \<Rightarrow> if c = expected then Some cs else None)"

text \<open>\<^verbatim>\<open>append_utf8\<close> for the code points of one escape, which are below 65536.\<close>

definition append_utf8 :: "nat \<Rightarrow> string" where
  "append_utf8 cp =
     (if cp \<le> 127 then [char_of cp]
      else if cp \<le> 2047 then [char_of (192 + cp div 64), char_of (128 + cp mod 64)]
      else [char_of (224 + cp div 4096), char_of (128 + cp div 64 mod 64), char_of (128 + cp mod 64)])"

fun string_rest :: "string \<Rightarrow> (string \<times> string) option" where
  "string_rest [] = None"
| "string_rest (c # cs) =
     (if c = DQUOTE then Some ([], cs)
      else if code c < 32 then None
      else if c \<noteq> BACKSLASH then map_option (apfst ((#) c)) (string_rest cs)
      else
        (case cs of
           [] \<Rightarrow> None
         | e # es \<Rightarrow>
             if e = CHR ''u'' then
               (case es of
                  a # b # d # f # r \<Rightarrow>
                    (case (json_hex a, json_hex b, json_hex d, json_hex f) of
                       (Some h1, Some h2, Some h3, Some h4) \<Rightarrow>
                         map_option (apfst ((@) (append_utf8 (h1 * 4096 + h2 * 256 + h3 * 16 + h4)))) (string_rest r)
                     | _ \<Rightarrow> None)
                | _ \<Rightarrow> None)
             else (case simple_escape e of None \<Rightarrow> None | Some x \<Rightarrow> map_option (apfst ((#) x)) (string_rest es))))"

definition parse_string :: "string \<Rightarrow> (string \<times> string) option" where
  "parse_string s =
     (case skip_ws s of [] \<Rightarrow> None | c # cs \<Rightarrow> if c = DQUOTE then string_rest cs else None)"

text \<open>\<^verbatim>\<open>std::from_chars\<close> for an \<^verbatim>\<open>int64_t\<close>, asked to consume the whole text.\<close>

definition from_chars_int64 :: "string \<Rightarrow> int option" where
  "from_chars_int64 s =
     (let neg = (s \<noteq> [] \<and> hd s = CHR ''-'');
          ds = (if neg then tl s else s);
          v = (if neg then - int (dec_val ds) else int (dec_val ds))
      in if ds \<noteq> [] \<and> list_all isdigit ds \<and> - (2 ^ 63) \<le> v \<and> v < 2 ^ 63 then Some v else None)"

definition reader_int64 :: "string \<Rightarrow> (int \<times> string) option" where
  "reader_int64 s =
     (let s1 = skip_ws s;
          sign = (case s1 of c # _ \<Rightarrow> if c = CHR ''-'' then [c] else [] | [] \<Rightarrow> []);
          digits = takeWhile isdigit (drop (length sign) s1)
      in if digits = [] then None
         else map_option (\<lambda>v. (v, drop (length sign + length digits) s1)) (from_chars_int64 (sign @ digits)))"

definition parse_int64 :: "string \<Rightarrow> int option" where
  "parse_int64 value = (if value = [] then None else from_chars_int64 value)"

text \<open>The number of an ignored value: digits with an optional sign and an optional fraction.\<close>

definition skip_number :: "string \<Rightarrow> string option" where
  "skip_number s =
     (let s1 = (if s \<noteq> [] \<and> hd s = CHR ''-'' then tl s else s);
          digits = takeWhile isdigit s1;
          s2 = drop (length digits) s1
      in if digits = [] then None
         else (case s2 of
                 c # s3 \<Rightarrow>
                   if c = CHR ''.'' then
                     let frac = takeWhile isdigit s3
                     in if frac = [] then None else Some (drop (length frac) s3)
                   else Some s2
               | [] \<Rightarrow> Some []))"

text \<open>\<^verbatim>\<open>skip_value\<close>, the loop over the members of an object, and the loop over the elements of an array.\<close>

fun skip_value :: "nat \<Rightarrow> string \<Rightarrow> string option option"
  and skip_members :: "nat \<Rightarrow> string \<Rightarrow> string option option"
  and skip_elements :: "nat \<Rightarrow> string \<Rightarrow> string option option"
where
  "skip_value 0 s = None"
| "skip_value (Suc n) s =
     (case skip_ws s of
        [] \<Rightarrow> Some None
      | c # cs \<Rightarrow>
          if c = DQUOTE then Some (map_option snd (parse_string (c # cs)))
          else if c = CHR ''{'' then
            (case consume (CHR ''}'') cs of Some r \<Rightarrow> Some (Some r) | None \<Rightarrow> skip_members n (skip_ws cs))
          else if c = CHR ''['' then
            (case consume (CHR '']'') cs of Some r \<Rightarrow> Some (Some r) | None \<Rightarrow> skip_elements n (skip_ws cs))
          else if isdigit c \<or> c = CHR ''-'' then Some (skip_number (c # cs))
          else if starts_with ''true'' (c # cs) then Some (Some (drop 4 (c # cs)))
          else if starts_with ''false'' (c # cs) then Some (Some (drop 5 (c # cs)))
          else if starts_with ''null'' (c # cs) then Some (Some (drop 4 (c # cs)))
          else Some None)"
| "skip_members 0 s = None"
| "skip_members (Suc n) s =
     (case parse_string s of
        None \<Rightarrow> Some None
      | Some (_, r) \<Rightarrow>
          (case consume (CHR '':'') r of
             None \<Rightarrow> Some None
           | Some r1 \<Rightarrow>
               (case skip_value n r1 of
                  None \<Rightarrow> None
                | Some None \<Rightarrow> Some None
                | Some (Some r2) \<Rightarrow>
                    (case consume (CHR '','') r2 of
                       Some r3 \<Rightarrow> skip_members n r3
                     | None \<Rightarrow> Some (consume (CHR ''}'') r2)))))"
| "skip_elements 0 s = None"
| "skip_elements (Suc n) s =
     (case skip_value n s of
        None \<Rightarrow> None
      | Some None \<Rightarrow> Some None
      | Some (Some r) \<Rightarrow>
          (case consume (CHR '','') r of
             Some r1 \<Rightarrow> skip_elements n r1
           | None \<Rightarrow> Some (consume (CHR '']'') r)))"

text \<open>Calls nest at most twice per byte.\<close>

definition skip_fuel :: "string \<Rightarrow> nat" where
  "skip_fuel s = 2 * length s + 2"

section \<open>Every step consumes input\<close>

lemma length_skip_ws: "length (skip_ws s) \<le> length s"
  by (simp add: skip_ws_def length_dropWhile_le)

lemma consume_shorter: "consume c s = Some r \<Longrightarrow> length r < length s"
  using length_skip_ws [of s] by (auto simp: consume_def split: list.splits if_splits)

lemma string_rest_shorter: "string_rest s = Some (v, r) \<Longrightarrow> length r < length s"
proof (induction s arbitrary: v rule: string_rest.induct)
  case (2 c cs)
  then show ?case by (fastforce split: if_splits list.splits option.splits prod.splits)
qed simp

lemma parse_string_shorter: "parse_string s = Some (v, r) \<Longrightarrow> length r < length s"
  using length_skip_ws [of s] by (auto simp: parse_string_def dest!: string_rest_shorter split: list.splits if_splits)

lemma skip_number_shorter: "skip_number s = Some r \<Longrightarrow> length r < length s"
proof -
  assume a: "skip_number s = Some r"
  define s1 where "s1 = (if s \<noteq> [] \<and> hd s = CHR ''-'' then tl s else s)"
  define s2 where "s2 = drop (length (takeWhile isdigit s1)) s1"
  have "takeWhile isdigit s1 \<noteq> []" using a by (auto simp: skip_number_def Let_def s1_def split: if_splits)
  moreover from this have "s1 \<noteq> []" by auto
  ultimately have l: "length s2 < length s1" by (simp add: s2_def length_greater_0_conv)
  have l1: "length s1 \<le> length s" by (simp add: s1_def)
  have "length r \<le> length s2"
    using a by (auto simp: skip_number_def Let_def s1_def [symmetric] s2_def [symmetric] split: if_splits list.splits)
  then show ?thesis using l l1 by simp
qed

lemma skip_shorter:
  "skip_value n s = Some (Some r) \<Longrightarrow> length r < length s"
  "skip_members n s = Some (Some r) \<Longrightarrow> length r < length s"
  "skip_elements n s = Some (Some r) \<Longrightarrow> length r < length s"
proof (induction n s and n s and n s arbitrary: r and r and r rule: skip_value_skip_members_skip_elements.induct)
  case (2 n s)
  show ?case
  proof (cases "skip_ws s")
    case (Cons c cs)
    have l: "length cs < length s" "length (skip_ws cs) \<le> length cs"
      using length_skip_ws [of s] length_skip_ws [of cs] Cons by simp_all
    consider "c = DQUOTE" | "c \<noteq> DQUOTE" "c = CHR ''{''" | "c \<noteq> DQUOTE" "c = CHR ''[''"
      | "c \<noteq> DQUOTE" "c \<noteq> CHR ''{''" "c \<noteq> CHR ''[''" "isdigit c \<or> c = CHR ''-''"
      | "c \<noteq> DQUOTE" "c \<noteq> CHR ''{''" "c \<noteq> CHR ''[''" "\<not> (isdigit c \<or> c = CHR ''-'')" by blast
    then show ?thesis
    proof cases
      case 1
      then show ?thesis using 2(3) Cons l by (auto dest!: parse_string_shorter)
    next
      case 2
      then show ?thesis
        using "2.IH"(1) [OF Cons 2(1,2)] "2.prems" Cons l by (fastforce dest: consume_shorter split: option.splits)
    next
      case 3
      then show ?thesis
        using "2.IH"(2) [OF Cons 3(1) _ 3(2)] "2.prems" Cons l by (fastforce dest: consume_shorter split: option.splits)
    next
      case 4
      then show ?thesis using "2.prems" Cons l by (auto dest!: skip_number_shorter)
    next
      case 5
      then show ?thesis using "2.prems" Cons l by (auto split: if_splits)
    qed
  qed (use 2 in simp)
next
  case (4 n s)
  then show ?case
    by (fastforce dest: parse_string_shorter consume_shorter split: option.splits prod.splits)
next
  case (6 n s)
  then show ?case
    by (fastforce dest: consume_shorter split: option.splits)
qed simp_all

lemma skip_enough:
  "2 * length s + 1 \<le> n \<Longrightarrow> skip_value n s \<noteq> None"
  "2 * length s + 2 \<le> n \<Longrightarrow> skip_members n s \<noteq> None"
  "2 * length s + 2 \<le> n \<Longrightarrow> skip_elements n s \<noteq> None"
proof (induction n s and n s and n s rule: skip_value_skip_members_skip_elements.induct)
  case (2 n s)
  show ?case
  proof (cases "skip_ws s")
    case (Cons c cs)
    have "2 * length (skip_ws cs) + 2 \<le> n"
      using length_skip_ws [of s] length_skip_ws [of cs] Cons 2(3) by simp
    then show ?thesis using 2(1,2) Cons by (auto split: option.splits)
  qed simp
next
  case (4 n s)
  show ?case
  proof (cases "parse_string s")
    case (Some vr)
    obtain v r where vr: "vr = (v, r)" by fastforce
    show ?thesis
    proof (cases "consume (CHR '':'') r")
      case c: (Some r1)
      have l: "length r1 < length r" "length r < length s"
        using consume_shorter [OF c] parse_string_shorter [of s v r] Some vr by simp_all
      have n: "2 * length r1 + 1 \<le> n" using 4(3) l by simp
      then obtain k where k: "skip_value n r1 = Some k" using 4(1) [OF Some vr [symmetric] c] by auto
      have "skip_members n r3 \<noteq> None" if "k = Some r2" "consume (CHR '','') r2 = Some r3" for r2 r3
        using 4(2) [OF Some vr [symmetric] c] that k 4(3) l consume_shorter [of "CHR '',''" r2 r3] skip_shorter(1) [of n r1 r2] vr
        by auto
      then show ?thesis using Some vr c k by (auto split: option.splits)
    qed (use Some vr in simp)
  qed simp
next
  case (6 n s)
  obtain k where k: "skip_value n s = Some k" using 6(1,3) by fastforce
  have "skip_elements n r1 \<noteq> None" if "k = Some r" "consume (CHR '','') r = Some r1" for r r1
    using 6(2) that k 6(3) consume_shorter [of "CHR '',''" r r1] skip_shorter(1) [of n s r] by auto
  then show ?case using k by (auto split: option.splits)
qed simp_all

section \<open>Objects\<close>

text \<open>
  The five requests and the file object share one loop: a key, a colon, and what the request does with
  the key (\<open>h\<close>: an error, or the new fields and the rest). A comma before the closing brace is accepted.
\<close>

type_synonym 'a field_handler = "string \<Rightarrow> 'a \<Rightarrow> string \<Rightarrow> (string + 'a \<times> string) option"

definition quote1 :: "char \<Rightarrow> string" where
  "quote1 c = [CHR 0x27, c, CHR 0x27]"

fun object_loop :: "nat \<Rightarrow> 'a field_handler \<Rightarrow> 'a \<Rightarrow> string \<Rightarrow> (string + 'a \<times> string) option" where
  "object_loop 0 h flds s = None"
| "object_loop (Suc n) h flds s =
     (case consume (CHR ''}'') s of
        Some r \<Rightarrow> Some (Inr (flds, r))
      | None \<Rightarrow>
          (case parse_string s of
             None \<Rightarrow> Some (Inl ''expected object key'')
           | Some (key, r) \<Rightarrow>
               (case consume (CHR '':'') r of
                  None \<Rightarrow> Some (Inl (''expected '' @ quote1 (CHR '':'')))
                | Some r1 \<Rightarrow>
                    (case h key flds r1 of
                       None \<Rightarrow> None
                     | Some (Inl e) \<Rightarrow> Some (Inl e)
                     | Some (Inr (flds', r2)) \<Rightarrow>
                         (case consume (CHR '','') r2 of
                            Some r3 \<Rightarrow> object_loop n h flds' r3
                          | None \<Rightarrow>
                              (case consume (CHR ''}'') r2 of
                                 Some r4 \<Rightarrow> Some (Inr (flds', r4))
                               | None \<Rightarrow> Some (Inl (''expected '' @ quote1 (CHR '','') @ '' or '' @ quote1 (CHR ''}''))))))))) "

definition parse_object :: "'a field_handler \<Rightarrow> 'a \<Rightarrow> string \<Rightarrow> (string + 'a \<times> string) option" where
  "parse_object h flds s =
     (case consume (CHR ''{'') s of
        None \<Rightarrow> Some (Inl ''expected object'')
      | Some r \<Rightarrow> object_loop (Suc (length r)) h flds r)"

text \<open>A whole body: the object, white space, nothing more; then the checks for missing fields.\<close>

definition parse_body :: "'a field_handler \<Rightarrow> 'a \<Rightarrow> ('a \<Rightarrow> string + 'b) \<Rightarrow> string \<Rightarrow> (string + 'b) option" where
  "parse_body h flds finish body =
     (case parse_object h flds body of
        None \<Rightarrow> None
      | Some (Inl e) \<Rightarrow> Some (Inl e)
      | Some (Inr (flds', r)) \<Rightarrow> Some (if skip_ws r \<noteq> [] then Inl ''trailing data'' else finish flds'))"

definition skip_field :: "'a \<Rightarrow> string \<Rightarrow> (string + 'a \<times> string) option" where
  "skip_field flds s =
     (case skip_value (skip_fuel s) s of
        None \<Rightarrow> None
      | Some None \<Rightarrow> Some (Inl ''invalid JSON value'')
      | Some (Some r) \<Rightarrow> Some (Inr (flds, r)))"

text \<open>A field with a value: \<open>ok\<close> is the check of the value, \<open>put\<close> stores it.\<close>

definition take_field ::
  "(string \<Rightarrow> ('v \<times> string) option) \<Rightarrow> ('v \<Rightarrow> bool) \<Rightarrow> string \<Rightarrow> ('v \<Rightarrow> 'a) \<Rightarrow> string \<Rightarrow> (string + 'a \<times> string) option" where
  "take_field parse ok msg put s =
     Some (case parse s of
             None \<Rightarrow> Inl msg
           | Some (v, r) \<Rightarrow> if ok v then Inr (put v, r) else Inl msg)"

section \<open>The requests\<close>

definition login_field :: "(string option \<times> string option) field_handler" where
  "login_field key flds =
     (let ok = (\<lambda>v. v \<noteq> [] \<and> length v \<le> kMaxLoginFieldBytes) in
      if key = ''username'' then take_field parse_string ok ''invalid username'' (\<lambda>v. (Some v, snd flds))
      else if key = ''password'' then take_field parse_string ok ''invalid password'' (\<lambda>v. (fst flds, Some v))
      else skip_field flds)"

definition parse_login_request :: "string \<Rightarrow> (string + login_request) option" where
  "parse_login_request =
     parse_body login_field (None, None)
       (\<lambda>f. case f of
          (None, _) \<Rightarrow> Inl ''missing username''
        | (Some _, None) \<Rightarrow> Inl ''missing password''
        | (Some u, Some p) \<Rightarrow> Inr \<lparr>lo_username = u, lo_password = p\<rparr>)"

definition file_field :: "(string option \<times> string option) field_handler" where
  "file_field key flds =
     (if key = ''name'' then take_field parse_string (\<lambda>_. True) [] (\<lambda>v. (Some v, snd flds))
      else if key = ''content'' then take_field parse_string (\<lambda>_. True) [] (\<lambda>v. (fst flds, Some v))
      else skip_field flds)"

text \<open>\<open>Some None\<close> is \<^verbatim>\<open>std::nullopt\<close>.\<close>

definition parse_file_object :: "string \<Rightarrow> (managed_file \<times> string) option option" where
  "parse_file_object s =
     (case parse_object file_field (None, None) s of
        None \<Rightarrow> None
      | Some (Inl _) \<Rightarrow> Some None
      | Some (Inr ((Some name, Some content), r)) \<Rightarrow> Some (Some (\<lparr>mf_name = name, mf_content = content\<rparr>, r))
      | Some (Inr _) \<Rightarrow> Some None)"

fun files_loop :: "nat \<Rightarrow> managed_file list \<Rightarrow> string \<Rightarrow> (managed_file list \<times> string) option option" where
  "files_loop 0 files s = None"
| "files_loop (Suc n) files s =
     (case consume (CHR '']'') s of
        Some r \<Rightarrow> Some (Some (files, r))
      | None \<Rightarrow>
          (case parse_file_object s of
             None \<Rightarrow> None
           | Some None \<Rightarrow> Some None
           | Some (Some (f, r)) \<Rightarrow>
               (case consume (CHR '','') r of
                  Some r1 \<Rightarrow> files_loop n (files @ [f]) r1
                | None \<Rightarrow>
                    (case consume (CHR '']'') r of
                       Some r2 \<Rightarrow> Some (Some (files @ [f], r2))
                     | None \<Rightarrow> Some None))))"

definition parse_files_array :: "string \<Rightarrow> (managed_file list \<times> string) option option" where
  "parse_files_array s =
     (case consume (CHR ''['') s of
        None \<Rightarrow> Some None
      | Some r \<Rightarrow> files_loop (Suc (length r)) [] r)"

definition save_field :: "(int option \<times> string \<times> managed_file list option) field_handler" where
  "save_field key flds s =
     (if key = ''base_version'' then
        take_field reader_int64 (\<lambda>v. v \<ge> 0) ''invalid base_version'' (\<lambda>v. (Some v, snd flds)) s
      else if key = ''reason'' then
        take_field parse_string (\<lambda>_. True) ''invalid reason'' (\<lambda>v. (fst flds, v, snd (snd flds))) s
      else if key = ''files'' then
        (case parse_files_array s of
           None \<Rightarrow> None
         | Some None \<Rightarrow> Some (Inl ''invalid files array'')
         | Some (Some (files, r)) \<Rightarrow> Some (Inr ((fst flds, fst (snd flds), Some files), r)))
      else skip_field flds s)"

definition parse_save_request :: "string \<Rightarrow> (string + save_request) option" where
  "parse_save_request =
     parse_body save_field (None, [], None)
       (\<lambda>f. case f of
          (None, _) \<Rightarrow> Inl ''missing base_version''
        | (Some _, _, None) \<Rightarrow> Inl ''missing files''
        | (Some v, reason, Some files) \<Rightarrow> Inr \<lparr>sv_base_version = v, sv_reason = reason, sv_files = files\<rparr>)"

definition rollback_field :: "(int option \<times> int option \<times> string option) field_handler" where
  "rollback_field key flds =
     (if key = ''base_version'' then
        take_field reader_int64 (\<lambda>v. v \<ge> 0) ''invalid base_version'' (\<lambda>v. (Some v, snd flds))
      else if key = ''target_version'' then
        take_field reader_int64 (\<lambda>v. v > 0) ''invalid target_version'' (\<lambda>v. (fst flds, Some v, snd (snd flds)))
      else if key = ''reason'' then
        take_field parse_string (\<lambda>v. v \<noteq> []) ''reason is required'' (\<lambda>v. (fst flds, fst (snd flds), Some v))
      else skip_field flds)"

definition parse_rollback_request :: "string \<Rightarrow> (string + rollback_request) option" where
  "parse_rollback_request =
     parse_body rollback_field (None, None, None)
       (\<lambda>f. case f of
          (None, _) \<Rightarrow> Inl ''missing base_version''
        | (Some _, None, _) \<Rightarrow> Inl ''missing target_version''
        | (Some _, Some _, None) \<Rightarrow> Inl ''missing reason''
        | (Some b, Some v, Some r) \<Rightarrow> Inr \<lparr>rb_base_version = b, rb_target_version = v, rb_reason = r\<rparr>)"

definition repair_field :: "(int option \<times> string option) field_handler" where
  "repair_field key flds =
     (if key = ''version'' then
        take_field reader_int64 (\<lambda>v. v > 0) ''invalid version'' (\<lambda>v. (Some v, snd flds))
      else if key = ''reason'' then
        take_field parse_string (\<lambda>v. v \<noteq> []) ''reason is required'' (\<lambda>v. (fst flds, Some v))
      else skip_field flds)"

definition parse_repair_request :: "string \<Rightarrow> (string + repair_request) option" where
  "parse_repair_request =
     parse_body repair_field (None, None)
       (\<lambda>f. case f of
          (None, _) \<Rightarrow> Inl ''missing version''
        | (Some _, None) \<Rightarrow> Inl ''missing reason''
        | (Some v, Some r) \<Rightarrow> Inr \<lparr>rp_version = v, rp_reason = r\<rparr>)"

record orphan_fields =
  of_current :: "int option"
  of_target :: "int option"
  of_action :: "string option"
  of_reason :: "string option"
  of_confirmation :: "string option"

definition orphan_fields0 :: orphan_fields where
  "orphan_fields0 = \<lparr>of_current = None, of_target = None, of_action = None, of_reason = None, of_confirmation = None\<rparr>"

definition orphan_field :: "orphan_fields field_handler" where
  "orphan_field key f =
     (if key = ''current_version'' then
        take_field reader_int64 (\<lambda>v. v \<ge> 0) ''invalid current_version'' (\<lambda>v. f\<lparr>of_current := Some v\<rparr>)
      else if key = ''target_version'' then
        take_field reader_int64 (\<lambda>v. v > 0) ''invalid target_version'' (\<lambda>v. f\<lparr>of_target := Some v\<rparr>)
      else if key = ''action'' then
        take_field parse_string (\<lambda>v. v = ''restore-version'' \<or> v = ''delete-orphan'') ''invalid action''
          (\<lambda>v. f\<lparr>of_action := Some v\<rparr>)
      else if key = ''reason'' then
        take_field parse_string (\<lambda>v. v \<noteq> []) ''reason is required'' (\<lambda>v. f\<lparr>of_reason := Some v\<rparr>)
      else if key = ''confirmation'' then
        take_field parse_string (\<lambda>v. v \<noteq> []) ''confirmation is required'' (\<lambda>v. f\<lparr>of_confirmation := Some v\<rparr>)
      else skip_field f)"

definition expected_confirmation :: "string \<Rightarrow> string" where
  "expected_confirmation action =
     (if action = ''restore-version'' then ''RESTORE_VERSION_POINTER'' else ''DELETE_UNPUBLISHED_ORPHAN'')"

definition parse_orphan_request :: "string \<Rightarrow> (string + orphan_request) option" where
  "parse_orphan_request =
     parse_body orphan_field orphan_fields0
       (\<lambda>f. case (of_current f, of_target f, of_action f, of_reason f, of_confirmation f) of
          (Some c, Some t, Some a, Some r, Some k) \<Rightarrow>
            if k \<noteq> expected_confirmation a then Inl ''confirmation text does not match action''
            else Inr \<lparr>or_current_version = c, or_target_version = t, or_action = a, or_reason = r, or_confirmation = k\<rparr>
        | _ \<Rightarrow> Inl ''missing orphan resolution field'')"

section \<open>The reader always ends\<close>

definition handler_total :: "'a field_handler \<Rightarrow> bool" where
  "handler_total h \<longleftrightarrow> (\<forall>key f s. h key f s \<noteq> None \<and> (\<forall>f' r. h key f s = Some (Inr (f', r)) \<longrightarrow> length r < length s))"

lemma reader_int64_shorter: "reader_int64 s = Some (v, r) \<Longrightarrow> length r < length s"
proof -
  assume a: "reader_int64 s = Some (v, r)"
  define s1 where "s1 = skip_ws s"
  define sign where "sign = (case s1 of c # _ \<Rightarrow> if c = CHR ''-'' then [c] else [] | [] \<Rightarrow> [])"
  define k where "k = length (takeWhile isdigit (drop (length sign) s1))"
  have r: "takeWhile isdigit (drop (length sign) s1) \<noteq> []" "r = drop (length sign + k) s1"
    using a by (auto simp: reader_int64_def Let_def s1_def [symmetric] sign_def [symmetric] k_def [symmetric] split: if_splits)
  have "0 < k" "s1 \<noteq> []" using r(1) by (auto simp: k_def)
  then have "length r < length s1" using r(2) by simp
  then show ?thesis using length_skip_ws [of s] by (simp add: s1_def)
qed

lemma skip_field_total: "skip_field f s \<noteq> None" "skip_field f s = Some (Inr (f', r)) \<Longrightarrow> f' = f \<and> length r < length s"
  using skip_enough(1) [of s "skip_fuel s"] skip_shorter(1) [of "skip_fuel s" s]
  by (auto simp: skip_field_def skip_fuel_def split: option.splits)

lemma take_field_Some [simp]: "take_field parse ok msg put s \<noteq> None"
  by (simp add: take_field_def)

lemma take_field_parsed: "take_field parse ok msg put s = Some (Inr (f', r)) \<Longrightarrow> \<exists>v. parse s = Some (v, r) \<and> ok v \<and> f' = put v"
  by (auto simp: take_field_def split: option.splits if_splits)

lemma take_field_shorter:
  "take_field parse_string ok1 msg put1 s = Some (Inr (f', r)) \<Longrightarrow> length r < length s"
  "take_field reader_int64 ok2 msg put2 s = Some (Inr (f', r)) \<Longrightarrow> length r < length s"
proof -
  show "take_field parse_string ok1 msg put1 s = Some (Inr (f', r)) \<Longrightarrow> length r < length s"
    by (drule take_field_parsed) (elim exE conjE, erule parse_string_shorter)
  show "take_field reader_int64 ok2 msg put2 s = Some (Inr (f', r)) \<Longrightarrow> length r < length s"
    by (drule take_field_parsed) (elim exE conjE, erule reader_int64_shorter)
qed

lemma skip_field_shorter: "skip_field f s = Some (Inr (f', r)) \<Longrightarrow> length r < length s"
  by (rule conjunct2 [OF skip_field_total(2)])

lemmas field_shorter = take_field_shorter skip_field_shorter

lemma if_handler_total:
  "(h1 s \<noteq> None \<and> (\<forall>f' r. h1 s = Some (Inr (f', r)) \<longrightarrow> length r < length s)) \<Longrightarrow>
   (h2 s \<noteq> None \<and> (\<forall>f' r. h2 s = Some (Inr (f', r)) \<longrightarrow> length r < length s)) \<Longrightarrow>
   (if c then h1 else h2) s \<noteq> None \<and> (\<forall>f' r. (if c then h1 else h2) s = Some (Inr (f', r)) \<longrightarrow> length r < length s)"
  by simp

lemma object_loop_total:
  assumes "handler_total h"
  shows "length s < n \<Longrightarrow> object_loop n h f s \<noteq> None"
proof (induction n arbitrary: f s)
  case (Suc n)
  have next_ok: "object_loop n h f' r3 \<noteq> None"
    if "parse_string s = Some (key, r)" "consume (CHR '':'') r = Some r1" "h key f r1 = Some (Inr (f', r2))"
      "consume (CHR '','') r2 = Some r3" for key r r1 f' r2 r3
  proof -
    have "length r2 < length r1" using assms that(3) unfolding handler_total_def by blast
    then have "length r3 < length s"
      using consume_shorter [OF that(4)] consume_shorter [OF that(2)] parse_string_shorter [OF that(1)] by simp
    then show ?thesis using Suc.IH Suc.prems by simp
  qed
  have h: "h key f r1 = None \<Longrightarrow> False" for key r1 using assms unfolding handler_total_def by blast
  show ?case
    using next_ok by (auto dest: h split: option.split sum.split prod.split)
qed simp

lemma object_loopE:
  assumes "object_loop (Suc n) h f s = Some (Inr (f', r'))"
  obtains (close) "consume (CHR ''}'') s = Some r'" "f' = f"
  | (more) key r r1 f1 r2 r3 where "parse_string s = Some (key, r)" "consume (CHR '':'') r = Some r1"
      "h key f r1 = Some (Inr (f1, r2))" "consume (CHR '','') r2 = Some r3" "object_loop n h f1 r3 = Some (Inr (f', r'))"
  | (last) key r r1 r2 where "parse_string s = Some (key, r)" "consume (CHR '':'') r = Some r1"
      "h key f r1 = Some (Inr (f', r2))" "consume (CHR ''}'') r2 = Some r'"
  using assms by (simp split: option.splits sum.splits prod.splits)

lemma object_loop_shorter:
  assumes "handler_total h"
  shows "object_loop n h f s = Some (Inr (f', r')) \<Longrightarrow> length r' < length s"
proof (induction n arbitrary: f s)
  case (Suc n)
  have h: "h key f r1 = Some (Inr (f1, r2)) \<Longrightarrow> length r2 < length r1" for key f r1 f1 r2
    using assms unfolding handler_total_def by blast
  from Suc.prems show ?case
  proof (cases rule: object_loopE)
    case (more key r r1 f1 r2 r3)
    then show ?thesis
      using Suc.IH [OF more(5)] h [OF more(3)] consume_shorter [OF more(4)] consume_shorter [OF more(2)]
        parse_string_shorter [OF more(1)] by simp
  next
    case (last key r r1 r2)
    then show ?thesis
      using h [OF last(3)] consume_shorter [OF last(4)] consume_shorter [OF last(2)] parse_string_shorter [OF last(1)] by simp
  qed (simp add: consume_shorter)
qed simp

lemma object_loop_inv:
  assumes "\<And>key f s f' r. P f \<Longrightarrow> h key f s = Some (Inr (f', r)) \<Longrightarrow> P f'"
  shows "object_loop n h f s = Some (Inr (f', r')) \<Longrightarrow> P f \<Longrightarrow> P f'"
proof (induction n arbitrary: f s)
  case (Suc n)
  from Suc.prems(1) show ?case
  proof (cases rule: object_loopE)
    case (more key r r1 f1 r2 r3)
    then show ?thesis using Suc.IH [OF more(5)] assms [OF Suc.prems(2) more(3)] by simp
  next
    case (last key r r1 r2)
    then show ?thesis using assms [OF Suc.prems(2) last(3)] by simp
  qed (use Suc.prems(2) in simp)
qed simp

lemma parse_object_total: "handler_total h \<Longrightarrow> parse_object h f s \<noteq> None"
  using object_loop_total [of h] unfolding parse_object_def by (cases "consume (CHR ''{'') s") (auto simp del: object_loop.simps)

lemma parse_object_shorter: "handler_total h \<Longrightarrow> parse_object h f s = Some (Inr (f', r)) \<Longrightarrow> length r < length s"
  by (auto simp: parse_object_def simp del: object_loop.simps dest!: object_loop_shorter consume_shorter split: option.splits)

lemma parse_body_total: "handler_total h \<Longrightarrow> parse_body h f finish s \<noteq> None"
  using parse_object_total [of h f s] by (auto simp: parse_body_def split: option.splits sum.splits)

lemma file_field_total: "handler_total file_field"
  unfolding handler_total_def file_field_def
  by (intro allI if_handler_total) (use skip_field_total(1) in \<open>auto dest: field_shorter\<close>)

lemma parse_file_object_total: "parse_file_object s \<noteq> None"
  using parse_object_total [OF file_field_total, of "(None, None)" s]
  by (auto simp: parse_file_object_def split: option.splits sum.splits)

lemma parse_file_object_shorter: "parse_file_object s = Some (Some (f, r)) \<Longrightarrow> length r < length s"
  using parse_object_shorter [OF file_field_total, of "(None, None)" s]
  by (auto simp: parse_file_object_def split: option.splits sum.splits)

lemma files_loop_total: "length s < n \<Longrightarrow> files_loop n fs s \<noteq> None"
proof (induction n arbitrary: fs s)
  case (Suc n)
  have "files_loop n fs' r1 \<noteq> None"
    if "parse_file_object s = Some (Some (f, r))" "consume (CHR '','') r = Some r1" for f r r1 fs'
    using Suc.IH [of r1] Suc.prems parse_file_object_shorter [OF that(1)] consume_shorter [OF that(2)] by simp
  moreover have "parse_file_object s = None \<Longrightarrow> False" using parse_file_object_total by blast
  ultimately show ?case by (auto split: option.split prod.split)
qed simp

lemma files_loop_shorter: "files_loop n fs s = Some (Some (x, r')) \<Longrightarrow> length r' < length s"
proof (induction n arbitrary: fs s)
  case (Suc n)
  then consider "consume (CHR '']'') s = Some r'"
    | f r r1 where "parse_file_object s = Some (Some (f, r))" "consume (CHR '','') r = Some r1"
        "files_loop n (fs @ [f]) r1 = Some (Some (x, r'))"
    | f r where "parse_file_object s = Some (Some (f, r))" "consume (CHR '']'') r = Some r'"
    by (simp split: option.splits prod.splits)
  then show ?case
  proof cases
    case (2 f r r1)
    then show ?thesis
      using Suc.IH [OF 2(3)] parse_file_object_shorter [OF 2(1)] consume_shorter [OF 2(2)] by simp
  next
    case (3 f r)
    then show ?thesis using parse_file_object_shorter [OF 3(1)] consume_shorter [OF 3(2)] by simp
  qed (simp add: consume_shorter)
qed simp

lemma parse_files_array_total: "parse_files_array s \<noteq> None"
  using files_loop_total unfolding parse_files_array_def by (cases "consume (CHR ''['') s") (auto simp del: files_loop.simps)

lemma parse_files_array_shorter: "parse_files_array s = Some (Some (x, r)) \<Longrightarrow> length r < length s"
  by (auto simp: parse_files_array_def simp del: files_loop.simps dest!: files_loop_shorter consume_shorter split: option.splits)

lemma save_files_total:
  "save_field ''files'' f s \<noteq> None" "save_field ''files'' f s = Some (Inr (f', r)) \<Longrightarrow> length r < length s"
  using parse_files_array_total [of s] parse_files_array_shorter [of s]
  by (auto simp: save_field_def split: option.splits)

lemma handlers_total:
  "handler_total login_field" "handler_total save_field" "handler_total rollback_field" "handler_total repair_field"
  "handler_total orphan_field"
proof -
  show "handler_total login_field"
    unfolding handler_total_def login_field_def Let_def
    by (intro allI if_handler_total) (use skip_field_total(1) in \<open>auto dest: field_shorter\<close>)
  show "handler_total rollback_field"
    unfolding handler_total_def rollback_field_def Let_def
    by (intro allI if_handler_total) (use skip_field_total(1) in \<open>auto dest: field_shorter\<close>)
  show "handler_total repair_field"
    unfolding handler_total_def repair_field_def Let_def
    by (intro allI if_handler_total) (use skip_field_total(1) in \<open>auto dest: field_shorter\<close>)
  show "handler_total orphan_field"
    unfolding handler_total_def orphan_field_def Let_def
    by (intro allI if_handler_total) (use skip_field_total(1) in \<open>auto dest: field_shorter\<close>)
  have "save_field key f s \<noteq> None \<and> (\<forall>f' r. save_field key f s = Some (Inr (f', r)) \<longrightarrow> length r < length s)" for key f s
  proof (cases "key = ''files''")
    case False
    then show ?thesis
      unfolding save_field_def using skip_field_total(1) [of f s] by (auto dest: field_shorter)
  qed (use save_files_total in blast)
  then show "handler_total save_field" by (simp add: handler_total_def)
qed

section \<open>What an accepted request satisfies\<close>

lemma parse_body_inv:
  assumes "parse_body h f finish s = Some (Inr x)" and "P f"
    and "\<And>key f s f' r. P f \<Longrightarrow> h key f s = Some (Inr (f', r)) \<Longrightarrow> P f'"
  obtains f' where "P f'" "finish f' = Inr x"
proof -
  obtain f' r where p: "parse_object h f s = Some (Inr (f', r))" "finish f' = Inr x"
    using assms(1) by (auto simp: parse_body_def split: option.splits sum.splits if_splits)
  then obtain r0 where "object_loop (Suc (length r0)) h f r0 = Some (Inr (f', r))"
    unfolding parse_object_def by (cases "consume (CHR ''{'') s") (simp_all del: object_loop.simps)
  from assms(3) this assms(2) have "P f'" by (rule object_loop_inv)
  then show thesis using that p(2) by blast
qed

lemma if_handler_inv:
  "(if c then h1 else h2) s = Some (Inr (f', r)) \<Longrightarrow> (h1 s = Some (Inr (f', r)) \<Longrightarrow> P) \<Longrightarrow> (h2 s = Some (Inr (f', r)) \<Longrightarrow> P) \<Longrightarrow> P"
  by (auto split: if_splits)

definition login_ok :: "string option \<Rightarrow> bool" where
  "login_ok x \<longleftrightarrow> (\<forall>v. x = Some v \<longrightarrow> v \<noteq> [] \<and> length v \<le> kMaxLoginFieldBytes)"

lemma login_accepted:
  assumes "parse_login_request b = Some (Inr r)"
  shows "lo_username r \<noteq> [] \<and> length (lo_username r) \<le> 256 \<and> lo_password r \<noteq> [] \<and> length (lo_password r) \<le> 256"
  using assms unfolding parse_login_request_def
proof (rule parse_body_inv [where P = "\<lambda>f. login_ok (fst f) \<and> login_ok (snd f)"])
  fix key f s f' rest
  assume ok: "login_ok (fst f) \<and> login_ok (snd f)" and h: "login_field key f s = Some (Inr (f', rest))"
  show "login_ok (fst f') \<and> login_ok (snd f')"
    using h unfolding login_field_def Let_def
    by (elim if_handler_inv) (use ok in \<open>auto simp: login_ok_def dest!: take_field_parsed skip_field_total(2)\<close>)
qed (auto simp: login_ok_def kMaxLoginFieldBytes_def split: prod.splits option.splits)

lemma rollback_accepted:
  assumes "parse_rollback_request b = Some (Inr r)"
  shows "0 \<le> rb_base_version r \<and> 0 < rb_target_version r \<and> rb_reason r \<noteq> []"
  using assms unfolding parse_rollback_request_def
proof (rule parse_body_inv [where P = "\<lambda>(b, v, reason). (\<forall>x. b = Some x \<longrightarrow> 0 \<le> x) \<and> (\<forall>x. v = Some x \<longrightarrow> 0 < x) \<and> reason \<noteq> Some []"])
  fix key f s f' rest
  assume ok: "case f of (b, v, reason) \<Rightarrow> (\<forall>x. b = Some x \<longrightarrow> 0 \<le> x) \<and> (\<forall>x. v = Some x \<longrightarrow> 0 < x) \<and> reason \<noteq> Some []"
    and h: "rollback_field key f s = Some (Inr (f', rest))"
  show "case f' of (b, v, reason) \<Rightarrow> (\<forall>x. b = Some x \<longrightarrow> 0 \<le> x) \<and> (\<forall>x. v = Some x \<longrightarrow> 0 < x) \<and> reason \<noteq> Some []"
    using h unfolding rollback_field_def
    by (elim if_handler_inv) (use ok in \<open>auto dest!: take_field_parsed skip_field_total(2)\<close>)
qed (auto split: prod.splits option.splits)

lemma repair_accepted:
  assumes "parse_repair_request b = Some (Inr r)"
  shows "0 < rp_version r \<and> rp_reason r \<noteq> []"
  using assms unfolding parse_repair_request_def
proof (rule parse_body_inv [where P = "\<lambda>(v, reason). (\<forall>x. v = Some x \<longrightarrow> 0 < x) \<and> reason \<noteq> Some []"])
  fix key f s f' rest
  assume ok: "case f of (v, reason) \<Rightarrow> (\<forall>x. v = Some x \<longrightarrow> 0 < x) \<and> reason \<noteq> Some []"
    and h: "repair_field key f s = Some (Inr (f', rest))"
  show "case f' of (v, reason) \<Rightarrow> (\<forall>x. v = Some x \<longrightarrow> 0 < x) \<and> reason \<noteq> Some []"
    using h unfolding repair_field_def
    by (elim if_handler_inv) (use ok in \<open>auto dest!: take_field_parsed skip_field_total(2)\<close>)
qed (auto split: prod.splits option.splits)

definition orphan_ok :: "orphan_fields \<Rightarrow> bool" where
  "orphan_ok f \<longleftrightarrow> (\<forall>x. of_current f = Some x \<longrightarrow> 0 \<le> x) \<and> (\<forall>x. of_target f = Some x \<longrightarrow> 0 < x) \<and>
     (\<forall>x. of_action f = Some x \<longrightarrow> x = ''restore-version'' \<or> x = ''delete-orphan'') \<and> of_reason f \<noteq> Some []"

lemma orphan_accepted:
  assumes "parse_orphan_request b = Some (Inr r)"
  shows "0 \<le> or_current_version r \<and> 0 < or_target_version r \<and> or_reason r \<noteq> [] \<and>
    (or_action r = ''restore-version'' \<and> or_confirmation r = ''RESTORE_VERSION_POINTER'' \<or>
     or_action r = ''delete-orphan'' \<and> or_confirmation r = ''DELETE_UNPUBLISHED_ORPHAN'')"
  using assms unfolding parse_orphan_request_def
proof (rule parse_body_inv [where P = orphan_ok])
  fix key f s f' rest
  assume ok: "orphan_ok f" and h: "orphan_field key f s = Some (Inr (f', rest))"
  show "orphan_ok f'"
    using h unfolding orphan_field_def
    by (elim if_handler_inv) (use ok in \<open>auto simp: orphan_ok_def dest!: take_field_parsed skip_field_total(2)\<close>)
qed (auto simp: orphan_ok_def orphan_fields0_def expected_confirmation_def split: option.splits if_splits)

lemma save_accepted:
  assumes "parse_save_request b = Some (Inr r)"
  shows "0 \<le> sv_base_version r"
  using assms unfolding parse_save_request_def
proof (rule parse_body_inv [where P = "\<lambda>f. \<forall>x. fst f = Some x \<longrightarrow> 0 \<le> x"])
  fix key f s f' rest
  assume ok: "\<forall>x. fst f = Some x \<longrightarrow> 0 \<le> x" and h: "save_field key f s = Some (Inr (f', rest))"
  show "\<forall>x. fst f' = Some x \<longrightarrow> 0 \<le> x"
  proof (cases "key = ''files''")
    case True
    then show ?thesis using h ok by (auto simp: save_field_def split: option.splits)
  next
    case False
    then show ?thesis
      using h ok unfolding save_field_def by (auto dest!: take_field_parsed skip_field_total(2) split: if_splits)
  qed
qed (auto split: prod.splits option.splits)

lemma accepted_case:
  "r \<noteq> None \<Longrightarrow> (\<And>x. r = Some (Inr x) \<Longrightarrow> Q x) \<Longrightarrow> (case r of None \<Rightarrow> False | Some (Inl e) \<Rightarrow> True | Some (Inr x) \<Rightarrow> Q x)"
  by (cases r) (auto split: sum.split)


section \<open>Reading back what a client writes\<close>

definition json_str :: "string \<Rightarrow> string" where
  "json_str s = [DQUOTE] @ json_escape s @ [DQUOTE]"

definition file_json :: "managed_file \<Rightarrow> string" where
  "file_json f = ''{'' @ json_str ''name'' @ '':'' @ json_str (mf_name f) @ '','' @
     json_str ''content'' @ '':'' @ json_str (mf_content f) @ ''}''"

fun files_json_list :: "managed_file list \<Rightarrow> string" where
  "files_json_list [] = '']''"
| "files_json_list [f] = file_json f @ '']''"
| "files_json_list (f # g # fs) = file_json f @ '','' @ files_json_list (g # fs)"

definition save_json :: "save_request \<Rightarrow> string" where
  "save_json r = ''{'' @ json_str ''base_version'' @ '':'' @ dec_of_int (sv_base_version r) @ '','' @
     json_str ''reason'' @ '':'' @ json_str (sv_reason r) @ '','' @ json_str ''files'' @ '':['' @ files_json_list (sv_files r) @ ''}''"

lemma string_rest_escape_char:
  "string_rest (json_escape_char c @ cs) = map_option (apfst ((#) c)) (string_rest cs)"
proof -
  have h: "json_hex (hex_low (code c div 16)) = Some (code c div 16)" if "code c < 32"
    using that by (simp add: json_hex_hex_low)
  have m: "json_hex (hex_low (code c mod 16)) = Some (code c mod 16)" by (simp add: json_hex_hex_low)
  have z: "json_hex (CHR ''0'') = Some 0" by (simp add: json_hex_def isdigit_def)
  have u: "append_utf8 (code c div 16 * 16 + code c mod 16) = [c]" if "code c < 32"
    using that by (simp add: append_utf8_def)
  have s: "apfst ((@) [c]) = apfst ((#) c)" by (simp add: fun_eq_iff)
  have k: "char_of (8::nat) = CHR 0x08" "char_of (12::nat) = CHR 0x0C" "char_of (9::nat) = CHR 0x09"
    by (simp_all add: char_of_eq_iff)
  show ?thesis
    using h u by (auto simp: json_escape_char_def simple_escape_def k m z s DQUOTE_def BACKSLASH_def LF_def CR_def)
qed

lemma string_rest_escape: "string_rest (json_escape s @ DQUOTE # tail) = Some (s, tail)"
proof (induction s)
  case Nil
  show ?case by (simp add: json_escape_def)
next
  case (Cons c s)
  have "json_escape (c # s) = json_escape_char c @ json_escape s" by (simp add: json_escape_def)
  then show ?case using Cons by (simp add: string_rest_escape_char del: string_rest.simps)
qed

lemma parse_string_json_str: "parse_string (json_str s @ tail) = Some (s, tail)"
proof -
  have "\<not> isspace DQUOTE" by (simp add: isspace_def DQUOTE_def)
  then show ?thesis by (simp add: parse_string_def json_str_def skip_ws_def string_rest_escape del: string_rest.simps)
qed

lemma consume_here: "\<not> isspace c \<Longrightarrow> consume d (c # tail) = (if c = d then Some tail else None)"
  by (simp add: consume_def skip_ws_def)

lemma consume_json_str: "d \<noteq> DQUOTE \<Longrightarrow> consume d (json_str s @ tail) = None"
  by (simp add: json_str_def consume_def skip_ws_def isspace_def DQUOTE_def)

lemma not_space_punct:
  "\<not> isspace (CHR ''{'')" "\<not> isspace (CHR ''}'')" "\<not> isspace (CHR '':'')" "\<not> isspace (CHR '','')" "\<not> isspace (CHR ''['')"
  "\<not> isspace (CHR '']'')"
  by (simp_all add: isspace_def)

lemma object_loop_field:
  assumes "h key f t = Some (Inr (f', CHR '','' # r))"
  shows "object_loop (Suc n) h f (json_str key @ CHR '':'' # t) = object_loop n h f' r"
  using assms
  by (simp add: consume_json_str parse_string_json_str consume_here not_space_punct DQUOTE_def)

lemma object_loop_last:
  assumes "h key f t = Some (Inr (f', CHR ''}'' # r))"
  shows "object_loop (Suc n) h f (json_str key @ CHR '':'' # t) = Some (Inr (f', r))"
  using assms
  by (simp add: consume_json_str parse_string_json_str consume_here not_space_punct DQUOTE_def)

lemma take_field_str: "take_field parse_string (\<lambda>_. True) msg put (json_str v @ r) = Some (Inr (put v, r))"
  by (simp add: take_field_def parse_string_json_str)

lemma parse_file_json: "parse_file_object (file_json f @ tail) = Some (Some (f, tail))"
proof -
  let ?t2 = "json_str ''content'' @ CHR '':'' # json_str (mf_content f) @ CHR ''}'' # tail"
  let ?t1 = "json_str ''name'' @ CHR '':'' # json_str (mf_name f) @ CHR '','' # ?t2"
  obtain m where m: "length ?t1 = Suc m" by (simp add: json_str_def)
  have 1: "object_loop (Suc (Suc m)) file_field (None, None) ?t1 = object_loop (Suc m) file_field (Some (mf_name f), None) ?t2"
    by (rule object_loop_field) (simp add: file_field_def take_field_str)
  have 2: "object_loop (Suc m) file_field (Some (mf_name f), None) ?t2 = Some (Inr ((Some (mf_name f), Some (mf_content f)), tail))"
    by (rule object_loop_last) (simp add: file_field_def take_field_str)
  have "file_json f @ tail = CHR ''{'' # ?t1" by (simp add: file_json_def)
  then have "parse_object file_field (None, None) (file_json f @ tail) =
      Some (Inr ((Some (mf_name f), Some (mf_content f)), tail))"
    using m 1 2 by (simp add: parse_object_def consume_here not_space_punct del: object_loop.simps)
  then show ?thesis by (simp add: parse_file_object_def)
qed

lemma consume_file_json: "d \<noteq> CHR ''{'' \<Longrightarrow> consume d (file_json f @ tail) = None"
  by (simp add: file_json_def consume_here not_space_punct)

lemma files_loop_json:
  "length fs < n \<Longrightarrow> files_loop n acc (files_json_list fs @ tail) = Some (Some (acc @ fs, tail))"
proof (induction fs arbitrary: n acc rule: files_json_list.induct)
  case 1
  then obtain m where "n = Suc m" by (cases n) auto
  then show ?case by (simp add: consume_here not_space_punct)
next
  case (2 f)
  then obtain m where "n = Suc m" by (cases n) auto
  then show ?case by (simp add: consume_file_json parse_file_json consume_here not_space_punct)
next
  case (3 f g fs)
  then obtain m where "n = Suc m" "length (g # fs) < m" by (cases n) auto
  then show ?case using 3(1) [of m "acc @ [f]"] by (simp add: consume_file_json parse_file_json consume_here not_space_punct)
qed

lemma files_json_list_length: "length fs \<le> length (files_json_list fs)"
  by (induction fs rule: files_json_list.induct) (auto simp: file_json_def)

lemma parse_files_json: "parse_files_array (CHR ''['' # files_json_list fs @ tail) = Some (Some (fs, tail))"
  using files_loop_json [of fs "Suc (length (files_json_list fs @ tail))" "[]"] files_json_list_length [of fs]
  by (simp add: parse_files_array_def consume_here not_space_punct del: files_loop.simps)

lemma reader_int64_dec:
  assumes "0 \<le> v" and "v < 2 ^ 63"
  shows "reader_int64 (dec_of_int v @ CHR '','' # tail) = Some (v, CHR '','' # tail)"
proof -
  obtain n where v: "v = int n" using assms(1) nonneg_int_cases by blast
  let ?d = "dec_of_nat n"
  have d: "\<forall>c \<in> set ?d. isdigit c" by (rule dec_of_nat_digits)
  then have hd: "isdigit (hd ?d)" by simp
  then have ns: "\<not> isspace (hd ?d)" "hd ?d \<noteq> CHR ''-''" by (auto simp: isdigit_not_isspace isdigit_def)
  obtain c cs where c: "?d = c # cs" by (cases ?d) auto
  have ws: "skip_ws (?d @ CHR '','' # tail) = ?d @ CHR '','' # tail" using ns c by (simp add: skip_ws_def)
  have t: "takeWhile isdigit (?d @ CHR '','' # tail) = ?d" using d by (simp add: takeWhile_append2 isdigit_def [of "CHR '',''"])
  have f: "from_chars_int64 ?d = Some v"
    using assms d ns(2) v by (simp add: from_chars_int64_def Let_def list_all_iff)
  have s: "(case ?d @ CHR '','' # tail of [] \<Rightarrow> [] | c # _ \<Rightarrow> if c = CHR ''-'' then [c] else []) = []"
    using ns(2) c by simp
  show ?thesis
    unfolding reader_int64_def Let_def using v ws t f s by (simp add: dec_of_int_def)
qed

text \<open>
  A save request written with the escapes of the gateway's own JSON writer is read back exactly: the version, the reason
  and every file name and content, whatever bytes they hold, in their order.
\<close>

lemma save_request_roundtrip:
  assumes "0 \<le> sv_base_version r" and "sv_base_version r < 2 ^ 63"
  shows "parse_save_request (save_json r) = Some (Inr r)"
proof -
  let ?v = "sv_base_version r" and ?fs = "sv_files r"
  let ?t3 = "json_str ''files'' @ CHR '':'' # CHR ''['' # files_json_list ?fs @ ''}''"
  let ?t2 = "json_str ''reason'' @ CHR '':'' # json_str (sv_reason r) @ CHR '','' # ?t3"
  let ?t1 = "json_str ''base_version'' @ CHR '':'' # dec_of_int ?v @ CHR '','' # ?t2"
  obtain m where m: "length ?t1 = Suc (Suc m)" by (simp add: json_str_def)
  have 1: "object_loop (Suc (Suc (Suc m))) save_field (None, [], None) ?t1 =
      object_loop (Suc (Suc m)) save_field (Some ?v, [], None) ?t2"
    by (rule object_loop_field) (use reader_int64_dec [OF assms] assms(1) in \<open>simp add: save_field_def take_field_def\<close>)
  have 2: "object_loop (Suc (Suc m)) save_field (Some ?v, [], None) ?t2 =
      object_loop (Suc m) save_field (Some ?v, sv_reason r, None) ?t3"
    by (rule object_loop_field) (simp add: save_field_def take_field_str)
  have 3: "object_loop (Suc m) save_field (Some ?v, sv_reason r, None) ?t3 =
      Some (Inr ((Some ?v, sv_reason r, Some ?fs), []))"
    by (rule object_loop_last) (simp add: save_field_def parse_files_json)
  have "save_json r = CHR ''{'' # ?t1" by (simp add: save_json_def)
  then have "parse_object save_field (None, [], None) (save_json r) = Some (Inr ((Some ?v, sv_reason r, Some ?fs), []))"
    using m 1 2 3 by (simp add: parse_object_def consume_here not_space_punct del: object_loop.simps)
  then show ?thesis by (simp add: parse_save_request_def parse_body_def skip_ws_def)
qed

text \<open>
  \<^verbatim>\<open>skip_value\<close> calls itself for every opening bracket: a value of \<open>k\<close> brackets is not decided by calls that nest
  less than twice \<open>k\<close> deep, and nothing in the reader bounds \<open>k\<close> below the size of the body.
\<close>

lemma nested_arrays_need_depth: "n \<le> 2 * k \<Longrightarrow> skip_value n (replicate (Suc k) (CHR ''['')) = None"
proof (induction k arbitrary: n)
  case (Suc k)
  have sp: "skip_ws (CHR ''['' # xs) = CHR ''['' # xs" for xs by (simp add: skip_ws_def not_space_punct)
  have c: "consume (CHR '']'') (CHR ''['' # xs) = None" for xs by (simp add: consume_here not_space_punct)
  show ?case
  proof (cases n)
    case (Suc n1)
    then show ?thesis
      using Suc.IH [of "n1 - 1"] Suc.prems by (cases n1) (simp_all add: sp c DQUOTE_def)
  qed simp
qed simp

end
