(* ===== verification/Admin_Auth.thy ===== *)
theory Admin_Auth
  imports Admin_Json App_Config Jwt_Auth Response
begin

text \<open>
  The credentials of the administration, \<^verbatim>\<open>src/app/admin/config_admin_auth.cpp\<close>: base64url, the stored form of a
  password and its verification, the key files, and the tokens that are issued and checked. PBKDF2, SHA-256 and the RSA signature
  of OpenSSL are the parameter \<open>cr\<close>, the token decoder the parameter \<open>lib\<close> of \<open>Jwt_Auth\<close>; a failing
  call is \<open>None\<close>. A byte of a \<^verbatim>\<open>std::vector<unsigned char>\<close> is a character.
\<close>

section \<open>base64url\<close>

definition alphabet :: string where
  "alphabet = ''ABCDEFGHIJKLMNOPQRSTUVWXYZabcdefghijklmnopqrstuvwxyz0123456789-_''"

text \<open>\<^verbatim>\<open>bits\<close> is a 32-bit register; shifting left drops what leaves it.\<close>

definition shl_or :: "nat \<Rightarrow> nat \<Rightarrow> nat \<Rightarrow> nat" where
  "shl_or bits k v = (bits * 2 ^ k + v) mod 2 ^ 32"

fun emit_sextets :: "nat \<Rightarrow> nat \<Rightarrow> string \<times> nat" where
  "emit_sextets bits bit_count =
     (if bit_count \<ge> 6
      then apfst ((#) (alphabet ! (bits div 2 ^ (bit_count - 6) mod 64))) (emit_sextets bits (bit_count - 6))
      else ([], bit_count))"

declare emit_sextets.simps [simp del]

fun encode_loop :: "nat \<Rightarrow> nat \<Rightarrow> string \<Rightarrow> string" where
  "encode_loop bits bit_count [] =
     (if bit_count > 0 then [alphabet ! (bits * 2 ^ (6 - bit_count) mod 2 ^ 32 mod 64)] else [])"
| "encode_loop bits bit_count (b # bs) =
     (let bits' = shl_or bits 8 (code b);
          (out, bit_count') = emit_sextets bits' (bit_count + 8)
      in out @ encode_loop bits' bit_count' bs)"

definition base64url_encode :: "string \<Rightarrow> string" where
  "base64url_encode data = encode_loop 0 0 data"

definition sextet_of :: "char \<Rightarrow> nat option" where
  "sextet_of c =
     (if CHR ''A'' \<le> c \<and> c \<le> CHR ''Z'' then Some (code c - code (CHR ''A''))
      else if CHR ''a'' \<le> c \<and> c \<le> CHR ''z'' then Some (code c - code (CHR ''a'') + 26)
      else if CHR ''0'' \<le> c \<and> c \<le> CHR ''9'' then Some (code c - code (CHR ''0'') + 52)
      else if c = CHR ''-'' then Some 62
      else if c = CHR ''_'' then Some 63
      else None)"

fun decode_loop :: "nat \<Rightarrow> nat \<Rightarrow> string \<Rightarrow> string option" where
  "decode_loop bits bit_count [] = Some []"
| "decode_loop bits bit_count (c # cs) =
     (if c = CHR ''='' then Some []
      else
        (case sextet_of c of
           None \<Rightarrow> None
         | Some v \<Rightarrow>
             let bits' = shl_or bits 6 v in
             if bit_count + 6 \<ge> 8
             then map_option ((#) (char_of (bits' div 2 ^ (bit_count + 6 - 8) mod 256)))
                    (decode_loop bits' (bit_count + 6 - 8) cs)
             else decode_loop bits' (bit_count + 6) cs))"

definition base64url_decode :: "string \<Rightarrow> string option" where
  "base64url_decode input = decode_loop 0 0 input"

subsection \<open>Round trip\<close>

text \<open>Only the low \<open>bit_count\<close> bits of the register are ever read again.\<close>

lemma shl_or_mod: "k + n \<le> 32 \<Longrightarrow> v < 2 ^ k \<Longrightarrow> shl_or bits k v mod 2 ^ (n + k) = bits mod 2 ^ n * 2 ^ k + v"
proof -
  assume a: "k + n \<le> 32" "v < 2 ^ k"
  have "shl_or bits k v mod 2 ^ (n + k) = (bits * 2 ^ k + v) mod 2 ^ (n + k)"
    unfolding shl_or_def by (rule mod_mod_cancel, rule le_imp_power_dvd) (use a in simp)
  also have "\<dots> = bits mod 2 ^ n * 2 ^ k + v"
  proof -
    have "(bits * 2 ^ k + v) mod (2 ^ n * 2 ^ k) = 2 ^ k * ((bits * 2 ^ k + v) div 2 ^ k mod 2 ^ n) + (bits * 2 ^ k + v) mod 2 ^ k"
      by (subst mult.commute [of "2 ^ n"], subst mod_mult2_eq) simp
    with a show ?thesis by (simp add: power_add mult.commute)
  qed
  finally show ?thesis .
qed

lemma field_mod: "(x::nat) div 2 ^ k mod 2 ^ j = x mod 2 ^ (k + j) div 2 ^ k"
  by (simp only: take_bit_drop_bit add.commute [of k] flip: take_bit_eq_mod drop_bit_eq_div)

lemma mod_power_mono: "m \<le> n \<Longrightarrow> (x::nat) mod 2 ^ n = y mod 2 ^ n \<Longrightarrow> x mod 2 ^ m = y mod 2 ^ m"
  by (metis le_imp_power_dvd mod_mod_cancel)

lemma low_field: "k + j \<le> n \<Longrightarrow> (x::nat) mod 2 ^ n div 2 ^ k mod 2 ^ j = x div 2 ^ k mod 2 ^ j"
  unfolding field_mod by (simp add: mod_mod_cancel le_imp_power_dvd)

lemma emit_sextets_cong:
  "x mod 2 ^ n = y mod 2 ^ n \<Longrightarrow> emit_sextets x n = emit_sextets y n"
proof (induction x n rule: emit_sextets.induct)
  case (1 x n)
  show ?case
  proof (cases "n \<ge> 6")
    case True
    have "x div 2 ^ (n - 6) mod 2 ^ 6 = y div 2 ^ (n - 6) mod 2 ^ 6"
      using True 1(2) unfolding field_mod by simp
    moreover have "x mod 2 ^ (n - 6) = y mod 2 ^ (n - 6)"
      using 1(2) by (rule mod_power_mono [rotated]) simp
    ultimately show ?thesis using 1(1) True by (simp add: emit_sextets.simps [of _ n])
  qed (simp add: emit_sextets.simps [of _ n])
qed

lemma emit_sextets_count: "snd (emit_sextets x n) = n mod 6"
  by (induction x n rule: emit_sextets.induct)
    (subst emit_sextets.simps, simp add: le_mod_geq)

lemma encode_loop_cong:
  "n < 6 \<Longrightarrow> x mod 2 ^ n = y mod 2 ^ n \<Longrightarrow> encode_loop x n bs = encode_loop y n bs"
proof (induction bs arbitrary: x y n)
  case Nil
  have "x * 2 ^ (6 - n) mod 2 ^ 6 = y * 2 ^ (6 - n) mod 2 ^ 6"
    using Nil by (metis le_add_diff_inverse less_imp_le mod_mult_mult2 power_add)
  then have "x * 2 ^ (6 - n) mod 2 ^ 32 mod 2 ^ 6 = y * 2 ^ (6 - n) mod 2 ^ 32 mod 2 ^ 6"
    by (simp add: mod_mod_cancel)
  then show ?case by simp
next
  case (Cons b bs)
  have "shl_or x 8 (code b) mod 2 ^ (n + 8) = shl_or y 8 (code b) mod 2 ^ (n + 8)"
    using Cons.prems by (simp add: shl_or_mod)
  then have e: "emit_sextets (shl_or x 8 (code b)) (n + 8) = emit_sextets (shl_or y 8 (code b)) (n + 8)"
    and m: "shl_or x 8 (code b) mod 2 ^ ((n + 8) mod 6) = shl_or y 8 (code b) mod 2 ^ ((n + 8) mod 6)"
    by (rule emit_sextets_cong, rule mod_power_mono [rotated]) simp
  have "encode_loop (shl_or x 8 (code b)) ((n + 8) mod 6) bs = encode_loop (shl_or y 8 (code b)) ((n + 8) mod 6) bs"
    by (rule Cons.IH [OF _ m]) simp
  then show ?case
    using e emit_sextets_count [of "shl_or y 8 (code b)" "n + 8"]
    by (cases "emit_sextets (shl_or y 8 (code b)) (n + 8)") (simp add: Let_def)
qed

lemma decode_loop_cong:
  "n < 8 \<Longrightarrow> x mod 2 ^ n = y mod 2 ^ n \<Longrightarrow> decode_loop x n cs = decode_loop y n cs"
proof (induction cs arbitrary: x y n)
  case (Cons c cs)
  have step: "decode_loop (shl_or x 6 v) m cs = decode_loop (shl_or y 6 v) m cs"
    if "m < 8" "m \<le> n + 6" "v < 64" for m v
  proof (rule Cons.IH [OF that(1)])
    have "shl_or x 6 v mod 2 ^ (n + 6) = shl_or y 6 v mod 2 ^ (n + 6)"
      using Cons.prems that by (simp add: shl_or_mod)
    then show "shl_or x 6 v mod 2 ^ m = shl_or y 6 v mod 2 ^ m"
      by (rule mod_power_mono [OF that(2)])
  qed
  have out: "shl_or x 6 v div 2 ^ (n - 2) mod 256 = shl_or y 6 v div 2 ^ (n - 2) mod 256" if "n \<ge> 2" "v < 64" for v
    using field_mod [of _ "n - 2" 8] that Cons.prems shl_or_mod [of 6 n v] by (simp add: add.commute [of 6 n])
  have v: "v < 64" if "sextet_of c = Some v" for v
    using that by (auto simp: sextet_of_def less_eq_char_def split: if_splits)
  have out': "(char_of (shl_or x 6 v div 2 ^ (n - 2)) :: char) = char_of (shl_or y 6 v div 2 ^ (n - 2))"
    if "n \<ge> 2" "v < 64" for v
    using arg_cong [OF out [OF that], of "char_of :: nat \<Rightarrow> char"] by simp
  show ?case
    using Cons.prems by (auto simp: Let_def step out' dest!: v split: option.split)
qed simp

lemma alphabet_sextet: "i < 64 \<Longrightarrow> sextet_of (alphabet ! i) = Some i \<and> alphabet ! i \<noteq> CHR ''='' \<and> alphabet ! i \<noteq> CHR ''$''"
proof -
  assume i: "i < 64"
  have len: "length alphabet = 64" by (simp add: alphabet_def)
  have "map sextet_of alphabet = map Some [0..<64]"
    by (simp add: alphabet_def sextet_of_def less_eq_char_def upt_rec)
  from arg_cong [OF this, of "\<lambda>xs. xs ! i"] have "sextet_of (alphabet ! i) = Some i" using i len by simp
  moreover have "CHR ''='' \<notin> set alphabet" "CHR ''$'' \<notin> set alphabet" by (simp_all add: alphabet_def)
  ultimately show ?thesis using i len nth_mem [of i alphabet] by metis
qed

text \<open>The loops as machines with three and four states.\<close>

lemma encode_steps:
  "encode_loop x 0 (a # r) = alphabet ! (code a div 4) # encode_loop (code a) 2 r"
  "encode_loop x 2 (a # r) = alphabet ! (x mod 4 * 16 + code a div 16) # encode_loop (code a) 4 r"
  "encode_loop x 4 (a # r) =
     alphabet ! (x mod 16 * 4 + code a div 64) # alphabet ! (code a mod 64) # encode_loop 0 0 r"
proof -
  have a: "code a < 256" by simp
  have small: "code a mod 4294967296 = code a" "code a div 4 mod 64 = code a div 4"
    by (rule mod_less, use a in linarith)+
  have "encode_loop x 0 (a # r) = encode_loop 0 0 (a # r)"
    and "encode_loop x 2 (a # r) = encode_loop (x mod 4) 2 (a # r)"
    and "encode_loop x 4 (a # r) = encode_loop (x mod 16) 4 (a # r)"
    by (rule encode_loop_cong; simp)+
  moreover have "encode_loop 0 0 (a # r) = alphabet ! (code a div 4) # encode_loop (code a) 2 r"
    unfolding encode_loop.simps shl_or_def Let_def using small by (simp add: emit_sextets.simps)
  moreover have "encode_loop p 2 (a # r) = alphabet ! (p * 16 + code a div 16) # encode_loop (code a) 4 r" if "p < 4" for p
  proof -
    have "p * 256 + code a < 1024" using a that by linarith
    moreover from this have "(p * 256 + code a) div 16 mod 64 = p * 16 + code a div 16"
    proof -
      have "(p * 256 + code a) div 16 = p * 16 + code a div 16" by linarith
      moreover have "p * 16 + code a div 16 < 64" using a that by linarith
      ultimately show ?thesis by simp
    qed
    moreover have "encode_loop (p * 256 + code a) 4 r = encode_loop (code a) 4 r"
      by (rule encode_loop_cong) (use mod_mult_self3 [of "p * 16" 16 "code a"] in \<open>simp_all add: mult.commute [of p]\<close>)
    ultimately show ?thesis by (simp add: shl_or_def emit_sextets.simps Let_def)
  qed
  moreover have "encode_loop p 4 (a # r) =
     alphabet ! (p * 4 + code a div 64) # alphabet ! (code a mod 64) # encode_loop 0 0 r" if "p < 16" for p
  proof -
    have "p * 256 + code a < 4096" using a that by linarith
    moreover from this have "(p * 256 + code a) div 64 mod 64 = p * 4 + code a div 64"
    proof -
      have "(p * 256 + code a) div 64 = p * 4 + code a div 64" by linarith
      moreover have "p * 4 + code a div 64 < 64" using a that by linarith
      ultimately show ?thesis by simp
    qed
    moreover have "(p * 256 + code a) mod 64 = code a mod 64"
      using mod_mult_self3 [of "p * 4" 64 "code a"] by (simp add: mult.commute [of p])
    moreover have "encode_loop (p * 256 + code a) 0 r = encode_loop 0 0 r" by (rule encode_loop_cong) simp_all
    ultimately show ?thesis by (simp add: shl_or_def emit_sextets.simps Let_def)
  qed
  ultimately show
    "encode_loop x 0 (a # r) = alphabet ! (code a div 4) # encode_loop (code a) 2 r"
    "encode_loop x 2 (a # r) = alphabet ! (x mod 4 * 16 + code a div 16) # encode_loop (code a) 4 r"
    "encode_loop x 4 (a # r) =
       alphabet ! (x mod 16 * 4 + code a div 64) # alphabet ! (code a mod 64) # encode_loop 0 0 r"
    by simp_all
qed

lemma decode_steps:
  assumes i: "i < 64"
  shows "decode_loop x 0 (alphabet ! i # r) = decode_loop i 6 r"
    and "decode_loop x 6 (alphabet ! i # r) = map_option ((#) (char_of (x mod 64 * 4 + i div 16))) (decode_loop i 4 r)"
    and "decode_loop x 4 (alphabet ! i # r) = map_option ((#) (char_of (x mod 16 * 16 + i div 4))) (decode_loop i 2 r)"
    and "decode_loop x 2 (alphabet ! i # r) = map_option ((#) (char_of (x mod 4 * 64 + i))) (decode_loop 0 0 r)"
proof -
  note s = alphabet_sextet [OF i]
  have low: "decode_loop (p * 64 + i) n r = decode_loop i n r" if "n \<le> 6" for p n
  proof (rule decode_loop_cong)
    have "(2::nat) ^ n dvd 64" using that le_imp_power_dvd [of n 6 2] by simp
    then show "(p * 64 + i) mod 2 ^ n = i mod 2 ^ n" by (metis dvd_mult mod_add_left_eq add_0 dvd_imp_mod_0)
  qed (use that in simp)
  have d: "(p * 64 + i) div 16 = p * 4 + i div 16" "(p * 64 + i) div 4 = p * 16 + i div 4" for p by presburger+
  have "decode_loop x 0 (alphabet ! i # r) = decode_loop 0 0 (alphabet ! i # r)"
    and "decode_loop x 6 (alphabet ! i # r) = decode_loop (x mod 64) 6 (alphabet ! i # r)"
    and "decode_loop x 4 (alphabet ! i # r) = decode_loop (x mod 16) 4 (alphabet ! i # r)"
    and "decode_loop x 2 (alphabet ! i # r) = decode_loop (x mod 4) 2 (alphabet ! i # r)"
    by (rule decode_loop_cong; simp)+
  moreover have "decode_loop 0 0 (alphabet ! i # r) = decode_loop i 6 r"
    using s i by (simp add: shl_or_def)
  moreover have "decode_loop p 6 (alphabet ! i # r) = map_option ((#) (char_of (p * 4 + i div 16))) (decode_loop i 4 r)"
    if "p < 64" for p
    using s i that low [of 4 p] d(1) [of p] by (simp add: shl_or_def)
  moreover have "decode_loop p 4 (alphabet ! i # r) = map_option ((#) (char_of (p * 16 + i div 4))) (decode_loop i 2 r)"
    if "p < 16" for p
    using s i that low [of 2 p] d(2) [of p] by (simp add: shl_or_def)
  moreover have "decode_loop p 2 (alphabet ! i # r) = map_option ((#) (char_of (p * 64 + i))) (decode_loop 0 0 r)"
    if "p < 4" for p
    using s i that low [of 0 p] decode_loop_cong [of 0 i 0] by (simp add: shl_or_def)
  ultimately show "decode_loop x 0 (alphabet ! i # r) = decode_loop i 6 r"
    and "decode_loop x 6 (alphabet ! i # r) = map_option ((#) (char_of (x mod 64 * 4 + i div 16))) (decode_loop i 4 r)"
    and "decode_loop x 4 (alphabet ! i # r) = map_option ((#) (char_of (x mod 16 * 16 + i div 4))) (decode_loop i 2 r)"
    and "decode_loop x 2 (alphabet ! i # r) = map_option ((#) (char_of (x mod 4 * 64 + i))) (decode_loop 0 0 r)"
    by simp_all
qed

lemma sextet_bounds:
  "A < 256 \<Longrightarrow> A div 4 < 64" "A mod 64 < 64" "B < 256 \<Longrightarrow> A mod 4 * 16 + B div 16 < 64"
  "B < 256 \<Longrightarrow> A mod 16 * 4 + B div 64 < 64" for A B :: nat
  by linarith+

lemma code_fields:
  "code a div 16 div 16 = 0" "code a div 64 div 4 = 0"
  "code a div 16 mod 16 * 16 + code a mod 16 = code a" "code a div 64 mod 4 * 64 + code a mod 64 = code a"
proof -
  have a: "code a < 256" by simp
  then show "code a div 16 div 16 = 0" "code a div 64 div 4 = 0" by linarith+
  have "code a div 16 mod 16 = code a div 16" "code a div 64 mod 4 = code a div 64"
    using a by (intro mod_less; linarith)+
  then show "code a div 16 mod 16 * 16 + code a mod 16 = code a" "code a div 64 mod 4 * 64 + code a mod 64 = code a"
    by (simp_all only: div_mult_mod_eq)
qed

lemma last_sextet: "A * 16 mod 4294967296 mod 64 div 16 = A mod 4" "A * 4 mod 4294967296 mod 64 div 4 = A mod 16" for A :: nat
proof -
  have "A * 16 mod 4294967296 mod 64 = A mod 4 * 16" "A * 4 mod 4294967296 mod 64 = A mod 16 * 4"
    using mod_mult_mult2 [of A 16 4] mod_mult_mult2 [of A 4 16] by (simp_all add: mod_mod_cancel)
  then show "A * 16 mod 4294967296 mod 64 div 16 = A mod 4" "A * 4 mod 4294967296 mod 64 div 4 = A mod 16" by simp_all
qed

lemma decode_encode_loop: "decode_loop x 0 (encode_loop y 0 bs) = Some bs"
proof (induction bs arbitrary: x y rule: length_induct)
  case (1 bs)
  consider "bs = []" | a where "bs = [a]" | a b where "bs = [a, b]" | a b c r where "bs = a # b # c # r"
    by (metis neq_Nil_conv)
  then show ?case
  proof cases
    case (4 a b c r)
    with 1 have "decode_loop x' 0 (encode_loop y' 0 r) = Some r" for x' y' by simp
    with 4 show ?thesis
      by (simp add: encode_steps decode_steps sextet_bounds code_fields add.assoc [symmetric]
          del: encode_loop.simps(2) decode_loop.simps(2))
  qed (simp_all add: encode_steps decode_steps sextet_bounds code_fields last_sextet
      del: encode_loop.simps(2) decode_loop.simps(2))
qed

lemma base64url_roundtrip: "base64url_decode (base64url_encode bs) = Some bs"
  by (simp add: base64url_decode_def base64url_encode_def decode_encode_loop)

lemma alphabet_nth: "alphabet ! (k mod 64) \<in> set alphabet"
  by (rule nth_mem) (simp add: alphabet_def)

lemma encode_loop_alphabet: "set (encode_loop x n bs) \<subseteq> set alphabet"
proof (induction x n bs rule: encode_loop.induct)
  case (2 bits n b bs)
  have "set (fst (emit_sextets x m)) \<subseteq> set alphabet" for x m
    by (induction x m rule: emit_sextets.induct) (subst emit_sextets.simps, simp add: alphabet_nth)
  with 2 show ?case by (auto simp: Let_def split: prod.splits)
      (metis fst_conv subsetD)+
qed (auto simp: alphabet_nth)

lemma base64url_encode_fresh: "CHR ''$'' \<notin> set (base64url_encode bs)" "CHR ''.'' \<notin> set (base64url_encode bs)"
  using encode_loop_alphabet [of 0 0 bs] by (auto simp: base64url_encode_def alphabet_def)

lemma base64url_encode_inj: "base64url_encode xs = base64url_encode ys \<longleftrightarrow> xs = ys"
  by (metis base64url_roundtrip option.inject)

section \<open>Passwords\<close>

record crypto =
  pbkdf2_hmac :: "string \<Rightarrow> string \<Rightarrow> int \<Rightarrow> nat \<Rightarrow> string option"
  sha256 :: "string \<Rightarrow> string option"
  rs256_sign :: "string \<Rightarrow> string \<Rightarrow> string option"

definition pbkdf2_sha256 :: "crypto \<Rightarrow> string \<Rightarrow> string \<Rightarrow> int \<Rightarrow> nat \<Rightarrow> string option" where
  "pbkdf2_sha256 cr password salt iterations output_len =
     (if iterations \<le> 0 \<or> iterations > 10000000 \<or> output_len = 0 then None
      else pbkdf2_hmac cr password salt iterations output_len)"

definition pbkdf2_sha256_hash_string :: "crypto \<Rightarrow> string \<Rightarrow> string \<Rightarrow> int \<Rightarrow> nat \<Rightarrow> string" where
  "pbkdf2_sha256_hash_string cr password salt iterations output_len =
     (case pbkdf2_sha256 cr password salt iterations output_len of
        None \<Rightarrow> []
      | Some hash \<Rightarrow>
          ''pbkdf2_sha256$'' @ dec_of_int iterations @ ''$'' @ base64url_encode salt @ ''$'' @ base64url_encode hash)"

text \<open>The loop over the fields: \<open>n\<close> fields that end at a separator, then one that must not contain any.\<close>

fun hash_parts :: "nat \<Rightarrow> string \<Rightarrow> string list option" where
  "hash_parts 0 s = (case find_char (CHR ''$'') s of None \<Rightarrow> Some [s] | Some _ \<Rightarrow> None)"
| "hash_parts (Suc n) s =
     (case find_char (CHR ''$'') s of
        None \<Rightarrow> None
      | Some i \<Rightarrow> map_option ((#) (take i s)) (hash_parts n (drop (i + 1) s)))"

definition split_password_hash :: "string \<Rightarrow> (int \<times> string \<times> string) option" where
  "split_password_hash encoded =
     (case hash_parts 3 encoded of
        Some [scheme, iter, salt, hash] \<Rightarrow>
          if scheme \<noteq> ''pbkdf2_sha256'' then None
          else
            (case parse_int64 iter of
               None \<Rightarrow> None
             | Some n \<Rightarrow>
                 if n \<le> 0 \<or> n > 10000000 then None
                 else
                   (case (base64url_decode salt, base64url_decode hash) of
                      (Some s, Some h) \<Rightarrow> if s = [] \<or> h = [] then None else Some (n, s, h)
                    | _ \<Rightarrow> None))
      | _ \<Rightarrow> None)"

definition dummy_hash :: "int \<times> string \<times> string" where
  "dummy_hash = (100000, ''asio_owen_admin_dummy'', replicate 32 NUL)"

definition verify_admin_password :: "crypto \<Rightarrow> admin_config \<Rightarrow> string \<Rightarrow> string \<Rightarrow> bool" where
  "verify_admin_password cr admin user password =
     (let account = map_of (ac_accounts admin) user;
          parsed = (case account of None \<Rightarrow> None | Some password_hash \<Rightarrow> split_password_hash password_hash);
          valid_account_hash = (parsed \<noteq> None);
          (iterations, salt, expected) = (case parsed of None \<Rightarrow> dummy_hash | Some x \<Rightarrow> x)
      in case pbkdf2_sha256 cr password salt iterations (length expected) of
           None \<Rightarrow> False
         | Some actual \<Rightarrow>
             if length actual \<noteq> length expected then False
             else valid_account_hash \<and> actual = expected)"

lemma hash_parts_join:
  "CHR ''$'' \<notin> set p \<Longrightarrow> hash_parts (Suc n) (p @ CHR ''$'' # r) = map_option ((#) p) (hash_parts n r)"
  "CHR ''$'' \<notin> set p \<Longrightarrow> hash_parts 0 p = Some [p]"
  by (simp_all add: find_char_append_fresh find_char_None [THEN iffD2])

lemma parse_int64_dec: "0 \<le> i \<Longrightarrow> i < 2 ^ 63 \<Longrightarrow> parse_int64 (dec_of_int i) = Some i"
  using dec_of_nat_digits [of "nat i"] dec_of_nat_hd [of "nat i"]
  by (simp add: parse_int64_def from_chars_int64_def dec_of_int_def Let_def list_all_iff)

lemma split_password_hash_string:
  assumes "pbkdf2_hmac cr password salt iterations n = Some h" and "0 < iterations" "iterations \<le> 10000000"
    and "salt \<noteq> []" and "n > 0" and "length h = n"
  shows "split_password_hash (pbkdf2_sha256_hash_string cr password salt iterations n) = Some (iterations, salt, h)"
proof -
  have digits: "CHR ''$'' \<notin> set (dec_of_int iterations)"
    using assms(2) dec_of_nat_digits [of "nat iterations"] by (auto simp: dec_of_int_def isdigit_def)
  have "hash_parts 3 (''pbkdf2_sha256'' @ CHR ''$'' # dec_of_int iterations @ CHR ''$'' # base64url_encode salt @
      CHR ''$'' # base64url_encode h) =
    Some [''pbkdf2_sha256'', dec_of_int iterations, base64url_encode salt, base64url_encode h]"
    unfolding numeral_3_eq_3 using digits base64url_encode_fresh(1)
    by (subst hash_parts_join(1), simp, subst hash_parts_join(1), simp, subst hash_parts_join(1), simp,
        subst hash_parts_join(2)) simp_all
  with assms show ?thesis
    by (auto simp: pbkdf2_sha256_hash_string_def pbkdf2_sha256_def split_password_hash_def parse_int64_dec
        base64url_roundtrip)
qed

lemma verify_admin_password_iff:
  "verify_admin_password cr admin user password \<longleftrightarrow>
     (\<exists>stored iterations salt h. map_of (ac_accounts admin) user = Some stored \<and>
        split_password_hash stored = Some (iterations, salt, h) \<and>
        pbkdf2_sha256 cr password salt iterations (length h) = Some h)"
  by (auto simp: verify_admin_password_def Let_def split: option.splits prod.splits)

text \<open>
  The stored form of a password reads back as the iterations, salt and hash it was made from, and an account that
  holds it accepts exactly the passwords whose PBKDF2 value under that salt is the stored one. A name without an account, or with
  a record that does not parse, accepts no password.
\<close>

lemma password_hash_roundtrip:
  assumes "pbkdf2_hmac cr password salt iterations n = Some h"
    and "length h = n" and "n > 0" and "0 < iterations" and "iterations \<le> 10000000" and "salt \<noteq> []"
    and "map_of (ac_accounts admin) user = Some (pbkdf2_sha256_hash_string cr password salt iterations n)"
  shows "split_password_hash (pbkdf2_sha256_hash_string cr password salt iterations n) = Some (iterations, salt, h) \<and>
    (\<forall>pw. verify_admin_password cr admin user pw \<longleftrightarrow> pbkdf2_hmac cr pw salt iterations n = Some h) \<and>
    (\<forall>other pw. Option.bind (map_of (ac_accounts admin) other) split_password_hash = None \<longrightarrow>
       \<not> verify_admin_password cr admin other pw)"
  using split_password_hash_string [OF assms(1,4,5,6,3,2)] assms
  by (auto simp: verify_admin_password_iff pbkdf2_sha256_def bind_eq_None_conv)

definition demo_crypto :: crypto where
  "demo_crypto = \<lparr>pbkdf2_hmac = (\<lambda>pw salt _ n. Some (take n (pw @ salt @ replicate n NUL))),
     sha256 = (\<lambda>s. Some (rev s)), rs256_sign = (\<lambda>s key. Some (s @ key))\<rparr>"

definition demo_stored :: string where
  "demo_stored = pbkdf2_sha256_hash_string demo_crypto ''pw'' ''salt'' 1000 4"

definition demo_admin :: admin_config where
  "demo_admin = \<lparr>ac_accounts = [(''root'', demo_stored)],
     ac_jwt_private_key = ''-----BEGIN A'', ac_jwt_public_key = ''-----BEGIN B'', ac_token_ttl_min = 10, ac_insecure_no_auth = False\<rparr>"

section \<open>Key files\<close>

text \<open>
  A file as the process sees it: whether it is a regular file, its size and modification time (\<open>None\<close> when the query fails),
  its bytes (\<open>None\<close> when it cannot be opened). A path that does not exist has no entry.
\<close>

record file_info =
  fi_regular :: bool
  fi_size :: "nat option"
  fi_modified :: "int option"
  fi_content :: "string option"

type_synonym file_system = "string \<Rightarrow> file_info option"

text \<open>\<^verbatim>\<open>operator/\<close> of \<^verbatim>\<open>std::filesystem::path\<close>.\<close>

definition path_join :: "string \<Rightarrow> string \<Rightarrow> string" where
  "path_join base p =
     (if p \<noteq> [] \<and> hd p = CHR ''/'' then p
      else if base = [] \<or> last base = CHR ''/'' then base @ p
      else base @ ''/'' @ p)"

definition has_pem :: "string \<Rightarrow> bool" where
  "has_pem s = (find_sub ''-----BEGIN'' s \<noteq> None)"

definition file_text :: "file_system \<Rightarrow> string \<Rightarrow> string option" where
  "file_text fs path = Option.bind (fs path) fi_content"

definition load_pem_or_file :: "file_system \<Rightarrow> string \<Rightarrow> string \<Rightarrow> string option" where
  "load_pem_or_file fs val base =
     (if val = [] then None
      else if has_pem val then Some val
      else
        let path = (if base \<noteq> [] \<and> \<not> starts_with ''/'' val then path_join base val else val) in
        (case file_text fs path of
           None \<Rightarrow> None
         | Some loaded \<Rightarrow> if has_pem loaded then Some loaded else None))"

definition local_files :: "string list" where
  "local_files = [''12-config-sync.ini'', ''99-local.ini'']"

definition local_path :: "string \<Rightarrow> string \<Rightarrow> string" where
  "local_path base name = path_join (path_join base ''config.d'') name"

fun load_local_files :: "file_system \<Rightarrow> string \<Rightarrow> config \<Rightarrow> bool \<Rightarrow> string list \<Rightarrow> string + config \<times> bool" where
  "load_local_files fs base cfg loaded_any [] = Inr (cfg, loaded_any)"
| "load_local_files fs base cfg loaded_any (name # names) =
     (if fs (local_path base name) = None then load_local_files fs base cfg loaded_any names
      else
        (case load_file cfg (file_text fs (local_path base name)) of
           (False, _) \<Rightarrow> Inl (''failed to parse '' @ name)
         | (True, cfg') \<Rightarrow> load_local_files fs base cfg' True names))"

fun config_what :: "config_error \<Rightarrow> string" where
  "config_what (Invalid_argument s) = s"

definition load_local_admin_config :: "file_system \<Rightarrow> string \<Rightarrow> string + admin_config" where
  "load_local_admin_config fs base =
     (if base = [] then Inl ''config base is unavailable''
      else
        (case load_local_files fs base config0 False local_files of
           Inl e \<Rightarrow> Inl e
         | Inr (cfg, loaded_any) \<Rightarrow>
             if \<not> loaded_any then Inl ''local admin config not found''
             else map_sum config_what id (admin_config_from cfg)))"

definition admin_configured :: "file_system \<Rightarrow> admin_config \<Rightarrow> string \<Rightarrow> bool" where
  "admin_configured fs admin base =
     (ac_accounts admin \<noteq> [] \<and> load_pem_or_file fs (ac_jwt_private_key admin) base \<noteq> None \<and>
      load_pem_or_file fs (ac_jwt_public_key admin) base \<noteq> None)"

section \<open>Tokens\<close>

definition kAdminIssuer :: string where "kAdminIssuer = ''asio-owen-admin''"

definition admin_auth_version :: "crypto \<Rightarrow> admin_config \<Rightarrow> string \<Rightarrow> string option" where
  "admin_auth_version cr admin user =
     (case map_of (ac_accounts admin) user of
        None \<Rightarrow> None
      | Some password_hash \<Rightarrow>
          if password_hash = [] then None
          else
            (case sha256 cr (user @ [LF] @ password_hash) of
               None \<Rightarrow> None
             | Some digest \<Rightarrow> if digest = [] then None else Some (base64url_encode digest)))"

text \<open>The product is computed in \<^verbatim>\<open>int\<close>; the wrap-around is what the compiled code does with an overflow the language leaves undefined.\<close>

definition ttl_seconds :: "admin_config \<Rightarrow> int" where
  "ttl_seconds admin = (max 1 (ac_token_ttl_min admin) * 60 + 2 ^ 31) mod 2 ^ 32 - 2 ^ 31"

record issued_token =
  it_token :: string
  it_expires_in :: int

definition quoted :: "string \<Rightarrow> string" where
  "quoted s = [DQUOTE] @ s @ [DQUOTE]"

definition token_header :: string where
  "token_header = ''{'' @ quoted ''alg'' @ '':'' @ quoted ''RS256'' @ '','' @ quoted ''typ'' @ '':'' @ quoted ''JWT'' @ ''}''"

definition token_payload :: "string \<Rightarrow> string \<Rightarrow> int \<Rightarrow> int \<Rightarrow> string" where
  "token_payload user auth_version now exp =
     ''{'' @ quoted ''iss'' @ '':'' @ quoted kAdminIssuer @
     '','' @ quoted ''sub'' @ '':'' @ quoted (json_escape user) @
     '','' @ quoted ''name'' @ '':'' @ quoted (json_escape user) @
     '','' @ quoted ''roles'' @ '':['' @ quoted ''admin'' @ ''],'' @ quoted ''av'' @ '':'' @ quoted auth_version @
     '','' @ quoted ''iat'' @ '':'' @ dec_of_int now @ '','' @ quoted ''exp'' @ '':'' @ dec_of_int exp @ ''}''"

definition signing_input :: "string \<Rightarrow> string \<Rightarrow> int \<Rightarrow> int \<Rightarrow> string" where
  "signing_input user auth_version now exp =
     base64url_encode token_header @ ''.'' @ base64url_encode (token_payload user auth_version now exp)"

definition issue_admin_token_with_pem :: "crypto \<Rightarrow> int \<Rightarrow> admin_config \<Rightarrow> string \<Rightarrow> string \<Rightarrow> issued_token option" where
  "issue_admin_token_with_pem cr now admin user private_key_pem =
     (case admin_auth_version cr admin user of
        None \<Rightarrow> None
      | Some auth_version \<Rightarrow>
          let ttl_sec = ttl_seconds admin;
              inp = signing_input user auth_version now (now + ttl_sec)
          in case rs256_sign cr inp private_key_pem of
               None \<Rightarrow> None
             | Some signature \<Rightarrow>
                 Some \<lparr>it_token = inp @ ''.'' @ base64url_encode signature, it_expires_in = ttl_sec\<rparr>)"

definition issue_admin_token :: "crypto \<Rightarrow> file_system \<Rightarrow> int \<Rightarrow> admin_config \<Rightarrow> string \<Rightarrow> string \<Rightarrow> issued_token option" where
  "issue_admin_token cr fs now admin user base =
     (case load_pem_or_file fs (ac_jwt_private_key admin) base of
        None \<Rightarrow> None
      | Some private_key \<Rightarrow> issue_admin_token_with_pem cr now admin user private_key)"

definition has_bearer :: "string \<Rightarrow> bool" where
  "has_bearer h \<longleftrightarrow> length h > 7 \<and> map tolower (take 7 h) = map tolower ''Bearer ''"

definition verify_admin_token_with_auth ::
  "crypto \<Rightarrow> jwt_lib \<Rightarrow> int \<Rightarrow> admin_config \<Rightarrow> string \<Rightarrow> jwt_auth \<Rightarrow> principal option" where
  "verify_admin_token_with_auth cr lib now admin auth_header auth =
     (case jwt_verify lib now auth auth_header of
        None \<Rightarrow> None
      | Some claims \<Rightarrow>
          let user = (if jc_username claims = [] then jc_subject claims else jc_username claims) in
          (case admin_auth_version cr admin user of
             None \<Rightarrow> None
           | Some expected_auth_version \<Rightarrow>
               if \<not> has_bearer auth_header then None
               else
                 (case jwt_decode lib (drop 7 auth_header) of
                    None \<Rightarrow> None
                  | Some decoded \<Rightarrow>
                      (case dj_claims decoded ''av'' of
                         None \<Rightarrow> None
                       | Some av \<Rightarrow>
                           if claim_as_string av \<noteq> Some expected_auth_version then None
                           else Some \<lparr>subject = jc_subject claims, username = jc_username claims,
                                      roles = jc_roles claims\<rparr>))))"

definition verify_admin_token_with_pem ::
  "crypto \<Rightarrow> jwt_lib \<Rightarrow> int \<Rightarrow> admin_config \<Rightarrow> string \<Rightarrow> string \<Rightarrow> principal option" where
  "verify_admin_token_with_pem cr lib now admin auth_header public_key_pem =
     (case jwt_auth_new lib ''admin-rs256-unused-secret'' kAdminIssuer ''RS256'' public_key_pem of
        Inl _ \<Rightarrow> None
      | Inr auth \<Rightarrow> verify_admin_token_with_auth cr lib now admin auth_header auth)"

definition verify_admin_token ::
  "crypto \<Rightarrow> jwt_lib \<Rightarrow> file_system \<Rightarrow> int \<Rightarrow> admin_config \<Rightarrow> string \<Rightarrow> string \<Rightarrow> principal option" where
  "verify_admin_token cr lib fs now admin auth_header base =
     (case load_pem_or_file fs (ac_jwt_public_key admin) base of
        None \<Rightarrow> None
      | Some public_key \<Rightarrow> verify_admin_token_with_pem cr lib now admin auth_header public_key)"

subsection \<open>Facts\<close>

definition principal_name :: "principal \<Rightarrow> string" where
  "principal_name p = (if username p = [] then subject p else username p)"

text \<open>What the bearer of an accepted token has shown.\<close>

definition token_bound :: "crypto \<Rightarrow> jwt_lib \<Rightarrow> int \<Rightarrow> admin_config \<Rightarrow> string \<Rightarrow> string \<Rightarrow> principal \<Rightarrow> bool" where
  "token_bound cr lib now admin auth_header public_key p \<longleftrightarrow>
     (\<exists>rest d d' password_hash digest.
        has_bearer auth_header \<and> rest = drop 7 auth_header \<and>
        jwt_decode lib (trim rest) = Some d \<and> dj_algorithm d = Some ''RS256'' \<and> dj_issuer d = Some kAdminIssuer \<and>
        rs256_verify lib (dj_header_base64 d @ ''.'' @ dj_payload_base64 d) (dj_signature d) public_key \<and>
        (\<exists>exp. dj_expires_at d = Some exp \<and> now \<le> exp + leeway) \<and>
        claim_roles d = Some (roles p) \<and> dj_subject d = Some (subject p) \<and>
        map_of (ac_accounts admin) (principal_name p) = Some password_hash \<and>
        sha256 cr (principal_name p @ [LF] @ password_hash) = Some digest \<and>
        jwt_decode lib rest = Some d' \<and> dj_claims d' ''av'' = Some (Claim_string (base64url_encode digest)))"

lemma bearer_lower: "map tolower ''Bearer '' = ''bearer ''" by code_simp

lemma bearer_not_space:
  assumes "has_bearer h"
  shows "dropWhile isspace h = h"
proof (cases h)
  case (Cons c cs)
  with assms have "tolower c = CHR ''b''" unfolding has_bearer_def bearer_lower by (simp add: numeral_nat)
  then have "\<not> isspace c" by (auto simp: isspace_def tolower_def isupper_def split: if_splits)
  with Cons show ?thesis by simp
qed simp

lemma extract_token_bearer_header:
  "has_bearer h \<Longrightarrow> extract_token h = (if trim (drop 7 h) = [] then None else Some (trim (drop 7 h)))"
  using bearer_not_space [of h] by (auto simp: extract_token_def has_bearer_def Let_def simp del: list.map)

lemma claim_as_string_iff [simp]: "claim_as_string c = Some s \<longleftrightarrow> c = Claim_string s"
  by (cases c) (auto simp: claim_as_string_def)

lemma extract_claims_parts:
  assumes "extract_claims token d = Some cl"
  shows "dj_subject d = Some (jc_subject cl)" "claim_roles d = Some (jc_roles cl)"
  using assms by (auto simp: extract_claims_def bind_eq_Some_conv)

lemma admin_auth_version_Some:
  "admin_auth_version cr admin user = Some v \<longleftrightarrow>
     (\<exists>h digest. map_of (ac_accounts admin) user = Some h \<and> h \<noteq> [] \<and> sha256 cr (user @ [LF] @ h) = Some digest \<and>
        digest \<noteq> [] \<and> v = base64url_encode digest)"
  by (auto simp: admin_auth_version_def split: option.splits)

lemma accepted_token_bound:
  assumes "jwt_auth_new lib secret kAdminIssuer ''RS256'' public_key = Inr auth"
    and "verify_admin_token_with_auth cr lib now admin auth_header auth = Some p"
  shows "token_bound cr lib now admin auth_header public_key p"
proof -
  have auth: "ja_algorithm auth = ''RS256''" "ja_issuer auth = kAdminIssuer" "ja_public_key auth = public_key"
    using assms(1) by (auto simp: jwt_auth_new_def Let_def split: if_splits)
  from assms(2) obtain cl v d' where v: "jwt_verify lib now auth auth_header = Some cl"
    "admin_auth_version cr admin (principal_name p) = Some v" "has_bearer auth_header"
    "jwt_decode lib (drop 7 auth_header) = Some d'" "dj_claims d' ''av'' = Some (Claim_string v)"
    "p = \<lparr>subject = jc_subject cl, username = jc_username cl, roles = jc_roles cl\<rparr>"
    by (auto simp: verify_admin_token_with_auth_def principal_name_def Let_def split: option.splits if_splits)
  from jwt_verify_valid [OF assms(1) v(1)] obtain token d where
    d: "extract_token auth_header = Some token" "jwt_decode lib token = Some d" "token_valid lib now auth d"
      "extract_claims token d = Some cl" by blast
  from extract_token_bearer_header [OF v(3)] d(1,2) have "jwt_decode lib (trim (drop 7 auth_header)) = Some d" by (simp split: if_splits)
  with d(3) auth v extract_claims_parts [OF d(4)] show ?thesis
    unfolding token_bound_def admin_auth_version_Some by (auto simp: token_valid_def)
qed

text \<open>
  C24. Whoever the administration accepts carries a Bearer token signed with RS256 under the configured public key, of the
  administration's issuer, not expired, with the roles it is given, and stamped with the digest of the password record the
  account has now; there is no acceptance under another algorithm or for an account that is not configured.
\<close>

theorem admin_token_bound:
  assumes "verify_admin_token cr lib fs now admin auth_header base = Some p"
  shows "\<exists>public_key. load_pem_or_file fs (ac_jwt_public_key admin) base = Some public_key \<and>
    token_bound cr lib now admin auth_header public_key p"
  using assms accepted_token_bound
  by (fastforce simp: verify_admin_token_def verify_admin_token_with_pem_def split: option.splits sum.splits)

text \<open>What the decoder reads from a token of the form the administration issues (RFC 7519): times are in nanoseconds.\<close>

definition issued_jwt :: "string \<Rightarrow> string \<Rightarrow> int \<Rightarrow> int \<Rightarrow> string \<Rightarrow> decoded_jwt" where
  "issued_jwt user auth_version now exp signature =
     \<lparr>dj_header_base64 = base64url_encode token_header,
      dj_payload_base64 = base64url_encode (token_payload user auth_version now exp),
      dj_signature = signature, dj_algorithm = Some ''RS256'', dj_issuer = Some kAdminIssuer, dj_subject = Some user,
      dj_expires_at = Some (exp * 10 ^ 9), dj_not_before = None,
      dj_claims = [''iss'' \<mapsto> Claim_string kAdminIssuer, ''sub'' \<mapsto> Claim_string user, ''name'' \<mapsto> Claim_string user,
        ''roles'' \<mapsto> Claim_array [Claim_string ''admin''], ''av'' \<mapsto> Claim_string auth_version,
        ''iat'' \<mapsto> Claim_int now, ''exp'' \<mapsto> Claim_int exp]\<rparr>"

lemma issued_claims:
  "extract_claims token (issued_jwt user v now exp sig) =
     Some \<lparr>jc_subject = user, jc_username = user, jc_roles = [''admin''], jc_exp = exp, jc_iat = now, jc_raw_token = token\<rparr>"
  by (simp add: extract_claims_def issued_jwt_def claim_username_def claim_roles_def claim_integer_def claim_as_integer_def
      claim_as_string_def role_strings_def map_filter_simps)

lemma alphabet_no_space: "c \<in> set alphabet \<Longrightarrow> \<not> isspace c"
  by (auto simp: alphabet_def isspace_def)

lemma token_trim:
  "trim (base64url_encode a @ ''.'' @ base64url_encode b @ ''.'' @ base64url_encode c) =
     base64url_encode a @ ''.'' @ base64url_encode b @ ''.'' @ base64url_encode c"
proof (rule trim_id)
  have "set (base64url_encode x) \<subseteq> set alphabet" for x
    unfolding base64url_encode_def by (rule encode_loop_alphabet)
  then show "\<forall>x \<in> set (base64url_encode a @ ''.'' @ base64url_encode b @ ''.'' @ base64url_encode c). \<not> isspace x"
    using alphabet_no_space by (auto simp: isspace_def)
qed

lemma issued_token_decides:
  assumes "admin_auth_version cr admin user = Some v"
    and "rs256_sign cr (signing_input user v now0 (now0 + ttl_seconds admin)) private_key = Some sig"
    and "rs256_verify lib (signing_input user v now0 (now0 + ttl_seconds admin)) sig public_key"
    and "jwt_decode lib (signing_input user v now0 (now0 + ttl_seconds admin) @ ''.'' @ base64url_encode sig) =
       Some (issued_jwt user v now0 (now0 + ttl_seconds admin) sig)"
    and "pem_parses lib public_key" and "public_key \<noteq> []"
    and "now \<le> (now0 + ttl_seconds admin) * 10 ^ 9 + leeway"
  shows "\<exists>it. issue_admin_token_with_pem cr now0 admin user private_key = Some it \<and>
    (\<forall>admin'. verify_admin_token_with_pem cr lib now admin' (''Bearer '' @ it_token it) public_key =
       (if admin_auth_version cr admin' user = Some v
        then Some \<lparr>subject = user, username = user, roles = [''admin'']\<rparr> else None))"
proof (intro exI conjI allI)
  let ?exp = "now0 + ttl_seconds admin"
  let ?it = "\<lparr>it_token = signing_input user v now0 ?exp @ ''.'' @ base64url_encode sig, it_expires_in = ttl_seconds admin\<rparr>"
  let ?d = "issued_jwt user v now0 ?exp sig" and ?h = "''Bearer '' @ it_token ?it"
  show "issue_admin_token_with_pem cr now0 admin user private_key = Some ?it"
    using assms(1,2) by (simp add: issue_admin_token_with_pem_def Let_def)
  fix admin'
  obtain auth where auth: "jwt_auth_new lib ''admin-rs256-unused-secret'' kAdminIssuer ''RS256'' public_key = Inr auth"
    "ja_issuer auth = kAdminIssuer" "ja_algorithm auth = ''RS256''" "ja_public_key auth = public_key"
    using assms(5,6) by (simp add: jwt_auth_new_def Let_def)
  have tr: "trim (it_token ?it) = it_token ?it" and ne: "it_token ?it \<noteq> []"
    using token_trim by (simp_all add: signing_input_def)
  have b: "has_bearer ?h" unfolding has_bearer_def by (simp add: signing_input_def)
  have "extract_token ?h = Some (it_token ?it)"
    using extract_token_bearer_header [OF b] tr ne by simp
  moreover have "signature_accepted lib now auth ?d"
    using auth assms(3,7)
    by (simp add: signature_accepted_def verify_registered_claims_iff issued_jwt_def signing_input_def)
  ultimately have "jwt_verify lib now auth ?h =
    Some \<lparr>jc_subject = user, jc_username = user, jc_roles = [''admin''], jc_exp = ?exp, jc_iat = now0,
      jc_raw_token = it_token ?it\<rparr>"
    using assms(4) by (simp add: jwt_verify_def do_verify_def issued_claims)
  moreover have "dj_claims ?d ''av'' = Some (Claim_string v)" by (simp add: issued_jwt_def)
  moreover have "jwt_decode lib (drop 7 ?h) = Some ?d" using assms(4) by simp
  ultimately show "verify_admin_token_with_pem cr lib now admin' ?h public_key =
    (if admin_auth_version cr admin' user = Some v
     then Some \<lparr>subject = user, username = user, roles = [''admin'']\<rparr> else None)"
    using auth(1) b
    by (auto simp: verify_admin_token_with_pem_def verify_admin_token_with_auth_def Let_def claim_as_string_def
        split: option.splits)
qed

text \<open>
  With a decoder that reads the issued text back and a key pair that matches, a token issued to an account is accepted
  with the role admin until its expiry (with the verifier's leeway), under every configuration that still has the same record
  for the account, and under no configuration in which that record, and with it its digest, has changed or is gone.
\<close>

lemma admin_token_lifecycle:
  assumes "admin_auth_version cr admin user = Some v"
    and "rs256_sign cr (signing_input user v now0 (now0 + ttl_seconds admin)) private_key = Some sig"
    and "rs256_verify lib (signing_input user v now0 (now0 + ttl_seconds admin)) sig public_key"
    and "jwt_decode lib (signing_input user v now0 (now0 + ttl_seconds admin) @ ''.'' @ base64url_encode sig) =
       Some (issued_jwt user v now0 (now0 + ttl_seconds admin) sig)"
    and "pem_parses lib public_key" and "public_key \<noteq> []"
    and "now \<le> (now0 + ttl_seconds admin) * 10 ^ 9 + leeway"
  shows "\<exists>it. issue_admin_token_with_pem cr now0 admin user private_key = Some it \<and>
    (\<forall>admin'. verify_admin_token_with_pem cr lib now admin' (''Bearer '' @ it_token it) public_key =
       (if admin_auth_version cr admin' user = Some v
        then Some \<lparr>subject = user, username = user, roles = [''admin'']\<rparr> else None))"
  using assms by (rule issued_token_decides)

lemma ttl_overflow:
  "ac_token_ttl_min admin = 35791395 \<Longrightarrow> ttl_seconds admin < 0"
  "1 \<le> ac_token_ttl_min admin \<Longrightarrow> ac_token_ttl_min admin \<le> 35791394 \<Longrightarrow> ttl_seconds admin = ac_token_ttl_min admin * 60"
  by (simp_all add: ttl_seconds_def)

subsection \<open>An instance\<close>

lemma demo_private_key: "ac_jwt_private_key demo_admin = ''-----BEGIN A''" by (simp add: demo_admin_def)

lemma demo_password: "verify_admin_password demo_crypto demo_admin ''root'' ''pw''"
proof -
  have "split_password_hash demo_stored = Some (1000, ''salt'', ''pwsa'')"
    unfolding demo_stored_def by (rule split_password_hash_string) (simp_all add: demo_crypto_def)
  then show ?thesis by (simp add: verify_admin_password_iff demo_admin_def pbkdf2_sha256_def demo_crypto_def)
qed

definition demo_version :: string where
  "demo_version = the (admin_auth_version demo_crypto demo_admin ''root'')"

lemma demo_version: "admin_auth_version demo_crypto demo_admin ''root'' = Some demo_version"
  unfolding demo_version_def
  by (simp add: admin_auth_version_def demo_admin_def demo_stored_def pbkdf2_sha256_hash_string_def pbkdf2_sha256_def
      demo_crypto_def)

definition demo_input :: string where
  "demo_input = signing_input ''root'' demo_version 0 600"

definition demo_token_lib :: jwt_lib where
  "demo_token_lib = \<lparr>jwt_decode = (\<lambda>_. Some (issued_jwt ''root'' demo_version 0 600 (demo_input @ ''k''))),
     hs256_verify = (\<lambda>_ _ _ _. False), rs256_verify = (\<lambda>s sig _. sig = s @ ''k''), pem_parses = (\<lambda>_. True)\<rparr>"

definition demo_token :: string where
  "demo_token = demo_input @ ''.'' @ base64url_encode (demo_input @ ''k'')"

lemma demo_ttl: "ttl_seconds demo_admin = 600" by (simp add: ttl_seconds_def demo_admin_def)

lemma demo_verify_token:
  "verify_admin_token demo_crypto demo_token_lib Map.empty 5 demo_admin (''Bearer '' @ demo_token) [] =
     Some \<lparr>subject = ''root'', username = ''root'', roles = [''admin'']\<rparr>"
proof -
  have "\<exists>it. issue_admin_token_with_pem demo_crypto 0 demo_admin ''root'' ''k'' = Some it \<and>
    (\<forall>admin'. verify_admin_token_with_pem demo_crypto demo_token_lib 5 admin' (''Bearer '' @ it_token it) ''-----BEGIN B'' =
       (if admin_auth_version demo_crypto admin' ''root'' = Some demo_version
        then Some \<lparr>subject = ''root'', username = ''root'', roles = [''admin'']\<rparr> else None))"
    by (rule issued_token_decides [OF demo_version, where sig = "demo_input @ ''k''"])
      (simp_all add: demo_ttl demo_crypto_def demo_token_lib_def leeway_def flip: demo_input_def)
  then obtain it where it: "issue_admin_token_with_pem demo_crypto 0 demo_admin ''root'' ''k'' = Some it"
    "verify_admin_token_with_pem demo_crypto demo_token_lib 5 demo_admin (''Bearer '' @ it_token it) ''-----BEGIN B'' =
       Some \<lparr>subject = ''root'', username = ''root'', roles = [''admin'']\<rparr>"
    using demo_version by metis
  have "it_token it = demo_token"
    using it(1) demo_version unfolding issue_admin_token_with_pem_def demo_token_def
    by (auto simp: demo_ttl Let_def demo_crypto_def simp flip: demo_input_def split: option.splits)
  moreover have "load_pem_or_file Map.empty (ac_jwt_public_key demo_admin) [] = Some ''-----BEGIN B''"
    by (simp add: load_pem_or_file_def has_pem_def demo_admin_def find_sub.simps starts_with_def)
  ultimately show ?thesis using it(2) by (simp add: verify_admin_token_def)
qed

theorem admin_token_bound_witness:
  "\<exists>public_key. load_pem_or_file Map.empty (ac_jwt_public_key demo_admin) [] = Some public_key \<and>
    token_bound demo_crypto demo_token_lib 5 demo_admin (''Bearer '' @ demo_token) public_key
      \<lparr>subject = ''root'', username = ''root'', roles = [''admin'']\<rparr>"
  by (rule admin_token_bound [OF demo_verify_token])

end
