(* ===== verification/Admin_Login.thy ===== *)
theory Admin_Login
  imports Admin_Auth
begin

text \<open>
  Who may administer the gateway: the credential store that rereads its files when their metadata change
  (\<^verbatim>\<open>src/app/admin/admin_credential_store.hpp\<close>), the authorization of an administration request and the login handler
  (\<^verbatim>\<open>src/app/admin/admin_routes.cpp\<close>). The handler gives up its thread between accepting the request and checking the
  password, so it is two steps, and the state and the files may have changed in between. Metrics and log lines are left out.
\<close>

section \<open>The credential store\<close>

record file_stamp =
  st_path :: string
  st_exists :: bool
  st_size :: nat
  st_modified :: int

text \<open>A failing size query returns the largest value, a failing time query the smallest.\<close>

definition stamp_file :: "file_system \<Rightarrow> string \<Rightarrow> file_stamp" where
  "stamp_file fs path =
     (let absent = \<lparr>st_path = path, st_exists = False, st_size = 0, st_modified = 0\<rparr> in
      case fs path of
        None \<Rightarrow> absent
      | Some f \<Rightarrow>
          if \<not> fi_regular f then absent
          else
            (case fi_size f of
               None \<Rightarrow> absent\<lparr>st_size := 2 ^ 64 - 1\<rparr>
             | Some n \<Rightarrow>
                 (case fi_modified f of
                    None \<Rightarrow> absent\<lparr>st_size := n, st_modified := - (2 ^ 63)\<rparr>
                  | Some m \<Rightarrow> \<lparr>st_path = path, st_exists = True, st_size = n, st_modified = m\<rparr>)))"

record cred_snapshot =
  sn_config :: admin_config
  sn_private_key_pem :: string
  sn_public_key_pem :: string
  sn_verifier :: "jwt_auth option"
  sn_error :: string
  sn_loaded :: bool
  sn_configured :: bool

record cred_store =
  cs_base :: string
  cs_stamp :: "file_stamp list"
  cs_snapshot :: "cred_snapshot option"

definition cred_store_new :: "string \<Rightarrow> cred_store" where
  "cred_store_new base = \<lparr>cs_base = base, cs_stamp = [], cs_snapshot = None\<rparr>"

definition key_paths :: "string \<Rightarrow> admin_config \<Rightarrow> string list" where
  "key_paths base admin =
     map (\<lambda>v. if starts_with ''/'' v then v else path_join base v)
       (filter (\<lambda>v. v \<noteq> [] \<and> \<not> has_pem v) [ac_jwt_private_key admin, ac_jwt_public_key admin])"

definition source_stamp :: "file_system \<Rightarrow> string \<Rightarrow> cred_snapshot option \<Rightarrow> file_stamp list" where
  "source_stamp fs base snap =
     (if base = [] then []
      else
        map (\<lambda>name. stamp_file fs (local_path base name)) local_files @
        (case snap of
           None \<Rightarrow> []
         | Some s \<Rightarrow> if sn_loaded s then map (stamp_file fs) (key_paths base (sn_config s)) else []))"

definition admin_config0 :: admin_config where
  "admin_config0 = \<lparr>ac_accounts = [], ac_jwt_private_key = [], ac_jwt_public_key = [], ac_token_ttl_min = 120,
     ac_insecure_no_auth = False\<rparr>"

definition snapshot0 :: cred_snapshot where
  "snapshot0 = \<lparr>sn_config = admin_config0, sn_private_key_pem = [], sn_public_key_pem = [], sn_verifier = None,
     sn_error = [], sn_loaded = False, sn_configured = False\<rparr>"

fun jwt_what :: "jwt_error \<Rightarrow> string" where
  "jwt_what (Jwt_runtime_error s) = s"

definition load_keys :: "jwt_lib \<Rightarrow> file_system \<Rightarrow> string \<Rightarrow> admin_config \<Rightarrow> cred_snapshot" where
  "load_keys lib fs base config =
     (let private_key = (case load_pem_or_file fs (ac_jwt_private_key config) base of None \<Rightarrow> [] | Some k \<Rightarrow> k);
          public_key = (case load_pem_or_file fs (ac_jwt_public_key config) base of None \<Rightarrow> [] | Some k \<Rightarrow> k);
          made = (if public_key = [] then Inl []
                  else map_sum jwt_what id
                    (jwt_auth_new lib ''admin-rs256-unused-secret'' kAdminIssuer ''RS256'' public_key));
          verifier = (case made of Inl _ \<Rightarrow> None | Inr auth \<Rightarrow> Some auth);
          err = (case made of Inl e \<Rightarrow> e | Inr _ \<Rightarrow> []);
          configured = (ac_accounts config \<noteq> [] \<and> private_key \<noteq> [] \<and> verifier \<noteq> None)
      in \<lparr>sn_config = config, sn_private_key_pem = private_key, sn_public_key_pem = public_key, sn_verifier = verifier,
          sn_error = (if \<not> configured \<and> err = [] then ''admin API is not configured'' else err),
          sn_loaded = True, sn_configured = configured\<rparr>)"

definition load_locked :: "jwt_lib \<Rightarrow> file_system \<Rightarrow> string \<Rightarrow> admin_config option \<Rightarrow> cred_snapshot" where
  "load_locked lib fs base fallback =
     (if base = [] then
        (case fallback of
           None \<Rightarrow> snapshot0\<lparr>sn_error := ''config base is unavailable''\<rparr>
         | Some config \<Rightarrow> load_keys lib fs base config)
      else
        (case load_local_admin_config fs base of
           Inl err \<Rightarrow> snapshot0\<lparr>sn_error := (if err = [] then ''admin config unavailable'' else err)\<rparr>
         | Inr config \<Rightarrow> load_keys lib fs base config))"

definition store_snapshot ::
  "jwt_lib \<Rightarrow> file_system \<Rightarrow> cred_store \<Rightarrow> admin_config option \<Rightarrow> cred_snapshot \<times> cred_store" where
  "store_snapshot lib fs st fallback =
     (let stamp = source_stamp fs (cs_base st) (cs_snapshot st) in
      case cs_snapshot st of
        Some s \<Rightarrow>
          if stamp \<noteq> cs_stamp st
          then let s' = load_locked lib fs (cs_base st) fallback in (s', st\<lparr>cs_snapshot := Some s', cs_stamp := stamp\<rparr>)
          else (s, st)
      | None \<Rightarrow> let s' = load_locked lib fs (cs_base st) fallback in (s', st\<lparr>cs_snapshot := Some s', cs_stamp := stamp\<rparr>))"

definition store_configured :: "jwt_lib \<Rightarrow> file_system \<Rightarrow> cred_store \<Rightarrow> admin_config option \<Rightarrow> bool \<times> cred_store" where
  "store_configured lib fs st fallback = apfst sn_configured (store_snapshot lib fs st fallback)"

definition store_issue ::
  "crypto \<Rightarrow> jwt_lib \<Rightarrow> file_system \<Rightarrow> int \<Rightarrow> cred_store \<Rightarrow> string \<Rightarrow> admin_config option \<Rightarrow> issued_token option \<times> cred_store" where
  "store_issue cr lib fs now st user fallback =
     (case store_snapshot lib fs st fallback of
        (current, st') \<Rightarrow>
          (if \<not> sn_configured current then None
           else issue_admin_token_with_pem cr now (sn_config current) user (sn_private_key_pem current), st'))"

definition store_verify ::
  "crypto \<Rightarrow> jwt_lib \<Rightarrow> file_system \<Rightarrow> int \<Rightarrow> cred_store \<Rightarrow> string \<Rightarrow> admin_config option \<Rightarrow> principal option \<times> cred_store" where
  "store_verify cr lib fs now st auth_header fallback =
     (case store_snapshot lib fs st fallback of
        (current, st') \<Rightarrow>
          (case (sn_configured current, sn_verifier current) of
             (True, Some auth) \<Rightarrow> verify_admin_token_with_auth cr lib now (sn_config current) auth_header auth
           | _ \<Rightarrow> None, st'))"

subsection \<open>The store gives what the files say now\<close>

lemma stamp_path [simp]: "st_path (stamp_file fs p) = p"
  by (simp add: stamp_file_def Let_def split: option.splits)

text \<open>Two states of the file system between which every change of a file shows in its metadata.\<close>

definition changes_show :: "file_system \<Rightarrow> file_system \<Rightarrow> bool" where
  "changes_show fs0 fs \<longleftrightarrow> (\<forall>p. stamp_file fs0 p = stamp_file fs p \<longrightarrow> fs0 p = fs p)"

lemma load_local_files_cong:
  "\<forall>name \<in> set names. fs0 (local_path base name) = fs (local_path base name) \<Longrightarrow>
   load_local_files fs0 base cfg b names = load_local_files fs base cfg b names"
  by (induction names arbitrary: cfg b) (auto simp: file_text_def split: prod.splits bool.splits)

lemma load_keys_cong:
  assumes "base \<noteq> []" and "\<forall>p \<in> set (key_paths base config). fs0 p = fs p"
  shows "load_keys lib fs0 base config = load_keys lib fs base config"
proof -
  have "load_pem_or_file fs0 v base = load_pem_or_file fs v base"
    if "v \<in> {ac_jwt_private_key config, ac_jwt_public_key config}" for v
    using assms that by (auto simp: load_pem_or_file_def key_paths_def file_text_def Let_def split: if_splits)
  then show ?thesis by (simp add: load_keys_def)
qed

lemma map_stamp_eq:
  "map (stamp_file fs) ps = map (stamp_file fs0) qs \<Longrightarrow> ps = qs \<and> (\<forall>p \<in> set ps. stamp_file fs p = stamp_file fs0 p)"
proof (induction ps arbitrary: qs)
  case (Cons p ps)
  then obtain q qs' where q: "qs = q # qs'" "stamp_file fs p = stamp_file fs0 q" by (cases qs) auto
  moreover from arg_cong [OF q(2), of st_path] have "p = q" by simp
  ultimately show ?case using Cons.IH [of qs'] Cons.prems by simp
qed simp

lemma same_stamp_same_load:
  assumes "changes_show fs0 fs" and "base \<noteq> []"
    and "source_stamp fs base (Some (load_locked lib fs0 base fb)) = source_stamp fs0 base prev"
  shows "load_locked lib fs0 base fb = load_locked lib fs base fb"
proof -
  let ?s = "load_locked lib fs0 base fb"
  define keys where "keys = (if sn_loaded ?s then key_paths base (sn_config ?s) else [])"
  obtain qs where qs: "source_stamp fs0 base prev = map (stamp_file fs0) (map (local_path base) local_files @ qs)"
  proof
    show "source_stamp fs0 base prev = map (stamp_file fs0) (map (local_path base) local_files @
      (case prev of None \<Rightarrow> [] | Some s \<Rightarrow> if sn_loaded s then key_paths base (sn_config s) else []))"
      using assms(2) by (simp add: source_stamp_def comp_def split: option.splits)
  qed
  have "source_stamp fs base (Some ?s) = map (stamp_file fs) (map (local_path base) local_files @ keys)"
    using assms(2) by (simp add: source_stamp_def keys_def comp_def)
  from map_stamp_eq [of fs _ fs0] this assms(3) qs
  have "\<forall>p \<in> set (map (local_path base) local_files @ keys). stamp_file fs p = stamp_file fs0 p" by metis
  then have same: "\<forall>p \<in> set (map (local_path base) local_files @ keys). fs0 p = fs p"
    using assms(1) by (auto simp: changes_show_def)
  then have "load_local_admin_config fs0 base = load_local_admin_config fs base"
    using load_local_files_cong [of local_files fs0 base fs] by (simp add: load_local_admin_config_def)
  moreover have "load_keys lib fs0 base config = load_keys lib fs base config"
    if "load_local_admin_config fs0 base = Inr config" for config
  proof (rule load_keys_cong [OF assms(2)])
    have "?s = load_keys lib fs0 base config" using that assms(2) by (simp add: load_locked_def)
    then have "keys = key_paths base config" by (simp add: keys_def load_keys_def Let_def)
    with same show "\<forall>p \<in> set (key_paths base config). fs0 p = fs p" by simp
  qed
  ultimately show ?thesis using assms(2) by (simp add: load_locked_def split: sum.splits)
qed

text \<open>A run of the store: the snapshot of each call, on the files of its moment.\<close>

fun store_run :: "jwt_lib \<Rightarrow> admin_config option \<Rightarrow> cred_store \<Rightarrow> file_system list \<Rightarrow> cred_snapshot list" where
  "store_run lib fb st [] = []"
| "store_run lib fb st (fs # fss) =
     (case store_snapshot lib fs st fb of (s, st') \<Rightarrow> s # store_run lib fb st' fss)"

text \<open>What the store holds was loaded from one of the earlier states of the files, together with its stamp.\<close>

definition store_inv :: "jwt_lib \<Rightarrow> admin_config option \<Rightarrow> cred_store \<Rightarrow> file_system list \<Rightarrow> bool" where
  "store_inv lib fb st past \<longleftrightarrow>
     (case cs_snapshot st of
        None \<Rightarrow> True
      | Some s \<Rightarrow> \<exists>fs0 \<in> set past. \<exists>prev. s = load_locked lib fs0 (cs_base st) fb \<and> cs_stamp st = source_stamp fs0 (cs_base st) prev)"

lemma store_snapshot_current:
  assumes "store_inv lib fb st past" and "cs_base st \<noteq> []" and "\<forall>fs0 \<in> set past. changes_show fs0 fs"
    and "store_snapshot lib fs st fb = (s, st')"
  shows "s = load_locked lib fs (cs_base st) fb \<and> store_inv lib fb st' (fs # past) \<and> cs_base st' = cs_base st"
proof (cases "\<exists>s0. cs_snapshot st = Some s0 \<and> source_stamp fs (cs_base st) (Some s0) = cs_stamp st")
  case True
  then obtain s0 where s0: "cs_snapshot st = Some s0" "source_stamp fs (cs_base st) (Some s0) = cs_stamp st" by blast
  from assms(1) s0(1) obtain fs0 prev where f: "fs0 \<in> set past" "s0 = load_locked lib fs0 (cs_base st) fb"
    "cs_stamp st = source_stamp fs0 (cs_base st) prev" by (auto simp: store_inv_def)
  have "load_locked lib fs0 (cs_base st) fb = load_locked lib fs (cs_base st) fb"
    by (rule same_stamp_same_load [where prev = prev]) (use assms(2,3) f s0(2) in auto)
  moreover have "s = s0" "st' = st" using assms(4) s0 by (simp_all add: store_snapshot_def)
  ultimately show ?thesis using f assms(1) s0(1) by (auto simp: store_inv_def)
next
  case False
  then have "s = load_locked lib fs (cs_base st) fb"
    and "st' = st\<lparr>cs_snapshot := Some s, cs_stamp := source_stamp fs (cs_base st) (cs_snapshot st)\<rparr>"
    using assms(4) by (auto simp: store_snapshot_def Let_def split: option.splits if_splits)
  then show ?thesis by (auto simp: store_inv_def)
qed

lemma store_run_current:
  assumes "store_inv lib fb st past" and "cs_base st \<noteq> []"
    and "sorted_wrt changes_show (rev past @ fss)"
  shows "store_run lib fb st fss = map (\<lambda>fs. load_locked lib fs (cs_base st) fb) fss"
  using assms
proof (induction fss arbitrary: st past)
  case (Cons fs fss)
  obtain s st' where s: "store_snapshot lib fs st fb = (s, st')" by fastforce
  have "\<forall>fs0 \<in> set past. changes_show fs0 fs" using Cons.prems(3) by (simp add: sorted_wrt_append)
  from store_snapshot_current [OF Cons.prems(1,2) this s]
  have "s = load_locked lib fs (cs_base st) fb" "store_inv lib fb st' (fs # past)" "cs_base st' = cs_base st" by auto
  with Cons.IH [of st' "fs # past"] Cons.prems s show ?case by simp
qed simp


definition demo_file :: "string \<Rightarrow> int \<Rightarrow> file_info" where
  "demo_file text m = \<lparr>fi_regular = True, fi_size = Some (length text), fi_modified = Some m, fi_content = Some text\<rparr>"

definition demo_ini_path :: string where
  "demo_ini_path = local_path ''/etc'' ''99-local.ini''"

lemma demo_changes_show:
  "changes_show Map.empty [demo_ini_path \<mapsto> demo_file t m]"
  "m \<noteq> m' \<Longrightarrow> changes_show [demo_ini_path \<mapsto> demo_file t m] [demo_ini_path \<mapsto> demo_file t' m']"
  "changes_show [demo_ini_path \<mapsto> demo_file t m] Map.empty"
  by (auto simp: changes_show_def stamp_file_def demo_file_def)


section \<open>Authorization\<close>

text \<open>The parts of \<^verbatim>\<open>AppServices\<close> the handlers use; a null pointer is \<open>None\<close>.\<close>

record admin_services =
  sv_config_base :: string
  sv_admin :: admin_config
  sv_credentials :: "cred_store option"
  sv_throttle :: "throttle option"
  sv_limiter :: "nat option"

definition sv_fallback :: "admin_services \<Rightarrow> admin_config option" where
  "sv_fallback sv = (if sv_config_base sv = [] then Some (sv_admin sv) else None)"

definition add_default_header :: "string \<Rightarrow> string \<Rightarrow> http_context \<Rightarrow> http_context" where
  "add_default_header name val ctx =
     (if get_header_value (cx_response_headers ctx) name = []
      then ctx\<lparr>cx_response_headers := cx_response_headers ctx @ [(name, val)]\<rparr> else ctx)"

definition set_json :: "http_context \<Rightarrow> http_context" where
  "set_json ctx = add_default_header ''Cache-Control'' ''no-store''
     (add_default_header ''Content-Type'' ''application/json'' ctx)"

definition respond :: "int \<Rightarrow> string \<Rightarrow> http_context \<Rightarrow> http_context" where
  "respond status content ctx = ctx\<lparr>cx_status_code := status, cx_response_body := content\<rparr>"

definition load_effective_admin_config ::
  "jwt_lib \<Rightarrow> file_system \<Rightarrow> admin_services \<Rightarrow> admin_config option \<times> admin_services" where
  "load_effective_admin_config lib fs sv =
     (case sv_credentials sv of
        Some st \<Rightarrow>
          (case store_snapshot lib fs st (sv_fallback sv) of
             (s, st') \<Rightarrow> (if sn_loaded s then Some (sn_config s) else None, sv\<lparr>sv_credentials := Some st'\<rparr>))
      | None \<Rightarrow>
          (case load_local_admin_config fs (sv_config_base sv) of
             Inr admin \<Rightarrow> (Some admin, sv)
           | Inl _ \<Rightarrow> (if sv_config_base sv = [] then Some (sv_admin sv) else None, sv)))"

definition sv_configured :: "jwt_lib \<Rightarrow> file_system \<Rightarrow> admin_services \<Rightarrow> admin_config \<Rightarrow> bool \<times> admin_services" where
  "sv_configured lib fs sv admin =
     (case sv_credentials sv of
        Some st \<Rightarrow> apsnd (\<lambda>st'. sv\<lparr>sv_credentials := Some st'\<rparr>) (store_configured lib fs st (sv_fallback sv))
      | None \<Rightarrow> (admin_configured fs admin (sv_config_base sv), sv))"

definition sv_verify ::
  "crypto \<Rightarrow> jwt_lib \<Rightarrow> file_system \<Rightarrow> int \<Rightarrow> admin_services \<Rightarrow> admin_config \<Rightarrow> string \<Rightarrow> principal option \<times> admin_services" where
  "sv_verify cr lib fs now sv admin auth_header =
     (case sv_credentials sv of
        Some st \<Rightarrow> apsnd (\<lambda>st'. sv\<lparr>sv_credentials := Some st'\<rparr>) (store_verify cr lib fs now st auth_header (sv_fallback sv))
      | None \<Rightarrow> (verify_admin_token cr lib fs now admin auth_header (sv_config_base sv), sv))"

definition sv_issue ::
  "crypto \<Rightarrow> jwt_lib \<Rightarrow> file_system \<Rightarrow> int \<Rightarrow> admin_services \<Rightarrow> admin_config \<Rightarrow> string \<Rightarrow> issued_token option \<times> admin_services" where
  "sv_issue cr lib fs now sv admin user =
     (case sv_credentials sv of
        Some st \<Rightarrow> apsnd (\<lambda>st'. sv\<lparr>sv_credentials := Some st'\<rparr>) (store_issue cr lib fs now st user (sv_fallback sv))
      | None \<Rightarrow> (issue_admin_token cr fs now admin user (sv_config_base sv), sv))"

definition SERVER_ERROR :: int where "SERVER_ERROR = 500"
definition PARAM_ERROR :: int where "PARAM_ERROR = 400"

definition not_configured :: "http_context \<Rightarrow> http_context" where
  "not_configured = respond 503 (resp_err SERVER_ERROR ''admin API is not configured'')"

definition authorize_admin ::
  "crypto \<Rightarrow> jwt_lib \<Rightarrow> file_system \<Rightarrow> int \<Rightarrow> admin_services \<Rightarrow> http_context \<Rightarrow> bool \<times> http_context \<times> admin_services" where
  "authorize_admin cr lib fs now sv ctx0 =
     (let ctx = set_json ctx0 in
      case load_effective_admin_config lib fs sv of
        (None, sv1) \<Rightarrow> (False, not_configured ctx, sv1)
      | (Some admin, sv1) \<Rightarrow>
          if ac_insecure_no_auth admin then (True, ctx\<lparr>cx_admin_principal := None\<rparr>, sv1)
          else
            (case sv_configured lib fs sv1 admin of
               (False, sv2) \<Rightarrow> (False, not_configured ctx, sv2)
             | (True, sv2) \<Rightarrow>
                 (case sv_verify cr lib fs now sv2 admin (get_header ctx ''Authorization'') of
                    (None, sv3) \<Rightarrow> (False, respond 401 (resp_err 401 ''admin token required'') ctx, sv3)
                  | (Some p, sv3) \<Rightarrow>
                      if \<not> has_role p ''admin'' then (False, respond 403 (resp_err 403 ''admin role required'') ctx, sv3)
                      else (True, ctx\<lparr>cx_admin_principal := Some p\<rparr>, sv3))))"

subsection \<open>Facts\<close>

text \<open>A store whose content was loaded, at some time, by this library from this base.\<close>

definition store_loaded :: "jwt_lib \<Rightarrow> cred_store \<Rightarrow> bool" where
  "store_loaded lib st \<longleftrightarrow>
     (\<forall>s. cs_snapshot st = Some s \<longrightarrow> (\<exists>fs fb. s = load_locked lib fs (cs_base st) fb))"

lemma store_snapshot_loaded:
  assumes "store_loaded lib st" and "store_snapshot lib fs st fb = (s, st')"
  shows "store_loaded lib st'" and "\<exists>fs fb. s = load_locked lib fs (cs_base st) fb" and "cs_base st' = cs_base st"
  using assms by (auto simp: store_snapshot_def store_loaded_def Let_def split: option.splits if_splits) blast+

lemma map_sum_id_Inr [simp]: "map_sum f id x = Inr y \<longleftrightarrow> x = Inr y"
  by (cases x) auto

text \<open>A second call on the same files may load again, and gives the same.\<close>

lemma store_snapshot_again:
  "store_snapshot lib fs st fb = (s, st') \<Longrightarrow> fst (store_snapshot lib fs st' fb) = s"
  by (auto simp: store_snapshot_def Let_def split: option.splits if_splits)

lemma load_locked_verifier:
  assumes "s = load_locked lib fs base fb" and "sn_verifier s = Some auth"
  shows "jwt_auth_new lib ''admin-rs256-unused-secret'' kAdminIssuer ''RS256'' (sn_public_key_pem s) = Inr auth"
  using assms
  by (auto simp: load_locked_def load_keys_def snapshot0_def Let_def split: if_splits option.splits sum.splits)

lemma store_verify_bound:
  assumes "store_loaded lib st" and "fst (store_verify cr lib fs now st auth_header fb) = Some p"
    and "fst (store_snapshot lib fs st fb) = s"
  shows "sn_configured s \<and> token_bound cr lib now (sn_config s) auth_header (sn_public_key_pem s) p"
proof -
  obtain st1 where s: "store_snapshot lib fs st fb = (s, st1)" using assms(3) by (cases "store_snapshot lib fs st fb") auto
  with assms(2) obtain auth where a: "sn_configured s" "sn_verifier s = Some auth"
    "verify_admin_token_with_auth cr lib now (sn_config s) auth_header auth = Some p"
    by (auto simp: store_verify_def split: bool.splits option.splits)
  from store_snapshot_loaded(2) [OF assms(1) s] obtain fs' fb' where "s = load_locked lib fs' (cs_base st) fb'" by blast
  from accepted_token_bound [OF load_locked_verifier [OF this a(2)] a(3)] a(1) show ?thesis by blast
qed

text \<open>The key the tokens are checked with.\<close>

definition effective_key :: "jwt_lib \<Rightarrow> file_system \<Rightarrow> admin_services \<Rightarrow> admin_config \<Rightarrow> string option" where
  "effective_key lib fs sv admin =
     (case sv_credentials sv of
        Some st \<Rightarrow> Some (sn_public_key_pem (fst (store_snapshot lib fs st (sv_fallback sv))))
      | None \<Rightarrow> load_pem_or_file fs (ac_jwt_public_key admin) (sv_config_base sv))"

definition services_ok :: "jwt_lib \<Rightarrow> admin_services \<Rightarrow> bool" where
  "services_ok lib sv \<longleftrightarrow> (\<forall>st. sv_credentials sv = Some st \<longrightarrow> store_loaded lib st)"

lemma sv_fallback_upd [simp]: "sv_fallback (sv\<lparr>sv_credentials := x\<rparr>) = sv_fallback sv"
  by (simp add: sv_fallback_def)

lemma principal_set_json [simp]: "cx_admin_principal (set_json ctx) = cx_admin_principal ctx"
  by (simp add: set_json_def add_default_header_def)

lemma get_header_set_json [simp]: "get_header (set_json ctx) k = get_header ctx k"
  by (simp add: get_header_def set_json_def add_default_header_def)

lemma sv_verify_bound:
  assumes "services_ok lib sv" and "load_effective_admin_config lib fs sv = (Some admin, sv1)"
    and "sv_configured lib fs sv1 admin = (True, sv2)"
    and "sv_verify cr lib fs now sv2 admin auth_header = (Some p, sv3)"
  shows "\<exists>pk. effective_key lib fs sv admin = Some pk \<and> token_bound cr lib now admin auth_header pk p"
proof (cases "sv_credentials sv")
  case None
  then have "sv1 = sv" "sv2 = sv" using assms(2,3) by (auto simp: load_effective_admin_config_def sv_configured_def split: sum.splits)
  with None assms(4) have "verify_admin_token cr lib fs now admin auth_header (sv_config_base sv) = Some p"
    by (auto simp: sv_verify_def)
  with None accepted_token_bound show ?thesis
    by (fastforce simp: effective_key_def verify_admin_token_def verify_admin_token_with_pem_def split: option.splits sum.splits)
next
  case (Some st)
  let ?fb = "sv_fallback sv"
  obtain s st1 where s: "store_snapshot lib fs st ?fb = (s, st1)" by fastforce
  with Some assms(2) have sv1: "sv1 = sv\<lparr>sv_credentials := Some st1\<rparr>" "admin = sn_config s"
    by (auto simp: load_effective_admin_config_def split: if_splits)
  obtain s2 st2 where s2: "store_snapshot lib fs st1 ?fb = (s2, st2)" by fastforce
  with assms(3) sv1 have sv2: "sv2 = sv\<lparr>sv_credentials := Some st2\<rparr>"
    by (auto simp: sv_configured_def store_configured_def)
  have "s2 = s" using store_snapshot_again [OF s] s2 by simp
  then have "fst (store_snapshot lib fs st2 ?fb) = s" using store_snapshot_again [OF s2] by simp
  moreover have "store_loaded lib st2"
    using assms(1) Some store_snapshot_loaded(1) [OF _ s] store_snapshot_loaded(1) [OF _ s2] by (simp add: services_ok_def)
  moreover have "fst (store_verify cr lib fs now st2 auth_header ?fb) = Some p"
    using assms(4) sv2 by (cases "store_verify cr lib fs now st2 auth_header ?fb") (auto simp: sv_verify_def)
  ultimately show ?thesis using store_verify_bound [of lib st2] Some s sv1(2) by (auto simp: effective_key_def)
qed

text \<open>
  An administration request passes only when the configuration in force turns authentication off, or its bearer token is
  bound to an account of that configuration (signature under the configured key, issuer, expiry, current password record) and
  carries the role admin; the request then runs as that principal. Every other request is answered 401, 403 or 503.
\<close>

lemma authorize_admin_decides:
  assumes "services_ok lib sv"
  shows "(case authorize_admin cr lib fs now sv ctx of
      (True, ctx', _) \<Rightarrow>
        (\<exists>admin. fst (load_effective_admin_config lib fs sv) = Some admin \<and>
           (if ac_insecure_no_auth admin then cx_admin_principal ctx' = None
            else \<exists>p pk. cx_admin_principal ctx' = Some p \<and> ''admin'' \<in> set (roles p) \<and>
              effective_key lib fs sv admin = Some pk \<and>
              token_bound cr lib now admin (get_header ctx ''Authorization'') pk p))
    | (False, ctx', _) \<Rightarrow> cx_status_code ctx' \<in> {401, 403, 503} \<and> cx_admin_principal ctx' = cx_admin_principal ctx)"
proof -
  obtain adm sv1 where a: "load_effective_admin_config lib fs sv = (adm, sv1)" by fastforce
  show ?thesis
  proof (cases adm)
    case None
    with a show ?thesis by (simp add: authorize_admin_def not_configured_def respond_def)
  next
    case (Some admin)
    obtain c sv2 where c: "sv_configured lib fs sv1 admin = (c, sv2)" by fastforce
    obtain v sv3 where v: "sv_verify cr lib fs now sv2 admin (get_header ctx ''Authorization'') = (v, sv3)" by fastforce
    have "\<exists>pk. effective_key lib fs sv admin = Some pk \<and>
      token_bound cr lib now admin (get_header ctx ''Authorization'') pk p" if "c" "v = Some p" for p
      using sv_verify_bound [OF assms, of fs admin sv1 sv2 cr now "get_header ctx ''Authorization''" p sv3] a c v Some that by simp
    then show ?thesis
      using a c v Some
      by (cases c; cases v) (auto simp: authorize_admin_def Let_def not_configured_def respond_def has_role_iff)
  qed
qed

definition demo_services :: admin_services where
  "demo_services = \<lparr>sv_config_base = [], sv_admin = demo_admin, sv_credentials = None, sv_throttle = Some [], sv_limiter = Some 0\<rparr>"

definition demo_request :: http_context where
  "demo_request = \<lparr>cx_method = ''POST'', cx_path = ''/api/admin/configs'', cx_body = [],
     cx_headers = [(''Authorization'', ''Bearer '' @ demo_token)], cx_status_code = 200, cx_status_text = [],
     cx_response_body = [], cx_response_headers = [], cx_principal = None, cx_admin_principal = None, cx_client_ip = [],
     cx_jwt_disabled = False\<rparr>"

lemma demo_configured: "admin_configured Map.empty demo_admin []"
  by (simp add: admin_configured_def load_pem_or_file_def has_pem_def demo_admin_def find_sub.simps starts_with_def)

lemma demo_effective: "load_effective_admin_config lib fs demo_services = (Some demo_admin, demo_services)"
  by (simp add: load_effective_admin_config_def load_local_admin_config_def demo_services_def)

lemma demo_authorized:
  "\<exists>ctx'. authorize_admin demo_crypto demo_token_lib Map.empty 5 demo_services demo_request = (True, ctx', demo_services) \<and>
     cx_admin_principal ctx' = Some \<lparr>subject = ''root'', username = ''root'', roles = [''admin'']\<rparr>"
proof -
  have h: "get_header demo_request ''Authorization'' = ''Bearer '' @ demo_token"
    by (simp add: get_header_def get_header_value_def demo_request_def header_iequals_def)
  have "sv_configured lib Map.empty demo_services demo_admin = (True, demo_services)" for lib
    using demo_configured by (simp add: sv_configured_def demo_services_def)
  moreover have "sv_verify demo_crypto demo_token_lib Map.empty 5 demo_services demo_admin (''Bearer '' @ demo_token) =
      (Some \<lparr>subject = ''root'', username = ''root'', roles = [''admin'']\<rparr>, demo_services)"
    using demo_verify_token by (simp add: sv_verify_def demo_services_def)
  ultimately show ?thesis
    using h by (auto simp: authorize_admin_def demo_effective has_role_iff demo_admin_def)
qed

section \<open>Login\<close>

definition method_not_allowed :: "string \<Rightarrow> http_context \<Rightarrow> http_context" where
  "method_not_allowed allow ctx =
     (let ctx1 = set_json ctx in
      respond 405 (resp_err 405 ''method not allowed'')
        (ctx1\<lparr>cx_response_headers := cx_response_headers ctx1 @ [(''Allow'', allow)]\<rparr>))"

definition admin_login_failed :: "http_context \<Rightarrow> http_context" where
  "admin_login_failed = respond 401 (resp_err 401 ''invalid credentials'')"

record login_job =
  lj_admin :: admin_config
  lj_request :: login_request
  lj_client_ip :: string

text \<open>
  Up to the hand-over to the worker threads: a response, or a job that holds a permit of the limiter. The reader of the body always
  answers; \<open>now\<close> is the steady clock in milliseconds.
\<close>

definition login_accept ::
  "jwt_lib \<Rightarrow> file_system \<Rightarrow> int \<Rightarrow> admin_services \<Rightarrow> http_context \<Rightarrow> http_context \<times> admin_services \<times> login_job option" where
  "login_accept lib fs now sv ctx0 =
     (let ctx = set_json ctx0 in
      if cx_method ctx \<noteq> ''POST'' then (method_not_allowed ''POST'' ctx, sv, None)
      else
        (case load_effective_admin_config lib fs sv of
           (current_admin, sv1) \<Rightarrow>
             (case current_admin of
                None \<Rightarrow> (not_configured ctx, sv1, None)
              | Some admin \<Rightarrow>
                  if ac_accounts admin = [] \<or> ac_jwt_private_key admin = [] \<or> ac_jwt_public_key admin = []
                  then (not_configured ctx, sv1, None)
                  else
                    (case the (parse_login_request (cx_body ctx)) of
                       Inl err \<Rightarrow> (respond 400 (resp_err PARAM_ERROR err) ctx, sv1, None)
                     | Inr request \<Rightarrow>
                         let client_ip = (if cx_client_ip ctx = [] then ''unknown'' else cx_client_ip ctx) in
                         (case sv_throttle sv1 of
                            None \<Rightarrow> (respond 503 (resp_err SERVER_ERROR ''admin login runtime unavailable'') ctx, sv1, None)
                          | Some th \<Rightarrow>
                              (case throttle_locked now th client_ip of
                                 (locked, th') \<Rightarrow>
                                   let sv2 = sv1\<lparr>sv_throttle := Some th'\<rparr> in
                                   if locked then (admin_login_failed ctx, sv2, None)
                                   else
                                     (case Option.bind (sv_limiter sv2) admin_try_acquire of
                                        None \<Rightarrow>
                                          (respond 429 (resp_err 429 ''too many login attempts'')
                                             (ctx\<lparr>cx_response_headers := cx_response_headers ctx @ [(''Retry-After'', ''1'')]\<rparr>),
                                           sv2, None)
                                      | Some n \<Rightarrow>
                                          (ctx, sv2\<lparr>sv_limiter := Some n\<rparr>,
                                           Some \<lparr>lj_admin = admin, lj_request = request, lj_client_ip = client_ip\<rparr>))))))))"

definition token_json :: "issued_token \<Rightarrow> string" where
  "token_json it = ''{'' @ quoted ''token'' @ '':'' @ quoted (json_escape (it_token it)) @ '','' @ quoted ''expires_in'' @ '':'' @
     dec_of_int (it_expires_in it) @ ''}''"

text \<open>On the worker thread, with the state and the files of that moment; the permit is given back on every path.\<close>

definition login_work ::
  "crypto \<Rightarrow> jwt_lib \<Rightarrow> file_system \<Rightarrow> int \<Rightarrow> int \<Rightarrow> admin_services \<Rightarrow> http_context \<Rightarrow> login_job \<Rightarrow> http_context \<times> admin_services" where
  "login_work cr lib fs now_sec now sv ctx job =
     (let leave = (\<lambda>s. s\<lparr>sv_limiter := map_option admin_release (sv_limiter s)\<rparr>);
          user = lo_username (lj_request job)
      in case sv_configured lib fs sv (lj_admin job) of
           (False, sv1) \<Rightarrow> (not_configured ctx, leave sv1)
         | (True, sv1) \<Rightarrow>
             if \<not> verify_admin_password cr (lj_admin job) user (lo_password (lj_request job))
             then (admin_login_failed ctx,
                   leave (sv1\<lparr>sv_throttle := map_option (\<lambda>th. throttle_failure now th (lj_client_ip job)) (sv_throttle sv1)\<rparr>))
             else
               (case sv_issue cr lib fs now_sec sv1 (lj_admin job) user of
                  (None, sv2) \<Rightarrow> (respond 503 (resp_err SERVER_ERROR ''admin token signer is unavailable'') ctx, leave sv2)
                | (Some issued, sv2) \<Rightarrow>
                    (respond 200 (resp_ok (token_json issued)) ctx,
                     leave (sv2\<lparr>sv_throttle := map_option (\<lambda>th. throttle_success th (lj_client_ip job)) (sv_throttle sv2)\<rparr>))))"

subsection \<open>Facts\<close>

lemma parse_login_total: "parse_login_request b \<noteq> None"
  unfolding parse_login_request_def by (rule parse_body_total [OF handlers_total(1)])

lemma load_effective_keeps:
  "load_effective_admin_config lib fs sv = (a, sv') \<Longrightarrow> sv_throttle sv' = sv_throttle sv \<and> sv_limiter sv' = sv_limiter sv"
  by (auto simp: load_effective_admin_config_def split: option.splits prod.splits sum.splits)

lemma sv_calls_keep:
  "sv_throttle (snd (sv_configured lib fs sv admin)) = sv_throttle sv"
  "sv_limiter (snd (sv_configured lib fs sv admin)) = sv_limiter sv"
  "sv_throttle (snd (sv_issue cr lib fs now sv admin user)) = sv_throttle sv"
  "sv_limiter (snd (sv_issue cr lib fs now sv admin user)) = sv_limiter sv"
  by (simp_all add: sv_configured_def sv_issue_def split: option.splits)

text \<open>What the first step has established when it hands over a job.\<close>

definition login_admitted :: "jwt_lib \<Rightarrow> file_system \<Rightarrow> int \<Rightarrow> admin_services \<Rightarrow> http_context \<Rightarrow> login_job \<Rightarrow> bool" where
  "login_admitted lib fs now sv ctx job \<longleftrightarrow>
     cx_method ctx = ''POST'' \<and> fst (load_effective_admin_config lib fs sv) = Some (lj_admin job) \<and>
     parse_login_request (cx_body ctx) = Some (Inr (lj_request job)) \<and>
     (\<exists>th. sv_throttle sv = Some th \<and> \<not> fst (throttle_locked now th (lj_client_ip job))) \<and>
     lj_client_ip job = (if cx_client_ip ctx = [] then ''unknown'' else cx_client_ip ctx) \<and>
     (\<exists>n. sv_limiter sv = Some n \<and> n < kMaxInFlight)"

lemma set_json_keeps [simp]:
  "cx_method (set_json ctx) = cx_method ctx" "cx_body (set_json ctx) = cx_body ctx"
  "cx_client_ip (set_json ctx) = cx_client_ip ctx"
  by (simp_all add: set_json_def add_default_header_def)

lemma login_accept_job:
  assumes "login_accept lib fs now sv ctx = (ctx1, sv1, Some job)"
  shows "login_admitted lib fs now sv ctx job \<and> sv_limiter sv1 = map_option Suc (sv_limiter sv) \<and> ctx1 = set_json ctx"
proof -
  obtain adm sv0 where e: "load_effective_admin_config lib fs sv = (adm, sv0)" by fastforce
  note k = load_effective_keeps [OF e]
  from parse_login_total [of "cx_body ctx"] obtain pr where p: "parse_login_request (cx_body ctx) = Some pr" by blast
  show ?thesis
    using assms k
    by (auto simp: login_accept_def login_admitted_def Let_def e p admin_try_acquire_def bind_eq_Some_conv
        split: if_splits option.splits sum.splits prod.splits)
qed

lemma login_accept_refused:
  assumes "login_accept lib fs now sv ctx = (ctx1, sv1, None)"
  shows "cx_status_code ctx1 \<in> {400, 401, 405, 429, 503} \<and> sv_limiter sv1 = sv_limiter sv"
proof -
  obtain adm sv0 where e: "load_effective_admin_config lib fs sv = (adm, sv0)" by fastforce
  note k = load_effective_keeps [OF e]
  show ?thesis
    using assms k
    by (auto simp: login_accept_def Let_def e respond_def not_configured_def method_not_allowed_def admin_login_failed_def
        split: if_splits option.splits sum.splits prod.splits)
qed

lemma login_work_answer:
  assumes "login_work cr lib fs now_sec now sv ctx job = (ctx', sv')"
  shows "sv_limiter sv' = map_option admin_release (sv_limiter sv)"
    and "cx_status_code ctx' \<in> {200, 401, 503}"
    and "cx_status_code ctx' = 200 \<Longrightarrow>
       verify_admin_password cr (lj_admin job) (lo_username (lj_request job)) (lo_password (lj_request job)) \<and>
       sv_throttle sv' = map_option (\<lambda>th. throttle_success th (lj_client_ip job)) (sv_throttle sv) \<and>
       (\<exists>it. fst (sv_issue cr lib fs now_sec (snd (sv_configured lib fs sv (lj_admin job))) (lj_admin job)
               (lo_username (lj_request job))) = Some it \<and> cx_response_body ctx' = resp_ok (token_json it))"
    and "cx_status_code ctx' = 401 \<Longrightarrow>
       \<not> verify_admin_password cr (lj_admin job) (lo_username (lj_request job)) (lo_password (lj_request job)) \<and>
       sv_throttle sv' = map_option (\<lambda>th. throttle_failure now th (lj_client_ip job)) (sv_throttle sv)"
proof -
  obtain c sv1 where c: "sv_configured lib fs sv (lj_admin job) = (c, sv1)" by fastforce
  obtain i sv2 where i: "sv_issue cr lib fs now_sec sv1 (lj_admin job) (lo_username (lj_request job)) = (i, sv2)" by fastforce
  note keep = sv_calls_keep(1,2) [of lib fs sv "lj_admin job", unfolded c]
    sv_calls_keep(3,4) [of cr lib fs now_sec sv1 "lj_admin job" "lo_username (lj_request job)", unfolded i]
  note defs = login_work_def Let_def respond_def not_configured_def admin_login_failed_def
  show "sv_limiter sv' = map_option admin_release (sv_limiter sv)"
    and "cx_status_code ctx' \<in> {200, 401, 503}"
    and "cx_status_code ctx' = 200 \<Longrightarrow>
       verify_admin_password cr (lj_admin job) (lo_username (lj_request job)) (lo_password (lj_request job)) \<and>
       sv_throttle sv' = map_option (\<lambda>th. throttle_success th (lj_client_ip job)) (sv_throttle sv) \<and>
       (\<exists>it. fst (sv_issue cr lib fs now_sec (snd (sv_configured lib fs sv (lj_admin job))) (lj_admin job)
               (lo_username (lj_request job))) = Some it \<and> cx_response_body ctx' = resp_ok (token_json it))"
    and "cx_status_code ctx' = 401 \<Longrightarrow>
       \<not> verify_admin_password cr (lj_admin job) (lo_username (lj_request job)) (lo_password (lj_request job)) \<and>
       sv_throttle sv' = map_option (\<lambda>th. throttle_failure now th (lj_client_ip job)) (sv_throttle sv)"
    using assms c i keep
    by (cases c; cases i; auto simp: defs split: if_splits)+
qed

text \<open>
  C26. A login is answered with a token only if the request was a POST with a well-formed body from an address that was not locked
  out, a permit of the work limiter was free, and the password matches the stored record of the named account; the address's
  failure record is then cleared. A wrong password is answered 401 and counted against the address. Whatever the outcome, and
  whatever other requests did meanwhile, the permit is given back.
\<close>

theorem login_needs_password:
  assumes "login_accept lib fs now sv ctx = (ctx1, sv1, job)"
  shows "(case job of
      None \<Rightarrow> cx_status_code ctx1 \<in> {400, 401, 405, 429, 503} \<and> sv_limiter sv1 = sv_limiter sv
    | Some j \<Rightarrow>
        login_admitted lib fs now sv ctx j \<and> sv_limiter sv1 = map_option Suc (sv_limiter sv) \<and>
        (\<forall>cr fs' now_sec now' sv2. case login_work cr lib fs' now_sec now' sv2 ctx1 j of (ctx', sv') \<Rightarrow>
           sv_limiter sv' = map_option admin_release (sv_limiter sv2) \<and> cx_status_code ctx' \<in> {200, 401, 503} \<and>
           (cx_status_code ctx' = 200 \<longrightarrow>
              verify_admin_password cr (lj_admin j) (lo_username (lj_request j)) (lo_password (lj_request j)) \<and>
              sv_throttle sv' = map_option (\<lambda>th. throttle_success th (lj_client_ip j)) (sv_throttle sv2)) \<and>
           (cx_status_code ctx' = 401 \<longrightarrow>
              \<not> verify_admin_password cr (lj_admin j) (lo_username (lj_request j)) (lo_password (lj_request j)) \<and>
              sv_throttle sv' = map_option (\<lambda>th. throttle_failure now' th (lj_client_ip j)) (sv_throttle sv2))))"
proof (cases job)
  case None
  with login_accept_refused assms show ?thesis by simp
next
  case (Some j)
  with login_accept_job assms login_work_answer [of _ lib _ _ _ _ ctx1 j] show ?thesis
    by (auto split: prod.splits)
qed

definition demo_login_body :: string where
  "demo_login_body = ''{'' @ quoted ''username'' @ '':'' @ quoted ''root'' @ '','' @ quoted ''password'' @ '':'' @ quoted ''pw'' @ ''}''"

lemma demo_login_parsed:
  "parse_login_request demo_login_body = Some (Inr \<lparr>lo_username = ''root'', lo_password = ''pw''\<rparr>)"
  by code_simp

definition demo_login :: http_context where
  "demo_login = demo_request\<lparr>cx_body := demo_login_body\<rparr>"

definition demo_job :: login_job where
  "demo_job = \<lparr>lj_admin = demo_admin, lj_request = \<lparr>lo_username = ''root'', lo_password = ''pw''\<rparr>, lj_client_ip = ''unknown''\<rparr>"

lemma demo_accept:
  "login_accept demo_token_lib Map.empty 0 demo_services demo_login =
     (set_json demo_login, demo_services\<lparr>sv_limiter := Some 1\<rparr>, Some demo_job)"
proof -
  have ctx: "cx_method demo_login = ''POST''" "cx_body demo_login = demo_login_body" "cx_client_ip demo_login = []"
    by (simp_all add: demo_login_def demo_request_def)
  have adm: "ac_accounts demo_admin \<noteq> []" "ac_jwt_private_key demo_admin \<noteq> []" "ac_jwt_public_key demo_admin \<noteq> []"
    by (simp_all add: demo_admin_def)
  have sv: "sv_throttle demo_services = Some []" "sv_limiter demo_services = Some 0"
    by (simp_all add: demo_services_def)
  have "throttle_locked 0 [] ''unknown'' = (False, [])"
    by (simp add: throttle_locked_def sweep_expired_def)
  moreover have "demo_services\<lparr>sv_throttle := Some [], sv_limiter := Some 1\<rparr> = demo_services\<lparr>sv_limiter := Some 1\<rparr>"
    by (simp add: demo_services_def)
  ultimately show ?thesis
    by (simp add: login_accept_def demo_effective ctx adm sv demo_login_parsed demo_job_def admin_try_acquire_def
        kMaxInFlight_def)
qed

theorem login_needs_password_witness:
  "login_admitted demo_token_lib Map.empty 0 demo_services demo_login demo_job \<and>
   (\<exists>ctx' sv'. login_work demo_crypto demo_token_lib Map.empty 0 0 (demo_services\<lparr>sv_limiter := Some 1\<rparr>) (set_json demo_login)
      demo_job = (ctx', sv') \<and> cx_status_code ctx' = 200 \<and>
      verify_admin_password demo_crypto demo_admin ''root'' ''pw'' \<and> sv_limiter sv' = Some 0)"
proof -
  let ?sv = "demo_services\<lparr>sv_limiter := Some 1\<rparr>"
  obtain ctx' sv' where w: "login_work demo_crypto demo_token_lib Map.empty 0 0 ?sv (set_json demo_login) demo_job = (ctx', sv')"
    by fastforce
  note accepted = login_needs_password [OF demo_accept, unfolded option.case]
  note answered = accepted [THEN conjunct2, THEN conjunct2, THEN spec, of demo_crypto, THEN spec, of Map.empty,
      THEN spec, of 0, THEN spec, of 0, THEN spec, of "?sv", unfolded w prod.case]
  note demo_password
  moreover have "sv_configured demo_token_lib Map.empty ?sv demo_admin = (True, ?sv)"
    using demo_configured by (simp add: sv_configured_def demo_services_def)
  moreover have "\<exists>it. sv_issue demo_crypto demo_token_lib Map.empty 0 ?sv demo_admin ''root'' = (Some it, ?sv)"
    using demo_version
    by (simp add: sv_issue_def issue_admin_token_def issue_admin_token_with_pem_def load_pem_or_file_def has_pem_def
        demo_services_def demo_private_key find_sub.simps starts_with_def demo_crypto_def Let_def)
  ultimately have "cx_status_code ctx' = 200"
    using w by (auto simp: login_work_def demo_job_def respond_def)
  moreover have "sv_limiter sv' = Some 0 \<and> login_admitted demo_token_lib Map.empty 0 demo_services demo_login demo_job \<and>
     verify_admin_password demo_crypto demo_admin ''root'' ''pw''"
    using accepted [THEN conjunct1] answered demo_password by (simp add: admin_release_def wrap64_def SIZE_MAX_def)
  ultimately show ?thesis using w by blast
qed

end
