(* ===== verification/Rate_Global.thy ===== *)
theory Rate_Global
  imports Rate_Limiter
begin

text \<open>
  \<^verbatim>\<open>check_global\<close> of \<^verbatim>\<open>src/security/rate_limiter.hpp\<close> under concurrency. Worker threads share the two
  atomics of \<^verbatim>\<open>GlobalBucket\<close> and take no lock; a step of the relation is one atomic operation of one
  thread. The counters \<open>added\<close> and \<open>served\<close> record, for the statements, the
  millitokens that refills added and the requests admitted.
\<close>

datatype global_pc =
    Idle
  | Loaded int int            \<comment> \<open>\<open>now\<close> and the value read from \<^verbatim>\<open>last_refill_ms\<close>\<close>
  | Refilling int             \<comment> \<open>won the refill: \<^verbatim>\<open>add_milli\<close>\<close>
  | Swapping int int          \<comment> \<open>\<^verbatim>\<open>add_milli\<close> and the expected value \<^verbatim>\<open>old_t\<close>\<close>
  | Charging                  \<comment> \<open>before \<^verbatim>\<open>fetch_sub\<close>\<close>
  | Refunding                 \<comment> \<open>rejected, before \<^verbatim>\<open>fetch_add\<close>\<close>
  | Finished bool

record global_state =
  g_tokens :: int
  g_last :: int
  g_pc :: "global_pc list"
  added :: int
  served :: int

definition add_milli :: "rounding \<Rightarrow> rat \<Rightarrow> int \<Rightarrow> int" where
  "add_milli rnd rate elapsed = trunc (rnd (rnd (of_int elapsed) * rate))"

definition burst_milli :: "rounding \<Rightarrow> rat \<Rightarrow> int" where
  "burst_milli rnd burst = trunc (rnd (burst * 1000))"

text \<open>
  \<open>cas_weak_fail\<close> covers both a changed value and a spurious failure of
  \<^verbatim>\<open>compare_exchange_weak\<close>: the expected value is reloaded.
\<close>

inductive global_step :: "rounding \<Rightarrow> rat \<Rightarrow> rat \<Rightarrow> global_state \<Rightarrow> global_state \<Rightarrow> bool"
  for rnd rate burst where
  load: "t < length (g_pc s) \<Longrightarrow> g_pc s ! t = Idle \<Longrightarrow>
    global_step rnd rate burst s (s\<lparr>g_pc := (g_pc s)[t := Loaded now (g_last s)]\<rparr>)"
| no_time: "t < length (g_pc s) \<Longrightarrow> g_pc s ! t = Loaded now seen \<Longrightarrow> now - seen \<le> 0 \<Longrightarrow>
    global_step rnd rate burst s (s\<lparr>g_pc := (g_pc s)[t := Charging]\<rparr>)"
| cas_lost: "t < length (g_pc s) \<Longrightarrow> g_pc s ! t = Loaded now seen \<Longrightarrow> now - seen > 0 \<Longrightarrow> g_last s \<noteq> seen \<Longrightarrow>
    global_step rnd rate burst s (s\<lparr>g_pc := (g_pc s)[t := Charging]\<rparr>)"
| cas_won: "t < length (g_pc s) \<Longrightarrow> g_pc s ! t = Loaded now seen \<Longrightarrow> now - seen > 0 \<Longrightarrow> g_last s = seen \<Longrightarrow>
    global_step rnd rate burst s
      (s\<lparr>g_last := now, g_pc := (g_pc s)[t := Refilling (add_milli rnd rate (now - seen))]\<rparr>)"
| load_tokens: "t < length (g_pc s) \<Longrightarrow> g_pc s ! t = Refilling add \<Longrightarrow>
    global_step rnd rate burst s (s\<lparr>g_pc := (g_pc s)[t := Swapping add (g_tokens s)]\<rparr>)"
| cas_weak_fail: "t < length (g_pc s) \<Longrightarrow> g_pc s ! t = Swapping add old \<Longrightarrow>
    global_step rnd rate burst s (s\<lparr>g_pc := (g_pc s)[t := Swapping add (g_tokens s)]\<rparr>)"
| refill: "t < length (g_pc s) \<Longrightarrow> g_pc s ! t = Swapping add old \<Longrightarrow> g_tokens s = old \<Longrightarrow> new = min (burst_milli rnd burst) (old + add) \<Longrightarrow>
    global_step rnd rate burst s
      (s\<lparr>g_tokens := new, added := added s + (new - old), g_pc := (g_pc s)[t := Charging]\<rparr>)"
| charge_ok: "t < length (g_pc s) \<Longrightarrow> g_pc s ! t = Charging \<Longrightarrow> g_tokens s \<ge> 1000 \<Longrightarrow>
    global_step rnd rate burst s
      (s\<lparr>g_tokens := g_tokens s - 1000, served := served s + 1, g_pc := (g_pc s)[t := Finished True]\<rparr>)"
| charge_fail: "t < length (g_pc s) \<Longrightarrow> g_pc s ! t = Charging \<Longrightarrow> g_tokens s < 1000 \<Longrightarrow>
    global_step rnd rate burst s
      (s\<lparr>g_tokens := g_tokens s - 1000, g_pc := (g_pc s)[t := Refunding]\<rparr>)"
| refund: "t < length (g_pc s) \<Longrightarrow> g_pc s ! t = Refunding \<Longrightarrow>
    global_step rnd rate burst s
      (s\<lparr>g_tokens := g_tokens s + 1000, g_pc := (g_pc s)[t := Finished False]\<rparr>)"
| again: "t < length (g_pc s) \<Longrightarrow> g_pc s ! t = Finished b \<Longrightarrow>
    global_step rnd rate burst s (s\<lparr>g_pc := (g_pc s)[t := Idle]\<rparr>)"

inductive_cases global_stepE: "global_step rnd rate burst s s'"

definition global_init :: "nat \<Rightarrow> int \<Rightarrow> int \<Rightarrow> global_state" where
  "global_init threads tok seen =
     \<lparr>g_tokens = tok, g_last = seen, g_pc = replicate threads Idle, added = 0, served = 0\<rparr>"

abbreviation global_run :: "rounding \<Rightarrow> rat \<Rightarrow> rat \<Rightarrow> global_state \<Rightarrow> global_state \<Rightarrow> bool" where
  "global_run rnd rate burst \<equiv> (global_step rnd rate burst)\<^sup>*\<^sup>*"

section \<open>Conservation\<close>

text \<open>Refunds still to be paid, and refills won but not yet stored.\<close>

definition pc_owed :: "global_pc \<Rightarrow> int" where
  "pc_owed pc = (if pc = Refunding then 1 else 0)"

fun pc_pending :: "global_pc \<Rightarrow> int" where
  "pc_pending (Refilling add) = add"
| "pc_pending (Swapping add old) = add"
| "pc_pending pc = 0"

definition owed :: "global_state \<Rightarrow> int" where
  "owed s = sum_list (map pc_owed (g_pc s))"

definition pending :: "global_state \<Rightarrow> int" where
  "pending s = sum_list (map pc_pending (g_pc s))"

lemma owed_nonneg: "0 \<le> owed s"
  unfolding owed_def by (rule sum_list_nonneg) (auto simp: pc_owed_def)

text \<open>
  Tokens are neither created nor lost: what is in the bucket, what was spent and what is still owed add up to
  the initial tokens and the refills; outstanding refunds are the only reason for a negative
  balance; and the refills, stored or pending, are paid for by the time that passed.
\<close>

definition global_inv :: "rat \<Rightarrow> int \<Rightarrow> int \<Rightarrow> global_state \<Rightarrow> bool" where
  "global_inv rate tok last0 s \<longleftrightarrow>
     g_tokens s + 1000 * served s + 1000 * owed s = tok + added s \<and>
     0 \<le> g_tokens s + 1000 * owed s \<and>
     (\<forall>pc \<in> set (g_pc s). 0 \<le> pc_pending pc) \<and>
     of_int (added s + pending s) \<le> of_int (g_last s - last0) * rate"

lemma add_milli_exact:
  "0 < rate \<Longrightarrow> 0 < e \<Longrightarrow> 0 \<le> add_milli (\<lambda>x. x) rate e \<and> of_int (add_milli (\<lambda>x. x) rate e) \<le> of_int e * rate"
  by (simp add: add_milli_def trunc_def)

lemma pending_update_ok:
  "\<forall>pc \<in> set pcs. 0 \<le> pc_pending pc \<Longrightarrow> 0 \<le> pc_pending v \<Longrightarrow> \<forall>pc \<in> set (pcs[t := v]). 0 \<le> pc_pending pc"
  by (metis insert_iff set_update_subset_insert subset_iff)

lemmas global_counts = owed_def pending_def sum_list_map_update pc_owed_def

lemma global_inv_pc:
  assumes "global_inv rate tok last0 s" and "t < length (g_pc s)"
    and "pc_pending v = pc_pending (g_pc s ! t)" and "pc_owed v = pc_owed (g_pc s ! t)"
  shows "global_inv rate tok last0 (s\<lparr>g_pc := (g_pc s)[t := v]\<rparr>)"
proof -
  have "0 \<le> pc_pending v" using assms by (simp add: global_inv_def)
  then show ?thesis
    using assms pending_update_ok [of "g_pc s" v t]
    by (simp add: global_inv_def owed_def pending_def sum_list_map_update)
qed

lemma global_step_inv:
  assumes "global_step (\<lambda>x. x) rate burst s s'" and "0 < rate" and "0 \<le> burst"
    and "global_inv rate tok last0 s"
  shows "global_inv rate tok last0 s'"
  using assms(1)
proof (cases rule: global_step.cases)
  case (cas_won t now seen)
  have a: "0 \<le> add_milli (\<lambda>x. x) rate (now - seen)"
    "of_int (add_milli (\<lambda>x. x) rate (now - seen)) \<le> of_int (now - seen) * rate"
    using add_milli_exact [OF assms(2), of "now - seen"] cas_won by auto
  have "of_int (added s + pending s + add_milli (\<lambda>x. x) rate (now - seen)) \<le> of_int (now - last0) * rate"
    using assms(4) a(2) cas_won(5) by (simp add: global_inv_def algebra_simps)
  then show ?thesis
    using assms(4) cas_won a(1)
      pending_update_ok [of "g_pc s" "Refilling (add_milli (\<lambda>x. x) rate (now - seen))" t]
    by (simp add: global_inv_def global_counts algebra_simps)
next
  case (refill t add old new)
  have b: "0 \<le> burst_milli (\<lambda>x. x) burst" using assms(3) by (simp add: burst_milli_def trunc_def)
  have "Swapping add old \<in> set (g_pc s)" using refill by (metis nth_mem)
  then have "0 \<le> add" using assms(4) by (fastforce simp: global_inv_def)
  have "0 \<le> new + 1000 * owed s"
    using refill assms(4) b owed_nonneg [of s] \<open>0 \<le> add\<close> by (auto simp: global_inv_def)
  moreover have "of_int (added s + (new - old) + (pending s - add)) \<le> of_int (g_last s - last0) * rate"
  proof -
    have "of_int (added s + (new - old) + (pending s - add)) \<le> (of_int (added s + pending s) :: rat)"
      using refill by (simp only: of_int_le_iff)
    then show ?thesis using assms(4) by (simp add: global_inv_def)
  qed
  ultimately show ?thesis
    using assms(4) refill pending_update_ok [of "g_pc s" Charging t]
    by (simp add: global_inv_def global_counts algebra_simps)
next
  case (charge_ok t)
  then show ?thesis
    using assms(4) owed_nonneg [of s] pending_update_ok [of "g_pc s" "Finished True" t]
    by (simp add: global_inv_def global_counts)
next
  case (charge_fail t)
  then show ?thesis
    using assms(4) pending_update_ok [of "g_pc s" Refunding t]
    by (simp add: global_inv_def global_counts)
next
  case (refund t)
  then show ?thesis
    using assms(4) pending_update_ok [of "g_pc s" "Finished False" t]
    by (simp add: global_inv_def global_counts)
qed (simp_all add: global_inv_pc [OF assms(4)] pc_owed_def)

lemma global_run_inv:
  assumes "global_run (\<lambda>x. x) rate burst (global_init n tok last0) s" and "0 < rate" and "0 \<le> burst" and "0 \<le> tok"
  shows "global_inv rate tok last0 s"
  using assms(1)
proof (induction rule: rtranclp_induct)
  case base
  have "sum_list (map f (replicate n Idle)) = 0" if "f Idle = (0::int)" for f
    using that by (induction n) auto
  then show ?case
    using assms(4) by (simp add: global_inv_def global_init_def owed_def pending_def pc_owed_def)
next
  case (step s1 s2)
  then show ?case using global_step_inv assms(2,3) by blast
qed


text \<open>
  Once no rejected request has its refund outstanding, the bucket holds exactly the initial
  tokens plus the refills less the admitted requests, and is not negative: rejections cost nothing.
\<close>

lemma global_bucket_refund_exact:
  assumes "global_run (\<lambda>x. x) rate burst (global_init n tok last0) s"
    and "0 < rate" and "0 \<le> burst" and "0 \<le> tok" and "Refunding \<notin> set (g_pc s)"
  shows "g_tokens s = tok + added s - 1000 * served s \<and> 0 \<le> g_tokens s"
proof -
  have "global_inv rate tok last0 s" by (rule global_run_inv [OF assms(1-4)])
  moreover have "map pc_owed (g_pc s) = map (\<lambda>_. 0) (g_pc s)"
    using assms(5) by (auto simp: pc_owed_def)
  then have "owed s = sum_list (map (\<lambda>_. 0) (g_pc s))" by (simp only: owed_def)
  then have "owed s = 0" by simp
  ultimately show ?thesis by (simp add: global_inv_def)
qed

text \<open>A run for the witnesses: one thread is served, a second is rejected while no time passes.\<close>

definition demo_state :: global_state where
  "demo_state = \<lparr>g_tokens = 0, g_last = 0, g_pc = [Finished True, Finished False], added = 0, served = 1\<rparr>"

lemma global_step_to:
  "global_step rnd rate burst s s1 \<Longrightarrow> s1 = s' \<Longrightarrow> global_step rnd rate burst s s'"
  by simp

lemma demo_run: "global_run (\<lambda>x. x) 5 5 (global_init 2 1000 0) demo_state"
proof -
  let ?s = "\<lambda>tok a b n. \<lparr>g_tokens = tok, g_last = 0, g_pc = [a, b], added = 0, served = n\<rparr>"
  let ?R = "global_step (\<lambda>x. x) 5 5"
  have i: "global_init 2 1000 0 = ?s 1000 Idle Idle 0" by (simp add: global_init_def numeral_2_eq_2)
  have 1: "?R (?s 1000 Idle Idle 0) (?s 1000 (Loaded 0 0) Idle 0)"
    by (rule global_step_to [OF load [where t = 0 and now = 0]]) auto
  have 2: "?R (?s 1000 (Loaded 0 0) Idle 0) (?s 1000 Charging Idle 0)"
    by (rule global_step_to [OF no_time [where t = 0 and now = 0 and seen = 0]]) auto
  have 3: "?R (?s 1000 Charging Idle 0) (?s 0 (Finished True) Idle 1)"
    by (rule global_step_to [OF charge_ok [where t = 0]]) auto
  have 4: "?R (?s 0 (Finished True) Idle 1) (?s 0 (Finished True) (Loaded 0 0) 1)"
    by (rule global_step_to [OF load [where t = 1 and now = 0]]) auto
  have 5: "?R (?s 0 (Finished True) (Loaded 0 0) 1) (?s 0 (Finished True) Charging 1)"
    by (rule global_step_to [OF no_time [where t = 1 and now = 0 and seen = 0]]) auto
  have 6: "?R (?s 0 (Finished True) Charging 1) (?s (- 1000) (Finished True) Refunding 1)"
    by (rule global_step_to [OF charge_fail [where t = 1]]) auto
  have 7: "?R (?s (- 1000) (Finished True) Refunding 1) demo_state"
    by (rule global_step_to [OF refund [where t = 1]]) (auto simp: demo_state_def)
  show ?thesis unfolding i
    using 1 2 3 4 5 6 7 by (meson converse_rtranclp_into_rtranclp rtranclp.rtrancl_refl)
qed


end
