(* ===== verification/Lifecycle.thy ===== *)
theory Lifecycle
  imports Counters
begin

text \<open>
  Shutdown: \<^verbatim>\<open>ShutdownCoordinator\<close> (\<^verbatim>\<open>src/common/shutdown_coordinator.hpp\<close>), \<^verbatim>\<open>RouteLifecycle\<close>
  (\<^verbatim>\<open>src/http/route_lifecycle.hpp\<close>) and \<^verbatim>\<open>RouteRuntime\<close> (\<^verbatim>\<open>src/app/route_runtime.hpp\<close>). Both gates hand out
  leases: an entering worker checks the phase, counts itself, and checks the phase again; the shutdown thread changes the
  phase and waits for the count to reach zero. A step is one atomic operation of one worker. The gates differ in how
  they decrement (a saturating loop, or \<^verbatim>\<open>fetch_sub\<close> with wrap-around) and in the session limit; the locale
  \<open>lease_gate\<close> fixes what both need.
\<close>

datatype phase = Running | Draining | Stopped

datatype gate_pc = Outside | Checked | Counted | Leased | Leaving

record gate =
  g_phase :: phase
  g_active :: nat
  g_rejections :: nat
  g_pcs :: "gate_pc list"

definition gate_init :: "nat \<Rightarrow> gate" where
  "gate_init workers = \<lparr>g_phase = Running, g_active = 0, g_rejections = 0, g_pcs = replicate workers Outside\<rparr>"

definition set_pc :: "nat \<Rightarrow> gate_pc \<Rightarrow> gate \<Rightarrow> gate" where
  "set_pc w pc g = g\<lparr>g_pcs := (g_pcs g)[w := pc]\<rparr>"

definition at_pc :: "gate \<Rightarrow> nat \<Rightarrow> gate_pc \<Rightarrow> bool" where
  "at_pc g w pc \<longleftrightarrow> w < length (g_pcs g) \<and> g_pcs g ! w = pc"

text \<open>\<open>dec\<close> is the decrement of the class, \<open>cap\<close> its limit (0 for none).\<close>

inductive gate_step :: "(nat \<Rightarrow> nat) \<Rightarrow> nat \<Rightarrow> gate \<Rightarrow> gate \<Rightarrow> bool" for dec cap where
  refused: "at_pc g w Outside \<Longrightarrow> g_phase g \<noteq> Running \<Longrightarrow> gate_step dec cap g g"
| check: "at_pc g w Outside \<Longrightarrow> g_phase g = Running \<Longrightarrow> gate_step dec cap g (set_pc w Checked g)"
| full: "at_pc g w Checked \<Longrightarrow> cap \<noteq> 0 \<Longrightarrow> g_active g \<ge> cap \<Longrightarrow>
    gate_step dec cap g (set_pc w Outside (g\<lparr>g_rejections := g_rejections g + 1\<rparr>))"
| count: "at_pc g w Checked \<Longrightarrow> cap = 0 \<or> g_active g < cap \<Longrightarrow>
    gate_step dec cap g (set_pc w Counted (g\<lparr>g_active := g_active g + 1\<rparr>))"
| lease: "at_pc g w Counted \<Longrightarrow> g_phase g = Running \<Longrightarrow> gate_step dec cap g (set_pc w Leased g)"
| back_out: "at_pc g w Counted \<Longrightarrow> g_phase g \<noteq> Running \<Longrightarrow> gate_step dec cap g (set_pc w Leaving g)"
| release: "at_pc g w Leased \<Longrightarrow>
    gate_step dec cap g (set_pc w Outside (g\<lparr>g_active := dec (g_active g)\<rparr>))"
| leave: "at_pc g w Leaving \<Longrightarrow>
    gate_step dec cap g (set_pc w Outside (g\<lparr>g_active := dec (g_active g)\<rparr>))"
| begin_draining: "g_phase g = Running \<Longrightarrow> gate_step dec cap g (g\<lparr>g_phase := Draining\<rparr>)"
| mark_stopped: "gate_step dec cap g (g\<lparr>g_phase := Stopped\<rparr>)"

inductive_cases gate_stepE: "gate_step dec cap g g'"

text \<open>\<^verbatim>\<open>leave_session\<close> stops at zero; \<^verbatim>\<open>HandlerLease::release\<close> is a plain \<^verbatim>\<open>fetch_sub\<close>.\<close>

definition leave_session :: "nat \<Rightarrow> nat" where
  "leave_session n = (if n \<noteq> 0 then n - 1 else n)"

definition handler_release :: "nat \<Rightarrow> nat" where
  "handler_release n = wrap64 (n + SIZE_MAX)"

definition session_step :: "nat \<Rightarrow> gate \<Rightarrow> gate \<Rightarrow> bool" where
  "session_step max_sessions = gate_step leave_session max_sessions"

definition handler_step :: "gate \<Rightarrow> gate \<Rightarrow> bool" where
  "handler_step = gate_step handler_release 0"

text \<open>
  \<^verbatim>\<open>wait_for_drain\<close> polls: each poll reads the count, the clock and the outcome of the timer wait.
  The result is \<open>None\<close> while it is still polling.
\<close>

fun wait_for_drain :: "int \<Rightarrow> (nat \<times> int \<times> bool) list \<Rightarrow> bool option" where
  "wait_for_drain deadline [] = None"
| "wait_for_drain deadline ((active, now, timer_error) # polls) =
     (if active = 0 then Some True
      else if now \<ge> deadline then Some False
      else if timer_error then Some False
      else wait_for_drain deadline polls)"

section \<open>What both gates guarantee\<close>

definition counted_pc :: "gate_pc \<Rightarrow> int" where
  "counted_pc pc = (if pc = Counted \<or> pc = Leased \<or> pc = Leaving then 1 else 0)"

definition holders :: "gate \<Rightarrow> int" where
  "holders g = sum_list (map counted_pc (g_pcs g))"

lemma sum_list_counted_le: "sum_list (map counted_pc pcs) \<le> int (length pcs)"
  by (induction pcs) (auto simp: counted_pc_def)

lemma sum_list_counted_nonneg: "0 \<le> sum_list (map counted_pc pcs)"
  by (rule sum_list_nonneg) (auto simp: counted_pc_def)

lemma holders_set_pc:
  "w < length (g_pcs g) \<Longrightarrow>
   holders (set_pc w pc g) = holders g - counted_pc (g_pcs g ! w) + counted_pc pc"
  by (simp add: holders_def set_pc_def sum_list_map_update)

lemma holders_positive: "at_pc g w pc \<Longrightarrow> counted_pc pc = 1 \<Longrightarrow> 0 < holders g"
proof -
  assume "at_pc g w pc" "counted_pc pc = 1"
  then have w: "w < length (g_pcs g)" "counted_pc (g_pcs g ! w) = 1" by (auto simp: at_pc_def)
  have "0 \<le> sum_list (map counted_pc ((g_pcs g)[w := Outside]))" by (rule sum_list_counted_nonneg)
  then show ?thesis using w by (simp add: holders_def sum_list_map_update counted_pc_def)
qed

lemma set_pc_simps [simp]:
  "g_phase (set_pc w pc g) = g_phase g" "g_active (set_pc w pc g) = g_active g"
  "length (g_pcs (set_pc w pc g)) = length (g_pcs g)"
  by (simp_all add: set_pc_def)

lemma holders_updates [simp]:
  "holders (g\<lparr>g_active := a\<rparr>) = holders g" "holders (g\<lparr>g_phase := p\<rparr>) = holders g"
  "holders (g\<lparr>g_rejections := r\<rparr>) = holders g"
  "set_pc w pc (g\<lparr>g_active := a\<rparr>) = (set_pc w pc g)\<lparr>g_active := a\<rparr>"
  "set_pc w pc (g\<lparr>g_rejections := r\<rparr>) = (set_pc w pc g)\<lparr>g_rejections := r\<rparr>"
  by (simp_all add: holders_def set_pc_def)

definition gate_inv :: "gate \<Rightarrow> bool" where
  "gate_inv g \<longleftrightarrow> int (g_active g) = holders g \<and> length (g_pcs g) \<le> SIZE_MAX"

lemma gate_inv_init: "workers \<le> SIZE_MAX \<Longrightarrow> gate_inv (gate_init workers)"
proof -
  have "sum_list (map counted_pc (replicate workers Outside)) = 0"
    by (induction workers) (simp_all add: counted_pc_def)
  then show "workers \<le> SIZE_MAX \<Longrightarrow> gate_inv (gate_init workers)"
    by (simp add: gate_inv_def gate_init_def holders_def)
qed

lemma no_holders_no_lease:
  assumes "holders g = 0"
  shows "Leased \<notin> set (g_pcs g)"
proof
  assume "Leased \<in> set (g_pcs g)"
  then obtain w where "at_pc g w Leased" by (auto simp: at_pc_def in_set_conv_nth)
  then have "0 < holders g" by (rule holders_positive) (simp add: counted_pc_def)
  then show False using assms by simp
qed

text \<open>A closed gate: the phase has left \<open>Running\<close> and nobody holds a lease.\<close>

definition closed :: "gate \<Rightarrow> bool" where
  "closed g \<longleftrightarrow> g_phase g \<noteq> Running \<and> Leased \<notin> set (g_pcs g)"

lemma set_pc_set: "w < length (g_pcs g) \<Longrightarrow> set (g_pcs (set_pc w pc g)) \<subseteq> insert pc (set (g_pcs g))"
  by (simp add: set_pc_def set_update_subset_insert)

lemma gate_step_closed: "gate_step dec cap g g' \<Longrightarrow> closed g \<Longrightarrow> closed g'"
proof (induction rule: gate_step.induct)
  case (refused g w)
  then show ?case by simp
qed (auto simp: closed_def at_pc_def dest!: set_pc_set [THEN subsetD, rotated])

locale lease_gate =
  fixes dec :: "nat \<Rightarrow> nat"
  assumes dec_Suc: "Suc n \<le> SIZE_MAX \<Longrightarrow> dec (Suc n) = n"
begin

lemma dec_active:
  assumes "gate_inv g" and "at_pc g w pc" and "counted_pc pc = 1"
  shows "int (dec (g_active g)) = holders g - 1"
proof -
  have "0 < holders g" by (rule holders_positive [OF assms(2,3)])
  then obtain n where n: "g_active g = Suc n" using assms(1) by (cases "g_active g") (auto simp: gate_inv_def)
  have "holders g \<le> int (length (g_pcs g))" unfolding holders_def by (rule sum_list_counted_le)
  then have "Suc n \<le> SIZE_MAX" using n assms(1) by (simp add: gate_inv_def)
  then show ?thesis using n dec_Suc assms(1) by (simp add: gate_inv_def)
qed

lemma gate_step_inv:
  assumes "gate_step dec cap g g'" and "gate_inv g"
  shows "gate_inv g'"
  using assms
proof (cases rule: gate_step.cases)
  case (release w)
  then show ?thesis
    using assms(2) dec_active [OF assms(2), of w Leased]
    by (simp add: gate_inv_def holders_set_pc at_pc_def counted_pc_def)
next
  case (leave w)
  then show ?thesis
    using assms(2) dec_active [OF assms(2), of w Leaving]
    by (simp add: gate_inv_def holders_set_pc at_pc_def counted_pc_def)
qed (use assms(2) in \<open>auto simp: gate_inv_def holders_set_pc at_pc_def counted_pc_def\<close>)

lemma run_inv: "(gate_step dec cap)\<^sup>*\<^sup>* g g' \<Longrightarrow> gate_inv g \<Longrightarrow> gate_inv g'"
  by (induction rule: rtranclp_induct) (auto intro: gate_step_inv)

lemma drained_stays_drained:
  assumes "(gate_step dec cap)\<^sup>*\<^sup>* (gate_init workers) g" and "workers \<le> SIZE_MAX"
    and "g_phase g \<noteq> Running" and "g_active g = 0" and "(gate_step dec cap)\<^sup>*\<^sup>* g g'"
  shows "Leased \<notin> set (g_pcs g') \<and> g_phase g' \<noteq> Running"
proof -
  have "gate_inv g" by (rule run_inv [OF assms(1) gate_inv_init [OF assms(2)]])
  then have "closed g" using assms(3,4) no_holders_no_lease by (simp add: gate_inv_def closed_def)
  with assms(5) have "closed g'"
    by (induction rule: rtranclp_induct) (auto intro: gate_step_closed)
  then show ?thesis by (simp add: closed_def)
qed

end

interpretation session_gate: lease_gate leave_session
  by unfold_locales (simp add: leave_session_def)

interpretation handler_gate: lease_gate handler_release
  by unfold_locales (use wrap64_pred [of "Suc _"] in \<open>simp add: handler_release_def\<close>)

text \<open>
  Once draining has begun and the session count has been seen at zero (which is when \<^verbatim>\<open>wait_for_drain\<close>
  reports success), no worker holds a session lease and none ever gets one again, whatever was in flight inside
  \<^verbatim>\<open>try_enter_session\<close>: resources can be torn down.
\<close>

lemma drained_sessions_stay_drained:
  assumes "(session_step max_sessions)\<^sup>*\<^sup>* (gate_init workers) g" and "workers \<le> SIZE_MAX"
    and "g_phase g \<noteq> Running" and "wait_for_drain deadline [(g_active g, now, e)] = Some True"
    and "(session_step max_sessions)\<^sup>*\<^sup>* g g'"
  shows "Leased \<notin> set (g_pcs g') \<and> g_phase g' \<noteq> Running"
proof -
  have "g_active g = 0" using assms(4) by (auto split: if_splits)
  then show ?thesis
    using session_gate.drained_stays_drained assms(1,2,3,5) unfolding session_step_def by blast
qed

text \<open>
  The same for route handlers, whose counter is decremented by \<^verbatim>\<open>fetch_sub\<close>: the invariant also
  excludes its wrap-around.
\<close>

lemma drained_handlers_stay_drained:
  assumes "handler_step\<^sup>*\<^sup>* (gate_init workers) g" and "workers \<le> SIZE_MAX"
    and "g_phase g \<noteq> Running" and "g_active g = 0" and "handler_step\<^sup>*\<^sup>* g g'"
  shows "Leased \<notin> set (g_pcs g') \<and> g_phase g' \<noteq> Running"
  using handler_gate.drained_stays_drained assms unfolding handler_step_def by blast

text \<open>A run in which draining overtakes an entering worker, for the witnesses.\<close>

lemma gate_step_to: "gate_step dec cap g g1 \<Longrightarrow> g1 = g' \<Longrightarrow> gate_step dec cap g g'"
  by simp

lemma demo_drain:
  "(gate_step dec 0)\<^sup>*\<^sup>* (gate_init 1)
     \<lparr>g_phase = Draining, g_active = 0, g_rejections = 0, g_pcs = [Checked]\<rparr>"
proof -
  have 1: "gate_step dec 0 (gate_init 1) \<lparr>g_phase = Running, g_active = 0, g_rejections = 0, g_pcs = [Checked]\<rparr>"
    by (rule gate_step_to [OF check [where w = 0]]) (simp_all add: at_pc_def gate_init_def set_pc_def)
  have 2: "gate_step dec 0 \<lparr>g_phase = Running, g_active = 0, g_rejections = 0, g_pcs = [Checked]\<rparr>
      \<lparr>g_phase = Draining, g_active = 0, g_rejections = 0, g_pcs = [Checked]\<rparr>"
    by (rule gate_step_to [OF begin_draining]) simp_all
  show ?thesis using 1 2 by (meson converse_rtranclp_into_rtranclp rtranclp.rtrancl_refl)
qed

lemma demo_back_out:
  "(gate_step dec 0)\<^sup>*\<^sup>* \<lparr>g_phase = Draining, g_active = 0, g_rejections = 0, g_pcs = [Checked]\<rparr>
     \<lparr>g_phase = Draining, g_active = 1, g_rejections = 0, g_pcs = [Leaving]\<rparr>"
proof -
  have 1: "gate_step dec 0 \<lparr>g_phase = Draining, g_active = 0, g_rejections = 0, g_pcs = [Checked]\<rparr>
      \<lparr>g_phase = Draining, g_active = 1, g_rejections = 0, g_pcs = [Counted]\<rparr>"
    by (rule gate_step_to [OF count [where w = 0]]) (simp_all add: at_pc_def set_pc_def)
  have 2: "gate_step dec 0 \<lparr>g_phase = Draining, g_active = 1, g_rejections = 0, g_pcs = [Counted]\<rparr>
      \<lparr>g_phase = Draining, g_active = 1, g_rejections = 0, g_pcs = [Leaving]\<rparr>"
    by (rule gate_step_to [OF back_out [where w = 0]]) (simp_all add: at_pc_def set_pc_def)
  show ?thesis using 1 2 by (meson converse_rtranclp_into_rtranclp rtranclp.rtrancl_refl)
qed

section \<open>The route runtime\<close>

text \<open>\<^verbatim>\<open>RouteRuntime\<close> drains its handler gate and the session gate together; \<open>None\<close> is a null
  \<^verbatim>\<open>shutdown\<close> pointer.\<close>

record route_runtime =
  rr_handlers :: gate
  rr_shutdown :: "gate option"

definition gate_begin_draining :: "gate \<Rightarrow> bool \<times> gate" where
  "gate_begin_draining g =
     (if g_phase g = Running then (True, g\<lparr>g_phase := Draining\<rparr>) else (False, g))"

definition gate_mark_stopped :: "gate \<Rightarrow> gate" where
  "gate_mark_stopped g = g\<lparr>g_phase := Stopped\<rparr>"

definition runtime_begin_draining :: "route_runtime \<Rightarrow> bool \<times> route_runtime" where
  "runtime_begin_draining rr =
     (let (transitioned, h) = gate_begin_draining (rr_handlers rr) in
      (transitioned, \<lparr>rr_handlers = h,
         rr_shutdown = map_option (\<lambda>s. snd (gate_begin_draining s)) (rr_shutdown rr)\<rparr>))"

definition runtime_mark_stopped :: "route_runtime \<Rightarrow> route_runtime" where
  "runtime_mark_stopped rr =
     \<lparr>rr_handlers = gate_mark_stopped (rr_handlers rr),
      rr_shutdown = map_option gate_mark_stopped (rr_shutdown rr)\<rparr>"

lemma gate_begin_draining_phase: "g_phase (snd (gate_begin_draining g)) \<noteq> Running"
  by (simp add: gate_begin_draining_def)

lemma runtime_draining:
  "g_phase (rr_handlers (snd (runtime_begin_draining rr))) \<noteq> Running \<and>
   (\<forall>s. rr_shutdown (snd (runtime_begin_draining rr)) = Some s \<longrightarrow> g_phase s \<noteq> Running)"
  using gate_begin_draining_phase by (auto simp: runtime_begin_draining_def case_prod_beta)

end
