(* ===== verification/Std_Map.thy ===== *)
theory Std_Map
  imports Prelude "HOL-Library.List_Lexorder" "HOL-Library.Char_ord"
begin

text \<open>
  \<^verbatim>\<open>std::map\<close>: a list of pairs with strictly increasing keys, so that a loop over the container is a loop over the list. Two such maps are
  equal when they agree on every key.
\<close>

type_synonym ('k, 'v) smap = "('k \<times> 'v) list"

fun sput :: "'k::linorder \<Rightarrow> 'v \<Rightarrow> ('k, 'v) smap \<Rightarrow> ('k, 'v) smap" where
  "sput k v [] = [(k, v)]"
| "sput k v ((k', v') # m) =
     (if k < k' then (k, v) # (k', v') # m
      else if k = k' then (k, v) # m
      else (k', v') # sput k v m)"

text \<open>\<^verbatim>\<open>emplace\<close> keeps a value that is there already.\<close>

definition semplace :: "'k::linorder \<Rightarrow> 'v \<Rightarrow> ('k, 'v) smap \<Rightarrow> ('k, 'v) smap" where
  "semplace k v m = (if map_of m k = None then sput k v m else m)"

definition smap_of :: "('k::linorder \<times> 'v) list \<Rightarrow> ('k, 'v) smap" where
  "smap_of ps = foldl (\<lambda>m (k, v). sput k v m) [] ps"

definition smap_ok :: "('k::linorder, 'v) smap \<Rightarrow> bool" where
  "smap_ok m \<longleftrightarrow> sorted_wrt (<) (map fst m)"

lemma smap_ok_Nil [simp]: "smap_ok []"
  by (simp add: smap_ok_def)

lemma smap_ok_Cons: "smap_ok ((k, v) # m) \<longleftrightarrow> (\<forall>k' \<in> fst ` set m. k < k') \<and> smap_ok m"
  by (simp add: smap_ok_def)

lemma smap_ok_distinct: "smap_ok m \<Longrightarrow> distinct (map fst m)"
  by (simp add: smap_ok_def strict_sorted_iff)

lemma keys_sput [simp]: "fst ` set (sput k v m) = insert k (fst ` set m)"
  by (induction k v m rule: sput.induct) auto

lemma sput_neq_Nil [simp]: "sput k v m \<noteq> []"
  by (induction k v m rule: sput.induct) auto

lemma smap_ok_sput [intro]: "smap_ok m \<Longrightarrow> smap_ok (sput k v m)"
  by (induction k v m rule: sput.induct) (auto simp: smap_ok_Cons)

lemma map_of_fresh: "k \<notin> fst ` set m \<Longrightarrow> map_of m k = None"
  by (simp add: map_of_eq_None_iff)

lemma map_of_sput [simp]: "smap_ok m \<Longrightarrow> map_of (sput k v m) = (map_of m)(k \<mapsto> v)"
proof (induction k v m rule: sput.induct)
  case (2 k v k' v' m)
  then show ?case by (auto simp: smap_ok_Cons fun_eq_iff)
qed simp

lemma smap_ext: "smap_ok m \<Longrightarrow> smap_ok n \<Longrightarrow> map_of m = map_of n \<Longrightarrow> m = n"
proof -
  assume m: "smap_ok m" and n: "smap_ok n" and eq: "map_of m = map_of n"
  have "set m = set n"
    using eq smap_ok_distinct [OF m] smap_ok_distinct [OF n] by (metis map_of_inject_set)
  moreover have "sorted (map fst m)" "sorted (map fst n)" using m n by (simp_all add: smap_ok_def strict_sorted_iff)
  ultimately show ?thesis
    using smap_ok_distinct [OF m] smap_ok_distinct [OF n]
    by (intro map_sorted_distinct_set_unique [of fst m n]) (auto simp: distinct_map)
qed

lemma semplace_ok [intro]: "smap_ok m \<Longrightarrow> smap_ok (semplace k v m)"
  by (auto simp: semplace_def)

lemma foldl_sput:
  "smap_ok m \<Longrightarrow> smap_ok (foldl (\<lambda>m (k, v). sput k v m) m ps) \<and> map_of (foldl (\<lambda>m (k, v). sput k v m) m ps) = map_of m ++ map_of (rev ps)"
proof (induction ps arbitrary: m)
  case (Cons p ps)
  then show ?case using smap_ok_sput [of m "fst p" "snd p"]
    by (cases p) (auto simp: map_add_assoc [symmetric] fun_eq_iff map_add_def split: option.split)
qed simp

lemma smap_of_ok [intro, simp]: "smap_ok (smap_of ps)"
  using foldl_sput [of "[]" ps] by (simp add: smap_of_def)

lemma map_of_smap_of [simp]: "map_of (smap_of ps) = map_of (rev ps)"
  using foldl_sput [of "[]" ps] by (simp add: smap_of_def)

text \<open>Filling an empty map from the pairs of a map, in order, gives it back.\<close>

lemma smap_of_id: "smap_ok m \<Longrightarrow> smap_of m = m"
  by (rule smap_ext) (auto simp: smap_ok_distinct intro!: map_of_inject_set [THEN iffD2] simp: rev_map [symmetric])

lemma smap_ok_filter: "smap_ok m \<Longrightarrow> smap_ok (filter P m)"
  by (simp add: smap_ok_def sorted_wrt_filter sorted_wrt_map)

lemma smap_ok_map: "smap_ok m \<Longrightarrow> smap_ok (map (\<lambda>(k, v). (k, f k v)) m)"
  by (simp add: smap_ok_def sorted_wrt_map case_prod_beta)

text \<open>A flat array of alternating names and values.\<close>

fun pairs_of :: "'a list \<Rightarrow> ('a \<times> 'a) list" where
  "pairs_of (n # c # r) = (n, c) # pairs_of r"
| "pairs_of _ = []"

lemma pairs_of_concat [simp]: "pairs_of (concat (map (\<lambda>(n, c). [n, c]) ps)) = ps"
  by (induction ps) auto

lemma length_concat_pairs [simp]: "length (concat (map (\<lambda>(n, c). [n, c]) ps)) = 2 * length ps"
  by (induction ps) auto

lemma smap_of_eq_Nil [simp]: "smap_of ps = [] \<longleftrightarrow> ps = []"
proof
  assume "smap_of ps = []"
  then have "map_of (rev ps) = Map.empty" using map_of_smap_of [of ps] by simp
  then show "ps = []" by (metis map_of_eq_empty_iff rev_is_Nil_conv)
qed (simp add: smap_of_def)

lemma keys_smap_of: "fst ` set (smap_of ps) = fst ` set ps"
  using map_of_smap_of [of ps] by (metis dom_map_of_conv_image_fst set_rev)

end
