(* ===== verification/Managed_Files.thy ===== *)
theory Managed_Files
  imports Std_Map Config_Ini Admin_Json Access_Lists "HOL-Library.Word"
begin

unbundle bit_operations_syntax

text \<open>
  The files a fleet of gateways shares, \<^verbatim>\<open>src/app/config_sync_state.cpp\<close> and \<^verbatim>\<open>src/app/config_sync_files.cpp\<close>: which names and contents
  are accepted, the content hash, and the state file each machine keeps beside them.
\<close>

section \<open>Names and contents\<close>

definition is_never_sync_file :: "string \<Rightarrow> bool" where
  "is_never_sync_file name \<longleftrightarrow> name = ''11-redis.ini'' \<or> name = ''12-config-sync.ini'' \<or> name = ''99-local.ini''"

definition is_valid_managed_filename :: "string \<Rightarrow> bool" where
  "is_valid_managed_filename name \<longleftrightarrow>
     (if length name < 7 then False
      else if \<not> isdigit (name ! 0) \<or> \<not> isdigit (name ! 1) \<or> name ! 2 \<noteq> CHR ''-'' then False
      else if length name < 5 \<or> drop (length name - 4) name \<noteq> ''.ini'' then False
      else list_all (\<lambda>c. islower c \<or> isdigit c \<or> c = CHR ''_'' \<or> c = CHR ''-'') (take (length name - 7) (drop 3 name)))"

definition strip_cr :: "string \<Rightarrow> string" where
  "strip_cr s = (if s \<noteq> [] \<and> last s = CR then butlast s else s)"

definition sync_line :: "string \<Rightarrow> string" where
  "sync_line line = trim (strip_cr line)"

definition is_comment :: "string \<Rightarrow> bool" where
  "is_comment line \<longleftrightarrow> line = [] \<or> hd line = CHR ''#'' \<or> hd line = CHR '';''"

definition section_of :: "string \<Rightarrow> string option" where
  "section_of line =
     (if hd line = CHR ''['' \<and> last line = CHR '']'' then Some (lower (trim (take (length line - 2) (drop 1 line)))) else None)"

fun section_in_lines :: "string \<Rightarrow> string list \<Rightarrow> bool" where
  "section_in_lines target [] = False"
| "section_in_lines target (l # ls) =
     (let line = sync_line l in
      if is_comment line then section_in_lines target ls
      else case section_of line of
        Some section \<Rightarrow> if section = target then True else section_in_lines target ls
      | None \<Rightarrow> section_in_lines target ls)"

definition contains_section :: "string \<Rightarrow> string \<Rightarrow> bool" where
  "contains_section content target = section_in_lines (lower target) (split_lt LF content)"

definition is_reserved_admin_path :: "string \<Rightarrow> bool" where
  "is_reserved_admin_path path0 \<longleftrightarrow>
     (let path = trim path0 in
      if path = [] \<or> hd path \<noteq> CHR ''/'' then False
      else let p = lower path in
        p = ''/admin'' \<or> starts_with ''/admin/'' p \<or> p = ''/api/admin'' \<or> starts_with ''/api/admin/'' p)"

fun reserved_in_lines :: "string \<Rightarrow> string list \<Rightarrow> bool" where
  "reserved_in_lines section [] = False"
| "reserved_in_lines section (l # ls) =
     (let line = sync_line l in
      if is_comment line then reserved_in_lines section ls
      else case section_of line of
        Some s \<Rightarrow> reserved_in_lines s ls
      | None \<Rightarrow>
          (case find_char (CHR ''='') line of
             None \<Rightarrow> reserved_in_lines section ls
           | Some eq \<Rightarrow>
               let key = trim (take eq line); val = trim (drop (eq + 1) line) in
               if section = ''auth_whitelist'' then
                 if is_reserved_admin_path key \<or> is_reserved_admin_path val then True else reserved_in_lines section ls
               else if section = ''path_blacklist'' then
                 if is_reserved_admin_path key then True else reserved_in_lines section ls
               else reserved_in_lines section ls))"

definition has_reserved_admin_rule :: "string \<Rightarrow> bool" where
  "has_reserved_admin_rule content = reserved_in_lines [] (split_lt LF content)"

text \<open>\<open>None\<close> is the result with \<^verbatim>\<open>ok\<close>, \<open>Some\<close> the reason of a refusal.\<close>

definition validate_managed_file :: "string \<Rightarrow> string \<Rightarrow> string option" where
  "validate_managed_file name content =
     (if is_never_sync_file name then Some ''never-sync file is not Redis-managed''
      else if \<not> is_valid_managed_filename name then Some ''invalid managed filename''
      else if contains_section content ''redis'' then Some ''managed file contains [redis] section''
      else if contains_section content ''admin'' then Some ''managed file contains [admin] section''
      else if contains_section content ''config_sync'' then Some ''managed file contains [config_sync] section''
      else if contains_section content ''config_history'' then Some ''managed file contains [config_history] section''
      else if has_reserved_admin_rule content then Some ''managed file touches reserved admin path''
      else None)"

section \<open>Content hash\<close>

definition hash_byte :: "64 word \<Rightarrow> char \<Rightarrow> 64 word" where
  "hash_byte h c = (h XOR of_nat (code c)) * 1099511628211"

fun hex_digits :: "nat \<Rightarrow> nat \<Rightarrow> string" where
  "hex_digits 0 n = []"
| "hex_digits (Suc w) n = hex_digits w (n div 16) @ [hex_low (n mod 16)]"

definition content_hash :: "string \<Rightarrow> string" where
  "content_hash content = hex_digits 16 (unat (foldl hash_byte 1469598103934665603 content))"

section \<open>Protected sections\<close>

lemma trim_strip_cr [simp]: "trim (strip_cr s) = trim s"
proof (cases "s \<noteq> [] \<and> last s = CR")
  case True
  then obtain r where s: "s = r @ [CR]" by (metis append_butlast_last_id)
  have "isspace CR" by (simp add: isspace_def CR_def)
  then have "trim (r @ [CR]) = trim r"
    by (cases "\<forall>c \<in> set r. isspace c") (auto simp: trim_def trim_left_def trim_right_def dropWhile_append dest: set_dropWhileD)
  then show ?thesis using s by (simp add: strip_cr_def)
qed (auto simp: strip_cr_def)

lemma qualified_key_split:
  assumes "qualified_key s k = qualified_key s' k'" and "CHR ''.'' \<notin> set s'" and "CHR ''.'' \<notin> set k'"
  shows "s = s'"
proof -
  from assms(1) have e: "s @ CHR ''.'' # k = s' @ CHR ''.'' # k'" by (simp add: qualified_key_def)
  have "filter ((=) (CHR ''.'')) s' = []" "filter ((=) (CHR ''.'')) k' = []" using assms(2,3) by (auto simp: filter_empty_conv)
  with arg_cong [OF e, of "\<lambda>x. length (filter ((=) (CHR ''.'')) x)"] have "filter ((=) (CHR ''.'')) s = []" by simp
  then have "CHR ''.'' \<notin> set s" by (auto simp: filter_empty_conv)
  moreover have "takeWhile (\<lambda>c. c \<noteq> CHR ''.'') (x @ CHR ''.'' # y) = x" if "CHR ''.'' \<notin> set x" for x y
    using that by (induction x) auto
  ultimately show ?thesis using arg_cong [OF e, of "takeWhile (\<lambda>c. c \<noteq> CHR ''.'')"] assms(2) by simp
qed

lemma section_line_caught:
  assumes "\<not> is_comment (trim l)" and "hd (trim l) = CHR ''[''" and "last (trim l) = CHR '']''"
    and "take (length (trim l) - 2) (drop 1 (trim l)) = t" and "trim t = t" and "lower t = t"
  shows "section_in_lines t (l # ls)"
  using assms by (simp add: sync_line_def section_of_def Let_def)

lemma section_in_lines_tl: "\<not> section_in_lines t (l # ls) \<Longrightarrow> \<not> section_in_lines t ls"
  by (auto simp: Let_def split: if_splits option.splits)

lemma lines_keep_section:
  assumes "\<not> section_in_lines t lines" and "sec \<noteq> t" and "trim t = t" and "lower t = t" and "CHR ''.'' \<notin> set t"
  shows "get_section (snd (config_lines (sec, cfg) lines)) t = get_section cfg t \<and>
    (\<forall>k. CHR ''.'' \<notin> set k \<longrightarrow> cfg_data (snd (config_lines (sec, cfg) lines)) (qualified_key t k) = cfg_data cfg (qualified_key t k))"
  using assms(1,2)
proof (induction lines arbitrary: sec cfg)
  case (Cons l ls)
  show ?case
  proof (cases "config_line (sec, cfg) l")
    case (Some st)
    obtain sec' cfg' where st: "st = (sec', cfg')" by fastforce
    have sec': "sec' \<noteq> t"
      using Some st Cons.prems section_line_caught [OF _ _ _ _ assms(3,4), of l ls]
      by (auto simp: config_line_def is_comment_def Let_def split: if_splits option.splits)
    have keep: "get_section cfg' t = get_section cfg t \<and>
        (\<forall>k. CHR ''.'' \<notin> set k \<longrightarrow> cfg_data cfg' (qualified_key t k) = cfg_data cfg (qualified_key t k))"
      using Some st Cons.prems(2) qualified_key_split [OF sym assms(5)]
      by (auto simp: config_line_def Let_def get_section_def split: if_splits option.splits)
    show ?thesis
      using Cons.IH [OF section_in_lines_tl [OF Cons.prems(1)] sec', of cfg'] keep Some st by simp
  qed simp
qed simp

definition protected_sections :: "string list" where
  "protected_sections = [''redis'', ''admin'', ''config_sync'', ''config_history'']"

definition managed_char :: "char \<Rightarrow> bool" where
  "managed_char c \<longleftrightarrow> islower c \<or> isdigit c \<or> c = CHR ''_'' \<or> c = CHR ''-''"

lemma managed_name_shape:
  assumes "is_valid_managed_filename name"
  shows "\<exists>r. name = r @ ''.ini'' \<and> r \<noteq> [] \<and> (\<forall>c \<in> set r. managed_char c)"
proof -
  from assms have len: "7 \<le> length name" and d: "isdigit (name ! 0)" "isdigit (name ! 1)" "name ! 2 = CHR ''-''"
    and ini: "drop (length name - 4) name = ''.ini''"
    and mid: "list_all (\<lambda>c. islower c \<or> isdigit c \<or> c = CHR ''_'' \<or> c = CHR ''-'') (take (length name - 7) (drop 3 name))"
    by (auto simp: is_valid_managed_filename_def split: if_splits)
  let ?mid = "take (length name - 7) (drop 3 name)"
  have "name = take 3 name @ drop 3 name" by simp
  also have "drop 3 name = ?mid @ drop (length name - 7) (drop 3 name)" by (rule append_take_drop_id [symmetric])
  also have "drop (length name - 7) (drop 3 name) = ''.ini''" using ini len by simp
  also have "take 3 name = [name ! 0, name ! 1, name ! 2]" using len
    by (intro nth_equalityI) (auto simp: less_Suc_eq numeral_3_eq_3 numeral_2_eq_2)
  finally have n: "name = ([name ! 0, name ! 1, name ! 2] @ ?mid) @ ''.ini''" by simp
  have "\<forall>c \<in> set ([name ! 0, name ! 1, name ! 2] @ ?mid). managed_char c"
    using mid d by (auto simp: list_all_iff managed_char_def)
  with n show ?thesis by blast
qed

lemma managed_name_chars: "is_valid_managed_filename name \<Longrightarrow> c \<in> set name \<Longrightarrow> managed_char c \<or> c = CHR ''.''"
  using managed_name_shape [of name] by (auto simp: managed_char_def islower_def)

lemma managed_name_safe:
  assumes "is_valid_managed_filename name"
  shows "CHR ''/'' \<notin> set name" and "path_extension name = ''.ini''"
proof -
  show "CHR ''/'' \<notin> set name"
    using managed_name_chars [OF assms, of "CHR ''/''"] by (auto simp: managed_char_def islower_def isdigit_def)
  obtain r where "name = r @ ''.ini''" "r \<noteq> []" using managed_name_shape [OF assms] by blast
  then show "path_extension name = ''.ini''" by (auto simp: path_extension_def rfind_char_def)
qed

text \<open>
  An accepted file stays in its place: its name has no path separator, ends in \<^verbatim>\<open>.ini\<close> and is none of the local files, and loading
  its content, up to the point where the parser may stop, changes no setting of the sections \<^verbatim>\<open>redis\<close>, \<^verbatim>\<open>admin\<close>, \<^verbatim>\<open>config_sync\<close> and
  \<^verbatim>\<open>config_history\<close>.
\<close>

lemma managed_file_confined:
  assumes "validate_managed_file name content = None" and "sec \<in> set protected_sections"
  shows "CHR ''/'' \<notin> set name \<and> path_extension name = ''.ini'' \<and> \<not> is_never_sync_file name \<and>
    get_section (snd (load_file cfg (Some content))) sec = get_section cfg sec \<and>
    (CHR ''.'' \<notin> set key \<longrightarrow> config_get (snd (load_file cfg (Some content))) sec key d = config_get cfg sec key d)"
proof -
  have t: "sec \<noteq> []" "trim sec = sec" "lower sec = sec" "CHR ''.'' \<notin> set sec"
    using assms(2) by (auto simp: protected_sections_def intro!: trim_id) (auto simp: isspace_def lower_def tolower_def isupper_def)
  have "\<not> contains_section content sec"
    using assms by (auto simp: protected_sections_def validate_managed_file_def split: if_splits)
  then have "\<not> section_in_lines sec (split_lt LF content)" using t(3) by (simp add: contains_section_def)
  from lines_keep_section [OF this _ t(2-4), of "[]" cfg] t(1) show ?thesis
    using assms(1) managed_name_safe [of name]
    by (auto simp: load_file_def config_get_def validate_managed_file_def split: if_splits)
qed

text \<open>The check of reserved paths compares texts, so a rule for a shorter prefix is accepted and blocks the administration all the same.\<close>

lemma reserved_rule_incomplete:
  "validate_managed_file ''20-paths.ini'' (''[path_blacklist]'' @ [LF] @ ''/api='') = None \<and>
   path_matches ''/api/admin/config'' ''/api''"
  by code_simp

section \<open>State file\<close>

record sync_state =
  st_exists :: bool
  st_version :: int
  st_status :: string
  st_files :: "(string, string) smap"
  st_last_ok :: "(string, string) smap"
  st_failures :: "(string, string) smap"

definition sync_state0 :: sync_state where
  "sync_state0 = \<lparr>st_exists = False, st_version = 0, st_status = ''ok'', st_files = [], st_last_ok = [], st_failures = []\<rparr>"

definition state_entry :: "string \<Rightarrow> string \<Rightarrow> sync_state \<Rightarrow> sync_state" where
  "state_entry key val st =
     (if key = ''synced_version'' then
        (case parse_int64 val of Some v \<Rightarrow> st\<lparr>st_version := v\<rparr> | None \<Rightarrow> st)
      else if key = ''status'' then st\<lparr>st_status := val\<rparr>
      else if starts_with ''file.'' key then st\<lparr>st_files := sput (drop 5 key) val (st_files st)\<rparr>
      else if starts_with ''last_ok.'' key then st\<lparr>st_last_ok := sput (drop 8 key) val (st_last_ok st)\<rparr>
      else if starts_with ''failure.'' key then st\<lparr>st_failures := sput (drop 8 key) val (st_failures st)\<rparr>
      else st)"

definition state_line :: "sync_state \<Rightarrow> string \<Rightarrow> sync_state" where
  "state_line st line0 =
     (let line = strip_cr line0 in
      case find_char (CHR ''='') line of
        None \<Rightarrow> st
      | Some eq \<Rightarrow> state_entry (take eq line) (drop (eq + 1) line) st)"

text \<open>\<open>None\<close>: the file cannot be opened.\<close>

definition load_state :: "string option \<Rightarrow> sync_state" where
  "load_state content =
     (case content of
        None \<Rightarrow> sync_state0
      | Some text \<Rightarrow> foldl state_line (sync_state0\<lparr>st_exists := True\<rparr>) (split_lt LF text))"

definition state_pair :: "string \<Rightarrow> string \<times> string \<Rightarrow> string" where
  "state_pair prefix p = prefix @ fst p @ ''='' @ snd p @ [LF]"

definition state_text :: "sync_state \<Rightarrow> string" where
  "state_text st =
     ''synced_version='' @ dec_of_int (st_version st) @ [LF] @
     ''status='' @ st_status st @ [LF] @
     concat (map (state_pair ''file.'') (st_files st)) @
     concat (map (state_pair ''last_ok.'') (st_last_ok st)) @
     concat (map (state_pair ''failure.'') (st_failures st))"

text \<open>
  What the file system does with one write: whether the temporary file opens, the part of the text that reaches it (the stream
  is not checked), whether the rename succeeds.
\<close>

record file_io =
  io_open :: bool
  io_stored :: "string \<Rightarrow> string"
  io_rename :: bool

text \<open>Replacing a file by a text unless it is there already, as both \<^verbatim>\<open>write_state\<close> and \<^verbatim>\<open>write_managed_file_if_changed\<close> do.\<close>

definition replace_file :: "file_io \<Rightarrow> string option \<Rightarrow> string \<Rightarrow> bool \<times> string option" where
  "replace_file io old text =
     (if old = Some text then (True, old)
      else if \<not> io_open io then (False, old)
      else if io_rename io then (True, Some (io_stored io text))
      else (False, old))"

definition write_state :: "file_io \<Rightarrow> string option \<Rightarrow> sync_state \<Rightarrow> bool \<times> string option" where
  "write_state io old st = replace_file io old (state_text st)"

subsection \<open>Reading back what was written\<close>

definition state_key_ok :: "string \<Rightarrow> bool" where
  "state_key_ok k \<longleftrightarrow> CHR ''='' \<notin> set k \<and> LF \<notin> set k"

definition state_value_ok :: "string \<Rightarrow> bool" where
  "state_value_ok v \<longleftrightarrow> LF \<notin> set v \<and> (v = [] \<or> last v \<noteq> CR)"

definition state_map_ok :: "(string, string) smap \<Rightarrow> bool" where
  "state_map_ok m \<longleftrightarrow> smap_ok m \<and> list_all (\<lambda>(k, v). state_key_ok k \<and> state_value_ok v) m"

definition state_ok :: "sync_state \<Rightarrow> bool" where
  "state_ok st \<longleftrightarrow>
     - (2 ^ 63) \<le> st_version st \<and> st_version st < 2 ^ 63 \<and> state_value_ok (st_status st) \<and>
     state_map_ok (st_files st) \<and> state_map_ok (st_last_ok st) \<and> state_map_ok (st_failures st)"

lemma state_line_pair:
  assumes "state_key_ok k" and "state_value_ok v"
  shows "state_line st (k @ ''='' @ v) = state_entry k v st"
proof -
  have "strip_cr (k @ ''='' @ v) = k @ ''='' @ v" using assms(2) by (auto simp: strip_cr_def state_value_ok_def CR_def)
  moreover have "find_char (CHR ''='') (k @ ''='' @ v) = Some (length k)"
    using assms(1) by (simp add: find_char_append_fresh state_key_ok_def)
  ultimately show ?thesis by (simp add: state_line_def)
qed

lemma state_lines_pairs:
  assumes "list_all (\<lambda>(k, v). state_key_ok k \<and> state_value_ok v) ps" and "state_key_ok prefix"
  shows "foldl state_line st (split_lt LF (concat (map (state_pair prefix) ps) @ rest)) =
    foldl state_line (foldl (\<lambda>st (k, v). state_entry (prefix @ k) v st) st ps) (split_lt LF rest)"
  using assms(1)
proof (induction ps arbitrary: st)
  case (Cons p ps)
  obtain k v where p: "p = (k, v)" by fastforce
  with Cons.prems assms(2) have ok: "state_key_ok (prefix @ k)" "state_value_ok v" by (auto simp: state_key_ok_def)
  then have "LF \<notin> set (prefix @ k @ ''='' @ v)" by (auto simp: state_key_ok_def state_value_ok_def LF_def)
  then show ?case
    using Cons state_line_pair [OF ok, of st] split_lt_line [of "prefix @ k @ ''='' @ v"]
    by (simp add: state_pair_def p)
qed simp

lemma fold_state_entries:
  "foldl (\<lambda>st (k, v). state_entry (''file.'' @ k) v st) st ps = st\<lparr>st_files := foldl (\<lambda>m (k, v). sput k v m) (st_files st) ps\<rparr>"
  "foldl (\<lambda>st (k, v). state_entry (''last_ok.'' @ k) v st) st ps = st\<lparr>st_last_ok := foldl (\<lambda>m (k, v). sput k v m) (st_last_ok st) ps\<rparr>"
  "foldl (\<lambda>st (k, v). state_entry (''failure.'' @ k) v st) st ps = st\<lparr>st_failures := foldl (\<lambda>m (k, v). sput k v m) (st_failures st) ps\<rparr>"
  by (induction ps arbitrary: st) (auto simp: state_entry_def starts_with_def)

lemma parse_int64_dec_of_int:
  assumes "- (2 ^ 63) \<le> i" and "i < 2 ^ 63"
  shows "parse_int64 (dec_of_int i) = Some i"
proof -
  have "list_all isdigit (dec_of_nat n)" "hd (dec_of_nat n) \<noteq> CHR ''-''" for n
    using dec_of_nat_digits [of n] dec_of_nat_hd [of n] by (auto simp: list_all_iff)
  with assms show ?thesis by (auto simp: parse_int64_def from_chars_int64_def dec_of_int_def Let_def)
qed

lemma dec_of_int_value_ok: "state_value_ok (dec_of_int i)"
proof -
  have d: "\<forall>c \<in> set (dec_of_nat n). isdigit c" for n by (rule dec_of_nat_digits)
  have "LF \<notin> set (dec_of_nat n)" "last (dec_of_nat n) \<noteq> CR" for n
  proof -
    have "\<not> isdigit LF" "\<not> isdigit CR" by (simp_all add: isdigit_def LF_def CR_def)
    with d [of n] last_in_set [OF dec_of_nat_neq_Nil, of n] show "LF \<notin> set (dec_of_nat n)" "last (dec_of_nat n) \<noteq> CR" by metis+
  qed
  then show ?thesis by (auto simp: state_value_ok_def dec_of_int_def LF_def)
qed

lemma load_state_text:
  assumes "state_ok st"
  shows "load_state (Some (state_text st)) = st\<lparr>st_exists := True\<rparr>"
proof -
  have m: "smap_ok (st_files st)" "smap_ok (st_last_ok st)" "smap_ok (st_failures st)"
    "list_all (\<lambda>(k, v). state_key_ok k \<and> state_value_ok v) (st_files st)"
    "list_all (\<lambda>(k, v). state_key_ok k \<and> state_value_ok v) (st_last_ok st)"
    "list_all (\<lambda>(k, v). state_key_ok k \<and> state_value_ok v) (st_failures st)"
    using assms by (simp_all add: state_ok_def state_map_ok_def)
  have k: "state_key_ok ''file.''" "state_key_ok ''last_ok.''" "state_key_ok ''failure.''"
    "state_key_ok ''synced_version''" "state_key_ok ''status''" by (simp_all add: state_key_ok_def LF_def)
  have id: "foldl (\<lambda>m (k, v). sput k v m) [] x = x" if "smap_ok x" for x :: "(string, string) smap"
    using smap_of_id [OF that] by (simp add: smap_of_def)
  have v: "LF \<notin> set (''synced_version='' @ dec_of_int (st_version st))" "LF \<notin> set (''status='' @ st_status st)"
    using dec_of_int_value_ok assms by (auto simp: state_value_ok_def state_ok_def LF_def)
  let ?rest = "concat (map (state_pair ''file.'') (st_files st)) @ concat (map (state_pair ''last_ok.'') (st_last_ok st)) @
    concat (map (state_pair ''failure.'') (st_failures st)) @ []"
  have "split_lt LF (state_text st) =
      (''synced_version'' @ ''='' @ dec_of_int (st_version st)) # (''status'' @ ''='' @ st_status st) # split_lt LF ?rest"
    using split_lt_line [OF v(1)] split_lt_line [OF v(2)] by (simp add: state_text_def)
  moreover have "state_value_ok (st_status st)" using assms by (simp add: state_ok_def)
  ultimately have "foldl state_line s0 (split_lt LF (state_text st)) =
      foldl (\<lambda>st (k, v). state_entry (''failure.'' @ k) v st)
        (foldl (\<lambda>st (k, v). state_entry (''last_ok.'' @ k) v st)
          (foldl (\<lambda>st (k, v). state_entry (''file.'' @ k) v st)
            (state_entry ''status'' (st_status st) (state_entry ''synced_version'' (dec_of_int (st_version st)) s0))
            (st_files st)) (st_last_ok st)) (st_failures st)" for s0
    by (simp only: foldl.simps state_line_pair [OF k(4) dec_of_int_value_ok] state_line_pair [OF k(5)]
        state_lines_pairs [OF m(4) k(1)] state_lines_pairs [OF m(5) k(2)] state_lines_pairs [OF m(6) k(3)] split_lt.simps [of LF "[]"]
        if_True simp_thms)
  moreover have "parse_int64 (dec_of_int (st_version st)) = Some (st_version st)"
    using assms by (simp add: parse_int64_dec_of_int state_ok_def)
  then have "state_entry ''status'' (st_status st) (state_entry ''synced_version'' (dec_of_int (st_version st)) (sync_state0\<lparr>st_exists := True\<rparr>)) =
      sync_state0\<lparr>st_exists := True, st_version := st_version st, st_status := st_status st\<rparr>"
    by (simp add: state_entry_def)
  ultimately show ?thesis
    unfolding load_state_def option.case fold_state_entries by (simp add: id m sync_state0_def)
qed

text \<open>
  The state file reads back as the state that was written, for texts without line breaks and keys without an
  equals sign.
\<close>

lemma state_file_roundtrip:
  assumes "state_ok st" and "io_open io" and "io_rename io" and "\<forall>t. io_stored io t = t"
  shows "load_state (snd (write_state io old st)) = st\<lparr>st_exists := True\<rparr> \<and> fst (write_state io old st)"
  using load_state_text [OF assms(1)] assms(2-4) by (auto simp: write_state_def replace_file_def)

definition plain_io :: file_io where
  "plain_io = \<lparr>io_open = True, io_stored = (\<lambda>t. t), io_rename = True\<rparr>"

text \<open>The stream is not checked before the rename, so a full disk replaces a good file by a cut one and reports success.\<close>

lemma full_disk_installs_cut_file:
  "replace_file \<lparr>io_open = True, io_stored = take 3, io_rename = True\<rparr> (Some ''[server]'') ''[mysql]'' = (True, Some ''[my'')"
  by (simp add: replace_file_def)

lemma hex_digits_length [simp]: "length (hex_digits w n) = w"
  by (induction w arbitrary: n) auto

lemma content_hash_length [simp]: "length (content_hash c) = 16"
  by (simp add: content_hash_def)

lemma hex_digits_chars: "\<forall>c \<in> set (hex_digits w n). c \<noteq> CHR ''='' \<and> c \<noteq> LF \<and> c \<noteq> CR"
proof -
  have h: "code (hex_low d) = (if d < 10 then 48 + d else 87 + d)" if "d < 16" for d
    using that by (simp add: hex_low_def)
  have "hex_low d \<noteq> CHR ''='' \<and> hex_low d \<noteq> LF \<and> hex_low d \<noteq> CR" if "d < 16" for d
    using h [OF that] by (auto simp: LF_def CR_def split: if_splits)
  then show ?thesis by (induction w arbitrary: n) auto
qed

lemma content_hash_ok: "state_value_ok (content_hash c)"
proof -
  have "content_hash c \<noteq> []" using content_hash_length [of c] by (metis length_0_conv zero_neq_numeral)
  with hex_digits_chars [of 16] show ?thesis unfolding content_hash_def state_value_ok_def by (metis last_in_set)
qed

end
