(* ===== verification/History_Data.thy ===== *)
theory History_Data
  imports Std_Map Response App_Config Admin_Json
begin

text \<open>
  The formats of the history, \<^verbatim>\<open>src/app/admin/config_history_data.cpp\<close>: the hash over a set of files, the limits of a snapshot, the
  metadata text with the reader of one field, the answers of the API and the coarse difference of two versions. SHA-256 is the
  parameter \<open>sha\<close>, the bytes of the digest or \<open>None\<close> when the library fails.
\<close>

section \<open>Snapshots\<close>

type_synonym file_map = "(string, string) smap"

record snapshot_info =
  si_file_count :: nat
  si_total_bytes :: nat
  si_content_sha256 :: string

definition snapshot_info0 :: snapshot_info where
  "snapshot_info0 = \<lparr>si_file_count = 0, si_total_bytes = 0, si_content_sha256 = []\<rparr>"

record snapshot_record =
  sr_current_version :: int
  sr_meta_json :: string
  sr_files :: file_map

text \<open>The eight bytes of a 64-bit number, most significant first.\<close>

definition digest_u64 :: "nat \<Rightarrow> string" where
  "digest_u64 n = map (\<lambda>i. char_of (n div 256 ^ (7 - i))) [0..<8]"

definition digest_file :: "string \<times> string \<Rightarrow> string" where
  "digest_file f = digest_u64 (length (fst f)) @ fst f @ digest_u64 (length (snd f)) @ snd f"

definition hex_byte :: "char \<Rightarrow> string" where
  "hex_byte c = [hex_low (code c div 16), hex_low (code c mod 16)]"

definition content_sha256 :: "(string \<Rightarrow> string option) \<Rightarrow> file_map \<Rightarrow> string option" where
  "content_sha256 sha files = map_option (\<lambda>d. concat (map hex_byte d)) (sha (concat (map digest_file files)))"

fun snapshot_sizes :: "history_config \<Rightarrow> file_map \<Rightarrow> snapshot_info \<Rightarrow> string option \<times> snapshot_info" where
  "snapshot_sizes cfg [] info = (None, info)"
| "snapshot_sizes cfg ((name, content) # fs) info =
     (if length content > hc_max_file_bytes cfg then
        (Some (name @ '': file content exceeds limit '' @ dec_of_nat (hc_max_file_bytes cfg) @ '' bytes''), info)
      else if length content > hc_max_snapshot_bytes cfg - min (si_total_bytes info) (hc_max_snapshot_bytes cfg) then
        (Some (''snapshot content exceeds limit '' @ dec_of_nat (hc_max_snapshot_bytes cfg) @ '' bytes''), info)
      else snapshot_sizes cfg fs (info\<lparr>si_total_bytes := si_total_bytes info + length content\<rparr>))"

text \<open>The error and the info the caller is left with.\<close>

definition validate_snapshot ::
  "(string \<Rightarrow> string option) \<Rightarrow> file_map \<Rightarrow> history_config \<Rightarrow> bool \<Rightarrow> string option \<times> snapshot_info" where
  "validate_snapshot sha files cfg reject_empty =
     (if reject_empty \<and> files = [] then (Some ''files must not be empty'', snapshot_info0)
      else if length files > hc_max_files cfg then
        (Some (''managed file count exceeds limit '' @ dec_of_nat (hc_max_files cfg)), snapshot_info0)
      else
        (case snapshot_sizes cfg files (snapshot_info0\<lparr>si_file_count := length files\<rparr>) of
           (Some e, info) \<Rightarrow> (Some e, info)
         | (None, info) \<Rightarrow>
             (case content_sha256 sha files of
                None \<Rightarrow> (Some ''failed to calculate snapshot SHA-256'', info)
              | Some hash \<Rightarrow> (None, info\<lparr>si_content_sha256 := hash\<rparr>))))"

section \<open>Metadata\<close>

definition json_quoted :: "string \<Rightarrow> string" where
  "json_quoted s = [DQUOTE] @ json_escape s @ [DQUOTE]"

text \<open>A member name of the text, which needs no escapes.\<close>

definition json_name :: "string \<Rightarrow> string" where
  "json_name s = [DQUOTE] @ s @ [DQUOTE, CHR '':'']"

definition metadata_json ::
  "int \<Rightarrow> int \<Rightarrow> int \<Rightarrow> string \<Rightarrow> string \<Rightarrow> string \<Rightarrow> snapshot_info \<Rightarrow> int option \<Rightarrow> string" where
  "metadata_json version base_version timestamp user action reason info rollback_from =
     ''{'' @ json_name ''version'' @ dec_of_int version @
     '','' @ json_name ''base_version'' @ dec_of_int base_version @
     '','' @ json_name ''ts'' @ dec_of_int timestamp @
     '','' @ json_name ''user'' @ json_quoted user @
     '','' @ json_name ''action'' @ json_quoted action @
     '','' @ json_name ''reason'' @ json_quoted reason @
     '','' @ json_name ''file_count'' @ dec_of_nat (si_file_count info) @
     '','' @ json_name ''total_bytes'' @ dec_of_nat (si_total_bytes info) @
     '','' @ json_name ''content_sha256'' @ [DQUOTE] @ si_content_sha256 info @ [DQUOTE] @
     '','' @ json_name ''rollback_from'' @ (case rollback_from of Some v \<Rightarrow> dec_of_int v | None \<Rightarrow> ''null'') @ ''}''"

definition simple_escape :: "char \<Rightarrow> char option" where
  "simple_escape e =
     (if e = DQUOTE \<or> e = BACKSLASH \<or> e = CHR ''/'' then Some e
      else if e = CHR ''b'' then Some (CHR 0x08)
      else if e = CHR ''f'' then Some (CHR 0x0C)
      else if e = CHR ''n'' then Some LF
      else if e = CHR ''r'' then Some CR
      else if e = CHR ''t'' then Some (CHR 0x09)
      else None)"

fun field_value :: "string \<Rightarrow> string option" where
  "field_value [] = None"
| "field_value (c # r) =
     (if c = DQUOTE then Some []
      else if c \<noteq> BACKSLASH then map_option ((#) c) (field_value r)
      else case r of
        [] \<Rightarrow> None
      | e # r' \<Rightarrow> (case simple_escape e of None \<Rightarrow> None | Some x \<Rightarrow> map_option ((#) x) (field_value r')))"

definition json_string_field :: "string \<Rightarrow> string \<Rightarrow> string option" where
  "json_string_field json field =
     (let needle = [DQUOTE] @ field @ [DQUOTE] in
      case find_sub needle json of
        None \<Rightarrow> None
      | Some pos \<Rightarrow>
          (let rest = drop (pos + length needle) json in
           case find_char (CHR '':'') rest of
             None \<Rightarrow> None
           | Some p \<Rightarrow>
               (case dropWhile (\<lambda>c. c = CHR '' '' \<or> c = CHR 0x09 \<or> c = CR \<or> c = LF) (drop (p + 1) rest) of
                  [] \<Rightarrow> None
                | c # r \<Rightarrow> if c \<noteq> DQUOTE then None else field_value r)))"

section \<open>Answers\<close>

definition parse_detail_elements :: "string list \<Rightarrow> snapshot_record option" where
  "parse_detail_elements elements =
     (if length elements < 2 \<or> (length elements - 2) mod 2 \<noteq> 0 then None
      else case parse_int64 (elements ! 0) of
        None \<Rightarrow> None
      | Some current \<Rightarrow>
          if current < 0 \<or> elements ! 1 = [] \<or> elements ! 1 = ''(nil)'' then None
          else
            (let files = smap_of (pairs_of (drop 2 elements)) in
             if files = [] then None
             else Some \<lparr>sr_current_version = current, sr_meta_json = elements ! 1, sr_files = files\<rparr>))"

fun list_entries :: "string list \<Rightarrow> string list \<times> int option" where
  "list_entries (v # m # r) =
     (case parse_int64 v of
        Some version \<Rightarrow>
          if m = [] \<or> m = ''(nil)'' then list_entries r
          else (case list_entries r of (ms, next) \<Rightarrow> (m # ms, case next of None \<Rightarrow> Some version | Some n \<Rightarrow> Some n))
      | None \<Rightarrow> list_entries r)"
| "list_entries _ = ([], None)"

fun comma_list :: "string list \<Rightarrow> string" where
  "comma_list [] = []"
| "comma_list [x] = x"
| "comma_list (x # y # r) = x @ '','' @ comma_list (y # r)"

definition int_or_null :: "int option \<Rightarrow> string" where
  "int_or_null x = (case x of Some v \<Rightarrow> dec_of_int v | None \<Rightarrow> ''null'')"

definition history_list_json :: "string list \<Rightarrow> int \<Rightarrow> string" where
  "history_list_json elements current_version =
     ''{'' @ json_name ''current_version'' @ dec_of_int current_version @ '','' @ json_name ''versions'' @ ''['' @
     comma_list (fst (list_entries elements)) @ ''],'' @ json_name ''next_before'' @ int_or_null (snd (list_entries elements)) @ ''}''"

definition history_file_json :: "string \<times> string \<Rightarrow> string" where
  "history_file_json f = ''{'' @ json_name ''name'' @ json_quoted (fst f) @ '','' @ json_name ''content'' @ json_quoted (snd f) @ ''}''"

definition detail_json :: "int \<Rightarrow> snapshot_record \<Rightarrow> string" where
  "detail_json version r =
     ''{'' @ json_name ''version'' @ dec_of_int version @ '','' @ json_name ''current_version'' @ dec_of_int (sr_current_version r) @
     '','' @ json_name ''meta'' @ sr_meta_json r @ '','' @ json_name ''files'' @ ''['' @
     comma_list (map history_file_json (sr_files r)) @ '']}''"

section \<open>Differences\<close>

definition split_text_lines :: "string \<Rightarrow> string list" where
  "split_text_lines text = split_lt LF text @ (if text \<noteq> [] \<and> last text = LF then [[]] else [])"

fun common_prefix :: "'a list \<Rightarrow> 'a list \<Rightarrow> nat" where
  "common_prefix (x # xs) (y # ys) = (if x = y then Suc (common_prefix xs ys) else 0)"
| "common_prefix _ _ = 0"

text \<open>The lines kept at the end, never reaching into the common beginning.\<close>

definition diff_bounds :: "'a list \<Rightarrow> 'a list \<Rightarrow> nat \<times> nat \<times> nat" where
  "diff_bounds old new =
     (let p = common_prefix old new; s = common_prefix (rev (drop p old)) (rev (drop p new)) in
      (p, length old - s, length new - s))"

definition marked :: "string \<Rightarrow> string list \<Rightarrow> string" where
  "marked m ls = concat (map (\<lambda>l. m @ l @ [LF]) ls)"

definition coarse_text_diff :: "string \<Rightarrow> string \<Rightarrow> string \<Rightarrow> string" where
  "coarse_text_diff name from to =
     (let old = split_text_lines from; new = split_text_lines to; (p, os, ns) = diff_bounds old new in
      ''--- '' @ name @ [LF] @ ''+++ '' @ name @ [LF] @
      marked '' '' (drop (p - 2) (take p old)) @
      marked ''-'' (drop p (take os old)) @
      marked ''+'' (drop p (take ns new)) @
      marked '' '' (take 2 (drop os old)))"

definition sensitive_needles :: "string list" where
  "sensitive_needles = [''[mysql]'', ''pass'', ''password'', ''secret'', ''token'', ''private_key'', ''jwt_private'']"

definition looks_sensitive :: "string \<Rightarrow> bool" where
  "looks_sensitive content = list_ex (\<lambda>n. find_sub n (lower content) \<noteq> None) sensitive_needles"

definition bool_json :: "bool \<Rightarrow> string" where
  "bool_json b = (if b then ''true'' else ''false'')"

definition change_json :: "string \<Rightarrow> string option \<Rightarrow> string option \<Rightarrow> string" where
  "change_json name old new =
     ''{'' @ json_name ''name'' @ json_quoted name @ '','' @ json_name ''type'' @ [DQUOTE] @
     (case (old, new) of
        (None, Some c) \<Rightarrow> ''added'' @ [DQUOTE] @ '','' @ json_name ''content'' @ json_quoted c @
          '','' @ json_name ''sensitive'' @ bool_json (looks_sensitive c)
      | (Some c, None) \<Rightarrow> ''deleted'' @ [DQUOTE] @ '','' @ json_name ''content'' @ json_quoted c @
          '','' @ json_name ''sensitive'' @ bool_json (looks_sensitive c)
      | (Some a, Some b) \<Rightarrow> ''modified'' @ [DQUOTE] @ '','' @ json_name ''diff'' @ json_quoted (coarse_text_diff name a b) @
          '','' @ json_name ''sensitive'' @ bool_json (looks_sensitive a \<or> looks_sensitive b)
      | (None, None) \<Rightarrow> []) @ ''}''"

definition all_names :: "file_map \<Rightarrow> file_map \<Rightarrow> string list" where
  "all_names a b = map fst (smap_of (a @ b))"

fun diff_loop :: "file_map \<Rightarrow> file_map \<Rightarrow> nat \<Rightarrow> string list \<Rightarrow> bool \<Rightarrow> string \<Rightarrow> string option" where
  "diff_loop from to limit [] first out = Some out"
| "diff_loop from to limit (n # ns) first out =
     (let old = map_of from n; new = map_of to n in
      if old \<noteq> None \<and> new \<noteq> None \<and> old = new then diff_loop from to limit ns first out
      else
        (let out' = out @ (if first then [] else '','') @ change_json n old new in
         if length out' > limit then None else diff_loop from to limit ns False out'))"

definition diff_json :: "int \<Rightarrow> snapshot_record \<Rightarrow> int \<Rightarrow> snapshot_record \<Rightarrow> nat \<Rightarrow> string option" where
  "diff_json from_version from to_version to limit =
     (case diff_loop (sr_files from) (sr_files to) limit (all_names (sr_files from) (sr_files to)) True
        (''{'' @ json_name ''from'' @ dec_of_int from_version @ '','' @ json_name ''to'' @ dec_of_int to_version @
         '','' @ json_name ''changes'' @ ''['') of
        None \<Rightarrow> None
      | Some out \<Rightarrow> if length (out @ '']}'') > limit then None else Some (out @ '']}''))"

section \<open>The hash covers names and contents\<close>

lemma digest_u64_length [simp]: "length (digest_u64 n) = 8"
  by (simp add: digest_u64_def)

lemma digest_u64_inj:
  assumes "digest_u64 a = digest_u64 b" and "a < 2 ^ 64" and "b < 2 ^ 64"
  shows "a = b"
proof -
  define B :: nat where "B = 256"
  have B: "2 ^ 64 = B ^ 8" by (simp add: B_def)
  have digit: "a div B ^ i mod B = b div B ^ i mod B" if "i < 8" for i
  proof -
    have "(char_of (a div 256 ^ (7 - (7 - i))) :: char) = char_of (b div 256 ^ (7 - (7 - i)))"
      using arg_cong [OF assms(1), of "\<lambda>l. l ! (7 - i)"] that nth_upt [of 0 "7 - i" 8] by (simp add: digest_u64_def del: upt_Suc)
    moreover have "7 - (7 - i) = i" using that by simp
    ultimately have "(char_of (a div 256 ^ i) :: char) = char_of (b div 256 ^ i)" by simp
    then have "code (char_of (a div 256 ^ i)) = code (char_of (b div 256 ^ i))" by simp
    then show ?thesis by (simp add: B_def)
  qed
  have "a div B ^ (8 - k) = b div B ^ (8 - k)" if "k \<le> 8" for k
    using that
  proof (induction k)
    case 0
    then show ?case using assms(2,3) B by simp
  next
    case (Suc k)
    then have e: "8 - k = Suc (8 - Suc k)" by simp
    have "a div B ^ (8 - Suc k) div B = b div B ^ (8 - Suc k) div B"
      using Suc unfolding e by (simp add: div_mult2_eq [symmetric] mult.commute)
    then show ?case using digit [of "8 - Suc k"] by (metis Suc.prems diff_less div_mod_decomp less_numeral_extra(1) zero_less_Suc zero_less_numeral)
  qed
  from this [of 8] show ?thesis by simp
qed

lemma digest_prefix_inj:
  assumes "digest_u64 (length a) @ a @ x = digest_u64 (length b) @ b @ y" and "length a < 2 ^ 64" and "length b < 2 ^ 64"
  shows "a = b \<and> x = y"
proof -
  have "digest_u64 (length a) = digest_u64 (length b)" using assms(1) by (metis append_eq_append_conv digest_u64_length)
  then have "length a = length b" by (rule digest_u64_inj) (rule assms(2,3))+
  with assms(1) show ?thesis by simp
qed

definition small_files :: "file_map \<Rightarrow> bool" where
  "small_files m \<longleftrightarrow> list_all (\<lambda>(n, c). length n < 2 ^ 64 \<and> length c < 2 ^ 64) m"

lemma digest_input_inj:
  "small_files m \<Longrightarrow> small_files n \<Longrightarrow> concat (map digest_file m) = concat (map digest_file n) \<Longrightarrow> m = n"
proof (induction m arbitrary: n)
  case Nil
  then show ?case by (cases n) (auto simp: digest_file_def digest_u64_def)
next
  case (Cons p m)
  obtain q r where n: "n = q # r" using Cons.prems(3) by (cases n) (auto simp: digest_file_def digest_u64_def)
  obtain a b c d where pq: "p = (a, b)" "q = (c, d)" by fastforce
  have small: "length a < 2 ^ 64" "length b < 2 ^ 64" "length c < 2 ^ 64" "length d < 2 ^ 64" "small_files m" "small_files r"
    using Cons.prems(1,2) by (simp_all add: n pq small_files_def)
  have "digest_u64 (length a) @ a @ digest_u64 (length b) @ b @ concat (map digest_file m) =
      digest_u64 (length c) @ c @ digest_u64 (length d) @ d @ concat (map digest_file r)"
    using Cons.prems(3) by (simp add: n pq digest_file_def [of "(_, _)"])
  from digest_prefix_inj [OF this small(1,3)] digest_prefix_inj [OF _ small(2,4)]
  have "a = c" "b = d" "concat (map digest_file m) = concat (map digest_file r)" by blast+
  with Cons.IH [OF small(5,6)] show ?case by (simp add: n pq)
qed

lemma hex_low_inj: "a < 16 \<Longrightarrow> b < 16 \<Longrightarrow> hex_low a = hex_low b \<Longrightarrow> a = b"
  by (metis hex_low_val_hex_low)

lemma hex_bytes_inj: "concat (map hex_byte x) = concat (map hex_byte y) \<Longrightarrow> x = y"
proof (induction x arbitrary: y)
  case Nil
  then show ?case by (cases y) (auto simp: hex_byte_def)
next
  case (Cons c x)
  then obtain d y' where y: "y = d # y'" by (cases y) (auto simp: hex_byte_def)
  have "code c div 16 < 16" "code d div 16 < 16" by (simp_all add: div_less_iff_less_mult)
  then have "code c div 16 = code d div 16" "code c mod 16 = code d mod 16"
    using Cons.prems by (auto simp: y hex_byte_def intro: hex_low_inj)
  then have "c = d" by (metis code_inj div_mult_mod_eq)
  with Cons show ?case by (simp add: y hex_byte_def)
qed

text \<open>
  Two sets of files have the same content hash only if they are the same files or SHA-256 collides on two different
  inputs: names and contents cannot be shifted against each other.
\<close>

lemma content_hash_identifies:
  assumes "content_sha256 sha m = Some h" and "content_sha256 sha n = Some h" and "small_files m" and "small_files n"
  shows "m = n \<or> (\<exists>x y. x \<noteq> y \<and> sha x = sha y \<and> sha x \<noteq> None)"
proof (cases "concat (map digest_file m) = concat (map digest_file n)")
  case True
  then show ?thesis using digest_input_inj assms(3,4) by blast
next
  case False
  from assms(1,2) obtain d e where "sha (concat (map digest_file m)) = Some d" "sha (concat (map digest_file n)) = Some e"
    "concat (map hex_byte d) = concat (map hex_byte e)" by (auto simp: content_sha256_def)
  with hex_bytes_inj [of d e] False show ?thesis by fastforce
qed

section \<open>The hash read back from the metadata\<close>

text \<open>No occurrence of the needle starts in \<open>p\<close>, in front of \<open>q\<close>.\<close>

definition skips :: "string \<Rightarrow> string \<Rightarrow> string \<Rightarrow> bool" where
  "skips needle p q \<longleftrightarrow> find_sub needle (p @ q) = map_option ((+) (length p)) (find_sub needle q)"

lemma skips_Nil: "skips needle [] q"
  by (cases "find_sub needle q") (auto simp: skips_def)

lemma skips_Cons: "skips needle (c # p) q" if "\<not> starts_with needle (c # p @ q)" "skips needle p q"
  using that find_sub.simps [of needle "c # p @ q"] by (cases "find_sub needle q") (auto simp: skips_def)

lemma skips_append: "skips needle p (p' @ q) \<Longrightarrow> skips needle p' q \<Longrightarrow> skips needle (p @ p') q"
  by (cases "find_sub needle q") (auto simp: skips_def)

lemma skips_no_quote: "DQUOTE \<notin> set p \<Longrightarrow> skips (DQUOTE # n) p q"
  by (induction p) (auto intro!: skips_Nil skips_Cons simp: starts_with_def)

lemma json_escape_Cons [simp]: "json_escape (c # s) = json_escape_char c @ json_escape s" "json_escape [] = []"
  by (simp_all add: json_escape_def)

text \<open>An escaped character is itself or starts with a backslash.\<close>

lemma json_escape_char_shape:
  "json_escape_char c = [c] \<and> c \<noteq> DQUOTE \<and> c \<noteq> BACKSLASH \<or>
   (\<exists>r. json_escape_char c = BACKSLASH # r \<and> (DQUOTE \<in> set r \<longrightarrow> c = DQUOTE \<and> r = [DQUOTE]))"
proof -
  have h: "hex_low d \<noteq> DQUOTE" if "d < 16" for d
  proof -
    have "code (hex_low d) = (if d < 10 then 48 + d else 87 + d)" using that by (simp add: hex_low_def)
    then show ?thesis by (auto simp: DQUOTE_def split: if_splits)
  qed
  have "hex_low (code c div 16) \<noteq> DQUOTE" "hex_low (code c mod 16) \<noteq> DQUOTE"
    by (rule h, simp add: div_less_iff_less_mult)+
  then show ?thesis by (simp add: json_escape_char_def DQUOTE_def BACKSLASH_def)
qed

lemma json_escape_char_cases:
  obtains "json_escape_char c = [c]" and "c \<noteq> DQUOTE" and "c \<noteq> BACKSLASH"
  | r where "json_escape_char c = BACKSLASH # r" and "DQUOTE \<in> set r \<longrightarrow> c = DQUOTE \<and> r = [DQUOTE]"
  using json_escape_char_shape [of c] by blast

definition plain_field :: "string \<Rightarrow> bool" where
  "plain_field f \<longleftrightarrow> DQUOTE \<notin> set f \<and> BACKSLASH \<notin> set f"

text \<open>A string literal that starts with the field name and a quote is the field name.\<close>

lemma literal_starts:
  "plain_field f \<Longrightarrow> starts_with (f @ [DQUOTE]) (json_escape u @ DQUOTE # rest) \<Longrightarrow> u = f"
proof (induction f arbitrary: u)
  case Nil
  show ?case
  proof (cases u)
    case (Cons c u')
    then show ?thesis using Nil by (cases c rule: json_escape_char_cases) (auto simp: starts_with_def DQUOTE_def BACKSLASH_def)
  qed simp
next
  case (Cons x f)
  show ?case
  proof (cases u)
    case Nil
    with Cons.prems show ?thesis by (auto simp: starts_with_def plain_field_def)
  next
    case (Cons c u')
    with Cons.prems Cons.IH [of u'] show ?thesis
      by (cases c rule: json_escape_char_cases) (auto simp: starts_with_def plain_field_def)
  qed
qed

lemma skips_escaped:
  "plain_field f \<Longrightarrow> \<not> (\<exists>r. u = r @ DQUOTE # f) \<Longrightarrow> skips (DQUOTE # f @ [DQUOTE]) (json_escape u) (DQUOTE # rest)"
proof (induction u)
  case Nil
  show ?case by (simp add: skips_Nil)
next
  case (Cons c u)
  have "\<not> (\<exists>r. u = r @ DQUOTE # f)" using Cons.prems(2) by (metis append_Cons)
  then have u: "skips (DQUOTE # f @ [DQUOTE]) (json_escape u) (DQUOTE # rest)" by (rule Cons.IH [OF Cons.prems(1)])
  have "skips (DQUOTE # f @ [DQUOTE]) (json_escape_char c) (json_escape u @ DQUOTE # rest)"
  proof (cases c rule: json_escape_char_cases)
    case 1
    then show ?thesis by (simp add: skips_no_quote)
  next
    case (2 r)
    show ?thesis
    proof (cases "DQUOTE \<in> set r")
      case True
      with 2 have c: "c = DQUOTE" "r = [DQUOTE]" by auto
      have "\<not> starts_with (DQUOTE # f @ [DQUOTE]) (DQUOTE # json_escape u @ DQUOTE # rest)"
        using literal_starts [OF Cons.prems(1), of u rest] Cons.prems(2) c by (auto simp: starts_with_def)
      then show ?thesis
        using 2 c by (auto intro!: skips_Cons skips_Nil simp: starts_with_def DQUOTE_def BACKSLASH_def)
    next
      case False
      then show ?thesis using 2 by (intro skips_no_quote) (auto simp: DQUOTE_def BACKSLASH_def)
    qed
  qed
  with u show ?case by (auto intro: skips_append)
qed

definition hides_field :: "string \<Rightarrow> string \<Rightarrow> bool" where
  "hides_field f u \<longleftrightarrow> u = f \<or> (\<exists>r. u = r @ DQUOTE # f)"

lemma skips_quoted:
  assumes "plain_field f" and "\<not> hides_field f u" and "f = [] \<or> hd f \<noteq> CHR '',''" and "f \<noteq> []"
  shows "skips (DQUOTE # f @ [DQUOTE]) (json_quoted u) (CHR '','' # rest)"
proof -
  have "skips (DQUOTE # f @ [DQUOTE]) [DQUOTE] (json_escape u @ [DQUOTE] @ CHR '','' # rest)"
    using literal_starts [OF assms(1), of u "CHR '','' # rest"] assms(2)
    by (auto intro!: skips_Cons skips_Nil simp: starts_with_def hides_field_def)
  moreover have "skips (DQUOTE # f @ [DQUOTE]) (json_escape u) ([DQUOTE] @ CHR '','' # rest)"
    using skips_escaped [OF assms(1), of u] assms(2) by (simp add: hides_field_def)
  moreover have "skips (DQUOTE # f @ [DQUOTE]) [DQUOTE] (CHR '','' # rest)"
    using assms(3,4) by (cases f) (auto intro!: skips_Cons skips_Nil simp: starts_with_def)
  ultimately show ?thesis unfolding json_quoted_def by (intro skips_append) simp_all
qed

lemma skips_name:
  assumes "plain_field g" and "g \<noteq> f" and "plain_field f" and "f \<noteq> []" and "hd f \<noteq> CHR '':''"
  shows "skips (DQUOTE # f @ [DQUOTE]) (json_name g) rest"
proof -
  have "\<not> starts_with (f @ [DQUOTE]) (g @ DQUOTE # CHR '':'' # rest)"
  proof
    assume "starts_with (f @ [DQUOTE]) (g @ DQUOTE # CHR '':'' # rest)"
    then have "takeWhile (\<lambda>c. c \<noteq> DQUOTE) (f @ [DQUOTE] @ drop (Suc (length f)) (g @ DQUOTE # CHR '':'' # rest)) =
        takeWhile (\<lambda>c. c \<noteq> DQUOTE) (g @ DQUOTE # CHR '':'' # rest)"
      unfolding starts_with_def by (metis append_take_drop_id append.assoc length_append_singleton)
    moreover have "takeWhile (\<lambda>c. c \<noteq> DQUOTE) (x @ DQUOTE # y) = x" if "DQUOTE \<notin> set x" for x y
      using that by (induction x) auto
    ultimately show False using assms(1-3) by (simp add: plain_field_def)
  qed
  then have "skips (DQUOTE # f @ [DQUOTE]) [DQUOTE] (g @ [DQUOTE, CHR '':''] @ rest)"
    by (auto intro!: skips_Cons skips_Nil simp: starts_with_def)
  moreover have "skips (DQUOTE # f @ [DQUOTE]) g ([DQUOTE, CHR '':''] @ rest)"
    using assms(1) by (intro skips_no_quote) (simp add: plain_field_def)
  moreover have "skips (DQUOTE # f @ [DQUOTE]) [DQUOTE, CHR '':''] rest"
    using assms(4,5) by (cases f) (auto intro!: skips_Cons skips_Nil simp: starts_with_def DQUOTE_def)
  ultimately show ?thesis unfolding json_name_def by (intro skips_append) simp_all
qed

lemma skips_quoted_then:
  assumes "plain_field f" and "\<not> hides_field f u" and "f \<noteq> []" and "hd f \<noteq> CHR '',''" and "q \<noteq> []" and "hd q = CHR '',''"
  shows "skips (DQUOTE # f @ [DQUOTE]) (json_quoted u) q"
  using skips_quoted [OF assms(1,2), of "tl q"] assms(3-6) by (metis list.collapse)

lemma dec_no_quote: "DQUOTE \<notin> set (dec_of_nat n)" "DQUOTE \<notin> set (dec_of_int i)"
proof -
  have d: "\<forall>c \<in> set (dec_of_nat n). isdigit c" for n by (rule dec_of_nat_digits)
  have "\<not> isdigit DQUOTE" by (simp add: isdigit_def DQUOTE_def)
  with d show "DQUOTE \<notin> set (dec_of_nat n)" "DQUOTE \<notin> set (dec_of_int i)" for n by (auto simp: dec_of_int_def DQUOTE_def)
qed

definition hash_field :: string where
  "hash_field = ''content_sha256''"

lemma hash_field_plain: "plain_field hash_field" "hash_field \<noteq> []" "hd hash_field = CHR ''c''"
  by (simp_all add: hash_field_def plain_field_def DQUOTE_def BACKSLASH_def)

lemma field_value_plain: "plain_field v \<Longrightarrow> field_value (v @ DQUOTE # r) = Some v"
  by (induction v) (auto simp: plain_field_def)

lemma json_field_at:
  assumes "skips (DQUOTE # f @ [DQUOTE]) P ((DQUOTE # f @ [DQUOTE]) @ CHR '':'' # DQUOTE # v @ DQUOTE # r)" and "plain_field v"
  shows "json_string_field (P @ (DQUOTE # f @ [DQUOTE]) @ CHR '':'' # DQUOTE # v @ DQUOTE # r) f = Some v"
proof -
  let ?needle = "DQUOTE # f @ [DQUOTE]" and ?rest = "CHR '':'' # DQUOTE # v @ DQUOTE # r"
  have "find_sub ?needle (?needle @ ?rest) = Some 0" unfolding find_sub_0_iff starts_with_iff by blast
  with assms(1) have "find_sub ?needle (P @ ?needle @ ?rest) = Some (length P)" by (simp add: skips_def)
  moreover have "drop (length P + length ?needle) (P @ ?needle @ ?rest) = ?rest" by simp
  ultimately show ?thesis
    using field_value_plain [OF assms(2)] by (simp add: json_string_field_def Let_def DQUOTE_def CR_def LF_def)
qed

text \<open>
  The content hash is read back from the metadata text that was written, whatever the user and the reason are, as long as
  neither is the name of the field nor ends in a quote and that name.
\<close>

lemma meta_hash_read_back:
  assumes "\<not> hides_field hash_field user" and "\<not> hides_field hash_field action" and "\<not> hides_field hash_field reason"
    and "plain_field (si_content_sha256 info)"
  shows "json_string_field (metadata_json version base_version ts user action reason info rollback_from) hash_field =
    Some (si_content_sha256 info)"
proof -
  let ?needle = "DQUOTE # hash_field @ [DQUOTE]"
  let ?rest = "CHR '':'' # DQUOTE # si_content_sha256 info @ DQUOTE #
     ('','' @ json_name ''rollback_from'' @ (case rollback_from of Some v \<Rightarrow> dec_of_int v | None \<Rightarrow> ''null'') @ ''}'')"
  let ?P = "''{'' @ json_name ''version'' @ dec_of_int version @
     '','' @ json_name ''base_version'' @ dec_of_int base_version @
     '','' @ json_name ''ts'' @ dec_of_int ts @
     '','' @ json_name ''user'' @ json_quoted user @
     '','' @ json_name ''action'' @ json_quoted action @
     '','' @ json_name ''reason'' @ json_quoted reason @
     '','' @ json_name ''file_count'' @ dec_of_nat (si_file_count info) @
     '','' @ json_name ''total_bytes'' @ dec_of_nat (si_total_bytes info) @ '',''"
  have json: "metadata_json version base_version ts user action reason info rollback_from = ?P @ ?needle @ ?rest"
    by (simp add: metadata_json_def json_name_def [of "''content_sha256''"] hash_field_def)
  have name: "skips ?needle (json_name g) q" if "plain_field g" "g \<noteq> hash_field" for g q
    by (rule skips_name) (use that in \<open>simp_all add: hash_field_plain\<close>)
  have quoted: "skips ?needle (json_quoted u) q" if "\<not> hides_field hash_field u" "q \<noteq> []" "hd q = CHR '',''" for u q
    by (rule skips_quoted_then) (use that in \<open>simp_all add: hash_field_plain\<close>)
  have comma: "skips ?needle '','' q" "skips ?needle ''{'' q" for q
    by (rule skips_no_quote, simp add: DQUOTE_def)+
  have "skips ?needle ?P (?needle @ ?rest)"
    by (intro skips_append; (rule comma | rule name | rule quoted | rule skips_no_quote, rule dec_no_quote)?)
      (simp_all add: assms(1-3) [unfolded hash_field_def] plain_field_def DQUOTE_def BACKSLASH_def hash_field_def)
  from json_field_at [OF this assms(4)] show ?thesis unfolding json .
qed

text \<open>A reason that is the name of the field hides the hash, so the published version cannot be verified by any reader.\<close>

lemma reason_hides_hash:
  "json_string_field (metadata_json 2 1 0 ''root'' ''save'' ''content_sha256''
     \<lparr>si_file_count = 1, si_total_bytes = 3, si_content_sha256 = ''0a''\<rparr> None) ''content_sha256'' = None"
  by code_simp

section \<open>Limits, lines and differences\<close>

lemma snapshot_sizes_ok:
  "snapshot_sizes cfg fs info = (None, info') \<Longrightarrow> si_total_bytes info \<le> hc_max_snapshot_bytes cfg \<Longrightarrow>
   list_all (\<lambda>(n, c). length c \<le> hc_max_file_bytes cfg) fs \<and>
   si_total_bytes info' = si_total_bytes info + sum_list (map (\<lambda>(n, c). length c) fs) \<and>
   si_total_bytes info' \<le> hc_max_snapshot_bytes cfg \<and> si_file_count info' = si_file_count info"
proof (induction cfg fs info rule: snapshot_sizes.induct)
  case (2 cfg name content fs info)
  then show ?case by (auto split: if_splits simp: not_less le_diff_conv2 min_absorb1 add.commute)
qed simp

text \<open>What an accepted snapshot satisfies.\<close>

lemma validate_snapshot_ok:
  assumes "validate_snapshot sha files cfg reject_empty = (None, info)"
  shows "(reject_empty \<longrightarrow> files \<noteq> []) \<and> length files \<le> hc_max_files cfg \<and>
    list_all (\<lambda>(n, c). length c \<le> hc_max_file_bytes cfg) files \<and> si_file_count info = length files \<and>
    si_total_bytes info = sum_list (map (\<lambda>(n, c). length c) files) \<and> si_total_bytes info \<le> hc_max_snapshot_bytes cfg \<and>
    content_sha256 sha files = Some (si_content_sha256 info)"
  using assms
  by (auto simp: validate_snapshot_def snapshot_info0_def split: if_splits prod.splits option.splits dest!: snapshot_sizes_ok)

lemma split_lt_join: "c \<notin> set l \<Longrightarrow> split_lt c (l @ c # r) = l # split_lt c r"
  by (subst split_lt.simps) (simp add: find_char_append_fresh)

lemma split_text_lines_on: "s \<noteq> [] \<Longrightarrow> split_text_lines s = split_on LF s"
proof (induction "length s" arbitrary: s rule: less_induct)
  case less
  show ?case
  proof (cases "LF \<in> set s")
    case False
    then have "last s \<noteq> LF" using less.prems last_in_set by metis
    with False show ?thesis using less.prems
      by (auto simp: split_text_lines_def split_lt.simps [of LF s] find_char_def split_on_fresh)
  next
    case True
    then obtain l r where t: "s = l @ LF # r" "LF \<notin> set l" by (meson split_list_first)
    show ?thesis
    proof (cases r)
      case Nil
      then show ?thesis using t split_lt.simps [of LF "[]"] by (simp add: split_text_lines_def split_lt_join split_on_append)
    next
      case (Cons x xs)
      then show ?thesis
        using less.hyps [of r] t by (simp add: split_text_lines_def split_lt_join split_on_append)
    qed
  qed
qed

lemma split_text_lines_join: "join_with LF (split_text_lines s) = s"
proof (cases "s = []")
  case True
  then show ?thesis by (simp add: split_text_lines_def split_lt.simps)
qed (simp add: split_text_lines_on)

lemma common_prefix_take: "take (common_prefix a b) a = take (common_prefix a b) b"
  by (induction a b rule: common_prefix.induct) auto

lemma common_prefix_le: "common_prefix a b \<le> length a" "common_prefix a b \<le> length b"
  by (induction a b rule: common_prefix.induct) auto

text \<open>
  The difference is exact: with the lines that it leaves out, the lines marked with a minus give the old text and the lines
  marked with a plus the new one.
\<close>

lemma diff_bounds_exact:
  assumes "diff_bounds old new = (p, os, ns)"
  shows "p \<le> os" "p \<le> ns" "os \<le> length old" "ns \<le> length new" "take p old = take p new" "drop os old = drop ns new"
    "old = take p old @ drop p (take os old) @ drop os old" "new = take p old @ drop p (take ns new) @ drop os old"
proof -
  define s where "s = common_prefix (rev (drop p old)) (rev (drop p new))"
  from assms have p: "p = common_prefix old new" and os: "os = length old - s" and ns: "ns = length new - s"
    by (auto simp: diff_bounds_def Let_def s_def)
  have le: "p \<le> length old" "p \<le> length new" unfolding p by (rule common_prefix_le)+
  have s: "s \<le> length old - p" "s \<le> length new - p" unfolding s_def using common_prefix_le [of "rev (drop p old)" "rev (drop p new)"] by simp_all
  show b: "p \<le> os" "p \<le> ns" "os \<le> length old" "ns \<le> length new" using le s by (auto simp: os ns)
  show t: "take p old = take p new" unfolding p by (rule common_prefix_take)
  have "take s (rev (drop p old)) = take s (rev (drop p new))" unfolding s_def by (rule common_prefix_take)
  then have "drop (length (drop p old) - s) (drop p old) = drop (length (drop p new) - s) (drop p new)"
    by (metis rev_drop rev_rev_ident rev_swap take_rev)
  then show d: "drop os old = drop ns new" using le s by (simp add: os ns)
  have split: "take p xs @ drop p (take n xs) @ drop n xs = xs" if "p \<le> n" for n and xs :: "'a list"
  proof -
    have "take p (take n xs) @ drop p (take n xs) = take n xs" by (rule append_take_drop_id)
    then show ?thesis using that by (metis append.assoc append_take_drop_id min.absorb1 take_take)
  qed
  show "old = take p old @ drop p (take os old) @ drop os old" using split [OF b(1), of old] by simp
  show "new = take p old @ drop p (take ns new) @ drop os old" using split [OF b(2), of new] by (simp add: t d)
qed

lemma diff_json_bounded: "diff_json a from b to limit = Some out \<Longrightarrow> length out \<le> limit"
  by (auto simp: diff_json_def split: option.splits if_splits)

end
