(* ===== verification/Redis_Server.thy ===== *)
theory Redis_Server
  imports Complex_Main Admin_Json Config_Ini "HOL-Library.Product_Lexorder" "HOL-Library.Multiset"
begin

text \<open>
  What the scripts of \<^verbatim>\<open>src/app/admin/config_history_scripts.cpp\<close> and \<^verbatim>\<open>src/app/config_history_service.hpp\<close> rely on. The Redis
  server is the parameter \<open>srv\<close>: it takes a state and a command and gives what \<^verbatim>\<open>redis.call\<close> gives, with the next state; a
  raised error is on the left of the sum. The hypothesis \<open>serves\<close> says that it implements the documented effect of the
  commands on a key space, where the order of a listed hash is left open. The conversions between Lua numbers and texts are the
  parameter \<open>lua_num\<close>.
\<close>

section \<open>Key space\<close>

datatype rvalue = RString string | RHash "string \<rightharpoonup> string" | RList "string list" | RZset "string \<rightharpoonup> rat"

type_synonym keyspace = "string \<rightharpoonup> rvalue"

fun type_name :: "rvalue \<Rightarrow> string" where
  "type_name (RString _) = ''string''"
| "type_name (RHash _) = ''hash''"
| "type_name (RList _) = ''list''"
| "type_name (RZset _) = ''zset''"

datatype rcmd =
    TYPEOF string
  | GET string
  | SETV string string
  | INCR string
  | EXISTS string
  | DEL string
  | UNLINK string
  | RENAME string string
  | HSET string "(string \<times> string) list"
  | HGET string string
  | HMGET string "string list"
  | HEXISTS string string
  | HLEN string
  | HGETALL string
  | HVALS string
  | HDEL string string
  | ZADD string rat string
  | ZSCORE string string
  | ZCARD string
  | ZREVRANGE string nat nat
  | ZRANGE string nat nat
  | ZRANK string string
  | ZREVRANGEBYSCORE string "rat option" nat
  | ZREM string string
  | LPUSH string string
  | LTRIM string nat nat

text \<open>Values as Lua sees them: a null reply is \<^verbatim>\<open>false\<close>.\<close>

datatype lval = LFalse | LNum rat | LStr string | LArr "string list" | LOpts "string option list" | LPairs "(string \<times> string) list"

type_synonym 's redis = "'s \<Rightarrow> rcmd \<Rightarrow> (string + lval) \<times> 's"

text \<open>The text of an integer as the server itself writes it.\<close>

definition int_text :: "string \<Rightarrow> int option" where
  "int_text v = (case from_chars_int64 v of None \<Rightarrow> None | Some i \<Rightarrow> if dec_of_int i = v then Some i else None)"

text \<open>A sorted set in the order of scores, then members.\<close>

definition zlist :: "(string \<rightharpoonup> rat) \<Rightarrow> string list" where
  "zlist z = map snd (sorted_list_of_set ((\<lambda>m. (the (z m), m)) ` dom z))"

definition hash_pairs :: "(string \<rightharpoonup> string) \<Rightarrow> (string \<times> string) list" where
  "hash_pairs h = map (\<lambda>f. (f, the (h f))) (sorted_list_of_set (dom h))"

definition store_hash :: "keyspace \<Rightarrow> string \<Rightarrow> (string \<rightharpoonup> string) \<Rightarrow> keyspace" where
  "store_hash ks k h = ks(k := if h = Map.empty then None else Some (RHash h))"

definition store_zset :: "keyspace \<Rightarrow> string \<Rightarrow> (string \<rightharpoonup> rat) \<Rightarrow> keyspace" where
  "store_zset ks k z = ks(k := if z = Map.empty then None else Some (RZset z))"

definition store_list :: "keyspace \<Rightarrow> string \<Rightarrow> string list \<Rightarrow> keyspace" where
  "store_list ks k l = ks(k := if l = [] then None else Some (RList l))"

definition slice :: "nat \<Rightarrow> nat \<Rightarrow> 'a list \<Rightarrow> 'a list" where
  "slice i j xs = take (Suc j - i) (drop i xs)"

definition wrongtype :: "keyspace \<Rightarrow> (string + lval) \<times> keyspace" where
  "wrongtype ks = (Inl ''WRONGTYPE'', ks)"

definition with_hash :: "keyspace \<Rightarrow> string \<Rightarrow> ((string \<rightharpoonup> string) \<Rightarrow> (string + lval) \<times> keyspace) \<Rightarrow> (string + lval) \<times> keyspace" where
  "with_hash ks k f = (case ks k of None \<Rightarrow> f Map.empty | Some (RHash h) \<Rightarrow> f h | Some _ \<Rightarrow> wrongtype ks)"

definition with_zset :: "keyspace \<Rightarrow> string \<Rightarrow> ((string \<rightharpoonup> rat) \<Rightarrow> (string + lval) \<times> keyspace) \<Rightarrow> (string + lval) \<times> keyspace" where
  "with_zset ks k f = (case ks k of None \<Rightarrow> f Map.empty | Some (RZset z) \<Rightarrow> f z | Some _ \<Rightarrow> wrongtype ks)"

definition with_list :: "keyspace \<Rightarrow> string \<Rightarrow> (string list \<Rightarrow> (string + lval) \<times> keyspace) \<Rightarrow> (string + lval) \<times> keyspace" where
  "with_list ks k f = (case ks k of None \<Rightarrow> f [] | Some (RList l) \<Rightarrow> f l | Some _ \<Rightarrow> wrongtype ks)"

definition opt_str :: "string option \<Rightarrow> lval" where
  "opt_str x = (case x of None \<Rightarrow> LFalse | Some v \<Rightarrow> LStr v)"

definition num_of :: "nat \<Rightarrow> lval" where
  "num_of n = LNum (rat_of_nat n)"

text \<open>The documented effect of each command; a listed hash comes in one of its orders.\<close>

fun ks_exec :: "keyspace redis" where
  "ks_exec ks (TYPEOF k) = (Inr (LStr (case ks k of None \<Rightarrow> ''none'' | Some v \<Rightarrow> type_name v)), ks)"
| "ks_exec ks (GET k) =
     (case ks k of None \<Rightarrow> (Inr LFalse, ks) | Some (RString v) \<Rightarrow> (Inr (LStr v), ks) | Some _ \<Rightarrow> wrongtype ks)"
| "ks_exec ks (SETV k v) = (Inr (LStr ''OK''), ks(k \<mapsto> RString v))"
| "ks_exec ks (INCR k) =
     (case ks k of
        None \<Rightarrow> (Inr (LNum 1), ks(k \<mapsto> RString (dec_of_int 1)))
      | Some (RString v) \<Rightarrow>
          (case int_text v of
             None \<Rightarrow> (Inl ''ERR value is not an integer or out of range'', ks)
           | Some i \<Rightarrow>
               if i = 2 ^ 63 - 1 then (Inl ''ERR increment or decrement would overflow'', ks)
               else (Inr (LNum (of_int (i + 1))), ks(k \<mapsto> RString (dec_of_int (i + 1)))))
      | Some _ \<Rightarrow> wrongtype ks)"
| "ks_exec ks (EXISTS k) = (Inr (num_of (if ks k = None then 0 else 1)), ks)"
| "ks_exec ks (DEL k) = (Inr (num_of (if ks k = None then 0 else 1)), ks(k := None))"
| "ks_exec ks (UNLINK k) = (Inr (num_of (if ks k = None then 0 else 1)), ks(k := None))"
| "ks_exec ks (RENAME a b) =
     (case ks a of None \<Rightarrow> (Inl ''ERR no such key'', ks) | Some v \<Rightarrow> (Inr (LStr ''OK''), (ks(a := None))(b \<mapsto> v)))"
| "ks_exec ks (HSET k ps) =
     (if ps = [] then (Inl ''ERR wrong number of arguments'', ks)
      else with_hash ks k (\<lambda>h.
        (Inr (num_of (length (remdups (filter (\<lambda>f. h f = None) (map fst ps))))), ks(k \<mapsto> RHash (h ++ map_of (rev ps))))))"
| "ks_exec ks (HGET k f) = with_hash ks k (\<lambda>h. (Inr (opt_str (h f)), ks))"
| "ks_exec ks (HMGET k fs) = with_hash ks k (\<lambda>h. (Inr (LOpts (map h fs)), ks))"
| "ks_exec ks (HEXISTS k f) = with_hash ks k (\<lambda>h. (Inr (num_of (if h f = None then 0 else 1)), ks))"
| "ks_exec ks (HLEN k) = with_hash ks k (\<lambda>h. (Inr (num_of (card (dom h))), ks))"
| "ks_exec ks (HGETALL k) = with_hash ks k (\<lambda>h. (Inr (LPairs (hash_pairs h)), ks))"
| "ks_exec ks (HVALS k) = with_hash ks k (\<lambda>h. (Inr (LArr (map snd (hash_pairs h))), ks))"
| "ks_exec ks (HDEL k f) = with_hash ks k (\<lambda>h. (Inr (num_of (if h f = None then 0 else 1)), store_hash ks k (h(f := None))))"
| "ks_exec ks (ZADD k sc m) = with_zset ks k (\<lambda>z. (Inr (num_of (if z m = None then 1 else 0)), ks(k \<mapsto> RZset (z(m \<mapsto> sc)))))"
| "ks_exec ks (ZSCORE k m) = with_zset ks k (\<lambda>z. (Inr (case z m of None \<Rightarrow> LFalse | Some _ \<Rightarrow> LStr ''score''), ks))"
| "ks_exec ks (ZCARD k) = with_zset ks k (\<lambda>z. (Inr (num_of (card (dom z))), ks))"
| "ks_exec ks (ZREVRANGE k i j) = with_zset ks k (\<lambda>z. (Inr (LArr (slice i j (rev (zlist z)))), ks))"
| "ks_exec ks (ZRANGE k i j) = with_zset ks k (\<lambda>z. (Inr (LArr (slice i j (zlist z))), ks))"
| "ks_exec ks (ZRANK k m) = with_zset ks k (\<lambda>z.
     (Inr (if z m = None then LFalse else num_of (length (takeWhile (\<lambda>x. x \<noteq> m) (zlist z)))), ks))"
| "ks_exec ks (ZREVRANGEBYSCORE k below n) = with_zset ks k (\<lambda>z.
     (Inr (LArr (take n (filter (\<lambda>m. case below of None \<Rightarrow> True | Some b \<Rightarrow> the (z m) < b) (rev (zlist z))))), ks))"
| "ks_exec ks (ZREM k m) = with_zset ks k (\<lambda>z. (Inr (num_of (if z m = None then 0 else 1)), store_zset ks k (z(m := None))))"
| "ks_exec ks (LPUSH k v) = with_list ks k (\<lambda>l. (Inr (num_of (Suc (length l))), ks(k \<mapsto> RList (v # l))))"
| "ks_exec ks (LTRIM k i j) = with_list ks k (\<lambda>l. (Inr (LStr ''OK''), store_list ks k (slice i j l)))"

fun same_reply :: "(string + lval) \<Rightarrow> (string + lval) \<Rightarrow> rcmd \<Rightarrow> bool" where
  "same_reply r r0 (HGETALL _) = (case (r, r0) of (Inr (LPairs ps), Inr (LPairs qs)) \<Rightarrow> mset ps = mset qs | _ \<Rightarrow> r = r0)"
| "same_reply r r0 (HVALS _) = (case (r, r0) of (Inr (LArr vs), Inr (LArr ws)) \<Rightarrow> mset vs = mset ws | _ \<Rightarrow> r = r0)"
| "same_reply r r0 (ZSCORE _ _) = (case (r, r0) of (Inr (LStr _), Inr (LStr _)) \<Rightarrow> True | _ \<Rightarrow> r = r0)"
| "same_reply r r0 _ = (r = r0)"

definition serves :: "'s redis \<Rightarrow> ('s \<Rightarrow> keyspace) \<Rightarrow> bool" where
  "serves srv view \<longleftrightarrow>
     (\<forall>s c. same_reply (fst (srv s c)) (fst (ks_exec (view s) c)) c \<and> view (snd (srv s c)) = snd (ks_exec (view s) c))"

lemma serves_ks_exec: "serves ks_exec (\<lambda>ks. ks)"
proof -
  have "same_reply r r c" for r c by (cases "(r, r, c)" rule: same_reply.cases) (auto split: sum.splits lval.splits)
  then show ?thesis by (simp add: serves_def)
qed

section \<open>Lua\<close>

record lua_num =
  lu_tonumber :: "string \<Rightarrow> rat option"
  lu_tostring :: "rat \<Rightarrow> string"
  lu_arg :: "rat \<Rightarrow> string"

text \<open>
  Decimal numerals below \<open>10\<^sup>1\<^sup>4\<close> convert exactly in both directions (\<^verbatim>\<open>tostring\<close> prints 14 digits); an argument of a
  command is printed with 17 digits.
\<close>

definition lua_ok :: "lua_num \<Rightarrow> bool" where
  "lua_ok L \<longleftrightarrow>
     (\<forall>i. \<bar>i\<bar> < 10 ^ 14 \<longrightarrow> lu_tonumber L (dec_of_int i) = Some (of_int i) \<and> lu_tostring L (of_int i) = dec_of_int i \<and>
        lu_arg L (of_int i) = dec_of_int i)"

text \<open>A number a script returns is cut to an integer.\<close>

definition lua_int :: "rat \<Rightarrow> int" where
  "lua_int x = (if x \<ge> 0 then \<lfloor>x\<rfloor> else \<lceil>x\<rceil>)"

lemma lua_int_of_int [simp]: "lua_int (of_int i) = i"
  by (simp add: lua_int_def)

text \<open>\<^verbatim>\<open>redis.call\<close>: an error ends the script, the writes made before it stay.\<close>

definition rcall :: "'s redis \<Rightarrow> 's \<Rightarrow> rcmd \<Rightarrow> (lval \<Rightarrow> 's \<Rightarrow> (string + 'r) \<times> 's) \<Rightarrow> (string + 'r) \<times> 's" where
  "rcall srv s c f = (case srv s c of (Inl e, s') \<Rightarrow> (Inl e, s') | (Inr v, s') \<Rightarrow> f v s')"

text \<open>\<^verbatim>\<open>tonumber(redis.call('GET', ...) or d)\<close>.\<close>

definition number_or :: "lua_num \<Rightarrow> string \<Rightarrow> lval \<Rightarrow> rat option" where
  "number_or L d v = (case v of LStr t \<Rightarrow> lu_tonumber L t | _ \<Rightarrow> lu_tonumber L d)"

subsection \<open>Running a script on the key space\<close>

text \<open>
  A script run by any server that serves the documented commands gives the same result as the same script run on the key space
  itself, and leaves a state with the corresponding view.
\<close>

definition sim :: "('s \<Rightarrow> keyspace) \<Rightarrow> (string + 'r) \<times> 's \<Rightarrow> (string + 'r) \<times> keyspace \<Rightarrow> bool" where
  "sim view a b \<longleftrightarrow> fst a = fst b \<and> view (snd a) = snd b"

named_theorems sim_intros

lemma sim_return [sim_intros]: "sim view (r, s) (r, view s)"
  by (simp add: sim_def)

lemma sim_if [sim_intros]: "(b \<Longrightarrow> sim view x x') \<Longrightarrow> (\<not> b \<Longrightarrow> sim view y y') \<Longrightarrow> sim view (if b then x else y) (if b then x' else y')"
  by simp

lemma sim_rcall_any:
  assumes "serves srv view"
    and "\<And>v w s'. same_reply (Inr v) (Inr w) c \<Longrightarrow> sim view (f v s') (g w (view s'))"
  shows "sim view (rcall srv s c f) (rcall ks_exec (view s) c g)"
proof -
  obtain r s' where s: "srv s c = (r, s')" by fastforce
  obtain r0 ks' where k: "ks_exec (view s) c = (r0, ks')" by fastforce
  from assms(1) have "same_reply (fst (srv s c)) (fst (ks_exec (view s) c)) c \<and> view (snd (srv s c)) = snd (ks_exec (view s) c)"
    by (simp add: serves_def)
  with s k have ok: "same_reply r r0 c" "ks' = view s'" by simp_all
  show ?thesis
  proof (cases r)
    case (Inl e)
    with ok have "r0 = Inl e" by (cases "(r, r0, c)" rule: same_reply.cases) auto
    with Inl ok s k show ?thesis by (simp add: rcall_def sim_def)
  next
    case (Inr v)
    with ok obtain w where "r0 = Inr w"
      by (cases "(r, r0, c)" rule: same_reply.cases; cases r0) (auto split: lval.splits)
    with Inr ok s k assms(2) show ?thesis by (simp add: rcall_def)
  qed
qed

fun plain_reply :: "rcmd \<Rightarrow> bool" where
  "plain_reply (HGETALL _) = False"
| "plain_reply (HVALS _) = False"
| "plain_reply (ZSCORE _ _) = False"
| "plain_reply _ = True"

lemma same_reply_plain: "plain_reply c \<Longrightarrow> same_reply r r0 c \<longleftrightarrow> r = r0"
  by (cases c) auto

lemma sim_rcall [sim_intros]:
  assumes "serves srv view" and "plain_reply c" and "\<And>v s'. sim view (f v s') (g v (view s'))"
  shows "sim view (rcall srv s c f) (rcall ks_exec (view s) c g)"
  by (rule sim_rcall_any [OF assms(1)]) (use assms(2,3) in \<open>simp add: same_reply_plain\<close>)

lemma sim_zscore [sim_intros]:
  assumes "serves srv view" and "\<And>v w s'. (v = LFalse \<longleftrightarrow> w = LFalse) \<Longrightarrow> sim view (f v s') (g w (view s'))"
  shows "sim view (rcall srv s (ZSCORE k m) f) (rcall ks_exec (view s) (ZSCORE k m) g)"
  by (rule sim_rcall_any [OF assms(1)], rule assms(2)) (auto split: lval.splits)

lemma sim_hvals:
  assumes "serves srv view"
    and "\<And>v w s'. (\<exists>vs ws. v = LArr vs \<and> w = LArr ws \<and> set vs = set ws) \<or> v = w \<Longrightarrow> sim view (f v s') (g w (view s'))"
  shows "sim view (rcall srv s (HVALS k) f) (rcall ks_exec (view s) (HVALS k) g)"
  by (rule sim_rcall_any [OF assms(1)], rule assms(2)) (auto split: lval.splits dest: mset_eq_setD)

text \<open>The reader of a concrete command on the key space.\<close>

lemma rcall_ks: "rcall ks_exec ks c f = (case ks_exec ks c of (Inl e, ks') \<Rightarrow> (Inl e, ks') | (Inr v, ks') \<Rightarrow> f v ks')"
  by (simp add: rcall_def)

end
