(* ===== verification/History_Scripts.thy ===== *)
theory History_Scripts
  imports Redis_Server
begin

text \<open>
  The scripts that keep the history of the managed configuration files, \<^verbatim>\<open>src/app/admin/config_history_scripts.cpp\<close> and the last part of
  \<^verbatim>\<open>src/app/config_history_service.hpp\<close>. Redis runs a script without interleaving, so each is one step from state to state. \<^verbatim>\<open>KEYS\<close> and
  \<^verbatim>\<open>ARGV\<close> are lists; the result is the number the script returns, or the error that ended it. What the scripts share word for word
  is factored out.
\<close>

section \<open>Shared parts\<close>

definition arg_at :: "string list \<Rightarrow> nat \<Rightarrow> string" where
  "arg_at xs i = (if i \<le> length xs then xs ! (i - 1) else [])"

fun arg_pairs :: "string list \<Rightarrow> (string \<times> string) list" where
  "arg_pairs (n # c # r) = (n, c) # arg_pairs r"
| "arg_pairs _ = []"

definition ret :: "int \<Rightarrow> 's \<Rightarrow> (string + int) \<times> 's" where
  "ret i s = (Inr i, s)"

text \<open>The loop over the contents: every file and their sum stay within the limits.\<close>

fun within_capacity :: "rat \<Rightarrow> rat \<Rightarrow> nat \<Rightarrow> (string \<times> string) list \<Rightarrow> bool" where
  "within_capacity max_file max_total n [] = True"
| "within_capacity max_file max_total n ((_, c) # r) =
     (if rat_of_nat (length c) > max_file then False
      else if rat_of_nat (n + length c) > max_total then False
      else within_capacity max_file max_total (n + length c) r)"

fun check_types ::
  "'s redis \<Rightarrow> string list \<Rightarrow> string list \<Rightarrow> 's \<Rightarrow> 'r \<Rightarrow> ('s \<Rightarrow> (string + 'r) \<times> 's) \<Rightarrow> (string + 'r) \<times> 's" where
  "check_types srv [] expected s bad f = f s"
| "check_types srv (k # ks) expected s bad f =
     rcall srv s (TYPEOF k) (\<lambda>t s.
       if (expected = [] \<or> t \<noteq> LStr (hd expected)) \<and> t \<noteq> LStr ''none'' then (Inr bad, s)
       else check_types srv ks (tl expected) s bad f)"

fun top1 :: "lval \<Rightarrow> string option" where
  "top1 (LArr (m # _)) = Some m"
| "top1 _ = None"

text \<open>The newest version is complete, or there is no history at all.\<close>

definition check_head ::
  "'s redis \<Rightarrow> lua_num \<Rightarrow> string \<Rightarrow> string \<Rightarrow> string \<Rightarrow> rat \<Rightarrow> 's \<Rightarrow> ('s \<Rightarrow> (string + int) \<times> 's) \<Rightarrow> (string + int) \<times> 's" where
  "check_head srv L meta index cur_snapshot cur s f =
     rcall srv s (ZREVRANGE index 0 0) (\<lambda>top s.
       if cur > 0 then
         if Option.bind (top1 top) (lu_tonumber L) \<noteq> Some cur then ret (-5) s
         else rcall srv s (HGET meta (lu_tostring L cur)) (\<lambda>m s.
           if m = LFalse then ret (-5) s
           else rcall srv s (EXISTS cur_snapshot) (\<lambda>e s. if e \<noteq> LNum 1 then ret (-5) s else f s))
       else if top1 top \<noteq> None then ret (-5) s
       else rcall srv s (ZCARD index) (\<lambda>c s.
         if c \<noteq> LNum 0 then ret (-5) s
         else rcall srv s (HLEN meta) (\<lambda>h s. if h \<noteq> LNum 0 then ret (-5) s else f s)))"

text \<open>The index does not run ahead of the version.\<close>

definition check_top :: "'s redis \<Rightarrow> lua_num \<Rightarrow> string \<Rightarrow> rat \<Rightarrow> 's \<Rightarrow> ('s \<Rightarrow> (string + int) \<times> 's) \<Rightarrow> (string + int) \<times> 's" where
  "check_top srv L index cur s f =
     rcall srv s (ZREVRANGE index 0 0) (\<lambda>top s.
       case top1 top of
         None \<Rightarrow> f s
       | Some m \<Rightarrow>
           (case lu_tonumber L m of
              None \<Rightarrow> ret (-5) s
            | Some high \<Rightarrow> if high > cur then ret (-5) s else f s))"

text \<open>Nothing of the version to be written exists yet.\<close>

definition check_fresh ::
  "'s redis \<Rightarrow> string \<Rightarrow> string \<Rightarrow> string \<Rightarrow> string \<Rightarrow> 's \<Rightarrow> ('s \<Rightarrow> (string + int) \<times> 's) \<Rightarrow> (string + int) \<times> 's" where
  "check_fresh srv snapshot meta index member s f =
     rcall srv s (EXISTS snapshot) (\<lambda>e s.
       if e \<noteq> LNum 0 then ret (-6) s
       else rcall srv s (HEXISTS meta member) (\<lambda>h s.
         if h \<noteq> LNum 0 then ret (-6) s
         else rcall srv s (ZSCORE index member) (\<lambda>z s. if z \<noteq> LFalse then ret (-6) s else f s)))"

definition stage_hash ::
  "'s redis \<Rightarrow> string \<Rightarrow> string \<Rightarrow> (string \<times> string) list \<Rightarrow> 's \<Rightarrow> ('s \<Rightarrow> (string + 'r) \<times> 's) \<Rightarrow> (string + 'r) \<times> 's" where
  "stage_hash srv staging target files s f =
     rcall srv s (DEL staging) (\<lambda>_ s.
     rcall srv s (HSET staging files) (\<lambda>_ s.
     rcall srv s (RENAME staging target) (\<lambda>_ s. f s)))"

text \<open>\<^verbatim>\<open>pcall\<close>: an error only skips the rest of the block.\<close>

definition append_audit :: "'s redis \<Rightarrow> string \<Rightarrow> string \<Rightarrow> 's \<Rightarrow> 's" where
  "append_audit srv audit line s =
     (case srv s (LPUSH audit line) of
        (Inl _, s1) \<Rightarrow> s1
      | (Inr _, s1) \<Rightarrow> snd (srv s1 (LTRIM audit 0 199)))"

fun compare_files ::
  "'s redis \<Rightarrow> string \<Rightarrow> (string \<times> string) list \<Rightarrow> 's \<Rightarrow> ('s \<Rightarrow> (string + int) \<times> 's) \<Rightarrow> (string + int) \<times> 's" where
  "compare_files srv key [] s f = f s"
| "compare_files srv key ((n, c) # r) s f =
     rcall srv s (HGET key n) (\<lambda>v s. if v \<noteq> LStr c then ret (-9) s else compare_files srv key r s f)"

text \<open>The same with the limits checked on the way.\<close>

fun compare_bounded ::
  "'s redis \<Rightarrow> string \<Rightarrow> rat \<Rightarrow> rat \<Rightarrow> nat \<Rightarrow> (string \<times> string) list \<Rightarrow> 's \<Rightarrow> ('s \<Rightarrow> (string + int) \<times> 's) \<Rightarrow> (string + int) \<times> 's" where
  "compare_bounded srv key max_file max_total n [] s f = f s"
| "compare_bounded srv key max_file max_total n ((name, c) # r) s f =
     (if rat_of_nat (length c) > max_file then ret (-8) s
      else if rat_of_nat (n + length c) > max_total then ret (-8) s
      else rcall srv s (HGET key name) (\<lambda>v s.
        if v \<noteq> LStr c then ret (-9) s else compare_bounded srv key max_file max_total (n + length c) r s f))"

definition count_of :: "'a list \<Rightarrow> lval" where
  "count_of xs = num_of (length xs)"

text \<open>What every version under a name must have: its metadata as expected, its place in the index, its number of files.\<close>

definition check_record ::
  "'s redis \<Rightarrow> string \<Rightarrow> string \<Rightarrow> string \<Rightarrow> string \<Rightarrow> string \<Rightarrow> (string \<times> string) list \<Rightarrow> 's \<Rightarrow> ('s \<Rightarrow> (string + int) \<times> 's) \<Rightarrow>
   (string + int) \<times> 's" where
  "check_record srv meta index hash member expected files s f =
     rcall srv s (HGET meta member) (\<lambda>m s.
       if m \<noteq> LStr expected then ret (-9) s
       else rcall srv s (ZSCORE index member) (\<lambda>z s.
         if z = LFalse then ret (-9) s
         else rcall srv s (HLEN hash) (\<lambda>n s. if n \<noteq> count_of files then ret (-9) s else f s)))"

section \<open>Saving and rolling back\<close>

text \<open>The last part of both scripts: from the freshness check to the published version.\<close>

definition publish ::
  "'s redis \<Rightarrow> lua_num \<Rightarrow> string list \<Rightarrow> rat \<Rightarrow> (string \<times> string) list \<Rightarrow> string \<Rightarrow> string \<Rightarrow> 's \<Rightarrow> (string + int) \<times> 's" where
  "publish srv L keys base files audit meta s =
     (let K = arg_at keys; newv = base + 1; member = lu_tostring L newv in
      check_fresh srv (K 7) (K 5) (K 6) member s (\<lambda>s.
      stage_hash srv (K 8) (K 7) files s (\<lambda>s.
      rcall srv s (HSET (K 5) [(member, meta)]) (\<lambda>_ s.
      rcall srv s (ZADD (K 6) newv member) (\<lambda>_ s.
      stage_hash srv (K 4) (K 2) files s (\<lambda>s.
      rcall srv s (INCR (K 1)) (\<lambda>published s.
        case published of
          LNum p \<Rightarrow> if p \<noteq> newv then ret (-7) s else ret (lua_int p) (append_audit srv (K 3) audit s)
        | _ \<Rightarrow> ret (-7) s)))))))"

definition save_expected :: "string list" where
  "save_expected = [''string'', ''hash'', ''list'', ''hash'', ''hash'', ''zset'', ''hash'', ''hash'', ''hash'', ''hash'']"

definition save_script :: "'s redis \<Rightarrow> lua_num \<Rightarrow> string list \<Rightarrow> string list \<Rightarrow> 's \<Rightarrow> (string + int) \<times> 's" where
  "save_script srv L keys argv s =
     (let K = arg_at keys; A = arg_at argv; num = (\<lambda>i. lu_tonumber L (A i)); files = arg_pairs (drop 6 argv) in
      if (int (length argv) - 6) mod 2 \<noteq> 0 then ret (-2) s
      else if length argv < 8 then ret (-2) s
      else
        (case (num 1, num 4, num 5, num 6) of
           (Some base, Some max_files, Some max_file_bytes, Some max_total_bytes) \<Rightarrow>
             if length files < 1 \<or> rat_of_nat (length files) > max_files then ret (-8) s
             else if \<not> within_capacity max_file_bytes max_total_bytes 0 files then ret (-8) s
             else check_types srv keys (take 9 save_expected) s (-3) (\<lambda>s.
               rcall srv s (GET (K 1)) (\<lambda>v s.
                 case number_or L ''0'' v of
                   None \<Rightarrow> ret (-4) s
                 | Some cur \<Rightarrow>
                     if cur \<noteq> base then ret (-1) s
                     else check_head srv L (K 5) (K 6) (K 9) cur s (publish srv L keys base files (A 2) (A 3))))
         | _ \<Rightarrow> ret (-2) s))"

definition rollback_script :: "'s redis \<Rightarrow> lua_num \<Rightarrow> string list \<Rightarrow> string list \<Rightarrow> 's \<Rightarrow> (string + int) \<times> 's" where
  "rollback_script srv L keys argv s =
     (let K = arg_at keys; A = arg_at argv; num = (\<lambda>i. lu_tonumber L (A i)); files = arg_pairs (drop 8 argv) in
      if (int (length argv) - 8) mod 2 \<noteq> 0 then ret (-2) s
      else if length argv < 10 then ret (-2) s
      else
        (case (num 1, num 4, num 5, num 6, num 8) of
           (Some base, Some max_files, Some max_file_bytes, Some max_total_bytes, Some source_version) \<Rightarrow>
             if length files < 1 \<or> rat_of_nat (length files) > max_files then ret (-8) s
             else if \<not> within_capacity max_file_bytes max_total_bytes 0 files then ret (-8) s
             else check_types srv keys save_expected s (-3) (\<lambda>s.
               rcall srv s (GET (K 1)) (\<lambda>v s.
                 case number_or L ''0'' v of
                   None \<Rightarrow> ret (-4) s
                 | Some cur \<Rightarrow>
                     if cur \<noteq> base then ret (-1) s
                     else check_head srv L (K 5) (K 6) (K 10) cur s (\<lambda>s.
                       if source_version > cur then ret (-9) s
                       else rcall srv s (EXISTS (K 9)) (\<lambda>e s.
                         if e \<noteq> LNum 1 then ret (-9) s
                         else check_record srv (K 5) (K 6) (K 9) (lu_tostring L source_version) (A 7) files s (\<lambda>s.
                           compare_files srv (K 9) files s (publish srv L keys base files (A 2) (A 3)))))))
         | _ \<Rightarrow> ret (-2) s))"

section \<open>Repairing\<close>

definition repair_expected :: "string list" where
  "repair_expected = [''string'', ''hash'', ''hash'', ''zset'', ''hash'', ''hash'', ''list'']"

text \<open>The common opening of the three repairs: arguments, limits, types, version and index.\<close>

definition repair_prologue ::
  "bool \<Rightarrow> 's redis \<Rightarrow> lua_num \<Rightarrow> string list \<Rightarrow> string list \<Rightarrow> 's \<Rightarrow> (rat \<Rightarrow> rat \<Rightarrow> rat \<Rightarrow> (string \<times> string) list \<Rightarrow> 's \<Rightarrow> (string + int) \<times> 's) \<Rightarrow>
   (string + int) \<times> 's" where
  "repair_prologue sizes_first srv L keys argv s f =
     (let K = arg_at keys; A = arg_at argv; num = (\<lambda>i. lu_tonumber L (A i)); files = arg_pairs (drop 6 argv) in
      if (int (length argv) - 6) mod 2 \<noteq> 0 then ret (-2) s
      else if length argv < 8 then ret (-2) s
      else
        (case (num 1, num 4, num 5, num 6) of
           (Some version, Some max_files, Some max_file_bytes, Some max_total_bytes) \<Rightarrow>
             if length files < 1 \<or> rat_of_nat (length files) > max_files then ret (-8) s
             else if sizes_first \<and> \<not> within_capacity max_file_bytes max_total_bytes 0 files then ret (-8) s
             else check_types srv keys repair_expected s (-3) (\<lambda>s.
               rcall srv s (GET (K 1)) (\<lambda>v s.
                 case number_or L [] v of
                   None \<Rightarrow> ret (-4) s
                 | Some cur \<Rightarrow>
                     if cur \<noteq> version then ret (-1) s
                     else check_top srv L (K 4) cur s (f version max_file_bytes max_total_bytes files)))
         | _ \<Rightarrow> ret (-2) s))"

definition snapshot_repair_script :: "'s redis \<Rightarrow> lua_num \<Rightarrow> string list \<Rightarrow> string list \<Rightarrow> 's \<Rightarrow> (string + int) \<times> 's" where
  "snapshot_repair_script srv L keys argv s =
     (let K = arg_at keys; A = arg_at argv in
      repair_prologue True srv L keys argv s (\<lambda>version _ _ files s.
        rcall srv s (EXISTS (K 5)) (\<lambda>e s.
          if e \<noteq> LNum 0 then ret (-6) s
          else check_record srv (K 3) (K 4) (K 2) (lu_tostring L version) (A 2) files s (\<lambda>s.
            compare_files srv (K 2) files s (\<lambda>s.
            stage_hash srv (K 6) (K 5) files s (\<lambda>s.
              ret (lua_int version) (append_audit srv (K 7) (A 3) s)))))))"

definition mirror_rebuild_script :: "'s redis \<Rightarrow> lua_num \<Rightarrow> string list \<Rightarrow> string list \<Rightarrow> 's \<Rightarrow> (string + int) \<times> 's" where
  "mirror_rebuild_script srv L keys argv s =
     (let K = arg_at keys; A = arg_at argv in
      repair_prologue False srv L keys argv s (\<lambda>version max_file_bytes max_total_bytes files s.
        rcall srv s (EXISTS (K 5)) (\<lambda>e s.
          if e \<noteq> LNum 1 then ret (-9) s
          else check_record srv (K 3) (K 4) (K 5) (lu_tostring L version) (A 2) files s (\<lambda>s.
            compare_bounded srv (K 5) max_file_bytes max_total_bytes 0 files s (\<lambda>s.
            stage_hash srv (K 6) (K 2) files s (\<lambda>s.
              ret (lua_int version) (append_audit srv (K 7) (A 3) s)))))))"

definition migration_script :: "'s redis \<Rightarrow> lua_num \<Rightarrow> string list \<Rightarrow> string list \<Rightarrow> 's \<Rightarrow> (string + int) \<times> 's" where
  "migration_script srv L keys argv s =
     (let K = arg_at keys; A = arg_at argv in
      repair_prologue False srv L keys argv s (\<lambda>version max_file_bytes max_total_bytes files s.
        rcall srv s (ZCARD (K 4)) (\<lambda>z s.
          if z \<noteq> LNum 0 then ret (-6) s
          else rcall srv s (HLEN (K 3)) (\<lambda>h s.
            if h \<noteq> LNum 0 then ret (-6) s
            else check_fresh srv (K 5) (K 3) (K 4) (lu_tostring L version) s (\<lambda>s.
              rcall srv s (HLEN (K 2)) (\<lambda>n s.
                if n \<noteq> count_of files then ret (-9) s
                else compare_bounded srv (K 2) max_file_bytes max_total_bytes 0 files s (\<lambda>s.
                  stage_hash srv (K 6) (K 5) files s (\<lambda>s.
                  rcall srv s (HSET (K 3) [(lu_tostring L version, A 2)]) (\<lambda>_ s.
                  rcall srv s (ZADD (K 4) version (lu_tostring L version)) (\<lambda>_ s.
                    ret (lua_int version) (append_audit srv (K 7) (A 3) s)))))))))))"

section \<open>Orphans\<close>

text \<open>The version a machine reports: the text before the first bar.\<close>

definition machine_version :: "lua_num \<Rightarrow> string \<Rightarrow> rat option" where
  "machine_version L v =
     (let f = takeWhile (\<lambda>c. c \<noteq> CHR ''|'') v in if f = [] then None else lu_tonumber L f)"

definition machines_above :: "lua_num \<Rightarrow> rat \<Rightarrow> lval \<Rightarrow> bool" where
  "machines_above L limit v =
     (case v of LArr vs \<Rightarrow> list_ex (\<lambda>x. case machine_version L x of None \<Rightarrow> False | Some n \<Rightarrow> n > limit) vs | _ \<Rightarrow> False)"

fun compare_restore ::
  "'s redis \<Rightarrow> string \<Rightarrow> rat \<Rightarrow> rat \<Rightarrow> nat \<Rightarrow> (string \<times> string) list \<Rightarrow> 's \<Rightarrow> ('s \<Rightarrow> (string + int) \<times> 's) \<Rightarrow> (string + int) \<times> 's" where
  "compare_restore srv key max_file max_total n [] s f = f s"
| "compare_restore srv key max_file max_total n ((name, c) # r) s f =
     (if rat_of_nat (length c) > max_file \<or> rat_of_nat (n + length c) > max_total then ret (-9) s
      else rcall srv s (HGET key name) (\<lambda>v s.
        if v \<noteq> LStr c then ret (-9) s else compare_restore srv key max_file max_total (n + length c) r s f))"

definition restore_expected :: "string list" where
  "restore_expected = [''string'', ''hash'', ''zset'', ''hash'', ''hash'', ''hash'', ''list'', ''hash'']"

definition restore_version_script :: "'s redis \<Rightarrow> lua_num \<Rightarrow> string list \<Rightarrow> string list \<Rightarrow> 's \<Rightarrow> (string + int) \<times> 's" where
  "restore_version_script srv L keys argv s =
     (let K = arg_at keys; A = arg_at argv; num = (\<lambda>i. lu_tonumber L (A i)); files = arg_pairs (drop 7 argv) in
      if (int (length argv) - 7) mod 2 \<noteq> 0 \<or> length argv < 9 then ret (-2) s
      else
        (case (num 1, num 2, num 5, num 6, num 7) of
           (Some expected_current, Some target, Some max_files, Some max_file_bytes, Some max_total_bytes) \<Rightarrow>
             check_types srv keys restore_expected s (-3) (\<lambda>s.
               rcall srv s (GET (K 1)) (\<lambda>v s.
                 case number_or L ''0'' v of
                   None \<Rightarrow> ret (-4) s
                 | Some current \<Rightarrow>
                     if current \<noteq> expected_current then ret (-1) s
                     else if target \<le> current then ret (-5) s
                     else rcall srv s (ZREVRANGE (K 3) 0 0) (\<lambda>top s.
                       if lu_tonumber L (case top1 top of None \<Rightarrow> [] | Some m \<Rightarrow> m) \<noteq> Some target then ret (-5) s
                       else if length files < 1 \<or> rat_of_nat (length files) > max_files then ret (-9) s
                       else rcall srv s (EXISTS (K 5)) (\<lambda>e s.
                         if e \<noteq> LNum 1 then ret (-9) s
                         else check_record srv (K 4) (K 3) (K 5) (lu_tostring L target) (A 3) files s (\<lambda>s.
                           compare_restore srv (K 5) max_file_bytes max_total_bytes 0 files s (\<lambda>s.
                           rcall srv s (HVALS (K 8)) (\<lambda>machines s.
                             if machines_above L target machines then ret (-5) s
                             else stage_hash srv (K 6) (K 2) files s (\<lambda>s.
                               rcall srv s (SETV (K 1) (lu_arg L target)) (\<lambda>_ s.
                                 ret (lua_int target) (append_audit srv (K 7) (A 4) s))))))))))
         | _ \<Rightarrow> ret (-2) s))"

definition orphan_expected :: "string list" where
  "orphan_expected = [''string'', ''zset'', ''hash'', ''hash'', ''list'', ''hash'']"

definition or_missing :: "lval \<Rightarrow> string" where
  "or_missing v = (case v of LStr t \<Rightarrow> t | _ \<Rightarrow> ''__missing__'')"

definition flag :: "bool \<Rightarrow> string" where
  "flag b = (if b then ''1'' else ''0'')"

definition delete_orphan_script :: "'s redis \<Rightarrow> lua_num \<Rightarrow> string list \<Rightarrow> string list \<Rightarrow> 's \<Rightarrow> (string + int) \<times> 's" where
  "delete_orphan_script srv L keys argv s =
     (let K = arg_at keys; A = arg_at argv; num = (\<lambda>i. lu_tonumber L (A i)); files = arg_pairs (drop 6 argv) in
      if (int (length argv) - 6) mod 2 \<noteq> 0 then ret (-2) s
      else
        (case (num 1, num 2) of
           (Some expected_current, Some target) \<Rightarrow>
             if A 4 \<notin> {''0'', ''1''} \<or> A 5 \<notin> {''0'', ''1''} then ret (-2) s
             else check_types srv keys orphan_expected s (-3) (\<lambda>s.
               rcall srv s (GET (K 1)) (\<lambda>v s.
                 case number_or L ''0'' v of
                   None \<Rightarrow> ret (-4) s
                 | Some current \<Rightarrow>
                     if current \<noteq> expected_current then ret (-1) s
                     else if target \<noteq> current + 1 then ret (-5) s
                     else rcall srv s (HVALS (K 6)) (\<lambda>machines s.
                       if machines_above L current machines then ret (-5) s
                       else rcall srv s (ZSCORE (K 2) (lu_tostring L target)) (\<lambda>z s.
                         rcall srv s (HGET (K 3) (lu_tostring L target)) (\<lambda>m s.
                         rcall srv s (EXISTS (K 4)) (\<lambda>e s.
                           let indexed = flag (z \<noteq> LFalse); meta = or_missing m; snapshot = flag (e = LNum 1);
                               remove = (\<lambda>s.
                                 rcall srv s (UNLINK (K 4)) (\<lambda>_ s.
                                 rcall srv s (HDEL (K 3) (lu_tostring L target)) (\<lambda>_ s.
                                 rcall srv s (ZREM (K 2) (lu_tostring L target)) (\<lambda>_ s.
                                   ret 1 (append_audit srv (K 5) (A 6) s)))))
                           in if indexed \<noteq> A 4 \<or> meta \<noteq> A 3 \<or> snapshot \<noteq> A 5 then ret (-9) s
                              else if indexed = ''0'' \<and> meta = ''__missing__'' \<and> snapshot = ''0'' then ret (-9) s
                              else if snapshot = ''1'' then
                                if length files < 1 then ret (-9) s
                                else rcall srv s (HLEN (K 4)) (\<lambda>n s.
                                  if n \<noteq> count_of files then ret (-9) s else compare_files srv (K 4) files s remove)
                              else if length files \<noteq> 0 then ret (-9) s
                              else remove s))))))
         | _ \<Rightarrow> ret (-2) s))"

section \<open>Seeding\<close>

definition seed_expected :: "string list" where
  "seed_expected = [''hash'', ''hash'', ''hash'', ''zset'', ''hash'', ''hash'']"

definition seed_script :: "'s redis \<Rightarrow> lua_num \<Rightarrow> string list \<Rightarrow> string list \<Rightarrow> 's \<Rightarrow> (string + int) \<times> 's" where
  "seed_script srv L keys argv s =
     (let K = arg_at keys; A = arg_at argv; num = (\<lambda>i. lu_tonumber L (A i)); files = arg_pairs (drop 4 argv) in
      if (int (length argv) - 4) mod 2 \<noteq> 0 then ret (-2) s
      else
        (case (num 2, num 3, num 4) of
           (Some max_files, Some max_file_bytes, Some max_total_bytes) \<Rightarrow>
             rcall srv s (TYPEOF (K 1)) (\<lambda>t s.
               if t \<noteq> LStr ''none'' then ret 0 s
               else check_types srv (tl keys) seed_expected s (-3) (\<lambda>s.
                 if rat_of_nat (length files) > max_files then ret (-8) s
                 else if \<not> within_capacity max_file_bytes max_total_bytes 0 files then ret (-8) s
                 else rcall srv s (ZCARD (K 5)) (\<lambda>z s.
                   if z \<noteq> LNum 0 then ret (-6) s
                   else rcall srv s (HLEN (K 4)) (\<lambda>h s.
                     if h \<noteq> LNum 0 then ret (-6) s
                     else rcall srv s (EXISTS (K 6)) (\<lambda>e s.
                       if e \<noteq> LNum 0 then ret (-6) s
                       else if files = [] then
                         rcall srv s (DEL (K 2)) (\<lambda>_ s.
                         rcall srv s (SETV (K 1) ''1'') (\<lambda>_ s. ret 1 s))
                       else
                         stage_hash srv (K 7) (K 6) files s (\<lambda>s.
                         rcall srv s (HSET (K 4) [(''1'', A 1)]) (\<lambda>_ s.
                         rcall srv s (ZADD (K 5) 1 ''1'') (\<lambda>_ s.
                         stage_hash srv (K 3) (K 2) files s (\<lambda>s.
                         rcall srv s (SETV (K 1) ''1'') (\<lambda>_ s. ret 1 s))))))))))
         | _ \<Rightarrow> ret (-2) s))"

section \<open>Reading\<close>

text \<open>These scripts return arrays of texts. The limit is passed on as an argument, which must be an integer.\<close>

fun list_rows :: "'s redis \<Rightarrow> lua_num \<Rightarrow> rat \<Rightarrow> string \<Rightarrow> string list \<Rightarrow> string option list \<Rightarrow> string list \<Rightarrow> 's \<Rightarrow> (string + string list) \<times> 's" where
  "list_rows srv L cur prefix [] metas out s = (Inr out, s)"
| "list_rows srv L cur prefix (version # vs) metas out s =
     (let meta = (case metas of m # _ \<Rightarrow> m | [] \<Rightarrow> None) in
      case (lu_tonumber L version, meta) of
        (Some n, Some m) \<Rightarrow>
          if n \<le> cur then
            rcall srv s (EXISTS (prefix @ version)) (\<lambda>e s.
              list_rows srv L cur prefix vs (tl metas) (if e = LNum 1 then out @ [version, m] else out) s)
          else list_rows srv L cur prefix vs (tl metas) out s
      | _ \<Rightarrow> list_rows srv L cur prefix vs (tl metas) out s)"

definition list_page :: "'s redis \<Rightarrow> lua_num \<Rightarrow> string list \<Rightarrow> string \<Rightarrow> rat \<Rightarrow> lval \<Rightarrow> 's \<Rightarrow> (string + string list) \<times> 's" where
  "list_page srv L keys prefix cur versions s =
     (case versions of
        LArr (v # vs) \<Rightarrow>
          rcall srv s (HMGET (arg_at keys 3) (v # vs)) (\<lambda>ms s.
            list_rows srv L cur prefix (v # vs) (case ms of LOpts metas \<Rightarrow> metas | _ \<Rightarrow> []) [lu_tostring L cur] s)
      | _ \<Rightarrow> (Inr [lu_tostring L cur], s))"

definition list_script :: "'s redis \<Rightarrow> lua_num \<Rightarrow> string list \<Rightarrow> string list \<Rightarrow> 's \<Rightarrow> (string + string list) \<times> 's" where
  "list_script srv L keys argv s =
     (let K = arg_at keys; A = arg_at argv in
      rcall srv s (GET (K 1)) (\<lambda>v s.
        case (number_or L [] v, lu_tonumber L (A 1), lu_tonumber L (A 2)) of
          (Some cur, Some before, Some limit) \<Rightarrow>
            if limit < 1 then (Inr [''__error__'', ''invalid''], s)
            else if of_int \<lfloor>limit\<rfloor> \<noteq> limit then (Inl ''ERR value is not an integer or out of range'', s)
            else if before > 0 \<and> lu_tonumber L (lu_tostring L before) = None then (Inl ''ERR min or max is not a float'', s)
            else rcall srv s
              (ZREVRANGEBYSCORE (K 2) (if before > 0 then lu_tonumber L (lu_tostring L before) else None) (nat \<lfloor>limit\<rfloor>))
              (list_page srv L keys (A 3) cur)
        | _ \<Rightarrow> (Inr [''__error__'', ''invalid''], s)))"

definition detail_script :: "'s redis \<Rightarrow> lua_num \<Rightarrow> string list \<Rightarrow> string list \<Rightarrow> 's \<Rightarrow> (string + string list) \<times> 's" where
  "detail_script srv L keys argv s =
     (let K = arg_at keys in
      rcall srv s (GET (K 1)) (\<lambda>v s.
        case (number_or L [] v, lu_tonumber L (arg_at argv 1)) of
          (Some cur, Some version) \<Rightarrow>
            if version > cur then (Inr [], s)
            else rcall srv s (HGET (K 2) (lu_tostring L version)) (\<lambda>m s.
              case m of
                LStr meta \<Rightarrow>
                  rcall srv s (ZSCORE (K 3) (lu_tostring L version)) (\<lambda>z s.
                    if z = LFalse then (Inr [], s)
                    else rcall srv s (EXISTS (K 4)) (\<lambda>e s.
                      if e \<noteq> LNum 1 then (Inr [], s)
                      else rcall srv s (HGETALL (K 4)) (\<lambda>files s.
                        case files of
                          LPairs (p # ps) \<Rightarrow> (Inr ([lu_tostring L cur, meta] @ concat (map (\<lambda>(n, c). [n, c]) (p # ps))), s)
                        | _ \<Rightarrow> (Inr [], s))))
              | _ \<Rightarrow> (Inr [], s))
        | _ \<Rightarrow> (Inr [], s)))"

definition inspect_expected :: "string list" where
  "inspect_expected = [''string'', ''zset'', ''hash'', ''hash'', ''hash'']"

definition machine_high :: "lua_num \<Rightarrow> lval \<Rightarrow> rat" where
  "machine_high L v =
     (case v of
        LArr vs \<Rightarrow> foldl (\<lambda>h x. case machine_version L x of None \<Rightarrow> h | Some n \<Rightarrow> if n > h then n else h) 0 vs
      | _ \<Rightarrow> 0)"

definition orphan_inspect_script :: "'s redis \<Rightarrow> lua_num \<Rightarrow> string list \<Rightarrow> string list \<Rightarrow> 's \<Rightarrow> (string + string list) \<times> 's" where
  "orphan_inspect_script srv L keys argv s =
     (let K = arg_at keys in
      check_types srv keys inspect_expected s [''__error__''] (\<lambda>s.
        rcall srv s (GET (K 1)) (\<lambda>v s.
          case (number_or L ''0'' v, lu_tonumber L (arg_at argv 1)) of
            (Some current, Some target) \<Rightarrow>
              if target \<le> current then (Inr [''__error__''], s)
              else rcall srv s (ZREVRANGE (K 2) 0 0) (\<lambda>top s.
                case lu_tonumber L (case top1 top of None \<Rightarrow> ''0'' | Some m \<Rightarrow> m) of
                  None \<Rightarrow> (Inr [''__error__''], s)
                | Some index_high \<Rightarrow>
                    rcall srv s (HVALS (K 5)) (\<lambda>machines s.
                    rcall srv s (ZSCORE (K 2) (lu_tostring L target)) (\<lambda>z s.
                    rcall srv s (HGET (K 3) (lu_tostring L target)) (\<lambda>m s.
                    rcall srv s (EXISTS (K 4)) (\<lambda>e s.
                      let out = [lu_tostring L current, lu_tostring L index_high, lu_tostring L (machine_high L machines),
                            flag (z \<noteq> LFalse), or_missing m, flag (e = LNum 1)]
                      in if e = LNum 1 then
                           rcall srv s (HGETALL (K 4)) (\<lambda>files s.
                             (Inr (out @ (case files of LPairs ps \<Rightarrow> concat (map (\<lambda>(n, c). [n, c]) ps) | _ \<Rightarrow> [])), s))
                         else (Inr out, s))))))
          | _ \<Rightarrow> (Inr [''__error__''], s))))"

section \<open>Scripts on the key space\<close>

lemma sim_ret [sim_intros]: "view s' = ks \<Longrightarrow> sim view (ret i s') (ret i ks)"
  by (simp add: ret_def sim_def)

lemma view_append_audit: "serves srv view \<Longrightarrow> view (append_audit srv a l s) = append_audit ks_exec a l (view s)"
proof -
  assume v: "serves srv view"
  from v have step: "fst (srv s c) = fst (ks_exec (view s) c)" if "plain_reply c" for s c
    using that unfolding serves_def by (metis same_reply_plain)
  from v have after: "view (snd (srv s c)) = snd (ks_exec (view s) c)" for s c by (simp add: serves_def)
  have "fst (srv s (LPUSH a l)) = fst (ks_exec (view s) (LPUSH a l))" by (rule step) simp
  then show ?thesis
    using after [of s "LPUSH a l"] after [of "snd (srv s (LPUSH a l))" "LTRIM a 0 199"]
    unfolding append_audit_def by (auto split: prod.splits sum.splits)
qed

lemma sim_check_types [sim_intros]:
  assumes "serves srv view" and "\<And>s'. sim view (f s') (g (view s'))"
  shows "sim view (check_types srv keys ex s bad f) (check_types ks_exec keys ex (view s) bad g)"
  using assms by (induction keys arbitrary: s ex) (auto intro!: sim_intros)

lemma sim_check_head [sim_intros]:
  assumes "serves srv view" and "\<And>s'. sim view (f s') (g (view s'))"
  shows "sim view (check_head srv L m i k cur s f) (check_head ks_exec L m i k cur (view s) g)"
  unfolding check_head_def using assms by (intro sim_intros) auto

lemma sim_check_top [sim_intros]:
  assumes "serves srv view" and "\<And>s'. sim view (f s') (g (view s'))"
  shows "sim view (check_top srv L i cur s f) (check_top ks_exec L i cur (view s) g)"
  unfolding check_top_def using assms by (intro sim_rcall) (auto intro!: sim_intros split: option.split)

lemma sim_check_fresh [sim_intros]:
  assumes "serves srv view" and "\<And>s'. sim view (f s') (g (view s'))"
  shows "sim view (check_fresh srv k m i v s f) (check_fresh ks_exec k m i v (view s) g)"
  unfolding check_fresh_def using assms by (intro sim_intros) (auto intro!: sim_intros)

lemma sim_stage_hash [sim_intros]:
  assumes "serves srv view" and "\<And>s'. sim view (f s') (g (view s'))"
  shows "sim view (stage_hash srv a b fs s f) (stage_hash ks_exec a b fs (view s) g)"
  unfolding stage_hash_def using assms by (intro sim_intros) auto

lemma sim_compare_files [sim_intros]:
  assumes "serves srv view" and "\<And>s'. sim view (f s') (g (view s'))"
  shows "sim view (compare_files srv k fs s f) (compare_files ks_exec k fs (view s) g)"
  using assms by (induction fs arbitrary: s) (auto intro!: sim_intros)

lemma sim_compare_bounded [sim_intros]:
  assumes "serves srv view" and "\<And>s'. sim view (f s') (g (view s'))"
  shows "sim view (compare_bounded srv k a b n fs s f) (compare_bounded ks_exec k a b n fs (view s) g)"
  using assms by (induction fs arbitrary: s n) (auto intro!: sim_intros)

lemma sim_compare_restore [sim_intros]:
  assumes "serves srv view" and "\<And>s'. sim view (f s') (g (view s'))"
  shows "sim view (compare_restore srv k a b n fs s f) (compare_restore ks_exec k a b n fs (view s) g)"
  using assms by (induction fs arbitrary: s n) (auto intro!: sim_intros)

lemma sim_check_record [sim_intros]:
  assumes "serves srv view" and "\<And>s'. sim view (f s') (g (view s'))"
  shows "sim view (check_record srv m i h v e fs s f) (check_record ks_exec m i h v e fs (view s) g)"
  unfolding check_record_def using assms by (intro sim_intros) (auto intro!: sim_intros)

lemma sim_publish [sim_intros]:
  assumes "serves srv view"
  shows "sim view (publish srv L keys base fs a m s) (publish ks_exec L keys base fs a m (view s))"
  unfolding publish_def Let_def using assms
  by (auto intro!: sim_intros simp: view_append_audit split: lval.split)

lemma sim_save_script:
  assumes "serves srv view"
  shows "sim view (save_script srv L keys argv s) (save_script ks_exec L keys argv (view s))"
  unfolding save_script_def Let_def using assms by (auto intro!: sim_intros split: option.split)

lemma sim_rollback_script:
  assumes "serves srv view"
  shows "sim view (rollback_script srv L keys argv s) (rollback_script ks_exec L keys argv (view s))"
  unfolding rollback_script_def Let_def using assms by (auto intro!: sim_intros split: option.split)

lemma sim_repair_prologue [sim_intros]:
  assumes "serves srv view" and "\<And>a b c d s'. sim view (f a b c d s') (g a b c d (view s'))"
  shows "sim view (repair_prologue first srv L keys argv s f) (repair_prologue first ks_exec L keys argv (view s) g)"
  unfolding repair_prologue_def Let_def using assms by (auto intro!: sim_intros split: option.split)

lemma sim_repairs:
  assumes "serves srv view"
  shows "sim view (snapshot_repair_script srv L keys argv s) (snapshot_repair_script ks_exec L keys argv (view s))"
    and "sim view (mirror_rebuild_script srv L keys argv s) (mirror_rebuild_script ks_exec L keys argv (view s))"
    and "sim view (migration_script srv L keys argv s) (migration_script ks_exec L keys argv (view s))"
  unfolding snapshot_repair_script_def mirror_rebuild_script_def migration_script_def Let_def using assms
  by (auto intro!: sim_intros simp: view_append_audit)

lemma sim_machines [sim_intros]:
  assumes "serves srv view"
    and "\<And>v w s'. \<forall>L n. machines_above L n v = machines_above L n w \<Longrightarrow> sim view (f v s') (g w (view s'))"
  shows "sim view (rcall srv s (HVALS k) f) (rcall ks_exec (view s) (HVALS k) g)"
  by (rule sim_hvals [OF assms(1)], rule assms(2)) (auto simp: machines_above_def list_ex_iff)

lemma sim_restore_version_script:
  assumes "serves srv view"
  shows "sim view (restore_version_script srv L keys argv s) (restore_version_script ks_exec L keys argv (view s))"
  unfolding restore_version_script_def Let_def using assms
  by (auto intro!: sim_intros simp: view_append_audit split: option.split)

lemma sim_delete_orphan_script:
  assumes "serves srv view"
  shows "sim view (delete_orphan_script srv L keys argv s) (delete_orphan_script ks_exec L keys argv (view s))"
  unfolding delete_orphan_script_def Let_def using assms
  by (auto intro!: sim_intros simp: view_append_audit split: option.split)

lemma sim_seed_script:
  assumes "serves srv view"
  shows "sim view (seed_script srv L keys argv s) (seed_script ks_exec L keys argv (view s))"
  unfolding seed_script_def Let_def using assms by (auto intro!: sim_intros split: option.split)

end
