(* ===== verification/History_Safety.thy ===== *)
theory History_Safety
  imports History_Scripts
begin

text \<open>
  Two facts about the writing scripts that hold for every content of the key space. Their type check makes the commands that follow
  well typed, so that none of them is refused half way because of a key's type; and a script that answers with a refusal has
  written nothing.
\<close>

section \<open>A typing discipline for commands\<close>

type_synonym typing = "string \<rightharpoonup> string"

definition well_typed :: "typing \<Rightarrow> keyspace \<Rightarrow> bool" where
  "well_typed G ks \<longleftrightarrow> (\<forall>k t v. G k = Some t \<longrightarrow> ks k = Some v \<longrightarrow> type_name v = t)"

fun cmd_typed :: "typing \<Rightarrow> rcmd \<Rightarrow> bool" where
  "cmd_typed G (TYPEOF k) = True"
| "cmd_typed G (EXISTS k) = True"
| "cmd_typed G (DEL k) = True"
| "cmd_typed G (UNLINK k) = True"
| "cmd_typed G (GET k) = (G k = Some ''string'')"
| "cmd_typed G (SETV k v) = (G k = Some ''string'')"
| "cmd_typed G (INCR k) = (G k = Some ''string'')"
| "cmd_typed G (RENAME a b) = (G a \<noteq> None \<and> G a = G b)"
| "cmd_typed G (HSET k ps) = (G k = Some ''hash'')"
| "cmd_typed G (HGET k f) = (G k = Some ''hash'')"
| "cmd_typed G (HMGET k fs) = (G k = Some ''hash'')"
| "cmd_typed G (HEXISTS k f) = (G k = Some ''hash'')"
| "cmd_typed G (HLEN k) = (G k = Some ''hash'')"
| "cmd_typed G (HGETALL k) = (G k = Some ''hash'')"
| "cmd_typed G (HVALS k) = (G k = Some ''hash'')"
| "cmd_typed G (HDEL k f) = (G k = Some ''hash'')"
| "cmd_typed G (ZADD k sc m) = (G k = Some ''zset'')"
| "cmd_typed G (ZSCORE k m) = (G k = Some ''zset'')"
| "cmd_typed G (ZCARD k) = (G k = Some ''zset'')"
| "cmd_typed G (ZREVRANGE k i j) = (G k = Some ''zset'')"
| "cmd_typed G (ZRANGE k i j) = (G k = Some ''zset'')"
| "cmd_typed G (ZRANK k m) = (G k = Some ''zset'')"
| "cmd_typed G (ZREVRANGEBYSCORE k b n) = (G k = Some ''zset'')"
| "cmd_typed G (ZREM k m) = (G k = Some ''zset'')"
| "cmd_typed G (LPUSH k v) = (G k = Some ''list'')"
| "cmd_typed G (LTRIM k i j) = (G k = Some ''list'')"

lemma typed_at: "well_typed G ks \<Longrightarrow> G k = Some t \<Longrightarrow> ks k = None \<or> (\<exists>v. ks k = Some v \<and> type_name v = t)"
  by (cases "ks k") (auto simp: well_typed_def)

lemma type_name_cases:
  "type_name v = ''string'' \<longleftrightarrow> (\<exists>x. v = RString x)" "type_name v = ''hash'' \<longleftrightarrow> (\<exists>x. v = RHash x)"
  "type_name v = ''list'' \<longleftrightarrow> (\<exists>x. v = RList x)" "type_name v = ''zset'' \<longleftrightarrow> (\<exists>x. v = RZset x)"
  by (cases v; simp)+

lemma typed_hash: "well_typed G ks \<Longrightarrow> G k = Some ''hash'' \<Longrightarrow> \<exists>h. \<forall>f. with_hash ks k f = f h"
  by (drule (1) typed_at) (auto simp: with_hash_def type_name_cases)

lemma typed_zset: "well_typed G ks \<Longrightarrow> G k = Some ''zset'' \<Longrightarrow> \<exists>z. \<forall>f. with_zset ks k f = f z"
  by (drule (1) typed_at) (auto simp: with_zset_def type_name_cases)

lemma typed_list: "well_typed G ks \<Longrightarrow> G k = Some ''list'' \<Longrightarrow> \<exists>l. \<forall>f. with_list ks k f = f l"
  by (drule (1) typed_at) (auto simp: with_list_def type_name_cases)

lemma typed_string: "well_typed G ks \<Longrightarrow> G k = Some ''string'' \<Longrightarrow> ks k = None \<or> (\<exists>v. ks k = Some (RString v))"
  by (drule (1) typed_at) (auto simp: type_name_cases)

text \<open>Progress: a typed command on a typed key space is not refused for a type.\<close>

lemma cmd_progress:
  assumes "well_typed G ks" and "cmd_typed G c"
  shows "fst (ks_exec ks c) \<noteq> Inl ''WRONGTYPE''"
  using assms(2)
  by (cases c) (auto dest!: typed_hash [OF assms(1)] typed_zset [OF assms(1)] typed_list [OF assms(1)]
      typed_string [OF assms(1)] split: option.splits if_splits)

text \<open>Preservation.\<close>

fun reads :: "rcmd \<Rightarrow> bool" where
  "reads (SETV _ _) = False"
| "reads (INCR _) = False"
| "reads (DEL _) = False"
| "reads (UNLINK _) = False"
| "reads (RENAME _ _) = False"
| "reads (HSET _ _) = False"
| "reads (HDEL _ _) = False"
| "reads (ZADD _ _ _) = False"
| "reads (ZREM _ _) = False"
| "reads (LPUSH _ _) = False"
| "reads (LTRIM _ _ _) = False"
| "reads _ = True"

lemma reads_keep: "reads c \<Longrightarrow> snd (ks_exec ks c) = ks"
  by (cases c) (auto simp: with_hash_def with_zset_def wrongtype_def split: option.split rvalue.split)

lemma well_typed_upd: "well_typed G ks \<Longrightarrow> (\<And>v t. x = Some v \<Longrightarrow> G k = Some t \<Longrightarrow> type_name v = t) \<Longrightarrow> well_typed G (ks(k := x))"
  by (auto simp: well_typed_def)

lemma cmd_preserves:
  assumes ks: "well_typed G ks" and "cmd_typed G c"
  shows "well_typed G (snd (ks_exec ks c))"
proof (cases "reads c")
  case False
  note store = store_hash_def store_zset_def store_list_def
  from False show ?thesis
  proof (cases c)
    case (RENAME a b)
    then show ?thesis using assms by (auto simp: well_typed_def split: option.split)
  next
    case (INCR k)
    then show ?thesis using assms typed_string [OF ks, of k] by (auto intro!: well_typed_upd split: option.split)
  next
    case (HSET k ps)
    with assms typed_hash [OF ks, of k] obtain h where "\<And>f. with_hash ks k f = f h" by auto
    with HSET assms show ?thesis by (auto intro!: well_typed_upd)
  next
    case (HDEL k f)
    with assms typed_hash [OF ks, of k] obtain h where "\<And>f. with_hash ks k f = f h" by auto
    with HDEL assms show ?thesis by (auto simp: store intro!: well_typed_upd split: if_splits)
  next
    case (ZADD k sc m)
    with assms typed_zset [OF ks, of k] obtain z where "\<And>f. with_zset ks k f = f z" by auto
    with ZADD assms show ?thesis by (auto intro!: well_typed_upd)
  next
    case (ZREM k m)
    with assms typed_zset [OF ks, of k] obtain z where "\<And>f. with_zset ks k f = f z" by auto
    with ZREM assms show ?thesis by (auto simp: store intro!: well_typed_upd split: if_splits)
  next
    case (LPUSH k v)
    with assms typed_list [OF ks, of k] obtain l where "\<And>f. with_list ks k f = f l" by auto
    with LPUSH assms show ?thesis by (auto intro!: well_typed_upd)
  next
    case (LTRIM k i j)
    with assms typed_list [OF ks, of k] obtain l where "\<And>f. with_list ks k f = f l" by auto
    with LTRIM assms show ?thesis by (auto simp: store intro!: well_typed_upd split: if_splits)
  qed (use assms in \<open>auto intro!: well_typed_upd\<close>)
qed (simp add: reads_keep ks)

text \<open>A run whose every command is typed ends without a type error, in a typed key space.\<close>

definition typed_run :: "typing \<Rightarrow> (string + 'r) \<times> keyspace \<Rightarrow> bool" where
  "typed_run G res \<longleftrightarrow> fst res \<noteq> Inl ''WRONGTYPE'' \<and> well_typed G (snd res)"

named_theorems typed_intros

lemma typed_run_return [typed_intros]: "well_typed G ks \<Longrightarrow> typed_run G (Inr r, ks)" "well_typed G ks \<Longrightarrow> typed_run G (ret i ks)"
  by (simp_all add: typed_run_def ret_def)

lemma typed_run_if [typed_intros]: "(b \<Longrightarrow> typed_run G x) \<Longrightarrow> (\<not> b \<Longrightarrow> typed_run G y) \<Longrightarrow> typed_run G (if b then x else y)"
  by simp

lemma typed_run_rcall [typed_intros]:
  assumes "well_typed G ks" and "cmd_typed G c" and "\<And>v ks'. well_typed G ks' \<Longrightarrow> typed_run G (f v ks')"
  shows "typed_run G (rcall ks_exec ks c f)"
proof -
  obtain r ks' where e: "ks_exec ks c = (r, ks')" by fastforce
  with cmd_progress [OF assms(1,2)] cmd_preserves [OF assms(1,2)] have "r \<noteq> Inl ''WRONGTYPE''" "well_typed G ks'" by simp_all
  with e assms(3) show ?thesis by (cases r) (auto simp: rcall_def typed_run_def)
qed

lemma typed_check_head [typed_intros]:
  assumes "well_typed G ks" and "G i = Some ''zset''" and "G m = Some ''hash''" and "\<And>ks'. well_typed G ks' \<Longrightarrow> typed_run G (f ks')"
  shows "typed_run G (check_head ks_exec L m i k cur ks f)"
  unfolding check_head_def using assms by (auto intro!: typed_intros)

lemma typed_check_top [typed_intros]:
  assumes "well_typed G ks" and "G i = Some ''zset''" and "\<And>ks'. well_typed G ks' \<Longrightarrow> typed_run G (f ks')"
  shows "typed_run G (check_top ks_exec L i cur ks f)"
  unfolding check_top_def using assms by (auto intro!: typed_intros split: option.split)

lemma typed_check_fresh [typed_intros]:
  assumes "well_typed G ks" and "G i = Some ''zset''" and "G m = Some ''hash''" and "\<And>ks'. well_typed G ks' \<Longrightarrow> typed_run G (f ks')"
  shows "typed_run G (check_fresh ks_exec k m i v ks f)"
  unfolding check_fresh_def using assms by (auto intro!: typed_intros)

lemma typed_check_record [typed_intros]:
  assumes "well_typed G ks" and "G i = Some ''zset''" and "G m = Some ''hash''" and "G h = Some ''hash''"
    and "\<And>ks'. well_typed G ks' \<Longrightarrow> typed_run G (f ks')"
  shows "typed_run G (check_record ks_exec m i h v e fs ks f)"
  unfolding check_record_def using assms by (auto intro!: typed_intros)

lemma typed_stage_hash [typed_intros]:
  assumes "well_typed G ks" and "G a = Some ''hash''" and "G b = Some ''hash''" and "\<And>ks'. well_typed G ks' \<Longrightarrow> typed_run G (f ks')"
  shows "typed_run G (stage_hash ks_exec a b fs ks f)"
  unfolding stage_hash_def using assms by (auto intro!: typed_intros)

lemma typed_compare [typed_intros]:
  assumes "well_typed G ks" and "G k = Some ''hash''" and "\<And>ks'. well_typed G ks' \<Longrightarrow> typed_run G (f ks')"
  shows "typed_run G (compare_files ks_exec k fs ks f)" and "typed_run G (compare_bounded ks_exec k x y n fs ks f)"
    and "typed_run G (compare_restore ks_exec k x y n fs ks f)"
  subgoal using assms by (induction fs arbitrary: ks) (auto intro!: typed_intros)
  subgoal using assms by (induction fs arbitrary: ks n) (auto intro!: typed_intros)
  subgoal using assms by (induction fs arbitrary: ks n) (auto intro!: typed_intros)
  done

lemma typed_append_audit [typed_intros]:
  assumes "well_typed G ks" and "G a = Some ''list''"
  shows "well_typed G (append_audit ks_exec a l ks)"
proof -
  have "well_typed G (snd (ks_exec ks (LPUSH a l)))" by (rule cmd_preserves) (use assms in auto)
  moreover from this have "well_typed G (snd (ks_exec (snd (ks_exec ks (LPUSH a l))) (LTRIM a 0 199)))"
    by (rule cmd_preserves) (use assms in auto)
  ultimately show ?thesis unfolding append_audit_def by (auto split: prod.splits sum.splits)
qed

text \<open>The check at the head of a script establishes the typing, or the script ends with the key space as it was.\<close>

definition type_safe :: "typing \<Rightarrow> keyspace \<Rightarrow> (string + 'r) \<times> keyspace \<Rightarrow> bool" where
  "type_safe G ks res \<longleftrightarrow> fst res \<noteq> Inl ''WRONGTYPE'' \<and> (snd res = ks \<or> well_typed G (snd res))"

lemma check_types_run:
  "\<exists>ok. check_types ks_exec keys ex ks bad f = (if ok then f ks else (Inr bad, ks)) \<and>
     (ok \<longrightarrow> distinct keys \<longrightarrow> length keys \<le> length ex \<longrightarrow> well_typed (map_of (zip keys ex)) ks)"
proof (induction keys arbitrary: ex)
  case Nil
  show ?case by (rule exI [of _ True]) (simp add: well_typed_def)
next
  case (Cons k keys)
  from Cons.IH [of "tl ex"] obtain ok where ok:
    "check_types ks_exec keys (tl ex) ks bad f = (if ok then f ks else (Inr bad, ks))"
    "ok \<longrightarrow> distinct keys \<longrightarrow> length keys \<le> length (tl ex) \<longrightarrow> well_typed (map_of (zip keys (tl ex))) ks" by blast
  let ?t = "case ks k of None \<Rightarrow> ''none'' | Some v \<Rightarrow> type_name v"
  let ?bad = "(ex = [] \<or> ?t \<noteq> hd ex) \<and> ?t \<noteq> ''none''"
  have none: "type_name v \<noteq> ''none''" for v by (cases v) auto
  show ?case
  proof (rule exI [of _ "\<not> ?bad \<and> ok"], intro conjI impI)
    show "check_types ks_exec (k # keys) ex ks bad f = (if \<not> ?bad \<and> ok then f ks else (Inr bad, ks))"
      by (cases ?bad) (auto simp: rcall_def ok(1))
    assume a: "\<not> ?bad \<and> ok" "distinct (k # keys)" "length (k # keys) \<le> length ex"
    then obtain e es where "ex = e # es" by (cases ex) auto
    with a ok(2) none show "well_typed (map_of (zip (k # keys) ex)) ks"
      by (auto simp: well_typed_def split: option.splits)
  qed
qed

text \<open>The types the positions of \<^verbatim>\<open>KEYS\<close> must have.\<close>

definition key_typing :: "string list \<Rightarrow> string list \<Rightarrow> typing" where
  "key_typing keys ex = map_of (zip keys ex)"

lemma type_safe_check_types:
  assumes "distinct keys" and "length keys \<le> length ex"
    and "well_typed (key_typing keys ex) ks \<Longrightarrow> typed_run (key_typing keys ex) (f ks)"
  shows "type_safe (key_typing keys ex) ks (check_types ks_exec keys ex ks bad f)"
  using check_types_run [of keys ex ks bad f] assms
  by (auto simp: type_safe_def typed_run_def key_typing_def split: if_splits)

lemma type_safe_ret: "type_safe G ks (ret i ks)"
  by (simp add: type_safe_def ret_def)

lemma type_safe_if: "(b \<Longrightarrow> type_safe G ks x) \<Longrightarrow> (\<not> b \<Longrightarrow> type_safe G ks y) \<Longrightarrow> type_safe G ks (if b then x else y)"
  by simp

lemmas type_safe_intros = type_safe_ret type_safe_if type_safe_check_types

lemma key_typing_map:
  assumes "distinct keys" "length keys = length ex"
  shows "map (key_typing keys ex) keys = map Some ex"
  using assms by (simp add: key_typing_def map_of_zip_nth list_eq_iff_nth_eq)

lemma key_types:
  assumes "distinct keys" "length keys = length ex" "0 < i" "i \<le> length ex"
  shows "key_typing keys ex (arg_at keys i) = Some (ex ! (i - 1))"
  using arg_cong [OF key_typing_map [OF assms(1,2)], of "\<lambda>xs. xs ! (i - 1)"] assms(2-4) by (simp add: arg_at_def)

lemma typed_publish:
  assumes "well_typed G ks" and "G (arg_at keys 1) = Some ''string''" "G (arg_at keys 2) = Some ''hash''"
    "G (arg_at keys 3) = Some ''list''" "G (arg_at keys 4) = Some ''hash''" "G (arg_at keys 5) = Some ''hash''"
    "G (arg_at keys 6) = Some ''zset''" "G (arg_at keys 7) = Some ''hash''" "G (arg_at keys 8) = Some ''hash''"
  shows "typed_run G (publish ks_exec L keys base fs a m ks)"
  unfolding publish_def Let_def using assms by (auto intro!: typed_intros split: lval.split)

lemma save_types:
  assumes "distinct keys" and "length keys = 9"
  shows "key_typing keys (take 9 save_expected) (arg_at keys 1) = Some ''string''"
    and "key_typing keys (take 9 save_expected) (arg_at keys 2) = Some ''hash''"
    and "key_typing keys (take 9 save_expected) (arg_at keys 3) = Some ''list''"
    and "key_typing keys (take 9 save_expected) (arg_at keys 4) = Some ''hash''"
    and "key_typing keys (take 9 save_expected) (arg_at keys 5) = Some ''hash''"
    and "key_typing keys (take 9 save_expected) (arg_at keys 6) = Some ''zset''"
    and "key_typing keys (take 9 save_expected) (arg_at keys 7) = Some ''hash''"
    and "key_typing keys (take 9 save_expected) (arg_at keys 8) = Some ''hash''"
    and "key_typing keys (take 9 save_expected) (arg_at keys 9) = Some ''hash''"
  using key_types [of keys "take 9 save_expected"] assms by (simp_all add: save_expected_def)

lemma rollback_types:
  assumes "distinct keys" and "length keys = 10"
  shows "key_typing keys (save_expected) (arg_at keys 1) = Some ''string''"
    and "key_typing keys (save_expected) (arg_at keys 2) = Some ''hash''"
    and "key_typing keys (save_expected) (arg_at keys 3) = Some ''list''"
    and "key_typing keys (save_expected) (arg_at keys 4) = Some ''hash''"
    and "key_typing keys (save_expected) (arg_at keys 5) = Some ''hash''"
    and "key_typing keys (save_expected) (arg_at keys 6) = Some ''zset''"
    and "key_typing keys (save_expected) (arg_at keys 7) = Some ''hash''"
    and "key_typing keys (save_expected) (arg_at keys 8) = Some ''hash''"
    and "key_typing keys (save_expected) (arg_at keys 9) = Some ''hash''"
    and "key_typing keys (save_expected) (arg_at keys 10) = Some ''hash''"
  using key_types [of keys "save_expected"] assms by (simp_all add: save_expected_def)

lemma repair_types:
  assumes "distinct keys" and "length keys = 7"
  shows "key_typing keys (repair_expected) (arg_at keys 1) = Some ''string''"
    and "key_typing keys (repair_expected) (arg_at keys 2) = Some ''hash''"
    and "key_typing keys (repair_expected) (arg_at keys 3) = Some ''hash''"
    and "key_typing keys (repair_expected) (arg_at keys 4) = Some ''zset''"
    and "key_typing keys (repair_expected) (arg_at keys 5) = Some ''hash''"
    and "key_typing keys (repair_expected) (arg_at keys 6) = Some ''hash''"
    and "key_typing keys (repair_expected) (arg_at keys 7) = Some ''list''"
  using key_types [of keys "repair_expected"] assms by (simp_all add: repair_expected_def)

lemma restore_types:
  assumes "distinct keys" and "length keys = 8"
  shows "key_typing keys (restore_expected) (arg_at keys 1) = Some ''string''"
    and "key_typing keys (restore_expected) (arg_at keys 2) = Some ''hash''"
    and "key_typing keys (restore_expected) (arg_at keys 3) = Some ''zset''"
    and "key_typing keys (restore_expected) (arg_at keys 4) = Some ''hash''"
    and "key_typing keys (restore_expected) (arg_at keys 5) = Some ''hash''"
    and "key_typing keys (restore_expected) (arg_at keys 6) = Some ''hash''"
    and "key_typing keys (restore_expected) (arg_at keys 7) = Some ''list''"
    and "key_typing keys (restore_expected) (arg_at keys 8) = Some ''hash''"
  using key_types [of keys "restore_expected"] assms by (simp_all add: restore_expected_def)

lemma orphan_types:
  assumes "distinct keys" and "length keys = 6"
  shows "key_typing keys (orphan_expected) (arg_at keys 1) = Some ''string''"
    and "key_typing keys (orphan_expected) (arg_at keys 2) = Some ''zset''"
    and "key_typing keys (orphan_expected) (arg_at keys 3) = Some ''hash''"
    and "key_typing keys (orphan_expected) (arg_at keys 4) = Some ''hash''"
    and "key_typing keys (orphan_expected) (arg_at keys 5) = Some ''list''"
    and "key_typing keys (orphan_expected) (arg_at keys 6) = Some ''hash''"
  using key_types [of keys "orphan_expected"] assms by (simp_all add: orphan_expected_def)

lemma seed_types:
  assumes "distinct keys" and "length keys = 6"
  shows "key_typing keys (seed_expected) (arg_at keys 1) = Some ''hash''"
    and "key_typing keys (seed_expected) (arg_at keys 2) = Some ''hash''"
    and "key_typing keys (seed_expected) (arg_at keys 3) = Some ''hash''"
    and "key_typing keys (seed_expected) (arg_at keys 4) = Some ''zset''"
    and "key_typing keys (seed_expected) (arg_at keys 5) = Some ''hash''"
    and "key_typing keys (seed_expected) (arg_at keys 6) = Some ''hash''"
  using key_types [of keys "seed_expected"] assms by (simp_all add: seed_expected_def)

lemma expected_lengths:
  "length (take 9 save_expected) = 9" "length save_expected = 10" "length repair_expected = 7" "length restore_expected = 8"
  "length orphan_expected = 6" "length seed_expected = 6"
  by (simp_all add: save_expected_def repair_expected_def restore_expected_def orphan_expected_def seed_expected_def)

lemma type_safe_save:
  assumes "distinct keys" and "length keys = 9"
  shows "type_safe (key_typing keys (take 9 save_expected)) ks (save_script ks_exec L keys argv ks)"
  unfolding save_script_def Let_def using assms save_types [OF assms] expected_lengths
  by (auto intro!: type_safe_intros typed_intros typed_publish split: option.split)

lemma type_safe_rollback:
  assumes "distinct keys" and "length keys = 10"
  shows "type_safe (key_typing keys save_expected) ks (rollback_script ks_exec L keys argv ks)"
  unfolding rollback_script_def Let_def using assms rollback_types [OF assms] expected_lengths
  by (auto intro!: type_safe_intros typed_intros typed_publish split: option.split)

lemma type_safe_prologue:
  assumes "distinct keys" and "length keys = 7"
    and "\<And>a b c d ks'. well_typed (key_typing keys repair_expected) ks' \<Longrightarrow> typed_run (key_typing keys repair_expected) (f a b c d ks')"
  shows "type_safe (key_typing keys repair_expected) ks (repair_prologue first ks_exec L keys argv ks f)"
  unfolding repair_prologue_def Let_def using assms repair_types [OF assms(1,2)] expected_lengths
  by (auto intro!: type_safe_intros typed_intros split: option.split)

lemma type_safe_repairs:
  assumes "distinct keys" and "length keys = 7"
  shows "type_safe (key_typing keys repair_expected) ks (snapshot_repair_script ks_exec L keys argv ks)"
    and "type_safe (key_typing keys repair_expected) ks (mirror_rebuild_script ks_exec L keys argv ks)"
    and "type_safe (key_typing keys repair_expected) ks (migration_script ks_exec L keys argv ks)"
  unfolding snapshot_repair_script_def mirror_rebuild_script_def migration_script_def Let_def
  using repair_types [OF assms] by (auto intro!: type_safe_prologue [OF assms] typed_intros)

lemma type_safe_restore:
  assumes "distinct keys" and "length keys = 8"
  shows "type_safe (key_typing keys restore_expected) ks (restore_version_script ks_exec L keys argv ks)"
  unfolding restore_version_script_def Let_def using assms restore_types [OF assms] expected_lengths
  by (auto intro!: type_safe_intros typed_intros split: option.split)

lemma type_safe_delete:
  assumes "distinct keys" and "length keys = 6"
  shows "type_safe (key_typing keys orphan_expected) ks (delete_orphan_script ks_exec L keys argv ks)"
  unfolding delete_orphan_script_def Let_def using assms orphan_types [OF assms] expected_lengths
  by (auto intro!: type_safe_intros typed_intros split: option.split)

lemma type_safe_seed:
  assumes "distinct keys" and "length keys = 7"
  shows "type_safe (key_typing keys (''string'' # seed_expected)) ks (seed_script ks_exec L keys argv ks)"
proof -
  let ?ex = "''string'' # seed_expected"
  obtain k rest where keys: "keys = k # rest" using assms(2) by (cases keys) auto
  have at: "key_typing keys ?ex (arg_at keys i) = Some (?ex ! (i - 1))" if "0 < i" "i \<le> 7" for i
    using key_types [of keys ?ex i] assms that by (simp add: expected_lengths)
  have types: "key_typing keys ?ex (arg_at keys 1) = Some ''string''" "key_typing keys ?ex (arg_at keys 2) = Some ''hash''"
    "key_typing keys ?ex (arg_at keys 3) = Some ''hash''" "key_typing keys ?ex (arg_at keys 4) = Some ''hash''"
    "key_typing keys ?ex (arg_at keys 5) = Some ''zset''" "key_typing keys ?ex (arg_at keys 6) = Some ''hash''"
    "key_typing keys ?ex (arg_at keys 7) = Some ''hash''"
    using at [of 1] at [of 2] at [of 3] at [of 4] at [of 5] at [of 6] at [of 7] by (simp_all add: seed_expected_def)
  have typed: "type_safe (key_typing keys ?ex) ks (check_types ks_exec (tl keys) seed_expected ks bad f)"
    if "ks k = None" and "\<And>ks'. well_typed (key_typing keys ?ex) ks' \<Longrightarrow> typed_run (key_typing keys ?ex) (f ks')" for bad f
  proof -
    obtain ok where ok: "check_types ks_exec rest seed_expected ks bad f = (if ok then f ks else (Inr bad, ks))"
      "ok \<Longrightarrow> well_typed (map_of (zip rest seed_expected)) ks"
      using check_types_run [of rest seed_expected ks bad f] assms by (auto simp: keys expected_lengths)
    have "typed_run (key_typing keys ?ex) (f ks)" if ok
    proof (rule \<open>\<And>ks'. well_typed (key_typing keys ?ex) ks' \<Longrightarrow> typed_run (key_typing keys ?ex) (f ks')\<close>)
      show "well_typed (key_typing keys ?ex) ks"
        using ok(2) [OF that] \<open>ks k = None\<close> by (auto simp: key_typing_def keys well_typed_def)
    qed
    then show ?thesis unfolding keys list.sel ok(1) by (cases ok) (simp_all add: type_safe_def typed_run_def)
  qed
  have none: "type_name v \<noteq> ''none''" for v by (cases v) auto
  have k1: "arg_at keys 1 = k" by (simp add: arg_at_def keys)
  have open_check: "type_safe G ks (rcall ks_exec ks (TYPEOF (arg_at keys (Suc 0))) g)"
    if "\<And>t. (t = LStr ''none'' \<Longrightarrow> ks k = None) \<Longrightarrow> type_safe G ks (g t ks)" for G g
    using that none by (auto simp: rcall_def k1 k1 [simplified] split: option.split)
  show ?thesis
    unfolding seed_script_def Let_def using types
    by (auto intro!: open_check typed type_safe_ret type_safe_if typed_intros split: option.split)
qed

lemma sim_apsnd: "sim view a b \<Longrightarrow> apsnd view a = b"
  by (cases a; cases b) (simp add: sim_def)

lemma apsnd_same: "apsnd (\<lambda>ks. ks) x = x"
  by (cases x) simp

text \<open>
  C27. Whatever is stored under their keys, and whatever their arguments, the writing scripts of the history never end with a type
  error: they check the types first, and every later command fits the types checked. Each leaves the key space as it was or with
  every one of its keys of the expected type.
\<close>

theorem scripts_type_safe:
  assumes "serves srv view" and "distinct keys"
  shows "(length keys = 9 \<longrightarrow>
      type_safe (key_typing keys (take 9 save_expected)) (view s) (apsnd view (save_script srv L keys argv s))) \<and>
    (length keys = 10 \<longrightarrow> type_safe (key_typing keys save_expected) (view s) (apsnd view (rollback_script srv L keys argv s))) \<and>
    (length keys = 7 \<longrightarrow>
      type_safe (key_typing keys repair_expected) (view s) (apsnd view (snapshot_repair_script srv L keys argv s)) \<and>
      type_safe (key_typing keys repair_expected) (view s) (apsnd view (mirror_rebuild_script srv L keys argv s)) \<and>
      type_safe (key_typing keys repair_expected) (view s) (apsnd view (migration_script srv L keys argv s)) \<and>
      type_safe (key_typing keys (''string'' # seed_expected)) (view s) (apsnd view (seed_script srv L keys argv s))) \<and>
    (length keys = 8 \<longrightarrow>
      type_safe (key_typing keys restore_expected) (view s) (apsnd view (restore_version_script srv L keys argv s))) \<and>
    (length keys = 6 \<longrightarrow>
      type_safe (key_typing keys orphan_expected) (view s) (apsnd view (delete_orphan_script srv L keys argv s)))"
  using assms(2)
  by (auto simp: sim_apsnd [OF sim_save_script [OF assms(1)]] sim_apsnd [OF sim_rollback_script [OF assms(1)]]
      sim_apsnd [OF sim_repairs(1) [OF assms(1)]] sim_apsnd [OF sim_repairs(2) [OF assms(1)]]
      sim_apsnd [OF sim_repairs(3) [OF assms(1)]] sim_apsnd [OF sim_seed_script [OF assms(1)]]
      sim_apsnd [OF sim_restore_version_script [OF assms(1)]] sim_apsnd [OF sim_delete_orphan_script [OF assms(1)]]
      intro: type_safe_save type_safe_rollback type_safe_repairs type_safe_seed type_safe_restore type_safe_delete)

definition demo_lua :: lua_num where
  "demo_lua = \<lparr>lu_tonumber = (\<lambda>t. map_option rat_of_int (parse_int64 t)), lu_tostring = (\<lambda>x. dec_of_int \<lfloor>x\<rfloor>),
     lu_arg = (\<lambda>x. dec_of_int \<lfloor>x\<rfloor>)\<rparr>"

definition demo_keys :: "string list" where
  "demo_keys = [''v'', ''f'', ''a'', ''s'', ''m'', ''i'', ''n'', ''t'', ''c'']"

theorem scripts_type_safe_witness:
  "type_safe (key_typing demo_keys (take 9 save_expected)) [''i'' \<mapsto> RString ''x'']
     (save_script ks_exec demo_lua demo_keys [''0'', ''audit'', ''meta'', ''9'', ''99'', ''99'', ''a.ini'', ''x''] [''i'' \<mapsto> RString ''x''])"
  using scripts_type_safe [OF serves_ks_exec, of demo_keys "[''i'' \<mapsto> RString ''x'']" demo_lua
      "[''0'', ''audit'', ''meta'', ''9'', ''99'', ''99'', ''a.ini'', ''x'']"]
  by (simp add: demo_keys_def apsnd_same)

section \<open>Refusals write nothing\<close>

text \<open>\<open>late\<close>: after the first write a script can only succeed, or report \<open>-7\<close>, or end with an error.\<close>

definition late :: "(string + int) \<times> keyspace \<Rightarrow> bool" where
  "late res \<longleftrightarrow> (\<forall>c. fst res = Inr c \<longrightarrow> 0 \<le> c \<or> c = -7)"

definition all_or_nothing :: "keyspace \<Rightarrow> (string + int) \<times> keyspace \<Rightarrow> bool" where
  "all_or_nothing ks res \<longleftrightarrow> (\<forall>c. fst res = Inr c \<longrightarrow> c < 0 \<longrightarrow> c \<noteq> -7 \<longrightarrow> snd res = ks)"

named_theorems late_intros
named_theorems atomic_intros

lemma late_ret [late_intros]: "0 \<le> i \<or> i = -7 \<Longrightarrow> late (ret i ks)"
  by (simp add: late_def ret_def)

lemma late_rcall [late_intros]: "(\<And>v ks'. late (f v ks')) \<Longrightarrow> late (rcall ks_exec ks c f)"
  by (auto simp: late_def rcall_def split: sum.split prod.split)

lemma late_stage_hash [late_intros]: "(\<And>ks'. late (f ks')) \<Longrightarrow> late (stage_hash ks_exec a b fs ks f)"
  by (simp add: stage_hash_def late_rcall)

lemma late_atomic: "late res \<Longrightarrow> all_or_nothing ks res"
  by (auto simp: late_def all_or_nothing_def)

lemma atomic_ret [atomic_intros]: "all_or_nothing ks (ret i ks)"
  by (simp add: all_or_nothing_def ret_def)

lemma atomic_if [atomic_intros]:
  "(b \<Longrightarrow> all_or_nothing ks x) \<Longrightarrow> (\<not> b \<Longrightarrow> all_or_nothing ks y) \<Longrightarrow> all_or_nothing ks (if b then x else y)"
  by simp

lemma atomic_rcall [atomic_intros]:
  assumes "if reads c then \<forall>v. all_or_nothing ks (f v ks) else \<forall>v ks'. late (f v ks')"
  shows "all_or_nothing ks (rcall ks_exec ks c f)"
proof (cases "reads c")
  case True
  with assms reads_keep [OF True, of ks] show ?thesis
    by (auto simp: rcall_def all_or_nothing_def split: sum.split prod.split)
next
  case False
  with assms show ?thesis by (auto intro: late_atomic late_rcall)
qed

lemma atomic_stage_hash [atomic_intros]: "(\<And>ks'. late (f ks')) \<Longrightarrow> all_or_nothing ks (stage_hash ks_exec a b fs ks f)"
  by (rule late_atomic) (rule late_stage_hash)

lemma atomic_check_types [atomic_intros]:
  "all_or_nothing ks (f ks) \<Longrightarrow> all_or_nothing ks (check_types ks_exec keys ex ks bad f)"
  using check_types_run [of keys ex ks bad f] by (auto simp: all_or_nothing_def)

lemma atomic_checks [atomic_intros]:
  assumes "all_or_nothing ks (f ks)"
  shows "all_or_nothing ks (check_head ks_exec L m i k cur ks f)" "all_or_nothing ks (check_top ks_exec L i cur ks f)"
    "all_or_nothing ks (check_fresh ks_exec k m i v ks f)" "all_or_nothing ks (check_record ks_exec m i h v e fs ks f)"
  unfolding check_head_def check_top_def check_fresh_def check_record_def using assms
  by (auto intro!: atomic_intros split: option.split)

lemma atomic_compare [atomic_intros]:
  assumes "all_or_nothing ks (f ks)"
  shows "all_or_nothing ks (compare_files ks_exec k fs ks f)" "all_or_nothing ks (compare_bounded ks_exec k x y n fs ks f)"
    "all_or_nothing ks (compare_restore ks_exec k x y n fs ks f)"
  subgoal using assms by (induction fs) (auto intro!: atomic_intros)
  subgoal using assms by (induction fs arbitrary: n) (auto intro!: atomic_intros)
  subgoal using assms by (induction fs arbitrary: n) (auto intro!: atomic_intros)
  done

lemma lua_int_nonneg: "0 \<le> x \<Longrightarrow> 0 \<le> lua_int x"
  by (simp add: lua_int_def)

lemma late_if [late_intros]: "(b \<Longrightarrow> late x) \<Longrightarrow> (\<not> b \<Longrightarrow> late y) \<Longrightarrow> late (if b then x else y)"
  by simp

lemma atomic_publish [atomic_intros]:
  assumes "0 \<le> base"
  shows "all_or_nothing ks (publish ks_exec L keys base fs a m ks)"
proof -
  have "0 \<le> lua_int (base + 1)" using assms by (simp add: lua_int_nonneg)
  then show ?thesis
    unfolding publish_def Let_def
    by (auto intro!: atomic_intros late_intros split: lval.split)
qed

text \<open>The version a script is called with is not negative.\<close>

definition version_arg :: "lua_num \<Rightarrow> string list \<Rightarrow> bool" where
  "version_arg L argv \<longleftrightarrow> (\<forall>x. lu_tonumber L (arg_at argv 1) = Some x \<longrightarrow> 0 \<le> x)"

lemma atomic_save: "version_arg L argv \<Longrightarrow> all_or_nothing ks (save_script ks_exec L keys argv ks)"
  unfolding save_script_def Let_def version_arg_def by (auto intro!: atomic_intros split: option.split)

lemma atomic_rollback: "version_arg L argv \<Longrightarrow> all_or_nothing ks (rollback_script ks_exec L keys argv ks)"
  unfolding rollback_script_def Let_def version_arg_def by (auto intro!: atomic_intros split: option.split)

lemma atomic_prologue:
  assumes "version_arg L argv" and "\<And>a b c d. 0 \<le> a \<Longrightarrow> all_or_nothing ks (f a b c d ks)"
  shows "all_or_nothing ks (repair_prologue first ks_exec L keys argv ks f)"
  using assms unfolding repair_prologue_def Let_def version_arg_def by (auto intro!: atomic_intros split: option.split)

lemma atomic_repairs:
  assumes "version_arg L argv"
  shows "all_or_nothing ks (snapshot_repair_script ks_exec L keys argv ks)"
    and "all_or_nothing ks (mirror_rebuild_script ks_exec L keys argv ks)"
    and "all_or_nothing ks (migration_script ks_exec L keys argv ks)"
  unfolding snapshot_repair_script_def mirror_rebuild_script_def migration_script_def Let_def
  by (auto intro!: atomic_prologue [OF assms] atomic_intros late_intros lua_int_nonneg)

lemma atomic_restore: "version_arg L argv \<Longrightarrow> all_or_nothing ks (restore_version_script ks_exec L keys argv ks)"
  unfolding restore_version_script_def Let_def version_arg_def
  by (auto intro!: atomic_intros late_intros lua_int_nonneg split: option.split)

lemma atomic_delete: "all_or_nothing ks (delete_orphan_script ks_exec L keys argv ks)"
  unfolding delete_orphan_script_def Let_def
  by (auto intro!: atomic_intros late_intros split: option.split)

lemma atomic_seed: "all_or_nothing ks (seed_script ks_exec L keys argv ks)"
  unfolding seed_script_def Let_def
  by (auto intro!: atomic_intros late_intros split: option.split)

text \<open>
  C28. A script that refuses, with a stale version, a wrong type, an inconsistent index, an existing target, a limit or content
  that does not match, leaves the key space exactly as it found it; only \<open>-7\<close>, the check after publication, comes
  after writes.
\<close>

theorem refusals_write_nothing:
  assumes "serves srv view" and "version_arg L argv"
  shows "\<forall>res \<in> {save_script srv L keys argv s, rollback_script srv L keys argv s, snapshot_repair_script srv L keys argv s,
      mirror_rebuild_script srv L keys argv s, migration_script srv L keys argv s, restore_version_script srv L keys argv s,
      delete_orphan_script srv L keys argv s, seed_script srv L keys argv s}.
    \<forall>c. fst res = Inr c \<longrightarrow> c < 0 \<longrightarrow> c \<noteq> -7 \<longrightarrow> view (snd res) = view s"
proof -
  have lift: "\<forall>c. fst a = Inr c \<longrightarrow> c < 0 \<longrightarrow> c \<noteq> -7 \<longrightarrow> view (snd a) = view s"
    if "sim view a b" and "all_or_nothing (view s) b" for a and b :: "(string + int) \<times> keyspace"
    using that by (simp add: sim_def all_or_nothing_def)
  show ?thesis
    using lift [OF sim_save_script [OF assms(1)] atomic_save [OF assms(2)]]
      lift [OF sim_rollback_script [OF assms(1)] atomic_rollback [OF assms(2)]]
      lift [OF sim_repairs(1) [OF assms(1)] atomic_repairs(1) [OF assms(2)]]
      lift [OF sim_repairs(2) [OF assms(1)] atomic_repairs(2) [OF assms(2)]]
      lift [OF sim_repairs(3) [OF assms(1)] atomic_repairs(3) [OF assms(2)]]
      lift [OF sim_restore_version_script [OF assms(1)] atomic_restore [OF assms(2)]]
      lift [OF sim_delete_orphan_script [OF assms(1)] atomic_delete]
      lift [OF sim_seed_script [OF assms(1)] atomic_seed]
    by simp
qed

theorem refusals_write_nothing_witness:
  "version_arg demo_lua [''5'', ''audit'', ''meta'', ''9'', ''99'', ''99'', ''a.ini'', ''x''] \<and>
   fst (save_script ks_exec demo_lua demo_keys [''5'', ''audit'', ''meta'', ''9'', ''99'', ''99'', ''a.ini'', ''x''] Map.empty) =
     Inr (-1) \<and>
   snd (save_script ks_exec demo_lua demo_keys [''5'', ''audit'', ''meta'', ''9'', ''99'', ''99'', ''a.ini'', ''x''] Map.empty) =
     Map.empty"
proof -
  let ?argv = "[''5'', ''audit'', ''meta'', ''9'', ''99'', ''99'', ''a.ini'', ''x'']"
  have num: "lu_tonumber demo_lua ''0'' = Some 0" "lu_tonumber demo_lua ''5'' = Some 5" "lu_tonumber demo_lua ''9'' = Some 9"
    "lu_tonumber demo_lua ''99'' = Some 99"
    by (simp_all add: demo_lua_def parse_int64_def from_chars_int64_def dec_val_def digit_val_def isdigit_def)
  have v: "version_arg demo_lua ?argv" by (simp add: version_arg_def arg_at_def num)
  have "fst (save_script ks_exec demo_lua demo_keys ?argv Map.empty) = Inr (-1)"
    by (simp add: save_script_def arg_at_def num demo_keys_def rcall_def number_or_def ret_def)
  with v refusals_write_nothing [OF serves_ks_exec v, of demo_keys Map.empty] show ?thesis by simp
qed

end
