(* ===== verification/Config_History.thy ===== *)
theory Config_History
  imports History_Safety App_Config
begin

text \<open>
  The history as its users see it: a version number, for every published version its metadata and files, and a mirror of the
  current files. \<open>represents\<close> relates this to the keys of the Redis data base, and the scripts refine the operations on it. The
  keys and the arguments of a call are those of \<^verbatim>\<open>src/app/admin/admin_config_routes.cpp\<close> and
  \<^verbatim>\<open>src/app/admin/config_history_data.cpp\<close>.
\<close>

section \<open>Keys\<close>

definition kVersionKey :: string where "kVersionKey = ''asio_owen:config:version''"
definition kFilesKey :: string where "kFilesKey = ''asio_owen:config:files''"
definition kAuditKey :: string where "kAuditKey = ''asio_owen:config:audit''"
definition kStagingKey :: string where "kStagingKey = ''asio_owen:config:files:staging''"
definition kMachinesKey :: string where "kMachinesKey = ''asio_owen:config:machines''"
definition kMetaKey :: string where "kMetaKey = ''asio_owen:config:history:meta''"
definition kIndexKey :: string where "kIndexKey = ''asio_owen:config:history:index''"
definition kSnapshotPrefix :: string where "kSnapshotPrefix = ''asio_owen:config:history:''"
definition kSnapshotStagingKey :: string where "kSnapshotStagingKey = ''asio_owen:config:history:staging''"

definition snapshot_key :: "int \<Rightarrow> string" where
  "snapshot_key version = kSnapshotPrefix @ dec_of_int version"

lemmas key_defs = kVersionKey_def kFilesKey_def kAuditKey_def kStagingKey_def kMachinesKey_def kMetaKey_def kIndexKey_def
  kSnapshotStagingKey_def

definition fixed_keys :: "string list" where
  "fixed_keys = [kVersionKey, kFilesKey, kAuditKey, kStagingKey, kMachinesKey, kMetaKey, kIndexKey, kSnapshotStagingKey]"

lemma fixed_keys_distinct: "distinct fixed_keys"
  by (simp add: fixed_keys_def key_defs)

lemma dec_of_int_inj: "dec_of_int (int a) = dec_of_int (int b) \<longleftrightarrow> a = b"
  by (metis dec_of_int_def dec_val_dec_of_nat nat_int of_nat_less_0_iff)

lemma snapshot_key_inj [simp]: "snapshot_key (int a) = snapshot_key (int b) \<longleftrightarrow> a = b"
  by (simp add: snapshot_key_def dec_of_int_inj)

lemma snapshot_key_fixed: "snapshot_key (int v) \<notin> set fixed_keys"
proof -
  have d: "list_all isdigit (dec_of_int (int v))"
    using dec_of_nat_digits [of v] by (simp add: dec_of_int_def list_all_iff)
  then show ?thesis
    by (auto simp: fixed_keys_def key_defs snapshot_key_def kSnapshotPrefix_def isdigit_def)
qed

text \<open>All disequations between keys.\<close>

lemma key_neq [simp]:
  "kVersionKey \<noteq> kFilesKey" "kVersionKey \<noteq> kAuditKey" "kVersionKey \<noteq> kStagingKey" "kVersionKey \<noteq> kMachinesKey"
  "kVersionKey \<noteq> kMetaKey" "kVersionKey \<noteq> kIndexKey" "kVersionKey \<noteq> kSnapshotStagingKey"
  "kFilesKey \<noteq> kAuditKey" "kFilesKey \<noteq> kStagingKey" "kFilesKey \<noteq> kMachinesKey" "kFilesKey \<noteq> kMetaKey" "kFilesKey \<noteq> kIndexKey"
  "kFilesKey \<noteq> kSnapshotStagingKey" "kAuditKey \<noteq> kStagingKey" "kAuditKey \<noteq> kMachinesKey" "kAuditKey \<noteq> kMetaKey"
  "kAuditKey \<noteq> kIndexKey" "kAuditKey \<noteq> kSnapshotStagingKey" "kStagingKey \<noteq> kMachinesKey" "kStagingKey \<noteq> kMetaKey"
  "kStagingKey \<noteq> kIndexKey" "kStagingKey \<noteq> kSnapshotStagingKey" "kMachinesKey \<noteq> kMetaKey" "kMachinesKey \<noteq> kIndexKey"
  "kMachinesKey \<noteq> kSnapshotStagingKey" "kMetaKey \<noteq> kIndexKey" "kMetaKey \<noteq> kSnapshotStagingKey"
  "kIndexKey \<noteq> kSnapshotStagingKey"
  using fixed_keys_distinct by (auto simp: fixed_keys_def)

lemmas key_neq_sym [simp] = key_neq [symmetric]

lemma snapshot_key_neq [simp]:
  "snapshot_key (int v) \<noteq> kVersionKey" "snapshot_key (int v) \<noteq> kFilesKey" "snapshot_key (int v) \<noteq> kAuditKey"
  "snapshot_key (int v) \<noteq> kStagingKey" "snapshot_key (int v) \<noteq> kMachinesKey" "snapshot_key (int v) \<noteq> kMetaKey"
  "snapshot_key (int v) \<noteq> kIndexKey" "snapshot_key (int v) \<noteq> kSnapshotStagingKey"
  using snapshot_key_fixed [of v] by (auto simp: fixed_keys_def)

lemmas snapshot_key_neq_sym [simp] = snapshot_key_neq [symmetric]

lemma snapshot_key_Suc [simp]:
  "snapshot_key (1 + int v) \<noteq> kVersionKey" "snapshot_key (1 + int v) \<noteq> kFilesKey" "snapshot_key (1 + int v) \<noteq> kAuditKey"
  "snapshot_key (1 + int v) \<noteq> kStagingKey" "snapshot_key (1 + int v) \<noteq> kMachinesKey" "snapshot_key (1 + int v) \<noteq> kMetaKey"
  "snapshot_key (1 + int v) \<noteq> kIndexKey" "snapshot_key (1 + int v) \<noteq> kSnapshotStagingKey"
  using snapshot_key_neq [of "Suc v"] by simp_all

lemmas snapshot_key_Suc_sym [simp] = snapshot_key_Suc [symmetric]

lemma snapshot_key_inj_Suc [simp]:
  "snapshot_key (int a) = snapshot_key (1 + int b) \<longleftrightarrow> a = Suc b" "snapshot_key (1 + int b) = snapshot_key (int a) \<longleftrightarrow> a = Suc b"
  using snapshot_key_inj [of a "Suc b"] by (auto simp del: snapshot_key_inj)

section \<open>The abstract history\<close>

type_synonym files = "string \<rightharpoonup> string"

record history =
  h_version :: nat
  h_snaps :: "nat \<rightharpoonup> string \<times> files"
  h_mirror :: files

definition as_hash :: "keyspace \<Rightarrow> string \<Rightarrow> files option" where
  "as_hash ks k = (case ks k of None \<Rightarrow> Some Map.empty | Some (RHash h) \<Rightarrow> Some h | Some _ \<Rightarrow> None)"

definition as_zset :: "keyspace \<Rightarrow> string \<Rightarrow> (string \<rightharpoonup> rat) option" where
  "as_zset ks k = (case ks k of None \<Rightarrow> Some Map.empty | Some (RZset z) \<Rightarrow> Some z | Some _ \<Rightarrow> None)"

definition as_list :: "keyspace \<Rightarrow> string \<Rightarrow> string list option" where
  "as_list ks k = (case ks k of None \<Rightarrow> Some [] | Some (RList l) \<Rightarrow> Some l | Some _ \<Rightarrow> None)"

text \<open>A table over version numbers, stored under their decimal texts.\<close>

definition by_member :: "(nat \<rightharpoonup> 'a) \<Rightarrow> string \<rightharpoonup> 'a" where
  "by_member g m = (if m = dec_of_int (int (dec_val m)) then g (dec_val m) else None)"

definition represents :: "keyspace \<Rightarrow> history \<Rightarrow> bool" where
  "represents ks H \<longleftrightarrow>
     (ks kVersionKey = Some (RString (dec_of_int (int (h_version H)))) \<or> h_version H = 0 \<and> ks kVersionKey = None) \<and>
     as_hash ks kMetaKey = Some (by_member (\<lambda>v. map_option fst (h_snaps H v))) \<and>
     as_zset ks kIndexKey = Some (by_member (\<lambda>v. map_option (\<lambda>_. rat_of_nat v) (h_snaps H v))) \<and>
     (\<forall>v. ks (snapshot_key (int v)) = map_option (\<lambda>x. RHash (snd x)) (h_snaps H v)) \<and>
     as_hash ks kFilesKey = Some (h_mirror H) \<and>
     as_list ks kAuditKey \<noteq> None \<and> as_hash ks kStagingKey \<noteq> None \<and> as_hash ks kSnapshotStagingKey \<noteq> None \<and>
     as_hash ks kMachinesKey \<noteq> None \<and> finite (dom (h_snaps H))"

text \<open>The newest version is the current one, or there is none.\<close>

definition head_complete :: "history \<Rightarrow> bool" where
  "head_complete H \<longleftrightarrow>
     (if h_version H > 0 then h_version H \<in> dom (h_snaps H) \<and> (\<forall>v \<in> dom (h_snaps H). v \<le> h_version H)
      else dom (h_snaps H) = {})"

definition publish_version :: "history \<Rightarrow> string \<Rightarrow> files \<Rightarrow> history" where
  "publish_version H meta fs =
     \<lparr>h_version = Suc (h_version H), h_snaps = (h_snaps H)(Suc (h_version H) \<mapsto> (meta, fs)), h_mirror = fs\<rparr>"

definition spec_save :: "history \<Rightarrow> nat \<Rightarrow> string \<Rightarrow> files \<Rightarrow> int \<times> history" where
  "spec_save H base meta fs =
     (if base \<noteq> h_version H then (-1, H)
      else if \<not> head_complete H then (-5, H)
      else (int (Suc base), publish_version H meta fs))"

subsection \<open>Reading the representation\<close>

lemma dec_val_int [simp]: "dec_val (dec_of_int (int v)) = v"
  by (simp add: dec_of_int_def)

lemma by_member_dec [simp]: "by_member g (dec_of_int (int v)) = g v"
  by (simp add: by_member_def)

lemma by_member_cong: "(\<And>v. g v = h v) \<Longrightarrow> by_member g = by_member h"
  by (simp add: by_member_def fun_eq_iff)

lemma by_member_upd: "(by_member g)(dec_of_int (int v) \<mapsto> x) = by_member (g(v \<mapsto> x))"
proof
  fix m
  show "((by_member g)(dec_of_int (int v) \<mapsto> x)) m = by_member (g(v \<mapsto> x)) m"
    by (cases "m = dec_of_int (int v)") (auto simp: by_member_def)
qed

lemma by_member_empty: "by_member g = Map.empty \<longleftrightarrow> dom g = {}"
proof
  assume a: "by_member g = Map.empty"
  have "g v = None" for v using arg_cong [OF a, of "\<lambda>f. f (dec_of_int (int v))"] by simp
  then show "dom g = {}" by auto
qed (auto simp: by_member_def fun_eq_iff)

lemma dom_by_member: "dom (by_member g) = (\<lambda>v. dec_of_int (int v)) ` dom g"
proof (intro equalityI subsetI)
  fix m
  assume "m \<in> dom (by_member g)"
  then have "m = dec_of_int (int (dec_val m))" "dec_val m \<in> dom g" by (auto simp: by_member_def split: if_splits)
  then show "m \<in> (\<lambda>v. dec_of_int (int v)) ` dom g" by (rule image_eqI)
qed auto

lemma zlist_by_member:
  assumes "finite (dom g)" and "\<And>v. v \<in> dom g \<Longrightarrow> g v = Some (rat_of_nat v)"
  shows "zlist (by_member g) = map (\<lambda>v. dec_of_int (int v)) (sorted_list_of_set (dom g))"
proof -
  let ?f = "\<lambda>v. (rat_of_nat v, dec_of_int (int v))" and ?xs = "sorted_list_of_set (dom g)"
  have "(\<lambda>m. (the (by_member g m), m)) ` dom (by_member g) = (\<lambda>v. (the (g v), dec_of_int (int v))) ` dom g"
    by (simp add: dom_by_member image_image)
  also have "\<dots> = ?f ` dom g" using assms(2) by (intro image_cong) auto
  also have "\<dots> = set (map ?f ?xs)" using assms(1) by simp
  finally have "sorted_list_of_set ((\<lambda>m. (the (by_member g m), m)) ` dom (by_member g)) = map ?f ?xs"
  proof (simp only:, intro sorted_list_of_set.idem_if_sorted_distinct)
    show "sorted (map ?f ?xs)"
      unfolding sorted_map by (rule sorted_wrt_mono_rel [OF _ strict_sorted_list_of_set]) auto
    show "distinct (map ?f ?xs)" by (auto simp: distinct_map inj_on_def)
  qed
  then show ?thesis by (simp add: zlist_def comp_def)
qed

lemma zset_top:
  assumes "finite (dom g)" and "\<And>v. v \<in> dom g \<Longrightarrow> g v = Some (rat_of_nat v)"
  shows "slice 0 0 (rev (zlist (by_member g))) = (if dom g = {} then [] else [dec_of_int (int (Max (dom g)))])"
proof (cases "dom g = {}")
  case False
  let ?xs = "sorted_list_of_set (dom g)"
  have ne: "?xs \<noteq> []" using False assms(1) by simp
  have "last ?xs = Max (dom g)"
  proof (rule Max_eqI [symmetric])
    fix y assume "y \<in> dom g"
    then have "y \<in> set ?xs" using assms(1) by simp
    then obtain i where "i < length ?xs" "?xs ! i = y" by (auto simp: in_set_conv_nth)
    then show "y \<le> last ?xs" using ne by (auto simp: last_conv_nth intro!: sorted_nth_mono)
  qed (use assms(1) last_in_set [OF ne] in auto)
  moreover have "rev ?xs = last ?xs # tl (rev ?xs)" using ne by (metis hd_rev list.collapse rev_is_Nil_conv)
  ultimately have "rev (zlist (by_member g)) = dec_of_int (int (Max (dom g))) # map (\<lambda>v. dec_of_int (int v)) (tl (rev ?xs))"
    using zlist_by_member [OF assms] by (metis list.simps(9) rev_map)
  with False show ?thesis by (simp add: slice_def)
qed (use zlist_by_member [OF assms] assms in \<open>simp add: slice_def\<close>)

lemma as_hash_with: "as_hash ks k = Some h \<Longrightarrow> with_hash ks k f = f h"
  by (auto simp: as_hash_def with_hash_def split: option.splits rvalue.splits)

lemma as_zset_with: "as_zset ks k = Some z \<Longrightarrow> with_zset ks k f = f z"
  by (auto simp: as_zset_def with_zset_def split: option.splits rvalue.splits)

lemma as_upd [simp]:
  "k \<noteq> k' \<Longrightarrow> as_hash (ks(k' := x)) k = as_hash ks k" "k \<noteq> k' \<Longrightarrow> as_zset (ks(k' := x)) k = as_zset ks k"
  "k \<noteq> k' \<Longrightarrow> as_list (ks(k' := x)) k = as_list ks k"
  "as_hash (ks(k \<mapsto> RHash h)) k = Some h" "as_hash (ks(k := None)) k = Some Map.empty" "as_zset (ks(k \<mapsto> RZset z)) k = Some z"
  by (simp_all add: as_hash_def as_zset_def as_list_def)

lemma append_audit_ks:
  "k \<noteq> a \<Longrightarrow> append_audit ks_exec a l ks k = ks k"
  "as_list ks a \<noteq> None \<Longrightarrow> as_list (append_audit ks_exec a l ks) a \<noteq> None"
  by (auto simp: append_audit_def with_list_def as_list_def store_list_def wrongtype_def
      split: option.splits rvalue.splits prod.splits sum.splits)

lemma as_audit [simp]:
  "k \<noteq> a \<Longrightarrow> as_hash (append_audit ks_exec a l ks) k = as_hash ks k"
  "k \<noteq> a \<Longrightarrow> as_zset (append_audit ks_exec a l ks) k = as_zset ks k"
  by (simp_all add: as_hash_def as_zset_def append_audit_ks(1))

lemma represents_audit: "represents ks H \<Longrightarrow> represents (append_audit ks_exec kAuditKey l ks) H"
  unfolding represents_def by (simp add: append_audit_ks)

lemma stage_hash_ks:
  "fs \<noteq> [] \<Longrightarrow> a \<noteq> b \<Longrightarrow> stage_hash ks_exec a b fs ks f = f (ks(a := None, b \<mapsto> RHash (map_of (rev fs))))"
  by (simp add: stage_hash_def rcall_def with_hash_def)

lemma check_types_ks:
  "(\<forall>(k, t) \<in> set (zip keys ex). ks k = None \<or> (\<exists>v. ks k = Some v \<and> type_name v = t)) \<Longrightarrow> length keys \<le> length ex \<Longrightarrow>
   check_types ks_exec keys ex ks bad f = f ks"
proof (induction keys arbitrary: ex)
  case (Cons k keys)
  then obtain e es where "ex = e # es" by (cases ex) auto
  with Cons show ?case by (auto simp: rcall_def split: option.split)
qed simp

section \<open>Saving\<close>

text \<open>The keys and arguments of a save.\<close>

definition save_keys :: "int \<Rightarrow> string list" where
  "save_keys base = [kVersionKey, kFilesKey, kAuditKey, kStagingKey, kMetaKey, kIndexKey, snapshot_key (base + 1),
     kSnapshotStagingKey, snapshot_key base]"

definition file_args :: "(string \<times> string) list \<Rightarrow> string list" where
  "file_args fs = concat (map (\<lambda>(n, c). [n, c]) fs)"

definition limit_args :: "history_config \<Rightarrow> string list" where
  "limit_args cfg = [dec_of_nat (hc_max_files cfg), dec_of_nat (hc_max_file_bytes cfg), dec_of_nat (hc_max_snapshot_bytes cfg)]"

definition save_argv :: "history_config \<Rightarrow> int \<Rightarrow> string \<Rightarrow> string \<Rightarrow> (string \<times> string) list \<Rightarrow> string list" where
  "save_argv cfg base audit meta fs = [dec_of_int base, audit, meta] @ limit_args cfg @ file_args fs"

text \<open>What the request has passed before the script is called: at least one file, within the limits of the configuration.\<close>

definition files_fit :: "history_config \<Rightarrow> (string \<times> string) list \<Rightarrow> bool" where
  "files_fit cfg fs \<longleftrightarrow>
     fs \<noteq> [] \<and> length fs \<le> hc_max_files cfg \<and> (\<forall>(n, c) \<in> set fs. length c \<le> hc_max_file_bytes cfg) \<and>
     sum_list (map (\<lambda>(n, c). length c) fs) \<le> hc_max_snapshot_bytes cfg \<and>
     hc_max_files cfg < 10 ^ 14 \<and> hc_max_file_bytes cfg < 10 ^ 14 \<and> hc_max_snapshot_bytes cfg < 10 ^ 14"

definition small_history :: "history \<Rightarrow> bool" where
  "small_history H \<longleftrightarrow> h_version H + 1 < 10 ^ 14 \<and> (\<forall>v \<in> dom (h_snaps H). v < 10 ^ 14)"

lemma lua_nat:
  assumes "lua_ok L" and "n < 10 ^ 14"
  shows "lu_tonumber L (dec_of_int (int n)) = Some (rat_of_nat n)" "lu_tostring L (rat_of_nat n) = dec_of_int (int n)"
    "lu_tonumber L (dec_of_nat n) = Some (rat_of_nat n)"
  using assms(1) [unfolded lua_ok_def, rule_format, of "int n"] assms(2) by (simp_all add: dec_of_int_def)

lemma arg_pairs_file_args [simp]: "arg_pairs (file_args fs) = fs" "even (length (file_args fs))"
  "length (file_args fs) = 2 * length fs"
  by (induction fs) (auto simp: file_args_def)

lemma within_capacity_fit:
  "(\<forall>(n, c) \<in> set fs. length c \<le> a) \<Longrightarrow> t + sum_list (map (\<lambda>(n, c). length c) fs) \<le> b \<Longrightarrow>
   within_capacity (rat_of_nat a) (rat_of_nat b) t fs"
  by (induction fs arbitrary: t) (auto simp: not_less simp flip: of_nat_add)

lemma represents_dest:
  assumes "represents ks H"
  shows "as_hash ks kMetaKey = Some (by_member (\<lambda>v. map_option fst (h_snaps H v)))"
    and "as_zset ks kIndexKey = Some (by_member (\<lambda>v. map_option (\<lambda>_. rat_of_nat v) (h_snaps H v)))"
    and "ks (snapshot_key (int v)) = map_option (\<lambda>x. RHash (snd x)) (h_snaps H v)"
    and "finite (dom (h_snaps H))" and "as_hash ks kFilesKey = Some (h_mirror H)"
    and "ks kVersionKey = Some (RString (dec_of_int (int (h_version H)))) \<or> h_version H = 0 \<and> ks kVersionKey = None"
  using assms unfolding represents_def by blast+

lemma dom_map_option [simp]: "dom (\<lambda>v. map_option (f v) (g v)) = dom g"
  by (auto simp: dom_def)

lemma index_top:
  assumes "represents ks H"
  shows "ks_exec ks (ZREVRANGE kIndexKey 0 0) =
    (Inr (LArr (if dom (h_snaps H) = {} then [] else [dec_of_int (int (Max (dom (h_snaps H))))])), ks)"
proof -
  let ?g = "\<lambda>v. map_option (\<lambda>_. rat_of_nat v) (h_snaps H v)"
  have "slice 0 0 (rev (zlist (by_member ?g))) = (if dom ?g = {} then [] else [dec_of_int (int (Max (dom ?g)))])"
    by (rule zset_top) (use represents_dest(4) [OF assms] in auto)
  then show ?thesis using as_zset_with [OF represents_dest(2) [OF assms]] by simp
qed

lemma rep_commands:
  assumes "represents ks H"
  shows "ks_exec ks (HGET kMetaKey (dec_of_int (int v))) = (Inr (opt_str (map_option fst (h_snaps H v))), ks)"
    and "ks_exec ks (HEXISTS kMetaKey (dec_of_int (int v))) = (Inr (num_of (if h_snaps H v = None then 0 else 1)), ks)"
    and "ks_exec ks (EXISTS (snapshot_key (int v))) = (Inr (num_of (if h_snaps H v = None then 0 else 1)), ks)"
    and "ks_exec ks (ZSCORE kIndexKey (dec_of_int (int v))) = (Inr (if h_snaps H v = None then LFalse else LStr ''score''), ks)"
    and "ks_exec ks (ZCARD kIndexKey) = (Inr (num_of (card (dom (h_snaps H)))), ks)"
    and "ks_exec ks (HLEN kMetaKey) = (Inr (num_of (card (dom (h_snaps H)))), ks)"
proof -
  have inj: "inj (\<lambda>v. dec_of_int (int v))" by (auto simp: inj_def dec_of_int_inj)
  have card: "card (dom (by_member (\<lambda>v. map_option (f v) (h_snaps H v)))) = card (dom (h_snaps H))" for f :: "nat \<Rightarrow> _ \<Rightarrow> 'b"
    by (simp add: dom_by_member card_image inj_on_subset [OF inj])
  note r = as_hash_with [OF represents_dest(1) [OF assms]] as_zset_with [OF represents_dest(2) [OF assms]]
    represents_dest(3) [OF assms]
  show "ks_exec ks (HGET kMetaKey (dec_of_int (int v))) = (Inr (opt_str (map_option fst (h_snaps H v))), ks)"
    "ks_exec ks (HEXISTS kMetaKey (dec_of_int (int v))) = (Inr (num_of (if h_snaps H v = None then 0 else 1)), ks)"
    "ks_exec ks (EXISTS (snapshot_key (int v))) = (Inr (num_of (if h_snaps H v = None then 0 else 1)), ks)"
    "ks_exec ks (ZSCORE kIndexKey (dec_of_int (int v))) = (Inr (if h_snaps H v = None then LFalse else LStr ''score''), ks)"
    by (simp_all add: r split: option.split)
  show "ks_exec ks (ZCARD kIndexKey) = (Inr (num_of (card (dom (h_snaps H)))), ks)"
    "ks_exec ks (HLEN kMetaKey) = (Inr (num_of (card (dom (h_snaps H)))), ks)"
    by (simp_all add: r card)
qed

lemma rep_rcall:
  assumes "represents ks H"
  shows "rcall ks_exec ks (ZREVRANGE kIndexKey 0 0) f =
      f (LArr (if dom (h_snaps H) = {} then [] else [dec_of_int (int (Max (dom (h_snaps H))))])) ks"
    and "rcall ks_exec ks (HGET kMetaKey (dec_of_int (int v))) f = f (opt_str (map_option fst (h_snaps H v))) ks"
    and "rcall ks_exec ks (HEXISTS kMetaKey (dec_of_int (int v))) f = f (num_of (if h_snaps H v = None then 0 else 1)) ks"
    and "rcall ks_exec ks (EXISTS (snapshot_key (int v))) f = f (num_of (if h_snaps H v = None then 0 else 1)) ks"
    and "rcall ks_exec ks (ZSCORE kIndexKey (dec_of_int (int v))) f = f (if h_snaps H v = None then LFalse else LStr ''score'') ks"
    and "rcall ks_exec ks (ZCARD kIndexKey) f = f (num_of (card (dom (h_snaps H)))) ks"
    and "rcall ks_exec ks (HLEN kMetaKey) f = f (num_of (card (dom (h_snaps H)))) ks"
  by (simp_all only: rcall_def index_top [OF assms] rep_commands [OF assms] prod.case sum.case)

lemma num_of_eq [simp]: "num_of a = LNum 0 \<longleftrightarrow> a = 0" "num_of a = LNum 1 \<longleftrightarrow> a = 1" "num_of a = num_of b \<longleftrightarrow> a = b"
  by (auto simp: num_of_def)

lemma check_head_rep:
  assumes "represents ks H" and "lua_ok L" and "small_history H"
  shows "check_head ks_exec L kMetaKey kIndexKey (snapshot_key (int (h_version H))) (rat_of_nat (h_version H)) ks f =
    (if head_complete H then f ks else ret (-5) ks)"
proof (cases "dom (h_snaps H) = {}")
  case True
  then show ?thesis
    by (auto simp: check_head_def rep_rcall [OF assms(1)] head_complete_def)
next
  case False
  let ?m = "Max (dom (h_snaps H))"
  have fin: "finite (dom (h_snaps H))" by (rule represents_dest(4) [OF assms(1)])
  then have m: "?m \<in> dom (h_snaps H)" "\<forall>v \<in> dom (h_snaps H). v \<le> ?m" using False by auto
  have "?m < 10 ^ 14" "h_version H < 10 ^ 14" using assms(3) m(1) by (auto simp: small_history_def)
  note num = lua_nat(1) [OF assms(2) this(1)] lua_nat(1,2) [OF assms(2) this(2)]
  have complete: "head_complete H \<longleftrightarrow> h_version H > 0 \<and> ?m = h_version H"
    unfolding head_complete_def Max_eq_iff [OF fin False] using False by simp
  show ?thesis
    using False m(1) complete
    by (auto simp: check_head_def rep_rcall [OF assms(1)] num opt_str_def)
qed

text \<open>The last part of a save or a rollback, on a history whose head is complete.\<close>

lemma represents_published:
  assumes "represents ks H"
  shows "represents (ks(kSnapshotStagingKey := None, snapshot_key (int (Suc (h_version H))) \<mapsto> RHash fs,
      kMetaKey \<mapsto> RHash (by_member ((\<lambda>v. map_option fst (h_snaps H v))(Suc (h_version H) \<mapsto> m))),
      kIndexKey \<mapsto> RZset (by_member ((\<lambda>v. map_option (\<lambda>_. rat_of_nat v) (h_snaps H v))(Suc (h_version H) \<mapsto> rat_of_nat (Suc (h_version H))))),
      kStagingKey := None, kFilesKey \<mapsto> RHash fs, kVersionKey \<mapsto> RString (dec_of_int (int (Suc (h_version H))))))
    (publish_version H m fs)"
proof -
  have r: "as_hash ks kMetaKey = Some (by_member (\<lambda>v. map_option fst (h_snaps H v)))"
    "as_list ks kAuditKey \<noteq> None" "as_hash ks kMachinesKey \<noteq> None" "finite (dom (h_snaps H))"
    "\<And>v. ks (snapshot_key (int v)) = map_option (\<lambda>x. RHash (snd x)) (h_snaps H v)"
    using assms unfolding represents_def by blast+
  have meta: "(\<lambda>v. map_option fst (h_snaps H v))(Suc (h_version H) \<mapsto> m) =
      (\<lambda>v. map_option fst (((h_snaps H)(Suc (h_version H) \<mapsto> (m, fs))) v))"
    and index: "(\<lambda>v. map_option (\<lambda>_. rat_of_nat v) (h_snaps H v))(Suc (h_version H) \<mapsto> rat_of_nat (Suc (h_version H))) =
      (\<lambda>v. map_option (\<lambda>_. rat_of_nat v) (((h_snaps H)(Suc (h_version H) \<mapsto> (m, fs))) v))"
    by (auto simp: fun_eq_iff)
  show ?thesis
    unfolding represents_def publish_version_def meta index history.simps
  proof (intro conjI allI)
    fix v
    show "(ks(kSnapshotStagingKey := None, snapshot_key (int (Suc (h_version H))) \<mapsto> RHash fs,
        kMetaKey \<mapsto> RHash (by_member (\<lambda>v. map_option fst (((h_snaps H)(Suc (h_version H) \<mapsto> (m, fs))) v))),
        kIndexKey \<mapsto> RZset (by_member (\<lambda>v. map_option (\<lambda>_. rat_of_nat v) (((h_snaps H)(Suc (h_version H) \<mapsto> (m, fs))) v))),
        kStagingKey := None, kFilesKey \<mapsto> RHash fs, kVersionKey \<mapsto> RString (dec_of_int (int (Suc (h_version H))))))
        (snapshot_key (int v)) =
      map_option (\<lambda>x. RHash (snd x)) (((h_snaps H)(Suc (h_version H) \<mapsto> (m, fs))) v)"
      by (simp add: r)
  qed (simp_all add: r)
qed

lemma lua_int_of_nat: "lua_int (rat_of_nat n) = int n"
  using lua_int_of_int [of "int n"] by simp

lemma rcall_hset1:
  "as_hash ks k = Some h \<Longrightarrow> rcall ks_exec ks (HSET k [(x, y)]) (\<lambda>_ s. f s) = f (ks(k \<mapsto> RHash (h(x \<mapsto> y))))"
  by (simp add: rcall_def as_hash_with)

lemma rcall_zadd:
  "as_zset ks k = Some z \<Longrightarrow> rcall ks_exec ks (ZADD k sc x) (\<lambda>_ s. f s) = f (ks(k \<mapsto> RZset (z(x \<mapsto> sc))))"
  by (simp add: rcall_def as_zset_with)

lemma int_text_dec: "n < 2 ^ 63 \<Longrightarrow> int_text (dec_of_int (int n)) = Some (int n)"
  using dec_of_nat_digits [of n] dec_of_nat_hd [of n]
  by (simp add: int_text_def from_chars_int64_def dec_of_int_def Let_def list_all_iff)

lemma rcall_incr:
  assumes "ks k = Some (RString (dec_of_int (int n))) \<or> n = 0 \<and> ks k = None" and "n + 1 < 10 ^ 14"
  shows "rcall ks_exec ks (INCR k) f = f (LNum (rat_of_nat (Suc n))) (ks(k \<mapsto> RString (dec_of_int (int (Suc n)))))"
proof -
  have "int_text (dec_of_int (int n)) = Some (int n)" using assms(2) by (intro int_text_dec) simp
  with assms show ?thesis by (auto simp: rcall_def add.commute)
qed

lemma publish_rep:
  assumes rep: "represents ks H" and L: "lua_ok L" and small: "small_history H" and complete: "head_complete H"
    and fs: "fs \<noteq> []"
    and keys: "take 8 keys = take 8 (save_keys (int (h_version H)))"
  shows "\<exists>ks'. publish ks_exec L keys (rat_of_nat (h_version H)) fs a m ks = ret (int (Suc (h_version H))) ks' \<and>
    represents ks' (publish_version H m (map_of (rev fs)))"
proof -
  let ?v = "h_version H"
  have len: "length (save_keys (int ?v)) = 9" by (simp add: save_keys_def)
  then have "length keys \<ge> 8" using arg_cong [OF keys, of length] by simp
  with len have key: "arg_at keys i = arg_at (save_keys (int ?v)) i" if "i \<le> 8" "0 < i" for i
    using arg_cong [OF keys, of "\<lambda>xs. xs ! (i - 1)"] that by (simp add: arg_at_def)
  have K: "arg_at keys 1 = kVersionKey" "arg_at keys 2 = kFilesKey" "arg_at keys 3 = kAuditKey" "arg_at keys 4 = kStagingKey"
    "arg_at keys 5 = kMetaKey" "arg_at keys 6 = kIndexKey" "arg_at keys 7 = snapshot_key (int (Suc ?v))"
    "arg_at keys 8 = kSnapshotStagingKey"
    by (simp_all add: key) (simp_all add: arg_at_def save_keys_def add.commute)
  have fresh: "h_snaps H (Suc ?v) = None"
    using complete by (auto simp: head_complete_def split: if_splits) (metis domI not_less_eq_eq order_refl option.exhaust)
  have newv: "rat_of_nat ?v + 1 = rat_of_nat (Suc ?v)" by simp
  have member: "lu_tostring L (rat_of_nat (Suc ?v)) = dec_of_int (int (Suc ?v))"
    by (rule lua_nat(2) [OF L]) (use small in \<open>simp add: small_history_def\<close>)
  let ?F = "map_of (rev fs)"
  let ?ks1 = "ks(kSnapshotStagingKey := None, snapshot_key (int (Suc ?v)) \<mapsto> RHash ?F)"
  let ?meta = "by_member ((\<lambda>v. map_option fst (h_snaps H v))(Suc ?v \<mapsto> m))"
  let ?index = "by_member ((\<lambda>v. map_option (\<lambda>_. rat_of_nat v) (h_snaps H v))(Suc ?v \<mapsto> rat_of_nat (Suc ?v)))"
  let ?ks5 = "?ks1(kMetaKey \<mapsto> RHash ?meta, kIndexKey \<mapsto> RZset ?index, kStagingKey := None, kFilesKey \<mapsto> RHash ?F)"
  have hset: "rcall ks_exec ?ks1 (HSET kMetaKey [(dec_of_int (int (Suc ?v)), m)]) (\<lambda>_ s. g s) = g (?ks1(kMetaKey \<mapsto> RHash ?meta))"
    for g :: "keyspace \<Rightarrow> (string + int) \<times> keyspace"
  proof -
    have "as_hash ?ks1 kMetaKey = Some (by_member (\<lambda>v. map_option fst (h_snaps H v)))" using represents_dest(1) [OF rep] by simp
    then show ?thesis unfolding by_member_upd [symmetric] by (rule rcall_hset1)
  qed
  have zadd: "rcall ks_exec (?ks1(kMetaKey \<mapsto> RHash ?meta)) (ZADD kIndexKey (rat_of_nat (Suc ?v)) (dec_of_int (int (Suc ?v))))
      (\<lambda>_ s. g s) = g (?ks1(kMetaKey \<mapsto> RHash ?meta, kIndexKey \<mapsto> RZset ?index))" for g :: "keyspace \<Rightarrow> (string + int) \<times> keyspace"
  proof -
    have "as_zset (?ks1(kMetaKey \<mapsto> RHash ?meta)) kIndexKey = Some (by_member (\<lambda>v. map_option (\<lambda>_. rat_of_nat v) (h_snaps H v)))"
      using represents_dest(2) [OF rep] by simp
    then show ?thesis unfolding by_member_upd [symmetric] by (rule rcall_zadd)
  qed
  have incr: "rcall ks_exec ?ks5 (INCR kVersionKey) g =
      g (LNum (rat_of_nat (Suc ?v))) (?ks5(kVersionKey \<mapsto> RString (dec_of_int (int (Suc ?v)))))" for g :: "lval \<Rightarrow> keyspace \<Rightarrow> (string + int) \<times> keyspace"
    by (rule rcall_incr) (use represents_dest(6) [OF rep] small in \<open>simp_all add: small_history_def\<close>)
  have "publish ks_exec L keys (rat_of_nat ?v) fs a m ks =
    ret (int (Suc ?v)) (append_audit ks_exec kAuditKey a (?ks5(kVersionKey \<mapsto> RString (dec_of_int (int (Suc ?v))))))"
  proof -
    have "check_fresh ks_exec (snapshot_key (int (Suc ?v))) kMetaKey kIndexKey (dec_of_int (int (Suc ?v))) ks g = g ks"
      for g :: "keyspace \<Rightarrow> (string + int) \<times> keyspace"
      unfolding check_fresh_def rep_rcall [OF rep] fresh by simp
    moreover have "kSnapshotStagingKey \<noteq> snapshot_key (int (Suc ?v))" by simp
    ultimately show ?thesis
      unfolding publish_def Let_def K newv member
      by (simp only: stage_hash_ks [OF fs] hset zadd stage_hash_ks [OF fs key_neq_sym(9)] incr lval.case simp_thms if_False
          lua_int_of_nat)
  qed
  then show ?thesis using represents_audit [OF represents_published [OF rep, of ?F m]] by blast
qed

lemma represents_types:
  assumes "represents ks H"
  shows "as_hash ks kFilesKey \<noteq> None" "as_list ks kAuditKey \<noteq> None" "as_hash ks kStagingKey \<noteq> None" "as_hash ks kMetaKey \<noteq> None"
    "as_zset ks kIndexKey \<noteq> None" "as_hash ks kSnapshotStagingKey \<noteq> None" "as_hash ks kMachinesKey \<noteq> None"
    "as_hash ks (snapshot_key (int v)) \<noteq> None"
  using assms unfolding represents_def by (auto simp: as_hash_def [of ks "snapshot_key _"] split: option.split)

lemma as_types:
  "as_hash ks k \<noteq> None \<Longrightarrow> ks k = None \<or> (\<exists>v. ks k = Some v \<and> type_name v = ''hash'')"
  "as_list ks k \<noteq> None \<Longrightarrow> ks k = None \<or> (\<exists>v. ks k = Some v \<and> type_name v = ''list'')"
  "as_zset ks k \<noteq> None \<Longrightarrow> ks k = None \<or> (\<exists>v. ks k = Some v \<and> type_name v = ''zset'')"
  by (auto simp: as_hash_def as_list_def as_zset_def split: option.splits rvalue.splits)

lemmas rep_types = represents_types(1,3,4,6,7,8) [THEN as_types(1)] represents_types(2) [THEN as_types(2)]
  represents_types(5) [THEN as_types(3)]

lemma version_type: "represents ks H \<Longrightarrow> ks kVersionKey = None \<or> (\<exists>v. ks kVersionKey = Some v \<and> type_name v = ''string'')"
  by (auto dest: represents_dest(6))

lemma rcall_version:
  assumes "represents ks H" and "lua_ok L" and "small_history H"
  shows "rcall ks_exec ks (GET kVersionKey) (\<lambda>v s. case number_or L ''0'' v of None \<Rightarrow> e v s | Some cur \<Rightarrow> f cur s) =
    f (rat_of_nat (h_version H)) ks"
proof -
  have "h_version H < 10 ^ 14" using assms(3) by (simp add: small_history_def)
  note n = lua_nat(1) [OF assms(2) this]
  moreover have "lu_tonumber L ''0'' = Some 0" using lua_nat(3) [OF assms(2), of 0] by (simp add: dec_of_nat.simps char_of_def bit_iff_odd)
  ultimately show ?thesis
    using represents_dest(6) [OF assms(1)] by (auto simp: rcall_def number_or_def)
qed

lemma save_keys_types:
  assumes "represents ks H"
  shows "check_types ks_exec (save_keys (int b)) (take 9 save_expected) ks bad f = f ks"
  by (rule check_types_ks)
    (use rep_types [OF assms] version_type [OF assms] rep_types(6) [OF assms, of "Suc b"] in
      \<open>simp_all add: save_keys_def save_expected_def add.commute\<close>)

lemma save_script_rep:
  assumes rep: "represents ks H" and L: "lua_ok L" and small: "small_history H" and base: "base < 10 ^ 14" and fit: "files_fit cfg fs"
  shows "\<exists>ks'. save_script ks_exec L (save_keys (int base)) (save_argv cfg (int base) audit meta fs) ks =
      ret (fst (spec_save H base meta (map_of (rev fs)))) ks' \<and>
    represents ks' (snd (spec_save H base meta (map_of (rev fs))))"
proof -
  let ?keys = "save_keys (int base)" and ?argv = "save_argv cfg (int base) audit meta fs"
  have ne: "fs \<noteq> []" and len: "length fs \<le> hc_max_files cfg" using fit by (simp_all add: files_fit_def)
  have argv: "length ?argv = 6 + 2 * length fs" "drop 6 ?argv = file_args fs" "arg_at ?argv 1 = dec_of_int (int base)"
    "arg_at ?argv 2 = audit" "arg_at ?argv 3 = meta" "arg_at ?argv 4 = dec_of_nat (hc_max_files cfg)"
    "arg_at ?argv 5 = dec_of_nat (hc_max_file_bytes cfg)" "arg_at ?argv 6 = dec_of_nat (hc_max_snapshot_bytes cfg)"
    by (simp_all add: save_argv_def limit_args_def arg_at_def)
  have keys: "arg_at ?keys 1 = kVersionKey" "arg_at ?keys 5 = kMetaKey" "arg_at ?keys 6 = kIndexKey"
    "arg_at ?keys 9 = snapshot_key (int base)"
    by (simp_all add: save_keys_def arg_at_def)
  have num: "lu_tonumber L (dec_of_int (int base)) = Some (rat_of_nat base)"
    "lu_tonumber L (dec_of_nat (hc_max_files cfg)) = Some (rat_of_nat (hc_max_files cfg))"
    "lu_tonumber L (dec_of_nat (hc_max_file_bytes cfg)) = Some (rat_of_nat (hc_max_file_bytes cfg))"
    "lu_tonumber L (dec_of_nat (hc_max_snapshot_bytes cfg)) = Some (rat_of_nat (hc_max_snapshot_bytes cfg))"
    using fit unfolding files_fit_def by (blast intro: lua_nat [OF L] base)+
  have cap: "within_capacity (rat_of_nat (hc_max_file_bytes cfg)) (rat_of_nat (hc_max_snapshot_bytes cfg)) 0 fs"
    by (rule within_capacity_fit) (use fit in \<open>auto simp: files_fit_def\<close>)
  have "save_script ks_exec L ?keys ?argv ks =
      (if h_version H \<noteq> base then ret (-1) ks
       else check_head ks_exec L kMetaKey kIndexKey (snapshot_key (int base)) (rat_of_nat (h_version H)) ks
         (publish ks_exec L ?keys (rat_of_nat base) fs audit meta))"
    unfolding save_script_def Let_def argv arg_pairs_file_args keys num
    using ne len cap by (simp add: save_keys_types [OF rep] rcall_version [OF rep L small])
  moreover have "\<exists>ks'. publish ks_exec L ?keys (rat_of_nat base) fs audit meta ks = ret (int (Suc base)) ks' \<and>
      represents ks' (publish_version H meta (map_of (rev fs)))" if "h_version H = base" "head_complete H"
    using publish_rep [OF rep L small that(2) ne] that(1) by blast
  ultimately show ?thesis
    using check_head_rep [OF rep L small] rep by (auto simp: spec_save_def)
qed

text \<open>
  C29. Saving refines the abstract operation: it is refused with \<open>-1\<close> when the base is not the current version and with \<open>-5\<close>
  when the head of the history is incomplete, the history being as it was; otherwise the next version is published with its
  metadata and files, the older versions are untouched, and the mirror holds the files of the new version.
\<close>

theorem save_refines:
  assumes "serves srv view" and "lua_ok L" and "represents (view s) H" and "small_history H" and "base < 10 ^ 14"
    and "files_fit cfg fs"
  shows "(let res = save_script srv L (save_keys (int base)) (save_argv cfg (int base) audit meta fs) s;
      spec = spec_save H base meta (map_of (rev fs))
    in fst res = Inr (fst spec) \<and> represents (view (snd res)) (snd spec))"
  using sim_save_script [OF assms(1), of L "save_keys (int base)" "save_argv cfg (int base) audit meta fs" s]
    save_script_rep [OF assms(3,2,4-6), of audit meta]
  by (auto simp: Let_def sim_def ret_def)

section \<open>Rolling back\<close>

definition rollback_keys :: "int \<Rightarrow> int \<Rightarrow> string list" where
  "rollback_keys base target = [kVersionKey, kFilesKey, kAuditKey, kStagingKey, kMetaKey, kIndexKey, snapshot_key (base + 1),
     kSnapshotStagingKey, snapshot_key target, snapshot_key base]"

definition rollback_argv ::
  "history_config \<Rightarrow> int \<Rightarrow> int \<Rightarrow> string \<Rightarrow> string \<Rightarrow> string \<Rightarrow> (string \<times> string) list \<Rightarrow> string list" where
  "rollback_argv cfg base target audit meta source fs =
     [dec_of_int base, audit, meta] @ limit_args cfg @ [source, dec_of_int target] @ file_args fs"

definition spec_rollback :: "history \<Rightarrow> nat \<Rightarrow> nat \<Rightarrow> string \<Rightarrow> string \<Rightarrow> files \<Rightarrow> int \<times> history" where
  "spec_rollback H base target meta source fs =
     (if base \<noteq> h_version H then (-1, H)
      else if \<not> head_complete H then (-5, H)
      else if target > h_version H \<or> h_snaps H target \<noteq> Some (source, fs) then (-9, H)
      else (int (Suc base), publish_version H meta fs))"

lemma compare_files_ks:
  "ks k = Some (RHash h) \<Longrightarrow>
   compare_files ks_exec k fs ks f = (if \<forall>(n, c) \<in> set fs. h n = Some c then f ks else ret (-9) ks)"
  by (induction fs) (auto simp: rcall_def with_hash_def opt_str_def split: option.splits)

lemma map_of_sub_card:
  assumes "distinct (map fst fs)" and "\<forall>(n, c) \<in> set fs. h n = Some c" and "card (dom h) = length fs" and "fs \<noteq> []"
  shows "h = map_of fs"
proof -
  have sub: "map_of fs \<subseteq>\<^sub>m h" using assms(1,2) by (fastforce simp: map_le_def)
  have "finite (dom h)" using assms(3,4) by (metis card.infinite length_0_conv)
  moreover have "card (dom (map_of fs)) = card (dom h)"
    using assms(1,3) by (metis distinct_card dom_map_of_conv_image_fst length_map list.set_map)
  ultimately have "dom (map_of fs) = dom h" using map_le_implies_dom_le [OF sub] by (metis card_subset_eq)
  then show ?thesis using sub by (auto simp: map_le_def fun_eq_iff) (metis domD domIff)
qed

lemma check_record_rep:
  assumes rep: "represents ks H" and fs: "distinct (map fst fs)" "fs \<noteq> []" and snap: "h_snaps H t = Some (m, F)"
  shows "check_record ks_exec kMetaKey kIndexKey (snapshot_key (int t)) (dec_of_int (int t)) source fs ks
      (\<lambda>s. compare_files ks_exec (snapshot_key (int t)) fs s f) =
    (if h_snaps H t = Some (source, map_of fs) then f ks else ret (-9) ks)"
proof -
  have ks: "ks (snapshot_key (int t)) = Some (RHash F)" using represents_dest(3) [OF rep, of t] snap by simp
  then have len: "rcall ks_exec ks (HLEN (snapshot_key (int t))) g = g (num_of (card (dom F))) ks"
    for g :: "lval \<Rightarrow> keyspace \<Rightarrow> (string + int) \<times> keyspace" by (simp add: rcall_def with_hash_def)
  have "card (dom F) = length fs \<and> (\<forall>(n, c) \<in> set fs. F n = Some c) \<longleftrightarrow> F = map_of fs"
    using map_of_sub_card [OF fs(1) _ _ fs(2)] fs(1)
    by (auto simp: dom_map_of_conv_image_fst intro!: distinct_card) (metis distinct_card length_map list.set_map)
  then show ?thesis
    using snap by (auto simp: check_record_def rep_rcall [OF rep] len compare_files_ks [where h = F and k = "snapshot_key (int t)" and ks = ks, OF ks] count_of_def opt_str_def)
qed

lemma rollback_keys_types:
  assumes "represents ks H"
  shows "check_types ks_exec (rollback_keys (int b) (int t)) save_expected ks bad f = f ks"
  by (rule check_types_ks)
    (use rep_types [OF assms] version_type [OF assms] rep_types(6) [OF assms, of "Suc b"] in
      \<open>simp_all add: rollback_keys_def save_expected_def add.commute\<close>)

lemma map_of_rev: "distinct (map fst fs) \<Longrightarrow> map_of (rev fs) = map_of fs"
  by (rule map_of_inject_set [THEN iffD2]) (simp_all add: rev_map [symmetric])

lemma rollback_script_rep:
  assumes rep: "represents ks H" and L: "lua_ok L" and small: "small_history H" and base: "base < 10 ^ 14" and target: "target < 10 ^ 14"
    and fit: "files_fit cfg fs" and dist: "distinct (map fst fs)"
  shows "\<exists>ks'. rollback_script ks_exec L (rollback_keys (int base) (int target))
        (rollback_argv cfg (int base) (int target) audit meta source fs) ks =
      ret (fst (spec_rollback H base target meta source (map_of fs))) ks' \<and>
    represents ks' (snd (spec_rollback H base target meta source (map_of fs)))"
proof -
  let ?keys = "rollback_keys (int base) (int target)" and ?argv = "rollback_argv cfg (int base) (int target) audit meta source fs"
  have ne: "fs \<noteq> []" and len: "length fs \<le> hc_max_files cfg" using fit by (simp_all add: files_fit_def)
  have argv: "length ?argv = 8 + 2 * length fs" "drop 8 ?argv = file_args fs" "arg_at ?argv 1 = dec_of_int (int base)"
    "arg_at ?argv 2 = audit" "arg_at ?argv 3 = meta" "arg_at ?argv 4 = dec_of_nat (hc_max_files cfg)"
    "arg_at ?argv 5 = dec_of_nat (hc_max_file_bytes cfg)" "arg_at ?argv 6 = dec_of_nat (hc_max_snapshot_bytes cfg)"
    "arg_at ?argv 7 = source" "arg_at ?argv 8 = dec_of_int (int target)"
    by (simp_all add: rollback_argv_def limit_args_def arg_at_def)
  have keys: "arg_at ?keys 1 = kVersionKey" "arg_at ?keys 5 = kMetaKey" "arg_at ?keys 6 = kIndexKey"
    "arg_at ?keys 9 = snapshot_key (int target)" "arg_at ?keys 10 = snapshot_key (int base)"
    by (simp_all add: rollback_keys_def arg_at_def)
  have num: "lu_tonumber L (dec_of_int (int base)) = Some (rat_of_nat base)"
    "lu_tonumber L (dec_of_nat (hc_max_files cfg)) = Some (rat_of_nat (hc_max_files cfg))"
    "lu_tonumber L (dec_of_nat (hc_max_file_bytes cfg)) = Some (rat_of_nat (hc_max_file_bytes cfg))"
    "lu_tonumber L (dec_of_nat (hc_max_snapshot_bytes cfg)) = Some (rat_of_nat (hc_max_snapshot_bytes cfg))"
    "lu_tonumber L (dec_of_int (int target)) = Some (rat_of_nat target)"
    using fit unfolding files_fit_def by (blast intro: lua_nat [OF L] base target)+
  have cap: "within_capacity (rat_of_nat (hc_max_file_bytes cfg)) (rat_of_nat (hc_max_snapshot_bytes cfg)) 0 fs"
    by (rule within_capacity_fit) (use fit in \<open>auto simp: files_fit_def\<close>)
  let ?publish = "publish ks_exec L ?keys (rat_of_nat base) fs audit meta"
  have source: "rcall ks_exec ks (EXISTS (snapshot_key (int target))) (\<lambda>e s.
       if e \<noteq> LNum 1 then ret (-9) s
       else check_record ks_exec kMetaKey kIndexKey (snapshot_key (int target)) (dec_of_int (int target)) source fs s (\<lambda>s.
         compare_files ks_exec (snapshot_key (int target)) fs s f)) =
      (if h_snaps H target = Some (source, map_of fs) then f ks else ret (-9) ks)" for f
    using check_record_rep [OF rep dist ne, of target] by (cases "h_snaps H target") (auto simp: rep_rcall [OF rep] split: if_splits)
  have "rollback_script ks_exec L ?keys ?argv ks =
      (if h_version H \<noteq> base then ret (-1) ks
       else check_head ks_exec L kMetaKey kIndexKey (snapshot_key (int base)) (rat_of_nat (h_version H)) ks (\<lambda>s.
         if target > h_version H then ret (-9) s
         else rcall ks_exec s (EXISTS (snapshot_key (int target))) (\<lambda>e s.
           if e \<noteq> LNum 1 then ret (-9) s
           else check_record ks_exec kMetaKey kIndexKey (snapshot_key (int target)) (dec_of_int (int target)) source fs s (\<lambda>s.
             compare_files ks_exec (snapshot_key (int target)) fs s ?publish))))"
    unfolding rollback_script_def Let_def argv arg_pairs_file_args keys num
    using ne len cap
    by (simp add: rollback_keys_types [OF rep] rcall_version [OF rep L small] lua_nat(2) [OF L target] cong: if_cong)
  moreover have "\<exists>ks'. ?publish ks = ret (int (Suc base)) ks' \<and> represents ks' (publish_version H meta (map_of fs))"
    if "h_version H = base" "head_complete H"
    using publish_rep [OF rep L small that(2) ne, of ?keys audit meta] that(1)
    by (simp add: map_of_rev [OF dist] rollback_keys_def save_keys_def)
  ultimately show ?thesis
    using check_head_rep [OF rep L small] rep by (auto simp: spec_rollback_def source)
qed

text \<open>
  Rolling back refines the abstract operation: besides the refusals of a save, the version aimed at must exist, not above the
  current one, with exactly the metadata and the files the caller read; then those files are published as a new version on top,
  so the history before the rollback stays.
\<close>

lemma rollback_refines:
  assumes "serves srv view" and "lua_ok L" and "represents (view s) H" and "small_history H" and "base < 10 ^ 14" and "target < 10 ^ 14"
    and "files_fit cfg fs" and "distinct (map fst fs)"
  shows "(let res = rollback_script srv L (rollback_keys (int base) (int target))
        (rollback_argv cfg (int base) (int target) audit meta source fs) s;
      spec = spec_rollback H base target meta source (map_of fs)
    in fst res = Inr (fst spec) \<and> represents (view (snd res)) (snd spec))"
  using sim_rollback_script [OF assms(1), of L "rollback_keys (int base) (int target)"
      "rollback_argv cfg (int base) (int target) audit meta source fs" s]
    rollback_script_rep [OF assms(3,2,4-8), of audit meta source]
  by (auto simp: Let_def sim_def ret_def)

section \<open>Concurrent editors\<close>

text \<open>
  The requests of any number of editors reach Redis in some order, and each script runs without interleaving. A change carries the
  version its editor has seen.
\<close>

datatype change =
    Save nat string string "(string \<times> string) list"
  | Rollback nat nat string string string "(string \<times> string) list"

fun change_step :: "'s redis \<Rightarrow> lua_num \<Rightarrow> history_config \<Rightarrow> 's \<Rightarrow> change \<Rightarrow> (string + int) \<times> 's" where
  "change_step srv L cfg s (Save base audit meta fs) =
     save_script srv L (save_keys (int base)) (save_argv cfg (int base) audit meta fs) s"
| "change_step srv L cfg s (Rollback base target audit meta source fs) =
     rollback_script srv L (rollback_keys (int base) (int target))
       (rollback_argv cfg (int base) (int target) audit meta source fs) s"

primrec run_changes :: "'s redis \<Rightarrow> lua_num \<Rightarrow> history_config \<Rightarrow> 's \<Rightarrow> change list \<Rightarrow> (string + int) list \<times> 's" where
  "run_changes srv L cfg s [] = ([], s)"
| "run_changes srv L cfg s (ch # chs) =
     (case change_step srv L cfg s ch of (r, s') \<Rightarrow> apfst ((#) r) (run_changes srv L cfg s' chs))"

fun change_base :: "change \<Rightarrow> nat" where
  "change_base (Save base _ _ _) = base"
| "change_base (Rollback base _ _ _ _ _) = base"

fun change_content :: "change \<Rightarrow> string \<times> files" where
  "change_content (Save _ _ meta fs) = (meta, map_of fs)"
| "change_content (Rollback _ _ _ meta _ fs) = (meta, map_of fs)"

fun change_ok :: "history_config \<Rightarrow> change \<Rightarrow> bool" where
  "change_ok cfg (Save base _ _ fs) \<longleftrightarrow> base < 10 ^ 14 \<and> files_fit cfg fs \<and> distinct (map fst fs)"
| "change_ok cfg (Rollback base target _ _ _ fs) \<longleftrightarrow>
     base < 10 ^ 14 \<and> target < 10 ^ 14 \<and> files_fit cfg fs \<and> distinct (map fst fs)"

fun spec_change :: "history \<Rightarrow> change \<Rightarrow> int \<times> history" where
  "spec_change H (Save base _ meta fs) = spec_save H base meta (map_of fs)"
| "spec_change H (Rollback base target _ meta source fs) = spec_rollback H base target meta source (map_of fs)"

lemma change_step_rep:
  assumes "serves srv view" and "lua_ok L" and "represents (view s) H" and "small_history H" and "change_ok cfg ch"
  shows "\<exists>s'. change_step srv L cfg s ch = (Inr (fst (spec_change H ch)), s') \<and> represents (view s') (snd (spec_change H ch))"
proof -
  have lift: "\<exists>s'. a = (Inr (fst sp), s') \<and> represents (view s') (snd sp)"
    if "sim view a b" and "\<exists>ks'. b = ret (fst sp) ks' \<and> represents ks' (snd sp)" for a b sp
    using that by (cases a) (auto simp: sim_def ret_def)
  show ?thesis
  proof (cases ch)
    case (Save base audit meta fs)
    with assms show ?thesis
      using lift [OF sim_save_script [OF assms(1)] save_script_rep [OF assms(3,2,4), of base cfg fs audit meta]]
      by (simp add: map_of_rev)
  next
    case (Rollback base target audit meta source fs)
    with assms show ?thesis
      using lift [OF sim_rollback_script [OF assms(1)] rollback_script_rep [OF assms(3,2,4), of base target cfg fs audit meta source]]
      by simp
  qed
qed

text \<open>What every history grown from nothing by changes has.\<close>

definition linear_history :: "history \<Rightarrow> bool" where
  "linear_history H \<longleftrightarrow>
     dom (h_snaps H) = {1..h_version H} \<and>
     (if h_version H = 0 then h_mirror H = Map.empty else map_option snd (h_snaps H (h_version H)) = Some (h_mirror H))"

definition empty_history :: history where
  "empty_history = \<lparr>h_version = 0, h_snaps = Map.empty, h_mirror = Map.empty\<rparr>"

lemma linear_head: "linear_history H \<Longrightarrow> head_complete H"
  by (auto simp: linear_history_def head_complete_def)

lemma linear_publish: "linear_history H \<Longrightarrow> linear_history (publish_version H m fs)"
  by (auto simp: linear_history_def publish_version_def)

lemma spec_change_cases:
  "fst (spec_change H ch) < 0 \<and> snd (spec_change H ch) = H \<or>
   fst (spec_change H ch) = int (Suc (h_version H)) \<and> change_base ch = h_version H \<and>
   snd (spec_change H ch) = publish_version H (fst (change_content ch)) (snd (change_content ch))"
  by (cases ch) (auto simp: spec_save_def spec_rollback_def)

lemma run_changes_rep:
  assumes "serves srv view" and "lua_ok L" and "represents (view s) H" and "linear_history H"
    and "\<forall>ch \<in> set chs. change_ok cfg ch" and "h_version H + length chs + 1 < 10 ^ 14"
  shows "\<exists>cs s' H'. run_changes srv L cfg s chs = (map Inr cs, s') \<and> length cs = length chs \<and> represents (view s') H' \<and>
    linear_history H' \<and> h_snaps H \<subseteq>\<^sub>m h_snaps H' \<and> filter (\<lambda>c. c > 0) cs = [int (h_version H) + 1..int (h_version H')] \<and>
    (\<forall>(ch, c) \<in> set (zip chs cs). c > 0 \<longrightarrow> c = int (change_base ch) + 1 \<and> h_snaps H' (nat c) = Some (change_content ch))"
  using assms(3-)
proof (induction chs arbitrary: s H)
  case Nil
  then show ?case by auto
next
  case (Cons ch chs)
  let ?c = "fst (spec_change H ch)" and ?H = "snd (spec_change H ch)"
  have "\<forall>v \<in> dom (h_snaps H). v < 10 ^ 14" using Cons.prems(2,4) by (auto simp: linear_history_def simp del: domIff)
  with Cons.prems(4) have "small_history H" by (simp add: small_history_def)
  from change_step_rep [OF assms(1,2) Cons.prems(1) this, of cfg ch] Cons.prems(3) obtain s1 where
    step: "change_step srv L cfg s ch = (Inr ?c, s1)" and rep: "represents (view s1) ?H" by auto
  have ok: "\<forall>ch \<in> set chs. change_ok cfg ch" using Cons.prems(3) by simp
  from spec_change_cases [of H ch] show ?case
  proof (elim disjE conjE)
    assume 1: "?c < 0" "?H = H"
    with Cons.IH [OF rep _ ok] Cons.prems(2,4) obtain cs s' H' where
      "run_changes srv L cfg s1 chs = (map Inr cs, s')" "length cs = length chs" "represents (view s') H'"
      "linear_history H'" "h_snaps H \<subseteq>\<^sub>m h_snaps H'" "filter (\<lambda>c. c > 0) cs = [int (h_version H) + 1..int (h_version H')]"
      "\<forall>(ch, c) \<in> set (zip chs cs). c > 0 \<longrightarrow> c = int (change_base ch) + 1 \<and> h_snaps H' (nat c) = Some (change_content ch)"
      by auto
    with 1 step show ?thesis by (intro exI [of _ "?c # cs"] exI [of _ s'] exI [of _ H']) auto
  next
    assume 2: "?c = int (Suc (h_version H))" "change_base ch = h_version H"
      "?H = publish_version H (fst (change_content ch)) (snd (change_content ch))"
    from Cons.prems(2) have "h_snaps H (Suc (h_version H)) = None"
      unfolding linear_history_def by (metis Suc_n_not_le_n atLeastAtMost_iff domIff)
    then have grow: "h_snaps H \<subseteq>\<^sub>m h_snaps ?H" using 2 by (auto simp: publish_version_def map_le_def)
    have lin: "linear_history ?H" and v: "h_version ?H = Suc (h_version H)"
      and new: "h_snaps ?H (Suc (h_version H)) = Some (change_content ch)"
      unfolding 2(3) by (rule linear_publish [OF Cons.prems(2)]) (simp_all add: publish_version_def)
    with Cons.IH [OF rep lin ok] Cons.prems(4) obtain cs s' H' where
      r: "run_changes srv L cfg s1 chs = (map Inr cs, s')" "length cs = length chs" "represents (view s') H'"
      "linear_history H'" "h_snaps ?H \<subseteq>\<^sub>m h_snaps H'" "filter (\<lambda>c. c > 0) cs = [int (h_version H) + 2..int (h_version H')]"
      "\<forall>(ch, c) \<in> set (zip chs cs). c > 0 \<longrightarrow> c = int (change_base ch) + 1 \<and> h_snaps H' (nat c) = Some (change_content ch)"
      by (auto simp: algebra_simps)
    have "h_snaps H' (Suc (h_version H)) = Some (change_content ch)" using r(5) new by (metis domI map_le_def)
    moreover from this r(4) have "Suc (h_version H) \<in> {1..h_version H'}" unfolding linear_history_def by blast
    then have "[int (h_version H) + 1..int (h_version H')] = (int (h_version H) + 1) # [int (h_version H) + 2..int (h_version H')]"
      by (subst upto.simps) (simp add: algebra_simps)
    ultimately show ?thesis
      using r 2 step map_le_trans [OF grow r(5)]
      by (intro exI [of _ "?c # cs"] exI [of _ s'] exI [of _ H']) (auto simp: nat_add_distrib)
  qed
qed

lemma represents_fresh:
  assumes "\<forall>k. k \<in> set fixed_keys \<or> (\<exists>v. k = snapshot_key (int v)) \<longrightarrow> ks k = None"
  shows "represents ks empty_history"
proof -
  have "\<And>v. ks (snapshot_key (int v)) = None" "\<forall>k \<in> set fixed_keys. ks k = None" using assms by blast+
  then show ?thesis
    by (auto simp: represents_def empty_history_def as_hash_def as_zset_def as_list_def fixed_keys_def by_member_def fun_eq_iff)
qed

text \<open>
  C30. However the changes of several editors are ordered, on a data base where the history starts empty: every change is answered by a
  number; the successful ones are numbered \<open>1, 2, 3, \<dots>\<close> in their order, each by one more than the version its editor had seen, so of two
  changes made from the same version at most one succeeds; each published version keeps the content of its change for good, there are no
  gaps, and the mirror always holds the newest version.
\<close>

theorem no_lost_update:
  assumes "serves srv view" and "lua_ok L" and "\<forall>k. k \<in> set fixed_keys \<or> (\<exists>v. k = snapshot_key (int v)) \<longrightarrow> view s k = None"
    and "\<forall>ch \<in> set chs. change_ok cfg ch" and "length chs + 1 < 10 ^ 14"
  shows "\<exists>cs s' H. run_changes srv L cfg s chs = (map Inr cs, s') \<and> length cs = length chs \<and> represents (view s') H \<and>
    filter (\<lambda>c. c > 0) cs = [1..int (h_version H)] \<and> dom (h_snaps H) = {1..h_version H} \<and>
    (h_version H > 0 \<longrightarrow> map_option snd (h_snaps H (h_version H)) = Some (h_mirror H)) \<and>
    (\<forall>(ch, c) \<in> set (zip chs cs). c > 0 \<longrightarrow> c = int (change_base ch) + 1 \<and> h_snaps H (nat c) = Some (change_content ch))"
proof -
  have "linear_history empty_history" by (simp add: linear_history_def empty_history_def)
  from run_changes_rep [OF assms(1,2) represents_fresh [OF assms(3)] this assms(4)] assms(5)
  obtain cs s' H where "run_changes srv L cfg s chs = (map Inr cs, s')" "length cs = length chs" "represents (view s') H"
    "linear_history H" "filter (\<lambda>c. c > 0) cs = [1..int (h_version H)]"
    "\<forall>(ch, c) \<in> set (zip chs cs). c > 0 \<longrightarrow> c = int (change_base ch) + 1 \<and> h_snaps H (nat c) = Some (change_content ch)"
    by (auto simp: empty_history_def)
  then show ?thesis unfolding linear_history_def by (intro exI [of _ cs] exI [of _ s'] exI [of _ H]) auto
qed

section \<open>Examples\<close>

lemma lua_ok_demo: "lua_ok demo_lua"
proof -
  have "parse_int64 (dec_of_int i) = Some i" if "\<bar>i\<bar> < 10 ^ 14" for i
  proof -
    have "list_all isdigit (dec_of_nat n)" "hd (dec_of_nat n) \<noteq> CHR ''-''" for n
      using dec_of_nat_digits [of n] dec_of_nat_hd [of n] by (auto simp: list_all_iff)
    with that show ?thesis by (auto simp: parse_int64_def from_chars_int64_def dec_of_int_def Let_def)
  qed
  then show ?thesis by (simp add: lua_ok_def demo_lua_def)
qed

definition demo_history :: history_config where
  "demo_history = \<lparr>hc_read_mode = ''history_first'', hc_auto_migrate_legacy = False, hc_retention_versions = 9, hc_retention_days = 9,
     hc_warn_snapshot_bytes = 99, hc_max_snapshot_bytes = 99, hc_warn_file_bytes = 99, hc_max_file_bytes = 99, hc_warn_files = 9,
     hc_max_files = 9, hc_max_reason_bytes = 9, hc_history_page_size = 9, hc_history_page_size_max = 9,
     hc_max_diff_response_bytes = 9, hc_gc_batch_size = 9, hc_gc_interval_sec = 9, hc_machine_ttl_sec = 9\<rparr>"

abbreviation demo_first :: history where
  "demo_first \<equiv> publish_version empty_history ''m'' [''a.ini'' \<mapsto> ''x'']"

lemma demo_facts:
  "files_fit demo_history [(''a.ini'', ''x'')]" "represents Map.empty empty_history" "small_history empty_history"
  "spec_save empty_history 0 ''m'' [''a.ini'' \<mapsto> ''x''] = (1, demo_first)" "small_history demo_first" "head_complete demo_first"
  by (simp add: files_fit_def demo_history_def, simp add: represents_fresh)
    (simp_all add: small_history_def empty_history_def spec_save_def head_complete_def publish_version_def)

theorem save_refines_witness:
  "fst (save_script ks_exec demo_lua (save_keys 0) (save_argv demo_history 0 ''a'' ''m'' [(''a.ini'', ''x'')]) Map.empty) = Inr 1 \<and>
   represents (snd (save_script ks_exec demo_lua (save_keys 0) (save_argv demo_history 0 ''a'' ''m'' [(''a.ini'', ''x'')]) Map.empty))
     demo_first"
  using save_refines [where view = "\<lambda>ks. ks", OF serves_ks_exec lua_ok_demo demo_facts(2,3) _ demo_facts(1), of 0 "''a''" "''m''"]
  by (simp add: demo_facts(4) Let_def)

theorem no_lost_update_witness:
  "\<exists>a b s'. run_changes ks_exec demo_lua demo_history Map.empty
       [Save 0 ''a'' ''m'' [(''a.ini'', ''x'')], Save 0 ''a'' ''n'' [(''a.ini'', ''y'')]] = ([Inr a, Inr b], s') \<and> \<not> (a > 0 \<and> b > 0)"
proof -
  let ?chs = "[Save 0 ''a'' ''m'' [(''a.ini'', ''x'')], Save 0 ''a'' ''n'' [(''a.ini'', ''y'')]]"
  have "\<forall>ch \<in> set ?chs. change_ok demo_history ch" by (simp add: files_fit_def demo_history_def)
  then have ok: "\<forall>ch \<in> set ?chs. change_ok demo_history ch" "length ?chs + 1 < 10 ^ 14" "\<forall>k. k \<in> set fixed_keys \<or> (\<exists>v. k = snapshot_key (int v)) \<longrightarrow>
      Map.empty k = None" by simp_all
  obtain cs s' and H :: history where r: "run_changes ks_exec demo_lua demo_history Map.empty ?chs = (map Inr cs, s')" "length cs = length ?chs"
    "filter (\<lambda>c. c > 0) cs = [1..int (h_version H)]"
    "\<forall>(ch, c) \<in> set (zip ?chs cs). c > 0 \<longrightarrow> c = int (change_base ch) + 1 \<and> h_snaps H (nat c) = Some (change_content ch)"
    using no_lost_update [where view = "\<lambda>ks. ks" and s = Map.empty, OF serves_ks_exec lua_ok_demo ok(3,1,2)]
    by blast
  obtain a b where cs: "cs = [a, b]" using r(2) by (auto simp: numeral_2_eq_2 length_Suc_conv)
  have "\<not> (a > 0 \<and> b > 0)"
  proof
    assume pos: "a > 0 \<and> b > 0"
    with r(4) [unfolded cs] have "a = 1" "b = 1" by simp_all
    with r(3) [unfolded cs] have "[1..int (h_version H)] = [1, 1]" by simp
    then show False by (metis distinct_length_2_or_more distinct_upto)
  qed
  with r(1) cs show ?thesis by (intro exI [of _ a] exI [of _ b] exI [of _ s']) simp
qed

end
