(* ===== verification/Config_Sync.thy ===== *)
theory Config_Sync
  imports Managed_Files History_Data Config_History Redis_Pool
begin

text \<open>
  The service that brings the published files to each machine: \<^verbatim>\<open>src/app/config_sync_remote.cpp\<close>, \<^verbatim>\<open>config_sync_apply.cpp\<close>,
  \<^verbatim>\<open>config_sync_files.cpp\<close>. A tick is a chain of Redis commands; \<open>cmd\<close> stands for the connection, it takes a state and a request
  and gives the reply with the next state, in which other clients may have acted. The disk is the files of \<^verbatim>\<open>config.d\<close> and the
  state file; what the file system answers is the record \<open>sync_env\<close>.
\<close>

section \<open>Requests and replies\<close>

datatype sync_request =
    Rq_get string
  | Rq_hgetall string
  | Rq_hget string string
  | Rq_hset string string string
  | Rq_seed "string list" "string list"

type_synonym 's sync_cmd = "'s \<Rightarrow> sync_request \<Rightarrow> redis_reply_data \<times> 's"

datatype version_read = V_value int | V_missing | V_invalid string | V_error string

definition read_version_reply :: "redis_reply_data \<Rightarrow> version_read" where
  "read_version_reply reply =
     (if \<not> rd_ok reply then V_error (rd_error reply)
      else if rd_type reply = ''nil'' then V_missing
      else if rd_type reply = ''integer'' then
        if rd_integer reply < 0 then V_invalid ''negative version'' else V_value (rd_integer reply)
      else if rd_type reply = ''string'' then
        (case parse_int64 (rd_str reply) of
           Some v \<Rightarrow> if v < 0 then V_invalid (rd_str reply) else V_value v
         | None \<Rightarrow> V_invalid (rd_str reply))
      else V_invalid (''unexpected type '' @ rd_type reply))"

definition sync_parse_hgetall :: "redis_reply_data \<Rightarrow> file_map option" where
  "sync_parse_hgetall reply =
     (if rd_type reply \<noteq> ''array'' then Some []
      else if length (rd_elements reply) mod 2 \<noteq> 0 then None
      else Some (smap_of (pairs_of (rd_elements reply))))"

definition script_integer :: "redis_reply_data \<Rightarrow> int option" where
  "script_integer reply =
     (if rd_type reply = ''integer'' then Some (rd_integer reply)
      else if rd_type reply = ''string'' then parse_int64 (rd_str reply)
      else None)"

section \<open>The local files\<close>

record sync_env =
  sx_dir :: bool
  sx_open :: bool
  sx_read :: "string \<Rightarrow> bool"
  sx_mkdir :: bool
  sx_io :: "string \<Rightarrow> file_io"
  sx_state_io :: file_io
  sx_remove :: "string \<Rightarrow> string option"
  sx_sha :: "string \<Rightarrow> string option"
  sx_time :: int
  sx_pid :: int
  sx_machine :: string

record disk =
  dk_files :: file_map
  dk_state :: "string option"

fun collect_files :: "sync_env \<Rightarrow> file_map \<Rightarrow> file_map \<times> string list" where
  "collect_files env [] = ([], [])"
| "collect_files env ((name, content) # fs) =
     (case collect_files env fs of
        (files, errors) \<Rightarrow>
          if path_extension name \<noteq> ''.ini'' \<or> is_never_sync_file name then (files, errors)
          else if \<not> sx_read env name then (files, (''failed to read '' @ name) # errors)
          else case validate_managed_file name content of
            Some reason \<Rightarrow> (files, (name @ '': '' @ reason) # errors)
          | None \<Rightarrow> ((name, content) # files, errors))"

text \<open>A directory that cannot be opened lists as empty.\<close>

definition collect_local_managed_files :: "sync_env \<Rightarrow> file_map \<Rightarrow> bool \<times> file_map \<times> string list" where
  "collect_local_managed_files env fs =
     (if \<not> sx_dir env then (False, [], [''config.d not found''])
      else
        (case collect_files env (if sx_open env then fs else []) of
           (files, errors) \<Rightarrow> (errors = [], files, errors)))"

definition collect_local_managed_file_names :: "sync_env \<Rightarrow> file_map \<Rightarrow> string list" where
  "collect_local_managed_file_names env fs =
     (if \<not> sx_dir env \<or> \<not> sx_open env then []
      else filter (\<lambda>n. path_extension n = ''.ini'' \<and> \<not> is_never_sync_file n \<and> is_valid_managed_filename n) (map fst fs))"

definition hashes :: "file_map \<Rightarrow> (string, string) smap" where
  "hashes fs = map (\<lambda>(n, c). (n, content_hash c)) fs"

definition write_managed_file_if_changed :: "sync_env \<Rightarrow> string \<Rightarrow> string \<Rightarrow> file_map \<Rightarrow> bool \<times> file_map" where
  "write_managed_file_if_changed env name content fs =
     (if \<not> sx_mkdir env then (False, fs)
      else
        (case replace_file (sx_io env name) (if sx_read env name then map_of fs name else None) content of
           (True, Some c) \<Rightarrow> (True, sput name c fs)
         | (ok, _) \<Rightarrow> (ok, fs)))"

definition write_disk_state :: "sync_env \<Rightarrow> sync_state \<Rightarrow> disk \<Rightarrow> bool \<times> disk" where
  "write_disk_state env st dk =
     (case write_state (sx_state_io env) (dk_state dk) st of (ok, t) \<Rightarrow> (ok, dk\<lparr>dk_state := t\<rparr>))"

section \<open>Applying a set of files\<close>

fun invalid_files :: "file_map \<Rightarrow> (string, string) smap \<Rightarrow> (string, string) smap" where
  "invalid_files [] fl = fl"
| "invalid_files ((name, content) # r) fl =
     (case validate_managed_file name content of
        Some reason \<Rightarrow> invalid_files r (sput name reason fl)
      | None \<Rightarrow> invalid_files r fl)"

definition valid_files :: "file_map \<Rightarrow> file_map" where
  "valid_files remote = filter (\<lambda>(n, c). validate_managed_file n c = None) remote"

fun write_files :: "sync_env \<Rightarrow> file_map \<Rightarrow> file_map \<Rightarrow> (string, string) smap \<Rightarrow> file_map \<times> (string, string) smap" where
  "write_files env [] fs fl = (fs, fl)"
| "write_files env ((name, content) # r) fs fl =
     (case write_managed_file_if_changed env name content fs of
        (ok, fs') \<Rightarrow> write_files env r fs' (if ok then fl else sput name ''failed to write file'' fl))"

fun remove_stale :: "sync_env \<Rightarrow> file_map \<Rightarrow> string list \<Rightarrow> file_map \<Rightarrow> (string, string) smap \<Rightarrow> file_map \<times> (string, string) smap" where
  "remove_stale env remote [] fs fl = (fs, fl)"
| "remove_stale env remote (name # r) fs fl =
     (if map_of remote name \<noteq> None then remove_stale env remote r fs fl
      else case sx_remove env name of
        Some msg \<Rightarrow> remove_stale env remote r fs (sput name (''failed to remove stale file: '' @ msg) fl)
      | None \<Rightarrow> remove_stale env remote r (filter (\<lambda>(n, _). n \<noteq> name) fs) fl)"

definition local_names :: "sync_env \<Rightarrow> sync_state \<Rightarrow> file_map \<Rightarrow> string list" where
  "local_names env prev fs =
     map fst (smap_of (map (\<lambda>n. (n, ())) (collect_local_managed_file_names env fs @ map fst (st_files prev))))"

text \<open>The result, the failures it reports and the disk.\<close>

definition persist_partial :: "sync_env \<Rightarrow> sync_state \<Rightarrow> (string, string) smap \<Rightarrow> disk \<Rightarrow> bool \<times> (string, string) smap \<times> disk" where
  "persist_partial env prev fl dk =
     (False, fl, snd (write_disk_state env (prev\<lparr>st_status := ''partial'', st_failures := fl\<rparr>) dk))"

definition clean_state :: "int \<Rightarrow> file_map \<Rightarrow> string \<Rightarrow> sync_state" where
  "clean_state version remote forced =
     \<lparr>st_exists = True, st_version = version, st_status = (if forced = [] then ''ok'' else ''partial''),
      st_files = hashes remote, st_last_ok = hashes remote,
      st_failures = (if forced = [] then [] else [(''history_snapshot'', forced)])\<rparr>"

definition apply_remote_files ::
  "sync_env \<Rightarrow> int \<Rightarrow> file_map \<Rightarrow> sync_state \<Rightarrow> string \<Rightarrow> disk \<Rightarrow> bool \<times> (string, string) smap \<times> disk" where
  "apply_remote_files env version remote prev forced dk =
     (let names = local_names env prev (dk_files dk) in
      if remote = [] \<and> names \<noteq> [] then
        persist_partial env prev
          [(''remote_files'', ''empty remote file set refused while local managed files exist'')] dk
      else
        (case write_files env (valid_files remote) (dk_files dk) (invalid_files remote []) of
           (fs, fl) \<Rightarrow>
             if fl \<noteq> [] then persist_partial env prev fl (dk\<lparr>dk_files := fs\<rparr>)
             else
               (case remove_stale env remote names fs [] of
                  (fs, fl) \<Rightarrow>
                    if fl \<noteq> [] then persist_partial env prev fl (dk\<lparr>dk_files := fs\<rparr>)
                    else
                      (case write_disk_state env (clean_state version remote forced) (dk\<lparr>dk_files := fs\<rparr>) of
                         (ok, dk') \<Rightarrow>
                           if \<not> ok then (False, [], dk')
                           else if forced \<noteq> [] then (False, st_failures (clean_state version remote forced), dk')
                           else (True, [], dk')))))"

section \<open>A tick\<close>

definition failure_text :: "string \<times> string \<Rightarrow> string" where
  "failure_text f = fst f @ '':'' @ snd f"

definition heartbeat_payload :: "sync_env \<Rightarrow> int \<Rightarrow> string \<Rightarrow> (string, string) smap \<Rightarrow> string" where
  "heartbeat_payload env version status fl =
     dec_of_int version @ ''|'' @ dec_of_int (sx_time env) @ ''|'' @ dec_of_int (sx_pid env) @ ''|'' @ status @
     (if fl = [] then [] else ''|'' @ comma_list (map failure_text fl))"

definition heartbeat :: "'s sync_cmd \<Rightarrow> sync_env \<Rightarrow> string \<Rightarrow> 's \<Rightarrow> 's" where
  "heartbeat cmd env val s = snd (cmd s (Rq_hset kMachinesKey (sx_machine env) val))"

definition verify_remote_version ::
  "'s sync_cmd \<Rightarrow> sync_env \<Rightarrow> int \<Rightarrow> file_map \<Rightarrow> string \<Rightarrow> 's \<Rightarrow> disk \<Rightarrow> bool \<times> 's \<times> disk" where
  "verify_remote_version cmd env version files forced s dk =
     (case cmd s (Rq_get kVersionKey) of
        (reply, s) \<Rightarrow>
          (case read_version_reply reply of
             V_value after \<Rightarrow>
               if after \<noteq> version then (False, s, dk)
               else
                 (case apply_remote_files env version files (load_state (dk_state dk)) forced dk of
                    (applied, flt, dk) \<Rightarrow>
                      let val = (if applied then heartbeat_payload env version ''ok'' []
                                 else heartbeat_payload env version ''partial'' flt)
                      in (applied, heartbeat cmd env val s, dk))
           | _ \<Rightarrow> (False, s, dk)))"

definition record_history_failure :: "'s sync_cmd \<Rightarrow> sync_env \<Rightarrow> int \<Rightarrow> string \<Rightarrow> 's \<Rightarrow> disk \<Rightarrow> bool \<times> 's \<times> disk" where
  "record_history_failure cmd env version detail s dk =
     (let st = load_state (dk_state dk);
          st' = st\<lparr>st_exists := True, st_status := ''partial'', st_failures := sput ''history_snapshot'' detail (st_failures st)\<rparr>;
          dk' = snd (write_disk_state env st' dk)
      in (False, heartbeat cmd env (heartbeat_payload env version ''partial'' [(''history_snapshot'', detail)]) s, dk'))"

definition verify_snapshot_hash ::
  "'s sync_cmd \<Rightarrow> sync_env \<Rightarrow> int \<Rightarrow> file_map \<Rightarrow> string \<Rightarrow> 's \<Rightarrow> disk \<Rightarrow> bool \<times> 's \<times> disk" where
  "verify_snapshot_hash cmd env version files fallback s dk =
     (case cmd s (Rq_hget kMetaKey (dec_of_int version)) of
        (reply, s) \<Rightarrow>
          if \<not> rd_ok reply \<or> rd_type reply \<noteq> ''string'' then
            record_history_failure cmd env version ''history_snapshot_meta_missing'' s dk
          else
            (let expected = json_string_field (rd_str reply) ''content_sha256''; actual = content_sha256 (sx_sha env) files in
             if expected = None \<or> actual = None \<or> expected \<noteq> actual then
               record_history_failure cmd env version ''history_snapshot_hash_mismatch'' s dk
             else verify_remote_version cmd env version files fallback s dk))"

definition read_current_mirror :: "'s sync_cmd \<Rightarrow> sync_env \<Rightarrow> int \<Rightarrow> bool \<Rightarrow> 's \<Rightarrow> disk \<Rightarrow> bool \<times> 's \<times> disk" where
  "read_current_mirror cmd env version require_meta_hash s dk =
     (case cmd s (Rq_hgetall kFilesKey) of
        (reply, s) \<Rightarrow>
          if \<not> rd_ok reply then
            record_history_failure cmd env version ''history_snapshot_missing_mirror_read_failed'' s dk
          else
            (case sync_parse_hgetall reply of
               Some (f # fs) \<Rightarrow>
                 if \<not> require_meta_hash then verify_remote_version cmd env version (f # fs) [] s dk
                 else verify_snapshot_hash cmd env version (f # fs) ''history_snapshot_missing_fallback'' s dk
             | _ \<Rightarrow> record_history_failure cmd env version ''history_snapshot_and_mirror_missing'' s dk))"

definition handle_missing_snapshot :: "'s sync_cmd \<Rightarrow> sync_env \<Rightarrow> history_config \<Rightarrow> int \<Rightarrow> 's \<Rightarrow> disk \<Rightarrow> bool \<times> 's \<times> disk" where
  "handle_missing_snapshot cmd env cfg version s dk =
     (if hc_read_mode cfg = ''compat'' then read_current_mirror cmd env version False s dk
      else read_current_mirror cmd env version True s dk)"

definition read_remote_files :: "'s sync_cmd \<Rightarrow> sync_env \<Rightarrow> history_config \<Rightarrow> int \<Rightarrow> 's \<Rightarrow> disk \<Rightarrow> bool \<times> 's \<times> disk" where
  "read_remote_files cmd env cfg version s dk =
     (case cmd s (Rq_hgetall (snapshot_key version)) of
        (reply, s) \<Rightarrow>
          if \<not> rd_ok reply then (False, s, dk)
          else
            (case sync_parse_hgetall reply of
               None \<Rightarrow> (False, s, dk)
             | Some [] \<Rightarrow> handle_missing_snapshot cmd env cfg version s dk
             | Some (f # fs) \<Rightarrow> verify_snapshot_hash cmd env version (f # fs) [] s dk))"

definition has_seed_eligibility :: "sync_env \<Rightarrow> sync_state \<Rightarrow> file_map \<Rightarrow> bool" where
  "has_seed_eligibility env st fs =
     (if \<not> st_exists st then True
      else if st_status st \<noteq> ''ok'' then False
      else
        (case collect_local_managed_files env fs of
           (ok, files, _) \<Rightarrow> if \<not> ok then False else hashes files = st_last_ok st))"

definition seed_if_eligible :: "'s sync_cmd \<Rightarrow> sync_env \<Rightarrow> history_config \<Rightarrow> 's \<Rightarrow> disk \<Rightarrow> bool \<times> 's \<times> disk" where
  "seed_if_eligible cmd env cfg s dk =
     (if \<not> has_seed_eligibility env (load_state (dk_state dk)) (dk_files dk) then (False, s, dk)
      else
        (case collect_local_managed_files env (dk_files dk) of
           (ok, files, _) \<Rightarrow>
             if \<not> ok then (False, s, dk)
             else
               (case validate_snapshot (sx_sha env) files cfg False of
                  (Some _, _) \<Rightarrow> (False, s, dk)
                | (None, info) \<Rightarrow>
                    if files = [] \<and> hc_read_mode cfg = ''required'' then (False, s, dk)
                    else
                      (case cmd s (Rq_seed
                          [kVersionKey, kFilesKey, kStagingKey, kMetaKey, kIndexKey, snapshot_key 1, kSnapshotStagingKey]
                          ([metadata_json 1 0 (sx_time env) (sx_machine env) ''seed'' ''initial configuration seed'' info None] @
                           limit_args cfg @ file_args files)) of
                         (reply, s) \<Rightarrow>
                           if \<not> rd_ok reply then (False, s, dk)
                           else if script_integer reply = Some 1 then
                             (case write_disk_state env (clean_state 1 files []) dk of
                                (ok, dk) \<Rightarrow>
                                  if \<not> ok then (False, s, dk)
                                  else (True, heartbeat cmd env (heartbeat_payload env 1 ''ok'' []) s, dk))
                           else (False, s, dk)))))"

definition local_matches :: "sync_env \<Rightarrow> sync_state \<Rightarrow> file_map \<Rightarrow> bool" where
  "local_matches env st fs =
     (case collect_local_managed_files env fs of
        (collected, files, _) \<Rightarrow>
          collected \<and> st_status st = ''ok'' \<and> st_files st = st_last_ok st \<and> hashes files = st_last_ok st)"

definition sync_once :: "'s sync_cmd \<Rightarrow> sync_env \<Rightarrow> history_config \<Rightarrow> 's \<Rightarrow> disk \<Rightarrow> bool \<times> 's \<times> disk" where
  "sync_once cmd env cfg s dk =
     (case cmd s (Rq_get kVersionKey) of
        (reply, s) \<Rightarrow>
          (case read_version_reply reply of
             V_error _ \<Rightarrow> (False, s, dk)
           | V_invalid _ \<Rightarrow> (False, s, dk)
           | V_missing \<Rightarrow> seed_if_eligible cmd env cfg s dk
           | V_value remote \<Rightarrow>
               (let st = load_state (dk_state dk);
                    pending = (st_status st = ''partial'' \<and> map_of (st_failures st) ''history_snapshot'' \<noteq> None)
                in if remote < st_version st then (False, s, dk)
                   else if remote = st_version st \<and> \<not> pending \<and> local_matches env st (dk_files dk) then
                     (True, heartbeat cmd env (heartbeat_payload env remote ''ok'' []) s, dk)
                   else read_remote_files cmd env cfg remote s dk)))"

section \<open>What an applied set of files leaves on the disk\<close>

definition managed_name :: "string \<Rightarrow> bool" where
  "managed_name n \<longleftrightarrow> path_extension n = ''.ini'' \<and> \<not> is_never_sync_file n \<and> is_valid_managed_filename n"

definition managed_part :: "file_map \<Rightarrow> file_map" where
  "managed_part fs = filter (\<lambda>(n, _). managed_name n) fs"

text \<open>The file system lists, reads and stores what it is asked to.\<close>

definition sound_env :: "sync_env \<Rightarrow> bool" where
  "sound_env env \<longleftrightarrow>
     sx_dir env \<and> sx_open env \<and> (\<forall>n. sx_read env n) \<and> (\<forall>n t. io_stored (sx_io env n) t = t) \<and> (\<forall>t. io_stored (sx_state_io env) t = t)"

lemma write_managed_ok:
  assumes "sound_env env" and "smap_ok fs" and "write_managed_file_if_changed env n c fs = (ok, fs')"
  shows "smap_ok fs' \<and> map_of fs' = (if ok then (map_of fs)(n \<mapsto> c) else map_of fs)"
  using assms
  by (auto simp: write_managed_file_if_changed_def replace_file_def sound_env_def split: if_splits)

lemma write_files_ok:
  assumes "sound_env env"
  shows "smap_ok fs \<Longrightarrow> distinct (map fst r) \<Longrightarrow> write_files env r fs fl = (fs', fl') \<Longrightarrow>
    smap_ok fs' \<and> (\<forall>n. map_of fs' n = map_of fs n \<or> map_of fs' n = map_of r n \<and> map_of r n \<noteq> None) \<and> (fl \<noteq> [] \<longrightarrow> fl' \<noteq> []) \<and>
    (fl' = [] \<longrightarrow> map_of fs' = map_of fs ++ map_of r)"
proof (induction r arbitrary: fs fl)
  case (Cons p r)
  obtain n c where p: "p = (n, c)" by fastforce
  obtain ok fs1 where w: "write_managed_file_if_changed env n c fs = (ok, fs1)" by fastforce
  note one = write_managed_ok [OF assms Cons.prems(1) w]
  have fresh: "map_of r n = None" "distinct (map fst r)" using Cons.prems(2) by (auto simp: p map_of_eq_None_iff)
  from Cons.IH [of fs1 "if ok then fl else sput n ''failed to write file'' fl"] one fresh Cons.prems(3) w
  have IH: "smap_ok fs'" "\<forall>x. map_of fs' x = map_of fs1 x \<or> map_of fs' x = map_of r x \<and> map_of r x \<noteq> None"
    "(if ok then fl else sput n ''failed to write file'' fl) \<noteq> [] \<longrightarrow> fl' \<noteq> []" "fl' = [] \<longrightarrow> map_of fs' = map_of fs1 ++ map_of r"
    by (auto simp: p)
  have e: "map_of fs ++ map_of (p # r) = (map_of fs)(n \<mapsto> c) ++ map_of r"
    using fresh(1) by (auto simp: p fun_eq_iff map_add_def split: option.split)
  have "map_of fs' x = map_of fs x \<or> map_of fs' x = map_of (p # r) x \<and> map_of (p # r) x \<noteq> None" for x
    using IH(2) [rule_format, of x] one fresh(1) by (cases "x = n") (auto simp: p split: if_splits)
  moreover have "map_of fs' = map_of fs ++ map_of (p # r)" if "fl' = []"
    unfolding e using IH(3,4) that one by (auto split: if_splits)
  moreover have "fl \<noteq> [] \<longrightarrow> fl' \<noteq> []" using IH(3) by (auto split: if_splits)
  ultimately show ?case using IH(1) by blast
qed auto

lemma remove_stale_ok:
  "smap_ok fs \<Longrightarrow> remove_stale env remote names fs fl = (fs', fl') \<Longrightarrow>
    smap_ok fs' \<and> (\<forall>n. map_of fs' n = map_of fs n \<or> map_of fs' n = None \<and> n \<in> set names \<and> map_of remote n = None) \<and> (fl \<noteq> [] \<longrightarrow> fl' \<noteq> []) \<and>
    (fl' = [] \<longrightarrow> map_of fs' = (\<lambda>n. if n \<in> set names \<and> map_of remote n = None then None else map_of fs n))"
proof (induction names arbitrary: fs fl)
  case (Cons x names)
  show ?case
  proof (cases "map_of remote x \<noteq> None")
    case True
    with Cons show ?thesis by (auto simp: fun_eq_iff)
  next
    case False
    show ?thesis
    proof (cases "sx_remove env x")
      case None
      let ?fs = "filter (\<lambda>(n, _). n \<noteq> x) fs"
      have m: "map_of ?fs = (map_of fs)(x := None)"
        by (induction fs) (auto simp: fun_eq_iff)
      from Cons.IH [of ?fs fl] Cons.prems False None smap_ok_filter [OF Cons.prems(1)]
      have IH: "smap_ok fs'" "\<And>n. map_of fs' n = ((map_of fs)(x := None)) n \<or> map_of fs' n = None \<and> n \<in> set names \<and> map_of remote n = None"
        "fl \<noteq> [] \<longrightarrow> fl' \<noteq> []"
        "fl' = [] \<longrightarrow> map_of fs' = (\<lambda>n. if n \<in> set names \<and> map_of remote n = None then None else ((map_of fs)(x := None)) n)"
        unfolding m by auto
      have "map_of fs' n = map_of fs n \<or> map_of fs' n = None \<and> n \<in> set (x # names) \<and> map_of remote n = None" for n
        using IH(2) [of n] False by (cases "n = x") auto
      moreover have "map_of fs' = (\<lambda>n. if n \<in> set (x # names) \<and> map_of remote n = None then None else map_of fs n)" if "fl' = []"
        using IH(4) that False by (simp add: fun_eq_iff)
      ultimately show ?thesis using IH(1,3) by blast
    next
      case (Some msg)
      with Cons.IH [of fs "sput x (''failed to remove stale file: '' @ msg) fl"] Cons.prems False show ?thesis by auto
    qed
  qed
qed auto

lemma invalid_files_Nil: "invalid_files r fl = [] \<longleftrightarrow> fl = [] \<and> valid_files r = r"
proof -
  have "length (valid_files r) \<le> length r" for r unfolding valid_files_def by (rule length_filter_le)
  then have drop: "valid_files r \<noteq> p # r" for p r by (metis length_Cons not_less_eq_eq order_refl)
  show ?thesis
  proof (induction r arbitrary: fl)
    case (Cons p r)
    then show ?case using drop [of r p] by (cases p) (auto simp: valid_files_def split: option.splits)
  qed (simp add: valid_files_def)
qed

lemma local_names_set:
  "sx_dir env \<Longrightarrow> sx_open env \<Longrightarrow> set (local_names env prev fs) = {n \<in> fst ` set fs. managed_name n} \<union> fst ` set (st_files prev)"
  unfolding local_names_def set_map keys_smap_of
  by (simp add: image_image image_Un collect_local_managed_file_names_def managed_name_def)

lemma valid_managed: "validate_managed_file n c = None \<Longrightarrow> managed_name n"
  using managed_name_safe(2) [of n] by (auto simp: validate_managed_file_def managed_name_def split: if_splits)

lemma managed_part_map: "map_of (managed_part fs) n = (if managed_name n then map_of fs n else None)"
  by (induction fs) (auto simp: managed_part_def)

text \<open>A version is installed: exactly its files are the managed files, and the state file says so.\<close>

definition installed :: "(nat \<rightharpoonup> string \<times> files) \<Rightarrow> nat \<Rightarrow> disk \<Rightarrow> bool" where
  "installed p v dk \<longleftrightarrow>
     (\<exists>m. p v = Some (m, map_of (managed_part (dk_files dk)))) \<and>
     load_state (dk_state dk) = clean_state (int v) (managed_part (dk_files dk)) []"

lemma clean_state_ok:
  assumes "smap_ok F" and "valid_files F = F" and "v < 2 ^ 63"
  shows "state_ok (clean_state (int v) F [])"
proof -
  have chars: "CHR ''='' \<notin> set n \<and> LF \<notin> set n" if "is_valid_managed_filename n" for n
    using managed_name_chars [OF that, of "CHR ''=''"] managed_name_chars [OF that, of LF]
    by (auto simp: managed_char_def isdigit_def islower_def LF_def)
  have "validate_managed_file n c = None" if "(n, c) \<in> set F" for n c
    using that arg_cong [OF assms(2), of set] by (auto simp: valid_files_def)
  then have "is_valid_managed_filename n" if "(n, c) \<in> set F" for n c
    using that valid_managed managed_name_def by blast
  then have "list_all (\<lambda>(k, v). state_key_ok k \<and> state_value_ok v) (hashes F)"
    using chars content_hash_ok by (auto simp: list_all_iff hashes_def state_key_ok_def)
  moreover have "smap_ok (hashes F)" unfolding hashes_def by (rule smap_ok_map [OF assms(1)])
  ultimately show ?thesis
    using assms(3) by (simp add: state_ok_def state_map_ok_def clean_state_def state_value_ok_def LF_def CR_def)
qed

lemma apply_installs:
  assumes env: "sound_env env" and fs: "smap_ok (dk_files dk)" and F: "smap_ok F" and v: "v < 2 ^ 63"
    and applied: "apply_remote_files env (int v) F prev forced dk = (True, fl, dk')"
  shows "managed_part (dk_files dk') = F \<and> smap_ok (dk_files dk') \<and> load_state (dk_state dk') = clean_state (int v) F [] \<and> valid_files F = F"
proof -
  let ?names = "local_names env prev (dk_files dk)"
  obtain fs1 fl1 where w: "write_files env (valid_files F) (dk_files dk) (invalid_files F []) = (fs1, fl1)" by fastforce
  obtain fs2 fl2 where r: "remove_stale env F ?names fs1 [] = (fs2, fl2)" by fastforce
  obtain ok dk2 where s: "write_disk_state env (clean_state (int v) F forced) (dk\<lparr>dk_files := fs2\<rparr>) = (ok, dk2)" by fastforce
  from applied w r s have z: "fl1 = []" "fl2 = []" "ok" "forced = []" "dk' = dk2"
    by (auto simp: apply_remote_files_def persist_partial_def Let_def split: if_splits)
  have dist: "distinct (map fst (valid_files F))"
    using smap_ok_distinct [OF smap_ok_filter [OF F]] by (simp add: valid_files_def)
  from write_files_ok [OF env fs dist w] z(1) have w': "smap_ok fs1" "invalid_files F [] = []" "map_of fs1 = map_of (dk_files dk) ++ map_of (valid_files F)"
    by auto
  then have vf: "valid_files F = F" by (simp add: invalid_files_Nil)
  from remove_stale_ok [OF w'(1) r] z(2) have r': "smap_ok fs2"
    "map_of fs2 = (\<lambda>n. if n \<in> set ?names \<and> map_of F n = None then None else map_of fs1 n)" by auto
  have dk': "dk_files dk' = fs2" "dk_state dk' = Some (state_text (clean_state (int v) F []))"
    using s z env by (auto simp: write_disk_state_def write_state_def replace_file_def sound_env_def split: if_splits)
  have names: "set ?names = {n \<in> fst ` set (dk_files dk). managed_name n} \<union> fst ` set (st_files prev)"
    by (rule local_names_set) (use env in \<open>simp_all add: sound_env_def\<close>)
  have "map_of (managed_part fs2) n = map_of F n" for n
  proof (cases "map_of F n")
    case None
    have "map_of (dk_files dk) n = None" if "managed_name n" "n \<notin> set ?names"
      using that names by (auto simp: map_of_eq_None_iff)
    then show ?thesis
      using None vf by (auto simp: managed_part_map r'(2) w'(3) map_add_def)
  next
    case (Some c)
    then have "(n, c) \<in> set (valid_files F)" using vf by (simp add: map_of_SomeD)
    then have "managed_name n" using valid_managed by (auto simp: valid_files_def)
    then show ?thesis using Some vf by (simp add: managed_part_map r'(2) w'(3))
  qed
  then have "managed_part fs2 = F" by (intro smap_ext) (auto simp: managed_part_def smap_ok_filter r'(1) F)
  moreover have "load_state (dk_state dk') = clean_state (int v) F []"
    unfolding dk'(2) load_state_text [OF clean_state_ok [OF F vf v]] by (simp add: clean_state_def)
  ultimately show ?thesis using dk' r'(1) vf by simp
qed

section \<open>The published store\<close>

text \<open>
  What a tick relies on: replies describe the history at the moment of the command, published versions stay what they are, and
  the version never decreases, whatever other clients do between two commands.
\<close>

text \<open>The requests of a tick that leave the history alone.\<close>

fun harmless :: "sync_request \<Rightarrow> bool" where
  "harmless (Rq_hset k _ _) \<longleftrightarrow> k = kMachinesKey"
| "harmless (Rq_seed _ _) \<longleftrightarrow> False"
| "harmless _ \<longleftrightarrow> True"

locale published_store =
  fixes cmd :: "'s sync_cmd" and ok :: "'s \<Rightarrow> bool" and pub :: "'s \<Rightarrow> nat \<rightharpoonup> string \<times> files" and cur :: "'s \<Rightarrow> nat"
  assumes keeps: "ok s \<Longrightarrow> harmless rq \<Longrightarrow>
      ok (snd (cmd s rq)) \<and> pub s \<subseteq>\<^sub>m pub (snd (cmd s rq)) \<and> cur s \<le> cur (snd (cmd s rq))"
    and version: "ok s \<Longrightarrow> read_version_reply (fst (cmd s (Rq_get kVersionKey))) = V_value i \<Longrightarrow> i = int (cur s)"
    and missing: "ok s \<Longrightarrow> read_version_reply (fst (cmd s (Rq_get kVersionKey))) = V_missing \<Longrightarrow> cur s = 0"
    and snapshot: "ok s \<Longrightarrow> sync_parse_hgetall (fst (cmd s (Rq_hgetall (snapshot_key (int v))))) = Some F \<Longrightarrow> F \<noteq> [] \<Longrightarrow>
      \<exists>m. pub s v = Some (m, map_of F)"
    and mirror: "ok s \<Longrightarrow> sync_parse_hgetall (fst (cmd s (Rq_hgetall kFilesKey))) = Some F \<Longrightarrow> F \<noteq> [] \<Longrightarrow>
      \<exists>m. pub s (cur s) = Some (m, map_of F)"
    and small: "ok s \<Longrightarrow> cur s < 2 ^ 63"
begin

text \<open>\<open>s'\<close> comes after \<open>s\<close>.\<close>

definition later :: "'s \<Rightarrow> 's \<Rightarrow> bool" where
  "later s s' \<longleftrightarrow> ok s' \<and> pub s \<subseteq>\<^sub>m pub s' \<and> cur s \<le> cur s'"

lemma later_refl: "ok s \<Longrightarrow> later s s"
  by (simp add: later_def)

lemma later_trans: "later s t \<Longrightarrow> later t u \<Longrightarrow> later s u"
  unfolding later_def by (meson map_le_trans order_trans)

lemma later_cmd: "ok s \<Longrightarrow> harmless rq \<Longrightarrow> cmd s rq = (r, t) \<Longrightarrow> later s t"
  using keeps [of s rq] by (simp add: later_def)

lemma later_heartbeat: "ok s \<Longrightarrow> later s (heartbeat cmd env x s)"
  using keeps [of s "Rq_hset kMachinesKey (sx_machine env) x"] by (simp add: later_def heartbeat_def)

lemma later_pub: "later s t \<Longrightarrow> pub s v = Some x \<Longrightarrow> pub t v = Some x"
  unfolding later_def map_le_def by (metis domI)

text \<open>Files that were published as the version the chain started from, or as a version in force after it.\<close>

definition sourced :: "'s \<Rightarrow> nat \<Rightarrow> file_map \<Rightarrow> bool" where
  "sourced s v F \<longleftrightarrow> (\<exists>m. pub s v = Some (m, map_of F)) \<or> (\<exists>w m. v \<le> w \<and> w \<le> cur s \<and> pub s w = Some (m, map_of F))"

lemma sourced_later:
  assumes "sourced s v F" and l: "later s t"
  shows "sourced t v F"
  using assms(1) unfolding sourced_def
proof (elim disjE exE conjE)
  fix w m assume "v \<le> w" "w \<le> cur s" "pub s w = Some (m, map_of F)"
  moreover from this l have "w \<le> cur t" by (simp add: later_def)
  ultimately show "(\<exists>m. pub t v = Some (m, map_of F)) \<or> (\<exists>w m. v \<le> w \<and> w \<le> cur t \<and> pub t w = Some (m, map_of F))"
    using later_pub [OF l] by blast
qed (use later_pub [OF l] in blast)

lemma verify_installs:
  assumes env: "sound_env env" and fs: "smap_ok (dk_files dk)" and s: "ok s" and F: "smap_ok F"
    and src: "sourced s v F"
    and res: "verify_remote_version cmd env (int v) F forced s dk = (True, s', dk')"
  shows "later s s' \<and> installed (pub s') v dk' \<and> v \<le> cur s' \<and> smap_ok (dk_files dk')"
proof -
  obtain r t where c: "cmd s (Rq_get kVersionKey) = (r, t)" by fastforce
  have st: "later s t" by (rule later_cmd [OF s _ c]) simp
  from res c obtain after where a: "read_version_reply r = V_value after" "after = int v"
    by (auto simp: verify_remote_version_def split: version_read.splits if_splits)
  from version [OF s, of after] c a have cur: "cur s = v" by simp
  have src': "\<exists>m. pub s v = Some (m, map_of F)" using src cur unfolding sourced_def by (metis order_antisym)
  obtain ap flt dk1 where ap: "apply_remote_files env (int v) F (load_state (dk_state dk)) forced dk = (ap, flt, dk1)" by (metis prod_cases3)
  from res c a ap have r1: "ap" "dk' = dk1" "\<exists>x. s' = heartbeat cmd env x t"
    by (auto simp: verify_remote_version_def Let_def split: if_splits)
  have "v < 2 ^ 63" using small [OF s] cur by simp
  from apply_installs [OF env fs F this] ap r1(1,2)
  have dn: "managed_part (dk_files dk') = F" "smap_ok (dk_files dk')" "load_state (dk_state dk') = clean_state (int v) F []" by auto
  have ts': "later t s'" using r1(3) later_heartbeat [of t] st by (auto simp: later_def)
  have ss': "later s s'" by (rule later_trans [OF st ts'])
  from src' obtain m where "pub s v = Some (m, map_of F)" by blast
  from later_pub [OF ss' this] dn have "installed (pub s') v dk'" by (simp add: installed_def)
  then show ?thesis using ss' cur dn(2) by (simp add: later_def)
qed

lemma hash_installs:
  assumes env: "sound_env env" and fs: "smap_ok (dk_files dk)" and s: "ok s" and F: "smap_ok F" and src: "sourced s v F"
    and res: "verify_snapshot_hash cmd env (int v) F fallback s dk = (True, s', dk')"
  shows "later s s' \<and> installed (pub s') v dk' \<and> v \<le> cur s' \<and> smap_ok (dk_files dk')"
proof -
  obtain r t where c: "cmd s (Rq_hget kMetaKey (dec_of_int (int v))) = (r, t)" by fastforce
  have st: "later s t" by (rule later_cmd [OF s _ c]) simp
  then have t: "ok t" "sourced t v F" using sourced_later [OF src st] by (auto simp: later_def)
  from res c have "verify_remote_version cmd env (int v) F fallback t dk = (True, s', dk')"
    by (auto simp: verify_snapshot_hash_def record_history_failure_def Let_def split: if_splits)
  from verify_installs [OF env fs t(1) F t(2) this] later_trans [OF st] show ?thesis by blast
qed

lemma mirror_installs:
  assumes env: "sound_env env" and fs: "smap_ok (dk_files dk)" and s: "ok s" and v: "v \<le> cur s"
    and res: "read_current_mirror cmd env (int v) hash s dk = (True, s', dk')"
  shows "later s s' \<and> installed (pub s') v dk' \<and> v \<le> cur s' \<and> smap_ok (dk_files dk')"
proof -
  obtain r t where c: "cmd s (Rq_hgetall kFilesKey) = (r, t)" by fastforce
  have st: "later s t" by (rule later_cmd [OF s _ c]) simp
  from res c obtain f fs' where p: "sync_parse_hgetall r = Some (f # fs')"
    by (auto simp: read_current_mirror_def record_history_failure_def Let_def split: if_splits option.splits list.splits)
  then have F: "smap_ok (f # fs')" by (auto simp: sync_parse_hgetall_def split: if_splits) (metis smap_of_ok)
  have "sourced s v (f # fs')" using mirror [OF s, of "f # fs'"] c p v unfolding sourced_def by auto
  then have t: "ok t" "sourced t v (f # fs')" using sourced_later [OF _ st] st by (auto simp: later_def)
  from res c p have
    "verify_remote_version cmd env (int v) (f # fs') [] t dk = (True, s', dk') \<or>
     verify_snapshot_hash cmd env (int v) (f # fs') ''history_snapshot_missing_fallback'' t dk = (True, s', dk')"
    by (auto simp: read_current_mirror_def record_history_failure_def Let_def split: if_splits)
  then show ?thesis
    using verify_installs [OF env fs t(1) F t(2)] hash_installs [OF env fs t(1) F t(2)] later_trans [OF st] by blast
qed

lemma remote_installs:
  assumes env: "sound_env env" and fs: "smap_ok (dk_files dk)" and s: "ok s" and v: "v \<le> cur s"
    and res: "read_remote_files cmd env cfg (int v) s dk = (True, s', dk')"
  shows "later s s' \<and> installed (pub s') v dk' \<and> v \<le> cur s' \<and> smap_ok (dk_files dk')"
proof -
  obtain r t where c: "cmd s (Rq_hgetall (snapshot_key (int v))) = (r, t)" by fastforce
  have st: "later s t" by (rule later_cmd [OF s _ c]) simp
  then have t: "ok t" "v \<le> cur t" using v by (auto simp: later_def)
  from res c consider "\<exists>h. read_current_mirror cmd env (int v) h t dk = (True, s', dk')"
    | f fs' where "sync_parse_hgetall r = Some (f # fs')" "verify_snapshot_hash cmd env (int v) (f # fs') [] t dk = (True, s', dk')"
    by (auto simp: read_remote_files_def handle_missing_snapshot_def split: if_splits option.splits list.splits)
  then show ?thesis
  proof cases
    case 1
    then show ?thesis using mirror_installs [OF env fs t] later_trans [OF st] by blast
  next
    case 2
    then have F: "smap_ok (f # fs')" by (auto simp: sync_parse_hgetall_def split: if_splits) (metis smap_of_ok)
    have "sourced s v (f # fs')" using snapshot [OF s, of v "f # fs'"] c 2(1) unfolding sourced_def by auto
    then have "sourced t v (f # fs')" using sourced_later [OF _ st] by blast
    from hash_installs [OF env fs t(1) F this 2(2)] later_trans [OF st] show ?thesis by blast
  qed
qed

text \<open>A tick that reports success has either installed a published version or found the machine in the state it had recorded.\<close>

lemma sync_installs:
  assumes env: "sound_env env" and fs: "smap_ok (dk_files dk)" and s: "ok s" "cur s > 0"
    and res: "sync_once cmd env cfg s dk = (True, s', dk')"
  shows "(\<exists>v. cur s \<le> v \<and> v \<le> cur s' \<and> installed (pub s') v dk') \<or>
    dk' = dk \<and> local_matches env (load_state (dk_state dk)) (dk_files dk) \<and> st_version (load_state (dk_state dk)) = int (cur s)"
proof -
  obtain r t where c: "cmd s (Rq_get kVersionKey) = (r, t)" by fastforce
  have st: "later s t" by (rule later_cmd [OF s(1) _ c]) simp
  from res c missing [OF s(1)] s(2) obtain remote where r: "read_version_reply r = V_value remote"
    by (cases "read_version_reply r") (auto simp: sync_once_def)
  with version [OF s(1), of remote] c have "remote = int (cur s)" by simp
  with res c r consider "read_remote_files cmd env cfg (int (cur s)) t dk = (True, s', dk')"
    | "dk' = dk" "local_matches env (load_state (dk_state dk)) (dk_files dk)" "st_version (load_state (dk_state dk)) = int (cur s)"
    by (auto simp: sync_once_def Let_def split: if_splits)
  then show ?thesis
  proof cases
    case 1
    have "ok t" "cur s \<le> cur t" using st by (auto simp: later_def)
    from remote_installs [OF env fs this 1] show ?thesis by blast
  qed blast
qed

end

section \<open>The store behind the scripts\<close>

text \<open>
  The interface is met by a Redis data base whose history is changed by the scripts of \<open>History_Scripts\<close>: the state carries the key
  space, the history it represents and the changes that other editors are about to make; after each command of the tick the next of
  them is carried out.
\<close>

record live =
  lv_ks :: keyspace
  lv_hist :: history
  lv_pending :: "change list"
  lv_lua :: lua_num
  lv_cfg :: history_config

definition reply_of :: "string + lval \<Rightarrow> redis_reply" where
  "reply_of r =
     (case r of
        Inl e \<Rightarrow> R_error e
      | Inr LFalse \<Rightarrow> R_nil
      | Inr (LNum x) \<Rightarrow> R_integer (lua_int x)
      | Inr (LStr t) \<Rightarrow> R_string t
      | Inr (LArr xs) \<Rightarrow> R_array (map R_string xs)
      | Inr (LOpts xs) \<Rightarrow> R_array (map (\<lambda>x. case x of None \<Rightarrow> R_nil | Some t \<Rightarrow> R_string t) xs)
      | Inr (LPairs ps) \<Rightarrow> R_array (map R_string (concat (map (\<lambda>(n, c). [n, c]) ps))))"

fun live_exec :: "live \<Rightarrow> sync_request \<Rightarrow> redis_reply \<times> keyspace" where
  "live_exec lv (Rq_get k) = apfst reply_of (ks_exec (lv_ks lv) (GET k))"
| "live_exec lv (Rq_hgetall k) = apfst reply_of (ks_exec (lv_ks lv) (HGETALL k))"
| "live_exec lv (Rq_hget k f) = apfst reply_of (ks_exec (lv_ks lv) (HGET k f))"
| "live_exec lv (Rq_hset k f v) = apfst reply_of (ks_exec (lv_ks lv) (HSET k [(f, v)]))"
| "live_exec lv (Rq_seed keys argv) =
     apfst (\<lambda>r. case r of Inl e \<Rightarrow> R_error e | Inr i \<Rightarrow> R_integer i) (seed_script ks_exec (lv_lua lv) keys argv (lv_ks lv))"

definition others_act :: "live \<Rightarrow> live" where
  "others_act lv =
     (case lv_pending lv of
        [] \<Rightarrow> lv
      | ch # chs \<Rightarrow>
          lv\<lparr>lv_ks := snd (change_step ks_exec (lv_lua lv) (lv_cfg lv) (lv_ks lv) ch),
             lv_hist := snd (spec_change (lv_hist lv) ch), lv_pending := chs\<rparr>)"

definition live_cmd :: "live sync_cmd" where
  "live_cmd lv rq =
     (case live_exec lv rq of (reply, ks) \<Rightarrow> (parse_redis_reply reply, others_act (lv\<lparr>lv_ks := ks\<rparr>)))"

definition live_ok :: "live \<Rightarrow> bool" where
  "live_ok lv \<longleftrightarrow>
     represents (lv_ks lv) (lv_hist lv) \<and> linear_history (lv_hist lv) \<and> lua_ok (lv_lua lv) \<and>
     (\<forall>ch \<in> set (lv_pending lv). change_ok (lv_cfg lv) ch) \<and> h_version (lv_hist lv) + length (lv_pending lv) + 1 < 10 ^ 14"

abbreviation live_pub :: "live \<Rightarrow> nat \<rightharpoonup> string \<times> files" where
  "live_pub lv \<equiv> h_snaps (lv_hist lv)"

abbreviation live_cur :: "live \<Rightarrow> nat" where
  "live_cur lv \<equiv> h_version (lv_hist lv)"

lemma represents_machines:
  assumes "represents ks H"
  shows "represents (snd (ks_exec ks (HSET kMachinesKey [(f, v)]))) H"
proof -
  obtain h where "as_hash ks kMachinesKey = Some h" using represents_types(7) [OF assms] by blast
  then have "snd (ks_exec ks (HSET kMachinesKey [(f, v)])) = ks(kMachinesKey \<mapsto> RHash (h(f \<mapsto> v)))"
    by (simp add: as_hash_with)
  then show ?thesis using assms unfolding represents_def by simp
qed

lemma harmless_represents: "harmless rq \<Longrightarrow> represents (lv_ks lv) H \<Longrightarrow> represents (snd (live_exec lv rq)) H"
proof (cases rq)
  case (Rq_get k)
  moreover have "snd (ks_exec ks (GET k)) = ks" for ks by (auto simp: wrongtype_def split: option.split rvalue.split)
  ultimately show "represents (lv_ks lv) H \<Longrightarrow> ?thesis" by simp
next
  case (Rq_hgetall k)
  moreover have "snd (ks_exec ks (HGETALL k)) = ks" for ks by (auto simp: with_hash_def wrongtype_def split: option.split rvalue.split)
  ultimately show "represents (lv_ks lv) H \<Longrightarrow> ?thesis" by simp
next
  case (Rq_hget k f)
  moreover have "snd (ks_exec ks (HGET k f)) = ks" for ks by (auto simp: with_hash_def wrongtype_def split: option.split rvalue.split)
  ultimately show "represents (lv_ks lv) H \<Longrightarrow> ?thesis" by simp
next
  case (Rq_hset k f v)
  then show "harmless rq \<Longrightarrow> represents (lv_ks lv) H \<Longrightarrow> ?thesis" using represents_machines by simp
qed simp

lemma linear_small: "linear_history H \<Longrightarrow> h_version H + 1 < 10 ^ 14 \<Longrightarrow> small_history H"
proof -
  assume l: "linear_history H" and b: "h_version H + 1 < 10 ^ 14"
  have "\<forall>v \<in> dom (h_snaps H). v < 10 ^ 14" using l b by (auto simp: linear_history_def simp del: domIff)
  with b show ?thesis by (simp add: small_history_def)
qed

lemma others_keep:
  assumes "live_ok lv"
  shows "live_ok (others_act lv) \<and> live_pub lv \<subseteq>\<^sub>m live_pub (others_act lv) \<and> live_cur lv \<le> live_cur (others_act lv)"
proof (cases "lv_pending lv")
  case Nil
  then show ?thesis using assms by (simp add: others_act_def)
next
  case (Cons ch chs)
  let ?H = "lv_hist lv" and ?H' = "snd (spec_change (lv_hist lv) ch)"
  have rep: "represents (lv_ks lv) ?H" and lin: "linear_history ?H" and L: "lua_ok (lv_lua lv)" and ok: "change_ok (lv_cfg lv) ch"
    and b: "h_version ?H + 1 < 10 ^ 14" and rest: "\<forall>ch \<in> set chs. change_ok (lv_cfg lv) ch" "h_version ?H + 1 + length chs + 1 < 10 ^ 14"
    using assms Cons by (auto simp: live_ok_def)
  from change_step_rep [where view = "\<lambda>ks. ks", OF serves_ks_exec L rep linear_small [OF lin b] ok]
  have rep': "represents (snd (change_step ks_exec (lv_lua lv) (lv_cfg lv) (lv_ks lv) ch)) ?H'" by auto
  have "linear_history ?H' \<and> h_snaps ?H \<subseteq>\<^sub>m h_snaps ?H' \<and> h_version ?H \<le> h_version ?H' \<and> h_version ?H' \<le> h_version ?H + 1"
    using spec_change_cases [of ?H ch]
  proof (elim disjE conjE)
    assume e: "?H' = publish_version ?H (fst (change_content ch)) (snd (change_content ch))"
    have "Suc (h_version ?H) \<notin> dom (h_snaps ?H)" using lin by (simp add: linear_history_def del: domIff)
    then have "h_snaps ?H \<subseteq>\<^sub>m h_snaps ?H'" unfolding e by (auto simp: publish_version_def map_le_def)
    moreover have "linear_history ?H'" unfolding e by (rule linear_publish [OF lin])
    ultimately show ?thesis unfolding e by (simp add: publish_version_def)
  qed (use lin in auto)
  then show ?thesis using rep' L rest Cons by (auto simp: live_ok_def others_act_def)
qed

lemma map_of_hash_pairs: "hash_pairs h \<noteq> [] \<Longrightarrow> map_of (smap_of (hash_pairs h)) = h"
proof -
  assume "hash_pairs h \<noteq> []"
  then have f: "finite (dom h)" by (metis hash_pairs_def list.map(1) sorted_list_of_set.fold_insort_key.infinite)
  have "distinct (map fst (hash_pairs h))" by (simp add: hash_pairs_def comp_def)
  moreover have "map_of (hash_pairs h) = h" unfolding hash_pairs_def by (rule map_of_map_keys) (simp add: f)
  ultimately show ?thesis by (simp add: map_of_rev)
qed

lemma live_hgetall:
  assumes "as_hash (lv_ks lv) k = Some h"
  shows "sync_parse_hgetall (fst (live_cmd lv (Rq_hgetall k))) = Some (smap_of (hash_pairs h))"
proof -
  let ?es = "concat (map (\<lambda>(n, c). [n, c]) (hash_pairs h))"
  have "fst (live_cmd lv (Rq_hgetall k)) = parse_redis_reply (R_array (map R_string ?es))"
    by (simp add: live_cmd_def as_hash_with [OF assms] reply_of_def)
  moreover have "map reply_element (map R_string ?es) = ?es" by (simp add: reply_element_def comp_def)
  ultimately show ?thesis by (simp add: sync_parse_hgetall_def parse_redis_reply_def redis_reply_data0_def)
qed

interpretation live: published_store live_cmd live_ok live_pub live_cur
proof
  fix s rq
  assume "live_ok s" "harmless rq"
  then have "live_ok (s\<lparr>lv_ks := snd (live_exec s rq)\<rparr>)" using harmless_represents [of rq s] by (simp add: live_ok_def)
  from others_keep [OF this]
  show "live_ok (snd (live_cmd s rq)) \<and> live_pub s \<subseteq>\<^sub>m live_pub (snd (live_cmd s rq)) \<and> live_cur s \<le> live_cur (snd (live_cmd s rq))"
    by (simp add: live_cmd_def case_prod_beta)
next
  fix s i
  assume s: "live_ok s" and r: "read_version_reply (fst (live_cmd s (Rq_get kVersionKey))) = V_value i"
  have "represents (lv_ks s) (lv_hist s)" "live_cur s < 2 ^ 63" using s by (auto simp: live_ok_def)
  with represents_dest(6) [of "lv_ks s" "lv_hist s"] r show "i = int (live_cur s)"
    by (auto simp: live_cmd_def reply_of_def parse_redis_reply_def redis_reply_data0_def read_version_reply_def parse_int64_dec_of_int)
next
  fix s
  assume s: "live_ok s" and r: "read_version_reply (fst (live_cmd s (Rq_get kVersionKey))) = V_missing"
  have "represents (lv_ks s) (lv_hist s)" "live_cur s < 2 ^ 63" using s by (auto simp: live_ok_def)
  with represents_dest(6) [of "lv_ks s" "lv_hist s"] r show "live_cur s = 0"
    by (auto simp: live_cmd_def reply_of_def parse_redis_reply_def redis_reply_data0_def read_version_reply_def parse_int64_dec_of_int)
next
  fix s v F
  assume s: "live_ok s" and F: "sync_parse_hgetall (fst (live_cmd s (Rq_hgetall (snapshot_key (int v))))) = Some F" "F \<noteq> []"
  have ks: "lv_ks s (snapshot_key (int v)) = map_option (\<lambda>x. RHash (snd x)) (live_pub s v)"
    using s represents_dest(3) by (simp add: live_ok_def)
  then have "as_hash (lv_ks s) (snapshot_key (int v)) = Some (case live_pub s v of None \<Rightarrow> Map.empty | Some x \<Rightarrow> snd x)"
    by (simp add: as_hash_def split: option.split)
  from live_hgetall [OF this] F show "\<exists>m. live_pub s v = Some (m, map_of F)"
    using map_of_hash_pairs [of "case live_pub s v of None \<Rightarrow> Map.empty | Some x \<Rightarrow> snd x"]
    by (cases "live_pub s v") (auto simp: hash_pairs_def)
next
  fix s F
  assume s: "live_ok s" and F: "sync_parse_hgetall (fst (live_cmd s (Rq_hgetall kFilesKey))) = Some F" "F \<noteq> []"
  then have rep: "represents (lv_ks s) (lv_hist s)" and lin: "linear_history (lv_hist s)" by (auto simp: live_ok_def)
  from live_hgetall [OF represents_dest(5) [OF rep]] F have m: "F = smap_of (hash_pairs (h_mirror (lv_hist s)))" by simp
  with F(2) have "map_of F = h_mirror (lv_hist s)" "h_mirror (lv_hist s) \<noteq> Map.empty"
    using map_of_hash_pairs by (auto simp: hash_pairs_def)
  with lin show "\<exists>m. live_pub s (live_cur s) = Some (m, map_of F)" by (auto simp: linear_history_def split: if_splits)
next
  fix s
  assume "live_ok s"
  then show "live_cur s < 2 ^ 63" by (simp add: live_ok_def)
qed


section \<open>What a tick may touch\<close>

lemma smap_valid: "map_of (valid_files F) n = Some c \<Longrightarrow> managed_name n"
  using valid_managed by (fastforce simp: valid_files_def dest: map_of_SomeD)

text \<open>
  Applying a set of files, whatever the set and however it ends, changes nothing but managed files: each either keeps its content,
  gets the content that was received, or is removed because the set does not have it. The local files are never touched, as long as
  the state file names only managed files.
\<close>

lemma apply_confined:
  assumes "sound_env env" and "smap_ok (dk_files dk)" and "smap_ok remote" and "\<forall>n \<in> fst ` set (st_files prev). managed_name n"
    and "apply_remote_files env version remote prev forced dk = (applied, flt, dk')"
  shows "map_of (dk_files dk') n = map_of (dk_files dk) n \<or>
    managed_name n \<and> (map_of (dk_files dk') n = map_of remote n)"
proof -
  let ?names = "local_names env prev (dk_files dk)"
  have names: "\<forall>n \<in> set ?names. managed_name n"
    using assms(1,4) local_names_set [of env prev "dk_files dk"] by (auto simp: sound_env_def)
  obtain fs1 fl1 where w: "write_files env (valid_files remote) (dk_files dk) (invalid_files remote []) = (fs1, fl1)" by fastforce
  obtain fs2 fl2 where r: "remove_stale env remote ?names fs1 [] = (fs2, fl2)" by fastforce
  have dist: "distinct (map fst (valid_files remote))" "distinct (map fst remote)"
    using smap_ok_distinct [OF smap_ok_filter [OF assms(3)]] smap_ok_distinct [OF assms(3)] by (simp_all add: valid_files_def)
  note w' = write_files_ok [OF assms(1,2) dist(1) w]
  have sub: "map_of (valid_files remote) x = Some c \<Longrightarrow> map_of remote x = Some c" for x c
    using dist by (auto simp: valid_files_def dest: map_of_SomeD)
  have one: "map_of fs1 n = map_of (dk_files dk) n \<or> managed_name n \<and> map_of fs1 n = map_of remote n"
    using w' sub [of n] smap_valid [of remote n] by (metis not_None_eq)
  have two: "map_of fs2 n = map_of fs1 n \<or> managed_name n \<and> map_of fs2 n = map_of remote n"
    using remove_stale_ok [OF conjunct1 [OF w'] r] names by auto
  have "dk_files dk' = dk_files dk \<or> dk_files dk' = fs1 \<or> dk_files dk' = fs2"
    using assms(5) w r
    by (auto simp: apply_remote_files_def persist_partial_def write_disk_state_def Let_def split: if_splits prod.splits)
  with one two show ?thesis by auto
qed

text \<open>With a working file system, a set of valid files is applied.\<close>

definition working_env :: "sync_env \<Rightarrow> bool" where
  "working_env env \<longleftrightarrow>
     sound_env env \<and> sx_mkdir env \<and> (\<forall>n. io_open (sx_io env n) \<and> io_rename (sx_io env n)) \<and>
     io_open (sx_state_io env) \<and> io_rename (sx_state_io env) \<and> (\<forall>n. sx_remove env n = None)"

lemma write_files_all: "working_env env \<Longrightarrow> snd (write_files env r fs fl) = fl"
proof (induction r arbitrary: fs)
  case (Cons p r)
  obtain n c where p: "p = (n, c)" by fastforce
  have "fst (write_managed_file_if_changed env n c fs)"
    using Cons.prems by (simp add: working_env_def write_managed_file_if_changed_def replace_file_def)
  then show ?case using Cons by (cases "write_managed_file_if_changed env n c fs") (simp add: p)
qed simp

lemma remove_stale_all: "working_env env \<Longrightarrow> snd (remove_stale env F names fs fl) = fl"
  by (induction names arbitrary: fs) (auto simp: working_env_def)

lemma apply_succeeds:
  assumes "working_env env" and "F \<noteq> []" and "valid_files F = F"
  shows "\<exists>dk'. apply_remote_files env v F prev [] dk = (True, [], dk')"
proof -
  have "invalid_files F [] = []" using assms(3) by (simp add: invalid_files_Nil)
  then obtain fs1 where w: "write_files env (valid_files F) (dk_files dk) (invalid_files F []) = (fs1, [])"
    using write_files_all [OF assms(1)] by (metis prod.collapse)
  obtain fs2 where r: "remove_stale env F (local_names env prev (dk_files dk)) fs1 [] = (fs2, [])"
    using remove_stale_all [OF assms(1)] by (metis prod.collapse)
  show ?thesis
    using assms(1,2) w r by (simp add: apply_remote_files_def write_disk_state_def write_state_def replace_file_def working_env_def)
qed

section \<open>Examples\<close>

definition demo_env :: sync_env where
  "demo_env = \<lparr>sx_dir = True, sx_open = True, sx_read = (\<lambda>_. True), sx_mkdir = True, sx_io = (\<lambda>_. plain_io), sx_state_io = plain_io,
     sx_remove = (\<lambda>_. None), sx_sha = (\<lambda>_. Some []), sx_time = 0, sx_pid = 1, sx_machine = ''m1''\<rparr>"

lemma demo_env_sound: "sound_env demo_env" "working_env demo_env"
  by (simp_all add: working_env_def sound_env_def demo_env_def plain_io_def)

definition demo_meta :: string where
  "demo_meta = metadata_json 1 0 0 ''root'' ''save'' ''first'' \<lparr>si_file_count = 1, si_total_bytes = 1, si_content_sha256 = []\<rparr> None"

definition demo_files :: file_map where
  "demo_files = [(''20-a.ini'', ''x'')]"

definition demo_disk :: disk where
  "demo_disk = \<lparr>dk_files = [(''99-local.ini'', ''y'')], dk_state = None\<rparr>"

lemma demo_valid: "valid_files demo_files = demo_files"
  by code_simp

lemma demo_meta_field: "json_string_field demo_meta ''content_sha256'' = Some []"
  by code_simp

text \<open>One editor has saved one file; a machine with only its local file then syncs.\<close>

lemma demo_replies:
  assumes "represents (lv_ks lv) (publish_version empty_history demo_meta [''20-a.ini'' \<mapsto> ''x''])" and "lv_pending lv = []"
  shows "live_cmd lv (Rq_get kVersionKey) = (redis_reply_data0\<lparr>rd_type := ''string'', rd_str := ''1'', rd_ok := True\<rparr>, lv)"
    and "live_cmd lv (Rq_hgetall (snapshot_key 1)) =
      (redis_reply_data0\<lparr>rd_type := ''array'', rd_ok := True, rd_elements := [''20-a.ini'', ''x'']\<rparr>, lv)"
    and "live_cmd lv (Rq_hget kMetaKey (dec_of_int 1)) = (redis_reply_data0\<lparr>rd_type := ''string'', rd_str := demo_meta, rd_ok := True\<rparr>, lv)"
proof -
  let ?H = "publish_version empty_history demo_meta [''20-a.ini'' \<mapsto> ''x'']"
  have idle: "others_act (lv\<lparr>lv_ks := lv_ks lv\<rparr>) = lv" using assms(2) by (simp add: others_act_def)
  have H: "h_version ?H = 1" "h_snaps ?H 1 = Some (demo_meta, [''20-a.ini'' \<mapsto> ''x''])" by (simp_all add: publish_version_def empty_history_def)
  have get: "ks_exec (lv_ks lv) (GET kVersionKey) = (Inr (LStr ''1''), lv_ks lv)"
    using represents_dest(6) [OF assms(1)] H(1) by (auto simp: dec_of_int_def dec_of_nat.simps char_of_def bit_iff_odd)
  have k: "lv_ks lv (snapshot_key 1) = Some (RHash [''20-a.ini'' \<mapsto> ''x''])"
    using represents_dest(3) [OF assms(1), of 1] H(2) by simp
  have hget: "ks_exec (lv_ks lv) (HGET kMetaKey (dec_of_int 1)) = (Inr (LStr demo_meta), lv_ks lv)"
    using rep_commands(1) [OF assms(1), of 1] H(2) by (simp add: opt_str_def)
  have pairs: "hash_pairs [''20-a.ini'' \<mapsto> ''x''] = demo_files" by (simp add: hash_pairs_def demo_files_def)
  show "live_cmd lv (Rq_get kVersionKey) = (redis_reply_data0\<lparr>rd_type := ''string'', rd_str := ''1'', rd_ok := True\<rparr>, lv)"
    unfolding live_cmd_def live_exec.simps get using idle by (simp add: reply_of_def parse_redis_reply_def)
  show "live_cmd lv (Rq_hgetall (snapshot_key 1)) =
      (redis_reply_data0\<lparr>rd_type := ''array'', rd_ok := True, rd_elements := [''20-a.ini'', ''x'']\<rparr>, lv)"
    using idle k pairs by (simp add: live_cmd_def with_hash_def reply_of_def parse_redis_reply_def demo_files_def reply_element_def)
  show "live_cmd lv (Rq_hget kMetaKey (dec_of_int 1)) = (redis_reply_data0\<lparr>rd_type := ''string'', rd_str := demo_meta, rd_ok := True\<rparr>, lv)"
    unfolding live_cmd_def live_exec.simps hget using idle by (simp add: reply_of_def parse_redis_reply_def)
qed

text \<open>The commands of a tick that installs the first version of the example, on any server.\<close>

lemma demo_tick_chain:
  assumes c1: "cmd s0 (Rq_get kVersionKey) = (redis_reply_data0\<lparr>rd_type := ''string'', rd_str := ''1'', rd_ok := True\<rparr>, s1)"
    and c2: "cmd s1 (Rq_hgetall (snapshot_key 1)) =
      (redis_reply_data0\<lparr>rd_type := ''array'', rd_ok := True, rd_elements := [''20-a.ini'', ''x'']\<rparr>, s2)"
    and c3: "cmd s2 (Rq_hget kMetaKey (dec_of_int 1)) = (redis_reply_data0\<lparr>rd_type := ''string'', rd_str := demo_meta, rd_ok := True\<rparr>, s3)"
    and c4: "cmd s3 (Rq_get kVersionKey) = (redis_reply_data0\<lparr>rd_type := ''string'', rd_str := ''1'', rd_ok := True\<rparr>, s4)"
  shows "\<exists>s' dk'. sync_once cmd demo_env cfg s0 demo_disk = (True, s', dk')"
proof -
  have v: "read_version_reply (redis_reply_data0\<lparr>rd_type := ''string'', rd_str := ''1'', rd_ok := True\<rparr>) = V_value 1"
    by (simp add: read_version_reply_def redis_reply_data0_def) code_simp
  have files: "sync_parse_hgetall (redis_reply_data0\<lparr>rd_type := ''array'', rd_ok := True, rd_elements := [''20-a.ini'', ''x'']\<rparr>) = Some demo_files"
    by (simp add: sync_parse_hgetall_def demo_files_def smap_of_def redis_reply_data0_def)
  have sha: "content_sha256 (sx_sha demo_env) demo_files = Some []" by (simp add: content_sha256_def demo_env_def)
  have st: "load_state (dk_state demo_disk) = sync_state0" by (simp add: demo_disk_def load_state_def)
  obtain dk' where ap: "apply_remote_files demo_env 1 demo_files sync_state0 [] demo_disk = (True, [], dk')"
    using apply_succeeds [OF demo_env_sound(2) _ demo_valid, of 1 sync_state0 demo_disk] by (auto simp: demo_files_def)
  have one: "verify_remote_version cmd demo_env 1 demo_files [] s3 demo_disk =
      (True, heartbeat cmd demo_env (heartbeat_payload demo_env 1 ''ok'' []) s4, dk')"
    unfolding verify_remote_version_def c4 prod.case v version_read.case st ap Let_def by simp
  have two: "verify_snapshot_hash cmd demo_env 1 demo_files [] s2 demo_disk = verify_remote_version cmd demo_env 1 demo_files [] s3 demo_disk"
    unfolding verify_snapshot_hash_def c3 prod.case sha Let_def by (simp add: redis_reply_data0_def demo_meta_field)
  have three: "read_remote_files cmd demo_env cfg 1 s1 demo_disk = verify_snapshot_hash cmd demo_env 1 demo_files [] s2 demo_disk"
    unfolding read_remote_files_def c2 prod.case files by (simp add: redis_reply_data0_def demo_files_def)
  have "sync_once cmd demo_env cfg s0 demo_disk = read_remote_files cmd demo_env cfg 1 s1 demo_disk"
    unfolding sync_once_def c1 prod.case v version_read.case st Let_def by (simp add: sync_state0_def)
  then show ?thesis by (auto simp: one two three)
qed

lemma demo_tick:
  assumes "represents (lv_ks lv) (publish_version empty_history demo_meta [''20-a.ini'' \<mapsto> ''x''])" and "lv_pending lv = []"
  shows "\<exists>lv' dk'. sync_once live_cmd demo_env cfg lv demo_disk = (True, lv', dk')"
  by (rule demo_tick_chain [where cmd = live_cmd, OF demo_replies [OF assms] demo_replies(1) [OF assms]])

lemma demo_live:
  "\<exists>ks. live_ok \<lparr>lv_ks = ks, lv_hist = publish_version empty_history demo_meta [''20-a.ini'' \<mapsto> ''x''], lv_pending = [],
       lv_lua = demo_lua, lv_cfg = demo_history\<rparr> \<and>
     represents ks (publish_version empty_history demo_meta [''20-a.ini'' \<mapsto> ''x''])"
proof -
  let ?H = "publish_version empty_history demo_meta [''20-a.ini'' \<mapsto> ''x'']"
  have fit: "files_fit demo_history [(''20-a.ini'', ''x'')]" by (simp add: files_fit_def demo_history_def)
  from save_script_rep [OF demo_facts(2) lua_ok_demo demo_facts(3) _ fit, of 0 "''a''" demo_meta]
  obtain ks where ks: "represents ks ?H" by (auto simp: spec_save_def empty_history_def head_complete_def)
  have "linear_history ?H" by (rule linear_publish) (simp add: linear_history_def empty_history_def)
  then have "live_ok \<lparr>lv_ks = ks, lv_hist = ?H, lv_pending = [], lv_lua = demo_lua, lv_cfg = demo_history\<rparr>"
    using ks lua_ok_demo by (simp add: live_ok_def) (simp add: publish_version_def empty_history_def)
  with ks show ?thesis by blast
qed


text \<open>
  A name with a line break ends up in the state file as it is: a refused remote name can add a local file to the managed ones, and the
  next application of a valid set then removes that file.
\<close>

lemma state_injection:
  "(let bad = ''x'' @ [LF] @ ''file.99-local.ini=0'' @ [LF] @ ''y'';
        st = load_state (dk_state (snd (snd (apply_remote_files demo_env 2 [(bad, [])] sync_state0 [] demo_disk))))
    in ''99-local.ini'' \<in> set (local_names demo_env st (dk_files demo_disk)))"
  "remove_stale demo_env demo_files [''99-local.ini''] (dk_files demo_disk) [] = ([], [])"
  by code_simp+

end
