(* ===== verification/Admin_Store.thy ===== *)
theory Admin_Store
  imports Admin_Login Reload_Service Config_Sync
begin

text \<open>
  The helpers behind the administration of configuration files, \<^verbatim>\<open>src/app/admin/config_admin_store.cpp\<close>: reading Redis replies, checking
  a set of files, the dry run of a set in a temporary directory, and the JSON of the answers. A dry run meets the file system
  through the record \<open>staging\<close>; \<open>sg_what\<close> is the text of an exception.
\<close>

section \<open>Replies\<close>

definition redis_integer :: "redis_reply_data \<Rightarrow> int option" where
  "redis_integer reply =
     (if rd_type reply = ''integer'' then Some (rd_integer reply)
      else if rd_type reply = ''string'' then parse_int64 (rd_str reply)
      else None)"

definition redis_version :: "redis_reply_data \<Rightarrow> int option" where
  "redis_version reply =
     (if \<not> rd_ok reply then None
      else if rd_type reply = ''nil'' then Some 0
      else case redis_integer reply of
        None \<Rightarrow> None
      | Some v \<Rightarrow> if v < 0 then None else Some v)"

definition admin_parse_hgetall :: "redis_reply_data \<Rightarrow> file_map option" where
  "admin_parse_hgetall reply =
     (if \<not> rd_ok reply \<or> rd_type reply \<noteq> ''array'' \<or> length (rd_elements reply) mod 2 \<noteq> 0 then None
      else Some (smap_of (pairs_of (rd_elements reply))))"

section \<open>Sets of files\<close>

definition restart_required :: "string \<Rightarrow> bool" where
  "restart_required content \<longleftrightarrow> contains_section content ''server'' \<or> contains_section content ''mysql''"

fun check_file_list :: "string list \<Rightarrow> managed_file list \<Rightarrow> string option" where
  "check_file_list seen [] = None"
| "check_file_list seen (f # fs) =
     (if mf_name f \<in> set seen then Some (''duplicate file: '' @ mf_name f)
      else case validate_managed_file (mf_name f) (mf_content f) of
        Some reason \<Rightarrow> Some (mf_name f @ '': '' @ reason)
      | None \<Rightarrow> check_file_list (mf_name f # seen) fs)"

definition validate_file_set :: "managed_file list \<Rightarrow> bool \<Rightarrow> string option" where
  "validate_file_set files reject_empty =
     (if reject_empty \<and> files = [] then Some ''files must not be empty'' else check_file_list [] files)"

definition file_pair :: "managed_file \<Rightarrow> string \<times> string" where
  "file_pair f = (mf_name f, mf_content f)"

section \<open>The dry run\<close>

datatype staged_error = St_config config_error | St_security sec_error | St_upstream upstream_error

record staging =
  sg_temp :: "string option"
  sg_local :: "string \<Rightarrow> string option"
  sg_copy :: "string \<Rightarrow> bool"
  sg_write :: "string \<Rightarrow> bool"
  sg_stored :: "string \<Rightarrow> string \<Rightarrow> string"
  sg_scan_error :: bool
  sg_read :: "string \<Rightarrow> bool"
  sg_what :: "staged_error \<Rightarrow> string"
  sg_rules :: sec_env

definition never_sync :: "string list" where
  "never_sync = [''11-redis.ini'', ''12-config-sync.ini'', ''99-local.ini'']"

fun stage_local :: "staging \<Rightarrow> string list \<Rightarrow> file_map \<Rightarrow> string + file_map" where
  "stage_local sg [] dir = Inr dir"
| "stage_local sg (name # names) dir =
     (case sg_local sg name of
        None \<Rightarrow> stage_local sg names dir
      | Some content \<Rightarrow>
          if \<not> sg_copy sg name then Inl (''failed to copy local '' @ name)
          else stage_local sg names (sput name content dir))"

fun stage_files :: "staging \<Rightarrow> managed_file list \<Rightarrow> file_map \<Rightarrow> string + file_map" where
  "stage_files sg [] dir = Inr dir"
| "stage_files sg (f # fs) dir =
     (if \<not> sg_write sg (mf_name f) then Inl (''failed to write staged file '' @ mf_name f)
      else stage_files sg fs (sput (mf_name f) (sg_stored sg (mf_name f) (mf_content f)) dir))"

text \<open>A directory as the loader sees it.\<close>

definition dir_entries :: "(string \<Rightarrow> bool) \<Rightarrow> file_map \<Rightarrow> dir_entry list" where
  "dir_entries readable dir =
     map (\<lambda>(n, c). \<lparr>de_name = n, de_regular = Some True, de_content = if readable n then Some c else None\<rparr>) dir"

definition staged_check :: "sec_env \<Rightarrow> config \<Rightarrow> staged_error option" where
  "staged_check env cfg =
     (case load_from_config env True cfg of
        Inl e \<Rightarrow> Some (St_security e)
      | Inr _ \<Rightarrow>
          (case http_pool_config_from cfg of
             Inl e \<Rightarrow> Some (St_config e)
           | Inr pool \<Rightarrow>
               (case prepare_reload upstream_manager0 cfg pool of
                  Inl e \<Rightarrow> Some (St_upstream e)
                | Inr _ \<Rightarrow> None)))"

definition dry_run_config_set :: "staging \<Rightarrow> managed_file list \<Rightarrow> string option" where
  "dry_run_config_set sg files =
     (case sg_temp sg of
        Some e \<Rightarrow> Some e
      | None \<Rightarrow>
          (case stage_local sg never_sync [] of
             Inl e \<Rightarrow> Some e
           | Inr dir0 \<Rightarrow>
               (case stage_files sg files dir0 of
                  Inl e \<Rightarrow> Some e
                | Inr dir \<Rightarrow>
                    (case config_load config0 (Some (dir_entries (sg_read sg) dir, sg_scan_error sg)) of
                       (False, _) \<Rightarrow> Some ''staged config does not parse''
                     | (True, cfg) \<Rightarrow> map_option (sg_what sg) (staged_check (sg_rules sg) cfg)))))"

section \<open>Answers\<close>

definition json_pair :: "string \<Rightarrow> string \<Rightarrow> string" where
  "json_pair name val = json_name name @ json_quoted val"

definition file_entry :: "string \<times> string \<Rightarrow> string" where
  "file_entry f =
     ''{'' @ json_pair ''name'' (fst f) @ '','' @ json_pair ''content'' (snd f) @ '','' @
     json_name ''restart_required'' @ bool_json (restart_required (snd f)) @ ''}''"

definition files_json :: "int \<Rightarrow> file_map \<Rightarrow> bool \<Rightarrow> string" where
  "files_json version files degraded =
     ''{'' @ json_name ''version'' @ dec_of_int version @ '','' @ json_name ''degraded'' @ bool_json degraded @ '','' @
     json_name ''files'' @ ''['' @ comma_list (map file_entry files) @ '']}''"

function split_pipe_fields :: "string \<Rightarrow> string list" where
  "split_pipe_fields val =
     (case find_char (CHR ''|'') val of
        None \<Rightarrow> [val]
      | Some i \<Rightarrow> take i val # split_pipe_fields (drop (i + 1) val))"
  by pat_completeness auto
termination
  by (relation "measure length") (auto simp: find_char_Some)

declare split_pipe_fields.simps [simp del]

definition machine_entry :: "string \<times> string \<Rightarrow> string" where
  "machine_entry m =
     (let flds = split_pipe_fields (snd m) in
      ''{'' @ json_pair ''machine'' (fst m) @
      (if length flds \<ge> 4 then
         '','' @ json_pair ''version'' (flds ! 0) @ '','' @ json_pair ''ts'' (flds ! 1) @
         '','' @ json_pair ''pid'' (flds ! 2) @ '','' @ json_pair ''status'' (flds ! 3) @
         (if length flds \<ge> 5 then '','' @ json_pair ''detail'' (flds ! 4) else [])
       else '','' @ json_pair ''raw'' (snd m)) @ ''}'')"

definition machines_json :: "(string, string) smap \<Rightarrow> string" where
  "machines_json machines = ''{'' @ json_name ''machines'' @ ''['' @ comma_list (map machine_entry machines) @ '']}''"

definition admin_user :: "principal option \<Rightarrow> string" where
  "admin_user p =
     (case p of None \<Rightarrow> ''insecure'' | Some q \<Rightarrow> if username q = [] then subject q else username q)"

definition audit_json :: "int \<Rightarrow> principal option \<Rightarrow> int \<Rightarrow> int \<Rightarrow> string \<Rightarrow> string \<Rightarrow> managed_file list \<Rightarrow> string" where
  "audit_json now p base_version new_version action reason files =
     ''{'' @ json_name ''ts'' @ dec_of_int now @ '','' @ json_pair ''user'' (admin_user p) @
     '','' @ json_name ''base_version'' @ dec_of_int base_version @
     '','' @ json_name ''new_version'' @ dec_of_int new_version @
     '','' @ json_pair ''action'' action @ '','' @ json_pair ''reason'' reason @
     '','' @ json_name ''files'' @ ''['' @ comma_list (map (\<lambda>f. json_quoted (mf_name f)) files) @ '']}''"

section \<open>What an accepted set satisfies\<close>

lemma check_file_list_ok:
  "check_file_list seen fs = None \<Longrightarrow>
     distinct (map mf_name fs) \<and> set (map mf_name fs) \<inter> set seen = {} \<and> (\<forall>f \<in> set fs. validate_managed_file (mf_name f) (mf_content f) = None)"
proof (induction fs arbitrary: seen)
  case (Cons f fs)
  then have "mf_name f \<notin> set seen" "validate_managed_file (mf_name f) (mf_content f) = None" "check_file_list (mf_name f # seen) fs = None"
    by (auto split: if_splits option.splits)
  with Cons.IH [of "mf_name f # seen"] show ?case by auto
qed simp

lemma validate_file_set_ok:
  assumes "validate_file_set files True = None"
  shows "files \<noteq> [] \<and> distinct (map mf_name files) \<and> (\<forall>f \<in> set files. validate_managed_file (mf_name f) (mf_content f) = None)"
  using assms check_file_list_ok [of "[]" files] by (auto simp: validate_file_set_def split: if_splits)

text \<open>A status value written by a machine is shown field by field; a failure text with a bar is cut there.\<close>

lemma split_pipe_plain: "CHR ''|'' \<notin> set a \<Longrightarrow> split_pipe_fields (a @ CHR ''|'' # r) = a # split_pipe_fields r"
  by (subst split_pipe_fields.simps) (simp add: find_char_append_fresh)

lemma split_pipe_last: "CHR ''|'' \<notin> set a \<Longrightarrow> split_pipe_fields a = [a]"
  using find_char_None [of "CHR ''|''" a] by (subst split_pipe_fields.simps) simp

lemma dec_no_pipe: "CHR ''|'' \<notin> set (dec_of_int i)"
  using dec_of_nat_digits [of "nat i"] dec_of_nat_digits [of "nat (- i)"] by (auto simp: dec_of_int_def isdigit_def)

lemma heartbeat_shown:
  assumes "CHR ''|'' \<notin> set status" and "CHR ''|'' \<notin> set (comma_list (map failure_text fl))"
  shows "split_pipe_fields (heartbeat_payload env version status fl) =
    [dec_of_int version, dec_of_int (sx_time env), dec_of_int (sx_pid env), status] @
    (if fl = [] then [] else [comma_list (map failure_text fl)])"
  using assms by (simp add: heartbeat_payload_def split_pipe_plain split_pipe_last dec_no_pipe)

section \<open>The dry run and the reload\<close>

lemma stage_local_ok:
  "stage_local sg names dir0 = Inr dir \<Longrightarrow> smap_ok dir0 \<Longrightarrow>
     smap_ok dir \<and> map_of dir = map_of dir0 ++ (\<lambda>n. if n \<in> set names then sg_local sg n else None)"
proof (induction names arbitrary: dir0)
  case (Cons a names)
  show ?case
  proof (cases "sg_local sg a")
    case None
    with Cons.prems Cons.IH [of dir0] show ?thesis by (auto simp: fun_eq_iff map_add_def)
  next
    case (Some c)
    with Cons.prems(1) have "stage_local sg names (sput a c dir0) = Inr dir" by (simp split: if_splits)
    from Cons.IH [OF this smap_ok_sput [OF Cons.prems(2)]] Some Cons.prems(2) show ?thesis
      by (auto simp: map_add_def split: option.splits)
  qed
qed auto

lemma stage_files_ok:
  "stage_files sg fs dir0 = Inr dir \<Longrightarrow> smap_ok dir0 \<Longrightarrow> \<forall>n c. sg_stored sg n c = c \<Longrightarrow>
     smap_ok dir \<and> map_of dir = map_of dir0 ++ map_of (rev (map file_pair fs))"
proof (induction fs arbitrary: dir0)
  case (Cons f fs)
  then have "stage_files sg fs (sput (mf_name f) (mf_content f) dir0) = Inr dir" by (auto split: if_splits)
  from Cons.IH [OF this smap_ok_sput [OF Cons.prems(2)] Cons.prems(3)] Cons.prems(2) show ?case
    by (auto simp: file_pair_def fun_eq_iff map_add_def split: option.splits)
qed simp

lemma load_files_readable: "load_files cfg es = (True, cfg') \<Longrightarrow> \<forall>e \<in> set es. de_content e \<noteq> None"
  by (induction cfg es rule: load_files.induct) (auto simp: load_file_def split: prod.splits bool.splits option.splits)

lemma scan_dir_entries:
  "\<forall>n \<in> fst ` set dir. path_extension n = ''.ini'' \<Longrightarrow> scan_entries (dir_entries r dir) = Some (dir_entries r dir)"
  by (induction dir) (auto simp: dir_entries_def)

lemma config_load_readable:
  assumes ini: "\<forall>n \<in> fst ` set dir. path_extension n = ''.ini''"
    and load: "config_load config0 (Some (dir_entries r dir, e)) = (True, cfg)"
  shows "config_load config0 (Some (dir_entries (\<lambda>_. True) dir, False)) = (True, cfg)"
proof -
  have files: "dir_entries r dir \<noteq> []" "\<not> e" "load_files config0 (sort_key de_name (dir_entries r dir)) = (True, cfg)"
    using load by (auto simp: config_load_def scan_dir_entries [OF ini] split: if_splits)
  from load_files_readable [OF files(3)] have "\<forall>n \<in> fst ` set dir. r n"
    by (fastforce simp: dir_entries_def split: if_splits)
  then have "dir_entries (\<lambda>_. True) dir = dir_entries r dir" by (auto simp: dir_entries_def)
  with files show ?thesis by (simp add: config_load_def scan_dir_entries [OF ini])
qed

lemma staged_check_reload:
  "staged_check env cfg = None \<Longrightarrow>
     config_acceptable None env cfg \<longleftrightarrow> (\<exists>n. get_int cfg ''security'' ''config_reload_interval_sec'' 0 = Inr n)"
proof -
  assume a: "staged_check env cfg = None"
  then obtain x pool pr where l: "load_from_config env True cfg = Inr x" "http_pool_config_from cfg = Inr pool"
    and p: "prepare_reload upstream_manager0 cfg pool = Inr pr"
    by (auto simp: staged_check_def split: sum.splits)
  then obtain flag where f: "get_bool cfg ''gateway'' ''json_keys_snake_to_camel'' True = Inr flag"
    by (auto simp: prepare_reload_def split: sum.splits)
  have "um_ok upstream_manager0" by (simp add: um_ok_def upstream_manager0_def)
  from prepare_reload_total [OF this f, of pool] p
  have "\<forall>(n, v) \<in> set (get_section cfg ''upstream''). \<exists>up. parse_upstream n v = Inr up" by (auto split: if_splits)
  with l f show ?thesis by (auto simp: config_acceptable_def simp del: split_paired_Ex)
qed

lemma never_sync_ini: "n \<in> set never_sync \<Longrightarrow> path_extension n = ''.ini''"
proof -
  have "list_all (\<lambda>n. path_extension n = ''.ini'') never_sync" by code_simp
  then show "n \<in> set never_sync \<Longrightarrow> path_extension n = ''.ini''" by (simp add: list_all_iff)
qed


definition demo_staging :: staging where
  "demo_staging = \<lparr>sg_temp = None, sg_local = Map.empty, sg_copy = (\<lambda>_. True), sg_write = (\<lambda>_. True), sg_stored = (\<lambda>_ c. c),
     sg_scan_error = False, sg_read = (\<lambda>_. True), sg_what = (\<lambda>_. ''error''), sg_rules = Security_Rules.demo_env\<rparr>"

definition demo_set :: "managed_file list" where
  "demo_set = [\<lparr>mf_name = ''20-rules.ini'', mf_content = demo_ini\<rparr>]"

lemma demo_dry_run: "dry_run_config_set demo_staging demo_set = None" "validate_file_set demo_set True = None"
  by code_simp+


text \<open>An interval that is no number passes the dry run, and every watcher that gets it refuses the files.\<close>

lemma dry_run_misses_interval:
  "(let f = \<lparr>mf_name = ''20-rules.ini'', mf_content = demo_ini @ ''[security]'' @ [LF] @ ''config_reload_interval_sec=soon'' @ [LF]\<rparr>;
        cfg = snd (config_load config0 (Some (dir_entries (\<lambda>_. True) [file_pair f], False)))
    in validate_file_set [f] True = None \<and> dry_run_config_set demo_staging [f] = None \<and>
       isl (get_int cfg ''security'' ''config_reload_interval_sec'' 30))"
  by code_simp

end
