(* ===== verification/Admin_Handlers.thy ===== *)
theory Admin_Handlers
  imports Admin_Store
begin

text \<open>
  The handlers of the administration: \<^verbatim>\<open>src/app/admin/admin_config_routes.cpp\<close> and the files \<^verbatim>\<open>admin_history_*.cpp\<close>. A request is a chain of
  Redis commands, each with a continuation that gets the reply; here the continuation is the rest of the function, and the
  result is the context that is sent back with the state of the store. \<open>admin_env\<close> holds what a handler takes from its services:
  the settings of the history, the staging area of the dry run, the clock at the two places that read it, and what the
  background service of the history reports.
\<close>

section \<open>Commands\<close>

datatype admin_script =
    Save_script | Rollback_script | Detail_script | List_script | Snapshot_repair_script | Mirror_rebuild_script
  | Migration_script | Orphan_inspect_script | Restore_version_script | Delete_orphan_script

datatype admin_request = Plain sync_request | Eval admin_script "string list" "string list"

type_synonym 's admin_cmd = "'s \<Rightarrow> admin_request \<Rightarrow> redis_reply_data \<times> 's"

type_synonym 's answer = "http_context \<times> 's"

record 's admin_env =
  ae_history :: history_config
  ae_config_base :: string
  ae_staging :: staging
  ae_sha :: "string \<Rightarrow> string option"
  ae_time :: int
  ae_audit_time :: int
  ae_inconsistent :: bool
  ae_observed :: int
  ae_refresh :: "('s \<Rightarrow> bool \<times> 's) option"

definition DB_ERROR :: int where "DB_ERROR = 501"

definition frozen :: string where
  "frozen = ''history is inconsistent; save, rollback and GC are frozen''"

definition bad_request :: "string \<Rightarrow> http_context \<Rightarrow> http_context" where
  "bad_request msg = respond 400 (resp_err PARAM_ERROR msg)"

definition not_found :: "http_context \<Rightarrow> http_context" where
  "not_found = respond 404 (resp_err 404 ''history version not found'')"

definition redis_failed :: "string \<Rightarrow> http_context \<Rightarrow> http_context" where
  "redis_failed msg = respond 500 (resp_err DB_ERROR msg)"

definition server_error :: "string \<Rightarrow> http_context \<Rightarrow> http_context" where
  "server_error msg = respond 500 (resp_err SERVER_ERROR msg)"

definition inconsistent :: "string \<Rightarrow> http_context \<Rightarrow> http_context" where
  "inconsistent msg = respond 409 (json_resp 409 msg ''null'')"

definition invalid_version :: "http_context \<Rightarrow> http_context" where
  "invalid_version = server_error ''version key content is not numeric, manual repair required''"

text \<open>The first step of every handler, on a worker thread.\<close>

definition start_blocking ::
  "crypto \<Rightarrow> jwt_lib \<Rightarrow> file_system \<Rightarrow> int \<Rightarrow> bool \<Rightarrow> (http_context \<Rightarrow> 's \<Rightarrow> 's answer) \<Rightarrow> admin_services \<Rightarrow> http_context \<Rightarrow> 's \<Rightarrow>
     http_context \<times> 's \<times> admin_services" where
  "start_blocking cr lib fs now redis_available action sv ctx0 s =
     (case authorize_admin cr lib fs now sv ctx0 of
        (False, ctx, sv') \<Rightarrow> (ctx, s, sv')
      | (True, ctx, sv') \<Rightarrow>
          if \<not> redis_available then (respond 503 (resp_err SERVER_ERROR ''Redis service unavailable'') ctx, s, sv')
          else (case action ctx s of (ctx', s') \<Rightarrow> (ctx', s', sv')))"

section \<open>Reading the current files\<close>

definition verify_config_version ::
  "'s admin_cmd \<Rightarrow> http_context \<Rightarrow> int \<Rightarrow> file_map \<Rightarrow> bool \<Rightarrow> ('s \<Rightarrow> 's answer) option \<Rightarrow> 's \<Rightarrow> 's answer" where
  "verify_config_version cmd ctx version files degraded again s =
     (case cmd s (Plain (Rq_get kVersionKey)) of
        (reply, s) \<Rightarrow>
          (case redis_version reply of
             None \<Rightarrow> (invalid_version ctx, s)
           | Some version_after \<Rightarrow>
               if version_after \<noteq> version then
                 (case again of
                    Some retry \<Rightarrow> retry s
                  | None \<Rightarrow> (respond 409 (json_resp 409 ''version changed during read, retry'' ''null'') ctx, s))
               else (respond 200 (resp_ok (files_json version files degraded)) ctx, s)))"

definition verify_config_hash ::
  "'s admin_cmd \<Rightarrow> 's admin_env \<Rightarrow> http_context \<Rightarrow> int \<Rightarrow> file_map \<Rightarrow> bool \<Rightarrow> ('s \<Rightarrow> 's answer) option \<Rightarrow> 's \<Rightarrow> 's answer" where
  "verify_config_hash cmd env ctx version files degraded again s =
     (case cmd s (Plain (Rq_hget kMetaKey (dec_of_int version))) of
        (reply, s) \<Rightarrow>
          let expected = (if rd_ok reply \<and> rd_type reply = ''string'' then json_string_field (rd_str reply) ''content_sha256'' else None);
              actual = content_sha256 (ae_sha env) files
          in if expected = None \<or> actual = None \<or> expected \<noteq> actual
             then (respond 409 (json_resp 409 ''current history snapshot hash is inconsistent'' ''null'') ctx, s)
             else verify_config_version cmd ctx version files degraded again s)"

definition read_config_mirror ::
  "'s admin_cmd \<Rightarrow> 's admin_env \<Rightarrow> http_context \<Rightarrow> int \<Rightarrow> ('s \<Rightarrow> 's answer) option \<Rightarrow> 's \<Rightarrow> 's answer" where
  "read_config_mirror cmd env ctx version again s =
     (case cmd s (Plain (Rq_hgetall kFilesKey)) of
        (reply, s) \<Rightarrow>
          if \<not> rd_ok reply then (redis_failed (rd_error reply) ctx, s)
          else
            (case admin_parse_hgetall reply of
               None \<Rightarrow> (respond 409 (json_resp 409 ''current history snapshot is missing'' ''null'') ctx, s)
             | Some files \<Rightarrow>
                 if files = [] then (respond 409 (json_resp 409 ''current history snapshot is missing'' ''null'') ctx, s)
                 else if hc_read_mode (ae_history env) = ''compat'' then verify_config_version cmd ctx version files True again s
                 else verify_config_hash cmd env ctx version files True again s))"

definition read_config_files ::
  "'s admin_cmd \<Rightarrow> 's admin_env \<Rightarrow> http_context \<Rightarrow> int \<Rightarrow> ('s \<Rightarrow> 's answer) option \<Rightarrow> 's \<Rightarrow> 's answer" where
  "read_config_files cmd env ctx version again s =
     (case cmd s (Plain (Rq_hgetall (snapshot_key version))) of
        (reply, s) \<Rightarrow>
          if \<not> rd_ok reply then (redis_failed (rd_error reply) ctx, s)
          else
            (case admin_parse_hgetall reply of
               None \<Rightarrow> (server_error ''files hash returned malformed data'' ctx, s)
             | Some files \<Rightarrow>
                 if files = [] then read_config_mirror cmd env ctx version again s
                 else verify_config_hash cmd env ctx version files False again s))"

text \<open>The chain is run again once when the version has changed meanwhile: \<open>attempts\<close> is the number of runs left after this one.\<close>

primrec read_config_version :: "'s admin_cmd \<Rightarrow> 's admin_env \<Rightarrow> http_context \<Rightarrow> nat \<Rightarrow> 's \<Rightarrow> 's answer" where
  "read_config_version cmd env ctx 0 s =
     (case cmd s (Plain (Rq_get kVersionKey)) of
        (reply, s) \<Rightarrow>
          if \<not> rd_ok reply then (redis_failed (rd_error reply) ctx, s)
          else (case redis_version reply of
                  None \<Rightarrow> (invalid_version ctx, s)
                | Some version \<Rightarrow> read_config_files cmd env ctx version None s))"
| "read_config_version cmd env ctx (Suc attempts) s =
     (case cmd s (Plain (Rq_get kVersionKey)) of
        (reply, s) \<Rightarrow>
          if \<not> rd_ok reply then (redis_failed (rd_error reply) ctx, s)
          else (case redis_version reply of
                  None \<Rightarrow> (invalid_version ctx, s)
                | Some version \<Rightarrow> read_config_files cmd env ctx version (Some (read_config_version cmd env ctx attempts)) s))"

section \<open>Saving\<close>

definition read_conflict_version :: "'s admin_cmd \<Rightarrow> http_context \<Rightarrow> 's \<Rightarrow> 's answer" where
  "read_conflict_version cmd ctx s =
     (case cmd s (Plain (Rq_get kVersionKey)) of
        (reply, s) \<Rightarrow>
          (respond 409 (json_resp 409 ''version conflict''
             (''{'' @ json_name ''current_version'' @ int_or_null (redis_version reply) @ ''}'')) ctx, s))"

definition save_refused :: "int \<Rightarrow> http_context \<Rightarrow> http_context" where
  "save_refused result ctx =
     (if result = -2 then server_error ''save script rejected invalid argv'' ctx
      else if result = -3 then server_error ''config Redis key type is invalid'' ctx
      else if result = -4 then server_error ''version key content is not numeric, manual repair required'' ctx
      else if result = -5 then inconsistent frozen ctx
      else if result = -6 then inconsistent ''history target already exists; manual repair required'' ctx
      else if result = -7 then server_error ''version publish returned an unexpected value'' ctx
      else if result = -8 then respond 400 (resp_err PARAM_ERROR ''snapshot exceeds configured capacity limits'') ctx
      else server_error (''save script returned unexpected code '' @ dec_of_int result) ctx)"

definition handle_save_reply :: "'s admin_cmd \<Rightarrow> http_context \<Rightarrow> redis_reply_data \<Rightarrow> 's \<Rightarrow> 's answer" where
  "handle_save_reply cmd ctx reply s =
     (if \<not> rd_ok reply then (redis_failed (rd_error reply) ctx, s)
      else
        (case redis_integer reply of
           None \<Rightarrow> (server_error ''save script returned non-integer'' ctx, s)
         | Some result \<Rightarrow>
             if result > 0 then (respond 200 (resp_ok (''{'' @ json_name ''version'' @ dec_of_int result @ ''}'')) ctx, s)
             else if result = -1 then read_conflict_version cmd ctx s
             else (save_refused result ctx, s)))"

text \<open>The checks before the script is called: an answer, or the request with the facts of its snapshot.\<close>

definition save_checked :: "'s admin_env \<Rightarrow> http_context \<Rightarrow> http_context + save_request \<times> snapshot_info" where
  "save_checked env ctx =
     (let cfg = ae_history env in
      if ae_inconsistent env then Inl (inconsistent frozen ctx)
      else
        (case the (parse_save_request (cx_body ctx)) of
           Inl e \<Rightarrow> Inl (bad_request e ctx)
         | Inr rq \<Rightarrow>
             (case validate_file_set (sv_files rq) True of
                Some e \<Rightarrow> Inl (bad_request e ctx)
              | None \<Rightarrow>
                  if length (sv_reason rq) > hc_max_reason_bytes cfg then
                    Inl (bad_request (''reason exceeds '' @ dec_of_nat (hc_max_reason_bytes cfg) @ '' bytes'') ctx)
                  else if sv_base_version rq = 2 ^ 63 - 1 then Inl (bad_request ''base_version is too large'' ctx)
                  else
                    (case validate_snapshot (ae_sha env) (foldl (\<lambda>m f. semplace (mf_name f) (mf_content f) m) [] (sv_files rq)) cfg True of
                       (Some e, _) \<Rightarrow> Inl (bad_request e ctx)
                     | (None, info) \<Rightarrow>
                         if ae_config_base env = [] then Inl (server_error ''config base is unavailable'' ctx)
                         else (case dry_run_config_set (ae_staging env) (sv_files rq) of
                                 Some e \<Rightarrow> Inl (bad_request (''dry-run rejected: '' @ e) ctx)
                               | None \<Rightarrow> Inr (rq, info))))))"

definition save_config :: "'s admin_cmd \<Rightarrow> 's admin_env \<Rightarrow> http_context \<Rightarrow> 's \<Rightarrow> 's answer" where
  "save_config cmd env ctx s =
     (case save_checked env ctx of
        Inl refusal \<Rightarrow> (refusal, s)
      | Inr (rq, info) \<Rightarrow>
          let base = sv_base_version rq; new_version = base + 1; p = cx_admin_principal ctx;
              meta = metadata_json new_version base (ae_time env) (admin_user p) ''save'' (sv_reason rq) info None;
              audit = audit_json (ae_audit_time env) p base new_version ''save'' (sv_reason rq) (sv_files rq)
          in case cmd s (Eval Save_script (save_keys base) (save_argv (ae_history env) base audit meta (map file_pair (sv_files rq)))) of
               (reply, s) \<Rightarrow> handle_save_reply cmd ctx reply s)"

definition start_config :: "'s admin_cmd \<Rightarrow> 's admin_env \<Rightarrow> http_context \<Rightarrow> 's \<Rightarrow> 's answer" where
  "start_config cmd env ctx s =
     (if cx_method ctx = ''GET'' then read_config_version cmd env ctx 1 s
      else if cx_method ctx = ''POST'' then save_config cmd env ctx s
      else (method_not_allowed ''GET, POST'' ctx, s))"

definition start_machines :: "'s admin_cmd \<Rightarrow> http_context \<Rightarrow> 's \<Rightarrow> 's answer" where
  "start_machines cmd ctx s =
     (if cx_method ctx \<noteq> ''GET'' then (method_not_allowed ''GET'' ctx, s)
      else
        (case cmd s (Plain (Rq_hgetall kMachinesKey)) of
           (reply, s) \<Rightarrow>
             if \<not> rd_ok reply then (redis_failed (rd_error reply) ctx, s)
             else
               (case admin_parse_hgetall reply of
                  None \<Rightarrow> (server_error ''machines hash returned malformed data'' ctx, s)
                | Some machines \<Rightarrow> (respond 200 (resp_ok (machines_json machines)) ctx, s))))"

section \<open>The history\<close>

definition path_only :: "string \<Rightarrow> string" where
  "path_only path = (case find_char (CHR ''?'') path of None \<Rightarrow> path | Some i \<Rightarrow> take i path)"

text \<open>An empty last piece has no value, so the pieces may be cut as lines are.\<close>

definition query_value :: "string \<Rightarrow> string \<Rightarrow> string option" where
  "query_value path key =
     (case find_char (CHR ''?'') path of
        None \<Rightarrow> None
      | Some q \<Rightarrow>
          map_option (\<lambda>p. drop (length key + 1) p)
            (find (\<lambda>p. case find_char (CHR ''='') p of None \<Rightarrow> False | Some eq \<Rightarrow> take eq p = key)
               (split_lt (CHR ''&'') (drop (q + 1) path))))"

definition valid_record_hash :: "'s admin_env \<Rightarrow> snapshot_record \<Rightarrow> bool" where
  "valid_record_hash env record =
     (let expected = json_string_field (sr_meta_json record) ''content_sha256''; actual = content_sha256 (ae_sha env) (sr_files record)
      in expected \<noteq> None \<and> actual \<noteq> None \<and> expected = actual)"

text \<open>The continuation gets the record and whether one of its files needs a restart.\<close>

definition read_detail ::
  "'s admin_cmd \<Rightarrow> http_context \<Rightarrow> int \<Rightarrow> (snapshot_record option \<Rightarrow> bool \<Rightarrow> 's \<Rightarrow> 's answer) \<Rightarrow> 's \<Rightarrow> 's answer" where
  "read_detail cmd ctx version callback s =
     (case cmd s (Eval Detail_script [kVersionKey, kMetaKey, kIndexKey, snapshot_key version] [dec_of_int version]) of
        (reply, s) \<Rightarrow>
          if \<not> rd_ok reply then (redis_failed (rd_error reply) ctx, s)
          else if rd_type reply \<noteq> ''array'' then (inconsistent ''history detail returned malformed data'' ctx, s)
          else if rd_elements reply = [] then callback None False s
          else
            (case parse_detail_elements (rd_elements reply) of
               None \<Rightarrow> (inconsistent ''history detail returned malformed fields'' ctx, s)
             | Some record \<Rightarrow> callback (Some record) (list_ex (\<lambda>(_, content). restart_required content) (sr_files record)) s))"

definition list_reply :: "http_context \<Rightarrow> redis_reply_data \<Rightarrow> http_context" where
  "list_reply ctx reply =
     (if \<not> rd_ok reply then redis_failed (rd_error reply) ctx
      else if rd_type reply \<noteq> ''array'' \<or> rd_elements reply = [] then inconsistent ''history list returned malformed data'' ctx
      else
        (case parse_int64 (hd (rd_elements reply)) of
           None \<Rightarrow> inconsistent ''history version is not numeric'' ctx
         | Some current \<Rightarrow>
             if current < 0 then inconsistent ''history version is not numeric'' ctx
             else if length (tl (rd_elements reply)) mod 2 \<noteq> 0 then inconsistent ''history list returned malformed rows'' ctx
             else respond 200 (resp_ok (history_list_json (tl (rd_elements reply)) current)) ctx))"

definition start_list :: "'s admin_cmd \<Rightarrow> 's admin_env \<Rightarrow> http_context \<Rightarrow> 's \<Rightarrow> 's answer" where
  "start_list cmd env ctx s =
     (let cfg = ae_history env;
          before = (case query_value (cx_path ctx) ''before'' of
                      None \<Rightarrow> Some 0
                    | Some t \<Rightarrow> (case parse_int64 t of None \<Rightarrow> None | Some v \<Rightarrow> if v \<le> 0 then None else Some v));
          limit = (case query_value (cx_path ctx) ''limit'' of
                     None \<Rightarrow> Some (int (hc_history_page_size cfg))
                   | Some t \<Rightarrow> (case parse_int64 t of
                                 None \<Rightarrow> None
                               | Some v \<Rightarrow> if v \<le> 0 \<or> v > int (hc_history_page_size_max cfg) then None else Some v))
      in if cx_method ctx \<noteq> ''GET'' then (method_not_allowed ''GET'' ctx, s)
         else
           (case before of
              None \<Rightarrow> (bad_request ''invalid before cursor'' ctx, s)
            | Some b \<Rightarrow>
                (case limit of
                   None \<Rightarrow> (bad_request ''invalid history limit'' ctx, s)
                 | Some l \<Rightarrow>
                     (case cmd s (Eval List_script [kVersionKey, kIndexKey, kMetaKey] [dec_of_int b, dec_of_int l, kSnapshotPrefix]) of
                        (reply, s) \<Rightarrow> (list_reply ctx reply, s)))))"

definition start_detail :: "'s admin_cmd \<Rightarrow> 's admin_env \<Rightarrow> http_context \<Rightarrow> int \<Rightarrow> 's \<Rightarrow> 's answer" where
  "start_detail cmd env ctx version =
     read_detail cmd ctx version (\<lambda>record _ s.
       case record of
         None \<Rightarrow> (not_found ctx, s)
       | Some r \<Rightarrow>
           if \<not> valid_record_hash env r then (inconsistent ''history snapshot hash mismatch'' ctx, s)
           else (respond 200 (resp_ok (detail_json version r)) ctx, s))"

definition no_changes :: "int \<Rightarrow> int \<Rightarrow> string" where
  "no_changes from to =
     ''{'' @ json_name ''from'' @ dec_of_int from @ '','' @ json_name ''to'' @ dec_of_int to @ '','' @ json_name ''changes'' @ ''[]}''"

definition diff_loaded :: "'s admin_cmd \<Rightarrow> 's admin_env \<Rightarrow> http_context \<Rightarrow> int \<Rightarrow> int option \<Rightarrow> snapshot_record option \<Rightarrow> 's \<Rightarrow> 's answer" where
  "diff_loaded cmd env ctx from_version to_version from s =
     (let limit = hc_max_diff_response_bytes (ae_history env) in
      case from of
        None \<Rightarrow> (not_found ctx, s)
      | Some f \<Rightarrow>
          if \<not> valid_record_hash env f then (inconsistent ''history source hash mismatch'' ctx, s)
          else
            let target = (case to_version of Some v \<Rightarrow> v | None \<Rightarrow> sr_current_version f) in
            if target = from_version then
              (respond 200 (resp_ok (case diff_json from_version f target f limit of
                 Some t \<Rightarrow> t | None \<Rightarrow> no_changes from_version target)) ctx, s)
            else
              read_detail cmd ctx target (\<lambda>to _ s.
                case to of
                  None \<Rightarrow> (not_found ctx, s)
                | Some t \<Rightarrow>
                    if \<not> valid_record_hash env t then (inconsistent ''history target hash mismatch'' ctx, s)
                    else (case diff_json from_version f target t limit of
                            None \<Rightarrow> (respond 413 (resp_err 413 ''diff response exceeds configured limit'') ctx, s)
                          | Some text_json \<Rightarrow> (respond 200 (resp_ok text_json) ctx, s))) s)"

definition start_diff :: "'s admin_cmd \<Rightarrow> 's admin_env \<Rightarrow> http_context \<Rightarrow> int \<Rightarrow> 's \<Rightarrow> 's answer" where
  "start_diff cmd env ctx from_version s =
     (let go = (\<lambda>to. read_detail cmd ctx from_version (\<lambda>from _. diff_loaded cmd env ctx from_version to from) s) in
      case query_value (cx_path ctx) ''to'' of
        None \<Rightarrow> go None
      | Some t \<Rightarrow>
          (case parse_int64 t of
             None \<Rightarrow> (bad_request ''invalid diff target version'' ctx, s)
           | Some v \<Rightarrow> if v \<le> 0 then (bad_request ''invalid diff target version'' ctx, s) else go (Some v)))"

definition start_path :: "'s admin_cmd \<Rightarrow> 's admin_env \<Rightarrow> http_context \<Rightarrow> 's \<Rightarrow> 's answer" where
  "start_path cmd env ctx s =
     (if cx_method ctx \<noteq> ''GET'' then (method_not_allowed ''GET'' ctx, s)
      else
        let prefix = ''/api/admin/config/history/''; path = path_only (cx_path ctx) in
        if \<not> starts_with prefix path then (not_found ctx, s)
        else
          let suffix = drop (length prefix) path;
              diff = (length suffix > 5 \<and> drop (length suffix - 5) suffix = ''/diff'')
          in case parse_int64 (if diff then take (length suffix - 5) suffix else suffix) of
               None \<Rightarrow> (not_found ctx, s)
             | Some version \<Rightarrow>
                 if version \<le> 0 then (not_found ctx, s)
                 else if diff then start_diff cmd env ctx version s
                 else start_detail cmd env ctx version s)"

section \<open>Rolling back\<close>

definition rollback_refused :: "int \<Rightarrow> http_context \<Rightarrow> http_context" where
  "rollback_refused result ctx =
     (if result = -1 then inconsistent ''version conflict'' ctx
      else if result = -9 then inconsistent ''rollback source changed or was deleted; refresh and retry'' ctx
      else if result = -5 \<or> result = -6 then inconsistent ''history is inconsistent; rollback is frozen'' ctx
      else if result = -8 then inconsistent ''rollback snapshot exceeds current capacity limits'' ctx
      else if result = -4 then server_error ''version key content is not numeric, manual repair required'' ctx
      else server_error (''rollback script failed with code '' @ dec_of_int result) ctx)"

definition handle_rollback_reply :: "http_context \<Rightarrow> rollback_request \<Rightarrow> bool \<Rightarrow> bool \<Rightarrow> redis_reply_data \<Rightarrow> http_context" where
  "handle_rollback_reply ctx rq restart sensitive reply =
     (if \<not> rd_ok reply then redis_failed (rd_error reply) ctx
      else
        (case redis_integer reply of
           None \<Rightarrow> inconsistent ''rollback script returned non-integer'' ctx
         | Some result \<Rightarrow>
             if result > 0 then
               respond 200 (resp_ok (''{'' @ json_name ''version'' @ dec_of_int result @ '','' @
                 json_name ''rollback_from'' @ dec_of_int (rb_target_version rq) @ '','' @
                 json_name ''restart_required'' @ bool_json restart @ '','' @
                 json_name ''sensitive'' @ bool_json sensitive @ ''}'')) ctx
             else rollback_refused result ctx))"

definition submit_rollback ::
  "'s admin_cmd \<Rightarrow> 's admin_env \<Rightarrow> http_context \<Rightarrow> rollback_request \<Rightarrow> bool \<Rightarrow> managed_file list \<Rightarrow> snapshot_record \<Rightarrow> snapshot_info \<Rightarrow> 's \<Rightarrow> 's answer" where
  "submit_rollback cmd env ctx rq restart files source info s =
     (let base = rb_base_version rq; target = rb_target_version rq; new_version = base + 1; p = cx_admin_principal ctx;
          meta = metadata_json new_version base (ae_time env) (admin_user p) ''rollback'' (rb_reason rq) info (Some target);
          audit = audit_json (ae_audit_time env) p base new_version ''rollback'' (rb_reason rq) files;
          sensitive = list_ex (\<lambda>f. looks_sensitive (mf_content f)) files
      in case cmd s (Eval Rollback_script (rollback_keys base target)
              (rollback_argv (ae_history env) base target audit meta (sr_meta_json source) (map file_pair files))) of
           (reply, s) \<Rightarrow> (handle_rollback_reply ctx rq restart sensitive reply, s))"

definition rollback_conflicts :: "file_map \<Rightarrow> string list" where
  "rollback_conflicts files =
     concat (map (\<lambda>(n, c). case validate_managed_file n c of None \<Rightarrow> [] | Some reason \<Rightarrow> [n @ '': '' @ reason]) files)"

definition to_managed :: "file_map \<Rightarrow> managed_file list" where
  "to_managed files = map (\<lambda>(n, c). \<lparr>mf_name = n, mf_content = c\<rparr>) files"

definition prepare_rollback ::
  "'s admin_cmd \<Rightarrow> 's admin_env \<Rightarrow> http_context \<Rightarrow> rollback_request \<Rightarrow> snapshot_record option \<Rightarrow> bool \<Rightarrow> 's \<Rightarrow> 's answer" where
  "prepare_rollback cmd env ctx rq record restart s =
     (case record of
        None \<Rightarrow> (not_found ctx, s)
      | Some r \<Rightarrow>
          if sr_current_version r \<noteq> rb_base_version rq then
            (respond 409 (json_resp 409 ''version conflict''
               (''{'' @ json_name ''current_version'' @ dec_of_int (sr_current_version r) @ ''}'')) ctx, s)
          else if \<not> valid_record_hash env r then (inconsistent ''rollback source hash mismatch'' ctx, s)
          else
            let files = to_managed (sr_files r); conflicts = rollback_conflicts (sr_files r) in
            if conflicts \<noteq> [] then
              (respond 409 (json_resp 409 ''rollback conflicts with current managed-file rules''
                 (''{'' @ json_name ''conflicts'' @ ''['' @ comma_list (map json_quoted conflicts) @ '']}'')) ctx, s)
            else
              (case dry_run_config_set (ae_staging env) files of
                 Some e \<Rightarrow> (inconsistent (''rollback rejected by current validation: '' @ e) ctx, s)
               | None \<Rightarrow>
                   (case validate_snapshot (ae_sha env) (sr_files r) (ae_history env) True of
                      (Some e, _) \<Rightarrow> (inconsistent e ctx, s)
                    | (None, info) \<Rightarrow> submit_rollback cmd env ctx rq restart files r info s)))"

definition start_rollback :: "'s admin_cmd \<Rightarrow> 's admin_env \<Rightarrow> http_context \<Rightarrow> 's \<Rightarrow> 's answer" where
  "start_rollback cmd env ctx s =
     (if cx_method ctx \<noteq> ''POST'' then (method_not_allowed ''POST'' ctx, s)
      else
        (case the (parse_rollback_request (cx_body ctx)) of
           Inl e \<Rightarrow> (bad_request e ctx, s)
         | Inr rq \<Rightarrow>
             if length (rb_reason rq) > hc_max_reason_bytes (ae_history env) then (bad_request ''reason exceeds configured limit'' ctx, s)
             else if rb_base_version rq = 2 ^ 63 - 1 then (bad_request ''base_version is too large'' ctx, s)
             else read_detail cmd ctx (rb_target_version rq) (prepare_rollback cmd env ctx rq) s))"

definition start_rollback_request :: "'s admin_cmd \<Rightarrow> 's admin_env \<Rightarrow> http_context \<Rightarrow> 's \<Rightarrow> 's answer" where
  "start_rollback_request cmd env ctx s =
     (if ae_inconsistent env then (inconsistent ''history is inconsistent; rollback is frozen'' ctx, s)
      else start_rollback cmd env ctx s)"

section \<open>Repairs\<close>

record repair_plan =
  pl_compat_only :: bool
  pl_read_history_snapshot :: bool
  pl_synthesize_metadata :: bool
  pl_use_config_staging :: bool
  pl_action :: string
  pl_script :: admin_script

definition snapshot_repair_plan :: repair_plan where
  "snapshot_repair_plan = \<lparr>pl_compat_only = False, pl_read_history_snapshot = False, pl_synthesize_metadata = False,
     pl_use_config_staging = False, pl_action = ''snapshot-repair'', pl_script = Snapshot_repair_script\<rparr>"

definition mirror_rebuild_plan :: repair_plan where
  "mirror_rebuild_plan = \<lparr>pl_compat_only = False, pl_read_history_snapshot = True, pl_synthesize_metadata = False,
     pl_use_config_staging = True, pl_action = ''mirror-rebuild'', pl_script = Mirror_rebuild_script\<rparr>"

definition migration_plan :: repair_plan where
  "migration_plan = \<lparr>pl_compat_only = True, pl_read_history_snapshot = False, pl_synthesize_metadata = True,
     pl_use_config_staging = False, pl_action = ''migration'', pl_script = Migration_script\<rparr>"

text \<open>\<open>version\<close> is the version the answer names.\<close>

definition finish_repair_success :: "'s admin_env \<Rightarrow> http_context \<Rightarrow> string \<Rightarrow> int \<Rightarrow> 's \<Rightarrow> 's answer" where
  "finish_repair_success env ctx action version s =
     (let reply = (\<lambda>consistent. respond 200 (resp_ok (''{'' @ json_name ''version'' @ dec_of_int version @ '','' @
            json_pair ''action'' action @ '','' @ json_name ''history_consistent'' @ bool_json consistent @ ''}'')) ctx)
      in case ae_refresh env of
           None \<Rightarrow> (reply True, s)
         | Some refresh \<Rightarrow> (case refresh s of (bad, s) \<Rightarrow> (reply (\<not> bad), s)))"

definition refused_status :: "int \<Rightarrow> int" where
  "refused_status result = (if result = -2 \<or> result = -3 \<or> result = -4 then 500 else 409)"

definition handle_repair_reply :: "'s admin_env \<Rightarrow> http_context \<Rightarrow> string \<Rightarrow> redis_reply_data \<Rightarrow> 's \<Rightarrow> 's answer" where
  "handle_repair_reply env ctx action reply s =
     (if \<not> rd_ok reply then (redis_failed (rd_error reply) ctx, s)
      else
        (case redis_integer reply of
           None \<Rightarrow> (inconsistent ''history repair returned non-integer'' ctx, s)
         | Some result \<Rightarrow>
             if result > 0 then finish_repair_success env ctx action result s
             else (respond (refused_status result) (json_resp (refused_status result)
                     (''history repair refused with code '' @ dec_of_int result) ''null'') ctx, s)))"

definition repair_keys :: "repair_plan \<Rightarrow> int \<Rightarrow> string list" where
  "repair_keys plan version =
     [kVersionKey, kFilesKey, kMetaKey, kIndexKey, snapshot_key version,
      if pl_use_config_staging plan then kStagingKey else kSnapshotStagingKey, kAuditKey]"

definition repair_argv :: "history_config \<Rightarrow> int \<Rightarrow> string \<Rightarrow> string \<Rightarrow> (string \<times> string) list \<Rightarrow> string list" where
  "repair_argv cfg version meta audit fs = [dec_of_int version, meta, audit] @ limit_args cfg @ file_args fs"

definition submit_repair ::
  "'s admin_cmd \<Rightarrow> 's admin_env \<Rightarrow> http_context \<Rightarrow> repair_plan \<Rightarrow> repair_request \<Rightarrow> file_map \<Rightarrow> string \<Rightarrow> 's \<Rightarrow> 's answer" where
  "submit_repair cmd env ctx plan rq files meta s =
     (let version = rp_version rq;
          audit = audit_json (ae_audit_time env) (cx_admin_principal ctx) version version (pl_action plan) (rp_reason rq) (to_managed files)
      in case cmd s (Eval (pl_script plan) (repair_keys plan version) (repair_argv (ae_history env) version meta audit files)) of
           (reply, s) \<Rightarrow> handle_repair_reply env ctx (pl_action plan) reply s)"

definition read_repair_meta ::
  "'s admin_cmd \<Rightarrow> 's admin_env \<Rightarrow> http_context \<Rightarrow> repair_plan \<Rightarrow> repair_request \<Rightarrow> file_map \<Rightarrow> string \<Rightarrow> 's \<Rightarrow> 's answer" where
  "read_repair_meta cmd env ctx plan rq files mirror_hash s =
     (case cmd s (Plain (Rq_hget kMetaKey (dec_of_int (rp_version rq)))) of
        (reply, s) \<Rightarrow>
          if \<not> rd_ok reply \<or> rd_type reply \<noteq> ''string'' then (inconsistent ''current history metadata is missing'' ctx, s)
          else if json_string_field (rd_str reply) ''content_sha256'' \<noteq> Some mirror_hash
          then (inconsistent ''current mirror hash does not match history metadata'' ctx, s)
          else submit_repair cmd env ctx plan rq files (rd_str reply) s)"

definition read_repair_mirror ::
  "'s admin_cmd \<Rightarrow> 's admin_env \<Rightarrow> http_context \<Rightarrow> repair_plan \<Rightarrow> repair_request \<Rightarrow> 's \<Rightarrow> 's answer" where
  "read_repair_mirror cmd env ctx plan rq s =
     (case cmd s (Plain (Rq_hgetall kFilesKey)) of
        (reply, s) \<Rightarrow>
          (case admin_parse_hgetall reply of
             None \<Rightarrow> (inconsistent ''current mirror is missing or malformed'' ctx, s)
           | Some files \<Rightarrow>
               if files = [] then (inconsistent ''current mirror is missing or malformed'' ctx, s)
               else
                 (case validate_snapshot (ae_sha env) files (ae_history env) True of
                    (Some e, _) \<Rightarrow> (inconsistent e ctx, s)
                  | (None, info) \<Rightarrow>
                      if pl_synthesize_metadata plan then
                        submit_repair cmd env ctx plan rq files
                          (metadata_json (rp_version rq) (rp_version rq) (ae_time env) (admin_user (cx_admin_principal ctx))
                             ''migration'' (rp_reason rq) info None) s
                      else read_repair_meta cmd env ctx plan rq files (si_content_sha256 info) s)))"

definition start_repair :: "'s admin_cmd \<Rightarrow> 's admin_env \<Rightarrow> repair_plan \<Rightarrow> http_context \<Rightarrow> 's \<Rightarrow> 's answer" where
  "start_repair cmd env plan ctx s =
     (if cx_method ctx \<noteq> ''POST'' then (method_not_allowed ''POST'' ctx, s)
      else
        (case the (parse_repair_request (cx_body ctx)) of
           Inl e \<Rightarrow> (bad_request e ctx, s)
         | Inr rq \<Rightarrow>
             if length (rp_reason rq) > hc_max_reason_bytes (ae_history env) then (bad_request ''reason exceeds configured limit'' ctx, s)
             else if pl_compat_only plan \<and> hc_read_mode (ae_history env) \<noteq> ''compat''
             then (inconsistent ''migration is allowed only in local compat mode'' ctx, s)
             else if pl_read_history_snapshot plan then
               read_detail cmd ctx (rp_version rq) (\<lambda>record _ s.
                 case record of
                   None \<Rightarrow> (inconsistent ''current history snapshot is not complete'' ctx, s)
                 | Some r \<Rightarrow>
                     if sr_current_version r \<noteq> rp_version rq then (inconsistent ''current history snapshot is not complete'' ctx, s)
                     else if \<not> valid_record_hash env r then (inconsistent ''current history snapshot hash mismatch'' ctx, s)
                     else submit_repair cmd env ctx plan rq (sr_files r) (sr_meta_json r) s) s
             else read_repair_mirror cmd env ctx plan rq s))"

section \<open>Orphans\<close>

definition orphan_audit :: "'s admin_env \<Rightarrow> http_context \<Rightarrow> orphan_request \<Rightarrow> string \<Rightarrow> file_map \<Rightarrow> string" where
  "orphan_audit env ctx rq action files =
     audit_json (ae_audit_time env) (cx_admin_principal ctx) (or_current_version rq) (or_target_version rq) action (or_reason rq)
       (to_managed files)"

definition handle_orphan_reply :: "'s admin_env \<Rightarrow> http_context \<Rightarrow> orphan_request \<Rightarrow> string \<Rightarrow> redis_reply_data \<Rightarrow> 's \<Rightarrow> 's answer" where
  "handle_orphan_reply env ctx rq action reply s =
     (let result = (if rd_ok reply then redis_integer reply else None);
          refuse = (\<lambda>status msg. (respond status (json_resp status msg ''null'') ctx, s))
      in if \<not> rd_ok reply then refuse 500 (rd_error reply)
         else case result of
           None \<Rightarrow> refuse 500 ''orphan resolution returned non-integer''
         | Some r \<Rightarrow>
             if r \<le> 0 then refuse (refused_status r) (''orphan resolution refused with code '' @ dec_of_int r)
             else finish_repair_success env ctx action (if action = ''delete-orphan'' then or_current_version rq else r) s)"

definition submit_restore_version ::
  "'s admin_cmd \<Rightarrow> 's admin_env \<Rightarrow> http_context \<Rightarrow> orphan_request \<Rightarrow> file_map \<Rightarrow> string \<Rightarrow> 's \<Rightarrow> 's answer" where
  "submit_restore_version cmd env ctx rq files meta s =
     (case cmd s (Eval Restore_version_script
          [kVersionKey, kFilesKey, kIndexKey, kMetaKey, snapshot_key (or_target_version rq), kStagingKey, kAuditKey, kMachinesKey]
          ([dec_of_int (or_current_version rq), dec_of_int (or_target_version rq), meta, orphan_audit env ctx rq ''restore-version'' files] @
           limit_args (ae_history env) @ file_args files)) of
        (reply, s) \<Rightarrow> handle_orphan_reply env ctx rq ''restore-version'' reply s)"

definition submit_delete_orphan ::
  "'s admin_cmd \<Rightarrow> 's admin_env \<Rightarrow> http_context \<Rightarrow> orphan_request \<Rightarrow> file_map \<Rightarrow> string \<Rightarrow> bool \<Rightarrow> bool \<Rightarrow> 's \<Rightarrow> 's answer" where
  "submit_delete_orphan cmd env ctx rq files meta indexed snapshot_exists s =
     (case cmd s (Eval Delete_orphan_script
          [kVersionKey, kIndexKey, kMetaKey, snapshot_key (or_target_version rq), kAuditKey, kMachinesKey]
          ([dec_of_int (or_current_version rq), dec_of_int (or_target_version rq), meta, flag indexed, flag snapshot_exists,
            orphan_audit env ctx rq ''delete-orphan'' files] @ file_args files)) of
        (reply, s) \<Rightarrow> handle_orphan_reply env ctx rq ''delete-orphan'' reply s)"

definition prepare_orphan_resolution ::
  "'s admin_cmd \<Rightarrow> 's admin_env \<Rightarrow> http_context \<Rightarrow> orphan_request \<Rightarrow> redis_reply_data \<Rightarrow> 's \<Rightarrow> 's answer" where
  "prepare_orphan_resolution cmd env ctx rq reply s =
     (let es = rd_elements reply; target = or_target_version rq in
      if \<not> rd_ok reply \<or> rd_type reply \<noteq> ''array'' \<or> length es < 6 \<or> (length es - 6) mod 2 \<noteq> 0 \<or> hd es = ''__error__''
      then (inconsistent ''orphan state is missing, malformed or changed'' ctx, s)
      else
        (case (parse_int64 (es ! 0), parse_int64 (es ! 1), parse_int64 (es ! 2)) of
           (Some current, Some index_high, Some high) \<Rightarrow>
             if current \<noteq> or_current_version rq then (inconsistent ''orphan state changed; inspect again'' ctx, s)
             else
               let indexed = (es ! 3 = ''1''); meta = es ! 4; snapshot_exists = (es ! 5 = ''1'');
                   files = smap_of (pairs_of (drop 6 es)); observed = ae_observed env
               in if es ! 3 \<noteq> ''0'' \<and> \<not> indexed \<or> es ! 5 \<noteq> ''0'' \<and> \<not> snapshot_exists
                  then (inconsistent ''orphan inspection returned malformed flags'' ctx, s)
                  else if or_action rq = ''restore-version'' then
                    if \<not> indexed \<or> meta = ''__missing__'' \<or> \<not> snapshot_exists \<or> files = [] \<or> index_high \<noteq> target \<or>
                       high > target \<or> observed > target
                    then (inconsistent ''target is not a complete trusted high-water snapshot'' ctx, s)
                    else if \<not> valid_record_hash env \<lparr>sr_current_version = 0, sr_meta_json = meta, sr_files = files\<rparr>
                    then (inconsistent ''orphan snapshot hash does not match metadata'' ctx, s)
                    else (case validate_snapshot (ae_sha env) files (ae_history env) True of
                            (Some e, _) \<Rightarrow> (inconsistent e ctx, s)
                          | (None, _) \<Rightarrow> submit_restore_version cmd env ctx rq files meta s)
                  else if target \<noteq> current + 1 \<or> high > current \<or> observed > current \<or>
                       \<not> indexed \<and> meta = ''__missing__'' \<and> \<not> snapshot_exists
                  then (inconsistent ''delete refused: published-version evidence exists or target is not current+1'' ctx, s)
                  else submit_delete_orphan cmd env ctx rq files meta indexed snapshot_exists s
         | _ \<Rightarrow> (inconsistent ''orphan state changed; inspect again'' ctx, s)))"

definition start_orphan_resolution :: "'s admin_cmd \<Rightarrow> 's admin_env \<Rightarrow> http_context \<Rightarrow> 's \<Rightarrow> 's answer" where
  "start_orphan_resolution cmd env ctx s =
     (if cx_method ctx \<noteq> ''POST'' then (method_not_allowed ''POST'' ctx, s)
      else
        (case the (parse_orphan_request (cx_body ctx)) of
           Inl e \<Rightarrow> (bad_request e ctx, s)
         | Inr rq \<Rightarrow>
             if length (or_reason rq) > hc_max_reason_bytes (ae_history env) then (bad_request ''reason exceeds configured limit'' ctx, s)
             else
               (case cmd s (Eval Orphan_inspect_script
                    [kVersionKey, kIndexKey, kMetaKey, snapshot_key (or_target_version rq), kMachinesKey]
                    [dec_of_int (or_target_version rq)]) of
                  (reply, s) \<Rightarrow> prepare_orphan_resolution cmd env ctx rq reply s)))"

end
