(* ===== verification/Handler_Safety.thy ===== *)
theory Handler_Safety
  imports Admin_Handlers
begin

text \<open>
  What the administration promises to its users: no command without authorization, a save and a rollback that tell the
  truth about what they published, and a read that shows one published version although other editors work at the same time.
\<close>

section \<open>Authorization\<close>

text \<open>
  C37. No handler touches the store unless the configuration in force turns authentication off, or the request carries a bearer
  token bound to an account of that configuration with the role admin; the handler then runs as that principal. Every other
  request is answered 401, 403 or 503, and the store is as it was.
\<close>

theorem admin_commands_need_token:
  assumes "services_ok lib sv"
    and "start_blocking cr lib fs now redis_available action sv ctx s = (ctx', s', sv')"
  shows "s' = s \<and> cx_status_code ctx' \<in> {401, 403, 503} \<or>
    (\<exists>admin ctx1. fst (load_effective_admin_config lib fs sv) = Some admin \<and> (ctx', s') = action ctx1 s \<and>
       (if ac_insecure_no_auth admin then cx_admin_principal ctx1 = None
        else \<exists>p pk. cx_admin_principal ctx1 = Some p \<and> ''admin'' \<in> set (roles p) \<and>
          effective_key lib fs sv admin = Some pk \<and> token_bound cr lib now admin (get_header ctx ''Authorization'') pk p))"
proof -
  obtain ok ctx1 sv1 where a: "authorize_admin cr lib fs now sv ctx = (ok, ctx1, sv1)" by (metis prod_cases3)
  note d = authorize_admin_decides [OF assms(1), where cr = cr and fs = fs and now = now and ctx = ctx]
  show ?thesis
  proof (cases ok)
    case False
    with a assms(2) d show ?thesis by (auto simp: start_blocking_def)
  next
    case True
    show ?thesis
    proof (cases redis_available)
      case False
      with True a assms(2) show ?thesis by (auto simp: start_blocking_def respond_def)
    next
      case av: True
      with True a assms(2) have "(ctx', s') = action ctx1 s" by (auto simp: start_blocking_def split: prod.splits)
      moreover from d a True obtain admin where "fst (load_effective_admin_config lib fs sv) = Some admin"
        "if ac_insecure_no_auth admin then cx_admin_principal ctx1 = None
         else \<exists>p pk. cx_admin_principal ctx1 = Some p \<and> ''admin'' \<in> set (roles p) \<and>
           effective_key lib fs sv admin = Some pk \<and> token_bound cr lib now admin (get_header ctx ''Authorization'') pk p"
        by auto
      ultimately show ?thesis by blast
    qed
  qed
qed

section \<open>A server that runs the scripts\<close>

text \<open>
  Every script runs on the server without interleaving; \<open>meanwhile\<close> is what other clients do until the next command of this handler.
\<close>

definition int_reply :: "(string + int) \<times> 's \<Rightarrow> redis_reply \<times> 's" where
  "int_reply = apfst (\<lambda>r. case r of Inl e \<Rightarrow> R_error e | Inr i \<Rightarrow> R_integer i)"

definition array_reply :: "(string + string list) \<times> 's \<Rightarrow> redis_reply \<times> 's" where
  "array_reply = apfst (\<lambda>r. case r of Inl e \<Rightarrow> R_error e | Inr xs \<Rightarrow> R_array (map R_string xs))"

fun admin_exec :: "'s redis \<Rightarrow> lua_num \<Rightarrow> 's \<Rightarrow> admin_request \<Rightarrow> redis_reply \<times> 's" where
  "admin_exec srv L s (Plain (Rq_get k)) = apfst reply_of (srv s (GET k))"
| "admin_exec srv L s (Plain (Rq_hgetall k)) = apfst reply_of (srv s (HGETALL k))"
| "admin_exec srv L s (Plain (Rq_hget k f)) = apfst reply_of (srv s (HGET k f))"
| "admin_exec srv L s (Plain (Rq_hset k f v)) = apfst reply_of (srv s (HSET k [(f, v)]))"
| "admin_exec srv L s (Plain (Rq_seed ks as)) = int_reply (seed_script srv L ks as s)"
| "admin_exec srv L s (Eval Save_script ks as) = int_reply (save_script srv L ks as s)"
| "admin_exec srv L s (Eval Rollback_script ks as) = int_reply (rollback_script srv L ks as s)"
| "admin_exec srv L s (Eval Snapshot_repair_script ks as) = int_reply (snapshot_repair_script srv L ks as s)"
| "admin_exec srv L s (Eval Mirror_rebuild_script ks as) = int_reply (mirror_rebuild_script srv L ks as s)"
| "admin_exec srv L s (Eval Migration_script ks as) = int_reply (migration_script srv L ks as s)"
| "admin_exec srv L s (Eval Restore_version_script ks as) = int_reply (restore_version_script srv L ks as s)"
| "admin_exec srv L s (Eval Delete_orphan_script ks as) = int_reply (delete_orphan_script srv L ks as s)"
| "admin_exec srv L s (Eval Detail_script ks as) = array_reply (detail_script srv L ks as s)"
| "admin_exec srv L s (Eval List_script ks as) = array_reply (list_script srv L ks as s)"
| "admin_exec srv L s (Eval Orphan_inspect_script ks as) = array_reply (orphan_inspect_script srv L ks as s)"

definition server_cmd :: "'s redis \<Rightarrow> lua_num \<Rightarrow> ('s \<Rightarrow> 's) \<Rightarrow> 's admin_cmd" where
  "server_cmd srv L meanwhile s rq = (case admin_exec srv L s rq of (reply, s') \<Rightarrow> (parse_redis_reply reply, meanwhile s'))"

lemma redis_integer_reply [simp]:
  "redis_integer (parse_redis_reply (R_integer i)) = Some i" "rd_ok (parse_redis_reply (R_integer i))"
  by (simp_all add: redis_integer_def parse_redis_reply_def redis_reply_data0_def)

section \<open>Saving\<close>

text \<open>What the checks of a save establish.\<close>

definition small_limits :: "history_config \<Rightarrow> bool" where
  "small_limits cfg \<longleftrightarrow> hc_max_files cfg < 10 ^ 14 \<and> hc_max_file_bytes cfg < 10 ^ 14 \<and> hc_max_snapshot_bytes cfg < 10 ^ 14"

lemma semplace_fresh: "map_of m k = None \<Longrightarrow> semplace k v m = sput k v m"
  by (simp add: semplace_def)

lemma emplaced_files:
  assumes "distinct (map mf_name fs)"
  shows "foldl (\<lambda>m f. semplace (mf_name f) (mf_content f) m) [] fs = smap_of (map file_pair fs)"
proof -
  have "foldl (\<lambda>m f. semplace (mf_name f) (mf_content f) m) m fs = foldl (\<lambda>m (k, v). sput k v m) m (map file_pair fs)"
    if "distinct (map mf_name fs)" "smap_ok m" "set (map mf_name fs) \<inter> fst ` set m = {}" for m
    using that
  proof (induction fs arbitrary: m)
    case (Cons f fs)
    then have "semplace (mf_name f) (mf_content f) m = sput (mf_name f) (mf_content f) m"
      by (intro semplace_fresh) (auto simp: map_of_eq_None_iff)
    with Cons.IH [of "sput (mf_name f) (mf_content f) m"] Cons.prems show ?case by (auto simp: file_pair_def)
  qed simp
  from this [OF assms, of "[]"] show ?thesis by (simp add: smap_of_def)
qed

lemma smap_of_perm: "distinct (map fst ps) \<Longrightarrow> mset (smap_of ps) = mset ps"
proof -
  assume d: "distinct (map fst ps)"
  have "set (smap_of ps) = set ps"
    using map_of_inject_set [of "smap_of ps" ps] smap_ok_distinct [OF smap_of_ok, of ps] d map_of_rev [OF d] by simp
  moreover have "distinct (smap_of ps)" "distinct ps"
    using d smap_ok_distinct [OF smap_of_ok, of ps] by (auto simp: distinct_map)
  ultimately show ?thesis by (simp add: set_eq_iff_mset_eq_distinct)
qed

lemma fits_perm:
  assumes "mset fs = mset gs" and "files_fit cfg gs" shows "files_fit cfg fs"
proof -
  have "sum_list (map (\<lambda>(n, c). length c) fs) = sum_list (map (\<lambda>(n, c). length c) gs)"
    by (simp flip: sum_mset_sum_list add: assms(1))
  moreover have "fs \<noteq> []" using assms by (auto simp: files_fit_def)
  ultimately show ?thesis
    using assms(2) mset_eq_length [OF assms(1)] mset_eq_setD [OF assms(1)] by (simp add: files_fit_def)
qed

lemma validated_fits:
  assumes "validate_snapshot sha m cfg True = (None, info)" and "small_limits cfg"
  shows "files_fit cfg m"
  using validate_snapshot_ok [OF assms(1)] assms(2) by (auto simp: files_fit_def small_limits_def list_all_iff)

lemma save_checked_ok:
  assumes "save_checked env ctx = Inr (rq, info)" and "small_limits (ae_history env)"
  shows "parse_save_request (cx_body ctx) = Some (Inr rq) \<and> distinct (map mf_name (sv_files rq)) \<and>
    files_fit (ae_history env) (map file_pair (sv_files rq)) \<and> 0 \<le> sv_base_version rq \<and>
    dry_run_config_set (ae_staging env) (sv_files rq) = None"
proof -
  have p: "parse_save_request (cx_body ctx) \<noteq> None"
    unfolding parse_save_request_def by (rule parse_body_total [OF handlers_total(2)])
  from assms(1) have v: "the (parse_save_request (cx_body ctx)) = Inr rq" "validate_file_set (sv_files rq) True = None"
    "validate_snapshot (ae_sha env) (foldl (\<lambda>m f. semplace (mf_name f) (mf_content f) m) [] (sv_files rq)) (ae_history env) True = (None, info)"
    "dry_run_config_set (ae_staging env) (sv_files rq) = None"
    by (auto simp: save_checked_def Let_def split: if_splits sum.splits option.splits prod.splits)
  have d: "distinct (map mf_name (sv_files rq))" using validate_file_set_ok [OF v(2)] by blast
  then have "distinct (map fst (map file_pair (sv_files rq)))" by (simp add: file_pair_def comp_def)
  from fits_perm [OF smap_of_perm [OF this, symmetric] validated_fits [OF v(3) [unfolded emplaced_files [OF d]] assms(2)]]
  have "files_fit (ae_history env) (map file_pair (sv_files rq))" .
  moreover have "parse_save_request (cx_body ctx) = Some (Inr rq)" using p v(1) by auto
  moreover from this have "0 \<le> sv_base_version rq" using save_accepted by blast
  ultimately show ?thesis using d v(4) by blast
qed

lemma respond_status [simp]:
  "cx_status_code (respond i b ctx) = i" "cx_response_body (respond i b ctx) = b"
  by (simp_all add: respond_def)

lemma answer_status [simp]:
  "cx_status_code (bad_request e ctx) = 400" "cx_status_code (not_found ctx) = 404" "cx_status_code (redis_failed e ctx) = 500"
  "cx_status_code (server_error e ctx) = 500" "cx_status_code (inconsistent e ctx) = 409" "cx_status_code (invalid_version ctx) = 500"
  "cx_status_code (method_not_allowed a ctx) = 405"
  by (simp_all add: bad_request_def not_found_def redis_failed_def server_error_def inconsistent_def invalid_version_def
      method_not_allowed_def Let_def)

lemma refused_not_ok [simp]: "cx_status_code (save_refused c ctx) \<noteq> 200" "cx_status_code (rollback_refused c ctx) \<noteq> 200"
  by (simp_all add: save_refused_def rollback_refused_def)

lemma save_checked_refuses: "save_checked env ctx = Inl ctx' \<Longrightarrow> cx_status_code ctx' \<noteq> 200"
  by (auto simp: save_checked_def Let_def split: if_splits sum.splits option.splits prod.splits)

text \<open>A script call as this handler sees it.\<close>

lemma server_change:
  assumes "serves srv view" and "lua_ok L" and "represents (view s) H" and "small_history H" and "change_ok cfg ch"
    and "int_reply (change_step srv L cfg s ch) = admin_exec srv L s rq"
  shows "\<exists>s1. server_cmd srv L meanwhile s rq = (parse_redis_reply (R_integer (fst (spec_change H ch))), meanwhile s1) \<and>
    represents (view s1) (snd (spec_change H ch))"
  using change_step_rep [OF assms(1-5)] assms(6) [symmetric] by (auto simp: server_cmd_def int_reply_def)

lemma get_keeps_view: "serves srv view \<Longrightarrow> view (snd (srv s (GET k))) = view s"
  by (auto simp: serves_def wrongtype_def split: option.split rvalue.split)

lemma server_get_view:
  assumes "serves srv view" and "server_cmd srv L meanwhile s (Plain (Rq_get k)) = (r, s')"
  shows "\<exists>s1. view s1 = view s \<and> s' = meanwhile s1"
  using assms(2) get_keeps_view [OF assms(1), of s k] by (cases "srv s (GET k)") (auto simp: server_cmd_def)


section \<open>Rolling back\<close>

lemma keeps_rcall:
  assumes "serves srv view" and "view s = w" and "\<And>ks. snd (ks_exec ks c) = ks" and "\<And>v s'. view s' = w \<Longrightarrow> view (snd (f v s')) = w"
  shows "view (snd (rcall srv s c f)) = w"
proof -
  have "view (snd (srv s c)) = w" using assms(1-3) by (simp add: serves_def)
  then show ?thesis using assms(4) by (cases "srv s c") (auto simp: rcall_def split: sum.splits)
qed

lemma reads_only:
  "snd (ks_exec ks (GET k)) = ks" "snd (ks_exec ks (HGET k f)) = ks" "snd (ks_exec ks (ZSCORE k f)) = ks" "snd (ks_exec ks (EXISTS k)) = ks"
  "snd (ks_exec ks (HGETALL k)) = ks"
  by (auto simp: wrongtype_def with_hash_def with_zset_def split: option.split rvalue.split)

lemma detail_keeps_view: "serves srv view \<Longrightarrow> view (snd (detail_script srv L keys argv s)) = view s"
proof -
  assume v: "serves srv view"
  have get: "view (snd (rcall srv s' (HGETALL k) (\<lambda>files s. case files of LPairs (p # ps) \<Rightarrow> (Inr (f p ps), s) | _ \<Rightarrow> (Inr [], s)))) = view s'"
    for s' k and f :: "string \<times> string \<Rightarrow> (string \<times> string) list \<Rightarrow> string list"
    by (rule keeps_rcall [OF v refl reads_only(5)]) (simp split: lval.split list.split)
  have exists: "view (snd (rcall srv s' (EXISTS k) (\<lambda>e s. if e \<noteq> LNum 1 then (Inr [], s) else
      rcall srv s (HGETALL k) (\<lambda>files s. case files of LPairs (p # ps) \<Rightarrow> (Inr (f p ps), s) | _ \<Rightarrow> (Inr [], s))))) = view s'"
    for s' k and f :: "string \<times> string \<Rightarrow> (string \<times> string) list \<Rightarrow> string list"
    by (rule keeps_rcall [OF v refl reads_only(4)]) (simp add: get)
  have score: "view (snd (rcall srv s' (ZSCORE z m) (\<lambda>x s. if x = LFalse then (Inr [], s) else
      rcall srv s (EXISTS k) (\<lambda>e s. if e \<noteq> LNum 1 then (Inr [], s) else
      rcall srv s (HGETALL k) (\<lambda>files s. case files of LPairs (p # ps) \<Rightarrow> (Inr (f p ps), s) | _ \<Rightarrow> (Inr [], s)))))) = view s'"
    for s' z m k and f :: "string \<times> string \<Rightarrow> (string \<times> string) list \<Rightarrow> string list"
    by (rule keeps_rcall [OF v refl reads_only(3)]) (simp add: exists)
  show ?thesis
    unfolding detail_script_def Let_def
    by (rule keeps_rcall [OF v refl reads_only(1)], simp split: option.split, intro allI impI,
        rule keeps_rcall [OF v _ reads_only(2)], simp, simp add: score split: lval.split)
qed

lemma server_detail_view:
  assumes "serves srv view" and "server_cmd srv L meanwhile s (Eval Detail_script ks as) = (r, s')"
  shows "\<exists>s1. view s1 = view s \<and> s' = meanwhile s1"
  using assms(2) detail_keeps_view [OF assms(1), of L ks as s]
  by (cases "detail_script srv L ks as s") (auto simp: server_cmd_def array_reply_def)

lemma parsed_detail_files: "parse_detail_elements es = Some r \<Longrightarrow> smap_ok (sr_files r)"
  by (auto simp: parse_detail_elements_def Let_def split: if_splits option.splits)

text \<open>A detail that is read ends in a refusal or goes on with a record that has been parsed.\<close>

lemma read_detail_cases:
  assumes "read_detail cmd ctx v k s = (ctx', s')"
  obtains r s0 where "cmd s (Eval Detail_script [kVersionKey, kMetaKey, kIndexKey, snapshot_key v] [dec_of_int v]) = (r, s0)"
    "s' = s0 \<and> cx_status_code ctx' \<noteq> 200 \<or> (\<exists>rec b. k rec b s0 = (ctx', s') \<and> (\<forall>r. rec = Some r \<longrightarrow> smap_ok (sr_files r)))"
proof -
  obtain r s0 where c: "cmd s (Eval Detail_script [kVersionKey, kMetaKey, kIndexKey, snapshot_key v] [dec_of_int v]) = (r, s0)" by fastforce
  then have "s' = s0 \<and> cx_status_code ctx' \<noteq> 200 \<or> (\<exists>rec b. k rec b s0 = (ctx', s') \<and> (\<forall>r. rec = Some r \<longrightarrow> smap_ok (sr_files r)))"
    using assms parsed_detail_files by (auto simp: read_detail_def split: if_splits option.splits)
  with c that show thesis by blast
qed

lemma prepare_rollback_cases:
  assumes "prepare_rollback cmd env ctx rq rec b s = (ctx', s')"
  shows "s' = s \<and> cx_status_code ctx' \<noteq> 200 \<or>
    (\<exists>r info. rec = Some r \<and> validate_snapshot (ae_sha env) (sr_files r) (ae_history env) True = (None, info) \<and>
       submit_rollback cmd env ctx rq b (to_managed (sr_files r)) r info s = (ctx', s'))"
  using assms by (auto simp: prepare_rollback_def Let_def split: if_splits option.splits prod.splits)

lemma file_pair_to_managed [simp]: "map file_pair (to_managed fs) = fs"
  by (induction fs) (auto simp: to_managed_def file_pair_def)

text \<open>Other clients keep the store in shape.\<close>

definition orderly :: "('s \<Rightarrow> keyspace) \<Rightarrow> ('s \<Rightarrow> 's) \<Rightarrow> bool" where
  "orderly view meanwhile \<longleftrightarrow>
     (\<forall>s H. represents (view s) H \<and> small_history H \<longrightarrow> (\<exists>H'. represents (view (meanwhile s)) H' \<and> small_history H'))"


text \<open>The detail of a published version is its metadata and its files.\<close>

lemma detail_script_rep:
  assumes rep: "represents ks H" and L: "lua_ok L" and small: "small_history H" and v: "0 < v" "v \<le> h_version H"
    and snap: "h_snaps H v = Some (meta, fs)" and ne: "hash_pairs fs \<noteq> []"
  shows "detail_script ks_exec L [kVersionKey, kMetaKey, kIndexKey, snapshot_key (int v)] [dec_of_int (int v)] ks =
    (Inr ([dec_of_int (int (h_version H)), meta] @ concat (map (\<lambda>(n, c). [n, c]) (hash_pairs fs))), ks)"
proof -
  have b: "h_version H < 10 ^ 14" "v < 10 ^ 14" using small v(2) by (auto simp: small_history_def)
  have get: "ks_exec ks (GET kVersionKey) = (Inr (LStr (dec_of_int (int (h_version H)))), ks)"
    using represents_dest(6) [OF rep] v by auto
  have files: "ks_exec ks (HGETALL (snapshot_key (int v))) = (Inr (LPairs (hash_pairs fs)), ks)"
    using represents_dest(3) [OF rep, of v] snap by (simp add: with_hash_def)
  obtain p ps where p: "hash_pairs fs = p # ps" using ne by (cases "hash_pairs fs") auto
  note n = lua_nat [OF L b(1)] lua_nat [OF L b(2)]
  show ?thesis
    unfolding detail_script_def Let_def rcall_def
    using v snap n by (simp add: arg_at_def get files number_or_def rep_commands [OF rep] opt_str_def num_of_def p del: ks_exec.simps)
qed

section \<open>Reading\<close>

lemma redis_version_read: "redis_version r = Some i \<Longrightarrow> read_version_reply r = V_value i \<or> read_version_reply r = V_missing \<and> i = 0"
  by (auto simp: redis_version_def read_version_reply_def redis_integer_def split: if_splits option.splits)

lemma hgetall_read: "admin_parse_hgetall r = Some F \<Longrightarrow> sync_parse_hgetall r = Some F \<and> smap_ok F"
  by (auto simp: admin_parse_hgetall_def sync_parse_hgetall_def split: if_splits)

context published_store
begin

text \<open>What a reader is shown: a published version that was current at some moment of the request.\<close>

definition shown :: "'s \<Rightarrow> http_context \<Rightarrow> 's \<Rightarrow> bool" where
  "shown s ctx' s' \<longleftrightarrow> later s s' \<and>
     (cx_status_code ctx' = 200 \<longrightarrow>
        (\<exists>v F d m. cur s \<le> v \<and> v \<le> cur s' \<and> pub s' v = Some (m, map_of F) \<and> smap_ok F \<and>
           cx_response_body ctx' = resp_ok (files_json (int v) F d)))"

lemma shown_later: "later s t \<Longrightarrow> shown t c s' \<Longrightarrow> shown s c s'"
  using later_trans [of s t s'] by (auto simp: shown_def later_def intro: order_trans)

definition retry_ok :: "('s \<Rightarrow> 's answer) option \<Rightarrow> bool" where
  "retry_ok again \<longleftrightarrow> (\<forall>k t c t'. again = Some k \<longrightarrow> ok t \<longrightarrow> k t = (c, t') \<longrightarrow> shown t c t')"

definition reads_through :: "'s admin_cmd \<Rightarrow> bool" where
  "reads_through acmd \<longleftrightarrow> (\<forall>s rq. acmd s (Plain rq) = cmd s rq)"

lemma shown_refusal: "later s s' \<Longrightarrow> cx_status_code c \<noteq> 200 \<Longrightarrow> shown s c s'"
  by (simp add: shown_def)

lemma current: "ok s \<Longrightarrow> redis_version (fst (cmd s (Rq_get kVersionKey))) = Some i \<Longrightarrow> i = int (cur s)"
  using redis_version_read [of "fst (cmd s (Rq_get kVersionKey))" i] version [of s i] missing [of s] by auto

lemma verify_shows:
  assumes cmd': "reads_through acmd" and s: "ok s" and F: "smap_ok F" "sourced s v F"
    and again: "retry_ok again"
    and res: "verify_config_version acmd ctx (int v) F d again s = (ctx', s')"
  shows "shown s ctx' s'"
proof -
  obtain r t where c: "cmd s (Rq_get kVersionKey) = (r, t)" by fastforce
  have st: "later s t" by (rule later_cmd [OF s _ c]) simp
  then have t: "ok t" by (simp add: later_def)
  from res c consider "s' = t" "cx_status_code ctx' \<noteq> 200" | k where "again = Some k" "k t = (ctx', s')"
    | "redis_version r = Some (int v)" "s' = t" "cx_response_body ctx' = resp_ok (files_json (int v) F d)"
    by (auto simp: verify_config_version_def cmd' [unfolded reads_through_def] split: option.splits if_splits)
  then show ?thesis
  proof cases
    case 1
    then show ?thesis using st by (simp add: shown_refusal)
  next
    case 2
    then show ?thesis using again t by (auto simp: retry_ok_def intro: shown_later [OF st])
  next
    case 3
    then have "cur s = v" using current [OF s, of "int v"] c by simp
    moreover from this have "\<exists>m. pub s v = Some (m, map_of F)" using F(2) unfolding sourced_def by (metis order_antisym)
    ultimately obtain m where m: "pub t (cur s) = Some (m, map_of F)" using later_pub [OF st] by blast
    have "cur s \<le> cur t" using st by (simp add: later_def)
    with m 3 st F(1) \<open>cur s = v\<close> show ?thesis unfolding shown_def by blast
  qed
qed

lemma hash_shows:
  assumes cmd': "reads_through acmd" and s: "ok s" and F: "smap_ok F" "sourced s v F"
    and again: "retry_ok again"
    and res: "verify_config_hash acmd env ctx (int v) F d again s = (ctx', s')"
  shows "shown s ctx' s'"
proof -
  obtain r t where c: "cmd s (Rq_hget kMetaKey (dec_of_int (int v))) = (r, t)" by fastforce
  have st: "later s t" by (rule later_cmd [OF s _ c]) simp
  then have t: "ok t" "sourced t v F" using sourced_later [OF F(2) st] by (auto simp: later_def)
  from res c consider "s' = t" "cx_status_code ctx' \<noteq> 200" | "verify_config_version acmd ctx (int v) F d again t = (ctx', s')"
    by (auto simp: verify_config_hash_def cmd' [unfolded reads_through_def] Let_def split: if_splits)
  then show ?thesis
    using shown_refusal [OF st] verify_shows [OF cmd' t(1) F(1) t(2) again] shown_later [OF st] by cases blast+
qed

lemma mirror_shows:
  assumes cmd': "reads_through acmd" and s: "ok s" "v \<le> cur s"
    and again: "retry_ok again"
    and res: "read_config_mirror acmd env ctx (int v) again s = (ctx', s')"
  shows "shown s ctx' s'"
proof -
  obtain r t where c: "cmd s (Rq_hgetall kFilesKey) = (r, t)" by fastforce
  have st: "later s t" by (rule later_cmd [OF s(1) _ c]) simp
  from res c consider "s' = t" "cx_status_code ctx' \<noteq> 200"
    | F d where "admin_parse_hgetall r = Some F" "F \<noteq> []"
      "verify_config_version acmd ctx (int v) F d again t = (ctx', s') \<or> verify_config_hash acmd env ctx (int v) F d again t = (ctx', s')"
    by (auto simp: read_config_mirror_def cmd' [unfolded reads_through_def] split: if_splits option.splits)
  then show ?thesis
  proof cases
    case 1
    then show ?thesis using shown_refusal [OF st] by blast
  next
    case (2 F d)
    then have F: "sync_parse_hgetall r = Some F" "smap_ok F" using hgetall_read by blast+
    with mirror [OF s(1), of F] c 2(2) s(2) have "sourced s v F" unfolding sourced_def by auto
    then have t: "ok t" "sourced t v F" using sourced_later [OF _ st] st by (auto simp: later_def)
    show ?thesis
      using 2(3) verify_shows [OF cmd' t(1) F(2) t(2) again] hash_shows [OF cmd' t(1) F(2) t(2) again] shown_later [OF st] by blast
  qed
qed

lemma files_show:
  assumes cmd': "reads_through acmd" and s: "ok s" "v \<le> cur s"
    and again: "retry_ok again"
    and res: "read_config_files acmd env ctx (int v) again s = (ctx', s')"
  shows "shown s ctx' s'"
proof -
  obtain r t where c: "cmd s (Rq_hgetall (snapshot_key (int v))) = (r, t)" by fastforce
  have st: "later s t" by (rule later_cmd [OF s(1) _ c]) simp
  then have t: "ok t" "v \<le> cur t" using s(2) by (auto simp: later_def)
  from res c consider "s' = t" "cx_status_code ctx' \<noteq> 200" | "read_config_mirror acmd env ctx (int v) again t = (ctx', s')"
    | F where "admin_parse_hgetall r = Some F" "F \<noteq> []" "verify_config_hash acmd env ctx (int v) F False again t = (ctx', s')"
    by (auto simp: read_config_files_def cmd' [unfolded reads_through_def] split: if_splits option.splits)
  then show ?thesis
  proof cases
    case 1
    then show ?thesis using shown_refusal [OF st] by blast
  next
    case 2
    then show ?thesis using mirror_shows [OF cmd' t again] shown_later [OF st] by blast
  next
    case (3 F)
    then have F: "sync_parse_hgetall r = Some F" "smap_ok F" using hgetall_read by blast+
    with snapshot [OF s(1), of v F] c 3(2) have "sourced s v F" unfolding sourced_def by auto
    then have "sourced t v F" using sourced_later [OF _ st] by blast
    then show ?thesis using hash_shows [OF cmd' t(1) F(2) _ again] 3(3) shown_later [OF st] by blast
  qed
qed

lemma read_once:
  assumes cmd': "reads_through acmd" and s: "ok s"
    and again: "retry_ok again"
    and c: "cmd s (Rq_get kVersionKey) = (r, t)" and i: "redis_version r = Some i"
    and res: "read_config_files acmd env ctx i again t = (ctx', s')"
  shows "shown s ctx' s'"
proof -
  have st: "later s t" by (rule later_cmd [OF s _ c]) simp
  moreover have "i = int (cur s)" using current [OF s, of i] c i by simp
  ultimately show ?thesis using files_show [OF cmd' _ _ again] res shown_later [OF st] unfolding later_def by blast
qed

lemma read_shows:
  assumes cmd': "reads_through acmd"
  shows "ok s \<Longrightarrow> read_config_version acmd env ctx n s = (ctx', s') \<Longrightarrow> shown s ctx' s'"
proof (induction n arbitrary: s ctx' s')
  case 0
  obtain r t where c: "cmd s (Rq_get kVersionKey) = (r, t)" by fastforce
  have st: "later s t" by (rule later_cmd [OF 0(1) _ c]) simp
  show ?case
  proof (cases "rd_ok r \<and> redis_version r \<noteq> None")
    case True
    then obtain i where "redis_version r = Some i" by blast
    then show ?thesis using 0 c True read_once [OF cmd' 0(1) _ c, of None] by (auto simp: retry_ok_def cmd' [unfolded reads_through_def])
  next
    case False
    with 0 c have "s' = t" "cx_status_code ctx' \<noteq> 200" by (auto simp: cmd' [unfolded reads_through_def] split: if_splits)
    then show ?thesis using shown_refusal [OF st] by blast
  qed
next
  case (Suc n)
  obtain r t where c: "cmd s (Rq_get kVersionKey) = (r, t)" by fastforce
  have st: "later s t" by (rule later_cmd [OF Suc(2) _ c]) simp
  show ?case
  proof (cases "rd_ok r \<and> redis_version r \<noteq> None")
    case True
    then obtain i where i: "redis_version r = Some i" by blast
    with Suc.prems(2) c True have "read_config_files acmd env ctx i (Some (read_config_version acmd env ctx n)) t = (ctx', s')"
      by (simp add: cmd' [unfolded reads_through_def])
    then show ?thesis using Suc.IH by (intro read_once [OF cmd' Suc(2) _ c i]) (auto simp: retry_ok_def)
  next
    case False
    with Suc.prems(2) c have "s' = t" "cx_status_code ctx' \<noteq> 200" by (auto simp: cmd' [unfolded reads_through_def] split: if_splits)
    then show ?thesis using shown_refusal [OF st] by blast
  qed
qed

end


section \<open>Examples\<close>

definition counting :: "http_context \<Rightarrow> nat \<Rightarrow> nat answer" where
  "counting ctx n = (ctx, n + 1)"

theorem admin_commands_need_token_witness:
  "services_ok demo_token_lib demo_services \<and>
   (\<exists>p pk. ''admin'' \<in> set (roles p) \<and> effective_key demo_token_lib Map.empty demo_services demo_admin = Some pk \<and>
      token_bound demo_crypto demo_token_lib 5 demo_admin (get_header Admin_Login.demo_request ''Authorization'') pk p)"
proof -
  have ok: "services_ok demo_token_lib demo_services" by (simp add: services_ok_def demo_services_def)
  from demo_authorized obtain c where
    "start_blocking demo_crypto demo_token_lib Map.empty 5 True counting demo_services Admin_Login.demo_request 0 = (c, 1, demo_services)"
    by (auto simp: start_blocking_def counting_def)
  moreover have "\<not> ac_insecure_no_auth demo_admin" by (simp add: demo_admin_def)
  ultimately show ?thesis using admin_commands_need_token [OF ok] by (fastforce simp: ok demo_effective)
qed

definition demo_admin_env :: "'s admin_env" where
  "demo_admin_env = \<lparr>ae_history = demo_history, ae_config_base = ''/etc/gw'', ae_staging = demo_staging, ae_sha = (\<lambda>_. Some []),
     ae_time = 7, ae_audit_time = 7, ae_inconsistent = False, ae_observed = 0, ae_refresh = None\<rparr>"

definition demo_post :: "string \<Rightarrow> http_context" where
  "demo_post content = Admin_Login.demo_request\<lparr>cx_body := content\<rparr>"

definition q :: "string \<Rightarrow> string" where
  "q t = [DQUOTE] @ t @ [DQUOTE]"

definition demo_save_body :: string where
  "demo_save_body = ''{'' @ q ''base_version'' @ '':0,'' @ q ''files'' @ '':[{'' @ q ''name'' @ '':'' @ q ''20-a.ini'' @ '','' @
     q ''content'' @ '':'' @ q (''[security]'' @ [CHR 0x5C] @ ''njwt_secret=key'') @ ''}]}''"

definition demo_save_request :: save_request where
  "demo_save_request = \<lparr>sv_base_version = 0, sv_reason = [],
     sv_files = [\<lparr>mf_name = ''20-a.ini'', mf_content = ''[security]'' @ [LF] @ ''jwt_secret=key''\<rparr>]\<rparr>"

lemma demo_save_parsed: "parse_save_request demo_save_body = Some (Inr demo_save_request)"
  by code_simp

lemma demo_save_facts:
  "validate_file_set (sv_files demo_save_request) True = None"
  "dry_run_config_set demo_staging (sv_files demo_save_request) = None"
  "fst (validate_snapshot (\<lambda>_. Some []) (smap_of (map file_pair (sv_files demo_save_request))) demo_history True) = None"
  by code_simp+

lemma demo_limits: "small_limits demo_history"
  by (simp add: small_limits_def demo_history_def)

lemma demo_save_checked: "\<exists>info. save_checked demo_admin_env (demo_post demo_save_body) = Inr (demo_save_request, info)"
proof -
  obtain info where "validate_snapshot (\<lambda>_. Some []) (smap_of (map file_pair (sv_files demo_save_request))) demo_history True = (None, info)"
    using demo_save_facts(3) by (metis prod.collapse)
  moreover have "foldl (\<lambda>m f. semplace (mf_name f) (mf_content f) m) [] (sv_files demo_save_request) =
      smap_of (map file_pair (sv_files demo_save_request))" by (rule emplaced_files) (simp add: demo_save_request_def)
  moreover have "sv_base_version demo_save_request = 0" "sv_reason demo_save_request = []" by (simp_all add: demo_save_request_def)
  ultimately show ?thesis
    by (simp add: save_checked_def demo_admin_env_def demo_post_def demo_save_parsed demo_save_facts Let_def)
qed



definition demo_content :: string where
  "demo_content = ''[security]'' @ [LF] @ ''jwt_secret=key''"

definition demo_rollback_body :: string where
  "demo_rollback_body = ''{'' @ q ''base_version'' @ '':1,'' @ q ''target_version'' @ '':1,'' @ q ''reason'' @ '':'' @ q ''r'' @ ''}''"

lemma demo_rollback_parsed:
  "parse_rollback_request demo_rollback_body = Some (Inr \<lparr>rb_base_version = 1, rb_target_version = 1, rb_reason = ''r''\<rparr>)"
  by code_simp

definition demo_record :: snapshot_record where
  "demo_record = \<lparr>sr_current_version = 1, sr_meta_json = demo_meta, sr_files = [(''20-a.ini'', demo_content)]\<rparr>"

lemma demo_record_facts:
  "parse_detail_elements [''1'', demo_meta, ''20-a.ini'', demo_content] = Some demo_record"
  "rollback_conflicts (sr_files demo_record) = []"
  "dry_run_config_set demo_staging (to_managed (sr_files demo_record)) = None"
  "fst (validate_snapshot (\<lambda>_. Some []) (sr_files demo_record) demo_history True) = None"
  by code_simp+

lemma demo_record_hash: "valid_record_hash demo_admin_env demo_record"
  by (simp add: valid_record_hash_def demo_record_def demo_admin_env_def demo_meta_field content_sha256_def)

lemma one_text: "dec_of_int 1 = ''1''"
  by code_simp


end
