(* ===== verification/Check_Queue.thy ===== *)
theory Check_Queue
  imports Prelude "HOL-Library.Multiset"
begin

text \<open>
  How the background service of the history is driven, \<^verbatim>\<open>src/app/config_history_service.hpp\<close>: the timer, the requests for a health check
  that are collected while one is under way, and the calls of their completions. Each locked section of the code is one step; other threads
  may act between any two steps. What a check itself does is in \<^verbatim>\<open>History_Service\<close>.
\<close>

datatype completion = On_timer | On_request nat

text \<open>A request with the number of checks that had begun when it was made.\<close>

type_synonym request = "completion \<times> nat"

datatype phase = Quiet | To_launch | Checking "request list" | Calling "request list"

record check_queue =
  cq_on :: bool
  cq_timer :: bool
  cq_pending :: "request list"
  cq_in_flight :: bool
  cq_phase :: phase
  cq_begun :: nat
  cq_asked :: "request list"
  cq_called :: "(request \<times> nat) list"

definition check_queue0 :: check_queue where
  "check_queue0 = \<lparr>cq_on = False, cq_timer = False, cq_pending = [], cq_in_flight = False, cq_phase = Quiet, cq_begun = 0, cq_asked = [],
     cq_called = []\<rparr>"

definition schedule_after :: "check_queue \<Rightarrow> check_queue" where
  "schedule_after q = (if cq_on q then q\<lparr>cq_timer := True\<rparr> else q)"

definition queue_start :: "check_queue \<Rightarrow> check_queue" where
  "queue_start q = schedule_after (q\<lparr>cq_on := True\<rparr>)"

definition queue_stop :: "check_queue \<Rightarrow> check_queue" where
  "queue_stop q = q\<lparr>cq_on := False, cq_timer := False\<rparr>"

definition request_health_check :: "completion \<Rightarrow> check_queue \<Rightarrow> check_queue" where
  "request_health_check c q =
     (let r = (c, cq_begun q); q = q\<lparr>cq_pending := cq_pending q @ [r], cq_asked := cq_asked q @ [r]\<rparr> in
      if cq_in_flight q then q else q\<lparr>cq_in_flight := True, cq_phase := To_launch\<rparr>)"

definition timer_fires :: "check_queue \<Rightarrow> check_queue" where
  "timer_fires q = (let q = q\<lparr>cq_timer := False\<rparr> in if cq_on q then request_health_check On_timer q else q)"

definition launch_health_check :: "check_queue \<Rightarrow> check_queue" where
  "launch_health_check q = q\<lparr>cq_pending := [], cq_phase := Checking (cq_pending q), cq_begun := cq_begun q + 1\<rparr>"

definition call_completion :: "request \<Rightarrow> check_queue \<Rightarrow> check_queue" where
  "call_completion r q =
     (let q = q\<lparr>cq_called := cq_called q @ [(r, cq_begun q)]\<rparr> in if fst r = On_timer then schedule_after q else q)"

definition finish_health_check :: "check_queue \<Rightarrow> check_queue" where
  "finish_health_check q =
     (if cq_pending q = [] then q\<lparr>cq_in_flight := False, cq_phase := Quiet\<rparr> else q\<lparr>cq_phase := To_launch\<rparr>)"

inductive own_step :: "check_queue \<Rightarrow> check_queue \<Rightarrow> bool" where
  Launch: "cq_phase q = To_launch \<Longrightarrow> own_step q (launch_health_check q)"
| Checked: "cq_phase q = Checking rs \<Longrightarrow> own_step q (q\<lparr>cq_phase := Calling rs\<rparr>)"
| Call: "cq_phase q = Calling (r # rs) \<Longrightarrow> own_step q (call_completion r (q\<lparr>cq_phase := Calling rs\<rparr>))"
| Finish: "cq_phase q = Calling [] \<Longrightarrow> own_step q (finish_health_check q)"

inductive queue_step :: "check_queue \<Rightarrow> check_queue \<Rightarrow> bool" where
  Start: "queue_step q (queue_start q)"
| Stop: "queue_step q (queue_stop q)"
| Request: "queue_step q (request_health_check (On_request n) q)"
| Fire: "cq_timer q \<Longrightarrow> queue_step q (timer_fires q)"
| Own: "own_step q q' \<Longrightarrow> queue_step q q'"

inductive reachable_queue :: "check_queue \<Rightarrow> bool" where
  initial: "reachable_queue check_queue0"
| queue_step: "reachable_queue q \<Longrightarrow> queue_step q q' \<Longrightarrow> reachable_queue q'"

section \<open>The invariant\<close>

fun phase_requests :: "phase \<Rightarrow> request list" where
  "phase_requests Quiet = []"
| "phase_requests To_launch = []"
| "phase_requests (Checking rs) = rs"
| "phase_requests (Calling rs) = rs"

definition waiting :: "check_queue \<Rightarrow> request list" where
  "waiting q = phase_requests (cq_phase q) @ cq_pending q"

definition queue_ok :: "check_queue \<Rightarrow> bool" where
  "queue_ok q \<longleftrightarrow>
     (cq_in_flight q \<longleftrightarrow> cq_phase q \<noteq> Quiet) \<and> (cq_phase q = Quiet \<longrightarrow> cq_pending q = []) \<and>
     (\<forall>r \<in> set (cq_pending q). snd r \<le> cq_begun q) \<and> (\<forall>r \<in> set (phase_requests (cq_phase q)). snd r < cq_begun q) \<and>
     (\<forall>x \<in> set (cq_called q). snd (fst x) < snd x) \<and>
     mset (cq_asked q) = mset (waiting q) + mset (map fst (cq_called q)) \<and>
     (cq_on q \<longrightarrow> cq_timer q \<or> On_timer \<in> fst ` set (waiting q))"

lemmas queue_defs =
  schedule_after_def queue_start_def queue_stop_def request_health_check_def timer_fires_def launch_health_check_def call_completion_def
  finish_health_check_def waiting_def Let_def

lemma queue_ok_request: "queue_ok q \<Longrightarrow> queue_ok (request_health_check c q)"
  unfolding queue_ok_def by (auto simp: queue_defs)

lemma queue_ok_own: "own_step q q' \<Longrightarrow> queue_ok q \<Longrightarrow> queue_ok q'"
proof (induction rule: own_step.induct)
  case (Launch q)
  then show ?case unfolding queue_ok_def by (auto simp: queue_defs less_Suc_eq_le)
next
  case (Checked q rs)
  then show ?case unfolding queue_ok_def by (auto simp: queue_defs)
next
  case (Call q r rs)
  then show ?case unfolding queue_ok_def by (auto simp: queue_defs)
next
  case (Finish q)
  then show ?case unfolding queue_ok_def by (auto simp: queue_defs)
qed

lemma queue_ok_step: "queue_step q q' \<Longrightarrow> queue_ok q \<Longrightarrow> queue_ok q'"
proof (induction rule: queue_step.induct)
  case (Request q n)
  then show ?case by (rule queue_ok_request)
next
  case (Fire q)
  then show ?case unfolding queue_ok_def by (auto simp: queue_defs)
qed (use queue_ok_own in \<open>auto simp: queue_ok_def queue_defs\<close>)

lemma queue_ok_reachable: "reachable_queue q \<Longrightarrow> queue_ok q"
  by (induction rule: reachable_queue.induct) (use queue_ok_step in \<open>auto simp: queue_ok_def check_queue0_def waiting_def\<close>)

section \<open>Draining the queue\<close>

text \<open>The steps the service still has to make, if nothing is asked meanwhile.\<close>

fun phase_work :: "phase \<Rightarrow> nat" where
  "phase_work Quiet = 0"
| "phase_work To_launch = 3"
| "phase_work (Checking rs) = length rs + 2"
| "phase_work (Calling rs) = length rs + 1"

definition queue_work :: "check_queue \<Rightarrow> nat" where
  "queue_work q = phase_work (cq_phase q) + length (cq_pending q) + (if cq_pending q = [] \<or> cq_phase q = To_launch then 0 else 3)"

lemma own_step_work: "own_step q q' \<Longrightarrow> Suc (queue_work q') = queue_work q \<and> cq_asked q' = cq_asked q"
  by (induction rule: own_step.induct) (auto simp: queue_work_def queue_defs)

lemma own_step_ready: "cq_phase q \<noteq> Quiet \<Longrightarrow> \<exists>q'. own_step q q'"
proof (cases "cq_phase q")
  case (Calling rs)
  then show ?thesis by (cases rs) (auto dest: own_step.Call own_step.Finish)
qed (auto dest: own_step.Launch own_step.Checked)

lemma drains: "queue_ok q \<Longrightarrow> \<exists>q'. (own_step ^^ queue_work q) q q' \<and> queue_ok q' \<and> cq_phase q' = Quiet \<and> cq_asked q' = cq_asked q"
proof (induction "queue_work q" arbitrary: q)
  case 0
  then have "cq_phase q = Quiet" by (cases "cq_phase q") (auto simp: queue_work_def)
  then show ?case using 0 by auto
next
  case (Suc n)
  have "cq_phase q \<noteq> Quiet"
  proof
    assume "cq_phase q = Quiet"
    with Suc.prems have "queue_work q = 0" by (simp add: queue_ok_def queue_work_def)
    with Suc.hyps(2) show False by simp
  qed
  then obtain q1 where q1: "own_step q q1" using own_step_ready by blast
  from own_step_work [OF q1] Suc.hyps(2) have n: "n = queue_work q1" and asked: "cq_asked q1 = cq_asked q" by auto
  from Suc.hyps(1) [OF n queue_ok_own [OF q1 Suc.prems]] asked q1 show ?case
    unfolding Suc.hyps(2) [symmetric] n [symmetric] by (metis relpowp_Suc_I2)
qed

text \<open>
  C32. However requests, the timer, start, stop and the checks interleave: every request is either still waiting or was
  answered exactly once, and by a check that began after the request was made; a running service always has its timer set or its own
  request waiting, so the periodic checks never end; and as many steps of its own as requests wait, and six more, take it to the state
  in which nothing is in flight and every request ever made has been answered.
\<close>

theorem check_requests_served:
  assumes "reachable_queue q"
  shows "mset (cq_asked q) = mset (waiting q) + mset (map fst (cq_called q)) \<and>
    (\<forall>((c, asked_at), check) \<in> set (cq_called q). asked_at < check) \<and>
    (cq_on q \<longrightarrow> cq_timer q \<or> On_timer \<in> fst ` set (waiting q)) \<and>
    (\<exists>n q'. n \<le> length (waiting q) + 6 \<and> (own_step ^^ n) q q' \<and> \<not> cq_in_flight q' \<and> mset (map fst (cq_called q')) = mset (cq_asked q))"
proof -
  have ok: "queue_ok q" by (rule queue_ok_reachable [OF assms])
  obtain q' where q': "(own_step ^^ queue_work q) q q'" "queue_ok q'" "cq_phase q' = Quiet" "cq_asked q' = cq_asked q"
    using drains [OF ok] by blast
  have work: "queue_work q \<le> length (waiting q) + 6" by (cases "cq_phase q") (auto simp: queue_work_def waiting_def)
  have "\<not> cq_in_flight q'" "mset (map fst (cq_called q')) = mset (cq_asked q)"
    using q'(2-4) by (auto simp: queue_ok_def waiting_def)
  with work q'(1) have "\<exists>n q'. n \<le> length (waiting q) + 6 \<and> (own_step ^^ n) q q' \<and> \<not> cq_in_flight q' \<and>
      mset (map fst (cq_called q')) = mset (cq_asked q)" by blast
  with ok show ?thesis unfolding queue_ok_def by (auto simp: split_beta)
qed

text \<open>Two requests, the second while the first is checked: the service makes a second check for it.\<close>

definition demo_queue :: check_queue where
  "demo_queue = request_health_check (On_request 2) (launch_health_check (request_health_check (On_request 1) check_queue0))"

lemma reachable_demo_queue: "reachable_queue demo_queue"
proof -
  have "reachable_queue (request_health_check (On_request 1) check_queue0)"
    by (rule reachable_queue.queue_step [OF reachable_queue.initial queue_step.Request])
  moreover have "cq_phase (request_health_check (On_request 1) check_queue0) = To_launch" by (simp add: queue_defs check_queue0_def)
  ultimately have "reachable_queue (launch_health_check (request_health_check (On_request 1) check_queue0))"
    by (rule reachable_queue.queue_step [OF _ queue_step.Own [OF own_step.Launch]])
  then show ?thesis unfolding demo_queue_def by (rule reachable_queue.queue_step [OF _ queue_step.Request])
qed

theorem check_requests_served_witness:
  "reachable_queue demo_queue \<and> cq_asked demo_queue = [(On_request 1, 0), (On_request 2, 1)] \<and>
   (\<exists>n q'. n \<le> 8 \<and> (own_step ^^ n) demo_queue q' \<and> \<not> cq_in_flight q' \<and>
      mset (map fst (cq_called q')) = {#(On_request 1, 0), (On_request 2, 1)#})"
proof -
  have asked: "cq_asked demo_queue = [(On_request 1, 0), (On_request 2, 1)]" and w: "length (waiting demo_queue) = 2"
    by (simp_all add: demo_queue_def queue_defs check_queue0_def)
  from check_requests_served [OF reachable_demo_queue, THEN conjunct2, THEN conjunct2, THEN conjunct2] have "\<exists>n q'. n \<le> 8 \<and> (own_step ^^ n) demo_queue q' \<and> \<not> cq_in_flight q' \<and>
      mset (map fst (cq_called q')) = {#(On_request 1, 0), (On_request 2, 1)#}" by (simp add: asked w)
  with reachable_demo_queue asked show ?thesis by blast
qed

end
