(* ===== verification/History_Service.thy ===== *)
theory History_Service
  imports Handler_Safety Check_Queue
begin

text \<open>
  The background service of the history, \<^verbatim>\<open>src/app/config_history_service.hpp\<close>: its three scripts, the health check with the migration of
  a store from before the history, the removal of old versions, and the queue of requests for a check.
\<close>

section \<open>Scripts\<close>

text \<open>\<^verbatim>\<open>string.match(meta, '"ts"%s*:%s*(%d+)')\<close>.\<close>

definition match_ts :: "string \<Rightarrow> string option" where
  "match_ts s =
     (if \<not> starts_with ([DQUOTE] @ ''ts'' @ [DQUOTE]) s then None
      else case dropWhile isspace (drop 4 s) of
        [] \<Rightarrow> None
      | c # r \<Rightarrow>
          let d = takeWhile isdigit (dropWhile isspace r) in
          if c \<noteq> CHR '':'' \<or> d = [] then None else Some d)"

fun meta_ts :: "string \<Rightarrow> string option" where
  "meta_ts [] = None"
| "meta_ts (c # s) = (case match_ts (c # s) of Some d \<Rightarrow> Some d | None \<Rightarrow> meta_ts s)"

definition ts_of :: "lua_num \<Rightarrow> lval \<Rightarrow> rat option" where
  "ts_of L m = (case m of LStr meta \<Rightarrow> Option.bind (meta_ts meta) (lu_tonumber L) | _ \<Rightarrow> None)"

fun gc_pick ::
  "'s redis \<Rightarrow> lua_num \<Rightarrow> string \<Rightarrow> rat \<Rightarrow> rat \<Rightarrow> rat \<Rightarrow> string list \<Rightarrow> string list \<Rightarrow> 's \<Rightarrow> (string + string list) \<times> 's" where
  "gc_pick srv L meta_key current cutoff batch [] out s = (Inr out, s)"
| "gc_pick srv L meta_key current cutoff batch (version # vs) out s =
     rcall srv s (HGET meta_key version) (\<lambda>m s.
       case (lu_tonumber L version, ts_of L m) of
         (Some numeric, Some ts) \<Rightarrow>
           if numeric < current \<and> ts < cutoff then
             if rat_of_nat (length (out @ [version])) \<ge> batch then (Inr (out @ [version]), s)
             else gc_pick srv L meta_key current cutoff batch vs (out @ [version]) s
           else gc_pick srv L meta_key current cutoff batch vs out s
       | _ \<Rightarrow> gc_pick srv L meta_key current cutoff batch vs out s)"

text \<open>The batch is at least 1, so the upper bound of the range is not negative.\<close>

definition gc_candidates_script :: "'s redis \<Rightarrow> lua_num \<Rightarrow> string list \<Rightarrow> string list \<Rightarrow> 's \<Rightarrow> (string + string list) \<times> 's" where
  "gc_candidates_script srv L keys argv s =
     (let K = arg_at keys; num = (\<lambda>i. lu_tonumber L (arg_at argv i)) in
      case (num 1, num 2, num 3, num 4) of
        (Some current, Some retain, Some cutoff, Some batch) \<Rightarrow>
          rcall srv s (ZCARD (K 1)) (\<lambda>c s.
            case c of
              LNum members \<Rightarrow>
                if members - retain \<le> 0 then (Inr [], s)
                else rcall srv s (ZRANGE (K 1) 0 (nat \<lfloor>min (members - retain - 1) (batch * 4 - 1)\<rfloor>)) (\<lambda>vs s.
                  gc_pick srv L (K 2) current cutoff batch (case vs of LArr xs \<Rightarrow> xs | _ \<Rightarrow> []) [] s)
            | _ \<Rightarrow> (Inr [], s))
      | _ \<Rightarrow> (Inr [], s))"

definition gc_delete_script :: "'s redis \<Rightarrow> lua_num \<Rightarrow> string list \<Rightarrow> string list \<Rightarrow> 's \<Rightarrow> (string + int) \<times> 's" where
  "gc_delete_script srv L keys argv s =
     (let K = arg_at keys; num = (\<lambda>i. lu_tonumber L (arg_at argv i)) in
      rcall srv s (GET (K 1)) (\<lambda>v s.
        case (num 1, num 2, num 3, number_or L [] v) of
          (Some candidate, Some retain, Some cutoff, Some current) \<Rightarrow>
            rcall srv s (ZREVRANGE (K 2) 0 0) (\<lambda>top s.
              if (case top1 top of None \<Rightarrow> False | Some m \<Rightarrow> (case lu_tonumber L m of None \<Rightarrow> True | Some high \<Rightarrow> high > current)) then ret (-5) s
              else if candidate \<ge> current then ret 0 s
              else
                let member = lu_tostring L candidate in
                rcall srv s (ZRANK (K 2) member) (\<lambda>rank s.
                rcall srv s (ZCARD (K 2)) (\<lambda>members s.
                  case (rank, members) of
                    (LNum r, LNum n) \<Rightarrow>
                      if r \<ge> n - retain then ret 0 s
                      else rcall srv s (HGET (K 3) member) (\<lambda>meta s.
                        case ts_of L meta of
                          None \<Rightarrow> ret 0 s
                        | Some ts \<Rightarrow>
                            if ts \<ge> cutoff then ret 0 s
                            else
                              rcall srv s (UNLINK (K 4)) (\<lambda>_ s.
                              rcall srv s (HDEL (K 3) member) (\<lambda>_ s.
                              rcall srv s (ZREM (K 2) member) (\<lambda>_ s. ret 1 s))))
                  | _ \<Rightarrow> ret 0 s)))
        | _ \<Rightarrow> ret (-2) s))"

text \<open>The second field of a machine's status.\<close>

definition machine_time :: "lua_num \<Rightarrow> string \<Rightarrow> rat option" where
  "machine_time L v =
     (let a = takeWhile (\<lambda>c. c \<noteq> CHR ''|'') v; b = takeWhile (\<lambda>c. c \<noteq> CHR ''|'') (drop (length a + 1) v)
      in if a = [] \<or> length a = length v \<or> b = [] then None else lu_tonumber L b)"

fun sweep_machines ::
  "'s redis \<Rightarrow> lua_num \<Rightarrow> string \<Rightarrow> rat \<Rightarrow> rat \<Rightarrow> (string \<times> string) list \<Rightarrow> rat \<Rightarrow> 's \<Rightarrow> (rat \<Rightarrow> 's \<Rightarrow> (string + 'r) \<times> 's) \<Rightarrow> (string + 'r) \<times> 's" where
  "sweep_machines srv L key now ttl [] high s f = f high s"
| "sweep_machines srv L key now ttl ((name, val) # ms) high s f =
     (case machine_time L val of
        Some ts \<Rightarrow>
          if now - ts > ttl then rcall srv s (HDEL key name) (\<lambda>_ s. sweep_machines srv L key now ttl ms high s f)
          else (case machine_version L val of
                  Some v \<Rightarrow> sweep_machines srv L key now ttl ms (if v > high then v else high) s f
                | None \<Rightarrow> sweep_machines srv L key now ttl ms high s f)
      | None \<Rightarrow> rcall srv s (HDEL key name) (\<lambda>_ s. sweep_machines srv L key now ttl ms high s f))"

definition health_expected :: "string list" where
  "health_expected = [''string'', ''zset'', ''hash'', ''hash'', ''hash'']"

definition head_integrity ::
  "'s redis \<Rightarrow> lua_num \<Rightarrow> string list \<Rightarrow> string \<Rightarrow> rat \<Rightarrow> rat \<Rightarrow> 's \<Rightarrow> (string \<Rightarrow> 's \<Rightarrow> (string + 'r) \<times> 's) \<Rightarrow> (string + 'r) \<times> 's" where
  "head_integrity srv L keys prefix current index_high s f =
     (let K = arg_at keys; member = lu_tostring L current in
      if current \<le> 0 then f ''ok'' s
      else
        rcall srv s (EXISTS (prefix @ member)) (\<lambda>ex s.
          let complete = (\<lambda>s.
                if index_high \<noteq> current then f ''incomplete'' s
                else rcall srv s (ZSCORE (K 2) member) (\<lambda>z s.
                  if z = LFalse then f ''incomplete'' s
                  else rcall srv s (HGET (K 4) member) (\<lambda>m s. f (if m = LFalse \<or> ex \<noteq> LNum 1 then ''incomplete'' else ''ok'') s)));
              mirrored = (\<lambda>s. rcall srv s (HLEN (K 5)) (\<lambda>mirror s. if mirror \<noteq> LNum 0 then f ''legacy'' s else complete s));
              no_history = (\<lambda>s.
                if current = 1 then rcall srv s (HLEN (K 5)) (\<lambda>mirror s. if mirror = LNum 0 then f ''legacy-empty'' s else mirrored s)
                else mirrored s)
          in rcall srv s (ZCARD (K 2)) (\<lambda>versions s.
            if versions = LNum 0 then
              rcall srv s (HLEN (K 4)) (\<lambda>metas s. if metas = LNum 0 \<and> ex = LNum 0 then no_history s else complete s)
            else complete s)))"

definition health_script :: "'s redis \<Rightarrow> lua_num \<Rightarrow> string list \<Rightarrow> string list \<Rightarrow> 's \<Rightarrow> (string + string list) \<times> 's" where
  "health_script srv L keys argv s =
     (let K = arg_at keys; num = (\<lambda>i d. case lu_tonumber L (arg_at argv i) of None \<Rightarrow> d | Some x \<Rightarrow> x) in
      check_types srv keys health_expected s (replicate 4 ''invalid'') (\<lambda>s.
      rcall srv s (GET (K 1)) (\<lambda>v s.
        case number_or L ''0'' v of
          None \<Rightarrow> (Inr [''invalid'', ''0'', ''0'', ''invalid''], s)
        | Some current \<Rightarrow>
            rcall srv s (ZREVRANGE (K 2) 0 0) (\<lambda>top s.
              let index_high = (case top1 top of None \<Rightarrow> 0 | Some m \<Rightarrow> (case lu_tonumber L m of None \<Rightarrow> -1 | Some x \<Rightarrow> x)) in
              rcall srv s (HGETALL (K 3)) (\<lambda>machines s.
                sweep_machines srv L (K 3) (num 2 0) (num 3 3600) (case machines of LPairs ps \<Rightarrow> ps | _ \<Rightarrow> []) 0 s (\<lambda>reported_high s.
                  head_integrity srv L keys (arg_at argv 1) current index_high s (\<lambda>integrity s.
                    (Inr [lu_tostring L current, lu_tostring L index_high, lu_tostring L reported_high, integrity], s))))))))"

section \<open>The service\<close>

datatype service_request =
    Health "string list" "string list"
  | Gc_candidates "string list" "string list"
  | Gc_delete "string list" "string list"
  | Migrate "string list" "string list"
  | Mirror_files

type_synonym 's service_cmd = "'s \<Rightarrow> service_request \<Rightarrow> redis_reply_data \<times> 's"

record service_stats =
  hv_checks :: nat
  hv_inconsistent_checks :: nat
  hv_gc_deleted :: nat
  hv_gc_failures :: nat
  hv_observed :: int
  hv_inconsistent :: bool

definition service_stats0 :: service_stats where
  "service_stats0 = \<lparr>hv_checks = 0, hv_inconsistent_checks = 0, hv_gc_deleted = 0, hv_gc_failures = 0, hv_observed = 0,
     hv_inconsistent = True\<rparr>"

text \<open>The clock at the places that read it, and the hash function.\<close>

record service_env =
  se_now :: int
  se_gc_now :: int
  se_meta_now :: int
  se_sha :: "string \<Rightarrow> string option"

definition mark_inconsistent :: "service_stats \<Rightarrow> service_stats" where
  "mark_inconsistent sv = sv\<lparr>hv_inconsistent := True, hv_inconsistent_checks := hv_inconsistent_checks sv + 1\<rparr>"

definition count_failure :: "service_stats \<Rightarrow> service_stats" where
  "count_failure sv = sv\<lparr>hv_gc_failures := hv_gc_failures sv + 1\<rparr>"

fun emplace_all :: "(string \<times> string) list \<Rightarrow> file_map \<Rightarrow> file_map option" where
  "emplace_all [] m = Some m"
| "emplace_all ((n, c) # ps) m = (if map_of m n \<noteq> None then None else emplace_all ps (sput n c m))"

definition service_parse_hgetall :: "redis_reply_data \<Rightarrow> file_map option" where
  "service_parse_hgetall reply =
     (if \<not> rd_ok reply \<or> rd_type reply \<noteq> ''array'' \<or> length (rd_elements reply) mod 2 \<noteq> 0 then None
      else emplace_all (pairs_of (rd_elements reply)) [])"

definition gc_delete_keys :: "int \<Rightarrow> string list" where
  "gc_delete_keys candidate = [kVersionKey, kIndexKey, kMetaKey, snapshot_key candidate]"

definition gc_delete_argv :: "history_config \<Rightarrow> int \<Rightarrow> int \<Rightarrow> string list" where
  "gc_delete_argv cfg cutoff candidate = [dec_of_int candidate, dec_of_int (hc_retention_versions cfg), dec_of_int cutoff]"

fun delete_candidates ::
  "'s service_cmd \<Rightarrow> history_config \<Rightarrow> int \<Rightarrow> int list \<Rightarrow> service_stats \<Rightarrow> 's \<Rightarrow> service_stats \<times> 's" where
  "delete_candidates cmd cfg cutoff [] sv s = (sv, s)"
| "delete_candidates cmd cfg cutoff (candidate # cs) sv s =
     (if hv_inconsistent sv then (sv, s)
      else case cmd s (Gc_delete (gc_delete_keys candidate) (gc_delete_argv cfg cutoff candidate)) of
        (reply, s) \<Rightarrow>
          (case if rd_ok reply then redis_integer reply else None of
             None \<Rightarrow> delete_candidates cmd cfg cutoff cs (count_failure sv) s
           | Some result \<Rightarrow>
               if result = 1 then delete_candidates cmd cfg cutoff cs (sv\<lparr>hv_gc_deleted := hv_gc_deleted sv + 1\<rparr>) s
               else if result = -5 then (mark_inconsistent sv, s)
               else delete_candidates cmd cfg cutoff cs sv s))"

definition gc_cutoff :: "history_config \<Rightarrow> service_env \<Rightarrow> int" where
  "gc_cutoff cfg env = se_gc_now env - hc_retention_days cfg * 24 * 60 * 60"

definition read_gc_candidates ::
  "'s service_cmd \<Rightarrow> history_config \<Rightarrow> service_env \<Rightarrow> int \<Rightarrow> service_stats \<Rightarrow> 's \<Rightarrow> service_stats \<times> 's" where
  "read_gc_candidates cmd cfg env current sv s =
     (let cutoff = gc_cutoff cfg env in
      case cmd s (Gc_candidates [kIndexKey, kMetaKey]
          [dec_of_int current, dec_of_int (hc_retention_versions cfg), dec_of_int cutoff, dec_of_nat (hc_gc_batch_size cfg)]) of
        (reply, s) \<Rightarrow>
          if \<not> rd_ok reply \<or> rd_type reply \<noteq> ''array'' then (count_failure sv, s)
          else delete_candidates cmd cfg cutoff
            (filter (\<lambda>v. v > 0 \<and> v < current) (List.map_filter parse_int64 (rd_elements reply))) sv s)"

text \<open>\<open>Inl\<close> when the check is over, \<open>Inr\<close> when it has to be made again.\<close>

definition publish_legacy_snapshot ::
  "'s service_cmd \<Rightarrow> history_config \<Rightarrow> service_env \<Rightarrow> int \<Rightarrow> file_map \<Rightarrow> snapshot_info \<Rightarrow> service_stats \<Rightarrow> 's \<Rightarrow>
     service_stats \<times> 's + service_stats \<times> 's" where
  "publish_legacy_snapshot cmd cfg env current files info sv s =
     (let reason = ''automatic Phase 4 legacy history migration'';
          meta = metadata_json current current (se_meta_now env) ''system'' ''migration'' reason info None;
          audit = ''{'' @ json_pair ''user'' ''system'' @ '','' @ json_name ''base_version'' @ dec_of_int current @ '','' @
            json_name ''new_version'' @ dec_of_int current @ '','' @ json_pair ''action'' ''migration'' @ '','' @ json_pair ''reason'' reason @ ''}''
      in case cmd s (Migrate [kVersionKey, kFilesKey, kMetaKey, kIndexKey, snapshot_key current, kSnapshotStagingKey, kAuditKey]
              (repair_argv cfg current meta audit files)) of
           (reply, s) \<Rightarrow>
             (case if rd_ok reply then redis_integer reply else None of
                None \<Rightarrow> Inl (mark_inconsistent (count_failure sv), s)
              | Some result \<Rightarrow>
                  if result \<noteq> current \<and> result \<noteq> -6 then Inl (mark_inconsistent sv, s) else Inr (sv, s)))"

definition migrate_legacy ::
  "'s service_cmd \<Rightarrow> history_config \<Rightarrow> service_env \<Rightarrow> int \<Rightarrow> service_stats \<Rightarrow> 's \<Rightarrow> service_stats \<times> 's + service_stats \<times> 's" where
  "migrate_legacy cmd cfg env current sv s =
     (if current \<le> 0 then Inl (mark_inconsistent sv, s)
      else case cmd s Mirror_files of
        (reply, s) \<Rightarrow>
          (case service_parse_hgetall reply of
             None \<Rightarrow> Inl (mark_inconsistent sv, s)
           | Some files \<Rightarrow>
               if files = [] then Inl (mark_inconsistent sv, s)
               else (case validate_snapshot (se_sha env) files cfg True of
                       (Some e, _) \<Rightarrow> Inl (mark_inconsistent sv, s)
                     | (None, info) \<Rightarrow> publish_legacy_snapshot cmd cfg env current files info sv s)))"

text \<open>The reply of the health script: the verdict on the store.\<close>

definition health_verdict ::
  "'s service_cmd \<Rightarrow> history_config \<Rightarrow> service_env \<Rightarrow> redis_reply_data \<Rightarrow> service_stats \<Rightarrow> 's \<Rightarrow> service_stats \<times> 's + service_stats \<times> 's" where
  "health_verdict cmd cfg env reply sv s =
     (if \<not> rd_ok reply \<or> rd_type reply \<noteq> ''array'' \<or> length (rd_elements reply) \<noteq> 4 then Inl (count_failure sv, s)
      else
        (case (parse_int64 (rd_elements reply ! 0), parse_int64 (rd_elements reply ! 1), parse_int64 (rd_elements reply ! 2)) of
           (Some current, Some index_high, Some reported_high) \<Rightarrow>
             let observed = max (hv_observed sv) current; sv1 = sv\<lparr>hv_observed := observed\<rparr>;
                 trusted_high = max observed (max index_high reported_high); integrity = rd_elements reply ! 3;
                 healthy = (let sv2 = sv1\<lparr>hv_inconsistent := False\<rparr> in
                   Inl (if current \<le> 0 then (sv2, s) else read_gc_candidates cmd cfg env current sv2 s))
             in if current < trusted_high \<or> index_high > current then Inl (mark_inconsistent sv1, s)
                else if integrity = ''legacy'' then
                  if hc_auto_migrate_legacy cfg then migrate_legacy cmd cfg env current sv1 s
                  else if hc_read_mode cfg \<noteq> ''compat'' then Inl (mark_inconsistent sv1, s)
                  else healthy
                else if integrity = ''legacy-empty'' then
                  if hc_read_mode cfg \<noteq> ''compat'' then Inl (mark_inconsistent sv1, s) else healthy
                else if integrity \<noteq> ''ok'' then Inl (mark_inconsistent sv1, s)
                else healthy
         | _ \<Rightarrow> Inl (mark_inconsistent sv, s)))"

definition health_argv :: "history_config \<Rightarrow> service_env \<Rightarrow> string list" where
  "health_argv cfg env = [kSnapshotPrefix, dec_of_int (se_now env), dec_of_int (hc_machine_ttl_sec cfg)]"

text \<open>One element of the list for each round; \<open>None\<close> when the list ends before the check does.\<close>

fun run_health_check ::
  "'s service_cmd \<Rightarrow> history_config \<Rightarrow> service_env list \<Rightarrow> service_stats \<Rightarrow> 's \<Rightarrow> (service_stats \<times> 's) option" where
  "run_health_check cmd cfg [] sv s = None"
| "run_health_check cmd cfg (env # envs) sv s =
     (case cmd s (Health [kVersionKey, kIndexKey, kMachinesKey, kMetaKey, kFilesKey] (health_argv cfg env)) of
        (reply, s) \<Rightarrow>
          (case health_verdict cmd cfg env reply (sv\<lparr>hv_checks := hv_checks sv + 1\<rparr>) s of
             Inl res \<Rightarrow> Some res
           | Inr (sv, s) \<Rightarrow> run_health_check cmd cfg envs sv s))"

section \<open>Removing a version\<close>

definition gc_remove :: "history \<Rightarrow> nat \<Rightarrow> history" where
  "gc_remove H v = H\<lparr>h_snaps := (h_snaps H)(v := None)\<rparr>"

lemma sim_gc_delete_script:
  assumes "serves srv view"
  shows "sim view (gc_delete_script srv L keys argv s) (gc_delete_script ks_exec L keys argv (view s))"
  unfolding gc_delete_script_def Let_def using assms by (auto intro!: sim_intros split: option.split lval.split)

lemma takeWhile_sorted: "sorted_wrt (<) xs \<Longrightarrow> v \<in> set xs \<Longrightarrow> takeWhile (\<lambda>x. x \<noteq> v) xs = filter (\<lambda>x. x < v) xs" for v :: "'a::linorder"
proof (induction xs)
  case (Cons x xs)
  show ?case
  proof (cases "x = v")
    case True
    with Cons.prems have "filter (\<lambda>x. x < v) xs = []" by (auto simp: filter_empty_conv dest: less_asym)
    with True show ?thesis by simp
  qed (use Cons in auto)
qed simp

lemma rank_rep:
  assumes "represents ks H" and "h_snaps H v \<noteq> None"
  shows "ks_exec ks (ZRANK kIndexKey (dec_of_int (int v))) = (Inr (num_of (card {w \<in> dom (h_snaps H). w < v})), ks)"
proof -
  let ?g = "\<lambda>v. map_option (\<lambda>_. rat_of_nat v) (h_snaps H v)" and ?xs = "sorted_list_of_set (dom (h_snaps H))"
  have fin: "finite (dom (h_snaps H))" by (rule represents_dest(4) [OF assms(1)])
  have "zlist (by_member ?g) = map (\<lambda>v. dec_of_int (int v)) (sorted_list_of_set (dom ?g))"
    by (rule zlist_by_member) (use fin in auto)
  then have "takeWhile (\<lambda>x. x \<noteq> dec_of_int (int v)) (zlist (by_member ?g)) = map (\<lambda>v. dec_of_int (int v)) (takeWhile (\<lambda>x. x \<noteq> v) ?xs)"
    by (simp add: takeWhile_map comp_def dec_of_int_inj)
  also have "takeWhile (\<lambda>x. x \<noteq> v) ?xs = filter (\<lambda>x. x < v) ?xs"
    by (rule takeWhile_sorted) (use assms(2) fin in auto)
  finally have "length (takeWhile (\<lambda>x. x \<noteq> dec_of_int (int v)) (zlist (by_member ?g))) = length (filter (\<lambda>x. x < v) ?xs)" by simp
  also have "\<dots> = card {w \<in> dom (h_snaps H). w < v}"
    using fin by (simp add: distinct_length_filter) (metis Collect_conj_eq Collect_mem_eq inf_commute)
  finally show ?thesis
    using assms(2) by (auto simp: as_zset_with [OF represents_dest(2) [OF assms(1)]])
qed

lemma rank_missing:
  assumes "represents ks H" and "h_snaps H v = None"
  shows "ks_exec ks (ZRANK kIndexKey (dec_of_int (int v))) = (Inr LFalse, ks)"
  using assms(2) by (simp add: as_zset_with [OF represents_dest(2) [OF assms(1)]])

lemma by_member_del: "(by_member g)(dec_of_int (int v) := None) = by_member (g(v := None))"
proof
  fix m
  show "((by_member g)(dec_of_int (int v) := None)) m = by_member (g(v := None)) m"
    by (cases "m = dec_of_int (int v)") (auto simp: by_member_def)
qed

lemma as_store [simp]:
  "as_hash (store_hash ks k h) k = Some h" "as_zset (store_zset ks k z) k = Some z"
  "k \<noteq> k' \<Longrightarrow> as_hash (store_hash ks k' h) k = as_hash ks k" "k \<noteq> k' \<Longrightarrow> as_zset (store_hash ks k' h) k = as_zset ks k"
  "k \<noteq> k' \<Longrightarrow> as_list (store_hash ks k' h) k = as_list ks k" "k \<noteq> k' \<Longrightarrow> store_hash ks k' h k = ks k"
  "k \<noteq> k' \<Longrightarrow> as_hash (store_zset ks k' z) k = as_hash ks k" "k \<noteq> k' \<Longrightarrow> as_zset (store_zset ks k' z) k = as_zset ks k"
  "k \<noteq> k' \<Longrightarrow> as_list (store_zset ks k' z) k = as_list ks k" "k \<noteq> k' \<Longrightarrow> store_zset ks k' z k = ks k"
  by (auto simp: as_hash_def as_zset_def as_list_def store_hash_def store_zset_def)

lemma represents_removed:
  assumes "represents ks H"
  shows "represents (store_zset (store_hash (ks(snapshot_key (int v) := None)) kMetaKey
        ((by_member (\<lambda>w. map_option fst (h_snaps H w)))(dec_of_int (int v) := None))) kIndexKey
      ((by_member (\<lambda>w. map_option (\<lambda>_. rat_of_nat w) (h_snaps H w)))(dec_of_int (int v) := None))) (gc_remove H v)"
proof -
  have meta: "(by_member (\<lambda>w. map_option fst (h_snaps H w)))(dec_of_int (int v) := None) =
      by_member (\<lambda>w. map_option fst (((h_snaps H)(v := None)) w))"
    and index: "(by_member (\<lambda>w. map_option (\<lambda>_. rat_of_nat w) (h_snaps H w)))(dec_of_int (int v) := None) =
      by_member (\<lambda>w. map_option (\<lambda>_. rat_of_nat w) (((h_snaps H)(v := None)) w))"
    by (auto simp: by_member_del intro!: by_member_cong)
  have fin: "finite (dom ((h_snaps H)(v := None)))" using represents_dest(4) [OF assms] by simp
  show ?thesis
    unfolding meta index using assms fin unfolding represents_def gc_remove_def by (auto simp: snapshot_key_inj)
qed

lemma split_around:
  fixes v :: "'a::linorder"
  assumes "finite A" and "v \<in> A"
  shows "card A = Suc (card {w \<in> A. w < v} + card {w \<in> A. v < w})"
proof -
  let ?U = "{w \<in> A. w < v} \<union> {w \<in> A. v < w}"
  have "card ?U = card {w \<in> A. w < v} + card {w \<in> A. v < w}" by (rule card_Un_disjoint) (use assms(1) in auto)
  moreover have "card (insert v ?U) = Suc (card ?U)" by (rule card_insert_disjoint) (use assms(1) in auto)
  moreover have "A = insert v ?U" using assms(2) by auto
  ultimately show ?thesis by simp
qed

definition gc_due :: "lua_num \<Rightarrow> history_config \<Rightarrow> int \<Rightarrow> history \<Rightarrow> nat \<Rightarrow> bool" where
  "gc_due L cfg cutoff H v \<longleftrightarrow>
     v < h_version H \<and> hc_retention_versions cfg \<le> int (card {w \<in> dom (h_snaps H). v < w}) \<and>
     (\<exists>m fs ts. h_snaps H v = Some (m, fs) \<and> Option.bind (meta_ts m) (lu_tonumber L) = Some ts \<and> ts < rat_of_int cutoff)"

lemma gc_delete_rep:
  assumes rep: "represents ks H" and L: "lua_ok L" and small: "small_history H" and v: "v < 10 ^ 14" and ver: "0 < h_version H"
    and retain: "\<bar>hc_retention_versions cfg\<bar> < 10 ^ 14" and cutoff: "\<bar>cutoff\<bar> < 10 ^ 14"
  shows "\<exists>c ks'. gc_delete_script ks_exec L (gc_delete_keys (int v)) (gc_delete_argv cfg cutoff (int v)) ks = ret c ks' \<and>
    (if c = 1 then represents ks' (gc_remove H v) \<and> gc_due L cfg cutoff H v else ks' = ks)"
proof -
  let ?D = "dom (h_snaps H)" and ?m = "dec_of_int (int v)" and ?R = "hc_retention_versions cfg"
  have fin: "finite ?D" by (rule represents_dest(4) [OF rep])
  have num: "lu_tonumber L (dec_of_int (int v)) = Some (rat_of_nat v)" "lu_tostring L (rat_of_nat v) = ?m"
    "lu_tonumber L (dec_of_int ?R) = Some (rat_of_int ?R)" "lu_tonumber L (dec_of_int cutoff) = Some (rat_of_int cutoff)"
    using lua_nat [OF L v] L retain cutoff by (auto simp: lua_ok_def)
  have "h_version H < 10 ^ 14" using small by (simp add: small_history_def)
  then have cur: "lu_tonumber L (dec_of_int (int (h_version H))) = Some (rat_of_nat (h_version H))" by (rule lua_nat [OF L])
  have get: "ks_exec ks (GET kVersionKey) = (Inr (LStr (dec_of_int (int (h_version H)))), ks)" using represents_dest(6) [OF rep] ver by auto
  have keys: "arg_at (gc_delete_keys (int v)) 1 = kVersionKey" "arg_at (gc_delete_keys (int v)) 2 = kIndexKey"
    "arg_at (gc_delete_keys (int v)) 3 = kMetaKey" "arg_at (gc_delete_keys (int v)) 4 = snapshot_key (int v)"
    "arg_at (gc_delete_argv cfg cutoff (int v)) 1 = ?m" "arg_at (gc_delete_argv cfg cutoff (int v)) 2 = dec_of_int ?R"
    "arg_at (gc_delete_argv cfg cutoff (int v)) 3 = dec_of_int cutoff"
    by (simp_all add: gc_delete_keys_def gc_delete_argv_def arg_at_def)
  define top where "top = LArr (if ?D = {} then [] else [dec_of_int (int (Max ?D))])"
  define high where "high = (case top1 top of None \<Rightarrow> False | Some m \<Rightarrow> (case lu_tonumber L m of None \<Rightarrow> True | Some h \<Rightarrow> h > rat_of_nat (h_version H)))"
  define rest where "rest = rcall ks_exec ks (ZRANK kIndexKey ?m) (\<lambda>rank s. rcall ks_exec s (ZCARD kIndexKey) (\<lambda>members s.
      case (rank, members) of
        (LNum r, LNum n) \<Rightarrow>
          if r \<ge> n - rat_of_int ?R then ret 0 s
          else rcall ks_exec s (HGET kMetaKey ?m) (\<lambda>meta s.
            case ts_of L meta of
              None \<Rightarrow> ret 0 s
            | Some ts \<Rightarrow>
                if ts \<ge> rat_of_int cutoff then ret 0 s
                else
                  rcall ks_exec s (UNLINK (snapshot_key (int v))) (\<lambda>_ s.
                  rcall ks_exec s (HDEL kMetaKey ?m) (\<lambda>_ s.
                  rcall ks_exec s (ZREM kIndexKey ?m) (\<lambda>_ s. ret 1 s))))
      | _ \<Rightarrow> ret 0 s))"
  have script: "gc_delete_script ks_exec L (gc_delete_keys (int v)) (gc_delete_argv cfg cutoff (int v)) ks =
      (if high then ret (-5) ks else if v \<ge> h_version H then ret 0 ks else rest)"
    unfolding gc_delete_script_def Let_def keys num(1,3,4) rcall_def [of _ _ "GET _"] get prod.case sum.case number_or_def lval.case cur option.case
      rcall_def [of _ _ "ZREVRANGE _ _ _"] index_top [OF rep] top_def [symmetric] high_def [symmetric] num(2) rest_def
    by simp
  show ?thesis
  proof (cases "h_snaps H v")
    case None
    have "rest = ret 0 ks"
      by (simp add: rest_def rcall_def rank_missing [OF rep None] rep_commands(5) [OF rep] del: ks_exec.simps)
    then show ?thesis unfolding script by (auto simp: ret_def)
  next
    case (Some x)
    obtain m fs where snap: "h_snaps H v = Some (m, fs)" using Some by (cases x) auto
    let ?rank = "card {w \<in> ?D. w < v}" and ?newer = "card {w \<in> ?D. v < w}"
    have n: "card ?D = Suc (?rank + ?newer)" by (rule split_around [OF fin]) (use Some in blast)
    have rest: "rest = (if rat_of_nat ?rank \<ge> rat_of_nat (card ?D) - rat_of_int ?R then ret 0 ks else
        case Option.bind (meta_ts m) (lu_tonumber L) of None \<Rightarrow> ret 0 ks
        | Some ts \<Rightarrow> if ts \<ge> rat_of_int cutoff then ret 0 ks
            else ret 1 (store_zset (store_hash (ks(snapshot_key (int v) := None)) kMetaKey
              ((by_member (\<lambda>w. map_option fst (h_snaps H w)))(?m := None))) kIndexKey
              ((by_member (\<lambda>w. map_option (\<lambda>_. rat_of_nat w) (h_snaps H w)))(?m := None))))"
    proof -
      have hget: "ks_exec ks (HGET kMetaKey ?m) = (Inr (LStr m), ks)" using rep_commands(1) [OF rep, of v] snap by (simp add: opt_str_def)
      let ?k1 = "ks(snapshot_key (int v) := None)"
      let ?k2 = "store_hash ?k1 kMetaKey ((by_member (\<lambda>w. map_option fst (h_snaps H w)))(?m := None))"
      have upd: "as_hash ?k1 kMetaKey = Some (by_member (\<lambda>w. map_option fst (h_snaps H w)))"
        "as_zset ?k2 kIndexKey = Some (by_member (\<lambda>w. map_option (\<lambda>_. rat_of_nat w) (h_snaps H w)))"
        using represents_dest(1,2) [OF rep] by simp_all
      obtain x y z where del: "ks_exec ks (UNLINK (snapshot_key (int v))) = (Inr x, ?k1)" "ks_exec ?k1 (HDEL kMetaKey ?m) = (Inr y, ?k2)"
        "ks_exec ?k2 (ZREM kIndexKey ?m) = (Inr z, store_zset ?k2 kIndexKey
           ((by_member (\<lambda>w. map_option (\<lambda>_. rat_of_nat w) (h_snaps H w)))(?m := None)))"
        by (simp add: as_hash_with [OF upd(1)] as_zset_with [OF upd(2)])
      have rank: "ks_exec ks (ZRANK kIndexKey ?m) = (Inr (num_of ?rank), ks)" by (rule rank_rep [OF rep]) (simp add: snap)
      show ?thesis
        by (simp add: rest_def rcall_def rank rep_commands(5) [OF rep] hget del num_of_def ts_of_def del: ks_exec.simps split: option.split)
    qed
    show ?thesis
    proof (cases "\<not> high \<and> v < h_version H \<and> \<not> rat_of_nat ?rank \<ge> rat_of_nat (card ?D) - rat_of_int ?R \<and>
        (\<exists>ts. Option.bind (meta_ts m) (lu_tonumber L) = Some ts \<and> ts < rat_of_int cutoff)")
      case True
      then obtain ts where ts: "Option.bind (meta_ts m) (lu_tonumber L) = Some ts" "ts < rat_of_int cutoff" by blast
      have "rat_of_int (int ?rank) < rat_of_int (int (card ?D) - ?R)" using True by simp
      then have "int ?rank < int (card ?D) - ?R" by (simp only: of_int_less_iff)
      then have "?R \<le> int ?newer" using n by simp
      with True snap ts have "gc_due L cfg cutoff H v" unfolding gc_due_def by blast
      then show ?thesis using True ts represents_removed [OF rep, of v] unfolding script rest by (auto simp: ret_def)
    next
      case False
      then have "gc_delete_script ks_exec L (gc_delete_keys (int v)) (gc_delete_argv cfg cutoff (int v)) ks = ret (if high then -5 else 0) ks"
        unfolding script rest by (auto simp: not_le not_less split: option.split)
      then show ?thesis by (intro exI [of _ "if high then -5 else 0"] exI [of _ ks]) auto
    qed
  qed
qed

text \<open>
  Removing an old version takes away this version and nothing else, and only if it lies below the current one, at least the configured
  number of newer versions remain, and its recorded time is before the cutoff. In every other case the store is untouched.
\<close>

lemma gc_delete_safe:
  assumes "serves srv view" and "lua_ok L" and "represents (view s) H" and "small_history H" and "v < 10 ^ 14" and "0 < h_version H"
    and "\<bar>hc_retention_versions cfg\<bar> < 10 ^ 14" and "\<bar>cutoff\<bar> < 10 ^ 14"
  shows "\<exists>c s'. gc_delete_script srv L (gc_delete_keys (int v)) (gc_delete_argv cfg cutoff (int v)) s = (Inr c, s') \<and>
    (if c = 1 then represents (view s') (gc_remove H v) \<and> v < h_version H \<and>
       hc_retention_versions cfg \<le> int (card {w \<in> dom (h_snaps H). v < w}) \<and>
       (\<exists>m fs ts. h_snaps H v = Some (m, fs) \<and> Option.bind (meta_ts m) (lu_tonumber L) = Some ts \<and> ts < rat_of_int cutoff)
     else view s' = view s)"
  using gc_delete_rep [OF assms(3,2,4-8)]
    sim_gc_delete_script [OF assms(1), of L "gc_delete_keys (int v)" "gc_delete_argv cfg cutoff (int v)" s]
  unfolding gc_due_def
  by (cases "gc_delete_script srv L (gc_delete_keys (int v)) (gc_delete_argv cfg cutoff (int v)) s") (auto simp: sim_def ret_def)

section \<open>A whole check\<close>

fun service_exec :: "lua_num \<Rightarrow> keyspace \<Rightarrow> service_request \<Rightarrow> redis_reply \<times> keyspace" where
  "service_exec L ks (Health keys argv) = array_reply (health_script ks_exec L keys argv ks)"
| "service_exec L ks (Gc_candidates keys argv) = array_reply (gc_candidates_script ks_exec L keys argv ks)"
| "service_exec L ks (Gc_delete keys argv) = int_reply (gc_delete_script ks_exec L keys argv ks)"
| "service_exec L ks (Migrate keys argv) = int_reply (migration_script ks_exec L keys argv ks)"
| "service_exec L ks Mirror_files = apfst reply_of (ks_exec ks (HGETALL kFilesKey))"

definition service_server :: "lua_num \<Rightarrow> keyspace service_cmd" where
  "service_server L ks rq = apfst parse_redis_reply (service_exec L ks rq)"

lemma represents_hdel_machines:
  assumes "represents ks H"
  shows "\<exists>x ks'. ks_exec ks (HDEL kMachinesKey f) = (Inr x, ks') \<and> represents ks' H"
proof -
  obtain h where "as_hash ks kMachinesKey = Some h" using represents_types(7) [OF assms] by blast
  then have "ks_exec ks (HDEL kMachinesKey f) = (Inr (num_of (if h f = None then 0 else 1)), store_hash ks kMachinesKey (h(f := None)))"
    by (simp add: as_hash_with)
  moreover have "represents (store_hash ks kMachinesKey (h(f := None))) H" using assms unfolding represents_def by simp
  ultimately show ?thesis by blast
qed

lemma sweep_rep:
  "represents ks H \<Longrightarrow> \<exists>top ks'. represents ks' H \<and> (\<forall>f. sweep_machines ks_exec L kMachinesKey now ttl ms high ks f = f top ks')"
proof (induction ms arbitrary: ks high)
  case (Cons m ms)
  obtain n v where m: "m = (n, v)" by fastforce
  obtain x ks1 where h: "ks_exec ks (HDEL kMachinesKey n) = (Inr x, ks1)" "represents ks1 H"
    using represents_hdel_machines [OF Cons.prems] by blast
  show ?case
  proof (cases "machine_time L v")
    case None
    then show ?thesis using Cons.IH [OF h(2)] h(1) by (simp add: m rcall_def del: ks_exec.simps)
  next
    case (Some ts)
    show ?thesis
    proof (cases "now - ts > ttl")
      case True
      then show ?thesis using Some Cons.IH [OF h(2)] h(1) by (simp add: m rcall_def del: ks_exec.simps)
    next
      case False
      then show ?thesis using Some Cons.IH [OF Cons.prems] by (cases "machine_version L v") (simp_all add: m)
    qed
  qed
qed auto

definition store_verdict :: "history \<Rightarrow> string" where
  "store_verdict H =
     (if h_version H = 0 then ''ok''
      else if dom (h_snaps H) = {} then
        if h_version H = 1 \<and> card (dom (h_mirror H)) = 0 then ''legacy-empty''
        else if card (dom (h_mirror H)) \<noteq> 0 then ''legacy'' else ''incomplete''
      else if Max (dom (h_snaps H)) \<noteq> h_version H then ''incomplete'' else ''ok'')"

definition index_high :: "history \<Rightarrow> nat" where
  "index_high H = (if dom (h_snaps H) = {} then 0 else Max (dom (h_snaps H)))"

lemma head_integrity_rep:
  assumes rep: "represents ks H" and L: "lua_ok L" and small: "small_history H"
  shows "head_integrity ks_exec L [kVersionKey, kIndexKey, kMachinesKey, kMetaKey, kFilesKey] kSnapshotPrefix (rat_of_nat (h_version H))
    (rat_of_nat (index_high H)) ks f = f (store_verdict H) ks"
proof (cases "h_version H = 0")
  case False
  let ?D = "dom (h_snaps H)" and ?v = "h_version H"
  define mem key where "mem = dec_of_int (int ?v)" and "key = snapshot_key (int ?v)"
  have fin: "finite ?D" by (rule represents_dest(4) [OF rep])
  have "?v < 10 ^ 14" using small by (simp add: small_history_def)
  then have n: "lu_tostring L (rat_of_nat ?v) = mem" unfolding mem_def by (rule lua_nat [OF L])
  have key: "kSnapshotPrefix @ mem = key" by (simp add: snapshot_key_def mem_def key_def)
  have mirror: "ks_exec ks (HLEN kFilesKey) = (Inr (num_of (card (dom (h_mirror H)))), ks)"
    by (simp add: as_hash_with [OF represents_dest(5) [OF rep]])
  note cmds = rep_commands(1,3,4) [OF rep, of ?v, folded mem_def key_def] rep_commands(5,6) [OF rep]
  have empty: "card ?D = 0 \<longleftrightarrow> ?D = {}" using fin by simp
  have top: "?D \<noteq> {} \<Longrightarrow> Max ?D = ?v \<Longrightarrow> h_snaps H ?v \<noteq> None" using Max_in [OF fin] by (metis domIff)
  show ?thesis
    unfolding head_integrity_def Let_def n key rcall_def
    using False top
    by (auto simp: arg_at_def cmds mirror num_of_def opt_str_def store_verdict_def index_high_def empty
        simp del: ks_exec.simps card_eq_0_iff split: option.split)
qed (simp add: head_integrity_def store_verdict_def Let_def)

lemma index_high_small: "small_history H \<Longrightarrow> finite (dom (h_snaps H)) \<Longrightarrow> index_high H < 10 ^ 14"
  using Max_in [of "dom (h_snaps H)"] by (auto simp: index_high_def small_history_def simp del: domIff)

lemma health_script_rep:
  assumes rep: "represents ks H" and L: "lua_ok L" and small: "small_history H"
  shows "\<exists>reported ks'. represents ks' H \<and>
    health_script ks_exec L [kVersionKey, kIndexKey, kMachinesKey, kMetaKey, kFilesKey] (health_argv cfg env) ks =
      (Inr [dec_of_int (int (h_version H)), dec_of_int (int (index_high H)), reported, store_verdict H], ks')"
proof -
  let ?keys = "[kVersionKey, kIndexKey, kMachinesKey, kMetaKey, kFilesKey]" and ?D = "dom (h_snaps H)"
  have types: "check_types ks_exec ?keys health_expected ks bad f = f ks" for bad and f :: "keyspace \<Rightarrow> (string + string list) \<times> keyspace"
    by (rule check_types_ks) (use rep_types [OF rep] represents_dest(6) [OF rep] in \<open>auto simp: health_expected_def\<close>)
  have fin: "finite ?D" by (rule represents_dest(4) [OF rep])
  have top: "index_high H < 10 ^ 14" by (rule index_high_small [OF small fin])
  have b: "h_version H < 10 ^ 14" using small by (simp add: small_history_def)
  note n = lua_nat [OF L b] lua_nat [OF L top]
  have ih: "(case top1 (LArr (if ?D = {} then [] else [dec_of_int (int (Max ?D))])) of None \<Rightarrow> 0
      | Some m \<Rightarrow> (case lu_tonumber L m of None \<Rightarrow> -1 | Some x \<Rightarrow> x)) = rat_of_nat (index_high H)"
    using lua_nat(1) [OF L top] by (auto simp: index_high_def split: if_splits)
  obtain h where h: "as_hash ks kMachinesKey = Some h" using represents_types(7) [OF rep] by blast
  define num where "num i d = (case lu_tonumber L (arg_at (health_argv cfg env) i) of None \<Rightarrow> d | Some x \<Rightarrow> x)" for i d
  obtain hi ks' where sw: "represents ks' H"
    "\<And>f :: rat \<Rightarrow> keyspace \<Rightarrow> (string + string list) \<times> keyspace.
      sweep_machines ks_exec L kMachinesKey (num 2 0) (num 3 3600) (hash_pairs h) 0 ks f = f hi ks'"
    using sweep_rep [OF rep] by metis
  have prefix: "arg_at (health_argv cfg env) 1 = kSnapshotPrefix" by (simp add: health_argv_def arg_at_def)
  have keys: "arg_at ?keys 1 = kVersionKey" "arg_at ?keys 2 = kIndexKey" "arg_at ?keys 3 = kMachinesKey" by (simp_all add: arg_at_def)
  have "health_script ks_exec L ?keys (health_argv cfg env) ks =
      (Inr [dec_of_int (int (h_version H)), dec_of_int (int (index_high H)), lu_tostring L hi, store_verdict H], ks')"
    unfolding health_script_def Let_def types keys rcall_version [OF rep L small] rcall_def [of _ _ "ZREVRANGE _ _ _"] index_top [OF rep]
      prod.case sum.case ih rcall_def [of _ _ "HGETALL _"] num_def [symmetric]
    by (simp add: as_hash_with [OF h] sw(2) prefix [simplified] head_integrity_rep [OF sw(1) L small] n)
  with sw(1) show ?thesis by blast
qed

lemma gc_pick_rep: "represents ks H \<Longrightarrow> \<exists>xs. gc_pick ks_exec L kMetaKey cur cutoff batch vs out ks = (Inr xs, ks)"
proof (induction vs arbitrary: out)
  case (Cons v vs)
  have h: "ks_exec ks (HGET kMetaKey v) = (Inr (opt_str (by_member (\<lambda>v. map_option fst (h_snaps H v)) v)), ks)"
    by (simp add: as_hash_with [OF represents_dest(1) [OF Cons.prems]])
  show ?case
    using Cons.IH [OF Cons.prems, of out] Cons.IH [OF Cons.prems, of "out @ [v]"]
    by (simp add: rcall_def h del: ks_exec.simps split: option.split)
qed simp

lemma gc_candidates_rep:
  assumes "represents ks H"
  shows "\<exists>xs. gc_candidates_script ks_exec L [kIndexKey, kMetaKey] argv ks = (Inr xs, ks)"
proof -
  have z: "ks_exec ks (ZRANGE kIndexKey 0 j) =
      (Inr (LArr (slice 0 j (zlist (by_member (\<lambda>v. map_option (\<lambda>_. rat_of_nat v) (h_snaps H v)))))), ks)" for j
    by (simp add: as_zset_with [OF represents_dest(2) [OF assms]])
  show ?thesis
    using gc_pick_rep [OF assms]
    by (simp add: gc_candidates_script_def Let_def rcall_def arg_at_def rep_commands(5) [OF assms] z num_of_def
        del: ks_exec.simps split: option.split)
qed

text \<open>What the removal of old versions may do to a history.\<close>

definition pruned :: "int \<Rightarrow> history \<Rightarrow> history \<Rightarrow> bool" where
  "pruned retain H H' \<longleftrightarrow> h_version H' = h_version H \<and> h_mirror H' = h_mirror H \<and> h_snaps H' \<subseteq>\<^sub>m h_snaps H \<and>
     (\<forall>v \<in> dom (h_snaps H) - dom (h_snaps H'). v < h_version H \<and> retain \<le> int (card {w \<in> dom (h_snaps H'). v < w}))"

lemma pruned_refl: "pruned retain H H"
  by (simp add: pruned_def)

lemma pruned_small: "pruned retain H H' \<Longrightarrow> small_history H \<Longrightarrow> small_history H'"
  unfolding pruned_def small_history_def using map_le_implies_dom_le by (metis subsetD)

lemma pruned_step:
  assumes due: "v < h_version H" "retain \<le> int (card {w \<in> dom (h_snaps H). v < w})" and fin: "finite (dom (h_snaps H))"
    and next': "pruned retain (gc_remove H v) H'"
  shows "pruned retain H H'"
proof -
  let ?D = "dom (h_snaps H)" and ?D' = "dom (h_snaps H')"
  have le: "h_snaps H' \<subseteq>\<^sub>m (h_snaps H)(v := None)" using next' by (simp add: pruned_def gc_remove_def)
  then have le': "h_snaps H' \<subseteq>\<^sub>m h_snaps H" by (auto simp: map_le_def dom_def split: if_splits)
  have fin': "finite ?D'" using map_le_implies_dom_le [OF le'] fin by (rule finite_subset)
  have rest: "w < h_version H \<and> retain \<le> int (card {x \<in> ?D'. w < x})" if "w \<in> ?D - ?D'" "w \<noteq> v" for w
    using next' that by (auto simp: pruned_def gc_remove_def)
  have "retain \<le> int (card {w \<in> ?D'. v < w})"
  proof (cases "{w \<in> ?D. v < w} \<subseteq> ?D'")
    case True
    then have "card {w \<in> ?D. v < w} \<le> card {w \<in> ?D'. v < w}" by (intro card_mono) (use fin' in auto)
    with due(2) show ?thesis by linarith
  next
    case False
    then obtain w where w: "w \<in> ?D - ?D'" "v < w" by blast
    with rest [of w] have "retain \<le> int (card {x \<in> ?D'. w < x})" by auto
    moreover have "card {x \<in> ?D'. w < x} \<le> card {x \<in> ?D'. v < x}" by (intro card_mono) (use fin' w in auto)
    ultimately show ?thesis by linarith
  qed
  with rest due(1) le' next' show ?thesis unfolding pruned_def gc_remove_def by auto
qed

lemma delete_candidates_rep:
  assumes L: "lua_ok L" and retain: "\<bar>hc_retention_versions cfg\<bar> < 10 ^ 14" and cutoff: "\<bar>cutoff\<bar> < 10 ^ 14"
  shows "represents ks H \<Longrightarrow> small_history H \<Longrightarrow> 0 < h_version H \<Longrightarrow> \<forall>c \<in> set cs. 0 < c \<and> c < int (h_version H) \<Longrightarrow>
    \<exists>sv' ks' H'. delete_candidates (service_server L) cfg cutoff cs sv ks = (sv', ks') \<and> represents ks' H' \<and>
      pruned (hc_retention_versions cfg) H H'"
proof (induction cs arbitrary: sv ks H)
  case Nil
  then show ?case using pruned_refl by fastforce
next
  case (Cons c cs)
  show ?case
  proof (cases "hv_inconsistent sv")
    case True
    then show ?thesis using Cons.prems pruned_refl by fastforce
  next
    case False
    obtain v where c: "c = int v" using Cons.prems(4) by (metis list.set_intros(1) zero_less_imp_eq_int)
    have "v < 10 ^ 14" using Cons.prems(2,4) c by (auto simp: small_history_def)
    from gc_delete_rep [OF Cons.prems(1) L Cons.prems(2) this Cons.prems(3) retain cutoff] obtain r ks1
      where del: "gc_delete_script ks_exec L (gc_delete_keys (int v)) (gc_delete_argv cfg cutoff (int v)) ks = ret r ks1"
        and eff: "if r = 1 then represents ks1 (gc_remove H v) \<and> gc_due L cfg cutoff H v else ks1 = ks" by blast
    have cmd: "service_server L ks (Gc_delete (gc_delete_keys c) (gc_delete_argv cfg cutoff c)) = (parse_redis_reply (R_integer r), ks1)"
      by (simp add: service_server_def c del int_reply_def ret_def)
    show ?thesis
    proof (cases "r = 1")
      case True
      with eff have rm: "represents ks1 (gc_remove H v)" and due: "gc_due L cfg cutoff H v" by auto
      have sm: "small_history (gc_remove H v)" using Cons.prems(2) by (auto simp: gc_remove_def small_history_def)
      have pos: "0 < h_version (gc_remove H v)" "\<forall>c \<in> set cs. 0 < c \<and> c < int (h_version (gc_remove H v))"
        using Cons.prems(3,4) by (auto simp: gc_remove_def)
      from Cons.IH [OF rm sm pos, of "sv\<lparr>hv_gc_deleted := hv_gc_deleted sv + 1\<rparr>"]
      obtain sv' ks' H' where res: "delete_candidates (service_server L) cfg cutoff cs (sv\<lparr>hv_gc_deleted := hv_gc_deleted sv + 1\<rparr>) ks1 = (sv', ks')"
        "represents ks' H'" "pruned (hc_retention_versions cfg) (gc_remove H v) H'" by blast
      have "pruned (hc_retention_versions cfg) H H'"
        using due by (intro pruned_step [OF _ _ represents_dest(4) [OF Cons.prems(1)] res(3)]) (auto simp: gc_due_def)
      with res(1,2) True False cmd show ?thesis by auto
    next
      case r: False
      then have "ks1 = ks" using eff by simp
      show ?thesis
      proof (cases "r = -5")
        case True
        then show ?thesis using False cmd Cons.prems(1) pruned_refl \<open>ks1 = ks\<close> by fastforce
      next
        case no: False
        have "\<exists>sv' ks' H'. delete_candidates (service_server L) cfg cutoff cs sv ks = (sv', ks') \<and> represents ks' H' \<and>
            pruned (hc_retention_versions cfg) H H'" using Cons.IH [OF Cons.prems(1-3)] Cons.prems(4) by simp
        then show ?thesis using False cmd r no \<open>ks1 = ks\<close> by simp
      qed
    qed
  qed
qed

lemma read_gc_candidates_rep:
  assumes rep: "represents ks H" and L: "lua_ok L" and small: "small_history H" and ver: "0 < h_version H"
    and retain: "\<bar>hc_retention_versions cfg\<bar> < 10 ^ 14" and cutoff: "\<bar>gc_cutoff cfg env\<bar> < 10 ^ 14"
  shows "\<exists>sv' ks' H'. read_gc_candidates (service_server L) cfg env (int (h_version H)) sv ks = (sv', ks') \<and> represents ks' H' \<and>
    pruned (hc_retention_versions cfg) H H'"
proof -
  let ?argv = "[dec_of_int (int (h_version H)), dec_of_int (hc_retention_versions cfg), dec_of_int (gc_cutoff cfg env), dec_of_nat (hc_gc_batch_size cfg)]"
  obtain xs where xs: "gc_candidates_script ks_exec L [kIndexKey, kMetaKey] ?argv ks = (Inr xs, ks)"
    using gc_candidates_rep [OF rep] by blast
  show ?thesis
    unfolding read_gc_candidates_def Let_def service_server_def [of _ _ "Gc_candidates _ _"] service_exec.simps xs
    using delete_candidates_rep [OF L retain cutoff rep small ver]
    by (simp add: array_reply_def parse_redis_reply_def redis_reply_data0_def comp_def reply_element_def)
qed

lemma head_complete_verdict:
  assumes "0 \<notin> dom (h_snaps H)" and "finite (dom (h_snaps H))" and "index_high H \<le> h_version H" and "store_verdict H = ''ok''"
  shows "head_complete H"
proof (cases "dom (h_snaps H) = {}")
  case True
  then show ?thesis using assms(4) by (auto simp: store_verdict_def head_complete_def split: if_splits)
next
  case False
  let ?m = "Max (dom (h_snaps H))"
  have top: "?m \<in> dom (h_snaps H)" by (rule Max_in [OF assms(2) False])
  have "?m \<le> h_version H" using assms(3) False by (simp add: index_high_def)
  then have "h_version H \<noteq> 0" using top assms(1) by (metis le_zero_eq)
  then have "?m = h_version H" using assms(4) False by (simp add: store_verdict_def split: if_splits)
  then show ?thesis
    using top Max_ge [OF assms(2)] \<open>h_version H \<noteq> 0\<close> unfolding head_complete_def by (metis neq0_conv)
qed

text \<open>What a check may report of the store: behind nothing it has seen, and with a complete newest version or, if allowed, without a history.\<close>

definition store_sound :: "history_config \<Rightarrow> int \<Rightarrow> history \<Rightarrow> bool" where
  "store_sound cfg observed H \<longleftrightarrow> observed \<le> int (h_version H) \<and>
     (head_complete H \<or> hc_read_mode cfg = ''compat'' \<and> dom (h_snaps H) = {})"

lemma healthy_rep:
  assumes rep: "represents ks H" and L: "lua_ok L" and small: "small_history H"
    and retain: "\<bar>hc_retention_versions cfg\<bar> < 10 ^ 14" and cutoff: "\<bar>gc_cutoff cfg env\<bar> < 10 ^ 14"
  shows "\<exists>sv' ks' H'. (if int (h_version H) \<le> 0 then (sv, ks) else read_gc_candidates (service_server L) cfg env (int (h_version H)) sv ks) =
    (sv', ks') \<and> represents ks' H' \<and> pruned (hc_retention_versions cfg) H H'"
  using read_gc_candidates_rep [OF assms(1-3) _ retain cutoff, of sv] rep pruned_refl [of _ H] by (cases "h_version H = 0") auto

lemma health_verdict_rep:
  assumes rep: "represents ks H" and L: "lua_ok L" and small: "small_history H" and zero: "0 \<notin> dom (h_snaps H)"
    and retain: "\<bar>hc_retention_versions cfg\<bar> < 10 ^ 14" and cutoff: "\<bar>gc_cutoff cfg env\<bar> < 10 ^ 14"
    and migrated: "hc_auto_migrate_legacy cfg \<Longrightarrow> store_verdict H \<noteq> ''legacy''"
    and ok: "rd_ok reply" "rd_type reply = ''array''"
    and es: "rd_elements reply = [dec_of_int (int (h_version H)), dec_of_int (int (index_high H)), reported, store_verdict H]"
  shows "\<exists>sv' ks' H'. health_verdict (service_server L) cfg env reply sv ks = Inl (sv', ks') \<and> represents ks' H' \<and>
    pruned (hc_retention_versions cfg) H H' \<and> (hv_inconsistent sv' \<or> store_sound cfg (hv_observed sv) H)"
proof -
  have fin: "finite (dom (h_snaps H))" by (rule represents_dest(4) [OF rep])
  have b: "h_version H < 2 ^ 63" "index_high H < 2 ^ 63"
    using small index_high_small [OF small fin] by (simp_all add: small_history_def)
  then have nums: "parse_int64 (dec_of_int (int (h_version H))) = Some (int (h_version H))"
    "parse_int64 (dec_of_int (int (index_high H))) = Some (int (index_high H))"
    by (simp_all add: parse_int64_dec_of_int)
  define res where "res = health_verdict (service_server L) cfg env reply sv ks"
  define sv2 where "sv2 = sv\<lparr>hv_observed := max (hv_observed sv) (int (h_version H)), hv_inconsistent := False\<rparr>"
  define healthy where "healthy = (if int (h_version H) \<le> 0 then (sv2, ks)
    else read_gc_candidates (service_server L) cfg env (int (h_version H)) sv2 ks)"
  have "(\<exists>sv'. res = Inl (sv', ks) \<and> hv_inconsistent sv') \<or> res = Inl healthy \<and> store_sound cfg (hv_observed sv) H"
  proof (cases "parse_int64 reported")
    case None
    then show ?thesis using nums by (simp add: res_def health_verdict_def ok es mark_inconsistent_def)
  next
    case (Some r)
    show ?thesis
    proof (cases "int (h_version H) < max (max (hv_observed sv) (int (h_version H))) (max (int (index_high H)) r) \<or> index_high H > h_version H")
      case True
      then show ?thesis using nums Some by (simp add: res_def health_verdict_def ok es mark_inconsistent_def Let_def)
    next
      case False
      then have res: "res = (if store_verdict H = ''legacy'' then
            if hc_read_mode cfg \<noteq> ''compat'' then Inl (mark_inconsistent (sv\<lparr>hv_observed := max (hv_observed sv) (int (h_version H))\<rparr>), ks) else Inl healthy
          else if store_verdict H = ''legacy-empty'' then
            if hc_read_mode cfg \<noteq> ''compat'' then Inl (mark_inconsistent (sv\<lparr>hv_observed := max (hv_observed sv) (int (h_version H))\<rparr>), ks) else Inl healthy
          else if store_verdict H \<noteq> ''ok'' then Inl (mark_inconsistent (sv\<lparr>hv_observed := max (hv_observed sv) (int (h_version H))\<rparr>), ks)
          else Inl healthy)"
        using nums Some migrated by (simp add: res_def health_verdict_def ok es Let_def healthy_def sv2_def)
      have "hv_observed sv \<le> int (h_version H)" "index_high H \<le> h_version H" using False by auto
      moreover have "dom (h_snaps H) = {}" if "store_verdict H = ''legacy'' \<or> store_verdict H = ''legacy-empty''"
        using that by (auto simp: store_verdict_def split: if_splits)
      ultimately show ?thesis
        using head_complete_verdict [OF zero fin] unfolding res store_sound_def by (auto simp: mark_inconsistent_def)
    qed
  qed
  then show ?thesis
    unfolding res_def [symmetric] using healthy_rep [OF rep L small retain cutoff, of sv2] rep pruned_refl [of _ H]
    unfolding healthy_def [symmetric] by fastforce
qed



end
