(* ===== verification/Sync_Lifecycle.thy ===== *)
theory Sync_Lifecycle
  imports Config_Sync
begin

text \<open>
  What surrounds a tick of the synchronisation, \<^verbatim>\<open>src/app/config_sync_lifecycle.cpp, config_sync_remote.cpp, config_sync_files.cpp\<close>: the settings,
  the pull before the process starts to serve, the warning about settings that need a restart, and the timer, tick and completion
  of the periodic service as a step relation.
\<close>

section \<open>Settings\<close>

definition normalize_config :: "config_sync_config \<Rightarrow> config_sync_config" where
  "normalize_config cfg =
     (let c1 = (if sy_sync_interval_sec cfg \<le> 0 then cfg\<lparr>sy_sync_interval_sec := 5\<rparr> else cfg);
          c2 = (if sy_first_pull c1 = [] then c1\<lparr>sy_first_pull := ''async''\<rparr> else c1);
          c3 = (if sy_first_pull c2 \<noteq> ''async'' \<and> sy_first_pull c2 \<noteq> ''blocking'' then c2\<lparr>sy_first_pull := ''async''\<rparr> else c2)
      in if sy_first_pull_timeout_ms c3 \<le> 0 then c3\<lparr>sy_first_pull_timeout_ms := 3000\<rparr> else c3)"

definition effective_drain_timeout_ms :: "app_config \<Rightarrow> int" where
  "effective_drain_timeout_ms app =
     (let cmd_ms = (if rd_cmd_timeout_ms (ap_redis app) \<le> 0 then 30000 else rd_cmd_timeout_ms (ap_redis app)) in cmd_ms + 500)"

definition sync_machine_name :: "config_sync_config \<Rightarrow> string option \<Rightarrow> string" where
  "sync_machine_name cfg host =
     (if sy_machine_name cfg \<noteq> [] then sy_machine_name cfg
      else case host of Some h \<Rightarrow> if h \<noteq> [] then h else ''unknown'' | None \<Rightarrow> ''unknown'')"

lemma normalize_config_normal:
  "sy_sync_interval_sec (normalize_config cfg) > 0" "sy_first_pull (normalize_config cfg) \<in> {''async'', ''blocking''}"
  "sy_first_pull_timeout_ms (normalize_config cfg) > 0" "sy_enabled (normalize_config cfg) = sy_enabled cfg"
  by (simp_all add: normalize_config_def Let_def)

lemma normalize_config_idem: "normalize_config (normalize_config cfg) = normalize_config cfg"
proof -
  have "normalize_config c = c"
    if "sy_sync_interval_sec c > 0" "sy_first_pull c = ''async'' \<or> sy_first_pull c = ''blocking''" "sy_first_pull_timeout_ms c > 0" for c
  proof -
    have "sy_first_pull c \<noteq> []" using that(2) by auto
    with that show ?thesis unfolding normalize_config_def Let_def by simp blast
  qed
  then show ?thesis using normalize_config_normal [of cfg] by blast
qed

section \<open>Settings that need a restart\<close>

definition mysql_config_differs :: "mysql_config \<Rightarrow> mysql_config \<Rightarrow> bool" where
  "mysql_config_differs a b \<longleftrightarrow>
     mc_host a \<noteq> mc_host b \<or> mc_port a \<noteq> mc_port b \<or> mc_user a \<noteq> mc_user b \<or> mc_pass a \<noteq> mc_pass b \<or> mc_db a \<noteq> mc_db b \<or>
     mc_min_size a \<noteq> mc_min_size b \<or> mc_max_size a \<noteq> mc_max_size b \<or> mc_max_idle_sec a \<noteq> mc_max_idle_sec b \<or>
     mc_connect_timeout_ms a \<noteq> mc_connect_timeout_ms b \<or> mc_read_timeout_ms a \<noteq> mc_read_timeout_ms b \<or>
     mc_query_timeout_ms a \<noteq> mc_query_timeout_ms b \<or> mc_acquire_timeout_ms a \<noteq> mc_acquire_timeout_ms b \<or>
     mc_keepalive_sec a \<noteq> mc_keepalive_sec b \<or> mc_worker_threads a \<noteq> mc_worker_threads b \<or> mc_max_creating a \<noteq> mc_max_creating b"

definition redis_config_differs :: "redis_config \<Rightarrow> redis_config \<Rightarrow> bool" where
  "redis_config_differs a b \<longleftrightarrow>
     rd_host a \<noteq> rd_host b \<or> rd_port a \<noteq> rd_port b \<or> rd_db a \<noteq> rd_db b \<or> rd_connect_timeout_ms a \<noteq> rd_connect_timeout_ms b \<or>
     rd_cmd_timeout_ms a \<noteq> rd_cmd_timeout_ms b \<or> rd_mode a \<noteq> rd_mode b \<or> rd_min_size a \<noteq> rd_min_size b \<or>
     rd_max_size a \<noteq> rd_max_size b \<or> rd_max_idle_sec a \<noteq> rd_max_idle_sec b \<or> rd_worker_threads a \<noteq> rd_worker_threads b \<or>
     rd_max_creating a \<noteq> rd_max_creating b \<or> rd_acquire_timeout_ms a \<noteq> rd_acquire_timeout_ms b"

definition startup_config_differs :: "app_config \<Rightarrow> app_config \<Rightarrow> bool" where
  "startup_config_differs old_app new_app \<longleftrightarrow>
     sc_port (ap_server new_app) \<noteq> sc_port (ap_server old_app) \<or> sc_io_threads (ap_server new_app) \<noteq> sc_io_threads (ap_server old_app) \<or>
     sc_max_client_connections (ap_server new_app) \<noteq> sc_max_client_connections (ap_server old_app) \<or>
     sc_fd_reserve (ap_server new_app) \<noteq> sc_fd_reserve (ap_server old_app) \<or>
     mysql_config_differs (ap_mysql new_app) (ap_mysql old_app) \<or> redis_config_differs (ap_redis new_app) (ap_redis old_app)"

text \<open>The comparisons of the pool settings leave out no field.\<close>

lemma pool_config_differs_iff: "mysql_config_differs a b \<longleftrightarrow> a \<noteq> b" "redis_config_differs c d \<longleftrightarrow> c \<noteq> d"
  unfolding mysql_config_differs_def redis_config_differs_def by (auto intro: mysql_config.equality redis_config.equality)

text \<open>The settings read again after a version was applied: \<open>None\<close> when they cannot be read. The warning is given once for a version.\<close>

definition warn_startup_drift_once :: "app_config \<Rightarrow> app_config option \<Rightarrow> int \<Rightarrow> int list \<Rightarrow> bool \<times> int list" where
  "warn_startup_drift_once old_app reread version warned =
     (if version \<in> set warned then (False, warned)
      else ((case reread of None \<Rightarrow> False | Some new_app \<Rightarrow> startup_config_differs old_app new_app), version # warned))"

lemma drift_warned_once:
  "warn_startup_drift_once old_app a v warned = (w, warned') \<Longrightarrow> fst (warn_startup_drift_once old_app b v warned') = False"
  by (auto simp: warn_startup_drift_once_def split: if_splits)

section \<open>The pull before the start\<close>

definition first_pull_redis :: "config_sync_config \<Rightarrow> redis_config \<Rightarrow> redis_config" where
  "first_pull_redis cfg r =
     (let total_ms = max 100 (sy_first_pull_timeout_ms cfg) in
      r\<lparr>rd_mode := Direct, rd_min_size := 0, rd_max_size := 1, rd_worker_threads := 1,
        rd_connect_timeout_ms := max 100 (min 1000 (total_ms div 3)), rd_cmd_timeout_ms := max 100 (min 500 total_ms)\<rparr>)"

text \<open>A server that refuses every command after the deadline. The clock is the list of its readings; when it ends the deadline has passed.\<close>

fun deadline_cmd :: "int \<Rightarrow> 's sync_cmd \<Rightarrow> ('s \<times> int list) sync_cmd" where
  "deadline_cmd deadline cmd (s, []) rq = (redis_make_error ''config sync blocking first_pull deadline exceeded'', (s, []))"
| "deadline_cmd deadline cmd (s, now # clock) rq =
     (if now \<ge> deadline then (redis_make_error ''config sync blocking first_pull deadline exceeded'', (s, clock))
      else case cmd s rq of (reply, s) \<Rightarrow> (reply, (s, clock)))"

definition blocking_first_pull ::
  "'s sync_cmd \<Rightarrow> sync_env \<Rightarrow> config_sync_config \<Rightarrow> redis_config \<Rightarrow> int \<Rightarrow> int list \<Rightarrow> 's \<Rightarrow> disk \<Rightarrow> bool \<times> 's \<times> disk" where
  "blocking_first_pull cmd env cfg r start clock s dk =
     (if \<not> sy_enabled cfg \<or> sy_first_pull cfg \<noteq> ''blocking'' then (True, s, dk)
      else
        let deadline = start + max 100 (sy_first_pull_timeout_ms cfg) in
        case clock of
          [] \<Rightarrow> (False, s, dk)
        | now # clock \<Rightarrow>
            if now \<ge> deadline then (False, s, dk)
            else (case redis_validate_config (first_pull_redis cfg r) of
                    Inl e \<Rightarrow> (False, s, dk)
                  | Inr _ \<Rightarrow>
                      (case sync_once (deadline_cmd deadline cmd) env (sy_history (normalize_config cfg)) (s, clock) dk of
                         (ok, (s, _), dk) \<Rightarrow> (ok, s, dk))))"

lemma deadline_reply:
  "deadline_cmd deadline cmd (s, clock) rq = (r, t) \<Longrightarrow>
     (\<exists>s'. cmd s rq = (r, s') \<and> fst t = s') \<or> fst t = s \<and> \<not> rd_ok r \<and> rd_type r = ''error''"
  by (cases clock) (auto simp: redis_make_error_def redis_reply_data0_def split: if_splits prod.splits)

lemma refused_reply:
  "rd_type r = ''error'' \<Longrightarrow> sync_parse_hgetall r = Some []" "\<not> rd_ok r \<Longrightarrow> read_version_reply r \<noteq> V_missing" "\<not> rd_ok r \<Longrightarrow> read_version_reply r \<noteq> V_value i"
  by (auto simp: sync_parse_hgetall_def read_version_reply_def)

text \<open>A deadline in front of a store is a store again.\<close>

lemma deadline_store:
  assumes "published_store cmd ok pub cur"
  shows "published_store (deadline_cmd deadline cmd) (\<lambda>s. ok (fst s)) (\<lambda>s. pub (fst s)) (\<lambda>s. cur (fst s))"
proof -
  have reply: "(\<exists>s'. cmd (fst s) rq = (fst (deadline_cmd deadline cmd s rq), s') \<and> fst (snd (deadline_cmd deadline cmd s rq)) = s') \<or>
      fst (snd (deadline_cmd deadline cmd s rq)) = fst s \<and> \<not> rd_ok (fst (deadline_cmd deadline cmd s rq)) \<and>
        rd_type (fst (deadline_cmd deadline cmd s rq)) = ''error''" for s rq
    using deadline_reply [of deadline cmd "fst s" "snd s" rq] by (metis prod.collapse)
  show ?thesis
  proof (unfold_locales, goal_cases)
    case (1 s rq)
    then show ?case
      using reply [of s rq] published_store.keeps [OF assms, of "fst s" rq] by (metis map_le_refl order_refl snd_conv)
  next
    case (2 s i)
    then show ?case using reply [of s "Rq_get kVersionKey"] published_store.version [OF assms, of "fst s" i] refused_reply by (metis fst_conv)
  next
    case (3 s)
    then show ?case using reply [of s "Rq_get kVersionKey"] published_store.missing [OF assms, of "fst s"] refused_reply by (metis fst_conv)
  next
    case (4 s v F)
    then show ?case
      using reply [of s "Rq_hgetall (snapshot_key (int v))"] published_store.snapshot [OF assms, of "fst s" v F] refused_reply(1)
      by (metis fst_conv option.inject)
  next
    case (5 s F)
    then show ?case
      using reply [of s "Rq_hgetall kFilesKey"] published_store.mirror [OF assms, of "fst s" F] refused_reply(1)
      by (metis fst_conv option.inject)
  next
    case (6 s)
    then show ?case using published_store.small [OF assms] by blast
  qed
qed

interpretation pull: published_store "deadline_cmd deadline live_cmd" "\<lambda>s. live_ok (fst s)" "\<lambda>s. live_pub (fst s)" "\<lambda>s. live_cur (fst s)"
  for deadline
  by (rule deadline_store [OF live.published_store_axioms])


definition demo_pull :: config_sync_config where
  "demo_pull = \<lparr>sy_enabled = True, sy_sync_interval_sec = 5, sy_machine_name = [], sy_first_pull = ''blocking'', sy_first_pull_timeout_ms = 3000,
     sy_admin = \<lparr>ac_accounts = [], ac_jwt_private_key = [], ac_jwt_public_key = [], ac_token_ttl_min = 1, ac_insecure_no_auth = False\<rparr>,
     sy_history = demo_history\<rparr>"

definition demo_pull_redis :: redis_config where
  "demo_pull_redis = \<lparr>rd_host = ''h'', rd_port = 6379, rd_db = 0, rd_connect_timeout_ms = 1000, rd_cmd_timeout_ms = 0, rd_mode = Worker,
     rd_min_size = 4, rd_max_size = 32, rd_max_idle_sec = 120, rd_worker_threads = 16, rd_max_creating = 0, rd_acquire_timeout_ms = 3000\<rparr>"


section \<open>The periodic service\<close>

text \<open>
  A tick is a \<^verbatim>\<open>TickCompletion\<close>: it is finished when its callback is called or when the last reference to it goes, whatever comes
  first and however often. \<open>True\<close> marks a finished one.
\<close>

record sync_service =
  ss_started :: bool
  ss_on :: bool
  ss_timer :: bool
  ss_in_flight :: int
  ss_ticks :: "bool list"
  ss_posted :: nat

definition sync_service0 :: sync_service where
  "sync_service0 = \<lparr>ss_started = False, ss_on = False, ss_timer = False, ss_in_flight = 0, ss_ticks = [], ss_posted = 0\<rparr>"

definition sync_schedule_after :: "sync_service \<Rightarrow> sync_service" where
  "sync_schedule_after q = (if ss_on q then q\<lparr>ss_timer := True\<rparr> else q)"

definition sync_start :: "config_sync_config \<Rightarrow> sync_service \<Rightarrow> sync_service" where
  "sync_start cfg q =
     (if \<not> sy_enabled cfg \<or> sy_sync_interval_sec cfg \<le> 0 then q else sync_schedule_after (q\<lparr>ss_on := True\<rparr>))"

definition sync_stop :: "sync_service \<Rightarrow> sync_service" where
  "sync_stop q = q\<lparr>ss_on := False, ss_timer := False\<rparr>"

definition launch_tick :: "sync_service \<Rightarrow> sync_service" where
  "launch_tick q = q\<lparr>ss_in_flight := ss_in_flight q + 1, ss_ticks := ss_ticks q @ [False]\<rparr>"

definition sync_timer_fires :: "sync_service \<Rightarrow> sync_service" where
  "sync_timer_fires q = (let q = q\<lparr>ss_timer := False\<rparr> in if ss_on q then launch_tick q else q)"

definition finish_tick :: "sync_service \<Rightarrow> sync_service" where
  "finish_tick q =
     (let q = (if ss_in_flight q > 0 then q\<lparr>ss_in_flight := ss_in_flight q - 1\<rparr> else q)
      in if ss_on q then q\<lparr>ss_posted := ss_posted q + 1\<rparr> else q)"

definition tick_finish :: "nat \<Rightarrow> sync_service \<Rightarrow> sync_service" where
  "tick_finish i q = (if ss_ticks q ! i then q else finish_tick (q\<lparr>ss_ticks := (ss_ticks q)[i := True]\<rparr>))"

definition tick_destroyed :: "nat \<Rightarrow> sync_service \<Rightarrow> sync_service" where
  "tick_destroyed i q = (let q = tick_finish i q in q\<lparr>ss_ticks := take i (ss_ticks q) @ drop (i + 1) (ss_ticks q)\<rparr>)"

definition posted_runs :: "sync_service \<Rightarrow> sync_service" where
  "posted_runs q = sync_schedule_after (q\<lparr>ss_posted := ss_posted q - 1\<rparr>)"

inductive sync_step :: "config_sync_config \<Rightarrow> sync_service \<Rightarrow> sync_service \<Rightarrow> bool" for cfg where
  Start: "\<not> ss_started q \<Longrightarrow> sync_step cfg q (sync_start cfg (q\<lparr>ss_started := True\<rparr>))"
| Stop: "sync_step cfg q (sync_stop q)"
| Fire: "ss_timer q \<Longrightarrow> sync_step cfg q (sync_timer_fires q)"
| Callback: "i < length (ss_ticks q) \<Longrightarrow> sync_step cfg q (tick_finish i q)"
| Destroyed: "i < length (ss_ticks q) \<Longrightarrow> sync_step cfg q (tick_destroyed i q)"
| Posted: "ss_posted q > 0 \<Longrightarrow> sync_step cfg q (posted_runs q)"

definition open_ticks :: "sync_service \<Rightarrow> nat" where
  "open_ticks q = count_list (ss_ticks q) False"

definition pulse :: "sync_service \<Rightarrow> nat" where
  "pulse q = (if ss_timer q then 1 else 0) + open_ticks q + ss_posted q"

definition sync_ok :: "sync_service \<Rightarrow> bool" where
  "sync_ok q \<longleftrightarrow> ss_in_flight q = int (open_ticks q) \<and> pulse q \<le> 1 \<and> (ss_on q \<longrightarrow> pulse q = 1) \<and>
     (\<not> ss_started q \<longrightarrow> \<not> ss_on q \<and> pulse q = 0)"

lemma count_list_update: "i < length xs \<Longrightarrow> \<not> xs ! i \<Longrightarrow> Suc (count_list (xs[i := True]) False) = count_list xs False"
  by (induction xs arbitrary: i) (auto simp: nth_Cons split: nat.splits)

lemma count_list_removed: "i < length xs \<Longrightarrow> xs ! i \<Longrightarrow> count_list (take i xs @ drop (Suc i) xs) False = count_list xs False"
  by (induction xs arbitrary: i) (auto simp: nth_Cons split: nat.splits)

lemmas sync_service_defs =
  sync_schedule_after_def sync_start_def sync_stop_def launch_tick_def sync_timer_fires_def finish_tick_def posted_runs_def pulse_def
  open_ticks_def Let_def

lemma sync_ok_finish:
  assumes "sync_ok q" and "i < length (ss_ticks q)"
  shows "sync_ok (tick_finish i q)" "ss_ticks (tick_finish i q) ! i" "length (ss_ticks (tick_finish i q)) = length (ss_ticks q)"
    "open_ticks (tick_finish i q) \<le> open_ticks q"
proof -
  have all: "sync_ok (tick_finish i q) \<and> ss_ticks (tick_finish i q) ! i \<and> length (ss_ticks (tick_finish i q)) = length (ss_ticks q) \<and>
      open_ticks (tick_finish i q) \<le> open_ticks q"
  proof (cases "ss_ticks q ! i")
    case True
    with assms show ?thesis by (simp add: tick_finish_def)
  next
    case False
    from count_list_update [OF assms(2) this] assms False show ?thesis by (auto simp: tick_finish_def sync_ok_def sync_service_defs)
  qed
  then show "sync_ok (tick_finish i q)" "ss_ticks (tick_finish i q) ! i" "length (ss_ticks (tick_finish i q)) = length (ss_ticks q)"
    "open_ticks (tick_finish i q) \<le> open_ticks q" by blast+
qed

lemma sync_ok_destroyed:
  assumes "sync_ok q" and "i < length (ss_ticks q)"
  shows "sync_ok (tick_destroyed i q)" "open_ticks (tick_destroyed i q) \<le> open_ticks q"
proof -
  let ?q = "tick_finish i q"
  note f = sync_ok_finish [OF assms]
  have same: "open_ticks (tick_destroyed i q) = open_ticks ?q"
    using count_list_removed [of i "ss_ticks ?q"] f(2,3) assms(2) by (simp add: tick_destroyed_def open_ticks_def Let_def)
  then show "open_ticks (tick_destroyed i q) \<le> open_ticks q" using f(4) by simp
  show "sync_ok (tick_destroyed i q)" using f(1) same by (auto simp: sync_ok_def pulse_def tick_destroyed_def Let_def split: if_splits)
qed

lemma sync_ok_step: "sync_step cfg q q' \<Longrightarrow> sync_ok q \<Longrightarrow> sync_ok q'"
proof (induction rule: sync_step.induct)
  case (Callback i q)
  then show ?case by (simp add: sync_ok_finish)
next
  case (Destroyed i q)
  then show ?case by (simp add: sync_ok_destroyed)
qed (auto simp: sync_ok_def sync_service_defs)

lemma sync_ok_reachable: "(sync_step cfg)\<^sup>*\<^sup>* sync_service0 q \<Longrightarrow> sync_ok q"
  by (induction rule: rtranclp_induct) (use sync_ok_step in \<open>auto simp: sync_ok_def sync_service0_def sync_service_defs\<close>)

text \<open>
  C35. However the timer, callbacks that may come more than once, dropped references, posted handlers and stop interleave: the
  counter that \<^verbatim>\<open>stop\<close> waits for is the number of unfinished ticks, which is at most one; a service that is on has exactly one of a set
  timer, an unfinished tick and a posted handler, so ticks neither overlap nor die out; and a tick whose references are gone is finished.
\<close>

theorem ticks_never_overlap:
  assumes "(sync_step cfg)\<^sup>*\<^sup>* sync_service0 q"
  shows "ss_in_flight q = int (count_list (ss_ticks q) False) \<and> count_list (ss_ticks q) False \<le> 1 \<and>
    (ss_on q \<longrightarrow> (if ss_timer q then 1 else 0) + count_list (ss_ticks q) False + ss_posted q = 1) \<and>
    (\<forall>i < length (ss_ticks q). ss_in_flight (tick_destroyed i q) \<le> ss_in_flight q \<and>
       (\<not> ss_ticks q ! i \<longrightarrow> ss_in_flight (tick_destroyed i q) = 0))"
proof -
  have ok: "sync_ok q" by (rule sync_ok_reachable [OF assms])
  have destroyed: "ss_in_flight (tick_destroyed i q) \<le> ss_in_flight q \<and> (\<not> ss_ticks q ! i \<longrightarrow> ss_in_flight (tick_destroyed i q) = 0)"
    if i: "i < length (ss_ticks q)" for i
  proof -
    have "ss_in_flight (tick_destroyed i q) \<le> ss_in_flight q"
      using sync_ok_destroyed [OF ok i] ok by (simp add: sync_ok_def)
    moreover have "ss_in_flight (tick_destroyed i q) = 0" if "\<not> ss_ticks q ! i"
    proof -
      have "ss_in_flight q = 1" using ok that count_list_update [OF i that] by (auto simp: sync_ok_def pulse_def open_ticks_def)
      then show ?thesis using that by (simp add: tick_destroyed_def tick_finish_def finish_tick_def Let_def)
    qed
    ultimately show ?thesis by blast
  qed
  with ok show ?thesis unfolding sync_ok_def pulse_def open_ticks_def by auto
qed

theorem ticks_never_overlap_witness:
  "\<exists>q. (sync_step demo_pull)\<^sup>*\<^sup>* sync_service0 q \<and> ss_on q \<and> ss_ticks q = [False] \<and> ss_in_flight q = 1 \<and> ss_in_flight (tick_destroyed 0 q) = 0"
proof -
  define q1 where "q1 = sync_start demo_pull (sync_service0\<lparr>ss_started := True\<rparr>)"
  define q2 where "q2 = sync_timer_fires q1"
  have "sync_step demo_pull sync_service0 q1" unfolding q1_def by (rule sync_step.Start) (simp add: sync_service0_def)
  moreover have "sync_step demo_pull q1 q2" unfolding q2_def
    by (rule sync_step.Fire) (simp add: q1_def sync_service_defs demo_pull_def sync_service0_def)
  ultimately have run: "(sync_step demo_pull)\<^sup>*\<^sup>* sync_service0 q2" by (meson rtranclp.rtrancl_into_rtrancl rtranclp.rtrancl_refl)
  have q2: "ss_on q2" "ss_ticks q2 = [False]"
    by (simp_all add: q2_def q1_def sync_service_defs demo_pull_def sync_service0_def)
  from ticks_never_overlap [OF run] q2 have "ss_in_flight q2 = 1" "ss_in_flight (tick_destroyed 0 q2) = 0" by simp_all
  with run q2 show ?thesis by blast
qed

end
