(* ===== verification/Spec2Isabelle.thy ===== *)
theory Spec2Isabelle
  imports Reload_Service Redis_Pool Admin_Login Rate_Global Counters Lifecycle History_Service Sync_Lifecycle
begin

text \<open>
  A model of the gateway asio_owen and the theorems that make it correct.

  \<^bold>\<open>The program.\<close> The gateway accepts HTTP/1.x connections, checks each request against its security rules, answers it from a
  local route or forwards it to an upstream server over pooled connections, and replaces its rules and routes while
  it runs. Local routes use MySQL and Redis through two connection pools. Exceptions are values on the left of a sum or \<open>None\<close>,
  mutable objects are records passed explicitly, concurrent objects are step relations or step functions whose steps are
  the critical sections and atomic operations of the source.

  \<^bold>\<open>From the byte stream to a request.\<close>
  \<^item> \<open>Http_Protocol\<close> (\<^verbatim>\<open>http/http_protocol.hpp\<close>): number parsers, header names, connection tokens, the framing of a message
    (length, chunked, none, conflicting), log renderings.
  \<^item> \<open>Http_Io\<close> (\<^verbatim>\<open>http/http_io.hpp\<close>): reads and writes with a deadline; an event list stands for what the
    socket delivers.
  \<^item> \<open>Body_Reader\<close> (\<^verbatim>\<open>http/http_body_reader.hpp\<close>): fixed and chunked bodies. The reader inverts the encoding for every way the bytes
    are cut into reads, and leaves exactly the bytes after the message.
  \<^item> \<open>Client_Session\<close> (\<^verbatim>\<open>http/client_session.hpp\<close>): the loop over the requests of a connection, the pipeline of
    one request, the exchange with the upstream and its single retry, the decision to keep the connection.

  \<^bold>\<open>Security.\<close>
  \<^item> \<open>Path_Normalize\<close> (\<^verbatim>\<open>security/path_normalize.hpp\<close>): normalised paths are canonical, without dot segments or encoded
    separators.
  \<^item> \<open>Client_Address\<close> (\<^verbatim>\<open>cidr.hpp, ip_blacklist.hpp, real_ip.hpp\<close>): prefixes, the address blacklist, the client
    address behind trusted proxies. The address library is a parameter.
  \<^item> \<open>Access_Lists\<close> (\<^verbatim>\<open>auth_whitelist.hpp, path_blacklist.hpp\<close>), \<open>Jwt_Auth\<close> (\<^verbatim>\<open>jwt_auth.hpp\<close>, the token
    library is a parameter), \<open>Cors\<close> (\<^verbatim>\<open>http/cors.hpp\<close>).
  \<^item> \<open>Rate_Limiter\<close>, \<open>Rate_Global\<close>, \<open>Rate_Snapshot\<close> (\<^verbatim>\<open>rate_limiter.hpp\<close>): token buckets in sharded caches, which refine an
    abstract least-recently-used cache; the lock-free global bucket; saving and loading. Doubles are rationals with
    an arbitrary rounding function; theorems say which rounding they need.
  \<^item> \<open>Security_Rules\<close> (\<^verbatim>\<open>security_rules.hpp\<close>): building the rules from the configuration, the chain of checks, publication to running
    threads and their caches.

  \<^bold>\<open>Forwarding.\<close>
  \<^item> \<open>Upstream\<close> (\<^verbatim>\<open>http/upstream_manager.hpp\<close>): the route table and its reload; \<open>Http_Pool\<close> (\<^verbatim>\<open>http/http_pool.hpp\<close>): the pool of upstream
    connections under any interleaving; \<open>Proxy_Forwarder\<close> (\<^verbatim>\<open>http/proxy_forwarder.hpp\<close>): the request that is
    sent on and the response that is read back; \<open>Response\<close>, \<open>Json_Transform\<close> (\<^verbatim>\<open>response.hpp, response_builder.hpp,
    json_transform.hpp\<close>).

  \<^bold>\<open>Configuration and life cycle.\<close>
  \<^item> \<open>Config_Ini\<close> (\<^verbatim>\<open>common/config.hpp\<close>), \<open>App_Config\<close> (\<^verbatim>\<open>app/app_config.hpp\<close>): the ini store and the typed settings with their
    defaults, clamps and refusals.
  \<^item> \<open>Reload_Service\<close> (\<^verbatim>\<open>app/reload_service.hpp\<close>): the watcher that publishes rules, then routes.
  \<^item> \<open>Publisher\<close>: the contract of a component whose view is replaced together with a generation number, a locale
    interpreted for the rules and for the route table.
  \<^item> \<open>Counters\<close> (\<^verbatim>\<open>http_pool.hpp, combo_deadline.hpp, combo_query_limiter.hpp, admin_auth_runtime.hpp,
    process_fd_budget.hpp\<close>), \<open>Lifecycle\<close> (\<^verbatim>\<open>shutdown_coordinator.hpp, route_lifecycle.hpp\<close>): counters with compare-and-swap
    loops, single answers, draining.

  \<^bold>\<open>Databases.\<close>
  \<^item> \<open>Db_Pool\<close>: the common machine of both connection pools, threads included, with the deque operations as the parameter of
    the locale \<open>idle_deque\<close>; \<open>Mysql_Pool\<close> (\<^verbatim>\<open>db/mysql_pool.hpp\<close>) and \<open>Redis_Pool\<close> (\<^verbatim>\<open>db/redis_pool.hpp, redis_reply.cpp,
    redis_connection.cpp\<close>) interpret it and add settings, queries, commands with their retry, replies and the thread-local
    connection.
  \<^item> \<open>Mysql_Json\<close> (\<^verbatim>\<open>db/mysql_result_json.cpp\<close>): result sets as JSON and the scanner for the first value.

  \<^bold>\<open>Administration.\<close>
  \<^item> \<open>Admin_Json\<close> (\<^verbatim>\<open>app/admin/config_admin_parse.cpp\<close>): the reader of the request bodies; it ends on every input, and what it
    accepts satisfies the checks of its fields.
  \<^item> \<open>Admin_Auth\<close> (\<^verbatim>\<open>app/admin/config_admin_auth.cpp\<close>): base64url, stored passwords, key files, tokens bound to the password
    record; PBKDF2, SHA-256 and RSA are a parameter.
  \<^item> \<open>Admin_Login\<close> (\<^verbatim>\<open>app/admin/admin_credential_store.hpp, admin_routes.cpp\<close>): the credential cache, authorization of a request, the
    login in its two steps.

  \<^bold>\<open>Configuration history and synchronisation.\<close>
  \<^item> \<open>Redis_Server\<close>: the commands the scripts call, on a key space of strings, hashes, lists and sorted sets; a command on a key of
    another type is an error value.
  \<^item> \<open>History_Scripts\<close> (\<^verbatim>\<open>app/admin/config_history_scripts.cpp\<close>): the Lua scripts as functions over a server. \<open>History_Safety\<close>: on keys
    of the right types no script runs into a type error, and a script that refuses has written nothing, by one simulation
    argument for all of them.
  \<^item> \<open>Config_History\<close>: the abstract history, a current version with its snapshots and a mirror of the newest one; saving and rolling
    back refine it, and concurrent editors lose no update.
  \<^item> \<open>History_Data\<close> (\<^verbatim>\<open>app/admin/config_history_data.cpp\<close>): hashes of file sets, metadata, checks of snapshots, differences.
  \<^item> \<open>Managed_Files\<close> (\<^verbatim>\<open>app/config_sync_state.cpp, config_sync_files.cpp\<close>): which files may be synchronised, writing and removing them, the state
    file. \<open>Std_Map\<close> is the ordered map.
  \<^item> \<open>Config_Sync\<close> (\<^verbatim>\<open>app/config_sync_remote.cpp, config_sync_apply.cpp, config_sync_service.cpp\<close>): one tick. The locale \<open>published_store\<close> states
    what a tick relies on, a history that only grows between its commands; it is interpreted on the scripts run by a
    server that other editors use at the same time.
  \<^item> \<open>Sync_Lifecycle\<close> (\<^verbatim>\<open>app/config_sync_lifecycle.cpp\<close>): settings, the pull before the start, whose deadline in front of the store is an
    instance of \<open>published_store\<close> again, the settings that need a restart, and timer, tick and completion as a step relation: ticks
    neither overlap nor die out.
  \<^item> \<open>Admin_Store\<close> (\<^verbatim>\<open>app/admin/config_admin_store.cpp\<close>): checks of a set of files and its dry run, which predicts what the watcher of
    \<open>Reload_Service\<close> will accept; the JSON of the answers.
  \<^item> \<open>Admin_Handlers\<close> (\<^verbatim>\<open>app/admin/admin_config_routes.cpp, admin_history_*.cpp\<close>): the handlers as chains of commands. \<open>Handler_Safety\<close>: no command
    without authorization, and answers that tell the truth about what was saved, rolled back or read while others work on the
    same store; the lemmas on reading are proved in \<open>published_store\<close>.
  \<^item> \<open>Check_Queue\<close> (\<^verbatim>\<open>app/config_history_service.hpp\<close>): the timer and the requests of the background service as a step relation; no
    request is lost and each is answered by a check that began after it. \<open>History_Service\<close>: its three scripts, the health
    check, the migration and the removal of old versions; a check removes no version it should keep.

  \<^bold>\<open>Loops and bounds.\<close> Loops over data are recursive functions with termination proofs. Loops that wait for the outside world take the list of
  what they meet (socket events, upstream attempts, ticks) and give \<open>None\<close> when the list ends before they
  do. \<^verbatim>\<open>size_t\<close> arithmetic that could wrap is written out (\<open>wrap64\<close>, \<open>size_sub\<close>); 64-bit generation counters are
  natural numbers. The bound \<^verbatim>\<open>min_size\<close> + 13 on a maintenance pass counts its critical sections.
  Lua numbers are doubles printed with 14 digits, so theorems on the scripts take versions below \<open>10 ^ 14\<close>.

  \<^bold>\<open>Not modelled.\<close> Sockets, timers, threads and the allocator as such; TLS, JSON, JWT, MySQL and Redis client libraries (parameters); the
  vendored request parser \<^verbatim>\<open>picohttpparser.c\<close> (a parameter of the session); logging and statistics counters; HTML pages of the
  administration; the hand-over of replies to the file workers.
\<close>

end
